(* ===== verification/Prelude.thy ===== *)
theory Prelude
  imports Main "HOL-Library.Word"
begin

text \<open>
  Shared vocabulary of the development: the machine types of the Go source, the
  three ways a Go function can end (a value, an error value, a panic), the loop
  combinator for \<open>for _, v := range values\<close>, Go slicing, and the generic lemmas
  and collections of facts that the component theories use.

  Conventions.  A Go \<open>uint8/16/32/64\<close> or \<open>int8/16/32/64\<close> is a word of that width
  (a signed type is read with \<open>sint\<close>); the Go \<open>int\<close> used for lengths and offsets
  is \<open>nat\<close> where it cannot be negative and \<open>int\<close> where it can; a Go string is an
  Isabelle \<open>string\<close>, whose characters are its bytes.  A function that returns
  \<open>(T, error)\<close> has type \<open>T go\<close>: the \<open>T\<close> a Go function returns next to a non-nil
  error is dropped, since no caller in the modelled code reads it.
\<close>

section \<open>Types\<close>

type_synonym byte = "8 word"
type_synonym uint8 = "8 word"
type_synonym uint16 = "16 word"
type_synonym uint32 = "32 word"
type_synonym uint64 = "64 word"
type_synonym int8 = "8 word"
type_synonym int16 = "16 word"
type_synonym int32 = "32 word"
type_synonym int64 = "64 word"
type_synonym bytes = "byte list"

text \<open>The error values of \<open>xerrors/type.go\<close> that the modelled code returns, with those
  of package \<open>io\<close>, \<open>ErrIsEmpty\<close> of the ring buffer, the deadline error of package \<open>context\<close> and the two texts of \<open>Reader.Seek\<close>.\<close>

datatype goerr =
    IoEOF
  | IoUnexpectedEOF
  | ErrInvalidArgument
  | ErrUnexpectedEOF
  | ErrUnknownError
  | ErrIllegalOperation
  | ErrDeadlineExceeded
  | ErrInvalidGID
  | ErrInvalidNID
  | ErrInvalidMessage
  | ErrReceiveTargetEmpty
  | ErrSeqOverflow
  | ErrRouteOverflow
  | ErrMessageTooLarge
  | ErrNotFoundSession
  | ErrInvalidSessionKind
  | ErrNotFoundRoute
  | ErrNotFoundEvent
  | ErrNotFoundEndpoint
  | ErrNotFoundUserLocation
  | ErrNotFoundLocator
  | ErrClientShut
  | ErrClientClosed
  | ContextDeadlineExceeded
  | ErrConnectionClosed
  | ErrNotBindActor
  | ErrNotFoundActor
  | ErrActorExists
  | ErrMailboxFull
  | ErrDeliverQueueFull
  | ErrInvalidGameID
  | ErrMissingTransporter
  | ErrMissingDispatchStrategy
  | ErrUnregisterRoute
  | ErrIllegalRequest
  | ErrConnectionOpened
  | ErrConnectionHanged
  | ErrConnectionNotOpened
  | ErrConnectionNotHanged
  | ErrReceiveQueueFull
  | ErrWriteQueueTimeout
  | ErrUnauthorizedRoute
  | ErrTooManyConnection
  | ErrServerClosed
  | ErrNil
  | ErrIsEmpty
  | ErrNegativeSize
  | IoErrShortWrite
  | IoErrShortBuffer
  | SeekInvalidWhence
  | SeekNegativePosition

text \<open>How a call ends.\<close>

datatype 'a go = Ok 'a | Err goerr | Panic

section \<open>Sequencing\<close>

primrec go_bind :: "'a go \<Rightarrow> ('a \<Rightarrow> 'b go) \<Rightarrow> 'b go" where
  "go_bind (Ok a) f = f a"
| "go_bind (Err e) f = Err e"
| "go_bind Panic f = Panic"

primrec go_map :: "('a \<Rightarrow> 'b) \<Rightarrow> 'a go \<Rightarrow> 'b go" where
  "go_map f (Ok a) = Ok (f a)"
| "go_map f (Err e) = Err e"
| "go_map f Panic = Panic"

lemma go_bind_eq_Ok: "(go_bind m f = Ok b) = (\<exists>a. m = Ok a \<and> f a = Ok b)"
  by (cases m) auto

lemma go_bind_eq_Panic: "(go_bind m f = Panic) = (m = Panic \<or> (\<exists>a. m = Ok a \<and> f a = Panic))"
  by (cases m) auto

lemma go_bind_eq_Err: "(go_bind m f = Err e) = (m = Err e \<or> (\<exists>a. m = Ok a \<and> f a = Err e))"
  by (cases m) auto

lemma go_bind_cong: "m = n \<Longrightarrow> (\<And>a. n = Ok a \<Longrightarrow> f a = g a) \<Longrightarrow> go_bind m f = go_bind n g"
  by (cases n) auto

lemma go_bind_assoc [simp]: "go_bind (go_bind m f) g = go_bind m (\<lambda>x. go_bind (f x) g)"
  by (cases m) auto

lemma go_bind_return [simp]: "go_bind m Ok = m"
  by (cases m) auto

lemma go_map_eq_Ok: "(go_map f m = Ok b) = (\<exists>a. m = Ok a \<and> b = f a)"
  by (cases m) auto

lemma go_map_go_map [simp]: "go_map f (go_map g m) = go_map (\<lambda>x. f (g x)) m"
  by (cases m) auto

text \<open>The loop \<open>for _, v := range values { body }\<close> over a state.\<close>

primrec go_foreach :: "('a \<Rightarrow> 's \<Rightarrow> 's go) \<Rightarrow> 'a list \<Rightarrow> 's \<Rightarrow> 's go" where
  "go_foreach f [] s = Ok s"
| "go_foreach f (v # vs) s = go_bind (f v s) (go_foreach f vs)"

text \<open>A straight-line sequence of statements over a state.\<close>

primrec go_seq :: "('s \<Rightarrow> 's go) list \<Rightarrow> 's \<Rightarrow> 's go" where
  "go_seq [] s = Ok s"
| "go_seq (f # fs) s = go_bind (f s) (go_seq fs)"

lemma go_foreach_append:
  "go_foreach f (xs @ ys) s = go_bind (go_foreach f xs s) (go_foreach f ys)"
  by (induction xs arbitrary: s) (auto intro: go_bind_cong)

lemma go_seq_append: "go_seq (fs @ gs) s = go_bind (go_seq fs s) (go_seq gs)"
  by (induction fs arbitrary: s) (auto intro: go_bind_cong)

lemma go_foreach_invariant:
  assumes "\<And>v s s'. I s \<Longrightarrow> f v s = Ok s' \<Longrightarrow> I s'" "I s" "go_foreach f vs s = Ok s'"
  shows "I s'"
  using assms(2,3)
proof (induction vs arbitrary: s)
  case (Cons v vs)
  then show ?case by (cases "f v s") (auto intro: assms(1))
qed simp

text \<open>Mapping with a fallible function.\<close>

primrec go_mapM :: "('a \<Rightarrow> 'b go) \<Rightarrow> 'a list \<Rightarrow> 'b list go" where
  "go_mapM f [] = Ok []"
| "go_mapM f (x # xs) = go_bind (f x) (\<lambda>y. go_map (Cons y) (go_mapM f xs))"

lemma go_mapM_map_Ok: "(\<And>x. x \<in> set xs \<Longrightarrow> f (g x) = Ok x) \<Longrightarrow> go_mapM f (map g xs) = Ok xs"
  by (induction xs) auto

section \<open>Slices\<close>

text \<open>\<open>data[i:j]\<close> and \<open>data[i:]\<close> on a byte slice whose capacity is its length.\<close>

definition slice_range :: "nat \<Rightarrow> nat \<Rightarrow> 'a list \<Rightarrow> 'a list go" where
  "slice_range i j xs = (if i \<le> j \<and> j \<le> length xs then Ok (take (j - i) (drop i xs)) else Panic)"

definition slice_from :: "nat \<Rightarrow> 'a list \<Rightarrow> 'a list go" where
  "slice_from i xs = (if i \<le> length xs then Ok (drop i xs) else Panic)"

lemma slice_from_append [simp]: "length xs = n \<Longrightarrow> slice_from n (xs @ ys) = Ok ys"
  by (simp add: slice_from_def)

lemma slice_range_append [simp]:
  "length xs = i \<Longrightarrow> length ys = j - i \<Longrightarrow> i \<le> j \<Longrightarrow> slice_range i j (xs @ ys @ zs) = Ok ys"
  by (simp add: slice_range_def)

text \<open>Storing \<open>bs\<close> at an offset of an array, where it fits.\<close>

definition overwrite :: "nat \<Rightarrow> bytes \<Rightarrow> bytes \<Rightarrow> bytes" where
  "overwrite off bs mem = take off mem @ bs @ drop (off + length bs) mem"

lemma length_overwrite [simp]:
  "off + length bs \<le> length mem \<Longrightarrow> length (overwrite off bs mem) = length mem"
  by (simp add: overwrite_def)

lemma take_overwrite [simp]:
  "off + length bs \<le> length mem \<Longrightarrow> take (off + length bs) (overwrite off bs mem) = take off mem @ bs"
  by (simp add: overwrite_def)

section \<open>Strings and bytes\<close>

definition byte_of_char :: "char \<Rightarrow> byte" where
  "byte_of_char c = of_nat (of_char c)"

definition char_of_byte :: "byte \<Rightarrow> char" where
  "char_of_byte b = char_of (unat b)"

lemma char_of_byte_of_char [simp]: "char_of_byte (byte_of_char c) = c"
proof -
  have "(of_char c :: nat) < 256"
    by (metis of_char_mod_256 mod_less_divisor zero_less_numeral)
  then have "unat (of_nat (of_char c) :: byte) = of_char c"
    by (simp add: unsigned_of_nat take_bit_nat_eq_self_iff)
  then show ?thesis
    by (simp add: char_of_byte_def byte_of_char_def)
qed

lemma byte_of_char_of_byte [simp]: "byte_of_char (char_of_byte b) = b"
proof -
  have "unat b < 256" using unsigned_less [of b] by simp
  then show ?thesis
    by (simp add: char_of_byte_def byte_of_char_def of_char_of)
qed

abbreviation string_bytes :: "string \<Rightarrow> bytes" where
  "string_bytes s \<equiv> map byte_of_char s"

abbreviation bytes_string :: "bytes \<Rightarrow> string" where
  "bytes_string bs \<equiv> map char_of_byte bs"

lemma bytes_string_string_bytes [simp]: "bytes_string (string_bytes s) = s"
  by (simp add: o_def)

section \<open>Lists\<close>

lemma length_concat_const:
  "(\<And>x. x \<in> set xs \<Longrightarrow> length (f x) = k) \<Longrightarrow> length (concat (map f xs)) = k * length xs"
  by (induction xs) auto

lemma take_drop_middle: "length xs = a \<Longrightarrow> length ys = n \<Longrightarrow> take n (drop a (xs @ ys @ zs)) = ys"
  by simp

lemma nth_update_cases: "j < length xs \<Longrightarrow> xs[i := v] ! j = (if i = j then v else xs ! j)"
  by simp

lemma mod_less_if_big: "0 < m \<Longrightarrow> m \<le> n \<Longrightarrow> n mod m < (n :: nat)"
  using mod_less_divisor [of m n] by linarith

section \<open>Collections\<close>

named_theorems appends_rules \<open>what each write operation appends\<close>
named_theorems reads_rules \<open>what each read operation returns on a known prefix\<close>

end
