(* ===== verification/ByteOrder.thy ===== *)
theory ByteOrder
  imports Prelude
begin

unbundle bit_operations_syntax

text \<open>
  The part of the standard package \<open>encoding/binary\<close> that the buffers, the packet layer
  and the cluster protocol use: big and little endian \<open>PutUintN\<close> and \<open>UintN\<close>, written with
  the shifts and truncations of that package, and the round trips between them.  The
  locale \<open>fixed_codec\<close> is the contract the buffers rely on; it is interpreted on the three
  widths for both byte orders.
\<close>

section \<open>PutUintN and UintN\<close>

datatype byteorder = BigEndian | LittleEndian

fun PutUint16 :: "byteorder \<Rightarrow> uint16 \<Rightarrow> bytes" where
  "PutUint16 BigEndian v = [ucast (drop_bit 8 v), ucast v]"
| "PutUint16 LittleEndian v = [ucast v, ucast (drop_bit 8 v)]"

fun PutUint32 :: "byteorder \<Rightarrow> uint32 \<Rightarrow> bytes" where
  "PutUint32 BigEndian v =
     [ucast (drop_bit 24 v), ucast (drop_bit 16 v), ucast (drop_bit 8 v), ucast v]"
| "PutUint32 LittleEndian v =
     [ucast v, ucast (drop_bit 8 v), ucast (drop_bit 16 v), ucast (drop_bit 24 v)]"

fun PutUint64 :: "byteorder \<Rightarrow> uint64 \<Rightarrow> bytes" where
  "PutUint64 BigEndian v =
     [ucast (drop_bit 56 v), ucast (drop_bit 48 v), ucast (drop_bit 40 v), ucast (drop_bit 32 v),
      ucast (drop_bit 24 v), ucast (drop_bit 16 v), ucast (drop_bit 8 v), ucast v]"
| "PutUint64 LittleEndian v =
     [ucast v, ucast (drop_bit 8 v), ucast (drop_bit 16 v), ucast (drop_bit 24 v),
      ucast (drop_bit 32 v), ucast (drop_bit 40 v), ucast (drop_bit 48 v), ucast (drop_bit 56 v)]"

text \<open>Reading panics on a slice that is too short, and ignores what follows the integer.\<close>

fun Uint16 :: "byteorder \<Rightarrow> bytes \<Rightarrow> uint16 go" where
  "Uint16 BigEndian (b0 # b1 # _) = Ok (ucast b1 OR push_bit 8 (ucast b0))"
| "Uint16 LittleEndian (b0 # b1 # _) = Ok (ucast b0 OR push_bit 8 (ucast b1))"
| "Uint16 _ _ = Panic"

fun Uint32 :: "byteorder \<Rightarrow> bytes \<Rightarrow> uint32 go" where
  "Uint32 BigEndian (b0 # b1 # b2 # b3 # _) =
     Ok (ucast b3 OR push_bit 8 (ucast b2) OR push_bit 16 (ucast b1) OR push_bit 24 (ucast b0))"
| "Uint32 LittleEndian (b0 # b1 # b2 # b3 # _) =
     Ok (ucast b0 OR push_bit 8 (ucast b1) OR push_bit 16 (ucast b2) OR push_bit 24 (ucast b3))"
| "Uint32 _ _ = Panic"

fun Uint64 :: "byteorder \<Rightarrow> bytes \<Rightarrow> uint64 go" where
  "Uint64 BigEndian (b0 # b1 # b2 # b3 # b4 # b5 # b6 # b7 # _) =
     Ok (ucast b7 OR push_bit 8 (ucast b6) OR push_bit 16 (ucast b5) OR push_bit 24 (ucast b4) OR
         push_bit 32 (ucast b3) OR push_bit 40 (ucast b2) OR push_bit 48 (ucast b1) OR
         push_bit 56 (ucast b0))"
| "Uint64 LittleEndian (b0 # b1 # b2 # b3 # b4 # b5 # b6 # b7 # _) =
     Ok (ucast b0 OR push_bit 8 (ucast b1) OR push_bit 16 (ucast b2) OR push_bit 24 (ucast b3) OR
         push_bit 32 (ucast b4) OR push_bit 40 (ucast b5) OR push_bit 48 (ucast b6) OR
         push_bit 56 (ucast b7))"
| "Uint64 _ _ = Panic"

section \<open>Round trips\<close>

lemma length_PutUint [simp]:
  "length (PutUint16 ord v16) = 2" "length (PutUint32 ord v32) = 4" "length (PutUint64 ord v64) = 8"
  by (cases ord; simp)+

lemma PutUint_nonempty [simp]:
  "PutUint16 ord v16 \<noteq> []" "PutUint32 ord v32 \<noteq> []" "PutUint64 ord v64 \<noteq> []"
  by (cases ord; simp)+

text \<open>The byte of \<open>v\<close> at bit \<open>k\<close>, shifted back, holds exactly the bits \<open>k..k+7\<close> of \<open>v\<close>.\<close>

lemma bit_byte_back:
  fixes v :: "'a::len word"
  shows "bit (push_bit k (ucast (ucast (drop_bit k v) :: byte)) :: 'a word) n =
    (k \<le> n \<and> n < k + 8 \<and> bit v n)"
  by (auto simp: bit_simps dest: bit_imp_le_length)

lemma bit_byte_back0:
  fixes v :: "'a::len word"
  shows "bit (ucast (ucast v :: byte) :: 'a word) n = (n < 8 \<and> bit v n)"
  by (auto simp: bit_simps dest: bit_imp_le_length)

lemmas bit_bytes = bit_or_iff bit_byte_back bit_byte_back0

lemma Uint16_PutUint16 [simp]: "Uint16 ord (PutUint16 ord v @ rest) = Ok v"
  by (cases ord) (auto intro!: bit_word_eqI simp: bit_bytes)

lemma Uint32_PutUint32 [simp]: "Uint32 ord (PutUint32 ord v @ rest) = Ok v"
  by (cases ord) (auto intro!: bit_word_eqI simp: bit_bytes)

lemma Uint64_PutUint64 [simp]: "Uint64 ord (PutUint64 ord v @ rest) = Ok v"
  by (cases ord) (auto intro!: bit_word_eqI simp: bit_bytes)

lemma Uint16_PutUint16_nil [simp]: "Uint16 ord (PutUint16 ord v) = Ok v"
  using Uint16_PutUint16 [of ord v "[]"] by simp

lemma Uint32_PutUint32_nil [simp]: "Uint32 ord (PutUint32 ord v) = Ok v"
  using Uint32_PutUint32 [of ord v "[]"] by simp

lemma Uint64_PutUint64_nil [simp]: "Uint64 ord (PutUint64 ord v) = Ok v"
  using Uint64_PutUint64 [of ord v "[]"] by simp

lemma Uint16_panic_iff: "(Uint16 ord bs = Panic) = (length bs < 2)"
  by (cases "(ord, bs)" rule: Uint16.cases) simp_all

lemma Uint32_panic_iff: "(Uint32 ord bs = Panic) = (length bs < 4)"
  by (cases "(ord, bs)" rule: Uint32.cases) simp_all

lemma Uint64_panic_iff: "(Uint64 ord bs = Panic) = (length bs < 8)"
  by (cases "(ord, bs)" rule: Uint64.cases) simp_all

lemma Uint32_not_Err: "Uint32 ord bs \<noteq> Err e"
  by (cases "(ord, bs)" rule: Uint32.cases) simp_all

lemma Uint_total:
  "length bs = 2 \<Longrightarrow> \<exists>v. Uint16 ord bs = Ok v"
  "length bs = 4 \<Longrightarrow> \<exists>v. Uint32 ord bs = Ok v"
  "length bs = 8 \<Longrightarrow> \<exists>v. Uint64 ord bs = Ok v"
  by ((cases "(ord, bs)" rule: Uint16.cases; simp; fail),
      (cases "(ord, bs)" rule: Uint32.cases; simp; fail),
      (cases "(ord, bs)" rule: Uint64.cases; simp; fail))

section \<open>Fixed width codecs\<close>

text \<open>What the buffers rely on: an encoding of one width and a decoder that inverts it.
  \<open>chunk_loop\<close> is the reading loop \<open>for i := 0; i < len(buf); i += w\<close>; on the
  concatenation of encodings it gives the values back.\<close>

function chunk_loop :: "nat \<Rightarrow> (bytes \<Rightarrow> 'a go) \<Rightarrow> bytes \<Rightarrow> 'a list go" where
  "chunk_loop w get bs =
     (if bs = [] \<or> w = 0 then Ok []
      else go_bind (get (take w bs)) (\<lambda>v. go_map (Cons v) (chunk_loop w get (drop w bs))))"
  by auto
termination
  by (relation "measure (\<lambda>(w, get, bs). length bs)") auto

declare chunk_loop.simps [simp del]

lemma chunk_loop_Nil [simp]: "chunk_loop w get [] = Ok []"
  by (simp add: chunk_loop.simps)

lemma chunk_loop_step:
  "0 < w \<Longrightarrow> length b = w \<Longrightarrow> chunk_loop w get (b @ bs) =
    go_bind (get b) (\<lambda>v. go_map (Cons v) (chunk_loop w get bs))"
  by (subst chunk_loop.simps) auto

locale fixed_codec =
  fixes width :: nat and put :: "'a \<Rightarrow> bytes" and get :: "bytes \<Rightarrow> 'a go"
  assumes put_width: "length (put v) = width"
    and get_put: "get (put v) = Ok v"
    and width_pos: "0 < width"
begin

lemma put_inj: "put v = put v' \<Longrightarrow> v = v'"
  by (metis get_put go.inject(1))

lemma length_concat_put: "length (concat (map put vs)) = width * length vs"
  by (rule length_concat_const) (simp add: put_width)

lemma chunk_loop_concat_put [simp]: "chunk_loop width get (concat (map put vs)) = Ok vs"
  by (induction vs) (simp_all add: chunk_loop_step width_pos put_width get_put)

lemma concat_put_inj: "concat (map put vs) = concat (map put vs') \<Longrightarrow> vs = vs'"
  by (metis chunk_loop_concat_put go.inject(1))

text \<open>Over any bytes of the right length the loop does not fail, if the decoder does not.\<close>

lemma chunk_loop_total:
  assumes "\<And>b. length b = width \<Longrightarrow> \<exists>v. get b = Ok v" "length bs = width * n"
  shows "\<exists>vs. chunk_loop width get bs = Ok vs \<and> length vs = n"
  using assms(2)
proof (induction n arbitrary: bs)
  case (Suc n)
  obtain v where "get (take width bs) = Ok v" using assms(1) [of "take width bs"] Suc.prems by auto
  moreover obtain vs where "chunk_loop width get (drop width bs) = Ok vs" "length vs = n"
    using Suc.IH [of "drop width bs"] Suc.prems by auto
  moreover have "bs \<noteq> []" using Suc.prems width_pos by auto
  ultimately show ?case using width_pos by (subst chunk_loop.simps) auto
qed simp

end

interpretation u16: fixed_codec 2 "PutUint16 ord" "Uint16 ord" for ord
  by unfold_locales simp_all

interpretation u32: fixed_codec 4 "PutUint32 ord" "Uint32 ord" for ord
  by unfold_locales simp_all

interpretation u64: fixed_codec 8 "PutUint64 ord" "Uint64 ord" for ord
  by unfold_locales simp_all

text \<open>From here on integers are encoded and decoded through the lemmas above; \<open>byte_eval\<close> brings
  the equations back where a concrete input is evaluated.\<close>

lemmas byte_eval = PutUint16.simps PutUint32.simps PutUint64.simps Uint16.simps Uint32.simps Uint64.simps

declare byte_eval [simp del]

end
