(* ===== verification/Framing.thy ===== *)
theory Framing
  imports ByteOrder
begin

text \<open>
  Reading frames from a byte stream.  An \<open>io.Reader\<close> is the list of bytes it will still
  deliver before it reports EOF; \<open>io.ReadFull\<close> is the standard library's.  The locale
  \<open>frame_reader\<close> is what a connection's read loop relies on: a reader that takes exactly one
  frame off the stream.  It is interpreted on the packet layer and on the cluster protocol.
\<close>

section \<open>Streams\<close>

definition ReadFull :: "nat \<Rightarrow> bytes \<Rightarrow> (bytes \<times> bytes) go" where
  "ReadFull k s =
     (if k \<le> length s then Ok (take k s, drop k s)
      else if s = [] then Err IoEOF else Err IoUnexpectedEOF)"

lemma ReadFull_append [simp]: "length xs = k \<Longrightarrow> ReadFull k (xs @ ys) = Ok (xs, ys)"
  by (simp add: ReadFull_def)

lemma ReadFull_Ok_iff: "(ReadFull k s = Ok (xs, ys)) = (length xs = k \<and> s = xs @ ys)"
  by (auto simp: ReadFull_def)

lemma ReadFull_no_panic [simp]: "ReadFull k s \<noteq> Panic"
  by (simp add: ReadFull_def)

text \<open>The read loop of a connection: read frames until the reader fails; the result is the
  frames and how it stopped.  The fuel bounds the number of frames.\<close>

primrec read_loop :: "nat \<Rightarrow> (bytes \<Rightarrow> ('a \<times> bytes) go) \<Rightarrow> bytes \<Rightarrow> 'a list \<times> bytes go" where
  "read_loop 0 rd s = ([], Ok s)"
| "read_loop (Suc n) rd s =
     (case rd s of
        Ok (x, s') \<Rightarrow> (let (xs, e) = read_loop n rd s' in (x # xs, e))
      | Err e \<Rightarrow> ([], Err e)
      | Panic \<Rightarrow> ([], Panic))"

locale frame_reader =
  fixes good :: "'a \<Rightarrow> bool" and enc :: "'a \<Rightarrow> bytes" and rd :: "bytes \<Rightarrow> ('b \<times> bytes) go"
    and view :: "'a \<Rightarrow> 'b"
  assumes rd_enc: "good m \<Longrightarrow> rd (enc m @ rest) = Ok (view m, rest)"
    and rd_eof: "rd [] = Err IoEOF"
begin

lemma enc_nonempty: "good m \<Longrightarrow> enc m \<noteq> []"
  using rd_enc [of m "[]"] rd_eof by auto

text \<open>A concatenation of frames is read back frame by frame, and then the loop sees EOF.\<close>

lemma read_loop_frames:
  "list_all good ms \<Longrightarrow> length ms < n \<Longrightarrow>
   read_loop n rd (concat (map enc ms)) = (map view ms, Err IoEOF)"
proof (induction ms arbitrary: n)
  case Nil
  then show ?case by (cases n) (simp_all add: rd_eof)
next
  case (Cons m ms)
  then show ?case by (cases n) (simp_all add: rd_enc)
qed

text \<open>Frames cannot be confused: equal streams carry the same frames.\<close>

lemma frames_unique:
  assumes "list_all good ms" "list_all good ms'" "concat (map enc ms) = concat (map enc ms')"
  shows "map view ms = map view ms'"
proof -
  let ?n = "Suc (length ms + length ms')"
  have "read_loop ?n rd (concat (map enc ms)) = (map view ms, Err IoEOF)"
    "read_loop ?n rd (concat (map enc ms')) = (map view ms', Err IoEOF)"
    by (rule read_loop_frames; use assms in simp)+
  then show ?thesis using assms(3) by simp
qed

end

end
