(* ===== verification/Pool.thy ===== *)
theory Pool
  imports Prelude
begin

text \<open>
  The size-graded object pools shared by \<open>core/buffer/writer_pool.go\<close> and
  \<open>core/buffer/bytes_pool.go\<close>: a list of \<open>sync.Pool\<close>s, grade \<open>i\<close> creating objects of
  capacity \<open>2 ^ i\<close>.

  A \<open>sync.Pool\<close> holds idle objects; its \<open>Get\<close> removes and returns any one of them or, also
  when some are idle, calls \<open>New\<close>.  Which of the two is the run time's choice: \<open>sel\<close>, an
  argument of the model, picks the index of an idle object or \<open>None\<close>.  Pools hold values here,
  so that a client that keeps a pointer after \<open>Release\<close> is outside the model.
\<close>

section \<open>Grades\<close>

text \<open>\<open>int(math.Ceil(math.Log2(float64(cap))))\<close> for a positive \<open>cap\<close>.\<close>

fun ceil_log2 :: "nat \<Rightarrow> nat" where
  "ceil_log2 n = (if n \<le> 1 then 0 else Suc (ceil_log2 ((n + 1) div 2)))"

text \<open>\<open>math.Log2(0)\<close> is minus infinity, which is no index.\<close>

definition getPool :: "nat \<Rightarrow> 'a list list \<Rightarrow> nat option go" where
  "getPool cap pools =
     (if pools = [] then Ok None
      else if cap = 0 then Panic
      else Ok (Some (min (ceil_log2 cap) (length pools - 1))))"

definition pool_take :: "(nat \<Rightarrow> 'a) \<Rightarrow> ('a list \<Rightarrow> nat option) \<Rightarrow> nat \<Rightarrow> 'a list list \<Rightarrow> 'a \<times> 'a list list" where
  "pool_take new sel i pools =
     (let idle = pools ! i
      in case sel idle of
           Some k \<Rightarrow> if k < length idle
                     then (idle ! k, pools[i := take k idle @ drop (Suc k) idle])
                     else (new i, pools)
         | None \<Rightarrow> (new i, pools))"

section \<open>Facts\<close>

lemma ceil_log2_upper: "n \<le> 2 ^ ceil_log2 n"
proof (induction n rule: ceil_log2.induct)
  case (1 n)
  show ?case
  proof (cases "n \<le> 1")
    case False
    then have "(n + 1) div 2 \<le> 2 ^ ceil_log2 ((n + 1) div 2)" using 1 by simp
    then have "n \<le> 2 * 2 ^ ceil_log2 ((n + 1) div 2)" by linarith
    with False show ?thesis by (subst ceil_log2.simps) simp
  qed simp
qed

declare ceil_log2.simps [simp del]

lemma ceil_log2_1 [simp]: "ceil_log2 0 = 0" "ceil_log2 (Suc 0) = 0"
  by (simp_all add: ceil_log2.simps)

lemma getPool_enough:
  "0 < cap \<Longrightarrow> cap \<le> 2 ^ (length ps - 1) \<Longrightarrow> getPool cap ps = Ok (Some i) \<Longrightarrow> cap \<le> 2 ^ i"
  using ceil_log2_upper [of cap] by (auto simp: getPool_def min_def split: if_splits)

definition pools_ok :: "(nat \<Rightarrow> 'a \<Rightarrow> bool) \<Rightarrow> 'a list list \<Rightarrow> bool" where
  "pools_ok idle ps \<longleftrightarrow> ps \<noteq> [] \<and> (\<forall>i < length ps. \<forall>x \<in> set (ps ! i). idle i x)"

lemma pools_ok_empty: "pools_ok idle (replicate (Suc g) [])"
  by (simp add: pools_ok_def nth_append del: replicate.simps)

text \<open>The contract of a pool: \<open>New\<close> makes idle objects.  Then whatever the run time hands out
  is idle, and taking and putting back idle objects keeps the pools so.\<close>

locale graded_pool =
  fixes new :: "nat \<Rightarrow> 'a" and idle :: "nat \<Rightarrow> 'a \<Rightarrow> bool"
  assumes idle_new: "idle i (new i)"
begin

lemma take_idle:
  "pools_ok idle ps \<Longrightarrow> pool_take new sel i ps = (x, ps') \<Longrightarrow> i < length ps \<Longrightarrow> idle i x"
  by (auto simp: pools_ok_def pool_take_def Let_def idle_new split: option.splits if_splits)

lemma take_length: "pool_take new sel i ps = (x, ps') \<Longrightarrow> length ps' = length ps"
  by (auto simp: pool_take_def Let_def split: option.splits if_splits)

lemma take_pools_ok:
  "pools_ok idle ps \<Longrightarrow> pool_take new sel i ps = (x, ps') \<Longrightarrow> pools_ok idle ps' \<and> length ps' = length ps"
  by (auto simp: pools_ok_def pool_take_def Let_def nth_update_cases
      dest!: in_set_takeD in_set_dropD split: option.splits if_splits)

lemma put_pools_ok:
  "pools_ok idle ps \<Longrightarrow> idle i x \<Longrightarrow> pools_ok idle (ps[i := x # ps ! i])"
  by (auto simp: pools_ok_def nth_update_cases split: if_splits)

end

end
