(* ===== verification/GoBytes.thy ===== *)
theory GoBytes
  imports Pool
begin

text \<open>
  \<open>core/buffer/bytes.go\<close> and \<open>core/buffer/bytes_pool.go\<close>: a fixed byte block with a length,
  and the graded pool it comes from.  The methods are called on possibly nil pointers, which
  are \<open>None\<close> here.
\<close>

section \<open>Bytes\<close>

record gbytes =
  bmem :: bytes
  boff :: nat
  bpool :: "nat option"

definition NewBytes :: "bytes \<Rightarrow> gbytes" where
  "NewBytes buf = \<lparr>bmem = buf, boff = length buf, bpool = None\<rparr>"

definition NewBytesWithCapacity :: "nat \<Rightarrow> gbytes" where
  "NewBytesWithCapacity cap = \<lparr>bmem = replicate cap 0, boff = cap, bpool = None\<rparr>"

definition Bytes_Len :: "gbytes option \<Rightarrow> nat" where
  "Bytes_Len b = (case b of None \<Rightarrow> 0 | Some b \<Rightarrow> boff b)"

definition Bytes_Cap :: "gbytes option \<Rightarrow> nat" where
  "Bytes_Cap b = (case b of None \<Rightarrow> 0 | Some b \<Rightarrow> length (bmem b))"

definition Bytes_Available :: "gbytes option \<Rightarrow> int" where
  "Bytes_Available b = (case b of None \<Rightarrow> 0 | Some b \<Rightarrow> int (length (bmem b)) - int (boff b))"

definition Bytes_Bytes :: "gbytes option \<Rightarrow> bytes go" where
  "Bytes_Bytes b = (case b of None \<Rightarrow> Ok [] | Some b \<Rightarrow> slice_range 0 (boff b) (bmem b))"

section \<open>Bytes pool\<close>

record bytes_pool =
  bpools :: "gbytes list list"

definition NewBytesPool :: "nat \<Rightarrow> bytes_pool" where
  "NewBytesPool grade = \<lparr>bpools = replicate (grade + 1) []\<rparr>"

definition BytesPool_New :: "nat \<Rightarrow> gbytes" where
  "BytesPool_New i = \<lparr>bmem = replicate (2 ^ i) 0, boff = 2 ^ i, bpool = Some i\<rparr>"

definition BytesPool_Get ::
    "(gbytes list \<Rightarrow> nat option) \<Rightarrow> nat \<Rightarrow> bytes_pool \<Rightarrow> (gbytes option \<times> bytes_pool) go" where
  "BytesPool_Get sel cap p =
     go_map (\<lambda>pool. case pool of
                None \<Rightarrow> (None, p)
              | Some i \<Rightarrow> (let (b, ps) = pool_take BytesPool_New sel i (bpools p)
                           in (Some (b\<lparr>boff := cap\<rparr>), p\<lparr>bpools := ps\<rparr>)))
       (getPool cap (bpools p))"

definition BytesPool_Put :: "gbytes option \<Rightarrow> bytes_pool \<Rightarrow> bytes_pool go" where
  "BytesPool_Put b p =
     go_map (\<lambda>pool. case (pool, b) of
                (Some i, Some b) \<Rightarrow> p\<lparr>bpools := (bpools p)[i := b # bpools p ! i]\<rparr>
              | _ \<Rightarrow> p)
       (getPool (Bytes_Cap b) (bpools p))"

text \<open>\<open>Release\<close> has no nil guard.\<close>

definition Bytes_Release :: "gbytes option \<Rightarrow> bytes_pool \<Rightarrow> (gbytes \<times> bytes_pool) go" where
  "Bytes_Release b p =
     (case b of
        None \<Rightarrow> Panic
      | Some b \<Rightarrow>
          let b' = b\<lparr>boff := 0\<rparr>
          in Ok (case bpool b of
                   None \<Rightarrow> (b', p)
                 | Some i \<Rightarrow> (b', p\<lparr>bpools := (bpools p)[i := b' # bpools p ! i]\<rparr>)))"

section \<open>Facts\<close>

definition bytes_idle :: "nat \<Rightarrow> gbytes \<Rightarrow> bool" where
  "bytes_idle i b \<longleftrightarrow> 2 ^ i \<le> length (bmem b) \<and> bpool b = Some i"

interpretation bpl: graded_pool BytesPool_New bytes_idle
  by unfold_locales (simp add: bytes_idle_def BytesPool_New_def)

abbreviation bytes_pool_ok :: "bytes_pool \<Rightarrow> bool" where
  "bytes_pool_ok p \<equiv> pools_ok bytes_idle (bpools p)"

lemma NewBytesPool_ok: "bytes_pool_ok (NewBytesPool g)"
  by (simp add: NewBytesPool_def pools_ok_empty del: replicate_Suc)

lemma BytesPool_Get_ok:
  assumes "bytes_pool_ok p" "0 < cap"
  shows "\<exists>b p'. BytesPool_Get sel cap p = Ok (Some b, p') \<and> boff b = cap \<and>
    bytes_idle (min (ceil_log2 cap) (length (bpools p) - 1)) b \<and> bytes_pool_ok p' \<and>
    length (bpools p') = length (bpools p)"
proof -
  have ne: "bpools p \<noteq> []" using assms(1) by (simp add: pools_ok_def)
  let ?i = "min (ceil_log2 cap) (length (bpools p) - 1)"
  obtain b ps where t: "pool_take BytesPool_New sel ?i (bpools p) = (b, ps)" by fastforce
  moreover have "?i < length (bpools p)" using ne by (cases "bpools p") auto
  ultimately show ?thesis
    using bpl.take_idle [OF assms(1)] bpl.take_pools_ok [OF assms(1) t] assms(2) ne
    by (auto simp: BytesPool_Get_def getPool_def bytes_idle_def)
qed

lemma Bytes_Release_ok:
  assumes "bytes_pool_ok p" "\<And>i. bpool b = Some i \<Longrightarrow> 2 ^ i \<le> length (bmem b)"
  shows "\<exists>b' p'. Bytes_Release (Some b) p = Ok (b', p') \<and> bytes_pool_ok p' \<and> boff b' = 0"
proof (cases "bpool b")
  case (Some i)
  have "bytes_idle i (b\<lparr>boff := 0\<rparr>)" using assms(2) [OF Some] Some by (simp add: bytes_idle_def)
  then show ?thesis using assms(1) Some by (simp add: Bytes_Release_def Let_def bpl.put_pools_ok)
qed (use assms(1) in \<open>simp add: Bytes_Release_def Let_def\<close>)

end
