(* ===== verification/PooledRead.thy ===== *)
theory PooledRead
  imports Framing GoBytes
begin

text \<open>
  Reading one length-prefixed frame into a pooled block, as \<open>ReadBuffer\<close> of \<open>packet/packer.go\<close>
  and \<open>ReaderBuffer\<close> of \<open>protocol/reader.go\<close> both do.  They differ in the byte order and in what
  an empty frame gives, which are arguments here.
\<close>

text \<open>\<open>int(defaultSizeBytes + size)\<close>: the sum is taken in \<open>uint32\<close>.\<close>

definition frame_bytes :: "uint32 \<Rightarrow> nat" where
  "frame_bytes sz = unat (4 + sz)"

text \<open>The deferred \<open>buf1.Release()\<close> and the release of \<open>buf2\<close> on a failed read are part of the
  function, so the pool is returned next to every outcome.\<close>

definition fill_bytes :: "bytes \<Rightarrow> gbytes \<Rightarrow> gbytes" where
  "fill_bytes data b = b\<lparr>bmem := overwrite 0 data (bmem b)\<rparr>"

definition release_bytes :: "gbytes \<Rightarrow> bytes_pool \<Rightarrow> bytes_pool" where
  "release_bytes b bp = (case Bytes_Release (Some b) bp of Ok (_, bp') \<Rightarrow> bp' | _ \<Rightarrow> bp)"

definition read_body_pooled ::
    "byteorder \<Rightarrow> gbytes option go \<Rightarrow> (gbytes list \<Rightarrow> nat option) \<Rightarrow> bytes \<Rightarrow> bytes \<Rightarrow> bytes_pool \<Rightarrow>
     (gbytes option \<times> bytes) go \<times> bytes_pool" where
  "read_body_pooled ord zero sel buf s bp =
     (case Uint32 ord buf of
        Ok sz \<Rightarrow>
          if sz = 0 then (go_map (\<lambda>b. (b, s)) zero, bp)
          else (case BytesPool_Get sel (frame_bytes sz) bp of
                  Ok (Some buf2, bp2) \<Rightarrow>
                    if frame_bytes sz < 4 \<or> length (bmem buf2) < frame_bytes sz
                    then (Panic, bp2)
                    else (case ReadFull (frame_bytes sz - 4) s of
                            Ok (body, s') \<Rightarrow> (Ok (Some (fill_bytes (buf @ body) buf2), s'), bp2)
                          | Err e \<Rightarrow> (Err e, release_bytes buf2 bp2)
                          | Panic \<Rightarrow> (Panic, bp2))
                | _ \<Rightarrow> (Panic, bp))
      | _ \<Rightarrow> (Panic, bp))"

definition read_frame_pooled ::
    "byteorder \<Rightarrow> gbytes option go \<Rightarrow> (gbytes list \<Rightarrow> nat option) \<Rightarrow> bytes \<Rightarrow> bytes_pool \<Rightarrow>
     (gbytes option \<times> bytes) go \<times> bytes_pool" where
  "read_frame_pooled ord zero sel s bp =
     (case BytesPool_Get sel 4 bp of
        Ok (Some buf1, bp1) \<Rightarrow>
          (case ReadFull 4 s of
             Ok (buf, s') \<Rightarrow>
               (let (res, bp2) = read_body_pooled ord zero sel buf s' bp1
                in (res, release_bytes (fill_bytes buf buf1) bp2))
           | Err e \<Rightarrow> (Err e, release_bytes buf1 bp1)
           | Panic \<Rightarrow> (Panic, release_bytes buf1 bp1))
      | _ \<Rightarrow> (Panic, bp))"

section \<open>Facts\<close>

lemma frame_bytes_no_wrap: "unat sz < 2 ^ 32 - 4 \<Longrightarrow> frame_bytes sz = 4 + unat sz"
  by (simp add: frame_bytes_def unat_word_ariths)

lemma frame_bytes_wrap: "2 ^ 32 - 4 \<le> unat sz \<Longrightarrow> frame_bytes sz < 4"
proof -
  assume "2 ^ 32 - 4 \<le> unat sz"
  moreover have "unat sz < 2 ^ 32" using unsigned_less [of sz, where 'a = nat] by simp
  ultimately have "(4 + unat sz) mod 2 ^ 32 = unat sz + 4 - 2 ^ 32" by (simp add: mod_if)
  then show ?thesis using \<open>unat sz < 2 ^ 32\<close> by (simp add: frame_bytes_def unat_word_ariths)
qed

text \<open>What the frame reader returns when the pool is left out.\<close>

definition read_frame :: "byteorder \<Rightarrow> bytes option go \<Rightarrow> bytes \<Rightarrow> (bytes option \<times> bytes) go" where
  "read_frame ord zero s =
     go_bind (ReadFull 4 s) (\<lambda>(buf, s).
     go_bind (Uint32 ord buf) (\<lambda>sz.
     if sz = 0 then go_map (\<lambda>b. (b, s)) zero
     else if frame_bytes sz < 4 then Panic
     else go_map (\<lambda>(body, s). (Some (buf @ body), s)) (ReadFull (frame_bytes sz - 4) s)))"

definition frame_block :: "gbytes option \<Rightarrow> bytes option" where
  "frame_block b = map_option (\<lambda>b. take (boff b) (bmem b)) b"

lemma frame_block_None [simp]: "frame_block None = None"
  by (simp add: frame_block_def)

abbreviation block_result :: "(gbytes option \<times> bytes) go \<Rightarrow> (bytes option \<times> bytes) go" where
  "block_result res \<equiv> go_map (\<lambda>(b, s). (frame_block b, s)) res"

definition default_pool :: "bytes_pool \<Rightarrow> bool" where
  "default_pool bp \<longleftrightarrow> bytes_pool_ok bp \<and> length (bpools bp) = 33"

lemma release_bytes_ok:
  assumes "default_pool bp" "bytes_idle i b"
  shows "default_pool (release_bytes b bp)"
proof -
  obtain b' bp' where r: "Bytes_Release (Some b) bp = Ok (b', bp')" "bytes_pool_ok bp'"
    using Bytes_Release_ok [of bp b] assms by (auto simp: default_pool_def bytes_idle_def)
  moreover have "length (bpools bp') = length (bpools bp)"
    using r(1) by (auto simp: Bytes_Release_def Let_def split: option.splits)
  ultimately show ?thesis using assms(1) by (simp add: release_bytes_def default_pool_def)
qed

lemma Get_block:
  assumes "default_pool bp" "0 < cap" "cap < 2 ^ 32"
  shows "\<exists>b bp' i. BytesPool_Get sel cap bp = Ok (Some b, bp') \<and> boff b = cap \<and> cap \<le> length (bmem b) \<and>
    bytes_idle i b \<and> default_pool bp'"
proof -
  obtain b bp' where g: "BytesPool_Get sel cap bp = Ok (Some b, bp')" "boff b = cap"
      "bytes_idle (min (ceil_log2 cap) 32) b" "bytes_pool_ok bp'" "length (bpools bp') = 33"
    using BytesPool_Get_ok [of bp cap sel] assms by (auto simp: default_pool_def)
  have "cap \<le> 2 ^ min (ceil_log2 cap) 32"
    using ceil_log2_upper [of cap] assms(3) by (cases "ceil_log2 cap \<le> 32") (auto simp: min_def)
  then show ?thesis using g by (auto simp: default_pool_def bytes_idle_def)
qed

lemma read_body_pooled_ok:
  assumes "default_pool bp" "Uint32 ord buf = Ok sz" "length buf = 4"
  shows "default_pool (snd (read_body_pooled ord zero sel buf s bp)) \<and>
    block_result (fst (read_body_pooled ord zero sel buf s bp)) =
      (if sz = 0 then go_map (\<lambda>b. (frame_block b, s)) zero
       else if frame_bytes sz < 4 then Panic
       else go_map (\<lambda>(body, s). (Some (buf @ body), s)) (ReadFull (frame_bytes sz - 4) s))"
proof (cases "sz = 0 \<or> frame_bytes sz = 0")
  case True
  then show ?thesis using assms
    by (auto simp: read_body_pooled_def split_beta BytesPool_Get_def getPool_def default_pool_def pools_ok_def)
next
  case False
  have "frame_bytes sz < 2 ^ 32"
    using unsigned_less [of "4 + sz", where 'a = nat] by (simp add: frame_bytes_def)
  then obtain b bp2 i where b: "BytesPool_Get sel (frame_bytes sz) bp = Ok (Some b, bp2)"
      "boff b = frame_bytes sz" "frame_bytes sz \<le> length (bmem b)" "bytes_idle i b" "default_pool bp2"
    using Get_block [OF assms(1), of "frame_bytes sz" sel] False by auto
  show ?thesis
  proof (cases "ReadFull (frame_bytes sz - 4) s")
    case (Ok r)
    then obtain body s' where r: "r = (body, s')" "length body = frame_bytes sz - 4"
      by (cases r) (auto simp: ReadFull_Ok_iff)
    then show ?thesis
      using Ok False assms b by (auto simp: read_body_pooled_def frame_block_def fill_bytes_def overwrite_def)
  qed (use False assms b release_bytes_ok in \<open>auto simp: read_body_pooled_def\<close>)
qed

lemma read_frame_pooled_ok:
  assumes "default_pool bp" "zero = Ok None \<or> (\<exists>e. zero = Err e)"
  shows "default_pool (snd (read_frame_pooled ord zero sel s bp)) \<and>
    block_result (fst (read_frame_pooled ord zero sel s bp)) = read_frame ord (go_map frame_block zero) s"
proof -
  obtain b1 bp1 i where b1: "BytesPool_Get sel 4 bp = Ok (Some b1, bp1)" "bytes_idle i b1"
      "default_pool bp1" "4 \<le> length (bmem b1)"
    using Get_block [OF assms(1), of 4 sel] by auto
  show ?thesis
  proof (cases "ReadFull 4 s")
    case (Ok r)
    then obtain buf s' where r: "r = (buf, s')" "length buf = 4" by (cases r) (auto simp: ReadFull_Ok_iff)
    then obtain sz where sz: "Uint32 ord buf = Ok sz" using Uint_total(2) by blast
    note body = read_body_pooled_ok [OF b1(3) sz r(2), of zero sel s']
    have "bytes_idle i (fill_bytes buf b1)"
      using b1(2,4) r(2) by (simp add: bytes_idle_def fill_bytes_def)
    then show ?thesis
      using body release_bytes_ok Ok r b1 sz
      by (auto simp: read_frame_pooled_def read_frame_def split_beta)
  qed (use b1 release_bytes_ok in \<open>auto simp: read_frame_pooled_def read_frame_def\<close>)
qed

end
