(* ===== verification/Writer.thy ===== *)
theory Writer
  imports ByteOrder Pool
begin

text \<open>
  \<open>core/buffer/writer.go\<close> and \<open>core/buffer/writer_pool.go\<close>: the growing byte buffer every
  message is encoded into, and the size-graded pool it comes from.  The slice \<open>w.buf\<close> is
  kept as its backing array (\<open>wmem\<close>, as long as the capacity) with its length (\<open>wlen\<close>), since
  \<open>w.buf[i] = v\<close> is bounded by the length and \<open>w.buf[i:j]\<close> by the capacity.
\<close>

section \<open>Writer\<close>

record writer =
  wmem :: bytes
  wlen :: nat
  woff :: nat
  wpool :: "nat option"

type_synonym wop = "writer \<Rightarrow> writer go"

text \<open>\<open>mem\<close> is the backing array of the slice handed in and \<open>len\<close> the slice's length.\<close>

definition NewWriter :: "bytes \<Rightarrow> nat \<Rightarrow> writer" where
  "NewWriter mem len = \<lparr>wmem = mem, wlen = len, woff = 0, wpool = None\<rparr>"

definition NewWriterWithCapacity :: "nat option \<Rightarrow> writer" where
  "NewWriterWithCapacity cap =
     (case cap of Some c \<Rightarrow> NewWriter (replicate c 0) c | None \<Rightarrow> NewWriter [] 0)"

definition Writer_Len :: "writer \<Rightarrow> nat" where
  "Writer_Len w = woff w"

definition Writer_Cap :: "writer \<Rightarrow> nat" where
  "Writer_Cap w = length (wmem w)"

definition Writer_Available :: "writer \<Rightarrow> int" where
  "Writer_Available w = int (length (wmem w)) - int (woff w)"

definition Writer_Bytes :: "writer \<Rightarrow> bytes go" where
  "Writer_Bytes w = slice_range 0 (woff w) (wmem w)"

definition growSlice :: "int \<Rightarrow> wop" where
  "growSlice n w =
     (let c = nat (max (int (wlen w) + n) (2 * int (length (wmem w))))
      in go_map (\<lambda>old. w\<lparr>wmem := take c old @ replicate (c - length old) 0, wlen := c\<rparr>)
           (slice_range 0 (woff w) (wmem w)))"

definition Writer_Grow :: "int \<Rightarrow> wop" where
  "Writer_Grow n w = growSlice n w"

definition grow :: "nat \<Rightarrow> wop" where
  "grow n w = (if woff w + n < length (wmem w) then Ok w else growSlice (int n) w)"

text \<open>The three ways the methods store: \<open>w.buf[w.off] = v; w.off++\<close>, a \<open>PutUintN\<close> into
  \<open>w.buf[w.off:w.off+k]\<close> followed by \<open>w.off += k\<close>, and \<open>copy(w.buf[w.off:], p)\<close>, which stops
  at the length of the destination and returns how much it copied.\<close>

definition set_byte :: "byte \<Rightarrow> wop" where
  "set_byte v w =
     (if woff w < wlen w
      then Ok (w\<lparr>wmem := overwrite (woff w) [v] (wmem w), woff := woff w + 1\<rparr>) else Panic)"

definition put_slice :: "bytes \<Rightarrow> wop" where
  "put_slice bs w =
     (if woff w + length bs \<le> length (wmem w)
      then Ok (w\<lparr>wmem := overwrite (woff w) bs (wmem w), woff := woff w + length bs\<rparr>) else Panic)"

definition copy_into :: "bytes \<Rightarrow> writer \<Rightarrow> (nat \<times> writer) go" where
  "copy_into p w =
     (if woff w \<le> wlen w
      then let n = min (wlen w - woff w) (length p)
           in Ok (n, w\<lparr>wmem := overwrite (woff w) (take n p) (wmem w)\<rparr>)
      else Panic)"

definition Writer_Write :: "bytes \<Rightarrow> writer \<Rightarrow> (nat \<times> writer) go" where
  "Writer_Write p w =
     go_bind (grow (length p) w)
       (\<lambda>w. go_map (\<lambda>(n, w). (n, w\<lparr>woff := woff w + n\<rparr>)) (copy_into p w))"

definition WriteBools :: "bool list \<Rightarrow> wop" where
  "WriteBools values w =
     go_bind (grow (length values) w) (go_foreach (\<lambda>v. set_byte (if v then 1 else 0)) values)"

definition WriteInt8s :: "int8 list \<Rightarrow> wop" where
  "WriteInt8s values w = go_bind (grow (length values) w) (go_foreach set_byte values)"

definition WriteUint8s :: "uint8 list \<Rightarrow> wop" where
  "WriteUint8s values w = go_bind (grow (length values) w) (go_foreach set_byte values)"

definition WriteInt16s :: "byteorder \<Rightarrow> int16 list \<Rightarrow> wop" where
  "WriteInt16s ord values w =
     go_bind (grow (2 * length values) w) (go_foreach (\<lambda>v. put_slice (PutUint16 ord v)) values)"

definition WriteUint16s :: "byteorder \<Rightarrow> uint16 list \<Rightarrow> wop" where
  "WriteUint16s ord values w =
     go_bind (grow (2 * length values) w) (go_foreach (\<lambda>v. put_slice (PutUint16 ord v)) values)"

definition WriteInt32s :: "byteorder \<Rightarrow> int32 list \<Rightarrow> wop" where
  "WriteInt32s ord values w =
     go_bind (grow (4 * length values) w) (go_foreach (\<lambda>v. put_slice (PutUint32 ord v)) values)"

definition WriteUint32s :: "byteorder \<Rightarrow> uint32 list \<Rightarrow> wop" where
  "WriteUint32s ord values w =
     go_bind (grow (4 * length values) w) (go_foreach (\<lambda>v. put_slice (PutUint32 ord v)) values)"

definition WriteInt64s :: "byteorder \<Rightarrow> int64 list \<Rightarrow> wop" where
  "WriteInt64s ord values w =
     go_bind (grow (8 * length values) w) (go_foreach (\<lambda>v. put_slice (PutUint64 ord v)) values)"

definition WriteUint64s :: "byteorder \<Rightarrow> uint64 list \<Rightarrow> wop" where
  "WriteUint64s ord values w =
     go_bind (grow (8 * length values) w) (go_foreach (\<lambda>v. put_slice (PutUint64 ord v)) values)"

definition WriteFloat32s :: "byteorder \<Rightarrow> uint32 list \<Rightarrow> wop" where
  "WriteFloat32s ord values w =
     go_bind (grow (4 * length values) w) (go_foreach (\<lambda>v. put_slice (PutUint32 ord v)) values)"

definition WriteFloat64s :: "byteorder \<Rightarrow> uint64 list \<Rightarrow> wop" where
  "WriteFloat64s ord values w =
     go_bind (grow (8 * length values) w) (go_foreach (\<lambda>v. put_slice (PutUint64 ord v)) values)"

definition WriteRunes :: "byteorder \<Rightarrow> int32 list \<Rightarrow> wop" where
  "WriteRunes ord values w = WriteInt32s ord values w"

definition WriteBytes :: "bytes \<Rightarrow> wop" where
  "WriteBytes values w =
     go_bind (grow (length values) w)
       (\<lambda>w. go_map (\<lambda>(_, w). w\<lparr>woff := woff w + length values\<rparr>) (copy_into values w))"

definition WriteString :: "string \<Rightarrow> wop" where
  "WriteString str w = WriteBytes (string_bytes str) w"

section \<open>Writer pool\<close>

text \<open>\<open>wpools ! i\<close> are the idle writers of grade \<open>i\<close>.\<close>

record writer_pool =
  wpools :: "writer list list"

definition NewWriterPool :: "nat \<Rightarrow> writer_pool" where
  "NewWriterPool grade = \<lparr>wpools = replicate (grade + 1) []\<rparr>"

definition WriterPool_New :: "nat \<Rightarrow> writer" where
  "WriterPool_New i = \<lparr>wmem = replicate (2 ^ i) 0, wlen = 2 ^ i, woff = 0, wpool = Some i\<rparr>"

definition WriterPool_Get ::
    "(writer list \<Rightarrow> nat option) \<Rightarrow> nat \<Rightarrow> writer_pool \<Rightarrow> (writer option \<times> writer_pool) go" where
  "WriterPool_Get sel cap p =
     go_map (\<lambda>pool. case pool of
                None \<Rightarrow> (None, p)
              | Some i \<Rightarrow> (let (w, ps) = pool_take WriterPool_New sel i (wpools p)
                           in (Some w, p\<lparr>wpools := ps\<rparr>)))
       (getPool cap (wpools p))"

definition WriterPool_Put :: "writer \<Rightarrow> writer_pool \<Rightarrow> writer_pool go" where
  "WriterPool_Put w p =
     go_map (\<lambda>pool. case pool of
                None \<Rightarrow> p
              | Some i \<Rightarrow> p\<lparr>wpools := (wpools p)[i := w # wpools p ! i]\<rparr>)
       (getPool (Writer_Cap w) (wpools p))"

text \<open>\<open>Release\<close> puts the writer back into the grade it was allocated from, whatever it has
  grown to since.\<close>

definition Writer_Release :: "writer \<Rightarrow> writer_pool \<Rightarrow> writer \<times> writer_pool" where
  "Writer_Release w p =
     (let w' = w\<lparr>woff := 0\<rparr>
      in case wpool w of
           None \<Rightarrow> (w', p)
         | Some i \<Rightarrow> (w', p\<lparr>wpools := (wpools p)[i := w' # wpools p ! i]\<rparr>))"

section \<open>Well-formed writers and what a write appends\<close>

text \<open>Writers that \<open>NewWriterWithCapacity\<close> and the pools create have a slice as long as its
  capacity, and every write keeps it so.\<close>

definition writer_ok :: "writer \<Rightarrow> bool" where
  "writer_ok w \<longleftrightarrow> wlen w = length (wmem w) \<and> woff w \<le> length (wmem w)"

definition wbytes :: "writer \<Rightarrow> bytes" where
  "wbytes w = take (woff w) (wmem w)"

definition appends :: "wop \<Rightarrow> bytes \<Rightarrow> bool" where
  "appends op bs \<longleftrightarrow> (\<forall>w. writer_ok w \<longrightarrow>
     (\<exists>w'. op w = Ok w' \<and> writer_ok w' \<and> wbytes w' = wbytes w @ bs \<and> wpool w' = wpool w
        \<and> length (wmem w) \<le> length (wmem w')))"

lemma appendsE:
  assumes "appends op bs" "writer_ok w"
  obtains w' where "op w = Ok w'" "writer_ok w'" "wbytes w' = wbytes w @ bs" "wpool w' = wpool w"
    "length (wmem w) \<le> length (wmem w')"
  using assms by (auto simp: appends_def)

lemma Writer_Bytes_ok: "writer_ok w \<Longrightarrow> Writer_Bytes w = Ok (wbytes w)"
  by (simp add: writer_ok_def Writer_Bytes_def wbytes_def slice_range_def)

lemma length_wbytes: "writer_ok w \<Longrightarrow> length (wbytes w) = woff w"
  by (simp add: writer_ok_def wbytes_def)

text \<open>Growing keeps the written bytes and makes room for \<open>n\<close> more.\<close>

lemma growSlice_ok:
  assumes "writer_ok w"
  shows "\<exists>w'. growSlice (int n) w = Ok w' \<and> writer_ok w' \<and> wbytes w' = wbytes w \<and>
    woff w' = woff w \<and> wpool w' = wpool w \<and> woff w + n \<le> length (wmem w') \<and>
    length (wmem w) \<le> length (wmem w')"
proof -
  let ?c = "nat (max (int (wlen w) + int n) (2 * int (length (wmem w))))"
  let ?w' = "w\<lparr>wmem := take ?c (wbytes w) @ replicate (?c - woff w) 0, wlen := ?c\<rparr>"
  have off: "woff w \<le> length (wmem w)" and len: "wlen w = length (wmem w)"
    using assms by (auto simp: writer_ok_def)
  have "growSlice (int n) w = Ok ?w'"
    using off by (simp add: growSlice_def Let_def slice_range_def wbytes_def min_absorb2)
  moreover have "length (take ?c (wbytes w)) = woff w"
    using off len by (auto simp: wbytes_def)
  ultimately show ?thesis
    using off len by (intro exI [of _ ?w']) (auto simp: writer_ok_def wbytes_def)
qed

lemma grow_ok:
  assumes "writer_ok w"
  shows "\<exists>w'. grow n w = Ok w' \<and> writer_ok w' \<and> wbytes w' = wbytes w \<and>
    woff w' = woff w \<and> wpool w' = wpool w \<and> woff w + n \<le> length (wmem w') \<and>
    length (wmem w) \<le> length (wmem w')"
  using growSlice_ok [OF assms, of n] assms by (auto simp: grow_def)

text \<open>A store into the room that is there.\<close>

lemma put_slice_room:
  assumes "writer_ok w" "woff w + length bs \<le> length (wmem w)"
  shows "\<exists>w'. put_slice bs w = Ok w' \<and> writer_ok w' \<and> wbytes w' = wbytes w @ bs \<and> wpool w' = wpool w
    \<and> woff w' = woff w + length bs \<and> length (wmem w') = length (wmem w)"
  using assms by (auto simp: put_slice_def writer_ok_def wbytes_def)

lemma set_byte_room: "writer_ok w \<Longrightarrow> set_byte v w = put_slice [v] w"
  by (auto simp: set_byte_def put_slice_def writer_ok_def)

lemma foreach_put_slice_room:
  assumes "writer_ok w" "woff w + length (concat (map f vs)) \<le> length (wmem w)"
  shows "\<exists>w'. go_foreach (\<lambda>v. put_slice (f v)) vs w = Ok w' \<and> writer_ok w' \<and>
    wbytes w' = wbytes w @ concat (map f vs) \<and> wpool w' = wpool w \<and> length (wmem w') = length (wmem w)"
  using assms
proof (induction vs arbitrary: w)
  case (Cons v vs)
  obtain w1 where w1: "put_slice (f v) w = Ok w1" "writer_ok w1" "wbytes w1 = wbytes w @ f v"
    "wpool w1 = wpool w" "woff w1 = woff w + length (f v)" "length (wmem w1) = length (wmem w)"
    using put_slice_room [of w "f v"] Cons.prems by auto
  then show ?case using Cons.IH [of w1] Cons.prems by simp
qed auto

lemma foreach_set_byte_room:
  assumes "writer_ok w" "woff w + length vs \<le> length (wmem w)"
  shows "go_foreach (\<lambda>v. set_byte (f v)) vs w = go_foreach (\<lambda>v. put_slice [f v]) vs w"
  using assms
proof (induction vs arbitrary: w)
  case (Cons v vs)
  obtain w1 where "put_slice [f v] w = Ok w1" "writer_ok w1" "woff w1 = woff w + 1"
    "length (wmem w1) = length (wmem w)"
    using put_slice_room [of w "[f v]"] Cons.prems by auto
  then show ?case using Cons by (simp add: set_byte_room)
qed simp

text \<open>Grow, then store value by value: the shape of the \<open>Write...s\<close> methods.\<close>

lemma appends_foreach:
  assumes "length (concat (map f vs)) = k"
  shows "appends (\<lambda>w. go_bind (grow k w) (go_foreach (\<lambda>v. put_slice (f v)) vs)) (concat (map f vs))"
  unfolding appends_def
proof (intro allI impI)
  fix w assume "writer_ok w"
  from grow_ok [OF this, of k] obtain w1 where "grow k w = Ok w1" "writer_ok w1"
    "wbytes w1 = wbytes w" "woff w1 = woff w" "wpool w1 = wpool w" "woff w + k \<le> length (wmem w1)"
    "length (wmem w) \<le> length (wmem w1)" by blast
  then show "\<exists>w'. go_bind (grow k w) (go_foreach (\<lambda>v. put_slice (f v)) vs) = Ok w' \<and> writer_ok w' \<and>
    wbytes w' = wbytes w @ concat (map f vs) \<and> wpool w' = wpool w \<and> length (wmem w) \<le> length (wmem w')"
    using foreach_put_slice_room [of w1 f vs] assms by auto
qed

lemma appends_set_bytes:
  "appends (\<lambda>w. go_bind (grow (length vs) w) (go_foreach (\<lambda>v. set_byte (f v)) vs)) (map f vs)"
  unfolding appends_def
proof (intro allI impI)
  fix w assume "writer_ok w"
  from grow_ok [OF this, of "length vs"] obtain w1 where w1: "grow (length vs) w = Ok w1"
    "writer_ok w1" "wbytes w1 = wbytes w" "woff w1 = woff w" "wpool w1 = wpool w"
    "woff w + length vs \<le> length (wmem w1)" "length (wmem w) \<le> length (wmem w1)" by blast
  have "concat (map (\<lambda>v. [f v]) vs) = map f vs" by (induction vs) auto
  then show "\<exists>w'. go_bind (grow (length vs) w) (go_foreach (\<lambda>v. set_byte (f v)) vs) = Ok w' \<and>
    writer_ok w' \<and> wbytes w' = wbytes w @ map f vs \<and> wpool w' = wpool w \<and>
    length (wmem w) \<le> length (wmem w')"
    using w1 foreach_put_slice_room [of w1 "\<lambda>v. [f v]" vs] by (auto simp: foreach_set_byte_room)
qed

lemma copy_into_room:
  assumes "writer_ok w" "woff w + length p \<le> length (wmem w)"
  shows "copy_into p w = Ok (length p, w\<lparr>wmem := overwrite (woff w) p (wmem w)\<rparr>)"
  using assms by (auto simp: copy_into_def writer_ok_def Let_def)

lemma Writer_Write_ok:
  assumes "writer_ok w"
  shows "\<exists>w'. Writer_Write p w = Ok (length p, w') \<and> writer_ok w' \<and> wbytes w' = wbytes w @ p
    \<and> wpool w' = wpool w \<and> length (wmem w) \<le> length (wmem w')"
proof -
  from grow_ok [OF assms, of "length p"] obtain w1 where "grow (length p) w = Ok w1" "writer_ok w1"
    "wbytes w1 = wbytes w" "woff w1 = woff w" "wpool w1 = wpool w"
    "woff w + length p \<le> length (wmem w1)" "length (wmem w) \<le> length (wmem w1)" by blast
  then show ?thesis
    by (simp add: Writer_Write_def copy_into_room) (simp add: writer_ok_def wbytes_def)
qed

lemma WriteBytes_appends [appends_rules]: "appends (WriteBytes bs) bs"
proof -
  have "WriteBytes bs w = go_map snd (Writer_Write bs w)" if "writer_ok w" for w
  proof -
    from grow_ok [OF that, of "length bs"] obtain w1 where "grow (length bs) w = Ok w1" "writer_ok w1"
      "woff w1 = woff w" "woff w + length bs \<le> length (wmem w1)" by blast
    then show ?thesis by (simp add: WriteBytes_def Writer_Write_def copy_into_room)
  qed
  then show ?thesis
    unfolding appends_def by (metis Writer_Write_ok go_map.simps(1) snd_conv)
qed

lemma WriteString_appends [appends_rules]: "appends (WriteString s) (string_bytes s)"
  using WriteBytes_appends [of "string_bytes s"] by (simp add: appends_def WriteString_def)

lemma WriteBools_appends [appends_rules]: "appends (WriteBools vs) (map (\<lambda>v. if v then 1 else 0) vs)"
  using appends_set_bytes [of vs "\<lambda>v. if v then 1 else 0"] by (simp add: appends_def WriteBools_def)

lemma WriteUint8s_appends [appends_rules]: "appends (WriteUint8s vs) vs"
  using appends_set_bytes [of vs "\<lambda>v. v"] by (simp add: appends_def WriteUint8s_def)

lemma WriteInt8s_appends [appends_rules]: "appends (WriteInt8s vs) vs"
  using appends_set_bytes [of vs "\<lambda>v. v"] by (simp add: appends_def WriteInt8s_def)

lemma WriteUint16s_appends [appends_rules]:
  "appends (WriteUint16s ord vs) (concat (map (PutUint16 ord) vs))"
  unfolding WriteUint16s_def [abs_def]
  by (rule appends_foreach) (simp add: u16.length_concat_put)

lemma WriteInt16s_appends [appends_rules]:
  "appends (WriteInt16s ord vs) (concat (map (PutUint16 ord) vs))"
  unfolding WriteInt16s_def [abs_def]
  by (rule appends_foreach) (simp add: u16.length_concat_put)

lemma WriteUint32s_appends [appends_rules]:
  "appends (WriteUint32s ord vs) (concat (map (PutUint32 ord) vs))"
  unfolding WriteUint32s_def [abs_def]
  by (rule appends_foreach) (simp add: u32.length_concat_put)

lemma WriteInt32s_appends [appends_rules]:
  "appends (WriteInt32s ord vs) (concat (map (PutUint32 ord) vs))"
  unfolding WriteInt32s_def [abs_def]
  by (rule appends_foreach) (simp add: u32.length_concat_put)

lemma WriteUint64s_appends [appends_rules]:
  "appends (WriteUint64s ord vs) (concat (map (PutUint64 ord) vs))"
  unfolding WriteUint64s_def [abs_def]
  by (rule appends_foreach) (simp add: u64.length_concat_put)

lemma WriteInt64s_appends [appends_rules]:
  "appends (WriteInt64s ord vs) (concat (map (PutUint64 ord) vs))"
  unfolding WriteInt64s_def [abs_def]
  by (rule appends_foreach) (simp add: u64.length_concat_put)

text \<open>The single values the encoders write.\<close>

lemma write_one [simp]:
  "appends (WriteUint8s [b]) [b]" "appends (WriteBools [c]) [if c then 1 else 0]"
  "appends (WriteUint16s ord [v16]) (PutUint16 ord v16)"
  "appends (WriteInt32s ord [v32]) (PutUint32 ord v32)"
  "appends (WriteUint32s ord [v32]) (PutUint32 ord v32)"
  "appends (WriteInt64s ord [v64]) (PutUint64 ord v64)"
  "appends (WriteUint64s ord [v64]) (PutUint64 ord v64)"
  using WriteUint8s_appends [of "[b]"] WriteBools_appends [of "[c]"] WriteUint16s_appends [of ord "[v16]"]
    WriteInt32s_appends [of ord "[v32]"] WriteUint32s_appends [of ord "[v32]"]
    WriteInt64s_appends [of ord "[v64]"] WriteUint64s_appends [of ord "[v64]"]
  by simp_all

lemma write_two [simp]: "appends (WriteInt64s ord [u, v]) (PutUint64 ord u @ PutUint64 ord v)"
  using WriteInt64s_appends [of ord "[u, v]"] by simp

text \<open>Straight-line encoders append what their statements append, in order.\<close>

lemma appends_go_seq: "list_all2 appends ops bss \<Longrightarrow> appends (go_seq ops) (concat bss)"
proof (induction ops bss rule: list_all2_induct)
  case Nil
  then show ?case by (simp add: appends_def)
next
  case (Cons op ops bs bss)
  show ?case unfolding appends_def
  proof (intro allI impI)
    fix w assume "writer_ok w"
    with Cons(1) obtain w1 where w1: "op w = Ok w1" "writer_ok w1" "wbytes w1 = wbytes w @ bs"
      "wpool w1 = wpool w" "length (wmem w) \<le> length (wmem w1)" by (rule appendsE)
    from Cons(3) w1(2) obtain w2 where "go_seq ops w1 = Ok w2" "writer_ok w2"
      "wbytes w2 = wbytes w1 @ concat bss" "wpool w2 = wpool w1" "length (wmem w1) \<le> length (wmem w2)"
      by (rule appendsE)
    with w1 show "\<exists>w'. go_seq (op # ops) w = Ok w' \<and> writer_ok w' \<and>
      wbytes w' = wbytes w @ concat (bs # bss) \<and> wpool w' = wpool w \<and> length (wmem w) \<le> length (wmem w')"
      by auto
  qed
qed

section \<open>Pools\<close>

text \<open>Every idle writer of grade \<open>i\<close> is empty, well-formed and holds at least \<open>2 ^ i\<close> bytes.\<close>

definition writer_idle :: "nat \<Rightarrow> writer \<Rightarrow> bool" where
  "writer_idle i w \<longleftrightarrow> writer_ok w \<and> woff w = 0 \<and> 2 ^ i \<le> length (wmem w) \<and> wpool w = Some i"

abbreviation writer_pool_ok :: "writer_pool \<Rightarrow> bool" where
  "writer_pool_ok p \<equiv> pools_ok writer_idle (wpools p)"

interpretation wpl: graded_pool WriterPool_New writer_idle
  by unfold_locales (simp add: writer_idle_def WriterPool_New_def writer_ok_def)

lemma NewWriterPool_ok: "writer_pool_ok (NewWriterPool g)"
  by (simp add: NewWriterPool_def pools_ok_empty del: replicate_Suc)

lemma WriterPool_Get_idle:
  assumes "writer_pool_ok p" "0 < cap"
  shows "\<exists>w p'. WriterPool_Get sel cap p = Ok (Some w, p') \<and>
    writer_idle (min (ceil_log2 cap) (length (wpools p) - 1)) w \<and> writer_pool_ok p' \<and>
    length (wpools p') = length (wpools p)"
proof -
  have ne: "wpools p \<noteq> []" using assms(1) by (simp add: pools_ok_def)
  let ?i = "min (ceil_log2 cap) (length (wpools p) - 1)"
  obtain w ps where t: "pool_take WriterPool_New sel ?i (wpools p) = (w, ps)" by fastforce
  moreover have "?i < length (wpools p)" using ne by (cases "wpools p") auto
  ultimately show ?thesis
    using wpl.take_idle [OF assms(1)] wpl.take_pools_ok [OF assms(1) t] assms(2) ne
    by (auto simp: WriterPool_Get_def getPool_def)
qed

lemma Writer_Release_ok:
  assumes "writer_pool_ok p" "writer_ok w"
    and "\<And>i. wpool w = Some i \<Longrightarrow> i < length (wpools p) \<and> 2 ^ i \<le> length (wmem w)"
  shows "writer_pool_ok (snd (Writer_Release w p))"
proof (cases "wpool w")
  case (Some i)
  have "writer_idle i (w\<lparr>woff := 0\<rparr>)"
    using assms(2) assms(3) [OF Some] Some by (simp add: writer_idle_def writer_ok_def)
  then show ?thesis
    using assms(1) Some by (simp add: Writer_Release_def Let_def wpl.put_pools_ok)
qed (use assms(1) in \<open>simp add: Writer_Release_def Let_def\<close>)

section \<open>Properties of the writer\<close>

text \<open>From a writer taken from the graded pool, any sequence of writes succeeds, however far it
  grows the buffer, and the bytes handed out are the encodings written, in order and complete; the
  writer then goes back to a pool that stays well-formed.\<close>

theorem writer_session:
  assumes "writer_pool_ok wp" "0 < cap" "list_all2 appends ops bss"
  shows "\<exists>w wp1 w'. WriterPool_Get sel cap wp = Ok (Some w, wp1) \<and> go_seq ops w = Ok w' \<and>
    Writer_Bytes w' = Ok (concat bss) \<and> Writer_Len w' = length (concat bss) \<and>
    writer_pool_ok (snd (Writer_Release w' wp1))"
proof -
  let ?i = "min (ceil_log2 cap) (length (wpools wp) - 1)"
  obtain w wp1 where w: "WriterPool_Get sel cap wp = Ok (Some w, wp1)" "writer_idle ?i w" "writer_pool_ok wp1"
      "length (wpools wp1) = length (wpools wp)"
    using WriterPool_Get_idle [OF assms(1,2)] by blast
  then have ok: "writer_ok w" "wbytes w = []" "wpool w = Some ?i" "2 ^ ?i \<le> length (wmem w)"
    by (simp_all add: writer_idle_def wbytes_def)
  obtain w' where w': "go_seq ops w = Ok w'" "writer_ok w'" "wbytes w' = concat bss" "wpool w' = wpool w"
      "length (wmem w) \<le> length (wmem w')"
    using appends_go_seq [OF assms(3)] ok by (auto elim: appendsE)
  have "?i < length (wpools wp1)" using assms(1) w(4) by (cases "wpools wp") (auto simp: pools_ok_def)
  then have "writer_pool_ok (snd (Writer_Release w' wp1))"
    using w' ok(3,4) by (intro Writer_Release_ok [OF w(3)]) auto
  then show ?thesis
    using w(1) w' by (auto simp: Writer_Bytes_ok Writer_Len_def simp flip: length_wbytes)
qed

theorem writer_session_witness:
  "\<exists>w wp1 w'. WriterPool_Get (\<lambda>_. None) 1 (NewWriterPool 32) = Ok (Some w, wp1) \<and>
    go_seq [WriteUint8s [9], WriteUint16s BigEndian [3]] w = Ok w' \<and> Writer_Bytes w' = Ok [9, 0, 3]"
  using writer_session [OF NewWriterPool_ok, of 1 "[WriteUint8s [9], WriteUint16s BigEndian [3]]"
      "[[9], PutUint16 BigEndian 3]" "\<lambda>_. None" 32] write_one(3) [of BigEndian 3]
  by (fastforce simp: byte_eval simp del: go_seq.simps)

text \<open>\<open>NewWriter\<close> on a slice that is shorter than its capacity loses data: the growth check looks
  at the capacity, so that \<open>WriteBytes\<close> copies nothing yet advances, and \<open>WriteUint8s\<close> panics.\<close>

theorem NewWriter_short_slice:
  assumes "length mem = Suc (Suc n)"
  shows "WriteUint8s [b] (NewWriter mem 0) = Panic \<and>
    (\<exists>w. WriteBytes [b] (NewWriter mem 0) = Ok w \<and> Writer_Bytes w = Ok [hd mem])"
  using assms by (cases mem) (auto simp: WriteUint8s_def WriteBytes_def grow_def NewWriter_def set_byte_def
      copy_into_def Writer_Bytes_def slice_range_def overwrite_def)

theorem NewWriter_short_slice_witness:
  "WriteUint8s [1] (NewWriter [0, 0] 0) = Panic \<and>
   (\<exists>w. WriteBytes [1] (NewWriter [0, 0] 0) = Ok w \<and> Writer_Bytes w = Ok [0])"
  using NewWriter_short_slice [of "[0, 0]" 0 1] by simp

end
