(* ===== verification/Nocopy.thy ===== *)
theory Nocopy
  imports Writer GoBytes
begin

text \<open>
  \<open>core/buffer/nocopy_buffer.go\<close> and \<open>core/buffer/nocopy_node.go\<close>: the chain of blocks a
  message travels in.  The doubly linked list from \<open>head\<close> to \<open>tail\<close> is the list of children;
  a child is a node holding a block or a nested buffer.  A node or buffer is mounted into at
  most one parent, as the callers do, so that the chain can be a value.  Releasing returns the
  blocks that go back to their pools.
\<close>

section \<open>Blocks and buffers\<close>

text \<open>The dynamic types of \<open>NocopyNode.block\<close>: \<open>[]byte\<close>, \<open>*Bytes\<close>, \<open>*Writer\<close>, or nil.\<close>

datatype block = RawBlock bytes | BytesBlock "gbytes option" | WriterBlock writer | NoBlock

datatype nocopy = NocopyBuffer (nlen: int) (nnum: int) (nodes: "nocopy_child list")
    (ndelay: int32) (nreleased: bool)
  and nocopy_child = NocopyNode block | SubBuffer nocopy

text \<open>The argument of \<open>Mount\<close> is any value; \<open>MOther\<close> is nil or a value of another type.\<close>

datatype mountable = MBlock block | MNode block | MBuffer nocopy | MOther

datatype whence = Head | Tail

section \<open>Nodes\<close>

definition NocopyNode_Len :: "block \<Rightarrow> nat" where
  "NocopyNode_Len b = (case b of
      RawBlock bs \<Rightarrow> length bs
    | BytesBlock b \<Rightarrow> Bytes_Len b
    | WriterBlock w \<Rightarrow> Writer_Len w
    | NoBlock \<Rightarrow> 0)"

definition NocopyNode_Bytes :: "block \<Rightarrow> bytes go" where
  "NocopyNode_Bytes b = (case b of
      RawBlock bs \<Rightarrow> Ok bs
    | BytesBlock b \<Rightarrow> Bytes_Bytes b
    | WriterBlock w \<Rightarrow> Writer_Bytes w
    | NoBlock \<Rightarrow> Ok [])"

text \<open>The pools the released blocks go back to.\<close>

record buffer_pools =
  bp_writers :: writer_pool
  bp_bytes :: bytes_pool

definition NocopyNode_Release :: "block \<Rightarrow> buffer_pools \<Rightarrow> buffer_pools go" where
  "NocopyNode_Release b p = (case b of
      RawBlock bs \<Rightarrow> Ok p
    | BytesBlock b \<Rightarrow> go_map (\<lambda>(_, q). p\<lparr>bp_bytes := q\<rparr>) (Bytes_Release b (bp_bytes p))
    | WriterBlock w \<Rightarrow> Ok (p\<lparr>bp_writers := snd (Writer_Release w (bp_writers p))\<rparr>)
    | NoBlock \<Rightarrow> Ok p)"

section \<open>Building\<close>

definition empty_nocopy :: nocopy where
  "empty_nocopy = NocopyBuffer (- 1) 0 [] 0 False"

fun addToHead :: "nocopy_child \<Rightarrow> nocopy \<Rightarrow> nocopy" where
  "addToHead (NocopyNode k) (NocopyBuffer l n cs d r) =
     NocopyBuffer (- 1) (n + 1) (NocopyNode k # cs) d r"
| "addToHead (SubBuffer s) (NocopyBuffer l n cs d r) =
     NocopyBuffer (- 1) (n + nnum s) (SubBuffer s # cs) d r"

fun addToTail :: "nocopy_child \<Rightarrow> nocopy \<Rightarrow> nocopy" where
  "addToTail (NocopyNode k) (NocopyBuffer l n cs d r) =
     NocopyBuffer (- 1) (n + 1) (cs @ [NocopyNode k]) d r"
| "addToTail (SubBuffer s) (NocopyBuffer l n cs d r) =
     NocopyBuffer (- 1) (n + nnum s) (cs @ [SubBuffer s]) d r"

definition mount_at :: "whence list \<Rightarrow> nocopy_child \<Rightarrow> nocopy \<Rightarrow> nocopy" where
  "mount_at whence c b = (case whence of Head # _ \<Rightarrow> addToHead c b | _ \<Rightarrow> addToTail c b)"

definition Mount :: "mountable \<Rightarrow> whence list \<Rightarrow> nocopy \<Rightarrow> nocopy" where
  "Mount v whence b = (case v of
      MBlock k \<Rightarrow> mount_at whence (NocopyNode k) b
    | MNode k \<Rightarrow> mount_at whence (NocopyNode k) b
    | MBuffer s \<Rightarrow> mount_at whence (SubBuffer s) b
    | MOther \<Rightarrow> b)"

definition NewNocopyBuffer :: "mountable list \<Rightarrow> nocopy" where
  "NewNocopyBuffer blocks = fold (\<lambda>v. Mount v []) blocks empty_nocopy"

definition Nocopy_Delay :: "int32 \<Rightarrow> nocopy \<Rightarrow> nocopy" where
  "Nocopy_Delay d b = NocopyBuffer (nlen b) (nnum b) (nodes b) d (nreleased b)"

section \<open>Reading\<close>

text \<open>\<open>Len\<close> caches its result in \<open>b.len\<close> and, on the way, in the nested buffers.\<close>

fun Nocopy_Len :: "nocopy \<Rightarrow> int \<times> nocopy"
  and child_Len :: "nocopy_child \<Rightarrow> int \<times> nocopy_child"
  and children_Len :: "nocopy_child list \<Rightarrow> int \<times> nocopy_child list" where
  "Nocopy_Len (NocopyBuffer l n cs d r) =
     (if 0 \<le> l then (l, NocopyBuffer l n cs d r)
      else let (s, cs') = children_Len cs in (s, NocopyBuffer s n cs' d r))"
| "child_Len (NocopyNode k) = (int (NocopyNode_Len k), NocopyNode k)"
| "child_Len (SubBuffer b) = (let (s, b') = Nocopy_Len b in (s, SubBuffer b'))"
| "children_Len [] = (0, [])"
| "children_Len (c # cs) =
     (let (s, c') = child_Len c; (t, cs') = children_Len cs in (s + t, c' # cs'))"

text \<open>\<open>Bytes\<close>; its use of \<open>Len\<close> for a capacity hint, which only fills the cache, is left out.\<close>

fun Nocopy_Bytes :: "nocopy \<Rightarrow> bytes go"
  and child_Bytes :: "nocopy_child \<Rightarrow> bytes go"
  and children_Bytes :: "nocopy_child list \<Rightarrow> bytes go" where
  "Nocopy_Bytes (NocopyBuffer l n cs d r) =
     (if n = 0 then Ok []
      else if n = 1 then (case cs of [] \<Rightarrow> Ok [] | c # _ \<Rightarrow> child_Bytes c)
      else children_Bytes cs)"
| "child_Bytes (NocopyNode k) = NocopyNode_Bytes k"
| "child_Bytes (SubBuffer b) = Nocopy_Bytes b"
| "children_Bytes [] = Ok []"
| "children_Bytes (c # cs) =
     go_bind (child_Bytes c) (\<lambda>bs. go_map ((@) bs) (children_Bytes cs))"

text \<open>\<open>Visit\<close> with a visitor that keeps a state and says whether to go on.\<close>

fun Visit :: "(block \<Rightarrow> 's \<Rightarrow> bool \<times> 's) \<Rightarrow> nocopy \<Rightarrow> 's \<Rightarrow> bool \<times> 's"
  and visit_children :: "(block \<Rightarrow> 's \<Rightarrow> bool \<times> 's) \<Rightarrow> nocopy_child list \<Rightarrow> 's \<Rightarrow> bool \<times> 's" where
  "Visit fn (NocopyBuffer l n cs d r) st = visit_children fn cs st"
| "visit_children fn [] st = (True, st)"
| "visit_children fn (NocopyNode k # cs) st =
     (let (go, st') = fn k st in if \<not> go then (False, st') else visit_children fn cs st')"
| "visit_children fn (SubBuffer b # cs) st =
     (let (go, st') = Visit fn b st in if \<not> go then (False, st') else visit_children fn cs st')"

section \<open>Releasing\<close>

text \<open>The second component lists the blocks released, in order.\<close>

fun Nocopy_Release :: "nocopy \<Rightarrow> nocopy \<times> block list"
  and children_Release :: "nocopy_child list \<Rightarrow> block list" where
  "Nocopy_Release (NocopyBuffer l n cs d r) =
     (let d' = d - 1
      in if sint d' > 0 then (NocopyBuffer l n cs d' r, [])
         else if r then (NocopyBuffer l n cs d' r, [])
         else (NocopyBuffer (- 1) 0 [] d' True, children_Release cs))"
| "children_Release [] = []"
| "children_Release (NocopyNode k # cs) = k # children_Release cs"
| "children_Release (SubBuffer b # cs) = snd (Nocopy_Release b) @ children_Release cs"

text \<open>Any number of calls of \<open>Release\<close> on one buffer, and what they release together.\<close>

primrec releases :: "nat \<Rightarrow> nocopy \<Rightarrow> nocopy \<times> block list" where
  "releases 0 b = (b, [])"
| "releases (Suc k) b =
     (let (b1, ks) = Nocopy_Release b; (b2, ks') = releases k b1 in (b2, ks @ ks'))"

section \<open>Contents and well-formedness\<close>

fun leaves :: "nocopy \<Rightarrow> block list" and child_leaves :: "nocopy_child list \<Rightarrow> block list" where
  "leaves (NocopyBuffer l n cs d r) = child_leaves cs"
| "child_leaves [] = []"
| "child_leaves (NocopyNode k # cs) = k # child_leaves cs"
| "child_leaves (SubBuffer b # cs) = leaves b @ child_leaves cs"

definition block_data :: "block \<Rightarrow> bytes" where
  "block_data k = (case k of
      RawBlock bs \<Rightarrow> bs
    | BytesBlock None \<Rightarrow> []
    | BytesBlock (Some b) \<Rightarrow> take (boff b) (bmem b)
    | WriterBlock w \<Rightarrow> wbytes w
    | NoBlock \<Rightarrow> [])"

definition block_ok :: "block \<Rightarrow> bool" where
  "block_ok k = (case k of
      BytesBlock (Some b) \<Rightarrow> boff b \<le> length (bmem b)
    | WriterBlock w \<Rightarrow> writer_ok w
    | _ \<Rightarrow> True)"

definition contents :: "nocopy \<Rightarrow> bytes" where
  "contents b = concat (map block_data (leaves b))"

text \<open>The cached length and the node count agree with the chain.\<close>

fun nocopy_ok :: "nocopy \<Rightarrow> bool" and children_ok :: "nocopy_child list \<Rightarrow> bool" where
  "nocopy_ok (NocopyBuffer l n cs d r) \<longleftrightarrow>
     (l = - 1 \<or> l = int (length (concat (map block_data (child_leaves cs))))) \<and>
     n = int (length (child_leaves cs)) \<and> children_ok cs"
| "children_ok [] \<longleftrightarrow> True"
| "children_ok (NocopyNode k # cs) \<longleftrightarrow> block_ok k \<and> children_ok cs"
| "children_ok (SubBuffer b # cs) \<longleftrightarrow> nocopy_ok b \<and> children_ok cs"

text \<open>No nested buffer is empty.\<close>

fun no_empty_sub :: "nocopy \<Rightarrow> bool" and no_empty_subs :: "nocopy_child list \<Rightarrow> bool" where
  "no_empty_sub (NocopyBuffer l n cs d r) \<longleftrightarrow> no_empty_subs cs"
| "no_empty_subs [] \<longleftrightarrow> True"
| "no_empty_subs (NocopyNode k # cs) \<longleftrightarrow> no_empty_subs cs"
| "no_empty_subs (SubBuffer b # cs) \<longleftrightarrow> leaves b \<noteq> [] \<and> no_empty_sub b \<and> no_empty_subs cs"

lemma NocopyNode_Bytes_ok: "block_ok k \<Longrightarrow> NocopyNode_Bytes k = Ok (block_data k)"
  by (auto simp: NocopyNode_Bytes_def block_ok_def block_data_def Bytes_Bytes_def slice_range_def
      Writer_Bytes_ok split: block.splits option.splits)

lemma NocopyNode_Len_ok: "block_ok k \<Longrightarrow> NocopyNode_Len k = length (block_data k)"
  by (auto simp: NocopyNode_Len_def block_ok_def block_data_def Bytes_Len_def Writer_Len_def
      length_wbytes split: block.splits option.splits)

lemma child_leaves_Cons: "child_leaves (c # cs) = child_leaves [c] @ child_leaves cs"
  by (cases c) auto

lemma child_leaves_append [simp]: "child_leaves (xs @ ys) = child_leaves xs @ child_leaves ys"
proof (induction xs)
  case (Cons c xs)
  then show ?case using child_leaves_Cons [of c "xs @ ys"] child_leaves_Cons [of c xs] by simp
qed simp

lemma children_ok_append [simp]: "children_ok (xs @ ys) \<longleftrightarrow> children_ok xs \<and> children_ok ys"
proof (induction xs)
  case (Cons c xs) then show ?case by (cases c) auto
qed simp

lemma nnum_leaves: "nocopy_ok b \<Longrightarrow> nnum b = int (length (leaves b))"
  by (cases b) simp

lemma nocopy_ok_Delay: "nocopy_ok b \<Longrightarrow> nocopy_ok (Nocopy_Delay d b)"
  by (cases b) (simp add: Nocopy_Delay_def)

lemma leaves_Delay [simp]: "leaves (Nocopy_Delay d b) = leaves b"
  by (cases b) (simp add: Nocopy_Delay_def)

section \<open>Mounting\<close>

text \<open>What a mountable value adds, and when it is well-formed.\<close>

primrec mount_leaves :: "mountable \<Rightarrow> block list" where
  "mount_leaves (MBlock k) = [k]"
| "mount_leaves (MNode k) = [k]"
| "mount_leaves (MBuffer s) = leaves s"
| "mount_leaves MOther = []"

primrec mountable_ok :: "mountable \<Rightarrow> bool" where
  "mountable_ok (MBlock k) = block_ok k"
| "mountable_ok (MNode k) = block_ok k"
| "mountable_ok (MBuffer s) = nocopy_ok s"
| "mountable_ok MOther = True"

lemma addTo_leaves [simp]:
  "leaves (addToHead c b) = child_leaves [c] @ leaves b"
  "leaves (addToTail c b) = leaves b @ child_leaves [c]"
  by (cases c; cases b; simp)+

lemma addTo_ok:
  assumes "nocopy_ok b" "children_ok [c]"
  shows "nocopy_ok (addToHead c b)" "nocopy_ok (addToTail c b)"
  using assms by (cases c; cases b; auto simp: nnum_leaves)+

lemma Mount_leaves:
  "leaves (Mount v wh b) =
     (if \<exists>t. wh = Head # t then mount_leaves v @ leaves b else leaves b @ mount_leaves v)"
  by (auto simp: Mount_def mount_at_def split: mountable.splits list.splits whence.splits)

lemma Mount_ok: "nocopy_ok b \<Longrightarrow> mountable_ok v \<Longrightarrow> nocopy_ok (Mount v wh b)"
  by (auto simp: Mount_def mount_at_def addTo_ok split: mountable.splits list.splits whence.splits)

lemma fold_Mount:
  "nocopy_ok b \<Longrightarrow> list_all mountable_ok vs \<Longrightarrow>
   nocopy_ok (fold (\<lambda>v. Mount v []) vs b) \<and>
   leaves (fold (\<lambda>v. Mount v []) vs b) = leaves b @ concat (map mount_leaves vs)"
  by (induction vs arbitrary: b) (auto simp: Mount_ok Mount_leaves)

lemma empty_nocopy_ok [simp]: "nocopy_ok empty_nocopy" "leaves empty_nocopy = []"
  by (simp_all add: empty_nocopy_def)

lemma NewNocopyBuffer_ok:
  "list_all mountable_ok vs \<Longrightarrow> nocopy_ok (NewNocopyBuffer vs)"
  "list_all mountable_ok vs \<Longrightarrow> leaves (NewNocopyBuffer vs) = concat (map mount_leaves vs)"
  using fold_Mount [of empty_nocopy vs] by (simp_all add: NewNocopyBuffer_def)

section \<open>Length and bytes\<close>

lemma Len_correct:
  "nocopy_ok b \<Longrightarrow> fst (Nocopy_Len b) = int (length (contents b)) \<and>
     nocopy_ok (snd (Nocopy_Len b)) \<and> leaves (snd (Nocopy_Len b)) = leaves b"
  "children_ok [c] \<Longrightarrow> fst (child_Len c) = int (length (concat (map block_data (child_leaves [c])))) \<and>
     children_ok [snd (child_Len c)] \<and> child_leaves [snd (child_Len c)] = child_leaves [c]"
  "children_ok cs \<Longrightarrow> fst (children_Len cs) = int (length (concat (map block_data (child_leaves cs)))) \<and>
     children_ok (snd (children_Len cs)) \<and> child_leaves (snd (children_Len cs)) = child_leaves cs"
proof (induction b and c and cs rule: Nocopy_Len_child_Len_children_Len.induct)
  case (1 l n cs d r)
  then show ?case by (auto simp: contents_def split: prod.splits)
next
  case (2 k)
  then show ?case by (simp add: NocopyNode_Len_ok)
next
  case (3 b)
  then show ?case by (auto simp: contents_def split: prod.splits)
next
  case (5 c cs)
  have "children_ok [c]" "children_ok cs" using 5(3) by (cases c; simp)+
  then show ?case
    using 5(1) 5(2) [OF refl prod.collapse] child_leaves_Cons [of c cs]
      child_leaves_Cons [of "snd (child_Len c)" "snd (children_Len cs)"]
      children_ok_append [of "[snd (child_Len c)]" "snd (children_Len cs)"]
    by (auto simp: split_beta Let_def)
qed auto

lemma no_empty_subs_single:
  "no_empty_subs (c # cs) \<Longrightarrow> child_leaves [c] \<noteq> []"
  by (cases c) auto

lemma Bytes_correct:
  "nocopy_ok b \<Longrightarrow> no_empty_sub b \<Longrightarrow> Nocopy_Bytes b = Ok (contents b)"
  "children_ok [c] \<Longrightarrow> no_empty_subs [c] \<Longrightarrow> child_Bytes c = Ok (concat (map block_data (child_leaves [c])))"
  "children_ok cs \<Longrightarrow> no_empty_subs cs \<Longrightarrow> children_Bytes cs = Ok (concat (map block_data (child_leaves cs)))"
proof (induction b and c and cs rule: Nocopy_Bytes_child_Bytes_children_Bytes.induct)
  case (1 l n cs d r)
  show ?case
  proof (cases cs)
    case (Cons c cs')
    have c: "children_ok [c]" "no_empty_subs [c]" "no_empty_subs cs'"
      using 1(3,4) Cons by (cases c; simp)+
    have len: "n = int (length (child_leaves [c])) + int (length (child_leaves cs'))"
      using 1(3) Cons child_leaves_Cons [of c cs'] by simp
    have ne: "child_leaves [c] \<noteq> []" using c(2) by (rule no_empty_subs_single)
    then have "n \<noteq> 0" using len by (cases "child_leaves [c]") auto
    moreover have "child_leaves cs' = []" if "n = 1"
    proof -
      have "0 < length (child_leaves [c])" using ne by simp
      then have "length (child_leaves cs') = 0" using len that by linarith
      then show ?thesis by simp
    qed
    ultimately show ?thesis
      using 1 c Cons child_leaves_Cons [of c cs'] by (auto simp: contents_def)
  qed (use 1(3) in \<open>auto simp: contents_def\<close>)
next
  case (2 k)
  then show ?case by (simp add: NocopyNode_Bytes_ok)
next
  case (3 b)
  then show ?case by (simp add: contents_def)
next
  case (5 c cs)
  have "children_ok [c]" "children_ok cs" "no_empty_subs [c]" "no_empty_subs cs"
    using 5(3,4) by (cases c; simp)+
  then show ?case using 5(1,2) child_leaves_Cons [of c cs] by simp
qed auto

section \<open>Visiting\<close>

text \<open>Visiting with a visitor that never stops sees the blocks of the chain from left to right.\<close>

lemma Visit_all:
  "(\<And>k st. fst (fn k st)) \<Longrightarrow> Visit fn b st = (True, fold (\<lambda>k st. snd (fn k st)) (leaves b) st)"
  "(\<And>k st. fst (fn k st)) \<Longrightarrow>
     visit_children fn cs st = (True, fold (\<lambda>k st. snd (fn k st)) (child_leaves cs) st)"
proof (induction fn b st and fn cs st rule: Visit_visit_children.induct)
  case (3 fn k cs st)
  obtain st' where e: "fn k st = (True, st')" using 3(2) [of k st] by (cases "fn k st") auto
  then show ?case using 3(1) [OF e [symmetric]] 3(2) by simp
next
  case (4 fn b cs st)
  then show ?case by simp
qed simp_all

section \<open>Releasing\<close>

lemma releases_released: "nreleased b \<Longrightarrow> snd (releases k b) = []"
proof (induction k arbitrary: b)
  case (Suc k)
  obtain l n cs d where b: "b = NocopyBuffer l n cs d True" using Suc.prems by (cases b) auto
  then have "nreleased (fst (Nocopy_Release b))" "snd (Nocopy_Release b) = []" by (simp_all add: Let_def)
  then show ?case using Suc.IH by (simp add: split_beta)
qed simp

lemma sint_decr:
  fixes d :: int32
  assumes "1 \<le> sint d" shows "sint (d - 1) = sint d - 1"
proof -
  have "sint d < 2 ^ 31" using sint_lt [of d] by simp
  then show ?thesis using assms
    by (simp add: sint_word_ariths signed_take_bit_int_eq_self)
qed

lemma releases_delayed:
  assumes "1 \<le> sint d"
  shows "snd (releases k (NocopyBuffer l n cs d False)) =
    (if int k < sint d then [] else children_Release cs)"
  using assms
proof (induction k arbitrary: d)
  case (Suc k)
  show ?case
  proof (cases "sint (d - 1) > 0")
    case True
    then show ?thesis
      using Suc.IH [of "d - 1"] sint_decr [OF Suc.prems] by (simp add: split_beta Let_def)
  next
    case False
    then show ?thesis
      using releases_released [of "NocopyBuffer (- 1) 0 [] (d - 1) True" k] sint_decr [OF Suc.prems] Suc.prems
      by (simp add: split_beta Let_def)
  qed
qed (use assms in simp)

text \<open>Nested buffers that are not delayed themselves release all their blocks.\<close>

fun undelayed :: "nocopy_child list \<Rightarrow> bool" where
  "undelayed [] \<longleftrightarrow> True"
| "undelayed (NocopyNode k # cs) \<longleftrightarrow> undelayed cs"
| "undelayed (SubBuffer (NocopyBuffer l n cs' d r) # cs) \<longleftrightarrow>
     d = 0 \<and> \<not> r \<and> undelayed cs' \<and> undelayed cs"

lemma children_Release_leaves: "undelayed cs \<Longrightarrow> children_Release cs = child_leaves cs"
  by (induction cs rule: undelayed.induct) (auto simp: Let_def)

section \<open>Properties of the chain\<close>

text \<open>Whatever is mounted, where and in which order, the chain's cached length, its node count and
  its bytes agree: mounting keeps the buffer well-formed and adds the block at the chosen end, \<open>Len\<close>
  is the number of bytes mounted, and \<open>Bytes\<close> is their concatenation (no nested buffer being empty).\<close>

theorem nocopy_len_bytes:
  assumes "nocopy_ok b" "mountable_ok v" "no_empty_sub (Mount v wh b)"
  shows "nocopy_ok (Mount v wh b) \<and>
    contents (Mount v wh b) =
      (if \<exists>t. wh = Head # t then concat (map block_data (mount_leaves v)) @ contents b
       else contents b @ concat (map block_data (mount_leaves v))) \<and>
    Nocopy_Bytes (Mount v wh b) = Ok (contents (Mount v wh b)) \<and>
    fst (Nocopy_Len (Mount v wh b)) = int (length (contents (Mount v wh b))) \<and>
    nocopy_ok (snd (Nocopy_Len (Mount v wh b)))"
proof -
  have ok: "nocopy_ok (Mount v wh b)" by (rule Mount_ok [OF assms(1,2)])
  then show ?thesis
    using Bytes_correct(1) [OF ok assms(3)] Len_correct(1) [OF ok] by (simp add: contents_def Mount_leaves)
qed

theorem nocopy_len_bytes_witness:
  "Nocopy_Bytes (Mount (MBlock (RawBlock [1, 2])) [Head] (NewNocopyBuffer [MBlock (RawBlock [3])])) = Ok [1, 2, 3]"
  using nocopy_len_bytes [of "NewNocopyBuffer [MBlock (RawBlock [3])]" "MBlock (RawBlock [1, 2])" "[Head]"]
  by (simp add: NewNocopyBuffer_def Mount_def mount_at_def empty_nocopy_def contents_def block_data_def block_ok_def)

text \<open>Delayed release: after \<open>Delay(n)\<close>, however often \<open>Release\<close> is called, the blocks of the chain
  go back to their pools exactly once, all of them in order, and not before the \<open>n\<close>-th call.\<close>

theorem nocopy_release_once:
  assumes "1 \<le> sint n" "\<not> nreleased b" "undelayed (nodes b)"
  shows "snd (releases k (Nocopy_Delay n b)) = (if int k < sint n then [] else leaves b)"
proof -
  obtain l m cs d where "b = NocopyBuffer l m cs d False" using assms(2) by (cases b) auto
  then show ?thesis
    using releases_delayed [OF assms(1)] children_Release_leaves assms(3) by (simp add: Nocopy_Delay_def)
qed

theorem nocopy_release_once_witness:
  "snd (releases 1 (Nocopy_Delay 2 (NewNocopyBuffer [MBlock (RawBlock [3])]))) = [] \<and>
   snd (releases 5 (Nocopy_Delay 2 (NewNocopyBuffer [MBlock (RawBlock [3])]))) = [RawBlock [3]]"
  using nocopy_release_once [of 2 "NewNocopyBuffer [MBlock (RawBlock [3])]" 1]
    nocopy_release_once [of 2 "NewNocopyBuffer [MBlock (RawBlock [3])]" 5]
  by (simp add: NewNocopyBuffer_def Mount_def mount_at_def empty_nocopy_def)

text \<open>An empty nested buffer in front of a single block hides it: \<open>Len\<close> counts its bytes and
  \<open>Bytes\<close> returns none of them.\<close>

theorem nocopy_empty_sub_hides:
  "Nocopy_Bytes (NewNocopyBuffer [MBuffer (NewNocopyBuffer []), MBlock (RawBlock bs)]) = Ok [] \<and>
   fst (Nocopy_Len (NewNocopyBuffer [MBuffer (NewNocopyBuffer []), MBlock (RawBlock bs)])) = int (length bs)"
  by (simp add: NewNocopyBuffer_def Mount_def mount_at_def empty_nocopy_def NocopyNode_Len_def)

end
