(* ===== verification/Packet.thy ===== *)
theory Packet
  imports PooledRead Nocopy
begin

unbundle bit_operations_syntax

text \<open>
  \<open>packet/packer.go\<close>, \<open>packet/options.go\<close>, \<open>packet/message.go\<close>: the client-facing packets.
  A packet is a big or little endian header of five 32-bit fields (length, data bit, game,
  message, sequence number) and a body.  The configuration values read through \<open>etc.Get\<close> are
  arguments of \<open>defaultOptions\<close>.
\<close>

section \<open>Messages and options\<close>

record Message =
  mSeq :: int32
  mGameID :: int32
  mMessageID :: int32
  mBuffer :: bytes

record packer_options =
  byteOrder :: byteorder
  bufferBytes :: int

abbreviation defaultSizeBytes :: nat where "defaultSizeBytes \<equiv> 4"
abbreviation defaultHeaderSize :: nat where "defaultHeaderSize \<equiv> 20"

definition dataBit :: uint32 where
  "dataBit = push_bit 7 0"

definition ToLower :: "string \<Rightarrow> string" where
  "ToLower s = map (\<lambda>c. let n = (of_char c :: nat) in if 65 \<le> n \<and> n \<le> 90 then char_of (n + 32) else c) s"

definition defaultOptions :: "string \<Rightarrow> int \<Rightarrow> packer_options" where
  "defaultOptions endian cfgBytes =
     (let opts = \<lparr>byteOrder = BigEndian, bufferBytes = cfgBytes\<rparr>
      in if ToLower endian = ''little'' then opts\<lparr>byteOrder := LittleEndian\<rparr>
         else if ToLower endian = ''big'' then opts\<lparr>byteOrder := BigEndian\<rparr>
         else opts)"

definition WithByteOrder :: "byteorder \<Rightarrow> packer_options \<Rightarrow> packer_options" where
  "WithByteOrder b opts = opts\<lparr>byteOrder := b\<rparr>"

definition WithBufferBytes :: "int \<Rightarrow> packer_options \<Rightarrow> packer_options" where
  "WithBufferBytes n opts = opts\<lparr>bufferBytes := n\<rparr>"

text \<open>\<open>Fatal\<close> ends the process, which is \<open>Panic\<close> here.\<close>

definition NewPacker :: "packer_options \<Rightarrow> (packer_options \<Rightarrow> packer_options) list \<Rightarrow> packer_options go" where
  "NewPacker dflt opts = (let o' = fold (\<lambda>f. f) opts dflt in if bufferBytes o' < 0 then Panic else Ok o')"

section \<open>Reading\<close>

text \<open>\<open>ReadMessage\<close> on the remaining stream; the nil slice of an empty packet is the empty
  list.  \<open>data[:4]\<close> panics when the sum has wrapped.\<close>

definition ReadMessage :: "packer_options \<Rightarrow> bytes \<Rightarrow> (bytes \<times> bytes) go" where
  "ReadMessage p s =
     go_bind (ReadFull defaultSizeBytes s) (\<lambda>(buf, s).
     go_bind (Uint32 (byteOrder p) buf) (\<lambda>size.
     if size = 0 then Ok ([], s)
     else if frame_bytes size < defaultSizeBytes then Panic
     else go_map (\<lambda>(body, s). (buf @ body, s)) (ReadFull (frame_bytes size - defaultSizeBytes) s)))"

text \<open>\<open>ReadBuffer\<close> reads into a pooled block; an empty packet is a nil buffer.\<close>

definition ReadBuffer ::
    "packer_options \<Rightarrow> (gbytes list \<Rightarrow> nat option) \<Rightarrow> bytes \<Rightarrow> bytes_pool \<Rightarrow>
     (gbytes option \<times> bytes) go \<times> bytes_pool" where
  "ReadBuffer p sel s bp = read_frame_pooled (byteOrder p) (Ok None) sel s bp"

text \<open>\<open>nocopyReadMessage\<close> over the methods of a \<open>NocopyReader\<close>, which are arguments.\<close>

definition nocopyReadMessage ::
    "packer_options \<Rightarrow> (nat \<Rightarrow> 'r \<Rightarrow> bytes go) \<Rightarrow> (nat \<Rightarrow> 'r \<Rightarrow> ('r \<times> 'r) go) \<Rightarrow>
     (nat \<Rightarrow> 'r \<Rightarrow> bytes go) \<Rightarrow> ('r \<Rightarrow> 'r go) \<Rightarrow> 'r \<Rightarrow> (bytes \<times> 'r) go" where
  "nocopyReadMessage p Peek Slice Next Release rd =
     go_bind (Peek defaultSizeBytes rd) (\<lambda>buf.
     go_bind (Uint32 (if byteOrder p = BigEndian then BigEndian else LittleEndian) buf) (\<lambda>size.
     if size = 0 then Ok ([], rd)
     else let n = frame_bytes size
          in go_bind (Slice n rd) (\<lambda>(r, rd).
             go_bind (Next n r) (\<lambda>buf.
             go_bind (Release rd) (\<lambda>rd. Ok (buf, rd))))))"

section \<open>Packing and unpacking\<close>

abbreviation MaxInt32 :: nat where "MaxInt32 \<equiv> 2147483647"

definition totalLen :: "Message \<Rightarrow> nat" where
  "totalLen m = defaultHeaderSize + length (mBuffer m)"

definition PackBuffer ::
    "packer_options \<Rightarrow> (writer list \<Rightarrow> nat option) \<Rightarrow> Message \<Rightarrow> writer_pool \<Rightarrow> (nocopy \<times> writer_pool) go" where
  "PackBuffer p sel m wp =
     (if int (length (mBuffer m)) > bufferBytes p then Err ErrMessageTooLarge
      else if int (totalLen m) > bufferBytes p \<or> totalLen m > MaxInt32 then Err ErrMessageTooLarge
      else go_bind (WriterPool_Get sel defaultHeaderSize wp) (\<lambda>(w, wp).
           case w of
             None \<Rightarrow> Panic
           | Some w \<Rightarrow>
               go_map (\<lambda>w. (NewNocopyBuffer [MBlock (WriterBlock w), MBlock (RawBlock (mBuffer m))], wp))
                 (go_seq
                   [WriteInt32s (byteOrder p) [of_nat (totalLen m)],
                    WriteInt32s (byteOrder p) [dataBit],
                    WriteInt32s (byteOrder p) [mGameID m],
                    WriteInt32s (byteOrder p) [mMessageID m],
                    WriteInt32s (byteOrder p) [mSeq m]] w)))"

definition PackMessage :: "packer_options \<Rightarrow> Message \<Rightarrow> bytes go" where
  "PackMessage p m =
     (if int (length (mBuffer m)) > bufferBytes p then Err ErrMessageTooLarge
      else if totalLen m > MaxInt32 then Err ErrMessageTooLarge
      else let put = (\<lambda>off v buf. overwrite off (PutUint32 (byteOrder p) v) buf);
               buf = replicate (4 + totalLen m) 0;
               buf = put 0 (of_nat (totalLen m)) buf;
               buf = put 4 dataBit buf;
               buf = put 8 (mGameID m) buf;
               buf = put 12 (mMessageID m) buf;
               buf = put 16 (mSeq m) buf
           in Ok (overwrite 20 (take (length buf - 20) (mBuffer m)) buf))"

text \<open>\<open>UnpackMessage\<close> returns the message, nil on a half packet, and the bytes consumed.\<close>

definition UnpackMessage :: "packer_options \<Rightarrow> bytes \<Rightarrow> (Message option \<times> nat) go" where
  "UnpackMessage p data =
     (if length data < defaultSizeBytes then Ok (None, 0)
      else
        go_bind (Uint32 (byteOrder p) data) (\<lambda>sz.
        let size = unat sz
        in if size < defaultHeaderSize \<or> int size > bufferBytes p then Err ErrInvalidMessage
           else if length data < size then Ok (None, 0)
           else
             go_bind (Uint32 (byteOrder p) (drop 4 data)) (\<lambda>dataBitVal.
             if dataBitVal AND dataBit \<noteq> dataBit then Err ErrInvalidMessage
             else
               go_bind (Uint32 (byteOrder p) (drop 8 data)) (\<lambda>gameID.
               go_bind (Uint32 (byteOrder p) (drop 12 data)) (\<lambda>messageID.
               go_bind (Uint32 (byteOrder p) (drop 16 data)) (\<lambda>seq.
               go_bind (slice_range 20 size data) (\<lambda>body.
                 Ok (Some \<lparr>mSeq = seq, mGameID = gameID, mMessageID = messageID, mBuffer = body\<rparr>,
                     size))))))))"

section \<open>The wire format\<close>

text \<open>The five header fields in order.\<close>

definition packet_header :: "byteorder \<Rightarrow> Message \<Rightarrow> bytes" where
  "packet_header ord m =
     PutUint32 ord (of_nat (totalLen m)) @ PutUint32 ord dataBit @ PutUint32 ord (mGameID m) @
     PutUint32 ord (mMessageID m) @ PutUint32 ord (mSeq m)"

definition packet_fits :: "packer_options \<Rightarrow> Message \<Rightarrow> bool" where
  "packet_fits p m \<longleftrightarrow> int (totalLen m) \<le> bufferBytes p \<and> totalLen m \<le> MaxInt32"

lemma length_packet_header [simp]: "length (packet_header ord m) = 20"
  by (simp add: packet_header_def)

lemma unat_totalLen: "totalLen m \<le> MaxInt32 \<Longrightarrow> unat (of_nat (totalLen m) :: uint32) = totalLen m"
  by (simp add: unsigned_of_nat take_bit_nat_eq_self_iff)

lemma overwrite_front:
  "length pre = off \<Longrightarrow> length bs = k \<Longrightarrow> k \<le> n \<Longrightarrow>
   overwrite off bs (pre @ replicate n z) = (pre @ bs) @ replicate (n - k) z"
  by (simp add: overwrite_def)

text \<open>\<open>PackMessage\<close> writes the header and the body, and leaves four zero bytes behind them.\<close>

lemma PackMessage_layout:
  assumes "int (length (mBuffer m)) \<le> bufferBytes p" "totalLen m \<le> MaxInt32"
  shows "PackMessage p m = Ok (packet_header (byteOrder p) m @ mBuffer m @ replicate 4 0)"
proof -
  let ?P = "PutUint32 (byteOrder p)"
  have "totalLen m = 20 + length (mBuffer m)" by (simp add: totalLen_def)
  then show ?thesis
    using assms overwrite_front [of "[]" 0 "?P (of_nat (totalLen m))" 4]
      overwrite_front [of "?P (of_nat (totalLen m))" 4 "?P dataBit" 4]
      overwrite_front [of "?P (of_nat (totalLen m)) @ ?P dataBit" 8 "?P (mGameID m)" 4]
      overwrite_front [of "(?P (of_nat (totalLen m)) @ ?P dataBit) @ ?P (mGameID m)" 12 "?P (mMessageID m)" 4]
      overwrite_front [of "((?P (of_nat (totalLen m)) @ ?P dataBit) @ ?P (mGameID m)) @ ?P (mMessageID m)" 16
        "?P (mSeq m)" 4]
      overwrite_front [of "packet_header (byteOrder p) m" 20 "mBuffer m" "length (mBuffer m)"]
    by (simp add: PackMessage_def Let_def packet_header_def del: replicate_Suc)
qed

text \<open>Unpacking anything that starts with header and body.\<close>

lemma UnpackMessage_layout:
  assumes "packet_fits p m"
  shows "UnpackMessage p (packet_header (byteOrder p) m @ mBuffer m @ rest) = Ok (Some m, totalLen m)"
proof -
  define sz where "sz = (of_nat (totalLen m) :: uint32)"
  define data where "data = packet_header (byteOrder p) m @ mBuffer m @ rest"
  have tl: "totalLen m = 20 + length (mBuffer m)" by (simp add: totalLen_def)
  have u: "unat sz = totalLen m"
    using assms unat_totalLen [of m] by (simp add: packet_fits_def sz_def)
  have len: "length data = totalLen m + length rest" by (simp add: data_def tl)
  have body: "slice_range 20 (totalLen m) data = Ok (mBuffer m)"
    unfolding data_def by (rule slice_range_append) (simp_all add: tl)
  have fields: "Uint32 (byteOrder p) data = Ok sz" "Uint32 (byteOrder p) (drop 4 data) = Ok dataBit"
    "Uint32 (byteOrder p) (drop 8 data) = Ok (mGameID m)"
    "Uint32 (byteOrder p) (drop 12 data) = Ok (mMessageID m)"
    "Uint32 (byteOrder p) (drop 16 data) = Ok (mSeq m)"
    unfolding data_def packet_header_def sz_def [symmetric] by simp_all
  have "20 \<le> totalLen m" "int (totalLen m) \<le> bufferBytes p"
    using assms by (simp_all add: tl packet_fits_def)
  then show ?thesis
    unfolding data_def [symmetric] UnpackMessage_def by (simp add: fields body u len Let_def del: of_nat_unat)
qed

text \<open>Reading a frame whose length field is its length minus four.\<close>

lemma ReadMessage_frame:
  assumes "length body = unat sz" "sz \<noteq> 0" "unat sz < 2 ^ 32 - 4"
  shows "ReadMessage p ((PutUint32 (byteOrder p) sz @ body) @ rest) = Ok (PutUint32 (byteOrder p) sz @ body, rest)"
  using assms by (simp add: ReadMessage_def frame_bytes_no_wrap)

section \<open>Packets on a stream\<close>

definition packet_bytes :: "packer_options \<Rightarrow> Message \<Rightarrow> bytes" where
  "packet_bytes p m = (case PackMessage p m of Ok bs \<Rightarrow> bs | _ \<Rightarrow> [])"

text \<open>What a connection does with its stream: take a frame off, unpack it.\<close>

definition receive_packet :: "packer_options \<Rightarrow> bytes \<Rightarrow> (Message option \<times> bytes) go" where
  "receive_packet p s =
     go_bind (ReadMessage p s) (\<lambda>(data, s). go_map (\<lambda>(m, _). (m, s)) (UnpackMessage p data))"

lemma packet_fits_layout:
  assumes "packet_fits p m"
  shows "PackMessage p m = Ok (packet_header (byteOrder p) m @ mBuffer m @ replicate 4 0)"
  using assms by (intro PackMessage_layout) (auto simp: packet_fits_def totalLen_def)

lemma packet_bytes_fits:
  "packet_fits p m \<Longrightarrow> packet_bytes p m = packet_header (byteOrder p) m @ mBuffer m @ replicate 4 0"
  by (simp add: packet_bytes_def packet_fits_layout)

lemma ReadMessage_packet:
  assumes "packet_fits p m"
  shows "ReadMessage p (packet_bytes p m @ rest) = Ok (packet_bytes p m, rest)"
proof -
  let ?sz = "of_nat (totalLen m) :: uint32"
  let ?body = "drop 4 (packet_header (byteOrder p) m) @ mBuffer m @ replicate 4 0"
  have u: "unat ?sz = totalLen m" "totalLen m \<le> MaxInt32"
    using assms by (auto simp: packet_fits_def unat_totalLen)
  have b: "packet_bytes p m = PutUint32 (byteOrder p) ?sz @ ?body"
    by (simp add: packet_bytes_fits [OF assms] packet_header_def)
  have "length ?body = totalLen m" by (simp add: totalLen_def)
  moreover have "?sz \<noteq> 0" using u(1) by (metis totalLen_def unsigned_0 add_is_0 zero_neq_numeral)
  ultimately show ?thesis
    unfolding b using u ReadMessage_frame [of ?body ?sz p rest] by simp
qed

lemma receive_packet_enc:
  "packet_fits p m \<Longrightarrow> receive_packet p (packet_bytes p m @ rest) = Ok (Some m, rest)"
  using UnpackMessage_layout [of p m "replicate 4 0"] ReadMessage_packet [of p m rest]
  by (simp add: receive_packet_def) (simp add: packet_bytes_fits)

interpretation pk: frame_reader "packet_fits p" "packet_bytes p" "receive_packet p" Some for p
  by unfold_locales (simp add: receive_packet_enc, simp add: receive_packet_def ReadMessage_def ReadFull_def)

section \<open>Pooled packing and reading\<close>

lemma PackBuffer_layout:
  assumes "packet_fits p m" "writer_pool_ok wp"
  shows "\<exists>b wp'. PackBuffer p sel m wp = Ok (b, wp') \<and> nocopy_ok b \<and> no_empty_sub b \<and> writer_pool_ok wp' \<and>
    contents b = packet_header (byteOrder p) m @ mBuffer m"
proof -
  obtain w wp1 i where w: "WriterPool_Get sel 20 wp = Ok (Some w, wp1)" "writer_idle i w" "writer_pool_ok wp1"
    using WriterPool_Get_idle [OF assms(2), of 20 sel] by auto
  let ?vs = "[of_nat (totalLen m), dataBit, mGameID m, mMessageID m, mSeq m]"
  let ?ops = "map (\<lambda>v. WriteInt32s (byteOrder p) [v]) ?vs"
  have "list_all2 appends ?ops (map (PutUint32 (byteOrder p)) ?vs)" by simp
  then have "appends (go_seq ?ops) (packet_header (byteOrder p) m)"
    by (drule_tac appends_go_seq) (simp add: packet_header_def)
  then obtain w' where w': "go_seq ?ops w = Ok w'" "writer_ok w'" "wbytes w' = packet_header (byteOrder p) m"
    using w(2) by (auto simp: writer_idle_def wbytes_def elim!: appendsE)
  let ?b = "NewNocopyBuffer [MBlock (WriterBlock w'), MBlock (RawBlock (mBuffer m))]"
  have "PackBuffer p sel m wp = Ok (?b, wp1)"
    using assms(1) w(1) w'(1) by (auto simp: PackBuffer_def packet_fits_def totalLen_def)
  moreover have "nocopy_ok ?b" "leaves ?b = [WriterBlock w', RawBlock (mBuffer m)]"
    using w'(2) by (simp_all add: NewNocopyBuffer_ok block_ok_def)
  moreover have "no_empty_sub ?b"
    by (simp add: NewNocopyBuffer_def Mount_def mount_at_def empty_nocopy_def)
  ultimately show ?thesis
    using w(3) w'(3) by (auto simp: contents_def block_data_def)
qed

lemma read_frame_ReadMessage:
  "go_map (\<lambda>(b, s). (case b of None \<Rightarrow> [] | Some d \<Rightarrow> d, s)) (read_frame (byteOrder p) (Ok None) s) = ReadMessage p s"
proof (cases "ReadFull 4 s")
  case (Ok r)
  obtain buf s' where r: "r = (buf, s')" by fastforce
  with Ok have "length buf = 4" by (simp add: ReadFull_Ok_iff)
  then obtain sz where "Uint32 (byteOrder p) buf = Ok sz" using Uint_total(2) by blast
  then show ?thesis
    using Ok r by (cases "ReadFull (frame_bytes sz - 4) s'") (auto simp: read_frame_def ReadMessage_def split_beta)
qed (simp_all add: read_frame_def ReadMessage_def)

section \<open>Properties of the packet layer\<close>

text \<open>C26. A client packet round trips: whatever is packed within the configured size is read off the
  stream as one frame, nothing of the following bytes is touched, and unpacks to the same message
  with the number of bytes header and body take.\<close>

theorem packet_round_trip:
  assumes "packet_fits p m"
  shows "\<exists>fr. PackMessage p m = Ok fr \<and> ReadMessage p (fr @ rest) = Ok (fr, rest) \<and>
    UnpackMessage p fr = Ok (Some m, 20 + length (mBuffer m))"
  using ReadMessage_packet [OF assms, of rest] UnpackMessage_layout [OF assms, of "replicate 4 0"]
    packet_fits_layout [OF assms] packet_bytes_fits [OF assms]
  by (auto simp: totalLen_def)

theorem packet_round_trip_witness:
  "\<exists>fr. PackMessage \<lparr>byteOrder = LittleEndian, bufferBytes = 65535\<rparr> \<lparr>mSeq = 1, mGameID = 2, mMessageID = 3, mBuffer = [4, 5]\<rparr> = Ok fr \<and>
    UnpackMessage \<lparr>byteOrder = LittleEndian, bufferBytes = 65535\<rparr> fr =
      Ok (Some \<lparr>mSeq = 1, mGameID = 2, mMessageID = 3, mBuffer = [4, 5]\<rparr>, 22)"
  using packet_round_trip [of "\<lparr>byteOrder = LittleEndian, bufferBytes = 65535\<rparr>"
      "\<lparr>mSeq = 1, mGameID = 2, mMessageID = 3, mBuffer = [4, 5]\<rparr>" "[]"]
  by (auto simp: packet_fits_def totalLen_def)

text \<open>Any sequence of packets written back to back on a client connection is received as the
  same sequence of messages, in order, and then EOF.\<close>

theorem packet_stream_in_order:
  assumes "list_all (packet_fits p) ms"
  shows "read_loop (Suc (length ms)) (receive_packet p) (concat (map (packet_bytes p) ms)) = (map Some ms, Err IoEOF)"
  using pk.read_loop_frames [OF assms, of "Suc (length ms)"] by simp

theorem packet_stream_in_order_witness:
  "read_loop 2 (receive_packet \<lparr>byteOrder = BigEndian, bufferBytes = 100\<rparr>)
     (packet_bytes \<lparr>byteOrder = BigEndian, bufferBytes = 100\<rparr> \<lparr>mSeq = 1, mGameID = 2, mMessageID = 3, mBuffer = [4]\<rparr>) =
   ([Some \<lparr>mSeq = 1, mGameID = 2, mMessageID = 3, mBuffer = [4]\<rparr>], Err IoEOF)"
  using packet_stream_in_order [of "\<lparr>byteOrder = BigEndian, bufferBytes = 100\<rparr>"
      "[\<lparr>mSeq = 1, mGameID = 2, mMessageID = 3, mBuffer = [4]\<rparr>]"]
  by (simp add: packet_fits_def totalLen_def numeral_2_eq_2)

text \<open>C32. Unpacking is total and safe on every input from the network: it never panics; it either
  asks for more bytes, consuming none, or reports an invalid message, or returns a message and
  consumes header and body, which are within the input.\<close>

theorem UnpackMessage_safe:
  "UnpackMessage p data = Ok (None, 0) \<or> UnpackMessage p data = Err ErrInvalidMessage \<or>
   (\<exists>m n. UnpackMessage p data = Ok (Some m, n) \<and> n = 20 + length (mBuffer m) \<and> n \<le> length data \<and>
     int n \<le> bufferBytes p \<and> mBuffer m = take (length (mBuffer m)) (drop 20 data))"
proof (cases "length data < 4")
  case False
  then obtain sz where sz: "Uint32 (byteOrder p) data = Ok sz"
    by (cases "Uint32 (byteOrder p) data") (auto simp: Uint32_panic_iff Uint32_not_Err)
  have field: "\<exists>v. Uint32 (byteOrder p) (drop k data) = Ok v" if "k + 4 \<le> length data" for k
    using that by (cases "Uint32 (byteOrder p) (drop k data)") (auto simp: Uint32_panic_iff Uint32_not_Err)
  show ?thesis
  proof (cases "unat sz < 20 \<or> int (unat sz) > bufferBytes p \<or> length data < unat sz")
    case False
    then have "20 \<le> length data" by auto
    then obtain a b c d where "Uint32 (byteOrder p) (drop 4 data) = Ok a" "Uint32 (byteOrder p) (drop 8 data) = Ok b"
      "Uint32 (byteOrder p) (drop 12 data) = Ok c" "Uint32 (byteOrder p) (drop 16 data) = Ok d"
      using field [of 4] field [of 8] field [of 12] field [of 16] by auto
    then show ?thesis
      using False sz \<open>\<not> length data < 4\<close>
      by (auto simp: UnpackMessage_def Let_def dataBit_def slice_range_def simp del: of_nat_unat)
  qed (use sz False in \<open>auto simp: UnpackMessage_def Let_def simp del: of_nat_unat\<close>)
qed (simp add: UnpackMessage_def)

text \<open>The reading side of a client connection, byte for byte: reading into a pooled block gives the
  block's bytes exactly as the reader that allocates gives them, fails exactly when that one fails, and leaves the
  pool well-formed on every path, the error paths that release the block included.\<close>

theorem ReadBuffer_refines_ReadMessage:
  assumes "default_pool bp"
  shows "default_pool (snd (ReadBuffer p sel s bp)) \<and>
    go_map (\<lambda>(b, s). (case frame_block b of None \<Rightarrow> [] | Some d \<Rightarrow> d, s)) (fst (ReadBuffer p sel s bp)) = ReadMessage p s"
proof -
  note r = read_frame_pooled_ok [OF assms, of "Ok None" "byteOrder p" sel s, simplified]
  have "go_map (\<lambda>(b, s). (case frame_block b of None \<Rightarrow> [] | Some d \<Rightarrow> d, s)) (fst (ReadBuffer p sel s bp)) =
    go_map (\<lambda>(b, s). (case b of None \<Rightarrow> [] | Some d \<Rightarrow> d, s)) (read_frame (byteOrder p) (Ok None) s)"
    unfolding ReadBuffer_def using r [THEN conjunct2, symmetric]
    by (cases "fst (read_frame_pooled (byteOrder p) (Ok None) sel s bp)") (auto simp: split_beta)
  also have "\<dots> = ReadMessage p s" by (rule read_frame_ReadMessage)
  finally show ?thesis using r by (simp add: ReadBuffer_def)
qed

theorem ReadBuffer_refines_ReadMessage_witness:
  "go_map (\<lambda>(b, s). (case frame_block b of None \<Rightarrow> [] | Some d \<Rightarrow> d, s))
     (fst (ReadBuffer \<lparr>byteOrder = BigEndian, bufferBytes = 9\<rparr> (\<lambda>_. None) [0, 0, 0, 1, 7, 8] (NewBytesPool 32))) =
   Ok ([0, 0, 0, 1, 7], [8])"
proof -
  have "default_pool (NewBytesPool 32)" by (simp add: default_pool_def NewBytesPool_ok) (simp add: NewBytesPool_def)
  from ReadBuffer_refines_ReadMessage [OF this] show ?thesis
    by (simp add: ReadMessage_def byte_eval ReadFull_def frame_bytes_def)
qed

text \<open>The pooled packer used towards the cluster emits header and body, which unpack to the message.\<close>

theorem PackBuffer_unpacks:
  assumes "packet_fits p m" "writer_pool_ok wp"
  shows "\<exists>b wp'. PackBuffer p sel m wp = Ok (b, wp') \<and> writer_pool_ok wp' \<and>
    (\<exists>bs. Nocopy_Bytes b = Ok bs \<and> UnpackMessage p bs = Ok (Some m, length bs))"
proof -
  obtain b wp' where b: "PackBuffer p sel m wp = Ok (b, wp')" "nocopy_ok b" "no_empty_sub b" "writer_pool_ok wp'"
      "contents b = packet_header (byteOrder p) m @ mBuffer m"
    using PackBuffer_layout [OF assms] by blast
  then show ?thesis
    using Bytes_correct(1) [OF b(2,3)] UnpackMessage_layout [OF assms(1), of "[]"] by (auto simp: totalLen_def)
qed

theorem PackBuffer_unpacks_witness:
  "\<exists>b wp'. PackBuffer \<lparr>byteOrder = BigEndian, bufferBytes = 100\<rparr> (\<lambda>_. None)
      \<lparr>mSeq = 1, mGameID = 2, mMessageID = 3, mBuffer = [4]\<rparr> (NewWriterPool 32) = Ok (b, wp') \<and>
    (\<exists>bs. Nocopy_Bytes b = Ok bs \<and> UnpackMessage \<lparr>byteOrder = BigEndian, bufferBytes = 100\<rparr> bs =
      Ok (Some \<lparr>mSeq = 1, mGameID = 2, mMessageID = 3, mBuffer = [4]\<rparr>, length bs))"
  using PackBuffer_unpacks [of "\<lparr>byteOrder = BigEndian, bufferBytes = 100\<rparr>"
      "\<lparr>mSeq = 1, mGameID = 2, mMessageID = 3, mBuffer = [4]\<rparr>" "NewWriterPool 32" "\<lambda>_. None"] NewWriterPool_ok [of 32]
  by (auto simp: packet_fits_def totalLen_def)

text \<open>A body that fits the configured size while header and body together do not is packed, and
  then rejected as invalid by the receiver.\<close>

theorem PackMessage_unreadable:
  assumes "int (length (mBuffer m)) \<le> bufferBytes p" "bufferBytes p < int (totalLen m)" "totalLen m \<le> MaxInt32"
  shows "\<exists>fr. PackMessage p m = Ok fr \<and> UnpackMessage p fr = Err ErrInvalidMessage"
proof -
  define sz where "sz = (of_nat (totalLen m) :: uint32)"
  have u: "unat sz = totalLen m" using assms(3) by (simp only: sz_def unat_totalLen)
  have "Uint32 (byteOrder p) (packet_header (byteOrder p) m @ mBuffer m @ replicate 4 0) = Ok sz"
    unfolding packet_header_def sz_def [symmetric] by simp
  then show ?thesis
    using PackMessage_layout [OF assms(1,3)] assms(2) u
    by (simp add: UnpackMessage_def Let_def del: of_nat_unat)
qed

theorem PackMessage_unreadable_witness:
  "\<exists>fr. PackMessage \<lparr>byteOrder = BigEndian, bufferBytes = 10\<rparr> \<lparr>mSeq = 1, mGameID = 2, mMessageID = 3, mBuffer = [4]\<rparr> = Ok fr \<and>
    UnpackMessage \<lparr>byteOrder = BigEndian, bufferBytes = 10\<rparr> fr = Err ErrInvalidMessage"
  using PackMessage_unreadable [of "\<lparr>mSeq = 1, mGameID = 2, mMessageID = 3, mBuffer = [4]\<rparr>"
      "\<lparr>byteOrder = BigEndian, bufferBytes = 10\<rparr>"]
  by (simp add: totalLen_def)

end
