(* ===== verification/Reader.thy ===== *)
theory Reader
  imports ByteOrder
begin

text \<open>
  \<open>core/buffer/reader.go\<close>: the cursor over a byte slice that the packet layer and the
  cluster protocol decode with.  One definition per method; a read returns the value with
  the advanced reader.  Floats are kept as their IEEE bit patterns, which is what
  \<open>math.Float32frombits\<close> and \<open>math.Float64frombits\<close> start from.
\<close>

section \<open>Reader\<close>

record reader =
  rbuf :: bytes
  roff :: nat

type_synonym 'a read = "reader \<Rightarrow> ('a \<times> reader) go"

definition NewReader :: "bytes \<Rightarrow> reader" where
  "NewReader data = \<lparr>rbuf = data, roff = 0\<rparr>"

definition Reader_Reset :: "reader \<Rightarrow> reader" where
  "Reader_Reset r = r\<lparr>roff := 0\<rparr>"

text \<open>\<open>io.SeekStart\<close>, \<open>io.SeekCurrent\<close>, \<open>io.SeekEnd\<close> are 0, 1, 2.\<close>

definition Seek :: "int \<Rightarrow> int \<Rightarrow> int read" where
  "Seek offset whence r =
     (let abs = (if whence = 0 then Some offset
                 else if whence = 1 then Some (int (roff r) + offset)
                 else if whence = 2 then Some (int (length (rbuf r)) + offset)
                 else None)
      in case abs of
           None \<Rightarrow> Err SeekInvalidWhence
         | Some a \<Rightarrow> if a < 0 then Err SeekNegativePosition else Ok (a, r\<lparr>roff := nat a\<rparr>))"

definition slices :: "int \<Rightarrow> int \<Rightarrow> bytes read" where
  "slices b n r =
     (let off = b * n
      in if int (roff r) + off > int (length (rbuf r)) then Err ErrUnexpectedEOF
         else if off < 0 then Panic
         else Ok (take (nat off) (drop (roff r) (rbuf r)), r\<lparr>roff := roff r + nat off\<rparr>))"

definition slice :: "int \<Rightarrow> bytes read" where
  "slice b r = slices b 1 r"

text \<open>Reading a value out of the slice just taken; the element read \<open>order.UintN(buf)\<close> can
  panic, so it is sequenced.\<close>

definition on_slice :: "(bytes \<Rightarrow> 'a go) \<Rightarrow> (bytes \<times> reader) go \<Rightarrow> ('a \<times> reader) go" where
  "on_slice f s = go_bind s (\<lambda>(buf, r). go_map (\<lambda>v. (v, r)) (f buf))"

definition first_byte :: "bytes \<Rightarrow> byte go" where
  "first_byte buf = (case buf of [] \<Rightarrow> Panic | b # _ \<Rightarrow> Ok b)"

definition ReadBool :: "bool read" where
  "ReadBool r = on_slice (\<lambda>buf. go_map (\<lambda>b. b = 1) (first_byte buf)) (slice 1 r)"

definition ReadBools :: "int \<Rightarrow> bool list read" where
  "ReadBools n r =
     (if n \<le> 0 then Ok ([], r) else on_slice (\<lambda>buf. Ok (map (\<lambda>b. b = 1) buf)) (slices 1 n r))"

definition ReadInt8 :: "int8 read" where
  "ReadInt8 r = on_slice first_byte (slice 1 r)"

definition ReadInt8s :: "int \<Rightarrow> int8 list read" where
  "ReadInt8s n r =
     (if n \<le> 0 then Ok ([], r) else on_slice (\<lambda>buf. Ok buf) (slices 1 n r))"

definition ReadUint8 :: "uint8 read" where
  "ReadUint8 r = on_slice first_byte (slice 1 r)"

definition ReadUint8s :: "int \<Rightarrow> uint8 list read" where
  "ReadUint8s n r =
     (if n \<le> 0 then Ok ([], r) else on_slice (\<lambda>buf. Ok buf) (slices 1 n r))"

definition ReadInt16 :: "byteorder \<Rightarrow> int16 read" where
  "ReadInt16 ord r = on_slice (Uint16 ord) (slice 2 r)"

definition ReadInt16s :: "byteorder \<Rightarrow> int \<Rightarrow> int16 list read" where
  "ReadInt16s ord n r =
     (if n \<le> 0 then Ok ([], r) else on_slice (chunk_loop 2 (Uint16 ord)) (slices 2 n r))"

definition ReadUint16 :: "byteorder \<Rightarrow> uint16 read" where
  "ReadUint16 ord r = on_slice (Uint16 ord) (slice 2 r)"

definition ReadUint16s :: "byteorder \<Rightarrow> int \<Rightarrow> uint16 list read" where
  "ReadUint16s ord n r =
     (if n \<le> 0 then Ok ([], r) else on_slice (chunk_loop 2 (Uint16 ord)) (slices 2 n r))"

definition ReadInt32 :: "byteorder \<Rightarrow> int32 read" where
  "ReadInt32 ord r = on_slice (Uint32 ord) (slice 4 r)"

definition ReadInt32s :: "byteorder \<Rightarrow> int \<Rightarrow> int32 list read" where
  "ReadInt32s ord n r = on_slice (chunk_loop 4 (Uint32 ord)) (slices 4 n r)"

definition ReadUint32 :: "byteorder \<Rightarrow> uint32 read" where
  "ReadUint32 ord r = on_slice (Uint32 ord) (slice 4 r)"

definition ReadUint32s :: "byteorder \<Rightarrow> int \<Rightarrow> uint32 list read" where
  "ReadUint32s ord n r = on_slice (chunk_loop 4 (Uint32 ord)) (slices 4 n r)"

definition ReadInt64 :: "byteorder \<Rightarrow> int64 read" where
  "ReadInt64 ord r = on_slice (Uint64 ord) (slice 8 r)"

definition ReadInt64s :: "byteorder \<Rightarrow> int \<Rightarrow> int64 list read" where
  "ReadInt64s ord n r =
     (if n \<le> 0 then Ok ([], r) else on_slice (chunk_loop 8 (Uint64 ord)) (slices 8 n r))"

definition ReadUint64 :: "byteorder \<Rightarrow> uint64 read" where
  "ReadUint64 ord r = on_slice (Uint64 ord) (slice 8 r)"

definition ReadUint64s :: "byteorder \<Rightarrow> int \<Rightarrow> uint64 list read" where
  "ReadUint64s ord n r =
     (if n \<le> 0 then Ok ([], r) else on_slice (chunk_loop 8 (Uint64 ord)) (slices 8 n r))"

definition ReadFloat32 :: "byteorder \<Rightarrow> uint32 read" where
  "ReadFloat32 ord r = on_slice (Uint32 ord) (slice 4 r)"

definition ReadFloat32s :: "byteorder \<Rightarrow> int \<Rightarrow> uint32 list read" where
  "ReadFloat32s ord n r =
     (if n \<le> 0 then Ok ([], r) else on_slice (chunk_loop 4 (Uint32 ord)) (slices 4 n r))"

definition ReadFloat64 :: "byteorder \<Rightarrow> uint64 read" where
  "ReadFloat64 ord r = on_slice (Uint64 ord) (slice 8 r)"

definition ReadFloat64s :: "byteorder \<Rightarrow> int \<Rightarrow> uint64 list read" where
  "ReadFloat64s ord n r =
     (if n \<le> 0 then Ok ([], r) else on_slice (chunk_loop 8 (Uint64 ord)) (slices 8 n r))"

definition ReadRune :: "(int32 \<times> nat) read" where
  "ReadRune r = go_map (\<lambda>(v, r'). ((v, 4), r')) (ReadInt32 LittleEndian r)"

definition ReadRuneArg :: "byteorder \<Rightarrow> int32 read" where
  "ReadRuneArg ord r = ReadInt32 ord r"

definition ReadRunes :: "byteorder \<Rightarrow> int \<Rightarrow> int32 list read" where
  "ReadRunes ord n r = ReadInt32s ord n r"

definition ReadByte :: "byte read" where
  "ReadByte r = ReadUint8 r"

definition ReadBytes :: "int \<Rightarrow> bytes read" where
  "ReadBytes n r = (if n \<le> 0 then Ok ([], r) else slices 1 n r)"

definition ReadString :: "int \<Rightarrow> string read" where
  "ReadString len r = on_slice (\<lambda>buf. Ok (bytes_string buf)) (slice len r)"

section \<open>Shared facts\<close>

text \<open>A request for \<open>k\<close> bytes, \<open>k = b * n\<close>, is served exactly when \<open>k\<close> bytes remain.\<close>

lemma slices_nat:
  assumes "b * n = int k"
  shows "slices b n r =
    (if length (rbuf r) < roff r + k then Err ErrUnexpectedEOF
     else Ok (take k (drop (roff r) (rbuf r)), r\<lparr>roff := roff r + k\<rparr>))"
  using assms by (auto simp: slices_def Let_def)

lemma slices_negative:
  "b * n < 0 \<Longrightarrow> roff r \<le> length (rbuf r) \<Longrightarrow> slices b n r = Panic"
  by (auto simp: slices_def Let_def)

lemma on_slice_Ok [simp]: "on_slice f (Ok (buf, r)) = go_map (\<lambda>v. (v, r)) (f buf)"
  by (simp add: on_slice_def)

lemma on_slice_Err [simp]: "on_slice f (Err e) = Err e" "on_slice f Panic = Panic"
  by (simp_all add: on_slice_def)

lemma first_byte_Cons [simp]: "first_byte (b # bs) = Ok b"
  by (simp add: first_byte_def)

lemmas read_defs = ReadBool_def ReadBools_def ReadInt8_def ReadInt8s_def ReadUint8_def
  ReadUint8s_def ReadInt16_def ReadInt16s_def ReadUint16_def ReadUint16s_def ReadInt32_def
  ReadInt32s_def ReadUint32_def ReadUint32s_def ReadInt64_def ReadInt64s_def ReadUint64_def
  ReadUint64s_def ReadFloat32_def ReadFloat32s_def ReadFloat64_def ReadFloat64s_def
  ReadBytes_def ReadString_def ReadByte_def ReadRune_def ReadRuneArg_def ReadRunes_def

text \<open>\<open>reads op bs v\<close>: wherever the reader stands before \<open>bs\<close>, \<open>op\<close> returns \<open>v\<close> and moves
  past \<open>bs\<close>.\<close>

definition reads :: "'a read \<Rightarrow> bytes \<Rightarrow> 'a \<Rightarrow> bool" where
  "reads op bs v \<longleftrightarrow> (\<forall>pre post.
     op \<lparr>rbuf = pre @ bs @ post, roff = length pre\<rparr> =
       Ok (v, \<lparr>rbuf = pre @ bs @ post, roff = length pre + length bs\<rparr>))"

lemma reads_slices:
  "b * n = int (length bs) \<Longrightarrow> f bs = Ok v \<Longrightarrow> reads (\<lambda>r. on_slice f (slices b n r)) bs v"
  by (auto simp: reads_def slices_nat)

lemma reads_at:
  assumes "reads op bs v" "drop n data = bs @ post" "n \<le> length data"
  shows "op \<lparr>rbuf = data, roff = n\<rparr> = Ok (v, \<lparr>rbuf = data, roff = n + length bs\<rparr>)"
proof -
  have "data = take n data @ bs @ post" "length (take n data) = n"
    using assms(2,3) append_take_drop_id [of n data] by auto
  then show ?thesis using assms(1) unfolding reads_def by metis
qed

lemma reads_nothing: "reads (\<lambda>r. Ok (v, r)) [] v"
  by (simp add: reads_def)

lemma reads_if: "(c \<Longrightarrow> reads f bs v) \<Longrightarrow> (\<not> c \<Longrightarrow> reads g bs v) \<Longrightarrow>
    reads (\<lambda>r. if c then f r else g r) bs v"
  by (cases c) simp_all

lemma ReadUint8_reads [reads_rules]: "reads ReadUint8 [b] b"
  unfolding read_defs slice_def by (rule reads_slices) simp_all

lemma ReadBool_reads [reads_rules]: "reads ReadBool [if b then 1 else 0] b"
  unfolding read_defs slice_def by (rule reads_slices) simp_all

lemma ReadUint16_reads [reads_rules]: "reads (ReadUint16 ord) (PutUint16 ord v) v"
  unfolding read_defs slice_def by (rule reads_slices) simp_all

lemma ReadUint32_reads [reads_rules]: "reads (ReadUint32 ord) (PutUint32 ord v) v"
  unfolding read_defs slice_def by (rule reads_slices) simp_all

lemma ReadInt32_reads [reads_rules]: "reads (ReadInt32 ord) (PutUint32 ord v) v"
  unfolding read_defs slice_def by (rule reads_slices) simp_all

lemma ReadUint64_reads [reads_rules]: "reads (ReadUint64 ord) (PutUint64 ord v) v"
  unfolding read_defs slice_def by (rule reads_slices) simp_all

lemma ReadInt64_reads [reads_rules]: "reads (ReadInt64 ord) (PutUint64 ord v) v"
  unfolding read_defs slice_def by (rule reads_slices) simp_all

lemma ReadString_reads [reads_rules]:
  "n = int (length s) \<Longrightarrow> reads (ReadString n) (string_bytes s) s"
  unfolding read_defs slice_def by (rule reads_slices) (simp_all add: o_def)

lemma ReadUint16s_reads [reads_rules]:
  "n = int (length vs) \<Longrightarrow> reads (ReadUint16s ord n) (concat (map (PutUint16 ord) vs)) vs"
  unfolding read_defs
  by (intro reads_if reads_slices) (simp_all add: reads_nothing u16.length_concat_put)

lemma ReadInt64s_reads [reads_rules]:
  "n = int (length vs) \<Longrightarrow> reads (ReadInt64s ord n) (concat (map (PutUint64 ord) vs)) vs"
  unfolding read_defs
  by (intro reads_if reads_slices) (simp_all add: reads_nothing u64.length_concat_put)

lemma ReadUint64s_reads [reads_rules]:
  "n = int (length vs) \<Longrightarrow> reads (ReadUint64s ord n) (concat (map (PutUint64 ord) vs)) vs"
  unfolding read_defs
  by (intro reads_if reads_slices) (simp_all add: reads_nothing u64.length_concat_put)

lemma ReadInt32s_reads [reads_rules]:
  "n = int (length vs) \<Longrightarrow> reads (ReadInt32s ord n) (concat (map (PutUint32 ord) vs)) vs"
  unfolding read_defs by (rule reads_slices) (simp_all add: u32.length_concat_put)

section \<open>Behaviour of the multi-value reads\<close>

text \<open>A read of \<open>n\<close> values of width \<open>w\<close> with a decoder that is total on \<open>w\<close> bytes either
  reports the missing bytes or returns \<open>n\<close> values and consumes \<open>w * n\<close> bytes.\<close>

definition served :: "nat \<Rightarrow> nat \<Rightarrow> reader \<Rightarrow> ('a list \<times> reader) go \<Rightarrow> bool" where
  "served w n r res \<longleftrightarrow>
     (if length (rbuf r) < roff r + w * n then res = Err ErrUnexpectedEOF
      else \<exists>vs. res = Ok (vs, r\<lparr>roff := roff r + w * n\<rparr>) \<and> length vs = n)"

lemma served_chunks:
  assumes "fixed_codec w put get" "\<And>b. length b = w \<Longrightarrow> \<exists>v. get b = Ok v"
  shows "served w n r (on_slice (chunk_loop w get) (slices (int w) (int n) r))"
proof -
  have "slices (int w) (int n) r =
    (if length (rbuf r) < roff r + w * n then Err ErrUnexpectedEOF
     else Ok (take (w * n) (drop (roff r) (rbuf r)), r\<lparr>roff := roff r + w * n\<rparr>))"
    by (rule slices_nat) simp
  moreover have "\<exists>vs. chunk_loop w get (take (w * n) (drop (roff r) (rbuf r))) = Ok vs \<and> length vs = n"
    if "\<not> length (rbuf r) < roff r + w * n"
    using fixed_codec.chunk_loop_total [OF assms(1,2), of "take (w * n) (drop (roff r) (rbuf r))" n] that
    by auto
  ultimately show ?thesis by (auto simp: served_def)
qed

lemmas served_u16 = served_chunks [OF u16.fixed_codec_axioms Uint_total(1)]
lemmas served_u32 = served_chunks [OF u32.fixed_codec_axioms Uint_total(2)]
lemmas served_u64 = served_chunks [OF u64.fixed_codec_axioms Uint_total(3)]

lemma served_0: "roff r \<le> length (rbuf r) \<Longrightarrow> served w 0 r (Ok ([], r))"
  by (simp add: served_def)

section \<open>Properties of the reader\<close>



text \<open>A negative count is refused by every multi-value read but the two of 32 bits, which panic.\<close>

theorem reader_negative_count:
  assumes "roff r \<le> length (rbuf r)" "n < 0"
  shows "ReadInt32s ord n r = Panic \<and> ReadUint32s ord n r = Panic \<and>
    ReadInt64s ord n r = Ok ([], r) \<and> ReadUint16s ord n r = Ok ([], r)"
  using assms by (simp add: read_defs slices_negative)

theorem reader_negative_count_witness: "ReadInt32s BigEndian (- 1) (NewReader [1]) = Panic"
  using reader_negative_count [of "NewReader [1]" "- 1" BigEndian] by (simp add: NewReader_def)

end
