(* ===== verification/Protocol.thy ===== *)
theory Protocol
  imports Nocopy Reader PooledRead
begin

unbundle bit_operations_syntax

text \<open>
  \<open>internal/transporter/internal/protocol\<close>: the messages nodes and gates exchange.  A message is
  \<open>size (4) | header (1) | route (1) | seq (8) | ...\<close>, big endian.  One definition per
  \<open>Encode...\<close> and \<open>Decode...\<close> function, in the statement order of the source.  An encoder
  draws its writer from the pool and returns the chain with the pool left; a decoder works on
  the bytes of one frame.  \<open>session.Kind\<close>, \<open>cluster.Kind\<close>, \<open>State\<close> and \<open>Event\<close> are Go
  \<open>int\<close>s, encoded through \<open>uint8\<close>.
\<close>

section \<open>Constants\<close>

text \<open>\<open>protocol/def.go\<close>, \<open>route/\<close> and \<open>codes/\<close>.\<close>


definition route_Handshake :: uint8 where
  "route_Handshake = 1"

definition route_Bind :: uint8 where
  "route_Bind = 2"

definition route_Unbind :: uint8 where
  "route_Unbind = 3"

definition route_GetIP :: uint8 where
  "route_GetIP = 4"

definition route_Stat :: uint8 where
  "route_Stat = 5"

definition route_IsOnline :: uint8 where
  "route_IsOnline = 6"

definition route_Disconnect :: uint8 where
  "route_Disconnect = 7"

definition route_Push :: uint8 where
  "route_Push = 8"

definition route_Multicast :: uint8 where
  "route_Multicast = 9"

definition route_Broadcast :: uint8 where
  "route_Broadcast = 10"

definition route_Publish :: uint8 where
  "route_Publish = 11"

definition route_Subscribe :: uint8 where
  "route_Subscribe = 12"

definition route_Unsubscribe :: uint8 where
  "route_Unsubscribe = 13"

definition route_Trigger :: uint8 where
  "route_Trigger = 14"

definition route_Deliver :: uint8 where
  "route_Deliver = 15"

definition route_GetState :: uint8 where
  "route_GetState = 16"

definition route_SetState :: uint8 where
  "route_SetState = 17"

definition codes_OK :: uint16 where
  "codes_OK = 0"

definition codes_NotFoundSession :: uint16 where
  "codes_NotFoundSession = 1"

definition codes_InternalError :: uint16 where
  "codes_InternalError = 2"

definition proto_dataBit :: uint8 where
  "proto_dataBit = push_bit 7 0"

definition heartbeatBit :: uint8 where
  "heartbeatBit = push_bit 7 1"

text \<open>\<open>None\<close> is the nil error.\<close>

definition ErrorToCode :: "goerr option \<Rightarrow> uint16" where
  "ErrorToCode err = (case err of
      None \<Rightarrow> codes_OK
    | Some ErrNotFoundSession \<Rightarrow> codes_NotFoundSession
    | Some _ \<Rightarrow> codes_InternalError)"

definition CodeToError :: "uint16 \<Rightarrow> goerr option" where
  "CodeToError code =
     (if code = codes_OK then None
      else if code = codes_NotFoundSession then Some ErrNotFoundSession
      else Some ErrUnknownError)"

section \<open>Encoding and decoding\<close>

type_synonym encoder = "(writer list \<Rightarrow> nat option) \<Rightarrow> writer_pool \<Rightarrow> (nocopy \<times> writer_pool) go"

text \<open>The shape of every encoder: \<open>MallocWriter(cap)\<close>, the writes, and
  \<open>NewNocopyBuffer(writer, rest...)\<close>.\<close>

definition encode_with :: "nat \<Rightarrow> wop list \<Rightarrow> mountable list \<Rightarrow> encoder" where
  "encode_with cap ops rest sel wp =
     go_bind (WriterPool_Get sel cap wp) (\<lambda>(w, wp).
       case w of
         None \<Rightarrow> Panic
       | Some w \<Rightarrow> go_map (\<lambda>w. (NewNocopyBuffer (MBlock (WriterBlock w) # rest), wp)) (go_seq ops w))"

text \<open>The four writes every message starts with: size, header, route, sequence number.\<close>

definition write_head :: "uint32 \<Rightarrow> uint8 \<Rightarrow> uint64 \<Rightarrow> wop list" where
  "write_head sz rt seq =
     [WriteUint32s BigEndian [sz], WriteUint8s [proto_dataBit], WriteUint8s [rt],
      WriteUint64s BigEndian [seq]]"

text \<open>\<open>message.Len()\<close> through the interface \<open>buffer.Buffer\<close>; on a \<open>NocopyBuffer\<close> it fills the
  length cache.\<close>

definition Buffer_Len :: "mountable \<Rightarrow> int \<times> mountable" where
  "Buffer_Len m = (case m of
      MBlock k \<Rightarrow> (int (NocopyNode_Len k), MBlock k)
    | MNode k \<Rightarrow> (int (NocopyNode_Len k), MNode k)
    | MBuffer b \<Rightarrow> (let (n, b') = Nocopy_Len b in (n, MBuffer b'))
    | MOther \<Rightarrow> (0, MOther))"

text \<open>\<open>uint8(kind)\<close> and \<open>session.Kind(k)\<close>.\<close>

definition byte_of_int :: "int \<Rightarrow> uint8" where
  "byte_of_int k = word_of_int k"

definition int_of_byte :: "uint8 \<Rightarrow> int" where
  "int_of_byte b = uint b"

text \<open>\<open>utils/xnet\<close>: \<open>parseIP4 ip\<close> stands for \<open>net.ParseIP(ip).To4()\<close>, nil being the empty list.\<close>

definition IP2Long :: "(string \<Rightarrow> bytes) \<Rightarrow> string \<Rightarrow> uint32 go" where
  "IP2Long parseIP4 ip = (let v = parseIP4 ip in if v = [] then Ok 0 else Uint32 BigEndian v)"

definition dec_digit :: "nat \<Rightarrow> char" where
  "dec_digit n = char_of (48 + n)"

definition dec_byte :: "byte \<Rightarrow> string" where
  "dec_byte b = (let n = unat b
     in (if 100 \<le> n then [dec_digit (n div 100)] else []) @
        (if 10 \<le> n then [dec_digit (n div 10 mod 10)] else []) @ [dec_digit (n mod 10)])"

definition Long2IP :: "uint32 \<Rightarrow> string" where
  "Long2IP v = (case map dec_byte (PutUint32 BigEndian v) of
      [a, b, c, d] \<Rightarrow> a @ ''.'' @ b @ ''.'' @ c @ ''.'' @ d
    | _ \<Rightarrow> [])"


section \<open>bind.go\<close>


definition bindReqBytes :: nat where
  "bindReqBytes = 30"

definition bindResBytes :: nat where
  "bindResBytes = 16"

definition EncodeBindReq :: "uint64 \<Rightarrow> int64 \<Rightarrow> int64 \<Rightarrow> encoder" where
  "EncodeBindReq seq cid uid =
     encode_with bindReqBytes
       (write_head (of_nat (bindReqBytes - 4)) route_Bind seq @
        [WriteInt64s BigEndian [cid, uid]]) []"

definition DecodeBindReq :: "bytes \<Rightarrow> (uint64 \<times> int64 \<times> int64) go" where
  "DecodeBindReq data =
     (if length data \<noteq> bindReqBytes then Err ErrInvalidMessage
     else go_bind (Seek 6 0 (NewReader data)) (\<lambda>(_, r).
     go_bind (ReadUint64 BigEndian r) (\<lambda>(seq, r).
     go_bind (ReadInt64 BigEndian r) (\<lambda>(cid, r).
     go_bind (ReadInt64 BigEndian r) (\<lambda>(uid, r).
     Ok (seq, cid, uid))))))"

definition EncodeBindRes :: "uint64 \<Rightarrow> uint16 \<Rightarrow> encoder" where
  "EncodeBindRes seq code =
     encode_with bindResBytes
       (write_head (of_nat (bindResBytes - 4)) route_Bind seq @
        [WriteUint16s BigEndian [code]]) []"

definition DecodeBindRes :: "bytes \<Rightarrow> (uint16) go" where
  "DecodeBindRes data =
     (if length data \<noteq> bindResBytes then Err ErrInvalidMessage
     else go_bind (Seek (- 2) 2 (NewReader data)) (\<lambda>(_, r).
     go_bind (ReadUint16 BigEndian r) (\<lambda>(code, r).
     Ok code)))"

section \<open>unbind.go\<close>


definition unbindReqBytes :: nat where
  "unbindReqBytes = 30"

definition unbindResBytes :: nat where
  "unbindResBytes = 16"

definition EncodeUnbindReq :: "uint64 \<Rightarrow> int64 \<Rightarrow> int64 \<Rightarrow> encoder" where
  "EncodeUnbindReq seq uid cid =
     encode_with unbindReqBytes
       (write_head (of_nat (unbindReqBytes - 4)) route_Unbind seq @
        [WriteInt64s BigEndian [uid],
         WriteInt64s BigEndian [cid]]) []"

definition DecodeUnbindReq :: "bytes \<Rightarrow> (uint64 \<times> int64 \<times> int64) go" where
  "DecodeUnbindReq data =
     (if length data \<noteq> unbindReqBytes then Err ErrInvalidMessage
     else go_bind (Seek 6 0 (NewReader data)) (\<lambda>(_, r).
     go_bind (ReadUint64 BigEndian r) (\<lambda>(seq, r).
     go_bind (ReadInt64 BigEndian r) (\<lambda>(uid, r).
     go_bind (ReadInt64 BigEndian r) (\<lambda>(cid, r).
     Ok (seq, uid, cid))))))"

definition EncodeUnbindRes :: "uint64 \<Rightarrow> uint16 \<Rightarrow> encoder" where
  "EncodeUnbindRes seq code =
     encode_with unbindResBytes
       (write_head (of_nat (unbindResBytes - 4)) route_Unbind seq @
        [WriteUint16s BigEndian [code]]) []"

definition DecodeUnbindRes :: "bytes \<Rightarrow> (uint16) go" where
  "DecodeUnbindRes data =
     (if length data \<noteq> unbindResBytes then Err ErrInvalidMessage
     else go_bind (Seek (- 2) 2 (NewReader data)) (\<lambda>(_, r).
     go_bind (ReadUint16 BigEndian r) (\<lambda>(code, r).
     Ok code)))"

section \<open>handshake.go\<close>


definition handshakeReqBytes :: nat where
  "handshakeReqBytes = 15"

definition handshakeResBytes :: nat where
  "handshakeResBytes = 16"

definition EncodeHandshakeReq :: "uint64 \<Rightarrow> int \<Rightarrow> string \<Rightarrow> encoder" where
  "EncodeHandshakeReq seq insKind insID =
     (let sz = handshakeReqBytes + length insID
      in encode_with sz
           (write_head (of_nat (sz - 4)) route_Handshake seq @
            [WriteUint8s [byte_of_int insKind], WriteString insID]) [])"

definition DecodeHandshakeReq :: "bytes \<Rightarrow> (uint64 \<times> int \<times> string) go" where
  "DecodeHandshakeReq data =
     (go_bind (Seek 6 0 (NewReader data)) (\<lambda>(_, r).
     go_bind (ReadUint64 BigEndian r) (\<lambda>(seq, r).
     go_bind (ReadUint8 r) (\<lambda>(k, r).
     go_bind (ReadString (int (length data) - int handshakeReqBytes) r) (\<lambda>(insID, r).
     Ok (seq, int_of_byte k, insID))))))"

definition EncodeHandshakeRes :: "uint64 \<Rightarrow> uint16 \<Rightarrow> encoder" where
  "EncodeHandshakeRes seq code =
     encode_with handshakeResBytes
       (write_head (of_nat (handshakeResBytes - 4)) route_Handshake seq @
        [WriteUint16s BigEndian [code]]) []"

definition DecodeHandshakeRes :: "bytes \<Rightarrow> (uint16) go" where
  "DecodeHandshakeRes data =
     (if length data \<noteq> handshakeResBytes then Err ErrInvalidMessage
     else go_bind (Seek (- 2) 2 (NewReader data)) (\<lambda>(_, r).
     go_bind (ReadUint16 BigEndian r) (\<lambda>(code, r).
     Ok code)))"

definition Heartbeat :: "bytes go" where
  "Heartbeat =
     go_bind (go_seq [WriteUint32s BigEndian [1], WriteUint8s [heartbeatBit]] (NewWriterWithCapacity (Some 5)))
       Writer_Bytes"


section \<open>disconnect.go\<close>


definition disconnectReqBytes :: nat where
  "disconnectReqBytes = 31"

definition disconnectResBytes :: nat where
  "disconnectResBytes = 16"

definition EncodeDisconnectReq :: "uint64 \<Rightarrow> int64 \<Rightarrow> int64 \<Rightarrow> bool \<Rightarrow> encoder" where
  "EncodeDisconnectReq seq uid cid force =
     encode_with disconnectReqBytes
       (write_head (of_nat (disconnectReqBytes - 4)) route_Disconnect seq @
        [WriteInt64s BigEndian [uid],
         WriteInt64s BigEndian [cid],
         WriteBools [force]]) []"

definition DecodeDisconnectReq :: "bytes \<Rightarrow> (uint64 \<times> int64 \<times> int64 \<times> bool) go" where
  "DecodeDisconnectReq data =
     (if length data \<noteq> disconnectReqBytes then Err ErrInvalidMessage
     else go_bind (Seek 6 0 (NewReader data)) (\<lambda>(_, r).
     go_bind (ReadUint64 BigEndian r) (\<lambda>(seq, r).
     go_bind (ReadInt64 BigEndian r) (\<lambda>(uid, r).
     go_bind (ReadInt64 BigEndian r) (\<lambda>(cid, r).
     go_bind (ReadBool r) (\<lambda>(force, r).
     Ok (seq, uid, cid, force)))))))"

definition EncodeDisconnectRes :: "uint64 \<Rightarrow> uint16 \<Rightarrow> encoder" where
  "EncodeDisconnectRes seq code =
     encode_with disconnectResBytes
       (write_head (of_nat (disconnectResBytes - 4)) route_Disconnect seq @
        [WriteUint16s BigEndian [code]]) []"

definition DecodeDisconnectRes :: "bytes \<Rightarrow> (uint16) go" where
  "DecodeDisconnectRes data =
     (if length data \<noteq> bindResBytes then Err ErrInvalidMessage
     else go_bind (Seek (- 2) 2 (NewReader data)) (\<lambda>(_, r).
     go_bind (ReadUint16 BigEndian r) (\<lambda>(code, r).
     Ok code)))"

section \<open>getip.go\<close>


definition getIPReqBytes :: nat where
  "getIPReqBytes = 23"

definition getIPResBytes :: nat where
  "getIPResBytes = 20"

definition EncodeGetIPReq :: "uint64 \<Rightarrow> int \<Rightarrow> int64 \<Rightarrow> encoder" where
  "EncodeGetIPReq seq kind target =
     encode_with getIPReqBytes
       (write_head (of_nat (getIPReqBytes - 4)) route_GetIP seq @
        [WriteUint8s [byte_of_int kind],
         WriteInt64s BigEndian [target]]) []"

definition DecodeGetIPReq :: "bytes \<Rightarrow> (uint64 \<times> int \<times> int64) go" where
  "DecodeGetIPReq data =
     (if length data \<noteq> getIPReqBytes then Err ErrInvalidMessage
     else go_bind (Seek 6 0 (NewReader data)) (\<lambda>(_, r).
     go_bind (ReadUint64 BigEndian r) (\<lambda>(seq, r).
     go_bind (ReadUint8 r) (\<lambda>(k, r).
     go_bind (ReadInt64 BigEndian r) (\<lambda>(target, r).
     Ok (seq, int_of_byte k, target))))))"

definition EncodeGetIPRes :: "(string \<Rightarrow> bytes) \<Rightarrow> uint64 \<Rightarrow> uint16 \<Rightarrow> string list \<Rightarrow> encoder" where
  "EncodeGetIPRes parseIP4 seq code ip =
     (let present = (code = codes_OK \<and> ip \<noteq> [] \<and> hd ip \<noteq> []);
          sz = (if \<not> present then getIPResBytes - 4 - 4 else getIPResBytes - 4)
      in encode_with getIPResBytes
           (write_head (of_nat sz) route_GetIP seq @ [WriteUint16s BigEndian [code]] @
            (if present
             then [\<lambda>w. go_bind (IP2Long parseIP4 (hd ip)) (\<lambda>v. WriteUint32s BigEndian [v] w)]
             else [])) [])"

definition DecodeGetIPRes :: "bytes \<Rightarrow> (uint16 \<times> string) go" where
  "DecodeGetIPRes data =
     (if length data \<noteq> getIPResBytes \<and> length data \<noteq> getIPResBytes - 4 then Err ErrInvalidMessage
      else go_bind (Seek 14 0 (NewReader data)) (\<lambda>(_, r).
           go_bind (ReadUint16 BigEndian r) (\<lambda>(code, r).
           if code = codes_OK \<and> length data = getIPResBytes
           then go_bind (ReadUint32 BigEndian r) (\<lambda>(v, r). Ok (code, Long2IP v))
           else Ok (code, []))))"

section \<open>isonline.go\<close>


definition isOnlineReqBytes :: nat where
  "isOnlineReqBytes = 23"

definition isOnlineResBytes :: nat where
  "isOnlineResBytes = 17"

definition EncodeIsOnlineReq :: "uint64 \<Rightarrow> int \<Rightarrow> int64 \<Rightarrow> encoder" where
  "EncodeIsOnlineReq seq kind target =
     encode_with isOnlineReqBytes
       (write_head (of_nat (isOnlineReqBytes - 4)) route_IsOnline seq @
        [WriteUint8s [byte_of_int kind],
         WriteInt64s BigEndian [target]]) []"

definition DecodeIsOnlineReq :: "bytes \<Rightarrow> (uint64 \<times> int \<times> int64) go" where
  "DecodeIsOnlineReq data =
     (if length data \<noteq> isOnlineReqBytes then Err ErrInvalidMessage
     else go_bind (Seek 6 0 (NewReader data)) (\<lambda>(_, r).
     go_bind (ReadUint64 BigEndian r) (\<lambda>(seq, r).
     go_bind (ReadUint8 r) (\<lambda>(k, r).
     go_bind (ReadInt64 BigEndian r) (\<lambda>(target, r).
     Ok (seq, int_of_byte k, target))))))"

definition EncodeIsOnlineRes :: "uint64 \<Rightarrow> uint16 \<Rightarrow> bool \<Rightarrow> encoder" where
  "EncodeIsOnlineRes seq code isOnline =
     encode_with isOnlineResBytes
       (write_head (of_nat (isOnlineResBytes - 4)) route_IsOnline seq @
        [WriteUint16s BigEndian [code],
         WriteBools [isOnline]]) []"

definition DecodeIsOnlineRes :: "bytes \<Rightarrow> (uint16 \<times> bool) go" where
  "DecodeIsOnlineRes data =
     (if length data \<noteq> isOnlineResBytes then Err ErrInvalidMessage
     else go_bind (Seek 14 0 (NewReader data)) (\<lambda>(_, r).
     go_bind (ReadUint16 BigEndian r) (\<lambda>(code, r).
     go_bind (ReadBool r) (\<lambda>(isOnline, r).
     Ok (code, isOnline)))))"

section \<open>stat.go\<close>


definition statReqBytes :: nat where
  "statReqBytes = 15"

definition statResBytes :: nat where
  "statResBytes = 24"

definition EncodeStatReq :: "uint64 \<Rightarrow> int \<Rightarrow> encoder" where
  "EncodeStatReq seq kind =
     encode_with statReqBytes
       (write_head (of_nat (statReqBytes - 4)) route_Stat seq @
        [WriteUint8s [byte_of_int kind]]) []"

definition DecodeStatReq :: "bytes \<Rightarrow> (uint64 \<times> int) go" where
  "DecodeStatReq data =
     (if length data \<noteq> statReqBytes then Err ErrInvalidMessage
     else go_bind (Seek 6 0 (NewReader data)) (\<lambda>(_, r).
     go_bind (ReadUint64 BigEndian r) (\<lambda>(seq, r).
     go_bind (ReadUint8 r) (\<lambda>(k, r).
     Ok (seq, int_of_byte k)))))"

definition EncodeStatRes :: "uint64 \<Rightarrow> uint16 \<Rightarrow> uint64 list \<Rightarrow> encoder" where
  "EncodeStatRes seq code tot =
     (let sz = (if code \<noteq> codes_OK \<or> tot = [] \<or> hd tot = 0 then statResBytes - 4 - 8 else statResBytes - 4)
      in encode_with statResBytes
           (write_head (of_nat sz) route_Stat seq @ [WriteUint16s BigEndian [code]] @
            (if code = codes_OK \<and> tot \<noteq> [] \<and> hd tot \<noteq> 0 then [WriteUint64s BigEndian [hd tot]] else [])) [])"

text \<open>The named result \<open>code\<close> is never assigned.\<close>


definition DecodeStatRes :: "bytes \<Rightarrow> (uint16 \<times> uint64) go" where
  "DecodeStatRes data =
     (if length data \<noteq> statResBytes \<and> length data \<noteq> statResBytes - 8 then Err ErrInvalidMessage
      else go_bind (Seek 14 0 (NewReader data)) (\<lambda>(_, r).
           if length data = statResBytes
           then go_bind (ReadUint64 BigEndian r) (\<lambda>(total, r). Ok (0, total))
           else Ok (0, 0)))"

section \<open>push.go\<close>


definition pushReqBytes :: nat where
  "pushReqBytes = 23"

definition pushResBytes :: nat where
  "pushResBytes = 16"

definition EncodePushReq :: "uint64 \<Rightarrow> int \<Rightarrow> int64 \<Rightarrow> mountable \<Rightarrow> encoder" where
  "EncodePushReq seq kind target message =
     (let (len, message) = Buffer_Len message
      in encode_with pushReqBytes
           (write_head (word_of_int (int (pushReqBytes - 4) + len)) route_Push seq @
            [WriteUint8s [byte_of_int kind],
             WriteInt64s BigEndian [target]]) [message])"

definition DecodePushReq :: "bytes \<Rightarrow> (uint64 \<times> int \<times> int64 \<times> bytes) go" where
  "DecodePushReq data =
     (go_bind (Seek 6 0 (NewReader data)) (\<lambda>(_, r).
     go_bind (ReadUint64 BigEndian r) (\<lambda>(seq, r).
     go_bind (ReadUint8 r) (\<lambda>(k, r).
     go_bind (ReadInt64 BigEndian r) (\<lambda>(target, r).
     go_bind (slice_from pushReqBytes data) (\<lambda>message. Ok (seq, int_of_byte k, target, message)))))))"

definition EncodePushRes :: "uint64 \<Rightarrow> uint16 \<Rightarrow> encoder" where
  "EncodePushRes seq code =
     encode_with pushResBytes
       (write_head (of_nat (pushResBytes - 4)) route_Push seq @
        [WriteUint16s BigEndian [code]]) []"

definition DecodePushRes :: "bytes \<Rightarrow> (uint16) go" where
  "DecodePushRes data =
     (if length data \<noteq> pushResBytes then Err ErrInvalidMessage
     else go_bind (Seek (- 2) 2 (NewReader data)) (\<lambda>(_, r).
     go_bind (ReadUint16 BigEndian r) (\<lambda>(code, r).
     Ok code)))"

section \<open>broadcast.go\<close>


definition broadcastReqBytes :: nat where
  "broadcastReqBytes = 15"

definition broadcastResBytes :: nat where
  "broadcastResBytes = 24"

definition EncodeBroadcastReq :: "uint64 \<Rightarrow> int \<Rightarrow> mountable \<Rightarrow> encoder" where
  "EncodeBroadcastReq seq kind message =
     (let (len, message) = Buffer_Len message
      in encode_with broadcastReqBytes
           (write_head (word_of_int (int (broadcastReqBytes - 4) + len)) route_Broadcast seq @
            [WriteUint8s [byte_of_int kind]]) [message])"

definition DecodeBroadcastReq :: "bytes \<Rightarrow> (uint64 \<times> int \<times> bytes) go" where
  "DecodeBroadcastReq data =
     (go_bind (Seek 6 0 (NewReader data)) (\<lambda>(_, r).
     go_bind (ReadUint64 BigEndian r) (\<lambda>(seq, r).
     go_bind (ReadUint8 r) (\<lambda>(k, r).
     go_bind (slice_from broadcastReqBytes data) (\<lambda>message. Ok (seq, int_of_byte k, message))))))"

definition EncodeBroadcastRes :: "uint64 \<Rightarrow> uint16 \<Rightarrow> uint64 list \<Rightarrow> encoder" where
  "EncodeBroadcastRes seq code tot =
     (let sz = (if code \<noteq> codes_OK \<or> tot = [] \<or> hd tot = 0 then broadcastResBytes - 4 - 8 else broadcastResBytes - 4)
      in encode_with broadcastResBytes
           (write_head (of_nat sz) route_Broadcast seq @ [WriteUint16s BigEndian [code]] @
            (if code = codes_OK \<and> tot \<noteq> [] \<and> hd tot \<noteq> 0 then [WriteUint64s BigEndian [hd tot]] else [])) [])"

definition DecodeBroadcastRes :: "bytes \<Rightarrow> (uint16 \<times> uint64) go" where
  "DecodeBroadcastRes data =
     (if length data \<noteq> broadcastResBytes \<and> length data \<noteq> broadcastResBytes - 8 then Err ErrInvalidMessage
      else go_bind (Seek 14 0 (NewReader data)) (\<lambda>(_, r).
           go_bind (ReadUint16 BigEndian r) (\<lambda>(code, r).
           if code = codes_OK \<and> length data = broadcastResBytes
           then go_bind (ReadUint64 BigEndian r) (\<lambda>(total, r). Ok (code, total))
           else Ok (code, 0))))"

section \<open>multicast.go\<close>


definition multicastReqBytes :: nat where
  "multicastReqBytes = 17"

definition multicastResBytes :: nat where
  "multicastResBytes = 24"

definition EncodeMulticastReq :: "uint64 \<Rightarrow> int \<Rightarrow> int64 list \<Rightarrow> mountable \<Rightarrow> encoder" where
  "EncodeMulticastReq seq kind targets message =
     (let (len, message) = Buffer_Len message;
          sz = multicastReqBytes + length targets * 8
      in encode_with sz
           (write_head (word_of_int (int sz - 4 + len)) route_Multicast seq @
            [WriteUint8s [byte_of_int kind],
             WriteUint16s BigEndian [of_nat (length targets)],
             WriteInt64s BigEndian targets]) [message])"

text \<open>In \<open>data[multicastReqBytes+8*count:]\<close> the sum is a \<open>uint16\<close>.\<close>


definition DecodeMulticastReq :: "bytes \<Rightarrow> (uint64 \<times> int \<times> int64 list \<times> bytes) go" where
  "DecodeMulticastReq data =
     (go_bind (Seek 6 0 (NewReader data)) (\<lambda>(_, r).
     go_bind (ReadUint64 BigEndian r) (\<lambda>(seq, r).
     go_bind (ReadUint8 r) (\<lambda>(k, r).
     go_bind (ReadUint16 BigEndian r) (\<lambda>(count, r).
     go_bind (ReadInt64s BigEndian (int (unat count)) r) (\<lambda>(targets, r).
     go_bind (slice_from (unat (of_nat multicastReqBytes + 8 * count)) data)
       (\<lambda>message. Ok (seq, int_of_byte k, targets, message))))))))"

definition EncodeMulticastRes :: "uint64 \<Rightarrow> uint16 \<Rightarrow> uint64 list \<Rightarrow> encoder" where
  "EncodeMulticastRes seq code tot =
     (let sz = (if code \<noteq> codes_OK \<or> tot = [] \<or> hd tot = 0 then multicastResBytes - 4 - 8 else multicastResBytes - 4)
      in encode_with multicastResBytes
           (write_head (of_nat sz) route_Multicast seq @ [WriteUint16s BigEndian [code]] @
            (if code = codes_OK \<and> tot \<noteq> [] \<and> hd tot \<noteq> 0 then [WriteUint64s BigEndian [hd tot]] else [])) [])"

definition DecodeMulticastRes :: "bytes \<Rightarrow> (uint16 \<times> uint64) go" where
  "DecodeMulticastRes data =
     (if length data \<noteq> multicastResBytes \<and> length data \<noteq> multicastResBytes - 8 then Err ErrInvalidMessage
      else go_bind (Seek 14 0 (NewReader data)) (\<lambda>(_, r).
           go_bind (ReadUint16 BigEndian r) (\<lambda>(code, r).
           if code = codes_OK \<and> length data = multicastResBytes
           then go_bind (ReadUint64 BigEndian r) (\<lambda>(total, r). Ok (code, total))
           else Ok (code, 0))))"

section \<open>publish.go\<close>


definition publishReqBytes :: nat where
  "publishReqBytes = 15"

definition publishResBytes :: nat where
  "publishResBytes = 22"

definition EncodePublishReq :: "uint64 \<Rightarrow> string \<Rightarrow> mountable \<Rightarrow> encoder" where
  "EncodePublishReq seq channel message =
     (let (len, message) = Buffer_Len message;
          channelBytes = length channel; sz = publishReqBytes + channelBytes
      in encode_with sz
           (write_head (word_of_int (int sz - 4 + len)) route_Publish seq @
            [WriteUint8s [of_nat channelBytes],
             WriteString channel]) [message])"

text \<open>In \<open>data[publishReqBytes+channelBytes:]\<close> the sum is a \<open>uint8\<close>.\<close>


definition DecodePublishReq :: "bytes \<Rightarrow> (uint64 \<times> string \<times> bytes) go" where
  "DecodePublishReq data =
     (go_bind (Seek 6 0 (NewReader data)) (\<lambda>(_, r).
     go_bind (ReadUint64 BigEndian r) (\<lambda>(seq, r).
     go_bind (ReadUint8 r) (\<lambda>(channelBytes, r).
     go_bind (ReadString (int (unat channelBytes)) r) (\<lambda>(channel, r).
     go_bind (slice_from (unat (of_nat publishReqBytes + channelBytes)) data)
       (\<lambda>message. Ok (seq, channel, message)))))))"

definition EncodePublishRes :: "uint64 \<Rightarrow> uint64 \<Rightarrow> encoder" where
  "EncodePublishRes seq tot =
     encode_with publishResBytes
       (write_head (of_nat (publishResBytes - 4)) route_Publish seq @
        [WriteUint64s BigEndian [tot]]) []"

definition DecodePublishRes :: "bytes \<Rightarrow> (uint64) go" where
  "DecodePublishRes data =
     (go_bind (Seek 14 0 (NewReader data)) (\<lambda>(_, r).
     go_bind (ReadUint64 BigEndian r) (\<lambda>(total, r).
     Ok total)))"

section \<open>subscribe.go\<close>


definition subscribeReqBytes :: nat where
  "subscribeReqBytes = 17"

definition subscribeResBytes :: nat where
  "subscribeResBytes = 16"

definition EncodeSubscribeReq :: "uint64 \<Rightarrow> int \<Rightarrow> int64 list \<Rightarrow> string \<Rightarrow> encoder" where
  "EncodeSubscribeReq seq kind targets channel =
     (let sz = subscribeReqBytes + length targets * 8 + length channel
      in encode_with sz
           (write_head (of_nat (sz - 4)) route_Subscribe seq @
            [WriteUint8s [byte_of_int kind], WriteUint16s BigEndian [of_nat (length targets)],
             WriteInt64s BigEndian targets, WriteString channel]) [])"

definition DecodeSubscribeReq :: "bytes \<Rightarrow> (uint64 \<times> int \<times> int64 list \<times> string) go" where
  "DecodeSubscribeReq data =
     (go_bind (Seek 6 0 (NewReader data)) (\<lambda>(_, r).
     go_bind (ReadUint64 BigEndian r) (\<lambda>(seq, r).
     go_bind (ReadUint8 r) (\<lambda>(k, r).
     go_bind (ReadUint16 BigEndian r) (\<lambda>(count, r).
     go_bind (ReadInt64s BigEndian (int (unat count)) r) (\<lambda>(targets, r).
     go_bind (slice_from (unat (of_nat subscribeReqBytes + 8 * count)) data)
       (\<lambda>channel. Ok (seq, int_of_byte k, targets, bytes_string channel))))))))"

definition EncodeSubscribeRes :: "uint64 \<Rightarrow> uint16 \<Rightarrow> encoder" where
  "EncodeSubscribeRes seq code =
     encode_with subscribeResBytes
       (write_head (of_nat (subscribeResBytes - 4)) route_Subscribe seq @
        [WriteUint16s BigEndian [code]]) []"

definition DecodeSubscribeRes :: "bytes \<Rightarrow> (uint16) go" where
  "DecodeSubscribeRes data =
     (if length data \<noteq> subscribeResBytes then Err ErrInvalidMessage
     else go_bind (Seek (- 2) 2 (NewReader data)) (\<lambda>(_, r).
     go_bind (ReadUint16 BigEndian r) (\<lambda>(code, r).
     Ok code)))"

section \<open>unsubscribe.go\<close>


definition unsubscribeReqBytes :: nat where
  "unsubscribeReqBytes = 17"

definition unsubscribeResBytes :: nat where
  "unsubscribeResBytes = 16"

definition EncodeUnsubscribeReq :: "uint64 \<Rightarrow> int \<Rightarrow> int64 list \<Rightarrow> string \<Rightarrow> encoder" where
  "EncodeUnsubscribeReq seq kind targets channel =
     (let sz = unsubscribeReqBytes + length targets * 8 + length channel
      in encode_with sz
           (write_head (of_nat (sz - 4)) route_Unsubscribe seq @
            [WriteUint8s [byte_of_int kind], WriteUint16s BigEndian [of_nat (length targets)],
             WriteInt64s BigEndian targets, WriteString channel]) [])"

definition DecodeUnsubscribeReq :: "bytes \<Rightarrow> (uint64 \<times> int \<times> int64 list \<times> string) go" where
  "DecodeUnsubscribeReq data =
     (go_bind (Seek 6 0 (NewReader data)) (\<lambda>(_, r).
     go_bind (ReadUint64 BigEndian r) (\<lambda>(seq, r).
     go_bind (ReadUint8 r) (\<lambda>(k, r).
     go_bind (ReadUint16 BigEndian r) (\<lambda>(count, r).
     go_bind (ReadInt64s BigEndian (int (unat count)) r) (\<lambda>(targets, r).
     go_bind (slice_from (unat (of_nat unsubscribeReqBytes + 8 * count)) data)
       (\<lambda>channel. Ok (seq, int_of_byte k, targets, bytes_string channel))))))))"

definition EncodeUnsubscribeRes :: "uint64 \<Rightarrow> uint16 \<Rightarrow> encoder" where
  "EncodeUnsubscribeRes seq code =
     encode_with unsubscribeResBytes
       (write_head (of_nat (unsubscribeResBytes - 4)) route_Unsubscribe seq @
        [WriteUint16s BigEndian [code]]) []"

definition DecodeUnsubscribeRes :: "bytes \<Rightarrow> (uint16) go" where
  "DecodeUnsubscribeRes data =
     (if length data \<noteq> unsubscribeResBytes then Err ErrInvalidMessage
     else go_bind (Seek (- 2) 2 (NewReader data)) (\<lambda>(_, r).
     go_bind (ReadUint16 BigEndian r) (\<lambda>(code, r).
     Ok code)))"

section \<open>trigger.go\<close>


definition triggerReqBytes :: nat where
  "triggerReqBytes = 31"

definition triggerResBytes :: nat where
  "triggerResBytes = 16"

definition EncodeTriggerReq :: "uint64 \<Rightarrow> int \<Rightarrow> int64 \<Rightarrow> int64 list \<Rightarrow> encoder" where
  "EncodeTriggerReq seq event cid uid =
     (let sz = (if uid = [] \<or> hd uid = 0 then triggerReqBytes - 4 - 8 else triggerReqBytes - 4)
      in encode_with triggerReqBytes
           (write_head (of_nat sz) route_Trigger seq @
            [WriteUint8s [byte_of_int event], WriteInt64s BigEndian [cid]] @
            (if uid \<noteq> [] \<and> hd uid \<noteq> 0 then [WriteInt64s BigEndian [hd uid]] else [])) [])"

definition DecodeTriggerReq :: "bytes \<Rightarrow> (uint64 \<times> int \<times> int64 \<times> int64) go" where
  "DecodeTriggerReq data =
     (if length data \<noteq> triggerReqBytes \<and> length data \<noteq> triggerReqBytes - 8 then Err ErrInvalidMessage
      else go_bind (Seek 6 0 (NewReader data)) (\<lambda>(_, r).
           go_bind (ReadUint64 BigEndian r) (\<lambda>(seq, r).
           go_bind (ReadUint8 r) (\<lambda>(evt, r).
           go_bind (ReadInt64 BigEndian r) (\<lambda>(cid, r).
           if length data = triggerReqBytes
           then go_bind (ReadInt64 BigEndian r) (\<lambda>(uid, r). Ok (seq, int_of_byte evt, cid, uid))
           else Ok (seq, int_of_byte evt, cid, 0))))))"

definition EncodeTriggerRes :: "uint64 \<Rightarrow> uint16 \<Rightarrow> encoder" where
  "EncodeTriggerRes seq code =
     encode_with triggerResBytes
       (write_head (of_nat (triggerResBytes - 4)) route_Trigger seq @
        [WriteUint16s BigEndian [code]]) []"

definition DecodeTriggerRes :: "bytes \<Rightarrow> (uint16) go" where
  "DecodeTriggerRes data =
     (if length data \<noteq> triggerResBytes then Err ErrInvalidMessage
     else go_bind (Seek (- 2) 2 (NewReader data)) (\<lambda>(_, r).
     go_bind (ReadUint16 BigEndian r) (\<lambda>(code, r).
     Ok code)))"

section \<open>deliver.go\<close>


definition deliverReqBytes :: nat where
  "deliverReqBytes = 34"

definition deliverResBytes :: nat where
  "deliverResBytes = 16"

text \<open>\<open>marshal\<close> and \<open>unmarshal\<close> are \<open>json.Marshal\<close> and \<open>json.Unmarshal\<close> on the metadata, an
  association list; the marshalling error is ignored by the code, so \<open>marshal\<close> is total.\<close>

type_synonym metadata = "(string \<times> string) list"


definition EncodeDeliverReq :: "(metadata \<Rightarrow> bytes) \<Rightarrow> uint64 \<Rightarrow> int64 \<Rightarrow> int64 \<Rightarrow> metadata \<Rightarrow> mountable \<Rightarrow> encoder" where
  "EncodeDeliverReq marshal seq cid uid metadata buf =
     (let metadataData = (if metadata \<noteq> [] then marshal metadata else []);
          (len, buf) = Buffer_Len buf
      in encode_with deliverReqBytes
           (write_head (word_of_int (int (deliverReqBytes - 4) + int (length metadataData) + len))
              route_Deliver seq @
            [WriteInt64s BigEndian [cid, uid],
             WriteUint32s BigEndian [of_nat (length metadataData)]])
           [MBlock (RawBlock metadataData), buf])"

definition DecodeDeliverReq :: "(bytes \<Rightarrow> metadata go) \<Rightarrow> bytes \<Rightarrow> (uint64 \<times> int64 \<times> int64 \<times> metadata \<times> bytes) go" where
  "DecodeDeliverReq unmarshal data =
     (go_bind (Seek 6 0 (NewReader data)) (\<lambda>(_, r).
      go_bind (ReadUint64 BigEndian r) (\<lambda>(seq, r).
      go_bind (ReadInt64 BigEndian r) (\<lambda>(cid, r).
      go_bind (ReadInt64 BigEndian r) (\<lambda>(uid, r).
      go_bind (ReadUint32 BigEndian r) (\<lambda>(metadataSize, r).
      let messageOffset = deliverReqBytes + unat metadataSize
      in if messageOffset < deliverReqBytes \<or> messageOffset > length data then Err ErrInvalidMessage
         else
           go_bind (if metadataSize > 0
                    then go_bind (slice_range deliverReqBytes messageOffset data) unmarshal
                    else Ok []) (\<lambda>metadata.
           go_bind (slice_from messageOffset data) (\<lambda>message.
             Ok (seq, cid, uid, metadata, message)))))))))"

definition EncodeDeliverRes :: "uint64 \<Rightarrow> uint16 \<Rightarrow> encoder" where
  "EncodeDeliverRes seq code =
     encode_with deliverResBytes
       (write_head (of_nat (deliverResBytes - 4)) route_Deliver seq @
        [WriteUint16s BigEndian [code]]) []"

definition DecodeDeliverRes :: "bytes \<Rightarrow> (uint16) go" where
  "DecodeDeliverRes data =
     (if length data \<noteq> deliverResBytes then Err ErrInvalidMessage
     else go_bind (Seek (- 2) 2 (NewReader data)) (\<lambda>(_, r).
     go_bind (ReadUint16 BigEndian r) (\<lambda>(code, r).
     Ok code)))"

section \<open>state.go\<close>


definition getStateReqBytes :: nat where
  "getStateReqBytes = 14"

definition getStateResBytes :: nat where
  "getStateResBytes = 17"

definition setStateReqBytes :: nat where
  "setStateReqBytes = 15"

definition setStateResBytes :: nat where
  "setStateResBytes = 16"

definition EncodeGetStateReq :: "uint64 \<Rightarrow> encoder" where
  "EncodeGetStateReq seq =
     encode_with getStateReqBytes
       (write_head (of_nat (getStateReqBytes - 4)) route_GetState seq) []"

definition DecodeGetStateReq :: "bytes \<Rightarrow> (uint64) go" where
  "DecodeGetStateReq data =
     (if length data \<noteq> getStateReqBytes then Err ErrInvalidMessage
     else go_bind (Seek 6 0 (NewReader data)) (\<lambda>(_, r).
     go_bind (ReadUint64 BigEndian r) (\<lambda>(seq, r).
     Ok seq)))"

definition EncodeGetStateRes :: "uint64 \<Rightarrow> uint16 \<Rightarrow> int \<Rightarrow> encoder" where
  "EncodeGetStateRes seq code state =
     encode_with getStateResBytes
       (write_head (of_nat (getStateResBytes - 4)) route_GetState seq @
        [WriteUint16s BigEndian [code],
         WriteUint8s [byte_of_int state]]) []"

definition DecodeGetStateRes :: "bytes \<Rightarrow> (uint16 \<times> int) go" where
  "DecodeGetStateRes data =
     (if length data \<noteq> getStateResBytes then Err ErrInvalidMessage
     else go_bind (Seek 14 0 (NewReader data)) (\<lambda>(_, r).
     go_bind (ReadUint16 BigEndian r) (\<lambda>(code, r).
     go_bind (ReadUint8 r) (\<lambda>(status, r).
     Ok (code, int_of_byte status)))))"

definition EncodeSetStateReq :: "uint64 \<Rightarrow> int \<Rightarrow> encoder" where
  "EncodeSetStateReq seq state =
     encode_with setStateReqBytes
       (write_head (of_nat (setStateReqBytes - 4)) route_SetState seq @
        [WriteUint8s [byte_of_int state]]) []"

definition DecodeSetStateReq :: "bytes \<Rightarrow> (uint64 \<times> int) go" where
  "DecodeSetStateReq data =
     (if length data \<noteq> setStateReqBytes then Err ErrInvalidMessage
     else go_bind (Seek 6 0 (NewReader data)) (\<lambda>(_, r).
     go_bind (ReadUint64 BigEndian r) (\<lambda>(seq, r).
     go_bind (ReadUint8 r) (\<lambda>(status, r).
     Ok (seq, int_of_byte status)))))"

definition EncodeSetStateRes :: "uint64 \<Rightarrow> uint16 \<Rightarrow> encoder" where
  "EncodeSetStateRes seq code =
     encode_with setStateResBytes
       (write_head (of_nat (setStateResBytes - 4)) route_SetState seq @
        [WriteUint16s BigEndian [code]]) []"

definition DecodeSetStateRes :: "bytes \<Rightarrow> (uint16) go" where
  "DecodeSetStateRes data =
     (if length data \<noteq> setStateResBytes then Err ErrInvalidMessage
     else go_bind (Seek (- 2) 2 (NewReader data)) (\<lambda>(_, r).
     go_bind (ReadUint16 BigEndian r) (\<lambda>(code, r).
     Ok code)))"

section \<open>reader.go\<close>


definition ParseBuffer :: "bytes \<Rightarrow> (bool \<times> uint8 \<times> uint64) go" where
  "ParseBuffer data =
     go_bind (slice_range 4 5 data) (\<lambda>h.
     go_bind (first_byte h) (\<lambda>header.
     if header AND heartbeatBit = heartbeatBit then Ok (True, 0, 0)
     else
       go_bind (slice_range 5 6 data) (\<lambda>rb.
       go_bind (first_byte rb) (\<lambda>route.
       go_bind (slice_range 6 14 data) (\<lambda>sb.
       go_bind (Uint64 BigEndian sb) (\<lambda>seq.
         Ok (False, route, seq)))))))"

text \<open>The pooled scratch block for the length, released before the function returns, is left out.\<close>


definition proto_ReadMessage :: "bytes \<Rightarrow> ((bool \<times> uint8 \<times> uint64 \<times> bytes) \<times> bytes) go" where
  "proto_ReadMessage s =
     go_bind (ReadFull 4 s) (\<lambda>(buf, s).
     go_bind (Uint32 BigEndian buf) (\<lambda>sz.
     if sz = 0 then Err ErrInvalidMessage
     else if frame_bytes sz < 4 then Panic
     else
       go_bind (ReadFull (frame_bytes sz - 4) s) (\<lambda>(body, s).
       go_bind (ParseBuffer (buf @ body)) (\<lambda>(isHeartbeat, route, seq).
         Ok ((isHeartbeat, route, seq, buf @ body), s)))))"

definition ReaderBuffer :: "(gbytes list \<Rightarrow> nat option) \<Rightarrow> bytes \<Rightarrow> bytes_pool \<Rightarrow> (gbytes option \<times> bytes) go \<times> bytes_pool" where
  "ReaderBuffer sel s bp = read_frame_pooled BigEndian (Err ErrInvalidMessage) sel s bp"
end
