(* ===== verification/ProtocolFacts.thy ===== *)
theory ProtocolFacts
  imports Protocol
begin

text \<open>
  Correctness of the cluster protocol: what each encoder of \<open>Protocol\<close> puts on the wire, that
  the decoder reads it back, and what the frame reader makes of it.  The contract is the locale
  \<open>message_codec\<close>, interpreted for every message whose values are not restricted; the others
  have their lemmas with the restriction.
\<close>

section \<open>Frames\<close>

definition frame :: "uint8 \<Rightarrow> uint64 \<Rightarrow> bytes \<Rightarrow> bytes" where
  "frame rt seq body =
     PutUint32 BigEndian (of_nat (10 + length body)) @ [proto_dataBit, rt] @ PutUint64 BigEndian seq @ body"

lemma length_frame [simp]: "length (frame rt seq body) = 14 + length body"
  by (simp add: frame_def)

text \<open>Reading a frame off a stream.\<close>

lemma ParseBuffer_frame: "ParseBuffer (frame rt seq body) = Ok (False, rt, seq)"
  by (simp add: ParseBuffer_def frame_def slice_range_def proto_dataBit_def heartbeatBit_def)

lemma proto_ReadMessage_frame:
  assumes "length body < 2 ^ 32 - 14"
  shows "proto_ReadMessage (frame rt seq body @ rest) = Ok ((False, rt, seq, frame rt seq body), rest)"
proof -
  define sz where "sz = (of_nat (10 + length body) :: uint32)"
  define b where "b = [proto_dataBit, rt] @ PutUint64 BigEndian seq @ body"
  have u: "unat sz = 10 + length body"
    unfolding sz_def using assms by (simp only: unsigned_of_nat) (simp add: take_bit_nat_eq_self_iff)
  then have "frame_bytes sz = 4 + length b" using assms by (simp add: frame_bytes_no_wrap b_def)
  moreover have "sz \<noteq> 0" using u by (metis add_is_0 unsigned_0 zero_neq_numeral)
  moreover have "frame rt seq body = PutUint32 BigEndian sz @ b" by (simp add: frame_def sz_def b_def)
  ultimately show ?thesis
    using ParseBuffer_frame [of rt seq body] by (simp add: proto_ReadMessage_def)
qed

definition mount_data :: "mountable \<Rightarrow> bytes" where
  "mount_data v = concat (map block_data (mount_leaves v))"

definition encodes :: "encoder \<Rightarrow> bytes \<Rightarrow> bool" where
  "encodes e bs \<longleftrightarrow> (\<forall>sel wp. writer_pool_ok wp \<longrightarrow>
     (\<exists>b wp'. e sel wp = Ok (b, wp') \<and> nocopy_ok b \<and> contents b = bs \<and> writer_pool_ok wp'))"

lemma concat_map_concat: "concat (map f (concat (map g vs))) = concat (map (\<lambda>v. concat (map f (g v))) vs)"
  by (induction vs) auto

lemma encode_with_encodes:
  assumes "0 < cap" "list_all2 appends ops bss" "list_all mountable_ok rest"
  shows "encodes (encode_with cap ops rest) (concat bss @ concat (map mount_data rest))"
  unfolding encodes_def
proof (intro allI impI)
  fix sel wp assume "writer_pool_ok wp"
  then obtain w wp1 i where w: "WriterPool_Get sel cap wp = Ok (Some w, wp1)" "writer_idle i w" "writer_pool_ok wp1"
    using WriterPool_Get_idle [of wp cap sel] assms(1) by auto
  from appends_go_seq [OF assms(2)] w(2)
  obtain w' where w': "go_seq ops w = Ok w'" "writer_ok w'" "wbytes w' = concat bss"
    by (auto simp: writer_idle_def wbytes_def elim!: appendsE)
  let ?ms = "MBlock (WriterBlock w') # rest"
  have ok: "list_all mountable_ok ?ms" using assms(3) w'(2) by (simp add: block_ok_def)
  have "contents (NewNocopyBuffer ?ms) = concat bss @ concat (map mount_data rest)"
    using NewNocopyBuffer_ok(2) [OF ok] w'(3)
    by (simp add: contents_def block_data_def mount_data_def [abs_def] concat_map_concat)
  then show "\<exists>b wp'. encode_with cap ops rest sel wp = Ok (b, wp') \<and> nocopy_ok b \<and>
      contents b = concat bss @ concat (map mount_data rest) \<and> writer_pool_ok wp'"
    using w w' NewNocopyBuffer_ok(1) [OF ok] by (simp add: encode_with_def)
qed

lemma encode_frame:
  assumes "0 < cap" "list_all2 appends ops bss" "list_all mountable_ok rest"
    and "body = concat bss @ concat (map mount_data rest)" "sz = of_nat (10 + length body)"
  shows "encodes (encode_with cap (write_head sz rt seq @ ops) rest) (frame rt seq body)"
proof -
  let ?hs = "[PutUint32 BigEndian sz, [proto_dataBit], [rt], PutUint64 BigEndian seq]"
  have "list_all2 appends (write_head sz rt seq) ?hs" by (simp add: write_head_def)
  then have "list_all2 appends (write_head sz rt seq @ ops) (?hs @ bss)"
    using assms(2) by (rule list_all2_appendI)
  from encode_with_encodes [OF assms(1) this assms(3)] assms(4,5) show ?thesis
    by (simp add: frame_def)
qed

lemma encode_frame_bare:
  assumes "0 < cap" shows "encodes (encode_with cap (write_head 10 rt seq) []) (frame rt seq [])"
  using encode_frame [OF assms, of "[]" "[]" "[]" "[]" 10 rt seq] by simp

text \<open>The length a message reports is the length of what it adds to the chain.\<close>

lemma Buffer_Len_ok:
  assumes "mountable_ok m" "Buffer_Len m = (len, m')"
  shows "len = int (length (mount_data m))" "mountable_ok m'" "mount_data m' = mount_data m"
  using assms Len_correct(1)
  by (cases m; fastforce simp: Buffer_Len_def mount_data_def NocopyNode_Len_ok contents_def split: prod.splits)+

lemma int_of_byte_of_int [simp]: "0 \<le> k \<Longrightarrow> k < 256 \<Longrightarrow> int_of_byte (byte_of_int k) = k"
  by (simp add: int_of_byte_def byte_of_int_def unsigned_of_int take_bit_int_eq_self_iff)

lemmas decode_simps = Seek_def NewReader_def slice_def slices_def Let_def read_defs frame_def

text \<open>The contract of a message: what its encoder puts on the wire, for the values it accepts, and
  what its decoder reads back.\<close>

locale message_codec =
  fixes good :: "'m \<Rightarrow> bool" and rt :: uint8 and seqof :: "'m \<Rightarrow> uint64" and body :: "'m \<Rightarrow> bytes"
    and enc :: "'m \<Rightarrow> encoder" and dec :: "bytes \<Rightarrow> 'r go" and res :: "'m \<Rightarrow> 'r"
  assumes enc_frame: "good m \<Longrightarrow> encodes (enc m) (frame rt (seqof m) (body m))"
    and dec_frame: "good m \<Longrightarrow> dec (frame rt (seqof m) (body m)) = Ok (res m)"
begin

lemma round_trip:
  assumes "good m" "writer_pool_ok wp"
  shows "\<exists>b wp'. enc m sel wp = Ok (b, wp') \<and> nocopy_ok b \<and> dec (contents b) = Ok (res m) \<and> writer_pool_ok wp'"
  using enc_frame [OF assms(1)] dec_frame [OF assms(1)] assms(2) by (fastforce simp: encodes_def)

text \<open>What the reading side of a connection makes of the encoded message.\<close>

lemma on_the_wire:
  assumes "good m" "writer_pool_ok wp" "length (body m) < 2 ^ 32 - 14"
  shows "\<exists>b wp'. enc m sel wp = Ok (b, wp') \<and> writer_pool_ok wp' \<and>
    proto_ReadMessage (contents b @ rest) = Ok ((False, rt, seqof m, contents b), rest) \<and>
    dec (contents b) = Ok (res m)"
proof -
  obtain b wp' where "enc m sel wp = Ok (b, wp')" "contents b = frame rt (seqof m) (body m)" "writer_pool_ok wp'"
    using enc_frame [OF assms(1)] assms(2) unfolding encodes_def by blast
  then show ?thesis using dec_frame [OF assms(1)] assms(3) by (simp add: proto_ReadMessage_frame)
qed

end


lemma EncodeBindReq_encodes:
  "encodes (EncodeBindReq seq cid uid) (frame route_Bind seq (PutUint64 BigEndian cid @ PutUint64 BigEndian uid))"
  unfolding EncodeBindReq_def
  by (rule encode_frame [where bss = "[(PutUint64 BigEndian cid @ PutUint64 BigEndian uid)]"])
     (simp_all add: bindReqBytes_def)

lemma DecodeBindReq_frame:
  "DecodeBindReq (frame route_Bind seq (PutUint64 BigEndian cid @ PutUint64 BigEndian uid)) = Ok (seq, cid, uid)"
  by (simp add: DecodeBindReq_def bindReqBytes_def decode_simps)

interpretation bind_req: message_codec "\<lambda>_. True" route_Bind "\<lambda>(seq, cid, uid).  seq" "\<lambda>(seq, cid, uid).  PutUint64 BigEndian cid @ PutUint64 BigEndian uid"
    "\<lambda>(seq, cid, uid).  EncodeBindReq seq cid uid" DecodeBindReq "\<lambda>(seq, cid, uid).  (seq, cid, uid)"
  by unfold_locales (auto simp: EncodeBindReq_encodes DecodeBindReq_frame)

lemma EncodeBindRes_encodes:
  "encodes (EncodeBindRes seq code) (frame route_Bind seq (PutUint16 BigEndian code))"
  unfolding EncodeBindRes_def
  by (rule encode_frame [where bss = "[(PutUint16 BigEndian code)]"])
     (simp_all add: bindResBytes_def)

lemma DecodeBindRes_frame:
  "DecodeBindRes (frame route_Bind seq (PutUint16 BigEndian code)) = Ok code"
  by (simp add: DecodeBindRes_def bindResBytes_def decode_simps)

interpretation bind_res: message_codec "\<lambda>_. True" route_Bind "\<lambda>(seq, code).  seq" "\<lambda>(seq, code).  PutUint16 BigEndian code"
    "\<lambda>(seq, code).  EncodeBindRes seq code" DecodeBindRes "\<lambda>(seq, code).  code"
  by unfold_locales (auto simp: EncodeBindRes_encodes DecodeBindRes_frame)

lemma EncodeUnbindReq_encodes:
  "encodes (EncodeUnbindReq seq uid cid) (frame route_Unbind seq (PutUint64 BigEndian uid @ PutUint64 BigEndian cid))"
  unfolding EncodeUnbindReq_def
  by (rule encode_frame [where bss = "[(PutUint64 BigEndian uid), (PutUint64 BigEndian cid)]"])
     (simp_all add: unbindReqBytes_def)

lemma DecodeUnbindReq_frame:
  "DecodeUnbindReq (frame route_Unbind seq (PutUint64 BigEndian uid @ PutUint64 BigEndian cid)) = Ok (seq, uid, cid)"
  by (simp add: DecodeUnbindReq_def unbindReqBytes_def decode_simps)

interpretation unbind_req: message_codec "\<lambda>_. True" route_Unbind "\<lambda>(seq, uid, cid).  seq" "\<lambda>(seq, uid, cid).  PutUint64 BigEndian uid @ PutUint64 BigEndian cid"
    "\<lambda>(seq, uid, cid).  EncodeUnbindReq seq uid cid" DecodeUnbindReq "\<lambda>(seq, uid, cid).  (seq, uid, cid)"
  by unfold_locales (auto simp: EncodeUnbindReq_encodes DecodeUnbindReq_frame)

lemma EncodeUnbindRes_encodes:
  "encodes (EncodeUnbindRes seq code) (frame route_Unbind seq (PutUint16 BigEndian code))"
  unfolding EncodeUnbindRes_def
  by (rule encode_frame [where bss = "[(PutUint16 BigEndian code)]"])
     (simp_all add: unbindResBytes_def)

lemma DecodeUnbindRes_frame:
  "DecodeUnbindRes (frame route_Unbind seq (PutUint16 BigEndian code)) = Ok code"
  by (simp add: DecodeUnbindRes_def unbindResBytes_def decode_simps)

interpretation unbind_res: message_codec "\<lambda>_. True" route_Unbind "\<lambda>(seq, code).  seq" "\<lambda>(seq, code).  PutUint16 BigEndian code"
    "\<lambda>(seq, code).  EncodeUnbindRes seq code" DecodeUnbindRes "\<lambda>(seq, code).  code"
  by unfold_locales (auto simp: EncodeUnbindRes_encodes DecodeUnbindRes_frame)

lemma EncodeHandshakeRes_encodes:
  "encodes (EncodeHandshakeRes seq code) (frame route_Handshake seq (PutUint16 BigEndian code))"
  unfolding EncodeHandshakeRes_def
  by (rule encode_frame [where bss = "[(PutUint16 BigEndian code)]"])
     (simp_all add: handshakeResBytes_def)

lemma DecodeHandshakeRes_frame:
  "DecodeHandshakeRes (frame route_Handshake seq (PutUint16 BigEndian code)) = Ok code"
  by (simp add: DecodeHandshakeRes_def handshakeResBytes_def decode_simps)

interpretation handshake_res: message_codec "\<lambda>_. True" route_Handshake "\<lambda>(seq, code).  seq" "\<lambda>(seq, code).  PutUint16 BigEndian code"
    "\<lambda>(seq, code).  EncodeHandshakeRes seq code" DecodeHandshakeRes "\<lambda>(seq, code).  code"
  by unfold_locales (auto simp: EncodeHandshakeRes_encodes DecodeHandshakeRes_frame)

lemma EncodeDisconnectReq_encodes:
  "encodes (EncodeDisconnectReq seq uid cid force) (frame route_Disconnect seq (PutUint64 BigEndian uid @ PutUint64 BigEndian cid @ [if force then 1 else 0]))"
  unfolding EncodeDisconnectReq_def
  by (rule encode_frame [where bss = "[(PutUint64 BigEndian uid), (PutUint64 BigEndian cid), ([if force then 1 else 0])]"])
     (simp_all add: disconnectReqBytes_def)

lemma DecodeDisconnectReq_frame:
  "DecodeDisconnectReq (frame route_Disconnect seq (PutUint64 BigEndian uid @ PutUint64 BigEndian cid @ [if force then 1 else 0])) = Ok (seq, uid, cid, force)"
  by (simp add: DecodeDisconnectReq_def disconnectReqBytes_def decode_simps)

interpretation disconnect_req: message_codec "\<lambda>_. True" route_Disconnect "\<lambda>(seq, uid, cid, force).  seq" "\<lambda>(seq, uid, cid, force).  PutUint64 BigEndian uid @ PutUint64 BigEndian cid @ [if force then 1 else 0]"
    "\<lambda>(seq, uid, cid, force).  EncodeDisconnectReq seq uid cid force" DecodeDisconnectReq "\<lambda>(seq, uid, cid, force).  (seq, uid, cid, force)"
  by unfold_locales (auto simp: EncodeDisconnectReq_encodes DecodeDisconnectReq_frame)

lemma EncodeDisconnectRes_encodes:
  "encodes (EncodeDisconnectRes seq code) (frame route_Disconnect seq (PutUint16 BigEndian code))"
  unfolding EncodeDisconnectRes_def
  by (rule encode_frame [where bss = "[(PutUint16 BigEndian code)]"])
     (simp_all add: disconnectResBytes_def bindResBytes_def)

lemma DecodeDisconnectRes_frame:
  "DecodeDisconnectRes (frame route_Disconnect seq (PutUint16 BigEndian code)) = Ok code"
  by (simp add: DecodeDisconnectRes_def disconnectResBytes_def bindResBytes_def decode_simps)

interpretation disconnect_res: message_codec "\<lambda>_. True" route_Disconnect "\<lambda>(seq, code).  seq" "\<lambda>(seq, code).  PutUint16 BigEndian code"
    "\<lambda>(seq, code).  EncodeDisconnectRes seq code" DecodeDisconnectRes "\<lambda>(seq, code).  code"
  by unfold_locales (auto simp: EncodeDisconnectRes_encodes DecodeDisconnectRes_frame)

lemma EncodeIsOnlineRes_encodes:
  "encodes (EncodeIsOnlineRes seq code isOnline) (frame route_IsOnline seq (PutUint16 BigEndian code @ [if isOnline then 1 else 0]))"
  unfolding EncodeIsOnlineRes_def
  by (rule encode_frame [where bss = "[(PutUint16 BigEndian code), ([if isOnline then 1 else 0])]"])
     (simp_all add: isOnlineResBytes_def)

lemma DecodeIsOnlineRes_frame:
  "DecodeIsOnlineRes (frame route_IsOnline seq (PutUint16 BigEndian code @ [if isOnline then 1 else 0])) = Ok (code, isOnline)"
  by (simp add: DecodeIsOnlineRes_def isOnlineResBytes_def decode_simps)

interpretation isOnline_res: message_codec "\<lambda>_. True" route_IsOnline "\<lambda>(seq, code, isOnline).  seq" "\<lambda>(seq, code, isOnline).  PutUint16 BigEndian code @ [if isOnline then 1 else 0]"
    "\<lambda>(seq, code, isOnline).  EncodeIsOnlineRes seq code isOnline" DecodeIsOnlineRes "\<lambda>(seq, code, isOnline).  (code, isOnline)"
  by unfold_locales (auto simp: EncodeIsOnlineRes_encodes DecodeIsOnlineRes_frame)

lemma EncodePushRes_encodes:
  "encodes (EncodePushRes seq code) (frame route_Push seq (PutUint16 BigEndian code))"
  unfolding EncodePushRes_def
  by (rule encode_frame [where bss = "[(PutUint16 BigEndian code)]"])
     (simp_all add: pushResBytes_def)

lemma DecodePushRes_frame:
  "DecodePushRes (frame route_Push seq (PutUint16 BigEndian code)) = Ok code"
  by (simp add: DecodePushRes_def pushResBytes_def decode_simps)

interpretation push_res: message_codec "\<lambda>_. True" route_Push "\<lambda>(seq, code).  seq" "\<lambda>(seq, code).  PutUint16 BigEndian code"
    "\<lambda>(seq, code).  EncodePushRes seq code" DecodePushRes "\<lambda>(seq, code).  code"
  by unfold_locales (auto simp: EncodePushRes_encodes DecodePushRes_frame)

lemma EncodePublishRes_encodes:
  "encodes (EncodePublishRes seq tot) (frame route_Publish seq (PutUint64 BigEndian tot))"
  unfolding EncodePublishRes_def
  by (rule encode_frame [where bss = "[(PutUint64 BigEndian tot)]"])
     (simp_all add: publishResBytes_def)

lemma DecodePublishRes_frame:
  "DecodePublishRes (frame route_Publish seq (PutUint64 BigEndian tot)) = Ok tot"
  by (simp add: DecodePublishRes_def publishResBytes_def decode_simps)

interpretation publish_res: message_codec "\<lambda>_. True" route_Publish "\<lambda>(seq, tot).  seq" "\<lambda>(seq, tot).  PutUint64 BigEndian tot"
    "\<lambda>(seq, tot).  EncodePublishRes seq tot" DecodePublishRes "\<lambda>(seq, tot).  tot"
  by unfold_locales (auto simp: EncodePublishRes_encodes DecodePublishRes_frame)

lemma EncodeSubscribeRes_encodes:
  "encodes (EncodeSubscribeRes seq code) (frame route_Subscribe seq (PutUint16 BigEndian code))"
  unfolding EncodeSubscribeRes_def
  by (rule encode_frame [where bss = "[(PutUint16 BigEndian code)]"])
     (simp_all add: subscribeResBytes_def)

lemma DecodeSubscribeRes_frame:
  "DecodeSubscribeRes (frame route_Subscribe seq (PutUint16 BigEndian code)) = Ok code"
  by (simp add: DecodeSubscribeRes_def subscribeResBytes_def decode_simps)

interpretation subscribe_res: message_codec "\<lambda>_. True" route_Subscribe "\<lambda>(seq, code).  seq" "\<lambda>(seq, code).  PutUint16 BigEndian code"
    "\<lambda>(seq, code).  EncodeSubscribeRes seq code" DecodeSubscribeRes "\<lambda>(seq, code).  code"
  by unfold_locales (auto simp: EncodeSubscribeRes_encodes DecodeSubscribeRes_frame)

lemma EncodeUnsubscribeRes_encodes:
  "encodes (EncodeUnsubscribeRes seq code) (frame route_Unsubscribe seq (PutUint16 BigEndian code))"
  unfolding EncodeUnsubscribeRes_def
  by (rule encode_frame [where bss = "[(PutUint16 BigEndian code)]"])
     (simp_all add: unsubscribeResBytes_def)

lemma DecodeUnsubscribeRes_frame:
  "DecodeUnsubscribeRes (frame route_Unsubscribe seq (PutUint16 BigEndian code)) = Ok code"
  by (simp add: DecodeUnsubscribeRes_def unsubscribeResBytes_def decode_simps)

interpretation unsubscribe_res: message_codec "\<lambda>_. True" route_Unsubscribe "\<lambda>(seq, code).  seq" "\<lambda>(seq, code).  PutUint16 BigEndian code"
    "\<lambda>(seq, code).  EncodeUnsubscribeRes seq code" DecodeUnsubscribeRes "\<lambda>(seq, code).  code"
  by unfold_locales (auto simp: EncodeUnsubscribeRes_encodes DecodeUnsubscribeRes_frame)

lemma EncodeTriggerRes_encodes:
  "encodes (EncodeTriggerRes seq code) (frame route_Trigger seq (PutUint16 BigEndian code))"
  unfolding EncodeTriggerRes_def
  by (rule encode_frame [where bss = "[(PutUint16 BigEndian code)]"])
     (simp_all add: triggerResBytes_def)

lemma DecodeTriggerRes_frame:
  "DecodeTriggerRes (frame route_Trigger seq (PutUint16 BigEndian code)) = Ok code"
  by (simp add: DecodeTriggerRes_def triggerResBytes_def decode_simps)

interpretation trigger_res: message_codec "\<lambda>_. True" route_Trigger "\<lambda>(seq, code).  seq" "\<lambda>(seq, code).  PutUint16 BigEndian code"
    "\<lambda>(seq, code).  EncodeTriggerRes seq code" DecodeTriggerRes "\<lambda>(seq, code).  code"
  by unfold_locales (auto simp: EncodeTriggerRes_encodes DecodeTriggerRes_frame)

lemma EncodeDeliverRes_encodes:
  "encodes (EncodeDeliverRes seq code) (frame route_Deliver seq (PutUint16 BigEndian code))"
  unfolding EncodeDeliverRes_def
  by (rule encode_frame [where bss = "[(PutUint16 BigEndian code)]"])
     (simp_all add: deliverResBytes_def)

lemma DecodeDeliverRes_frame:
  "DecodeDeliverRes (frame route_Deliver seq (PutUint16 BigEndian code)) = Ok code"
  by (simp add: DecodeDeliverRes_def deliverResBytes_def decode_simps)

interpretation deliver_res: message_codec "\<lambda>_. True" route_Deliver "\<lambda>(seq, code).  seq" "\<lambda>(seq, code).  PutUint16 BigEndian code"
    "\<lambda>(seq, code).  EncodeDeliverRes seq code" DecodeDeliverRes "\<lambda>(seq, code).  code"
  by unfold_locales (auto simp: EncodeDeliverRes_encodes DecodeDeliverRes_frame)

lemma EncodeGetStateReq_encodes:
  "encodes (EncodeGetStateReq seq) (frame route_GetState seq ([]))"
  unfolding EncodeGetStateReq_def
  using encode_frame_bare [of getStateReqBytes route_GetState seq] by (simp add: getStateReqBytes_def)

lemma DecodeGetStateReq_frame:
  "DecodeGetStateReq (frame route_GetState seq ([])) = Ok seq"
  by (simp add: DecodeGetStateReq_def getStateReqBytes_def decode_simps)

interpretation getState_req: message_codec "\<lambda>_. True" route_GetState "\<lambda>seq.  seq" "\<lambda>seq.  []"
    "\<lambda>seq.  EncodeGetStateReq seq" DecodeGetStateReq "\<lambda>seq.  seq"
  by unfold_locales (auto simp: EncodeGetStateReq_encodes DecodeGetStateReq_frame)

lemma EncodeSetStateRes_encodes:
  "encodes (EncodeSetStateRes seq code) (frame route_SetState seq (PutUint16 BigEndian code))"
  unfolding EncodeSetStateRes_def
  by (rule encode_frame [where bss = "[(PutUint16 BigEndian code)]"])
     (simp_all add: setStateResBytes_def)

lemma DecodeSetStateRes_frame:
  "DecodeSetStateRes (frame route_SetState seq (PutUint16 BigEndian code)) = Ok code"
  by (simp add: DecodeSetStateRes_def setStateResBytes_def decode_simps)

interpretation setState_res: message_codec "\<lambda>_. True" route_SetState "\<lambda>(seq, code).  seq" "\<lambda>(seq, code).  PutUint16 BigEndian code"
    "\<lambda>(seq, code).  EncodeSetStateRes seq code" DecodeSetStateRes "\<lambda>(seq, code).  code"
  by unfold_locales (auto simp: EncodeSetStateRes_encodes DecodeSetStateRes_frame)

text \<open>Kinds, states and events travel in one byte.\<close>

lemma EncodeGetIPReq_encodes:
  "encodes (EncodeGetIPReq seq kind target) (frame route_GetIP seq (byte_of_int kind # PutUint64 BigEndian target))"
  unfolding EncodeGetIPReq_def
  by (rule encode_frame [where bss = "[([byte_of_int kind]), (PutUint64 BigEndian target)]"])
     (simp_all add: getIPReqBytes_def)

lemma DecodeGetIPReq_frame:
  "0 \<le> kind \<and> kind < 256 \<Longrightarrow> DecodeGetIPReq (frame route_GetIP seq (byte_of_int kind # PutUint64 BigEndian target)) = Ok (seq, kind, target)"
  by (simp add: DecodeGetIPReq_def getIPReqBytes_def decode_simps)

interpretation getIP_req: message_codec "\<lambda>(seq, kind, target). 0 \<le> kind \<and> kind < 256" route_GetIP "\<lambda>(seq, kind, target).  seq" "\<lambda>(seq, kind, target).  byte_of_int kind # PutUint64 BigEndian target"
    "\<lambda>(seq, kind, target).  EncodeGetIPReq seq kind target" DecodeGetIPReq "\<lambda>(seq, kind, target).  (seq, kind, target)"
  by unfold_locales (auto simp: EncodeGetIPReq_encodes DecodeGetIPReq_frame)

lemma EncodeIsOnlineReq_encodes:
  "encodes (EncodeIsOnlineReq seq kind target) (frame route_IsOnline seq (byte_of_int kind # PutUint64 BigEndian target))"
  unfolding EncodeIsOnlineReq_def
  by (rule encode_frame [where bss = "[([byte_of_int kind]), (PutUint64 BigEndian target)]"])
     (simp_all add: isOnlineReqBytes_def)

lemma DecodeIsOnlineReq_frame:
  "0 \<le> kind \<and> kind < 256 \<Longrightarrow> DecodeIsOnlineReq (frame route_IsOnline seq (byte_of_int kind # PutUint64 BigEndian target)) = Ok (seq, kind, target)"
  by (simp add: DecodeIsOnlineReq_def isOnlineReqBytes_def decode_simps)

interpretation isOnline_req: message_codec "\<lambda>(seq, kind, target). 0 \<le> kind \<and> kind < 256" route_IsOnline "\<lambda>(seq, kind, target).  seq" "\<lambda>(seq, kind, target).  byte_of_int kind # PutUint64 BigEndian target"
    "\<lambda>(seq, kind, target).  EncodeIsOnlineReq seq kind target" DecodeIsOnlineReq "\<lambda>(seq, kind, target).  (seq, kind, target)"
  by unfold_locales (auto simp: EncodeIsOnlineReq_encodes DecodeIsOnlineReq_frame)

lemma EncodeStatReq_encodes:
  "encodes (EncodeStatReq seq kind) (frame route_Stat seq ([byte_of_int kind]))"
  unfolding EncodeStatReq_def
  by (rule encode_frame [where bss = "[([byte_of_int kind])]"])
     (simp_all add: statReqBytes_def)

lemma DecodeStatReq_frame:
  "0 \<le> kind \<and> kind < 256 \<Longrightarrow> DecodeStatReq (frame route_Stat seq ([byte_of_int kind])) = Ok (seq, kind)"
  by (simp add: DecodeStatReq_def statReqBytes_def decode_simps)

interpretation stat_req: message_codec "\<lambda>(seq, kind). 0 \<le> kind \<and> kind < 256" route_Stat "\<lambda>(seq, kind).  seq" "\<lambda>(seq, kind).  [byte_of_int kind]"
    "\<lambda>(seq, kind).  EncodeStatReq seq kind" DecodeStatReq "\<lambda>(seq, kind).  (seq, kind)"
  by unfold_locales (auto simp: EncodeStatReq_encodes DecodeStatReq_frame)

lemma EncodeGetStateRes_encodes:
  "encodes (EncodeGetStateRes seq code state) (frame route_GetState seq (PutUint16 BigEndian code @ [byte_of_int state]))"
  unfolding EncodeGetStateRes_def
  by (rule encode_frame [where bss = "[(PutUint16 BigEndian code), ([byte_of_int state])]"])
     (simp_all add: getStateResBytes_def)

lemma DecodeGetStateRes_frame:
  "0 \<le> state \<and> state < 256 \<Longrightarrow> DecodeGetStateRes (frame route_GetState seq (PutUint16 BigEndian code @ [byte_of_int state])) = Ok (code, state)"
  by (simp add: DecodeGetStateRes_def getStateResBytes_def decode_simps)

interpretation getState_res: message_codec "\<lambda>(seq, code, state). 0 \<le> state \<and> state < 256" route_GetState "\<lambda>(seq, code, state).  seq" "\<lambda>(seq, code, state).  PutUint16 BigEndian code @ [byte_of_int state]"
    "\<lambda>(seq, code, state).  EncodeGetStateRes seq code state" DecodeGetStateRes "\<lambda>(seq, code, state).  (code, state)"
  by unfold_locales (auto simp: EncodeGetStateRes_encodes DecodeGetStateRes_frame)

lemma EncodeSetStateReq_encodes:
  "encodes (EncodeSetStateReq seq state) (frame route_SetState seq ([byte_of_int state]))"
  unfolding EncodeSetStateReq_def
  by (rule encode_frame [where bss = "[([byte_of_int state])]"])
     (simp_all add: setStateReqBytes_def)

lemma DecodeSetStateReq_frame:
  "0 \<le> state \<and> state < 256 \<Longrightarrow> DecodeSetStateReq (frame route_SetState seq ([byte_of_int state])) = Ok (seq, state)"
  by (simp add: DecodeSetStateReq_def setStateReqBytes_def decode_simps)

interpretation setState_req: message_codec "\<lambda>(seq, state). 0 \<le> state \<and> state < 256" route_SetState "\<lambda>(seq, state).  seq" "\<lambda>(seq, state).  [byte_of_int state]"
    "\<lambda>(seq, state).  EncodeSetStateReq seq state" DecodeSetStateReq "\<lambda>(seq, state).  (seq, state)"
  by unfold_locales (auto simp: EncodeSetStateReq_encodes DecodeSetStateReq_frame)

unbundle bit_operations_syntax

section \<open>Messages with optional and variable parts\<close>

text \<open>The responses that carry a total only when the call succeeded with a non-zero one.\<close>

definition total_part :: "uint16 \<Rightarrow> uint64 list \<Rightarrow> bytes" where
  "total_part code tot =
     (if code = codes_OK \<and> tot \<noteq> [] \<and> hd tot \<noteq> 0 then PutUint64 BigEndian (hd tot) else [])"

definition total_value :: "uint16 \<Rightarrow> uint64 list \<Rightarrow> uint64" where
  "total_value code tot = (if code = codes_OK \<and> tot \<noteq> [] then hd tot else 0)"

lemma encode_total:
  assumes "0 < cap" "sz = of_nat (12 + length (total_part code tot))"
  shows "encodes (encode_with cap (write_head sz rt seq @ [WriteUint16s BigEndian [code]] @
      (if code = codes_OK \<and> tot \<noteq> [] \<and> hd tot \<noteq> 0 then [WriteUint64s BigEndian [hd tot]] else [])) [])
    (frame rt seq (PutUint16 BigEndian code @ total_part code tot))"
  by (rule encode_frame [where bss = "[PutUint16 BigEndian code] @ (if total_part code tot = [] then [] else [total_part code tot])"])
     (use assms in \<open>auto simp: total_part_def\<close>)

lemma EncodeBroadcastRes_encodes:
  "encodes (EncodeBroadcastRes seq code tot) (frame route_Broadcast seq (PutUint16 BigEndian code @ total_part code tot))"
  unfolding EncodeBroadcastRes_def Let_def
  by (rule encode_total) (auto simp: broadcastResBytes_def total_part_def)

lemma EncodeMulticastRes_encodes:
  "encodes (EncodeMulticastRes seq code tot) (frame route_Multicast seq (PutUint16 BigEndian code @ total_part code tot))"
  unfolding EncodeMulticastRes_def Let_def
  by (rule encode_total) (auto simp: multicastResBytes_def total_part_def)

lemma EncodeStatRes_encodes:
  "encodes (EncodeStatRes seq code tot) (frame route_Stat seq (PutUint16 BigEndian code @ total_part code tot))"
  unfolding EncodeStatRes_def Let_def
  by (rule encode_total) (auto simp: statResBytes_def total_part_def)

lemma DecodeBroadcastRes_frame:
  "DecodeBroadcastRes (frame route_Broadcast seq (PutUint16 BigEndian code @ total_part code tot)) =
     Ok (code, total_value code tot)"
  by (simp add: DecodeBroadcastRes_def broadcastResBytes_def decode_simps total_part_def total_value_def)

lemma DecodeMulticastRes_frame:
  "DecodeMulticastRes (frame route_Multicast seq (PutUint16 BigEndian code @ total_part code tot)) =
     Ok (code, total_value code tot)"
  by (simp add: DecodeMulticastRes_def multicastResBytes_def decode_simps total_part_def total_value_def)

interpretation broadcast_res: message_codec "\<lambda>_. True" route_Broadcast "\<lambda>(seq, code, tot). seq"
    "\<lambda>(seq, code, tot). PutUint16 BigEndian code @ total_part code tot"
    "\<lambda>(seq, code, tot). EncodeBroadcastRes seq code tot" DecodeBroadcastRes
    "\<lambda>(seq, code, tot). (code, total_value code tot)"
  by unfold_locales (auto simp: EncodeBroadcastRes_encodes DecodeBroadcastRes_frame)

interpretation multicast_res: message_codec "\<lambda>_. True" route_Multicast "\<lambda>(seq, code, tot). seq"
    "\<lambda>(seq, code, tot). PutUint16 BigEndian code @ total_part code tot"
    "\<lambda>(seq, code, tot). EncodeMulticastRes seq code tot" DecodeMulticastRes
    "\<lambda>(seq, code, tot). (code, total_value code tot)"
  by unfold_locales (auto simp: EncodeMulticastRes_encodes DecodeMulticastRes_frame)

text \<open>The handshake carries the instance id up to the end of the frame.\<close>

lemma EncodeHandshakeReq_encodes:
  "encodes (EncodeHandshakeReq seq k ins) (frame route_Handshake seq (byte_of_int k # string_bytes ins))"
  unfolding EncodeHandshakeReq_def Let_def
  by (rule encode_frame [where bss = "[[byte_of_int k], string_bytes ins]"])
     (simp_all add: handshakeReqBytes_def appends_rules)

lemma DecodeHandshakeReq_frame:
  "0 \<le> k \<and> k < 256 \<Longrightarrow>
   DecodeHandshakeReq (frame route_Handshake seq (byte_of_int k # string_bytes ins)) = Ok (seq, k, ins)"
  by (simp add: DecodeHandshakeReq_def handshakeReqBytes_def decode_simps o_def)

interpretation handshake_req: message_codec "\<lambda>(seq, k, ins). 0 \<le> k \<and> k < 256" route_Handshake
    "\<lambda>(seq, k, ins). seq" "\<lambda>(seq, k, ins). byte_of_int k # string_bytes ins"
    "\<lambda>(seq, k, ins). EncodeHandshakeReq seq k ins" DecodeHandshakeReq "\<lambda>(seq, k, ins). (seq, k, ins)"
  by unfold_locales (auto simp: EncodeHandshakeReq_encodes DecodeHandshakeReq_frame)

text \<open>An event carries the user only when it has one.\<close>

definition uid_part :: "int64 list \<Rightarrow> bytes" where
  "uid_part uid = (if uid \<noteq> [] \<and> hd uid \<noteq> 0 then PutUint64 BigEndian (hd uid) else [])"

definition uid_value :: "int64 list \<Rightarrow> int64" where
  "uid_value uid = (if uid \<noteq> [] then hd uid else 0)"

lemma EncodeTriggerReq_encodes:
  "encodes (EncodeTriggerReq seq event cid uid)
     (frame route_Trigger seq (byte_of_int event # PutUint64 BigEndian cid @ uid_part uid))"
  unfolding EncodeTriggerReq_def Let_def
  by (rule encode_frame [where bss = "[[byte_of_int event], PutUint64 BigEndian cid] @
        (if uid_part uid = [] then [] else [uid_part uid])"])
     (auto simp: triggerReqBytes_def uid_part_def)

lemma DecodeTriggerReq_frame:
  "0 \<le> event \<and> event < 256 \<Longrightarrow>
   DecodeTriggerReq (frame route_Trigger seq (byte_of_int event # PutUint64 BigEndian cid @ uid_part uid)) =
     Ok (seq, event, cid, uid_value uid)"
  by (simp add: DecodeTriggerReq_def triggerReqBytes_def decode_simps uid_part_def uid_value_def)

interpretation trigger_req: message_codec "\<lambda>(seq, event, cid, uid). 0 \<le> event \<and> event < 256" route_Trigger
    "\<lambda>(seq, event, cid, uid). seq"
    "\<lambda>(seq, event, cid, uid). byte_of_int event # PutUint64 BigEndian cid @ uid_part uid"
    "\<lambda>(seq, event, cid, uid). EncodeTriggerReq seq event cid uid" DecodeTriggerReq
    "\<lambda>(seq, event, cid, uid). (seq, event, cid, uid_value uid)"
  by unfold_locales (auto simp: EncodeTriggerReq_encodes DecodeTriggerReq_frame)

text \<open>Messages that carry a packet after their own fields.\<close>

lemma encode_message:
  assumes "mountable_ok m" "Buffer_Len m = (len, m')" "0 < cap" "list_all2 appends ops bss"
    and "sz = word_of_int (int (10 + length (concat bss)) + len)"
  shows "encodes (encode_with cap (write_head sz rt seq @ ops) [m'])
    (frame rt seq (concat bss @ mount_data m))"
  by (rule encode_frame [OF assms(3,4)])
     (use Buffer_Len_ok [OF assms(1,2)] assms(5) in \<open>simp_all add: mount_data_def [symmetric]\<close>)

lemma EncodePushReq_encodes:
  assumes "mountable_ok m"
  shows "encodes (EncodePushReq seq kind target m)
    (frame route_Push seq (byte_of_int kind # PutUint64 BigEndian target @ mount_data m))"
proof -
  obtain len m' where l: "Buffer_Len m = (len, m')" by fastforce
  show ?thesis
    using encode_message [OF assms l, of pushReqBytes _ "[[byte_of_int kind], PutUint64 BigEndian target]"]
    by (simp add: EncodePushReq_def l pushReqBytes_def)
qed

lemma DecodePushReq_frame:
  "0 \<le> kind \<and> kind < 256 \<Longrightarrow>
   DecodePushReq (frame route_Push seq (byte_of_int kind # PutUint64 BigEndian target @ msg)) =
     Ok (seq, kind, target, msg)"
  by (simp add: DecodePushReq_def pushReqBytes_def decode_simps slice_from_def)

lemma EncodeBroadcastReq_encodes:
  assumes "mountable_ok m"
  shows "encodes (EncodeBroadcastReq seq kind m) (frame route_Broadcast seq (byte_of_int kind # mount_data m))"
proof -
  obtain len m' where l: "Buffer_Len m = (len, m')" by fastforce
  show ?thesis
    using encode_message [OF assms l, of broadcastReqBytes _ "[[byte_of_int kind]]"]
    by (simp add: EncodeBroadcastReq_def l broadcastReqBytes_def)
qed

lemma DecodeBroadcastReq_frame:
  "0 \<le> kind \<and> kind < 256 \<Longrightarrow>
   DecodeBroadcastReq (frame route_Broadcast seq (byte_of_int kind # msg)) = Ok (seq, kind, msg)"
  by (simp add: DecodeBroadcastReq_def broadcastReqBytes_def decode_simps slice_from_def)

text \<open>Messages that list their targets.  The offset of what follows the list is computed in
  \<open>uint16\<close> by the decoder.\<close>

abbreviation targets_bytes :: "int64 list \<Rightarrow> bytes" where
  "targets_bytes ts \<equiv> concat (map (PutUint64 BigEndian) ts)"

abbreviation count_bytes :: "int64 list \<Rightarrow> bytes" where
  "count_bytes ts \<equiv> PutUint16 BigEndian (of_nat (length ts))"

lemma unat_count: "n \<le> 65535 \<Longrightarrow> unat (of_nat n :: uint16) = n"
  by (simp add: unsigned_of_nat take_bit_nat_eq_self_iff)

lemma unat_offset16: "unat (17 + 8 * of_nat n :: uint16) = (17 + 8 * n) mod 2 ^ 16"
proof -
  have "(17 + 8 * of_nat n :: uint16) = of_nat (17 + 8 * n)" by simp
  then show ?thesis by (simp only: unsigned_of_nat) (simp add: take_bit_eq_mod)
qed

lemma ReadInt64s_at:
  assumes "drop 17 data = targets_bytes ts @ post" "17 \<le> length data" "n = int (length ts)"
  shows "ReadInt64s BigEndian n \<lparr>rbuf = data, roff = 17\<rparr> =
    Ok (ts, \<lparr>rbuf = data, roff = 17 + 8 * length ts\<rparr>)"
  using reads_at [OF ReadInt64s_reads [OF assms(3)] assms(1,2)] by (simp add: u64.length_concat_put)

text \<open>The common prefix of the three list-carrying decoders: sequence number, kind, count, targets.\<close>

definition targets_frame :: "uint8 \<Rightarrow> uint64 \<Rightarrow> int \<Rightarrow> int64 list \<Rightarrow> bytes \<Rightarrow> bytes" where
  "targets_frame rt seq kind ts rest =
     frame rt seq (byte_of_int kind # count_bytes ts @ targets_bytes ts @ rest)"

lemma length_targets_frame [simp]:
  "length (targets_frame rt seq kind ts rest) = 17 + 8 * length ts + length rest"
  by (simp add: targets_frame_def u64.length_concat_put)

lemma targets_frame_fields:
  fixes rt seq kind ts rest
  defines "d \<equiv> targets_frame rt seq kind ts rest"
  shows "drop 17 d = targets_bytes ts @ rest"
    and "take 8 (drop 6 d) = PutUint64 BigEndian seq"
    and "take 1 (drop 14 d) = [byte_of_int kind]"
    and "take 2 (drop 15 d) = count_bytes ts"
  by (simp_all add: d_def targets_frame_def frame_def)

lemma decode_targets:
  fixes rt seq kind ts rest
  defines "d \<equiv> targets_frame rt seq kind ts rest"
  assumes "length ts \<le> 65535" "0 \<le> kind \<and> kind < 256"
  shows "go_bind (Seek 6 0 (NewReader d)) (\<lambda>(_, r).
     go_bind (ReadUint64 BigEndian r) (\<lambda>(seq, r).
     go_bind (ReadUint8 r) (\<lambda>(k, r).
     go_bind (ReadUint16 BigEndian r) (\<lambda>(count, r).
     go_bind (ReadInt64s BigEndian (int (unat count)) r) (\<lambda>(targets, r). f seq k count targets))))) =
   f seq (byte_of_int kind) (of_nat (length ts)) ts"
proof -
  note t = targets_frame_fields [of rt seq kind ts rest, folded d_def]
  have len: "length d = 17 + 8 * length ts + length rest" by (simp add: d_def)
  show ?thesis
    using ReadInt64s_at [OF t(1), of "int (unat (of_nat (length ts) :: uint16))"] len t(2-4) assms(2)
    by (simp add: Seek_def NewReader_def slice_def slices_def Let_def ReadUint64_def ReadUint8_def
        ReadUint16_def unat_count del: of_nat_unat)
qed

lemma DecodeMulticastReq_frame:
  assumes "length ts \<le> 65535" "0 \<le> kind \<and> kind < 256"
  shows "DecodeMulticastReq (targets_frame route_Multicast seq kind ts msg) =
    Ok (seq, kind, ts, drop ((17 + 8 * length ts) mod 2 ^ 16) (targets_frame route_Multicast seq kind ts msg))"
proof -
  have "(17 + 8 * length ts) mod 2 ^ 16 \<le> 17 + 8 * length ts" by (rule mod_less_eq_dividend)
  then show ?thesis
    unfolding DecodeMulticastReq_def decode_targets [OF assms] using assms(2)
    by (simp add: multicastReqBytes_def unat_offset16 slice_from_def)
qed

lemma EncodeMulticastReq_encodes:
  assumes "mountable_ok m"
  shows "encodes (EncodeMulticastReq seq kind ts m) (targets_frame route_Multicast seq kind ts (mount_data m))"
proof -
  obtain len m' where l: "Buffer_Len m = (len, m')" by fastforce
  let ?bss = "[[byte_of_int kind], count_bytes ts, targets_bytes ts]"
  show ?thesis
    using encode_message [OF assms l, of "multicastReqBytes + length ts * 8" _ ?bss
        "word_of_int (int (multicastReqBytes + length ts * 8) - 4 + len)"]
    by (simp add: EncodeMulticastReq_def l multicastReqBytes_def appends_rules u64.length_concat_put
        targets_frame_def algebra_simps)
qed

lemma EncodeSubscribeReq_encodes:
  "encodes (EncodeSubscribeReq seq kind ts ch) (targets_frame route_Subscribe seq kind ts (string_bytes ch))"
  unfolding EncodeSubscribeReq_def Let_def targets_frame_def
  by (rule encode_frame [where bss = "[[byte_of_int kind], count_bytes ts, targets_bytes ts, string_bytes ch]"])
     (simp_all add: subscribeReqBytes_def appends_rules u64.length_concat_put algebra_simps)

lemma DecodeSubscribeReq_frame:
  assumes "length ts \<le> 65535" "0 \<le> kind \<and> kind < 256"
  shows "DecodeSubscribeReq (targets_frame route_Subscribe seq kind ts (string_bytes ch)) =
    Ok (seq, kind, ts, bytes_string
      (drop ((17 + 8 * length ts) mod 2 ^ 16) (targets_frame route_Subscribe seq kind ts (string_bytes ch))))"
proof -
  have "(17 + 8 * length ts) mod 2 ^ 16 \<le> 17 + 8 * length ts" by (rule mod_less_eq_dividend)
  then show ?thesis
    unfolding DecodeSubscribeReq_def decode_targets [OF assms] using assms(2)
    by (simp add: subscribeReqBytes_def unat_offset16 slice_from_def)
qed

lemma EncodeUnsubscribeReq_encodes:
  "encodes (EncodeUnsubscribeReq seq kind ts ch) (targets_frame route_Unsubscribe seq kind ts (string_bytes ch))"
  unfolding EncodeUnsubscribeReq_def Let_def targets_frame_def
  by (rule encode_frame [where bss = "[[byte_of_int kind], count_bytes ts, targets_bytes ts, string_bytes ch]"])
     (simp_all add: unsubscribeReqBytes_def appends_rules u64.length_concat_put algebra_simps)

lemma DecodeUnsubscribeReq_frame:
  assumes "length ts \<le> 65535" "0 \<le> kind \<and> kind < 256"
  shows "DecodeUnsubscribeReq (targets_frame route_Unsubscribe seq kind ts (string_bytes ch)) =
    Ok (seq, kind, ts, bytes_string
      (drop ((17 + 8 * length ts) mod 2 ^ 16) (targets_frame route_Unsubscribe seq kind ts (string_bytes ch))))"
proof -
  have "(17 + 8 * length ts) mod 2 ^ 16 \<le> 17 + 8 * length ts" by (rule mod_less_eq_dividend)
  then show ?thesis
    unfolding DecodeUnsubscribeReq_def decode_targets [OF assms] using assms(2)
    by (simp add: unsubscribeReqBytes_def unat_offset16 slice_from_def)
qed

lemma drop_targets_frame:
  "drop (17 + 8 * length ts) (targets_frame rt seq kind ts rest) = rest"
proof -
  have "drop (8 * length ts) (drop 17 (targets_frame rt seq kind ts rest)) = rest"
    unfolding targets_frame_fields by (simp add: u64.length_concat_put)
  then show ?thesis by (simp add: add.commute)
qed

lemma targets_offset_small: "length ts < 8190 \<Longrightarrow> (17 + 8 * length ts) mod 2 ^ 16 = 17 + 8 * length ts"
  by simp

text \<open>A channel message: the channel name is preceded by its length in one byte, and the decoder
  computes the offset of the packet in \<open>uint8\<close>.\<close>

abbreviation publish_frame :: "uint64 \<Rightarrow> string \<Rightarrow> bytes \<Rightarrow> bytes" where
  "publish_frame seq ch msg \<equiv> frame route_Publish seq (of_nat (length ch) # string_bytes ch @ msg)"

lemma EncodePublishReq_encodes:
  assumes "mountable_ok m"
  shows "encodes (EncodePublishReq seq ch m) (publish_frame seq ch (mount_data m))"
proof -
  obtain len m' where l: "Buffer_Len m = (len, m')" by fastforce
  show ?thesis
    using encode_message [OF assms l, of "publishReqBytes + length ch" _ "[[of_nat (length ch)], string_bytes ch]"
        "word_of_int (int (publishReqBytes + length ch) - 4 + len)"]
    by (simp add: EncodePublishReq_def l publishReqBytes_def appends_rules algebra_simps Let_def)
qed

lemma unat_len8: "n \<le> 255 \<Longrightarrow> unat (of_nat n :: uint8) = n"
  by (simp add: unsigned_of_nat take_bit_nat_eq_self_iff)

lemma unat_offset8: "unat (15 + of_nat n :: uint8) = (15 + n) mod 2 ^ 8"
proof -
  have "(15 + of_nat n :: uint8) = of_nat (15 + n)" by simp
  then show ?thesis by (simp only: unsigned_of_nat) (simp add: take_bit_eq_mod)
qed

lemma DecodePublishReq_frame:
  assumes "length ch \<le> 255"
  shows "DecodePublishReq (publish_frame seq ch msg) =
    Ok (seq, ch, drop ((15 + length ch) mod 2 ^ 8) (publish_frame seq ch msg))"
proof -
  let ?d = "publish_frame seq ch msg"
  have "ReadString (int (length ch)) \<lparr>rbuf = ?d, roff = 15\<rparr> = Ok (ch, \<lparr>rbuf = ?d, roff = 15 + length ch\<rparr>)"
    using reads_at [OF ReadString_reads [OF refl], of 15 ?d ch msg] by (simp add: frame_def)
  moreover have "take 8 (drop 6 ?d) = PutUint64 BigEndian seq" "take 1 (drop 14 ?d) = [of_nat (length ch)]"
    by (simp_all add: frame_def)
  moreover have "(15 + length ch) mod 2 ^ 8 \<le> length ?d"
    using mod_less_eq_dividend [of "15 + length ch" "2 ^ 8"] by simp
  ultimately show ?thesis
    using assms unat_offset8 [of "length ch"]
    by (simp add: DecodePublishReq_def Seek_def NewReader_def slice_def slices_def Let_def ReadUint64_def
        ReadUint8_def unat_len8 publishReqBytes_def slice_from_def del: of_nat_unat)
qed

lemma drop_publish_frame: "drop (15 + length ch) (publish_frame seq ch msg) = msg"
proof -
  have "drop (length ch) (drop 15 (publish_frame seq ch msg)) = msg" by (simp add: frame_def)
  then show ?thesis by (simp add: add.commute)
qed

text \<open>A delivery: the metadata, if there is any, is preceded by its length in four bytes.\<close>

definition deliver_meta :: "(metadata \<Rightarrow> bytes) \<Rightarrow> metadata \<Rightarrow> bytes" where
  "deliver_meta marshal md = (if md \<noteq> [] then marshal md else [])"

definition deliver_frame :: "uint64 \<Rightarrow> int64 \<Rightarrow> int64 \<Rightarrow> bytes \<Rightarrow> bytes \<Rightarrow> bytes" where
  "deliver_frame seq cid uid mb msg = frame route_Deliver seq
     (PutUint64 BigEndian cid @ PutUint64 BigEndian uid @ PutUint32 BigEndian (of_nat (length mb)) @ mb @ msg)"

lemma EncodeDeliverReq_encodes:
  assumes "mountable_ok m"
  shows "encodes (EncodeDeliverReq marshal seq cid uid md m)
    (deliver_frame seq cid uid (deliver_meta marshal md) (mount_data m))"
proof -
  obtain len m' where l: "Buffer_Len m = (len, m')" by fastforce
  note b = Buffer_Len_ok [OF assms l]
  let ?mb = "deliver_meta marshal md"
  have md: "(if md \<noteq> [] then marshal md else []) = ?mb" by (simp add: deliver_meta_def)
  have [simp]: "mount_data (MBlock (RawBlock ?mb)) = ?mb" by (simp add: mount_data_def block_data_def)
  show ?thesis
    unfolding EncodeDeliverReq_def Let_def l deliver_frame_def md prod.case
    by (rule encode_frame [where bss = "[PutUint64 BigEndian cid @ PutUint64 BigEndian uid,
          PutUint32 BigEndian (of_nat (length ?mb))]"])
       (use b in \<open>simp_all add: deliverReqBytes_def block_ok_def\<close>)
qed

lemma DecodeDeliverReq_frame:
  assumes "length mb < 2 ^ 32" "if mb = [] then md = [] else unmarshal mb = Ok md"
  shows "DecodeDeliverReq unmarshal (deliver_frame seq cid uid mb msg) = Ok (seq, cid, uid, md, msg)"
proof -
  let ?d = "deliver_frame seq cid uid mb msg"
  have u: "unat (of_nat (length mb) :: uint32) = length mb"
    using assms(1) by (simp add: unsigned_of_nat take_bit_nat_eq_self_iff)
  then have pos: "(0 < (of_nat (length mb) :: uint32)) = (mb \<noteq> [])"
    by (simp add: word_less_nat_alt)
  have f: "take 8 (drop 6 ?d) = PutUint64 BigEndian seq" "take 8 (drop 14 ?d) = PutUint64 BigEndian cid"
    "take 8 (drop 22 ?d) = PutUint64 BigEndian uid" "take 4 (drop 30 ?d) = PutUint32 BigEndian (of_nat (length mb))"
    "length ?d = 34 + length mb + length msg" "drop 34 ?d = mb @ msg"
    by (simp_all add: deliver_frame_def frame_def)
  have "slice_range 34 (34 + length mb) ?d = Ok mb" by (simp add: slice_range_def f)
  moreover have "slice_from (34 + length mb) ?d = Ok msg"
    using arg_cong [OF f(6), of "drop (length mb)"] by (simp add: slice_from_def f(5) add.commute)
  ultimately show ?thesis
    using assms(2) pos u f(1-5)
    by (simp add: DecodeDeliverReq_def Seek_def NewReader_def slice_def slices_def Let_def ReadUint64_def
        ReadInt64_def ReadUint32_def deliverReqBytes_def)
qed

text \<open>The address response.\<close>

definition ip_part :: "uint16 \<Rightarrow> string list \<Rightarrow> uint32 \<Rightarrow> bytes" where
  "ip_part code ip v = (if code = codes_OK \<and> ip \<noteq> [] \<and> hd ip \<noteq> [] then PutUint32 BigEndian v else [])"

lemma EncodeGetIPRes_encodes:
  assumes "ip \<noteq> [] \<and> hd ip \<noteq> [] \<Longrightarrow> IP2Long parseIP4 (hd ip) = Ok v"
  shows "encodes (EncodeGetIPRes parseIP4 seq code ip) (frame route_GetIP seq (PutUint16 BigEndian code @ ip_part code ip v))"
  unfolding EncodeGetIPRes_def Let_def
  by (rule encode_frame [where bss = "[PutUint16 BigEndian code] @ (if ip_part code ip v = [] then [] else [ip_part code ip v])"])
     (use assms in \<open>auto simp: getIPResBytes_def ip_part_def\<close>)

lemma DecodeGetIPRes_frame:
  "DecodeGetIPRes (frame route_GetIP seq (PutUint16 BigEndian code @ ip_part code ip v)) =
     Ok (code, if ip_part code ip v = [] then [] else Long2IP v)"
  by (simp add: DecodeGetIPRes_def getIPResBytes_def decode_simps ip_part_def)

text \<open>The statistics response: the decoder skips the code and reads the total two bytes early.\<close>

lemma bit_byte_shifted:
  fixes v :: uint64
  shows "bit (push_bit k (ucast (ucast (drop_bit (k + 16) v) :: byte)) :: uint64) n =
    (n < 64 \<and> k \<le> n \<and> n < k + 8 \<and> bit v (n + 16))"
proof (cases "n < 64 \<and> k \<le> n \<and> n < k + 8")
  case True
  then have "k + 16 + (n - k) = n + 16" by simp
  with True show ?thesis by (simp add: bit_simps add.commute)
next
  case False
  then show ?thesis by (auto simp: bit_simps)
qed

lemma Uint64_shifted: "Uint64 BigEndian (PutUint16 BigEndian 0 @ take 6 (PutUint64 BigEndian t)) = Ok (drop_bit 16 t)"
proof -
  let ?w = "\<lambda>k. push_bit k (ucast (ucast (drop_bit (k + 16) t) :: byte)) :: uint64"
  have "?w 0 OR ?w 8 OR ?w 16 OR ?w 24 OR ?w 32 OR ?w 40 = drop_bit 16 t" (is "?l = _")
  proof (rule bit_word_eqI)
    fix n assume n: "n < LENGTH(64)"
    have r: "bit (drop_bit 16 t) n = bit t (n + 16)" by (simp add: bit_drop_bit_eq add.commute)
    have "n < 48" if "bit t (n + 16)" using bit_imp_le_length [OF that] by simp
    then show "bit ?l n = bit (drop_bit 16 t) n"
      unfolding r bit_or_iff bit_byte_shifted using n by auto
  qed
  then show ?thesis by (simp add: byte_eval)
qed

lemma DecodeStatRes_frame:
  "DecodeStatRes (frame route_Stat seq (PutUint16 BigEndian code @ total_part code tot)) =
     Ok (0, if code = codes_OK \<and> tot \<noteq> [] then drop_bit 16 (hd tot) else 0)"
  using Uint64_shifted [of "hd tot"]
  by (simp add: DecodeStatRes_def statResBytes_def decode_simps total_part_def codes_OK_def)

section \<open>Properties of the protocol\<close>

text \<open>\<open>round_trips e dec v\<close>: whatever writer the pool hands out, the encoder \<open>e\<close> succeeds, and the
  decoder reads \<open>v\<close> out of the bytes it produced; the frame reader gives the same bytes back.\<close>

definition round_trips :: "encoder \<Rightarrow> (bytes \<Rightarrow> 'r go) \<Rightarrow> 'r \<Rightarrow> bool" where
  "round_trips e dec v \<longleftrightarrow> (\<exists>bs. encodes e bs \<and> dec bs = Ok v)"

lemma round_tripsI: "encodes e bs \<Longrightarrow> dec bs = Ok v \<Longrightarrow> round_trips e dec v"
  by (auto simp: round_trips_def)

text \<open>The protocol's frames as a stream format.\<close>

type_synonym wire_msg = "uint8 \<times> uint64 \<times> bytes"

interpretation wire: frame_reader "\<lambda>(rt, seq, body). length body < 2 ^ 32 - 14"
    "\<lambda>(rt, seq, body). frame rt seq body" proto_ReadMessage
    "\<lambda>(rt, seq, body). (False, rt, seq, frame rt seq body)"
  by unfold_locales
     (auto simp: proto_ReadMessage_frame, simp add: proto_ReadMessage_def ReadFull_def)

text \<open>C27. Requests without a packet: for every value a request can carry (kinds, states and events
  being single bytes), the encoder succeeds from any well-formed writer pool and the decoder
  returns exactly the encoded values.\<close>

theorem proto_requests_round_trip:
  assumes "0 \<le> kind \<and> kind < 256"
  shows "round_trips (EncodeBindReq seq cid uid) DecodeBindReq (seq, cid, uid) \<and>
    round_trips (EncodeUnbindReq seq uid cid) DecodeUnbindReq (seq, uid, cid) \<and>
    round_trips (EncodeDisconnectReq seq uid cid force) DecodeDisconnectReq (seq, uid, cid, force) \<and>
    round_trips (EncodeHandshakeReq seq kind ins) DecodeHandshakeReq (seq, kind, ins) \<and>
    round_trips (EncodeGetIPReq seq kind target) DecodeGetIPReq (seq, kind, target) \<and>
    round_trips (EncodeIsOnlineReq seq kind target) DecodeIsOnlineReq (seq, kind, target) \<and>
    round_trips (EncodeStatReq seq kind) DecodeStatReq (seq, kind) \<and>
    round_trips (EncodeGetStateReq seq) DecodeGetStateReq seq \<and>
    round_trips (EncodeSetStateReq seq kind) DecodeSetStateReq (seq, kind) \<and>
    round_trips (EncodeTriggerReq seq kind cid us) DecodeTriggerReq (seq, kind, cid, uid_value us)"
  by (intro conjI)
     (rule round_tripsI, rule EncodeBindReq_encodes EncodeUnbindReq_encodes EncodeDisconnectReq_encodes
        EncodeHandshakeReq_encodes EncodeGetIPReq_encodes EncodeIsOnlineReq_encodes EncodeStatReq_encodes
        EncodeGetStateReq_encodes EncodeSetStateReq_encodes EncodeTriggerReq_encodes,
      rule DecodeBindReq_frame DecodeUnbindReq_frame DecodeDisconnectReq_frame
        DecodeHandshakeReq_frame [OF assms] DecodeGetIPReq_frame [OF assms] DecodeIsOnlineReq_frame [OF assms]
        DecodeStatReq_frame [OF assms] DecodeGetStateReq_frame DecodeSetStateReq_frame [OF assms]
        DecodeTriggerReq_frame [OF assms])+

theorem proto_requests_round_trip_witness:
  "round_trips (EncodeBindReq 7 1 2) DecodeBindReq (7, 1, 2) \<and>
   round_trips (EncodeHandshakeReq 7 2 ''node-1'') DecodeHandshakeReq (7, 2, ''node-1'')"
  using proto_requests_round_trip [of 2 7 1 2 True "''node-1''" 3 "[]"] by simp

text \<open>Responses: every response round trips, the total of a broadcast or multicast being
  restored also when the encoder leaves it out because it is zero or the call failed.\<close>

theorem proto_responses_round_trip:
  assumes "0 \<le> state \<and> state < 256"
  shows "round_trips (EncodeBindRes seq code) DecodeBindRes code \<and>
    round_trips (EncodeUnbindRes seq code) DecodeUnbindRes code \<and>
    round_trips (EncodeHandshakeRes seq code) DecodeHandshakeRes code \<and>
    round_trips (EncodeDisconnectRes seq code) DecodeDisconnectRes code \<and>
    round_trips (EncodePushRes seq code) DecodePushRes code \<and>
    round_trips (EncodeSubscribeRes seq code) DecodeSubscribeRes code \<and>
    round_trips (EncodeUnsubscribeRes seq code) DecodeUnsubscribeRes code \<and>
    round_trips (EncodeTriggerRes seq code) DecodeTriggerRes code \<and>
    round_trips (EncodeDeliverRes seq code) DecodeDeliverRes code \<and>
    round_trips (EncodeSetStateRes seq code) DecodeSetStateRes code \<and>
    round_trips (EncodeIsOnlineRes seq code online) DecodeIsOnlineRes (code, online) \<and>
    round_trips (EncodeGetStateRes seq code state) DecodeGetStateRes (code, state) \<and>
    round_trips (EncodePublishRes seq tot) DecodePublishRes tot \<and>
    round_trips (EncodeBroadcastRes seq code tots) DecodeBroadcastRes (code, total_value code tots) \<and>
    round_trips (EncodeMulticastRes seq code tots) DecodeMulticastRes (code, total_value code tots)"
  by (intro conjI)
     (rule round_tripsI, rule EncodeBindRes_encodes EncodeUnbindRes_encodes EncodeHandshakeRes_encodes
        EncodeDisconnectRes_encodes EncodePushRes_encodes EncodeSubscribeRes_encodes
        EncodeUnsubscribeRes_encodes EncodeTriggerRes_encodes EncodeDeliverRes_encodes
        EncodeSetStateRes_encodes EncodeIsOnlineRes_encodes EncodeGetStateRes_encodes
        EncodePublishRes_encodes EncodeBroadcastRes_encodes EncodeMulticastRes_encodes,
      rule DecodeBindRes_frame DecodeUnbindRes_frame DecodeHandshakeRes_frame DecodeDisconnectRes_frame
        DecodePushRes_frame DecodeSubscribeRes_frame DecodeUnsubscribeRes_frame DecodeTriggerRes_frame
        DecodeDeliverRes_frame DecodeSetStateRes_frame DecodeIsOnlineRes_frame
        DecodeGetStateRes_frame [OF assms] DecodePublishRes_frame DecodeBroadcastRes_frame
        DecodeMulticastRes_frame)+

theorem proto_responses_round_trip_witness:
  "round_trips (EncodeGetStateRes 9 0 1) DecodeGetStateRes (0, 1) \<and>
   round_trips (EncodeMulticastRes 9 0 [5]) DecodeMulticastRes (0, 5)"
  using proto_responses_round_trip [of 1 9 0 True 0 "[5]"] by (simp add: total_value_def codes_OK_def)

text \<open>C28. Requests that carry a packet or a target list: within the sizes the offset arithmetic of
  the decoders can express (8189 targets, 240 bytes of channel name), the decoder returns the
  values and the packet behind them unchanged.\<close>

theorem proto_packet_requests_round_trip:
  assumes "mountable_ok m" "0 \<le> kind \<and> kind < 256" "length ts < 8190" "length ch \<le> 240"
  shows "round_trips (EncodePushReq seq kind target m) DecodePushReq (seq, kind, target, mount_data m) \<and>
    round_trips (EncodeBroadcastReq seq kind m) DecodeBroadcastReq (seq, kind, mount_data m) \<and>
    round_trips (EncodeMulticastReq seq kind ts m) DecodeMulticastReq (seq, kind, ts, mount_data m) \<and>
    round_trips (EncodePublishReq seq ch m) DecodePublishReq (seq, ch, mount_data m) \<and>
    round_trips (EncodeSubscribeReq seq kind ts ch) DecodeSubscribeReq (seq, kind, ts, ch) \<and>
    round_trips (EncodeUnsubscribeReq seq kind ts ch) DecodeUnsubscribeReq (seq, kind, ts, ch)"
proof (intro conjI)
  have ts: "length ts \<le> 65535" and off: "(17 + 8 * length ts) mod 2 ^ 16 = 17 + 8 * length ts"
    using assms(3) by simp_all
  show "round_trips (EncodePushReq seq kind target m) DecodePushReq (seq, kind, target, mount_data m)"
    by (rule round_tripsI, rule EncodePushReq_encodes [OF assms(1)], rule DecodePushReq_frame [OF assms(2)])
  show "round_trips (EncodeBroadcastReq seq kind m) DecodeBroadcastReq (seq, kind, mount_data m)"
    by (rule round_tripsI, rule EncodeBroadcastReq_encodes [OF assms(1)], rule DecodeBroadcastReq_frame [OF assms(2)])
  show "round_trips (EncodeMulticastReq seq kind ts m) DecodeMulticastReq (seq, kind, ts, mount_data m)"
    by (rule round_tripsI, rule EncodeMulticastReq_encodes [OF assms(1)])
       (simp only: DecodeMulticastReq_frame [OF ts assms(2)] off drop_targets_frame)
  show "round_trips (EncodeSubscribeReq seq kind ts ch) DecodeSubscribeReq (seq, kind, ts, ch)"
    by (rule round_tripsI, rule EncodeSubscribeReq_encodes)
       (simp only: DecodeSubscribeReq_frame [OF ts assms(2)] off drop_targets_frame bytes_string_string_bytes)
  show "round_trips (EncodeUnsubscribeReq seq kind ts ch) DecodeUnsubscribeReq (seq, kind, ts, ch)"
    by (rule round_tripsI, rule EncodeUnsubscribeReq_encodes)
       (simp only: DecodeUnsubscribeReq_frame [OF ts assms(2)] off drop_targets_frame bytes_string_string_bytes)
  have ch: "length ch \<le> 255" "(15 + length ch) mod 2 ^ 8 = 15 + length ch" using assms(4) by simp_all
  show "round_trips (EncodePublishReq seq ch m) DecodePublishReq (seq, ch, mount_data m)"
    by (rule round_tripsI, rule EncodePublishReq_encodes [OF assms(1)])
       (simp only: DecodePublishReq_frame [OF ch(1)] ch(2) drop_publish_frame)
qed

theorem proto_packet_requests_round_trip_witness:
  "round_trips (EncodePushReq 3 2 42 (MBlock (RawBlock [1, 2, 3]))) DecodePushReq (3, 2, 42, [1, 2, 3]) \<and>
   round_trips (EncodePublishReq 3 ''news'' (MBlock (RawBlock [1, 2, 3]))) DecodePublishReq (3, ''news'', [1, 2, 3])"
  using proto_packet_requests_round_trip [of "MBlock (RawBlock [1, 2, 3])" 2 "[42]" "''news''" 3 42]
  by (simp add: mount_data_def block_data_def block_ok_def)

text \<open>A delivery to a node round trips with its metadata, relying on \<open>json.Unmarshal\<close> inverting
  \<open>json.Marshal\<close> on it and on the marshalled text not being empty.\<close>

theorem proto_deliver_round_trip:
  assumes "mountable_ok m" "length (marshal md) < 2 ^ 32"
    and "md \<noteq> [] \<Longrightarrow> marshal md \<noteq> [] \<and> unmarshal (marshal md) = Ok md"
  shows "round_trips (EncodeDeliverReq marshal seq cid uid md m) (DecodeDeliverReq unmarshal)
    (seq, cid, uid, md, mount_data m)"
  by (rule round_tripsI, rule EncodeDeliverReq_encodes [OF assms(1)], rule DecodeDeliverReq_frame)
     (use assms(2,3) in \<open>auto simp: deliver_meta_def\<close>)

theorem proto_deliver_round_trip_witness:
  "round_trips (EncodeDeliverReq (\<lambda>_. [123, 125]) 5 1 2 [(''k'', ''v'')] (MBlock (RawBlock [9])))
     (DecodeDeliverReq (\<lambda>_. Ok [(''k'', ''v'')])) (5, 1, 2, [(''k'', ''v'')], [9])"
  using proto_deliver_round_trip [of "MBlock (RawBlock [9])" "\<lambda>_. [123, 125]" "[(''k'', ''v'')]"
      "\<lambda>_. Ok [(''k'', ''v'')]" 5 1 2]
  by (simp add: mount_data_def block_data_def block_ok_def)

text \<open>A connection that carries any sequence of messages, back to back, hands exactly these
  messages to its handler in order, each with its route, sequence number and bytes, and then
  stops with EOF.\<close>

theorem proto_stream_in_order:
  assumes "list_all (\<lambda>(rt, seq, body). length body < 2 ^ 32 - 14) ms"
  shows "read_loop (Suc (length ms)) proto_ReadMessage (concat (map (\<lambda>(rt, seq, body). frame rt seq body) ms)) =
    (map (\<lambda>(rt, seq, body). (False, rt, seq, frame rt seq body)) ms, Err IoEOF)"
  using wire.read_loop_frames [OF assms, of "Suc (length ms)"] by simp

theorem proto_stream_in_order_witness:
  "read_loop 3 proto_ReadMessage (frame route_Bind 1 [] @ frame route_Push 2 [7]) =
     ([(False, route_Bind, 1, frame route_Bind 1 []), (False, route_Push, 2, frame route_Push 2 [7])], Err IoEOF)"
  using proto_stream_in_order [of "[(route_Bind, 1, []), (route_Push, 2, [7])]"] by (simp add: numeral_3_eq_3)

text \<open>The limits of the offset arithmetic: with 8190 to 65535 targets, which the encoder accepts,
  the packet the multicast decoder returns is not the one encoded but starts inside the header
  or the target list; with a channel name of 241 to 255 bytes the same happens to a channel message.\<close>

theorem proto_offset_overflow:
  assumes "mountable_ok m" "0 \<le> kind \<and> kind < 256" "8190 \<le> length ts \<and> length ts \<le> 65535"
    and "241 \<le> length ch \<and> length ch \<le> 255"
  shows "(\<exists>junk. round_trips (EncodeMulticastReq seq kind ts m) DecodeMulticastReq (seq, kind, ts, junk) \<and>
      length (mount_data m) < length junk) \<and>
    (\<exists>junk. round_trips (EncodePublishReq seq ch m) DecodePublishReq (seq, ch, junk) \<and>
      length (mount_data m) < length junk)"
proof -
  have ts: "length ts \<le> 65535" "(17 + 8 * length ts) mod 2 ^ 16 < 17 + 8 * length ts"
    using assms(3) by (auto intro: mod_less_if_big)
  have ch: "length ch \<le> 255" "(15 + length ch) mod 2 ^ 8 < 15 + length ch"
    using assms(4) by (auto intro: mod_less_if_big)
  have "round_trips (EncodeMulticastReq seq kind ts m) DecodeMulticastReq (seq, kind, ts,
      drop ((17 + 8 * length ts) mod 2 ^ 16) (targets_frame route_Multicast seq kind ts (mount_data m)))"
    by (rule round_tripsI, rule EncodeMulticastReq_encodes [OF assms(1)], rule DecodeMulticastReq_frame [OF ts(1) assms(2)])
  moreover have "round_trips (EncodePublishReq seq ch m) DecodePublishReq (seq, ch,
      drop ((15 + length ch) mod 2 ^ 8) (publish_frame seq ch (mount_data m)))"
    by (rule round_tripsI, rule EncodePublishReq_encodes [OF assms(1)], rule DecodePublishReq_frame [OF ch(1)])
  moreover have "length (mount_data m) < length (drop ((17 + 8 * length ts) mod 2 ^ 16)
      (targets_frame route_Multicast seq kind ts (mount_data m)))"
    using ts(2) unfolding length_drop length_targets_frame by linarith
  moreover have "length (mount_data m) < length (drop ((15 + length ch) mod 2 ^ 8) (publish_frame seq ch (mount_data m)))"
    using ch(2) unfolding length_drop length_frame by simp
  ultimately show ?thesis by blast
qed

theorem proto_offset_overflow_witness:
  "\<exists>junk. round_trips (EncodePublishReq 1 (replicate 250 (CHR ''c'')) (MBlock (RawBlock [1]))) DecodePublishReq
     (1, replicate 250 (CHR ''c''), junk) \<and> length ([1] :: bytes) < length junk"
  using proto_offset_overflow [of "MBlock (RawBlock [1])" 1 "replicate 8190 0" "replicate 250 (CHR ''c'')" 1]
  by (simp add: mount_data_def block_data_def block_ok_def)

text \<open>The statistics response does not round trip: the decoder never reads the code, so that
  every failure decodes as success, and returns the total divided by 65536.\<close>

theorem proto_stat_response_broken:
  "round_trips (EncodeStatRes seq code []) DecodeStatRes (codes_OK, 0) \<and>
   round_trips (EncodeStatRes seq codes_OK [t]) DecodeStatRes (codes_OK, drop_bit 16 t)"
  by (rule conjI; rule round_tripsI, rule EncodeStatRes_encodes)
     (simp_all add: DecodeStatRes_frame codes_OK_def)

text \<open>Which frames crash the reader of a cluster connection: the reader panics on a stream whose
  first frame announces a size within four of \<open>2 ^ 32\<close> (the length of the buffer wraps), and on any complete data
  frame of fewer than ten bytes, whose route or sequence number is cut off.\<close>

theorem proto_read_panics:
  assumes "length hd4 = 4" "Uint32 BigEndian hd4 = Ok sz"
  shows "(2 ^ 32 - 4 \<le> unat sz \<longrightarrow> proto_ReadMessage (hd4 @ rest) = Panic) \<and>
    (0 < unat sz \<and> unat sz < 10 \<and> unat sz \<le> length rest \<and> hd rest AND heartbeatBit \<noteq> heartbeatBit \<longrightarrow>
      proto_ReadMessage (hd4 @ rest) = Panic)"
proof (intro conjI impI)
  assume "2 ^ 32 - 4 \<le> unat sz"
  then have "frame_bytes sz < 4" "sz \<noteq> 0" using frame_bytes_wrap by auto
  then show "proto_ReadMessage (hd4 @ rest) = Panic" using assms by (simp add: proto_ReadMessage_def)
next
  assume a: "0 < unat sz \<and> unat sz < 10 \<and> unat sz \<le> length rest \<and> hd rest AND heartbeatBit \<noteq> heartbeatBit"
  then have fb: "frame_bytes sz = 4 + unat sz" "sz \<noteq> 0" by (auto simp: frame_bytes_no_wrap)
  let ?d = "hd4 @ take (unat sz) rest"
  have "length ?d < 14" "4 < length ?d" using a assms(1) by auto
  moreover have "take 1 (drop 4 ?d) = [hd rest]" using a assms(1) by (cases rest) (auto simp: take_Cons')
  ultimately have "ParseBuffer ?d = Panic"
    using a by (auto simp: ParseBuffer_def slice_range_def go_bind_eq_Panic first_byte_def split: list.splits)
  then show "proto_ReadMessage (hd4 @ rest) = Panic"
    using a fb assms by (simp add: proto_ReadMessage_def ReadFull_def)
qed

theorem proto_read_panics_witness:
  "proto_ReadMessage [0, 0, 0, 1, 0] = Panic \<and> proto_ReadMessage [255, 255, 255, 255] = Panic"
  using proto_read_panics [of "[0, 0, 0, 1]" 1 "[0]"] proto_read_panics [of "[255, 255, 255, 255]" "2 ^ 32 - 1" "[]"]
  by (simp add: byte_eval heartbeatBit_def)

end
