(* ===== verification/Version.thy ===== *)
theory Version
  imports Prelude "HOL-Library.List_Lexorder" "HOL-Library.AList"
begin

text \<open>
  \<open>registry/registry.go\<close>, \<open>registry/version.go\<close>, \<open>registry/service_status.go\<close>: service
  instances, version comparison and the rollout status of an instance.  Go maps are association
  lists with \<open>AList.update\<close>; a nil \<open>*ServiceInstance\<close> is \<open>None\<close>.  Version strings are taken
  to be ASCII, which matters only for \<open>strings.TrimSpace\<close>.
\<close>

section \<open>Service instances\<close>

record service_route =
  rtID :: int32
  rtInternal :: bool
  rtStateful :: bool
  rtAuthorized :: bool

record ServiceInstance =
  siID :: string
  siName :: string
  siKind :: string
  siAlias :: string
  siState :: string
  siEvents :: "int list"
  siRoutes :: "service_route list"
  siServices :: "string list"
  siEndpoint :: string
  siWeight :: int
  siGameID :: int32
  siVersion :: string
  siMetadata :: "(string \<times> string) list"

section \<open>version.go\<close>

text \<open>\<open>strings.Split(s, sep)\<close> for a one character separator.\<close>

fun split_on :: "char \<Rightarrow> string \<Rightarrow> string list" where
  "split_on sep [] = [[]]"
| "split_on sep (c # cs) =
     (if c = sep then [] # split_on sep cs
      else case split_on sep cs of [] \<Rightarrow> [[c]] | p # ps \<Rightarrow> (c # p) # ps)"

definition is_space :: "char \<Rightarrow> bool" where
  "is_space c = (let n = (of_char c :: nat) in n = 32 \<or> (9 \<le> n \<and> n \<le> 13))"

definition TrimSpace :: "string \<Rightarrow> string" where
  "TrimSpace s = rev (dropWhile is_space (rev (dropWhile is_space s)))"

definition is_digit :: "char \<Rightarrow> bool" where
  "is_digit c = (let n = (of_char c :: nat) in 48 \<le> n \<and> n \<le> 57)"

definition digits_value :: "string \<Rightarrow> int" where
  "digits_value ds = foldl (\<lambda>a c. a * 10 + (of_char c - 48)) 0 ds"

text \<open>\<open>strconv.ParseInt(s, 10, 64)\<close>: an optional sign and at least one digit; \<open>None\<close> is an error,
  which a value outside the 64 bits is too.\<close>

definition ParseInt :: "string \<Rightarrow> int option" where
  "ParseInt s =
     (let neg = (s \<noteq> [] \<and> hd s = CHR ''-'');
          ds = (if s \<noteq> [] \<and> (hd s = CHR ''-'' \<or> hd s = CHR ''+'') then tl s else s);
          v = (if neg then - digits_value ds else digits_value ds)
      in if ds = [] \<or> \<not> list_all is_digit ds \<or> v < - (2 ^ 63) \<or> v \<ge> 2 ^ 63 then None else Some v)"

definition parseVersionPart :: "string \<Rightarrow> int" where
  "parseVersionPart part = (case ParseInt (TrimSpace part) of None \<Rightarrow> 0 | Some v \<Rightarrow> v)"

definition version_part :: "string list \<Rightarrow> nat \<Rightarrow> int" where
  "version_part parts i = (if i < length parts then parseVersionPart (parts ! i) else 0)"

primrec compare_parts :: "string list \<Rightarrow> string list \<Rightarrow> nat list \<Rightarrow> int" where
  "compare_parts pa pb [] = 0"
| "compare_parts pa pb (i # is) =
     (let va = version_part pa i; vb = version_part pb i
      in if va > vb then 1 else if va < vb then - 1 else compare_parts pa pb is)"

definition version_parts :: "string \<Rightarrow> string list" where
  "version_parts s = split_on (CHR ''.'') (if s = [] then ''0'' else s)"

definition CompareVersion :: "string \<Rightarrow> string \<Rightarrow> int" where
  "CompareVersion a b =
     (if a = b then 0
      else let partsA = version_parts a; partsB = version_parts b
           in compare_parts partsA partsB [0..<max (length partsB) (length partsA)])"

definition MaxVersion :: "string list \<Rightarrow> string" where
  "MaxVersion versions =
     (case versions of
        [] \<Rightarrow> []
      | v # vs \<Rightarrow> fold (\<lambda>x m. if CompareVersion x m > 0 then x else m) vs v)"

text \<open>One step of the grouped maxima: raise the group's version when the instance's is newer.\<close>

definition raise_version :: "'k \<Rightarrow> string \<Rightarrow> ('k \<times> string) list \<Rightarrow> ('k \<times> string) list" where
  "raise_version k v mv =
     (case map_of mv k of
        None \<Rightarrow> AList.update k v mv
      | Some cur \<Rightarrow> if CompareVersion v cur > 0 then AList.update k v mv else mv)"

definition MaxVersionForGame :: "ServiceInstance option list \<Rightarrow> (int32 \<times> string) list" where
  "MaxVersionForGame services =
     fold (\<lambda>ins mv. case ins of
             None \<Rightarrow> mv
           | Some i \<Rightarrow> if siKind i \<noteq> ''node'' then mv else raise_version (siGameID i) (siVersion i) mv)
       services []"

definition MaxVersionByKindAlias :: "ServiceInstance option list \<Rightarrow> string \<Rightarrow> (string \<times> string) list" where
  "MaxVersionByKindAlias services kind =
     fold (\<lambda>ins mv. case ins of
             None \<Rightarrow> mv
           | Some i \<Rightarrow> if siKind i \<noteq> kind then mv else raise_version (siAlias i) (siVersion i) mv)
       services []"

definition IsLatestVersion :: "ServiceInstance option \<Rightarrow> string \<Rightarrow> bool" where
  "IsLatestVersion ins maxVersion =
     (case ins of None \<Rightarrow> False | Some i \<Rightarrow> CompareVersion (siVersion i) maxVersion \<ge> 0)"

section \<open>service_status.go\<close>

abbreviation ServiceStatusNormal :: string where "ServiceStatusNormal \<equiv> ''normal''"
abbreviation ServiceStatusGray :: string where "ServiceStatusGray \<equiv> ''gray''"
abbreviation ServiceStatusTest :: string where "ServiceStatusTest \<equiv> ''test''"

definition ParseServiceStatus :: "string \<Rightarrow> string" where
  "ParseServiceStatus status =
     (if status = ServiceStatusGray then ServiceStatusGray
      else if status = ServiceStatusTest then ServiceStatusTest
      else ServiceStatusNormal)"

text \<open>A missing key and a nil map both read as the empty string.\<close>

definition ServiceStatusOf :: "ServiceInstance option \<Rightarrow> string" where
  "ServiceStatusOf ins =
     (case ins of
        None \<Rightarrow> ServiceStatusNormal
      | Some i \<Rightarrow> ParseServiceStatus (case map_of (siMetadata i) ''service_status'' of None \<Rightarrow> [] | Some s \<Rightarrow> s))"

definition MaxVersionForGameByServiceStatus ::
    "ServiceInstance option list \<Rightarrow> (int32 \<times> (string \<times> string) list) list" where
  "MaxVersionForGameByServiceStatus services =
     fold (\<lambda>ins mv. case ins of
             None \<Rightarrow> mv
           | Some i \<Rightarrow>
               if siKind i \<noteq> ''node'' then mv
               else let grp = (case map_of mv (siGameID i) of None \<Rightarrow> [] | Some g \<Rightarrow> g)
                    in AList.update (siGameID i) (raise_version (ServiceStatusOf ins) (siVersion i) grp) mv)
       services []"

definition PreferredServiceStatuses :: "string \<Rightarrow> string list" where
  "PreferredServiceStatuses target =
     (let s = ParseServiceStatus target
      in if s = ServiceStatusTest then [ServiceStatusTest, ServiceStatusGray, ServiceStatusNormal]
         else if s = ServiceStatusGray then [ServiceStatusGray, ServiceStatusNormal]
         else [ServiceStatusNormal])"

section \<open>The version order\<close>

text \<open>The numeric parts padded with zeros to a common length decide a comparison, as a lexicographic
  order on integer lists.\<close>

definition version_key :: "nat \<Rightarrow> string \<Rightarrow> int list" where
  "version_key n s = map (version_part (version_parts s)) [0..<n]"

lemma compare_parts_lex:
  "compare_parts pa pb is =
     (let x = map (version_part pa) is; y = map (version_part pb) is
      in if x < y then - 1 else if y < x then 1 else 0)"
  by (induction "is") (auto simp: Let_def)

lemma version_key_append:
  assumes "length (version_parts s) \<le> n" "n \<le> m"
  shows "version_key m s = version_key n s @ replicate (m - n) 0"
proof -
  have "map (version_part (version_parts s)) [n..<m] = replicate (m - n) 0"
    using assms(1) by (intro nth_equalityI) (auto simp: version_part_def)
  then show ?thesis
    using assms(2) upt_add_eq_append [of 0 n "m - n"] by (simp add: version_key_def)
qed

lemma append_same_less: "length x = length y \<Longrightarrow> (x @ z < y @ z) = (x < (y :: int list))"
  by (induction x y rule: list_induct2) auto

lemma CompareVersion_key:
  assumes "length (version_parts a) \<le> n" "length (version_parts b) \<le> n"
  shows "CompareVersion a b =
    (if version_key n a < version_key n b then - 1 else if version_key n b < version_key n a then 1 else 0)"
proof (cases "a = b")
  case False
  let ?k = "max (length (version_parts b)) (length (version_parts a))"
  have "version_key n a = version_key ?k a @ replicate (n - ?k) 0"
    "version_key n b = version_key ?k b @ replicate (n - ?k) 0"
    using assms by (auto intro: version_key_append)
  moreover have "length (version_key ?k a) = length (version_key ?k b)" by (simp add: version_key_def)
  ultimately show ?thesis
    using False by (simp add: CompareVersion_def compare_parts_lex append_same_less version_key_def)
qed (simp add: CompareVersion_def)

text \<open>Newer or equal.\<close>

abbreviation version_le :: "string \<Rightarrow> string \<Rightarrow> bool" where
  "version_le a b \<equiv> CompareVersion b a \<ge> 0"

text \<open>What the users of a three-way comparison rely on.\<close>

locale comparison =
  fixes cmp :: "'a \<Rightarrow> 'a \<Rightarrow> int"
  assumes flip: "cmp b a = - cmp a b"
    and trans: "0 \<le> cmp b a \<Longrightarrow> 0 \<le> cmp c b \<Longrightarrow> 0 \<le> cmp c a"
begin

lemma cmp_self: "cmp a a = 0"
  using flip [of a a] by simp

lemma linear: "0 \<le> cmp a b \<or> 0 \<le> cmp b a"
  using flip [of a b] by auto

definition greatest :: "'a set \<Rightarrow> 'a \<Rightarrow> bool" where
  "greatest S v \<longleftrightarrow> v \<in> S \<and> (\<forall>x \<in> S. 0 \<le> cmp v x)"

lemma greatest_single: "greatest {v} v"
  by (simp add: greatest_def cmp_self)

text \<open>Taking over a candidate exactly when it compares greater keeps the greatest.\<close>

lemma greatest_step: "greatest S m \<Longrightarrow> greatest (insert x S) (if 0 < cmp x m then x else m)"
proof (cases "0 < cmp x m")
  case True
  assume g: "greatest S m"
  have "0 \<le> cmp x y" if "y \<in> S" for y
    using trans [of m y x] True g that by (simp add: greatest_def)
  then show ?thesis using True by (simp add: greatest_def cmp_self)
next
  case False
  assume "greatest S m"
  then show ?thesis using False flip [of m x] by (simp add: greatest_def)
qed

lemma greatest_fold: "greatest S m \<Longrightarrow> greatest (S \<union> set xs) (fold (\<lambda>x m. if 0 < cmp x m then x else m) xs m)"
proof (induction xs arbitrary: S m)
  case (Cons x xs)
  from Cons.IH [OF greatest_step [OF Cons.prems, of x]] show ?case by simp
qed simp

end

interpretation version: comparison CompareVersion
proof
  fix a b :: string
  let ?n = "max (length (version_parts a)) (length (version_parts b))"
  have n: "length (version_parts a) \<le> ?n" "length (version_parts b) \<le> ?n" by simp_all
  show "CompareVersion b a = - CompareVersion a b"
    unfolding CompareVersion_key [OF n] CompareVersion_key [OF n(2,1)] by auto
next
  fix a b c :: string
  let ?n = "Max {length (version_parts a), length (version_parts b), length (version_parts c)}"
  have n: "length (version_parts a) \<le> ?n" "length (version_parts b) \<le> ?n" "length (version_parts c) \<le> ?n" by simp_all
  show "0 \<le> CompareVersion b a \<Longrightarrow> 0 \<le> CompareVersion c b \<Longrightarrow> 0 \<le> CompareVersion c a"
    unfolding CompareVersion_key [OF n(2,1)] CompareVersion_key [OF n(3,2)] CompareVersion_key [OF n(3,1)]
    by (auto split: if_splits)
qed

text \<open>A lookup that holds the newest version of a set, or nothing when the set is empty.\<close>

definition newest :: "string set \<Rightarrow> string option \<Rightarrow> bool" where
  "newest S v \<longleftrightarrow> (case v of None \<Rightarrow> S = {} | Some m \<Rightarrow> version.greatest S m)"

lemma newest_raise:
  assumes "newest S (map_of mv k)"
  shows "newest (insert v S) (map_of (raise_version k v mv) k)"
proof (cases "map_of mv k")
  case None
  then show ?thesis
    using assms version.greatest_single [of v] by (simp add: newest_def raise_version_def update_conv')
next
  case (Some m)
  then show ?thesis
    using assms version.greatest_step [of S m v] by (simp add: newest_def raise_version_def update_conv' split: if_splits)
qed

lemma raise_other [simp]: "k' \<noteq> k \<Longrightarrow> map_of (raise_version k v mv) k' = map_of mv k'"
  by (auto simp: raise_version_def update_conv' split: option.splits)

lemma fold_snoc_inv: "P [] s \<Longrightarrow> (\<And>xs x s. P xs s \<Longrightarrow> P (xs @ [x]) (f x s)) \<Longrightarrow> P xs (fold f xs s)"
  by (induction xs rule: rev_induct) auto

text \<open>The grouped maxima hold, per group, the newest version of the group.\<close>

definition group_versions :: "(ServiceInstance \<Rightarrow> bool) \<Rightarrow> ServiceInstance option list \<Rightarrow> string set" where
  "group_versions P services = siVersion ` {i. Some i \<in> set services \<and> P i}"

lemma group_versions_snoc:
  "group_versions P (xs @ [x]) =
     (case x of Some i \<Rightarrow> if P i then insert (siVersion i) (group_versions P xs) else group_versions P xs
      | None \<Rightarrow> group_versions P xs)"
  by (auto simp: group_versions_def split: option.splits)

lemma MaxVersionForGame_newest:
  "newest (group_versions (\<lambda>i. siKind i = ''node'' \<and> siGameID i = g) services)
     (map_of (MaxVersionForGame services) g)"
  unfolding MaxVersionForGame_def
  by (rule fold_snoc_inv [where P = "\<lambda>xs mv. newest (group_versions (\<lambda>i. siKind i = ''node'' \<and> siGameID i = g) xs)
        (map_of mv g)"])
     (auto simp: newest_def [of "{}"] group_versions_def [of _ "[]"] group_versions_snoc newest_raise split: option.splits)

lemma MaxVersionByKindAlias_newest:
  "newest (group_versions (\<lambda>i. siKind i = kind \<and> siAlias i = al) services)
     (map_of (MaxVersionByKindAlias services kind) al)"
  unfolding MaxVersionByKindAlias_def
  by (rule fold_snoc_inv [where P = "\<lambda>xs mv. newest (group_versions (\<lambda>i. siKind i = kind \<and> siAlias i = al) xs)
        (map_of mv al)"])
     (auto simp: newest_def [of "{}"] group_versions_def [of _ "[]"] group_versions_snoc newest_raise split: option.splits)

definition status_version :: "(int32 \<times> (string \<times> string) list) list \<Rightarrow> int32 \<Rightarrow> string \<Rightarrow> string option" where
  "status_version mv g st = (case map_of mv g of None \<Rightarrow> None | Some grp \<Rightarrow> map_of grp st)"

abbreviation status_group :: "int32 \<Rightarrow> string \<Rightarrow> ServiceInstance \<Rightarrow> bool" where
  "status_group g st i \<equiv> siKind i = ''node'' \<and> siGameID i = g \<and> ServiceStatusOf (Some i) = st"

lemma status_version_update:
  "status_version (AList.update g grp mv) g' st = (if g' = g then map_of grp st else status_version mv g' st)"
  by (simp add: status_version_def update_conv')

lemma status_version_step:
  assumes "newest (group_versions (status_group g st) xs) (status_version mv g st)"
  shows "newest (group_versions (status_group g st) (xs @ [x]))
    (status_version (case x of None \<Rightarrow> mv | Some i \<Rightarrow>
       if siKind i \<noteq> ''node'' then mv
       else let grp = (case map_of mv (siGameID i) of None \<Rightarrow> [] | Some g \<Rightarrow> g)
            in AList.update (siGameID i) (raise_version (ServiceStatusOf x) (siVersion i) grp) mv) g st)"
proof (cases x)
  case (Some i)
  let ?grp = "case map_of mv (siGameID i) of None \<Rightarrow> [] | Some g \<Rightarrow> g"
  have grp: "map_of ?grp st' = status_version mv (siGameID i) st'" for st'
    by (simp add: status_version_def split: option.splits)
  show ?thesis
  proof (cases "status_group g st i")
    case True
    then show ?thesis
      using Some assms newest_raise [of "group_versions (status_group g st) xs" ?grp st "siVersion i"] grp
      by (simp add: group_versions_snoc status_version_update Let_def)
  next
    case False
    then show ?thesis
      using Some assms grp by (auto simp: group_versions_snoc status_version_update Let_def)
  qed
qed (use assms in \<open>simp add: group_versions_snoc\<close>)

lemma MaxVersionForGameByServiceStatus_newest:
  "newest (group_versions (status_group g st) services)
     (status_version (MaxVersionForGameByServiceStatus services) g st)"
  unfolding MaxVersionForGameByServiceStatus_def
proof (rule fold_snoc_inv [where P = "\<lambda>xs mv. newest (group_versions (status_group g st) xs) (status_version mv g st)"])
  fix xs x mv assume "newest (group_versions (status_group g st) xs) (status_version mv g st)"
  then show "newest (group_versions (status_group g st) (xs @ [x])) (status_version (case x of None \<Rightarrow> mv | Some i \<Rightarrow>
       if siKind i \<noteq> ''node'' then mv
       else let grp = (case map_of mv (siGameID i) of None \<Rightarrow> [] | Some g \<Rightarrow> g)
            in AList.update (siGameID i) (raise_version (ServiceStatusOf x) (siVersion i) grp) mv) g st)"
    by (rule status_version_step)
qed (simp add: newest_def group_versions_def status_version_def)

section \<open>Properties\<close>

text \<open>Version comparison is a total preorder: swapping the arguments flips the sign, newer-or-equal is
  transitive, and comparing decides every pair; \<open>MaxVersion\<close> returns one of its arguments and
  none of the others is newer.\<close>

theorem version_order:
  "CompareVersion b a = - CompareVersion a b \<and>
   (CompareVersion b a \<ge> 0 \<and> CompareVersion c b \<ge> 0 \<longrightarrow> CompareVersion c a \<ge> 0) \<and>
   MaxVersion (v # vs) \<in> set (v # vs) \<and> (\<forall>x \<in> set (v # vs). CompareVersion (MaxVersion (v # vs)) x \<ge> 0)"
  using version.flip [of b a] version.trans [of b a c] version.greatest_fold [OF version.greatest_single [of v], of vs]
  by (auto simp: MaxVersion_def version.greatest_def)

theorem version_order_witness:
  "CompareVersion ''1.10'' ''1.9'' = 1 \<and> CompareVersion ''1.9'' ''1.10'' = - 1 \<and> CompareVersion ''1.10'' ''1'' \<ge> 0"
proof -
  have "CompareVersion ''1.10'' ''1.9'' = 1" "CompareVersion ''1.9'' ''1'' \<ge> 0" by code_simp+
  then show ?thesis using version_order [of "''1.9''" "''1''" "''1.10''" "''1''" "[]"]
      version_order [of "''1.9''" "''1.10''" "''1''" "''1''" "[]"] by simp
qed

end
