(* ===== verification/Dispatcher.thy ===== *)
theory Dispatcher
  imports Version "HOL-Library.Multiset"
begin

text \<open>
  \<open>internal/dispatcher\<close> and \<open>core/endpoint\<close>: the table of service endpoints a linker keeps and the
  choice of a node for a game.  The \<open>*serviceEndpoint\<close>s shared between routes and events are
  indices into a store, since weighted round robin updates their current weight in place.
  \<open>url.Parse\<close> and \<open>rand.IntN\<close> are arguments.  A Go map that the code iterates over is only
  visited whole, so the order of the association list does not matter.
\<close>

section \<open>Endpoints\<close>

record url =
  uScheme :: string
  uHost :: string
  uQuery :: "(string \<times> string) list"

record endpoint =
  epRaw :: url
  epSecure :: bool

definition ParseEndpoint :: "(string \<Rightarrow> url option) \<Rightarrow> string \<Rightarrow> endpoint option" where
  "ParseEndpoint parse s =
     (case parse s of
        None \<Rightarrow> None
      | Some raw \<Rightarrow> Some \<lparr>epRaw = raw, epSecure = (map_of (uQuery raw) ''is_secure'' = Some ''true'')\<rparr>)"

definition NewEndpoint :: "string \<Rightarrow> string \<Rightarrow> bool \<Rightarrow> endpoint" where
  "NewEndpoint scheme address isSecure =
     \<lparr>epRaw = \<lparr>uScheme = scheme, uHost = address,
               uQuery = [(''is_secure'', if isSecure then ''true'' else ''false'')]\<rparr>,
      epSecure = isSecure\<rparr>"

definition Endpoint_Scheme :: "endpoint \<Rightarrow> string" where
  "Endpoint_Scheme e = uScheme (epRaw e)"

definition Endpoint_Target :: "endpoint \<Rightarrow> string" where
  "Endpoint_Target e = ''direct://'' @ uHost (epRaw e)"

definition Endpoint_Address :: "endpoint \<Rightarrow> string" where
  "Endpoint_Address e = uHost (epRaw e)"

definition Endpoint_IsSecure :: "endpoint \<Rightarrow> bool" where
  "Endpoint_IsSecure e = epSecure e"

section \<open>Tables\<close>

record service_endpoint =
  seInsID :: string
  seState :: string
  seStatus :: string
  seEndpoint :: endpoint
  seWeight :: int
  seCurr :: int

type_synonym se_store = "service_endpoint list"

record abstract =
  endpoints1 :: "nat list"
  endpoints2 :: "nat list"
  endpoints3 :: "nat list"
  endpoints4 :: "nat list"
  endpoints5 :: "(string \<times> nat) list"
  endpoints6 :: "nat list"
  endpoints7 :: "nat list"
  endpoints8 :: "nat list"
  endpoints9 :: "nat list"

record GameRoute =
  grGroup :: string
  grCounter :: uint64
  grGameID :: int32
  grAbs :: abstract

record Event =
  evID :: int
  evAbs :: abstract

record Dispatcher =
  dDispatch :: string
  dRoutes :: "(int32 \<times> GameRoute) list"
  dEvents :: "(int \<times> Event) list"
  dEndpoints :: "(string \<times> endpoint) list"
  dInstances :: "(string \<times> ServiceInstance) list"
  dStore :: se_store

definition newAbstract :: abstract where
  "newAbstract = \<lparr>endpoints1 = [], endpoints2 = [], endpoints3 = [], endpoints4 = [], endpoints5 = [],
     endpoints6 = [], endpoints7 = [], endpoints8 = [], endpoints9 = []\<rparr>"

definition NewDispatcher :: "string \<Rightarrow> Dispatcher" where
  "NewDispatcher disp =
     \<lparr>dDispatch = disp, dRoutes = [], dEvents = [], dEndpoints = [], dInstances = [], dStore = []\<rparr>"

definition newRoute_001 :: "string \<Rightarrow> int32 \<Rightarrow> GameRoute" where
  "newRoute_001 grp gameID = \<lparr>grGroup = grp, grCounter = 0, grGameID = gameID, grAbs = newAbstract\<rparr>"

definition newEvent :: "int \<Rightarrow> Event" where
  "newEvent evt = \<lparr>evID = evt, evAbs = newAbstract\<rparr>"

text \<open>\<open>cluster.Work.String()\<close> and so on are \<open>work\<close>, \<open>busy\<close>, \<open>hang\<close>, \<open>shut\<close>.\<close>

definition addServiceEndpoint :: "service_endpoint \<Rightarrow> nat \<Rightarrow> bool \<Rightarrow> abstract \<Rightarrow> abstract" where
  "addServiceEndpoint se ref balance a =
     (let a = a\<lparr>endpoints5 := AList.update (seInsID se) ref (endpoints5 a)\<rparr>
      in if \<not> balance then a
         else if seStatus se = ServiceStatusTest then
           (if seState se = ''work'' then a\<lparr>endpoints6 := endpoints6 a @ [ref]\<rparr>
            else if seState se = ''busy'' then a\<lparr>endpoints7 := endpoints7 a @ [ref]\<rparr>
            else if seState se = ''hang'' then a\<lparr>endpoints3 := endpoints3 a @ [ref]\<rparr>
            else if seState se = ''shut'' then a\<lparr>endpoints4 := endpoints4 a @ [ref]\<rparr>
            else a)
         else if seStatus se = ServiceStatusGray then
           (if seState se = ''work'' then a\<lparr>endpoints8 := endpoints8 a @ [ref]\<rparr>
            else if seState se = ''busy'' then a\<lparr>endpoints9 := endpoints9 a @ [ref]\<rparr>
            else if seState se = ''hang'' then a\<lparr>endpoints3 := endpoints3 a @ [ref]\<rparr>
            else if seState se = ''shut'' then a\<lparr>endpoints4 := endpoints4 a @ [ref]\<rparr>
            else a)
         else
           (if seState se = ''work'' then a\<lparr>endpoints1 := endpoints1 a @ [ref]\<rparr>
            else if seState se = ''busy'' then a\<lparr>endpoints2 := endpoints2 a @ [ref]\<rparr>
            else if seState se = ''hang'' then a\<lparr>endpoints3 := endpoints3 a @ [ref]\<rparr>
            else if seState se = ''shut'' then a\<lparr>endpoints4 := endpoints4 a @ [ref]\<rparr>
            else a))"

section \<open>Choosing an endpoint\<close>

primrec balance_loop :: "abstract \<Rightarrow> string list \<Rightarrow> nat list" where
  "balance_loop a [] = []"
| "balance_loop a (preferred # ps) =
     (if preferred = ServiceStatusTest then
        (if endpoints6 a \<noteq> [] then endpoints6 a
         else if endpoints7 a \<noteq> [] then endpoints7 a else balance_loop a ps)
      else if preferred = ServiceStatusGray then
        (if endpoints8 a \<noteq> [] then endpoints8 a
         else if endpoints9 a \<noteq> [] then endpoints9 a else balance_loop a ps)
      else
        (if endpoints1 a \<noteq> [] then endpoints1 a
         else if endpoints2 a \<noteq> [] then endpoints2 a else balance_loop a ps))"

definition balanceEndpoints :: "abstract \<Rightarrow> string \<Rightarrow> nat list" where
  "balanceEndpoints a status = balance_loop a (PreferredServiceStatuses status)"

definition directDispatch :: "string \<Rightarrow> abstract \<Rightarrow> nat go" where
  "directDispatch insID a = (case map_of (endpoints5 a) insID of None \<Rightarrow> Err ErrNotFoundEndpoint | Some r \<Rightarrow> Ok r)"

definition randomDispatch :: "(nat \<Rightarrow> nat) \<Rightarrow> string \<Rightarrow> GameRoute \<Rightarrow> nat go" where
  "randomDispatch rnd status r =
     (let es = balanceEndpoints (grAbs r) status
      in if es = [] then Err ErrNotFoundEndpoint
         else if rnd (length es) < length es then Ok (es ! rnd (length es)) else Panic)"

definition roundRobinDispatch :: "string \<Rightarrow> GameRoute \<Rightarrow> (nat \<times> GameRoute) go" where
  "roundRobinDispatch status r =
     (let es = balanceEndpoints (grAbs r) status
      in if es = [] then Err ErrNotFoundEndpoint
         else let c = grCounter r + 1
              in Ok (es ! (unat c mod length es), r\<lparr>grCounter := c\<rparr>))"

fun wrr_scan :: "nat list \<Rightarrow> nat option \<Rightarrow> int \<Rightarrow> se_store \<Rightarrow> nat option \<times> int \<times> se_store" where
  "wrr_scan [] selected totalWeight st = (selected, totalWeight, st)"
| "wrr_scan (r # rs) selected totalWeight st =
     (let se = st ! r;
          st = st[r := se\<lparr>seCurr := seCurr se + seWeight se\<rparr>];
          totalWeight = totalWeight + seWeight se;
          selected = (case selected of
                        None \<Rightarrow> Some r
                      | Some s \<Rightarrow> if seCurr (st ! r) > seCurr (st ! s) then Some r else Some s)
      in wrr_scan rs selected totalWeight st)"

definition weightRoundRobinDispatch :: "string \<Rightarrow> GameRoute \<Rightarrow> se_store \<Rightarrow> (nat \<times> se_store) go" where
  "weightRoundRobinDispatch status r st =
     (let es = balanceEndpoints (grAbs r) status
      in if es = [] then Err ErrNotFoundEndpoint
         else case wrr_scan es None 0 st of
                (Some s, totalWeight, st) \<Rightarrow>
                  Ok (s, st[s := (st ! s)\<lparr>seCurr := seCurr (st ! s) - totalWeight\<rparr>])
              | (None, _, _) \<Rightarrow> Err ErrNotFoundEndpoint)"

text \<open>The endpoint chosen, with the route and the store after the choice.\<close>

definition findServiceEndpointForServiceStatus ::
    "(nat \<Rightarrow> nat) \<Rightarrow> string \<Rightarrow> string \<Rightarrow> string list \<Rightarrow> GameRoute \<Rightarrow> se_store \<Rightarrow> (nat \<times> GameRoute \<times> se_store) go" where
  "findServiceEndpointForServiceStatus rnd disp status insID r st =
     (if insID = [] \<or> hd insID = [] then
        (if disp = ''rr'' then go_map (\<lambda>(s, r). (s, r, st)) (roundRobinDispatch status r)
         else if disp = ''wrr'' then go_map (\<lambda>(s, st). (s, r, st)) (weightRoundRobinDispatch status r st)
         else go_map (\<lambda>s. (s, r, st)) (randomDispatch rnd status r))
      else go_map (\<lambda>s. (s, r, st)) (directDispatch (hd insID) (grAbs r)))"

definition FindEndpointForServiceStatus ::
    "(nat \<Rightarrow> nat) \<Rightarrow> string \<Rightarrow> string \<Rightarrow> string list \<Rightarrow> GameRoute \<Rightarrow> se_store \<Rightarrow> (endpoint \<times> GameRoute \<times> se_store) go" where
  "FindEndpointForServiceStatus rnd disp status insID r st =
     go_map (\<lambda>(s, r, st). (seEndpoint (st ! s), r, st)) (findServiceEndpointForServiceStatus rnd disp status insID r st)"

definition Route_FindEndpoint ::
    "(nat \<Rightarrow> nat) \<Rightarrow> string \<Rightarrow> string list \<Rightarrow> GameRoute \<Rightarrow> se_store \<Rightarrow> (endpoint \<times> GameRoute \<times> se_store) go" where
  "Route_FindEndpoint rnd disp insID r st = FindEndpointForServiceStatus rnd disp ServiceStatusNormal insID r st"

definition FindEndpointForUser ::
    "(nat \<Rightarrow> nat) \<Rightarrow> string \<Rightarrow> bool \<Rightarrow> string list \<Rightarrow> GameRoute \<Rightarrow> se_store \<Rightarrow> (endpoint \<times> GameRoute \<times> se_store) go" where
  "FindEndpointForUser rnd disp allowTest insID r st =
     (if allowTest then FindEndpointForServiceStatus rnd disp ServiceStatusTest insID r st
      else FindEndpointForServiceStatus rnd disp ServiceStatusNormal insID r st)"

section \<open>The dispatcher\<close>

definition FindEndpoint :: "string \<Rightarrow> Dispatcher \<Rightarrow> endpoint go" where
  "FindEndpoint insID d = (case map_of (dEndpoints d) insID of None \<Rightarrow> Err ErrNotFoundEndpoint | Some ep \<Rightarrow> Ok ep)"

definition FindGameRoute :: "int32 \<Rightarrow> Dispatcher \<Rightarrow> GameRoute go" where
  "FindGameRoute gameID d = (case map_of (dRoutes d) gameID of None \<Rightarrow> Err ErrNotFoundRoute | Some r \<Rightarrow> Ok r)"

definition FindEvent :: "int \<Rightarrow> Dispatcher \<Rightarrow> Event go" where
  "FindEvent evt d = (case map_of (dEvents d) evt of None \<Rightarrow> Err ErrNotFoundEvent | Some e \<Rightarrow> Ok e)"

definition SelectGameNode ::
    "(nat \<Rightarrow> nat) \<Rightarrow> int32 \<Rightarrow> string \<Rightarrow> Dispatcher \<Rightarrow> ((string \<times> string) \<times> Dispatcher) go" where
  "SelectGameNode rnd gameID status d =
     go_bind (FindGameRoute gameID d) (\<lambda>route.
     go_map (\<lambda>(s, route', st). ((grGroup route', seInsID (st ! s)),
                d\<lparr>dRoutes := AList.update gameID route' (dRoutes d), dStore := st\<rparr>))
       (findServiceEndpointForServiceStatus rnd (dDispatch d) status [] route (dStore d)))"

text \<open>The endpoints an event visit calls its function on, when the function never stops it.\<close>

definition Event_VisitEndpoints :: "Event \<Rightarrow> nat list" where
  "Event_VisitEndpoints e =
     endpoints1 (evAbs e) @ endpoints2 (evAbs e) @ endpoints3 (evAbs e) @ endpoints4 (evAbs e)"

text \<open>Whether an instance takes part in load balancing: only the newest version of its group does.
  A group missing from the maxima reads as the empty version.\<close>

definition balanced :: "ServiceInstance option list \<Rightarrow> ServiceInstance \<Rightarrow> bool" where
  "balanced services i =
     (if siKind i = ''node'' then
        (case map_of (MaxVersionForGameByServiceStatus services) (siGameID i) of
           Some grp \<Rightarrow> IsLatestVersion (Some i) (case map_of grp (ServiceStatusOf (Some i)) of None \<Rightarrow> [] | Some v \<Rightarrow> v)
         | None \<Rightarrow> IsLatestVersion (Some i) (case map_of (MaxVersionForGame services) (siGameID i) of None \<Rightarrow> [] | Some v \<Rightarrow> v))
      else if siKind i = ''gate'' then
        IsLatestVersion (Some i) (case map_of (MaxVersionByKindAlias services ''gate'') (siAlias i) of None \<Rightarrow> [] | Some v \<Rightarrow> v)
      else True)"

definition add_to_event :: "service_endpoint \<Rightarrow> nat \<Rightarrow> bool \<Rightarrow> int \<Rightarrow> (int \<times> Event) list \<Rightarrow> (int \<times> Event) list" where
  "add_to_event se ref balance evt events =
     (let e = (case map_of events evt of None \<Rightarrow> newEvent evt | Some e \<Rightarrow> e)
      in AList.update evt (e\<lparr>evAbs := addServiceEndpoint se ref balance (evAbs e)\<rparr>) events)"

definition replace_step ::
    "(string \<Rightarrow> url option) \<Rightarrow> ServiceInstance option list \<Rightarrow> ServiceInstance option \<Rightarrow> Dispatcher \<Rightarrow> Dispatcher go" where
  "replace_step parse services service d =
     (case service of
        None \<Rightarrow> Panic
      | Some i \<Rightarrow>
          (case ParseEndpoint parse (siEndpoint i) of
             None \<Rightarrow> Ok d
           | Some ep \<Rightarrow>
               let balance = balanced services i;
                   se = \<lparr>seInsID = siID i, seState = siState i, seStatus = ServiceStatusOf service,
                         seEndpoint = ep, seWeight = siWeight i, seCurr = 0\<rparr>;
                   ref = length (dStore d);
                   route = (case map_of (dRoutes d) (siGameID i) of
                              None \<Rightarrow> newRoute_001 (siAlias i) (siGameID i) | Some r \<Rightarrow> r);
                   route = route\<lparr>grAbs := addServiceEndpoint se ref balance (grAbs route)\<rparr>
               in Ok (d\<lparr>dEndpoints := AList.update (siID i) ep (dEndpoints d),
                        dInstances := AList.update (siID i) i (dInstances d),
                        dStore := dStore d @ [se],
                        dRoutes := AList.update (siGameID i) route (dRoutes d),
                        dEvents := fold (add_to_event se ref balance) (siEvents i) (dEvents d)\<rparr>)))"

definition ReplaceServices :: "(string \<Rightarrow> url option) \<Rightarrow> ServiceInstance option list \<Rightarrow> Dispatcher \<Rightarrow> Dispatcher go" where
  "ReplaceServices parse services d =
     go_foreach (replace_step parse services) services (NewDispatcher (dDispatch d))"

section \<open>Weighted round robin\<close>

abbreviation bump :: "service_endpoint \<Rightarrow> service_endpoint" where
  "bump se \<equiv> se\<lparr>seCurr := seCurr se + seWeight se\<rparr>"

text \<open>The scan raises every current weight once, sums the weights, and ends on a maximum.\<close>

lemma wrr_scan_spec:
  assumes "wrr_scan es sel tot st = (sel', tot', st')" "distinct es" "\<forall>r \<in> set es. r < length st"
    and "\<forall>s0. sel = Some s0 \<longrightarrow> s0 \<notin> set es \<and> s0 < length st"
  shows "length st' = length st \<and> tot' = tot + (\<Sum>r\<leftarrow>es. seWeight (st ! r)) \<and>
    (\<forall>r < length st. st' ! r = (if r \<in> set es then bump (st ! r) else st ! r)) \<and>
    (case sel' of
       None \<Rightarrow> sel = None \<and> es = []
     | Some s \<Rightarrow> s \<in> set_option sel \<union> set es \<and> (\<forall>x \<in> set_option sel \<union> set es. seCurr (st' ! x) \<le> seCurr (st' ! s)))"
  using assms
proof (induction es sel tot st rule: wrr_scan.induct)
  case (1 sel tot st)
  then show ?case by (auto split: option.splits)
next
  case (2 r rs sel tot st)
  let ?st = "st[r := bump (st ! r)]"
  let ?sel = "case sel of None \<Rightarrow> Some r | Some s \<Rightarrow> if seCurr (?st ! r) > seCurr (?st ! s) then Some r else Some s"
  have scan: "wrr_scan rs ?sel (tot + seWeight (st ! r)) ?st = (sel', tot', st')"
    using 2(2) by (simp add: Let_def)
  have r: "r < length st" "r \<notin> set rs" "distinct rs" using 2(3,4) by auto
  have "\<forall>s0. ?sel = Some s0 \<longrightarrow> s0 \<notin> set rs \<and> s0 < length ?st"
    using 2(5) r by (auto split: option.splits if_splits)
  note IH = 2(1) [OF refl refl refl refl scan r(3) _ this]
  have rs: "\<forall>x \<in> set rs. x < length ?st \<and> ?st ! x = st ! x" using 2(4) r(2) by (auto simp: nth_list_update)
  then have sum: "(\<Sum>x\<leftarrow>rs. seWeight (?st ! x)) = (\<Sum>x\<leftarrow>rs. seWeight (st ! x))"
    by (intro arg_cong [of _ _ sum_list] map_cong) auto
  have nth: "st' ! x = (if x \<in> set (r # rs) then bump (st ! x) else st ! x)" if "x < length st" for x
    using IH rs r that by (auto simp: nth_list_update)
  obtain s where s: "sel' = Some s" "s \<in> set_option ?sel \<union> set rs"
      "\<forall>x \<in> set_option ?sel \<union> set rs. seCurr (st' ! x) \<le> seCurr (st' ! s)"
    using IH rs by (auto split: option.splits if_splits)
  have "seCurr (st' ! x) \<le> seCurr (st' ! s)" if "x \<in> set_option sel \<union> set (r # rs)" for x
  proof (cases "x \<in> set rs")
    case False
    have u: "st' ! y = ?st ! y" if "y \<notin> set rs" "y < length st" for y
      using nth [of y] that r by (auto simp: nth_list_update)
    obtain y where y: "?sel = Some y" by (cases ?sel) (auto split: option.splits if_splits)
    then have "seCurr (?st ! x) \<le> seCurr (?st ! y)" using that False by (auto split: option.splits if_splits)
    moreover have "x < length st" "y \<notin> set rs" "y < length st"
      using y that False 2(5) r by (auto split: option.splits if_splits)
    ultimately show ?thesis using s(3) y u [of x] u [of y] False by force
  qed (use s(3) in auto)
  then show ?case
    using IH rs sum nth s(1,2) by (auto split: option.splits if_splits)
qed

text \<open>One dispatch: everybody gains its weight, the selected endpoint, which had the most, pays the sum.\<close>

lemma wrr_dispatch:
  assumes "balanceEndpoints (grAbs r) status = es" "es \<noteq> []" "distinct es" "\<forall>x \<in> set es. x < length st"
  shows "\<exists>s st'. weightRoundRobinDispatch status r st = Ok (s, st') \<and> s \<in> set es \<and> length st' = length st \<and>
    (\<forall>x < length st. st' ! x = (st ! x)\<lparr>seCurr := seCurr (st ! x) + (if x \<in> set es then seWeight (st ! x) else 0) -
       (if x = s then \<Sum>y\<leftarrow>es. seWeight (st ! y) else 0)\<rparr>) \<and>
    (\<forall>x \<in> set es. seCurr (st ! x) + seWeight (st ! x) \<le> seCurr (st ! s) + seWeight (st ! s))"
proof -
  obtain sel tot st1 where scan: "wrr_scan es None 0 st = (sel, tot, st1)" by (cases "wrr_scan es None 0 st") auto
  note spec = wrr_scan_spec [OF scan assms(3,4)]
  obtain s where s: "sel = Some s" "s \<in> set es" using spec assms(2) by (auto split: option.splits)
  have "weightRoundRobinDispatch status r st = Ok (s, st1[s := (st1 ! s)\<lparr>seCurr := seCurr (st1 ! s) - tot\<rparr>])"
    using assms(1,2) scan s(1) by (simp add: weightRoundRobinDispatch_def)
  moreover have "\<forall>x \<in> set es. seCurr (st ! x) + seWeight (st ! x) \<le> seCurr (st ! s) + seWeight (st ! s)"
    using spec s assms(4) by auto
  ultimately show ?thesis
    using spec s assms(4) by (auto simp: nth_list_update intro!: exI)
qed

primrec wrr_run :: "nat \<Rightarrow> string \<Rightarrow> GameRoute \<Rightarrow> se_store \<Rightarrow> (nat list \<times> se_store) go" where
  "wrr_run 0 status r st = Ok ([], st)"
| "wrr_run (Suc k) status r st =
     go_bind (wrr_run k status r st) (\<lambda>(picks, st).
     go_map (\<lambda>(s, st). (picks @ [s], st)) (weightRoundRobinDispatch status r st))"

lemma sum_count_list: "distinct es \<Longrightarrow> set picks \<subseteq> set es \<Longrightarrow> (\<Sum>x\<leftarrow>es. int (count_list picks x)) = int (length picks)"
proof (induction picks)
  case (Cons p picks)
  have "(\<Sum>x\<leftarrow>es. int (count_list (p # picks) x)) = (\<Sum>x\<leftarrow>es. (if x = p then 1 else 0) + int (count_list picks x))"
    by (intro arg_cong [of _ _ sum_list] map_cong) auto
  also have "\<dots> = (\<Sum>x\<in>set es. if x = p then 1 else 0) + int (length picks)"
    using Cons by (simp add: sum_list_addf sum_list_distinct_conv_sum_set)
  finally show ?case using Cons.prems by simp
qed simp

lemma wrr_balance:
  assumes "distinct es" "set picks \<subseteq> set es" "length picks = k" "W = (\<Sum>y\<leftarrow>es. w y)"
  shows "(\<Sum>x\<leftarrow>es. int k * w x - W * int (count_list picks x)) = 0"
proof -
  have "(\<Sum>x\<leftarrow>es. int k * w x - W * int (count_list picks x)) =
    int k * (\<Sum>x\<leftarrow>es. w x) - W * (\<Sum>x\<leftarrow>es. int (count_list picks x))"
    by (simp add: sum_list_subtractf sum_list_const_mult)
  then show ?thesis using sum_count_list [OF assms(1,2)] assms(3,4) by simp
qed

text \<open>After \<open>k\<close> dispatches from equal current weights: each endpoint has gained \<open>k\<close> times its weight
  and paid the sum for each time it was picked, and is never more than one sum behind.\<close>

lemma wrr_run_inv:
  assumes es: "balanceEndpoints (grAbs r) status = es" "distinct es" "\<forall>x \<in> set es. x < length st"
    and W: "W = (\<Sum>y\<leftarrow>es. seWeight (st ! y))" "0 < W"
    and zero: "\<forall>x \<in> set es. 0 \<le> seWeight (st ! x) \<and> seCurr (st ! x) = 0"
  shows "\<exists>picks st'. wrr_run k status r st = Ok (picks, st') \<and> length picks = k \<and> set picks \<subseteq> set es \<and>
    length st' = length st \<and>
    (\<forall>x < length st. st' ! x = (st ! x)\<lparr>seCurr := seCurr (st ! x) +
       (if x \<in> set es then int k * seWeight (st ! x) - W * int (count_list picks x) else 0)\<rparr>) \<and>
    (\<forall>x \<in> set es. - W < seCurr (st' ! x) \<or> count_list picks x = 0)"
proof (induction k)
  case 0
  then show ?case by auto
next
  case (Suc k)
  then obtain picks st1 where IH: "wrr_run k status r st = Ok (picks, st1)" "length picks = k" "set picks \<subseteq> set es"
    "length st1 = length st" and nth': "\<forall>x < length st. st1 ! x = (st ! x)\<lparr>seCurr := seCurr (st ! x) +
       (if x \<in> set es then int k * seWeight (st ! x) - W * int (count_list picks x) else 0)\<rparr>"
    and low: "\<forall>x \<in> set es. - W < seCurr (st1 ! x) \<or> count_list picks x = 0"
    by (elim exE conjE) (rule that; assumption)
  note nth = nth' [rule_format]
  have w: "seWeight (st1 ! x) = seWeight (st ! x)" if "x \<in> set es" for x using nth [of x] es(3) that by auto
  have ne: "es \<noteq> []" using W by auto
  have valid: "\<forall>x \<in> set es. x < length st1" using es(3) IH(4) by simp
  have sum: "(\<Sum>y\<leftarrow>es. seWeight (st1 ! y)) = W"
    unfolding W(1) by (intro arg_cong [of _ _ sum_list] map_cong) (auto simp: w)
  obtain s st2 where d: "weightRoundRobinDispatch status r st1 = Ok (s, st2)" "s \<in> set es" "length st2 = length st1"
    and nth2: "\<forall>x < length st1. st2 ! x = (st1 ! x)\<lparr>seCurr := seCurr (st1 ! x) +
       (if x \<in> set es then seWeight (st1 ! x) else 0) - (if x = s then W else 0)\<rparr>"
    and mx: "\<forall>x \<in> set es. seCurr (st1 ! x) + seWeight (st1 ! x) \<le> seCurr (st1 ! s) + seWeight (st1 ! s)"
    using wrr_dispatch [OF es(1) ne es(2) valid, unfolded sum] by (elim exE conjE) (rule that; assumption)
  have curr1: "seCurr (st1 ! x) = int k * seWeight (st ! x) - W * int (count_list picks x)" if "x \<in> set es" for x
    using nth [of x] zero es(3) that by auto
  have top: "0 < seCurr (st1 ! s) + seWeight (st1 ! s)"
  proof (rule ccontr)
    assume "\<not> ?thesis"
    then have "(\<Sum>x\<leftarrow>es. seCurr (st1 ! x) + seWeight (st1 ! x)) \<le> (\<Sum>x\<leftarrow>es. 0)"
      using mx by (intro sum_list_mono) force
    moreover have "(\<Sum>x\<leftarrow>es. seCurr (st1 ! x) + seWeight (st1 ! x)) = W"
      using wrr_balance [OF es(2) IH(3,2) W(1)] curr1 sum by (simp add: sum_list_addf cong: map_cong)
    ultimately show False using W(2) by simp
  qed
  show ?case
    using IH d nth nth2 es(3) low top w W(2) zero
    by (intro exI [of _ "picks @ [s]"] exI [of _ st2])
       (auto simp: algebra_simps curr1, force)
qed

section \<open>Round robin\<close>

primrec rr_run :: "nat \<Rightarrow> string \<Rightarrow> GameRoute \<Rightarrow> (nat list \<times> GameRoute) go" where
  "rr_run 0 status r = Ok ([], r)"
| "rr_run (Suc k) status r =
     go_bind (rr_run k status r) (\<lambda>(picks, r).
     go_map (\<lambda>(s, r). (picks @ [s], r)) (roundRobinDispatch status r))"

lemma rr_run_picks:
  assumes "balanceEndpoints (grAbs r) status = es" "es \<noteq> []" "unat (grCounter r) + k < 2 ^ 64"
  shows "rr_run k status r = Ok (map (\<lambda>j. es ! ((unat (grCounter r) + 1 + j) mod length es)) [0..<k],
    r\<lparr>grCounter := grCounter r + of_nat k\<rparr>)"
  using assms(3)
proof (induction k)
  case (Suc k)
  have "unat (grCounter r + of_nat k + 1) = unat (grCounter r) + 1 + k"
    using Suc.prems by (simp add: unat_word_ariths unsigned_of_nat take_bit_eq_mod mod_simps)
  then show ?case using Suc assms(1,2) by (simp add: roundRobinDispatch_def Let_def add_ac)
qed simp

lemma mod_shift_inj:
  fixes c i j n :: nat
  assumes "(c + i) mod n = (c + j) mod n" "i < n" "j < n" shows "i = j"
proof -
  have *: "i = j" if "(c + i) mod n = (c + j) mod n" "i < n" "j < n" "j \<le> i" for i j :: nat
  proof -
    have "c + j \<le> c + i" using that(4) by simp
    with that(1) obtain q where "c + i = c + j + n * q" by (rule mod_eq_nat1E)
    then show ?thesis using that(2) by (cases q) auto
  qed
  show ?thesis using * [of i j] * [of j i] assms by (cases "j \<le> i") auto
qed

section \<open>What a replacement builds\<close>

text \<open>The balanced endpoints of a table by status and state.\<close>

definition eps_list :: "abstract \<Rightarrow> string \<Rightarrow> string \<Rightarrow> nat list" where
  "eps_list a st state =
     (if st = ServiceStatusTest then (if state = ''work'' then endpoints6 a else endpoints7 a)
      else if st = ServiceStatusGray then (if state = ''work'' then endpoints8 a else endpoints9 a)
      else (if state = ''work'' then endpoints1 a else endpoints2 a))"

abbreviation active :: "string \<Rightarrow> bool" where
  "active state \<equiv> state = ''work'' \<or> state = ''busy''"

abbreviation a_status :: "string \<Rightarrow> bool" where
  "a_status st \<equiv> st = ServiceStatusTest \<or> st = ServiceStatusGray \<or> st = ServiceStatusNormal"

lemma eps_list_add:
  assumes "active state" "a_status st" "a_status (seStatus se)"
  shows "eps_list (addServiceEndpoint se ref balance a) st state =
    eps_list a st state @ (if balance \<and> seStatus se = st \<and> seState se = state then [ref] else [])"
  using assms by (auto simp: addServiceEndpoint_def eps_list_def Let_def)

lemma eps_list_new [simp]: "eps_list newAbstract st state = []"
  by (simp add: eps_list_def newAbstract_def)

lemma a_status_of [simp]: "a_status (ServiceStatusOf i)"
  by (auto simp: ServiceStatusOf_def ParseServiceStatus_def split: option.splits)

definition route_list :: "Dispatcher \<Rightarrow> int32 \<Rightarrow> string \<Rightarrow> string \<Rightarrow> nat list" where
  "route_list d g st state = (case map_of (dRoutes d) g of None \<Rightarrow> [] | Some r \<Rightarrow> eps_list (grAbs r) st state)"

definition somes :: "'a option list \<Rightarrow> 'a list" where
  "somes xs = List.map_filter (\<lambda>x. x) xs"

lemma somes_simps [simp]:
  "somes [] = []" "somes (xs @ ys) = somes xs @ somes ys" "somes [Some x] = [x]" "somes [None] = []"
  "x \<in> set (somes xs) \<longleftrightarrow> Some x \<in> set xs"
  by (auto simp: somes_def List.map_filter_def image_iff)

text \<open>The instances that belong into the list of a game, status and state.\<close>

definition eligible ::
    "(string \<Rightarrow> url option) \<Rightarrow> ServiceInstance option list \<Rightarrow> int32 \<Rightarrow> string \<Rightarrow> string \<Rightarrow> ServiceInstance \<Rightarrow> bool" where
  "eligible parse services g st state i \<longleftrightarrow>
     ParseEndpoint parse (siEndpoint i) \<noteq> None \<and> siGameID i = g \<and> ServiceStatusOf (Some i) = st \<and>
     siState i = state \<and> balanced services i"

definition replace_inv ::
    "(string \<Rightarrow> url option) \<Rightarrow> ServiceInstance option list \<Rightarrow> ServiceInstance option list \<Rightarrow> Dispatcher \<Rightarrow> bool" where
  "replace_inv parse services xs d \<longleftrightarrow> (\<forall>g st state. active state \<longrightarrow> a_status st \<longrightarrow>
     (\<forall>r \<in> set (route_list d g st state). r < length (dStore d)) \<and> distinct (route_list d g st state) \<and>
     map (\<lambda>r. seInsID (dStore d ! r)) (route_list d g st state) =
       map siID (filter (eligible parse services g st state) (somes xs)))"

lemma replace_step_inv:
  assumes "replace_inv parse services xs d" "replace_step parse services x d = Ok d'"
  shows "replace_inv parse services (xs @ [x]) d'"
proof (cases x)
  case None
  then show ?thesis using assms(2) by (simp add: replace_step_def)
next
  case (Some i)
  show ?thesis
  proof (cases "ParseEndpoint parse (siEndpoint i)")
    case None
    then show ?thesis using assms Some by (auto simp: replace_step_def replace_inv_def eligible_def)
  next
    case ep: (Some ep)
    let ?new = "\<lambda>g st state. eligible parse services g st state i"
    define se where "se = \<lparr>seInsID = siID i, seState = siState i, seStatus = ServiceStatusOf (Some i),
      seEndpoint = ep, seWeight = siWeight i, seCurr = 0\<rparr>"
    define r0 where "r0 = (case map_of (dRoutes d) (siGameID i) of
      None \<Rightarrow> newRoute_001 (siAlias i) (siGameID i) | Some r \<Rightarrow> r)"
    have d': "dStore d' = dStore d @ [se]" "dRoutes d' = AList.update (siGameID i)
        (r0\<lparr>grAbs := addServiceEndpoint se (length (dStore d)) (balanced services i) (grAbs r0)\<rparr>) (dRoutes d)"
      using assms(2) Some ep by (auto simp: replace_step_def Let_def se_def r0_def)
    have r0: "eps_list (grAbs r0) st state = route_list d (siGameID i) st state" for st state
      by (simp add: r0_def route_list_def newRoute_001_def split: option.splits)
    have se: "seInsID se = siID i" "seStatus se = ServiceStatusOf (Some i)" "seState se = siState i"
      by (simp_all add: se_def)
    note store = d'(1)
    have lists: "route_list d' g st state =
        route_list d g st state @ (if ?new g st state then [length (dStore d)] else [])"
      if "active state" "a_status st" for g st state
    proof (cases "g = siGameID i")
      case True
      have "route_list d' g st state =
          eps_list (addServiceEndpoint se (length (dStore d)) (balanced services i) (grAbs r0)) st state"
        by (simp add: route_list_def d'(2) update_conv' True)
      then show ?thesis using eps_list_add [OF that, of se] by (simp add: r0 se True eligible_def ep)
    next
      case False
      then show ?thesis by (simp add: route_list_def d'(2) update_conv' eligible_def)
    qed
    show ?thesis unfolding replace_inv_def
    proof (intro allI impI)
      fix g st state assume a: "active state" "a_status st"
      let ?l = "route_list d g st state"
      have old: "\<forall>r \<in> set ?l. r < length (dStore d)" "distinct ?l" "map (\<lambda>r. seInsID (dStore d ! r)) ?l =
          map siID (filter (eligible parse services g st state) (somes xs))"
        using assms(1) a unfolding replace_inv_def by blast+
      have "map (\<lambda>r. seInsID (dStore d' ! r)) ?l = map (\<lambda>r. seInsID (dStore d ! r)) ?l"
        using old(1) by (intro map_cong) (auto simp: store nth_append)
      then show "(\<forall>r \<in> set (route_list d' g st state). r < length (dStore d')) \<and> distinct (route_list d' g st state) \<and>
        map (\<lambda>r. seInsID (dStore d' ! r)) (route_list d' g st state) =
        map siID (filter (eligible parse services g st state) (somes (xs @ [x])))"
        using old Some se(1) unfolding lists [OF a] store by (auto simp: less_SucI)
    qed
  qed
qed

lemma ReplaceServices_inv:
  assumes "ReplaceServices parse services d = Ok d'"
  shows "replace_inv parse services services d'"
proof -
  have "replace_inv parse services xs d'"
    if "go_foreach (replace_step parse services) xs (NewDispatcher (dDispatch d)) = Ok d'" for xs d'
    using that
  proof (induction xs arbitrary: d' rule: rev_induct)
    case Nil
    then show ?case by (auto simp: replace_inv_def route_list_def NewDispatcher_def)
  next
    case (snoc x xs)
    then show ?case by (auto simp: go_foreach_append go_bind_eq_Ok intro: replace_step_inv)
  qed
  then show ?thesis using assms by (simp add: ReplaceServices_def)
qed

section \<open>What a selection returns\<close>

text \<open>The balancing list is the first non-empty one, by preferred status and then work before busy.\<close>

lemma balance_loop_cases:
  "balance_loop a ps = [] \<and> (\<forall>p \<in> set ps. \<forall>state. active state \<longrightarrow> eps_list a p state = []) \<or>
   balance_loop a ps \<noteq> [] \<and> (\<exists>p \<in> set ps. \<exists>state. active state \<and> balance_loop a ps = eps_list a p state)"
proof (induction ps)
  case (Cons p ps)
  show ?case
  proof (cases "eps_list a p ''work'' = [] \<and> eps_list a p ''busy'' = []")
    case True
    then have "balance_loop a (p # ps) = balance_loop a ps" by (simp add: eps_list_def split: if_splits)
    with Cons True show ?thesis by auto
  next
    case False
    then have "balance_loop a (p # ps) = (if eps_list a p ''work'' \<noteq> [] then eps_list a p ''work'' else eps_list a p ''busy'')"
      by (auto simp: eps_list_def)
    with False show ?thesis by (auto split: if_splits)
  qed
qed simp

lemma Preferred_a_status: "p \<in> set (PreferredServiceStatuses s) \<Longrightarrow> a_status p"
  by (auto simp: PreferredServiceStatuses_def Let_def split: if_splits)

text \<open>Whatever the policy, a dispatch succeeds exactly when there is a candidate and returns one.\<close>

lemma dispatch_picks:
  assumes "\<And>n. 0 < n \<Longrightarrow> rnd n < n" "balanceEndpoints (grAbs r) status = es" "distinct es" "\<forall>x \<in> set es. x < length st"
  shows "case findServiceEndpointForServiceStatus rnd disp status [] r st of
      Ok (s, r', st') \<Rightarrow> s \<in> set es \<and> seInsID (st' ! s) = seInsID (st ! s) \<and> grGroup r' = grGroup r
    | Err e \<Rightarrow> es = [] \<and> e = ErrNotFoundEndpoint
    | Panic \<Rightarrow> False"
proof (cases "es = []")
  case True
  then show ?thesis
    by (simp add: findServiceEndpointForServiceStatus_def roundRobinDispatch_def weightRoundRobinDispatch_def
        randomDispatch_def assms(2))
next
  case False
  obtain s st' where w: "weightRoundRobinDispatch status r st = Ok (s, st')" "s \<in> set es"
      "\<forall>x < length st. st' ! x = (st ! x)\<lparr>seCurr := seCurr (st ! x) + (if x \<in> set es then seWeight (st ! x) else 0) -
       (if x = s then \<Sum>y\<leftarrow>es. seWeight (st ! y) else 0)\<rparr>"
    using wrr_dispatch [OF assms(2) False assms(3,4)] by (elim exE conjE) (rule that; assumption)
  have "seInsID (st' ! s) = seInsID (st ! s)" using w(2,3) assms(4) by simp
  moreover have "unat c mod length es < length es" for c :: uint64 using False by simp
  ultimately show ?thesis
    using False w(1,2) assms(1) [of "length es"]
    by (auto simp: findServiceEndpointForServiceStatus_def roundRobinDispatch_def randomDispatch_def assms(2) Let_def)
qed

text \<open>After a replacement, the lists hold the eligible instances.\<close>

lemma route_list_eligible:
  assumes "ReplaceServices parse services d0 = Ok d" "active state" "a_status st"
  shows "\<forall>r \<in> set (route_list d g st state). r < length (dStore d)" "distinct (route_list d g st state)"
    and "Some i \<in> set services \<Longrightarrow> route_list d g st state = [] \<Longrightarrow> \<not> eligible parse services g st state i"
    and "r \<in> set (route_list d g st state) \<Longrightarrow>
      \<exists>i. Some i \<in> set services \<and> eligible parse services g st state i \<and> siID i = seInsID (dStore d ! r)"
proof -
  note inv = ReplaceServices_inv [OF assms(1), unfolded replace_inv_def, rule_format, OF assms(2,3), of g]
  show "\<forall>r \<in> set (route_list d g st state). r < length (dStore d)" "distinct (route_list d g st state)"
    using inv by blast+
  have ids: "map (\<lambda>r. seInsID (dStore d ! r)) (route_list d g st state) =
      map siID (filter (eligible parse services g st state) (somes services))" using inv by blast
  show "\<not> eligible parse services g st state i" if "Some i \<in> set services" "route_list d g st state = []"
    using ids that by (auto simp: filter_empty_conv)
  show "\<exists>i. Some i \<in> set services \<and> eligible parse services g st state i \<and> siID i = seInsID (dStore d ! r)"
    if "r \<in> set (route_list d g st state)"
  proof -
    have "seInsID (dStore d ! r) \<in> set (map siID (filter (eligible parse services g st state) (somes services)))"
      unfolding ids [symmetric] using that by simp
    then show ?thesis by auto
  qed
qed

lemma balance_eligible:
  assumes "ReplaceServices parse services d0 = Ok d" "map_of (dRoutes d) g = Some r"
  shows "distinct (balanceEndpoints (grAbs r) status)" "\<forall>x \<in> set (balanceEndpoints (grAbs r) status). x < length (dStore d)"
    and "s \<in> set (balanceEndpoints (grAbs r) status) \<Longrightarrow> \<exists>i p state. Some i \<in> set services \<and> active state \<and>
      p \<in> set (PreferredServiceStatuses status) \<and> eligible parse services g p state i \<and> siID i = seInsID (dStore d ! s)"
    and "balanceEndpoints (grAbs r) status = [] \<Longrightarrow> \<not> (\<exists>i st state. Some i \<in> set services \<and> active state \<and>
      st \<in> set (PreferredServiceStatuses status) \<and> eligible parse services g st state i)"
proof -
  let ?es = "balanceEndpoints (grAbs r) status"
  note cases = balance_loop_cases [of "grAbs r" "PreferredServiceStatuses status", folded balanceEndpoints_def]
  note el = route_list_eligible [OF assms(1), where g = g, unfolded route_list_def assms(2) option.case]
  have "distinct ?es \<and> (\<forall>x \<in> set ?es. x < length (dStore d))"
  proof (cases "?es = []")
    case False
    then obtain p state where p: "p \<in> set (PreferredServiceStatuses status)" "active state" "?es = eps_list (grAbs r) p state"
      using cases by force
    show ?thesis
      unfolding p(3) using el(1,2) [OF p(2) Preferred_a_status [OF p(1)]] by (rule conjI [rotated])
  qed simp
  then show "distinct ?es" "\<forall>x \<in> set ?es. x < length (dStore d)" by simp_all
  show "\<exists>i p state. Some i \<in> set services \<and> active state \<and> p \<in> set (PreferredServiceStatuses status) \<and>
      eligible parse services g p state i \<and> siID i = seInsID (dStore d ! s)" if "s \<in> set ?es"
  proof -
    have "?es \<noteq> []" using that by auto
    then obtain p state where p: "p \<in> set (PreferredServiceStatuses status)" "active state" "?es = eps_list (grAbs r) p state"
      using cases by force
    then show ?thesis using el(4) [OF p(2) Preferred_a_status [OF p(1)], of s] that by auto
  qed
  show "\<not> (\<exists>i st state. Some i \<in> set services \<and> active state \<and> st \<in> set (PreferredServiceStatuses status) \<and>
      eligible parse services g st state i)" if "?es = []"
  proof (intro notI, elim exE conjE)
    fix i st state assume i: "Some i \<in> set services" "active state" "st \<in> set (PreferredServiceStatuses status)"
      "eligible parse services g st state i"
    then have "eps_list (grAbs r) st state = []" using cases that by blast
    then show False using el(3) [OF i(2) Preferred_a_status [OF i(3)] i(1)] i(4) by blast
  qed
qed

lemma balanced_newest:
  assumes "balanced services i" "siKind i = ''node''" "Some i \<in> set services"
    and "Some j \<in> set services" "siKind j = ''node''" "siGameID j = siGameID i" "ServiceStatusOf (Some j) = ServiceStatusOf (Some i)"
  shows "0 \<le> CompareVersion (siVersion i) (siVersion j)"
proof -
  let ?S = "group_versions (status_group (siGameID i) (ServiceStatusOf (Some i))) services"
  have n: "newest ?S (status_version (MaxVersionForGameByServiceStatus services) (siGameID i) (ServiceStatusOf (Some i)))"
    by (rule MaxVersionForGameByServiceStatus_newest)
  have "siVersion i \<in> ?S" "siVersion j \<in> ?S" using assms by (auto simp: group_versions_def)
  then obtain v where v: "status_version (MaxVersionForGameByServiceStatus services) (siGameID i) (ServiceStatusOf (Some i)) = Some v"
      "0 \<le> CompareVersion v (siVersion j)"
    using n by (auto simp: newest_def version.greatest_def split: option.splits)
  then have "0 \<le> CompareVersion (siVersion i) v"
    using assms(1,2) by (auto simp: balanced_def status_version_def IsLatestVersion_def split: option.splits)
  then show ?thesis using version.trans [OF v(2)] by simp
qed

text \<open>Small tables for the examples.\<close>

definition sample_route :: "nat list \<Rightarrow> GameRoute" where
  "sample_route es = (newRoute_001 [] 1)\<lparr>grAbs := newAbstract\<lparr>endpoints1 := es\<rparr>\<rparr>"

definition sample_store :: "int list \<Rightarrow> se_store" where
  "sample_store ws = map (\<lambda>w. \<lparr>seInsID = [], seState = ''work'', seStatus = ''normal'',
     seEndpoint = NewEndpoint [] [] False, seWeight = w, seCurr = 0\<rparr>) ws"

definition sample_service :: ServiceInstance where
  "sample_service = \<lparr>siID = ''n1'', siName = [], siKind = ''node'', siAlias = ''lobby'', siState = ''work'',
     siEvents = [], siRoutes = [], siServices = [], siEndpoint = [], siWeight = 1, siGameID = 1,
     siVersion = ''1.0'', siMetadata = []\<rparr>"

lemma sample_balance: "es \<noteq> [] \<Longrightarrow> balanceEndpoints (grAbs (sample_route es)) ''normal'' = es"
  by (simp add: sample_route_def balanceEndpoints_def PreferredServiceStatuses_def ParseServiceStatus_def)

section \<open>Properties\<close>

text \<open>C30. Weighted round robin is exactly proportional: from fresh current weights, any run of as many
  dispatches as the weights sum to picks each endpoint precisely as often as its weight says, and
  ends in the state it started from.\<close>

theorem weighted_round_robin_fair:
  assumes "balanceEndpoints (grAbs r) status = es" "distinct es" "\<forall>x \<in> set es. x < length st"
    and "\<forall>x \<in> set es. 0 \<le> seWeight (st ! x) \<and> seCurr (st ! x) = 0"
    and "W = (\<Sum>x\<leftarrow>es. seWeight (st ! x))" "0 < W"
  shows "\<exists>picks. wrr_run (nat W) status r st = Ok (picks, st) \<and>
    (\<forall>x \<in> set es. int (count_list picks x) = seWeight (st ! x))"
proof -
  obtain picks st' where run: "wrr_run (nat W) status r st = Ok (picks, st')" "length picks = nat W" "set picks \<subseteq> set es"
    "length st' = length st" and nth': "\<forall>x < length st. st' ! x = (st ! x)\<lparr>seCurr := seCurr (st ! x) +
       (if x \<in> set es then int (nat W) * seWeight (st ! x) - W * int (count_list picks x) else 0)\<rparr>"
    and low: "\<forall>x \<in> set es. - W < seCurr (st' ! x) \<or> count_list picks x = 0"
    using wrr_run_inv [OF assms(1-3,5,6,4), of "nat W"] by (elim exE conjE) (rule that; assumption)
  have curr: "seCurr (st' ! x) = W * (seWeight (st ! x) - int (count_list picks x))" if "x \<in> set es" for x
    using nth' assms(3,4,6) that by (auto simp: algebra_simps)
  have le: "int (count_list picks x) \<le> seWeight (st ! x)" if x: "x \<in> set es" for x
  proof (cases "count_list picks x = 0")
    case True
    then show ?thesis using assms(4) x by simp
  next
    case False
    then have "W * (- 1) < W * (seWeight (st ! x) - int (count_list picks x))" using low curr x by force
    then have "- 1 < seWeight (st ! x) - int (count_list picks x)"
      using assms(6) by (simp only: mult_less_cancel_left_pos)
    then show ?thesis by simp
  qed
  have "(\<Sum>x\<leftarrow>es. int (count_list picks x)) = (\<Sum>x\<leftarrow>es. seWeight (st ! x))"
    using sum_count_list [OF assms(2) run(3)] run(2) assms(5,6) by simp
  then have "(\<Sum>x\<in>set es. int (count_list picks x)) = (\<Sum>x\<in>set es. seWeight (st ! x))"
    using assms(2) by (simp add: sum_list_distinct_conv_sum_set)
  then have eq: "\<forall>x \<in> set es. int (count_list picks x) = seWeight (st ! x)"
    using le by (meson finite_set order.antisym sum_mono_inv)
  moreover have "st' = st"
    using nth' run(4) eq assms(6) by (intro nth_equalityI) auto
  ultimately show ?thesis using run(1) by blast
qed

theorem weighted_round_robin_fair_witness:
  "\<exists>picks. wrr_run 4 ''normal'' (sample_route [0, 1]) (sample_store [3, 1]) = Ok (picks, sample_store [3, 1]) \<and>
    int (count_list picks 0) = 3 \<and> int (count_list picks 1) = 1"
  using weighted_round_robin_fair [of "sample_route [0, 1]" "''normal''" "[0, 1]" "sample_store [3, 1]" 4]
  by (simp add: sample_balance sample_store_def nth_Cons')

text \<open>Round robin is fair: as long as its 64-bit counter does not wrap, any run of as many dispatches as
  there are endpoints picks each of them exactly once.\<close>

theorem round_robin_fair:
  assumes "balanceEndpoints (grAbs r) status = es" "es \<noteq> []" "unat (grCounter r) + length es < 2 ^ 64"
  shows "\<exists>picks r'. rr_run (length es) status r = Ok (picks, r') \<and> mset picks = mset es"
proof -
  let ?n = "length es" let ?c = "unat (grCounter r) + 1"
  have inj: "inj_on (\<lambda>j. (?c + j) mod ?n) {0..<?n}"
    by (rule inj_onI, rule mod_shift_inj [of ?c _ ?n]) simp_all
  then have "(\<lambda>j. (?c + j) mod ?n) ` {0..<?n} = {0..<?n}"
    by (rule endo_inj_surj [rotated 2]) (use assms(2) in auto)
  then have "mset (map (\<lambda>j. (?c + j) mod ?n) [0..<?n]) = mset [0..<?n]"
    using inj by (intro set_eq_iff_mset_eq_distinct [THEN iffD1]) (simp_all add: distinct_map)
  then have "mset (map ((!) es) (map (\<lambda>j. (?c + j) mod ?n) [0..<?n])) = mset (map ((!) es) [0..<?n])"
    by (simp only: mset_map)
  then have "mset (map (\<lambda>j. es ! ((?c + j) mod ?n)) [0..<?n]) = mset es"
    by (simp add: map_nth o_def)
  then show ?thesis using rr_run_picks [OF assms(1,2), of ?n] assms(3) by auto
qed

theorem round_robin_fair_witness:
  "\<exists>picks r'. rr_run 2 ''normal'' (sample_route [7, 8]) = Ok (picks, r') \<and> mset picks = mset [7, 8]"
proof -
  have "unat (grCounter (sample_route [7, 8])) + length [7, 8 :: nat] < 2 ^ 64"
    by (simp add: sample_route_def newRoute_001_def)
  from round_robin_fair [OF sample_balance _ this] show ?thesis
    by (simp add: numeral_2_eq_2 del: rr_run.simps)
qed

lemma SelectGameNode_spec:
  assumes "ReplaceServices parse services d0 = Ok d" "\<And>n. 0 < n \<Longrightarrow> rnd n < n"
  shows "case SelectGameNode rnd g status d of
      Ok ((grp, nid), d') \<Rightarrow> (\<exists>i. Some i \<in> set services \<and> siID i = nid \<and> siGameID i = g \<and> active (siState i) \<and>
        ServiceStatusOf (Some i) \<in> set (PreferredServiceStatuses status) \<and>
        (siKind i = ''node'' \<longrightarrow> (\<forall>j. Some j \<in> set services \<and> siKind j = ''node'' \<and> siGameID j = g \<and>
           ServiceStatusOf (Some j) = ServiceStatusOf (Some i) \<longrightarrow> 0 \<le> CompareVersion (siVersion i) (siVersion j))))
    | Err e \<Rightarrow> \<not> (\<exists>i st state. Some i \<in> set services \<and> active state \<and> st \<in> set (PreferredServiceStatuses status) \<and>
        eligible parse services g st state i)
    | Panic \<Rightarrow> False"
proof (cases "map_of (dRoutes d) g")
  case None
  then have "\<not> eligible parse services g st state i" if "active state" "a_status st" "Some i \<in> set services" for st state i
    using route_list_eligible(3) [OF assms(1) that, where g = g] by (simp add: route_list_def)
  then show ?thesis
    using None Preferred_a_status [of _ status] by (auto simp: SelectGameNode_def FindGameRoute_def)
next
  case (Some r)
  have rl: "route_list d g st state = eps_list (grAbs r) st state" for st state
    by (simp add: route_list_def Some)
  note es = balance_eligible [OF assms(1) Some, where status = status]
  note pick = dispatch_picks [OF assms(2) refl es(1,2), where disp = "dDispatch d"]
  show ?thesis
  proof (cases "findServiceEndpointForServiceStatus rnd (dDispatch d) status [] r (dStore d)")
    case (Ok x)
    obtain s r' st' where x: "x = (s, r', st')" by (cases x)
    with pick Ok have s: "s \<in> set (balanceEndpoints (grAbs r) status)" "seInsID (st' ! s) = seInsID (dStore d ! s)" by auto
    then obtain i p state where "Some i \<in> set services" "active state" "p \<in> set (PreferredServiceStatuses status)"
        "eligible parse services g p state i" "siID i = seInsID (st' ! s)"
      using es(3) [OF s(1)] by auto
    then show ?thesis
      using Some Ok x balanced_newest [of services i]
      by (auto simp: SelectGameNode_def FindGameRoute_def eligible_def intro!: exI [of _ i])
  next
    case (Err e)
    then have "balanceEndpoints (grAbs r) status = []" using pick by simp
    then show ?thesis using Some Err es(4) by (auto simp: SelectGameNode_def FindGameRoute_def)
  qed (use pick in simp)
qed



text \<open>The event table forgets gray and test nodes: adding a balanced instance with one of these
  statuses that works or is busy does not change what an event visit reaches.\<close>

theorem event_visit_misses:
  assumes "seStatus se = ServiceStatusTest \<or> seStatus se = ServiceStatusGray" "active (seState se)"
  shows "Event_VisitEndpoints (e\<lparr>evAbs := addServiceEndpoint se ref True (evAbs e)\<rparr>) = Event_VisitEndpoints e"
  using assms by (auto simp: addServiceEndpoint_def Event_VisitEndpoints_def Let_def)

theorem event_visit_misses_witness:
  "Event_VisitEndpoints ((newEvent 1)\<lparr>evAbs := addServiceEndpoint
     ((sample_store [1] ! 0)\<lparr>seStatus := ''gray''\<rparr>) 0 True (evAbs (newEvent 1))\<rparr>) = []"
  using event_visit_misses [of "(sample_store [1] ! 0)\<lparr>seStatus := ''gray''\<rparr>" 0 "newEvent 1"]
  by (simp add: sample_store_def newEvent_def newAbstract_def Event_VisitEndpoints_def)

end
