(* ===== verification/Session.thy ===== *)
theory Session
  imports Prelude "HOL-Library.AList" "HOL-Library.Sublist"
begin

text \<open>
  \<open>session/session.go\<close>: the table of client connections of a gate, with the binding of users to
  connections and the channel subscriptions.  A \<open>network.Conn\<close> is an index into a heap of
  connection records, so that the two maps and the channels share it as the Go pointers do.
  Go maps are association lists with distinct keys.  Each operation is one critical section of the
  code's lock; what the code does after unlocking (closing a connection, pushing bytes) is
  returned or counted with a function that says which pushes succeed.
\<close>

section \<open>State\<close>

record conn =
  cnID :: int64
  cnUID :: int64
  cnAttrs :: "string list"

record session =
  sHeap :: "conn list"
  sConns :: "(int64 \<times> nat) list"
  sUsers :: "(int64 \<times> nat) list"
  sChannels :: "(string \<times> nat list) list"

abbreviation (input) KConn :: int where "KConn \<equiv> 1"
abbreviation (input) KUser :: int where "KUser \<equiv> 2"

definition channelAttrKey :: "string \<Rightarrow> string" where
  "channelAttrKey channel = ''__session_channel__:'' @ channel"

definition NewSession :: "conn list \<Rightarrow> session" where
  "NewSession heap = \<lparr>sHeap = heap, sConns = [], sUsers = [], sChannels = []\<rparr>"

definition conn_Bind :: "nat \<Rightarrow> int64 \<Rightarrow> session \<Rightarrow> session" where
  "conn_Bind c uid s = s\<lparr>sHeap := (sHeap s)[c := (sHeap s ! c)\<lparr>cnUID := uid\<rparr>]\<rparr>"

definition conn_Unbind :: "nat \<Rightarrow> session \<Rightarrow> session" where
  "conn_Unbind c s = conn_Bind c 0 s"

abbreviation conn_ID :: "session \<Rightarrow> nat \<Rightarrow> int64" where "conn_ID s c \<equiv> cnID (sHeap s ! c)"
abbreviation conn_UID :: "session \<Rightarrow> nat \<Rightarrow> int64" where "conn_UID s c \<equiv> cnUID (sHeap s ! c)"
abbreviation conn_Attrs :: "session \<Rightarrow> nat \<Rightarrow> string list" where "conn_Attrs s c \<equiv> cnAttrs (sHeap s ! c)"

section \<open>Operations\<close>

definition AddConn :: "nat option \<Rightarrow> session \<Rightarrow> session" where
  "AddConn conn s =
     (case conn of
        None \<Rightarrow> s
      | Some c \<Rightarrow>
          let cid = conn_ID s c; uid = conn_UID s c;
              s = s\<lparr>sConns := AList.update cid c (sConns s)\<rparr>
          in if uid = 0 then s
             else let s = (case map_of (sUsers s) uid of
                             Some oldConn \<Rightarrow> if conn_ID s oldConn \<noteq> cid then conn_Unbind oldConn s else s
                           | None \<Rightarrow> s)
                  in s\<lparr>sUsers := AList.update uid c (sUsers s)\<rparr>)"

definition doUnsubscribeLocked :: "string \<Rightarrow> nat \<Rightarrow> session \<Rightarrow> session" where
  "doUnsubscribeLocked channel c s =
     (case map_of (sChannels s) channel of
        None \<Rightarrow> s
      | Some cs \<Rightarrow>
          let cs = removeAll c cs
          in if cs = [] then s\<lparr>sChannels := AList.delete channel (sChannels s)\<rparr>
             else s\<lparr>sChannels := AList.update channel cs (sChannels s)\<rparr>)"

text \<open>The visit of the attributes in \<open>RemConn\<close>: keys with the prefix name channels.\<close>

definition visit_attr :: "nat \<Rightarrow> string \<Rightarrow> session \<Rightarrow> session" where
  "visit_attr c key s =
     (if \<not> prefix ''__session_channel__:'' key then s
      else let channel = drop (length ''__session_channel__:'') key
           in if channel \<noteq> [] then doUnsubscribeLocked channel c s else s)"

definition RemConn :: "nat option \<Rightarrow> session \<Rightarrow> session" where
  "RemConn conn s =
     (case conn of
        None \<Rightarrow> s
      | Some c \<Rightarrow>
          let cid = conn_ID s c; uid = conn_UID s c;
              s = s\<lparr>sConns := AList.delete cid (sConns s)\<rparr>;
              s = (if uid \<noteq> 0
                   then (case map_of (sUsers s) uid of
                           Some curConn \<Rightarrow>
                             if conn_ID s curConn = cid then s\<lparr>sUsers := AList.delete uid (sUsers s)\<rparr> else s
                         | None \<Rightarrow> s)
                   else s)
          in fold (visit_attr c) (conn_Attrs s c) s)"

definition sessionsLocked :: "int \<Rightarrow> session \<Rightarrow> (int64 \<times> nat) list go" where
  "sessionsLocked kind s =
     (if kind = KConn then Ok (sConns s) else if kind = KUser then Ok (sUsers s) else Err ErrInvalidSessionKind)"

definition connLocked :: "int \<Rightarrow> int64 \<Rightarrow> session \<Rightarrow> nat go" where
  "connLocked kind target s =
     go_bind (sessionsLocked kind s) (\<lambda>conns.
       case map_of conns target of None \<Rightarrow> Err ErrNotFoundSession | Some c \<Rightarrow> Ok c)"

definition Session_Has :: "int \<Rightarrow> int64 \<Rightarrow> session \<Rightarrow> bool go" where
  "Session_Has kind target s =
     (if kind = KConn then Ok (map_of (sConns s) target \<noteq> None)
      else if kind = KUser then Ok (map_of (sUsers s) target \<noteq> None)
      else Err ErrInvalidSessionKind)"

text \<open>\<open>Bind\<close> returns the connection that was pushed out and is closed after unlocking.\<close>

definition Session_Bind :: "int64 \<Rightarrow> int64 \<Rightarrow> session \<Rightarrow> (nat option \<times> session) go" where
  "Session_Bind cid uid s =
     go_bind (connLocked KConn cid s) (\<lambda>conn.
       let oldUID = conn_UID s conn
       in if oldUID = uid then Ok (None, s)
          else
            let s = (if oldUID \<noteq> 0
                     then (case map_of (sUsers s) oldUID of
                             Some curConn \<Rightarrow>
                               if conn_ID s curConn = cid then s\<lparr>sUsers := AList.delete oldUID (sUsers s)\<rparr> else s
                           | None \<Rightarrow> s)
                     else s)
            in if uid = 0 then Ok (None, conn_Unbind conn s)
               else
                 (case map_of (sUsers s) uid of
                    Some oldConn \<Rightarrow>
                      if conn_ID s oldConn = cid
                      then let s = conn_Bind conn uid s
                           in Ok (None, s\<lparr>sUsers := AList.update uid conn (sUsers s)\<rparr>)
                      else let s = conn_Bind conn uid (conn_Unbind oldConn s)
                           in Ok (Some oldConn, s\<lparr>sUsers := AList.update uid conn (sUsers s)\<rparr>)
                  | None \<Rightarrow>
                      let s = conn_Bind conn uid s
                      in Ok (None, s\<lparr>sUsers := AList.update uid conn (sUsers s)\<rparr>)))"

definition Session_Unbind :: "int64 \<Rightarrow> int64 \<Rightarrow> session \<Rightarrow> (int64 \<times> session) go" where
  "Session_Unbind cid uid s =
     (if uid = 0 \<or> cid = 0 then Err ErrNotFoundSession
      else
        go_bind (connLocked KConn cid s) (\<lambda>conn.
          if conn_UID s conn \<noteq> uid then Ok (0, s)
          else
            let s = conn_Unbind conn s
            in Ok (cid,
                 case map_of (sUsers s) uid of
                   Some curConn \<Rightarrow> if conn_ID s curConn = cid then s\<lparr>sUsers := AList.delete uid (sUsers s)\<rparr> else s
                 | None \<Rightarrow> s)))"

text \<open>The connection \<open>Close\<close> closes after unlocking, if any.\<close>

definition Session_Close :: "int64 \<Rightarrow> int64 \<Rightarrow> session \<Rightarrow> nat option go" where
  "Session_Close cid uid s =
     (case (case map_of (sConns s) cid of Some c \<Rightarrow> Some c | None \<Rightarrow> map_of (sUsers s) uid) of
        None \<Rightarrow> Err ErrNotFoundSession
      | Some c \<Rightarrow> if conn_UID s c \<noteq> uid then Ok None else Ok (Some c))"

definition snapshotTargets :: "int \<Rightarrow> int64 list \<Rightarrow> session \<Rightarrow> nat list go" where
  "snapshotTargets kind targets s =
     go_map (\<lambda>conns. List.map_filter (map_of conns) targets) (sessionsLocked kind s)"

definition snapshotAll :: "int \<Rightarrow> session \<Rightarrow> nat list go" where
  "snapshotAll kind s = go_map (map snd) (sessionsLocked kind s)"

definition snapshotChannel :: "string \<Rightarrow> session \<Rightarrow> nat list" where
  "snapshotChannel channel s = (case map_of (sChannels s) channel of None \<Rightarrow> [] | Some cs \<Rightarrow> cs)"

text \<open>\<open>push c\<close> says whether pushing the message to \<open>c\<close> returns nil.\<close>

definition Session_Push :: "(nat \<Rightarrow> goerr option) \<Rightarrow> int \<Rightarrow> int64 \<Rightarrow> session \<Rightarrow> goerr option" where
  "Session_Push push kind target s =
     (case connLocked kind target s of Ok c \<Rightarrow> push c | Err e \<Rightarrow> Some e | Panic \<Rightarrow> None)"

definition count_pushes :: "(nat \<Rightarrow> goerr option) \<Rightarrow> nat list \<Rightarrow> nat" where
  "count_pushes push conns = length (filter (\<lambda>c. push c = None) conns)"

definition Session_Multicast :: "(nat \<Rightarrow> goerr option) \<Rightarrow> int \<Rightarrow> int64 list \<Rightarrow> session \<Rightarrow> nat go" where
  "Session_Multicast push kind targets s =
     (if targets = [] then Ok 0 else go_map (count_pushes push) (snapshotTargets kind targets s))"

definition Session_Broadcast :: "(nat \<Rightarrow> goerr option) \<Rightarrow> int \<Rightarrow> session \<Rightarrow> nat go" where
  "Session_Broadcast push kind s = go_map (count_pushes push) (snapshotAll kind s)"

definition Session_Publish :: "(nat \<Rightarrow> goerr option) \<Rightarrow> string \<Rightarrow> session \<Rightarrow> nat" where
  "Session_Publish push channel s = (if channel = [] then 0 else count_pushes push (snapshotChannel channel s))"

definition attr_Set :: "nat \<Rightarrow> string \<Rightarrow> session \<Rightarrow> session" where
  "attr_Set c key s =
     s\<lparr>sHeap := (sHeap s)[c := (sHeap s ! c)\<lparr>cnAttrs := List.insert key (conn_Attrs s c)\<rparr>]\<rparr>"

definition attr_Del :: "nat \<Rightarrow> string \<Rightarrow> session \<Rightarrow> session" where
  "attr_Del c key s =
     s\<lparr>sHeap := (sHeap s)[c := (sHeap s ! c)\<lparr>cnAttrs := removeAll key (conn_Attrs s c)\<rparr>]\<rparr>"

definition subscribe_conn :: "string \<Rightarrow> nat \<Rightarrow> session \<Rightarrow> session" where
  "subscribe_conn channel c s =
     (let s = attr_Set c (channelAttrKey channel) s
      in s\<lparr>sChannels := AList.update channel
             (List.insert c (case map_of (sChannels s) channel of None \<Rightarrow> [] | Some cs \<Rightarrow> cs)) (sChannels s)\<rparr>)"

definition Session_Subscribe :: "int \<Rightarrow> int64 list \<Rightarrow> string \<Rightarrow> session \<Rightarrow> session go" where
  "Session_Subscribe kind targets channel s =
     (if targets = [] \<or> channel = [] then Ok s
      else
        go_map (\<lambda>conns.
          let s = (case map_of (sChannels s) channel of
                     None \<Rightarrow> s\<lparr>sChannels := AList.update channel [] (sChannels s)\<rparr>
                   | Some _ \<Rightarrow> s)
          in fold (\<lambda>target s. case map_of conns target of
                      None \<Rightarrow> s | Some c \<Rightarrow> subscribe_conn channel c s) targets s)
          (sessionsLocked kind s))"

definition unsubscribe_conn :: "string \<Rightarrow> nat \<Rightarrow> session \<Rightarrow> session" where
  "unsubscribe_conn channel c s =
     (if channelAttrKey channel \<in> set (conn_Attrs s c)
      then doUnsubscribeLocked channel c (attr_Del c (channelAttrKey channel) s) else s)"

definition Session_Unsubscribe :: "int \<Rightarrow> int64 list \<Rightarrow> string \<Rightarrow> session \<Rightarrow> session go" where
  "Session_Unsubscribe kind targets channel s =
     (if targets = [] \<or> channel = [] then Ok s
      else
        go_map (\<lambda>conns.
          fold (\<lambda>target s. case map_of conns target of
                   None \<Rightarrow> s | Some c \<Rightarrow> unsubscribe_conn channel c s) targets s)
          (sessionsLocked kind s))"

definition Session_Stat :: "int \<Rightarrow> session \<Rightarrow> nat go" where
  "Session_Stat kind s =
     (if kind = KConn then Ok (length (sConns s))
      else if kind = KUser then Ok (length (sUsers s))
      else Err ErrInvalidSessionKind)"

text \<open>The accessors that forward to the connection; \<open>f\<close> is the connection's method.\<close>

definition Session_LocalIP :: "(nat \<Rightarrow> string go) \<Rightarrow> int \<Rightarrow> int64 \<Rightarrow> session \<Rightarrow> string go" where
  "Session_LocalIP f kind target s = go_bind (connLocked kind target s) f"

definition Session_LocalAddr :: "(nat \<Rightarrow> 'a go) \<Rightarrow> int \<Rightarrow> int64 \<Rightarrow> session \<Rightarrow> 'a go" where
  "Session_LocalAddr f kind target s = go_bind (connLocked kind target s) f"

definition Session_RemoteIP :: "(nat \<Rightarrow> string go) \<Rightarrow> int \<Rightarrow> int64 \<Rightarrow> session \<Rightarrow> string go" where
  "Session_RemoteIP f kind target s = go_bind (connLocked kind target s) f"

definition Session_RemoteAddr :: "(nat \<Rightarrow> 'a go) \<Rightarrow> int \<Rightarrow> int64 \<Rightarrow> session \<Rightarrow> 'a go" where
  "Session_RemoteAddr f kind target s = go_bind (connLocked kind target s) f"

definition Session_Send :: "(nat \<Rightarrow> unit go) \<Rightarrow> int \<Rightarrow> int64 \<Rightarrow> session \<Rightarrow> unit go" where
  "Session_Send send kind target s = go_bind (connLocked kind target s) send"

section \<open>The invariant\<close>

abbreviation conns :: "session \<Rightarrow> int64 \<rightharpoonup> nat" where "conns s \<equiv> map_of (sConns s)"
abbreviation users :: "session \<Rightarrow> int64 \<rightharpoonup> nat" where "users s \<equiv> map_of (sUsers s)"

definition registered :: "session \<Rightarrow> nat \<Rightarrow> bool" where
  "registered s c \<longleftrightarrow> c < length (sHeap s) \<and> conns s (conn_ID s c) = Some c"

text \<open>Connection ids are unique, and a connection is found under its own id.\<close>

definition conns_ok :: "session \<Rightarrow> bool" where
  "conns_ok s \<longleftrightarrow> (\<forall>cid c. conns s cid = Some c \<longrightarrow> c < length (sHeap s) \<and> conn_ID s c = cid) \<and>
     (\<forall>c < length (sHeap s). \<forall>c' < length (sHeap s). conn_ID s c = conn_ID s c' \<longrightarrow> c = c')"

text \<open>The user table is exactly the registered connections that carry a user.\<close>

definition users_ok :: "session \<Rightarrow> bool" where
  "users_ok s \<longleftrightarrow> (\<forall>u c. users s u = Some c \<longleftrightarrow> u \<noteq> 0 \<and> registered s c \<and> conn_UID s c = u)"

text \<open>A channel holds exactly the registered connections whose attributes name it.\<close>

definition chans_ok :: "session \<Rightarrow> bool" where
  "chans_ok s \<longleftrightarrow> (\<forall>ch c. c \<in> set (snapshotChannel ch s) \<longleftrightarrow>
     ch \<noteq> [] \<and> registered s c \<and> channelAttrKey ch \<in> set (conn_Attrs s c))"

definition keys_ok :: "session \<Rightarrow> bool" where
  "keys_ok s \<longleftrightarrow> distinct (map fst (sConns s)) \<and> distinct (map fst (sUsers s)) \<and>
     distinct (map fst (sChannels s)) \<and> (\<forall>ch. distinct (snapshotChannel ch s))"

definition session_ok :: "session \<Rightarrow> bool" where
  "session_ok s \<longleftrightarrow> conns_ok s \<and> users_ok s \<and> chans_ok s \<and> keys_ok s"

lemmas session_ok_defs = session_ok_def conns_ok_def users_ok_def

text \<open>What rebinding a connection changes.\<close>

lemma conn_Bind_simps [simp]:
  "sConns (conn_Bind c u s) = sConns s" "sUsers (conn_Bind c u s) = sUsers s"
  "sChannels (conn_Bind c u s) = sChannels s" "length (sHeap (conn_Bind c u s)) = length (sHeap s)"
  by (simp_all add: conn_Bind_def)

lemma conn_Bind_heap [simp]:
  "conn_ID (conn_Bind c u s) x = conn_ID s x" "conn_Attrs (conn_Bind c u s) x = conn_Attrs s x"
  by (cases "c < length (sHeap s)"; simp add: conn_Bind_def nth_list_update list_update_beyond)+

lemma conn_Bind_UID:
  "c < length (sHeap s) \<Longrightarrow> conn_UID (conn_Bind c u s) x = (if x = c then u else conn_UID s x)"
  by (simp add: conn_Bind_def nth_list_update)

lemma registered_conn_Bind [simp]: "registered (conn_Bind c u s) x = registered s x"
  by (simp add: registered_def)

lemma registered_users [simp]: "registered (s\<lparr>sUsers := us\<rparr>) x = registered s x"
  by (simp add: registered_def)

lemma registered_channels [simp]: "registered (s\<lparr>sChannels := cs\<rparr>) x = registered s x"
  by (simp add: registered_def)

lemma snapshotChannel_simps [simp]:
  "snapshotChannel ch (conn_Bind c u s) = snapshotChannel ch s"
  "snapshotChannel ch (s\<lparr>sUsers := us\<rparr>) = snapshotChannel ch s"
  "snapshotChannel ch (s\<lparr>sConns := cs\<rparr>) = snapshotChannel ch s"
  by (simp_all add: snapshotChannel_def)

text \<open>Changing users and their table leaves connections, channels and keys alone.\<close>

lemma conns_ok_frame [simp]:
  "conns_ok (conn_Bind c u s) = conns_ok s" "conns_ok (s\<lparr>sUsers := us\<rparr>) = conns_ok s"
  by (simp_all add: conns_ok_def)

lemma chans_ok_frame [simp]:
  "chans_ok (conn_Bind c u s) = chans_ok s" "chans_ok (s\<lparr>sUsers := us\<rparr>) = chans_ok s"
  by (simp_all add: chans_ok_def)

lemma keys_ok_frame [simp]:
  "keys_ok (conn_Bind c u s) = keys_ok s"
  "keys_ok s \<Longrightarrow> keys_ok (s\<lparr>sUsers := AList.update u c (sUsers s)\<rparr>)"
  "keys_ok s \<Longrightarrow> keys_ok (s\<lparr>sUsers := AList.delete u (sUsers s)\<rparr>)"
  by (simp_all add: keys_ok_def distinct_update distinct_delete)


text \<open>What the subscription primitives change.\<close>

lemma attr_Set_simps [simp]:
  "sConns (attr_Set c k s) = sConns s" "sUsers (attr_Set c k s) = sUsers s"
  "sChannels (attr_Set c k s) = sChannels s" "length (sHeap (attr_Set c k s)) = length (sHeap s)"
  by (simp_all add: attr_Set_def)

lemma attr_Set_heap [simp]:
  "conn_ID (attr_Set c k s) x = conn_ID s x" "conn_UID (attr_Set c k s) x = conn_UID s x"
  by (cases "c < length (sHeap s)"; simp add: attr_Set_def nth_list_update list_update_beyond)+

lemma attr_Set_Attrs:
  "c < length (sHeap s) \<Longrightarrow>
   set (conn_Attrs (attr_Set c k s) x) = (if x = c then insert k (set (conn_Attrs s x)) else set (conn_Attrs s x))"
  by (simp add: attr_Set_def nth_list_update)

lemma attr_Del_simps [simp]:
  "sConns (attr_Del c k s) = sConns s" "sUsers (attr_Del c k s) = sUsers s"
  "sChannels (attr_Del c k s) = sChannels s" "length (sHeap (attr_Del c k s)) = length (sHeap s)"
  by (simp_all add: attr_Del_def)

lemma attr_Del_heap [simp]:
  "conn_ID (attr_Del c k s) x = conn_ID s x" "conn_UID (attr_Del c k s) x = conn_UID s x"
  by (cases "c < length (sHeap s)"; simp add: attr_Del_def nth_list_update list_update_beyond)+

lemma attr_Del_Attrs:
  "c < length (sHeap s) \<Longrightarrow>
   set (conn_Attrs (attr_Del c k s) x) = (if x = c then set (conn_Attrs s x) - {k} else set (conn_Attrs s x))"
  by (simp add: attr_Del_def nth_list_update)

lemma registered_attr [simp]:
  "registered (attr_Set c k s) x = registered s x" "registered (attr_Del c k s) x = registered s x"
  by (simp_all add: registered_def)

lemma doUnsubscribeLocked_simps [simp]:
  "sConns (doUnsubscribeLocked ch c s) = sConns s" "sUsers (doUnsubscribeLocked ch c s) = sUsers s"
  "sHeap (doUnsubscribeLocked ch c s) = sHeap s"
  by (simp_all add: doUnsubscribeLocked_def Let_def split: option.split)

lemma snapshotChannel_doUnsubscribeLocked:
  "snapshotChannel x (doUnsubscribeLocked ch c s) =
   (if x = ch then removeAll c (snapshotChannel x s) else snapshotChannel x s)"
  by (simp add: snapshotChannel_def doUnsubscribeLocked_def Let_def update_conv' delete_conv' split: option.split)

lemma distinct_doUnsubscribeLocked:
  "distinct (map fst (sChannels s)) \<Longrightarrow> distinct (map fst (sChannels (doUnsubscribeLocked ch c s)))"
  by (simp add: doUnsubscribeLocked_def Let_def distinct_update distinct_delete split: option.split)

lemma channelAttrKey_inj [simp]: "channelAttrKey a = channelAttrKey b \<longleftrightarrow> a = b"
  by (simp add: channelAttrKey_def)

lemma visit_attr_key:
  "visit_attr c key s = s \<or> (\<exists>ch. key = channelAttrKey ch \<and> ch \<noteq> [] \<and> visit_attr c key s = doUnsubscribeLocked ch c s)"
proof (cases "prefix ''__session_channel__:'' key")
  case True
  then obtain ch where "key = channelAttrKey ch" unfolding channelAttrKey_def by (auto elim: prefixE)
  then show ?thesis by (cases "ch = []") (simp_all add: visit_attr_def channelAttrKey_def)
qed (simp add: visit_attr_def)

lemma visit_attr_channel:
  "ch \<noteq> [] \<Longrightarrow> visit_attr c (channelAttrKey ch) s = doUnsubscribeLocked ch c s"
  by (simp add: visit_attr_def channelAttrKey_def)

lemma visit_attrs_simps [simp]:
  "sConns (fold (visit_attr c) ks s) = sConns s" "sUsers (fold (visit_attr c) ks s) = sUsers s"
  "sHeap (fold (visit_attr c) ks s) = sHeap s"
proof (induction ks arbitrary: s)
  case (Cons k ks)
  { case 1 show ?case using Cons(1) visit_attr_key [of c k s] by auto }
  { case 2 show ?case using Cons(2) visit_attr_key [of c k s] by auto }
  { case 3 show ?case using Cons(3) visit_attr_key [of c k s] by auto }
qed simp_all

lemma visit_attrs_distinct:
  "distinct (map fst (sChannels s)) \<Longrightarrow> distinct (map fst (sChannels (fold (visit_attr c) ks s)))"
proof (induction ks arbitrary: s)
  case (Cons k ks)
  then show ?case using visit_attr_key [of c k s] distinct_doUnsubscribeLocked by auto
qed simp

lemma snapshotChannel_visit_attr:
  "snapshotChannel ch (visit_attr c k s) =
   (if ch \<noteq> [] \<and> channelAttrKey ch = k then removeAll c (snapshotChannel ch s) else snapshotChannel ch s)"
proof (cases "ch \<noteq> [] \<and> channelAttrKey ch = k")
  case True
  then show ?thesis using visit_attr_channel [of ch c s] by (auto simp: snapshotChannel_doUnsubscribeLocked)
next
  case False
  then show ?thesis using visit_attr_key [of c k s] by (auto simp: snapshotChannel_doUnsubscribeLocked)
qed

lemma snapshotChannel_visit_attrs:
  "snapshotChannel ch (fold (visit_attr c) ks s) =
   (if ch \<noteq> [] \<and> channelAttrKey ch \<in> set ks then removeAll c (snapshotChannel ch s) else snapshotChannel ch s)"
  by (induction ks arbitrary: s) (auto simp: snapshotChannel_visit_attr)


section \<open>The operations keep the invariant\<close>

lemma connsD: "\<lbrakk>conns_ok s; conns s cid = Some c\<rbrakk> \<Longrightarrow> registered s c \<and> conn_ID s c = cid"
  by (auto simp: conns_ok_def registered_def)

lemma usersD: "\<lbrakk>users_ok s; users s u = Some c\<rbrakk> \<Longrightarrow> u \<noteq> 0 \<and> registered s c \<and> conn_UID s c = u"
  by (simp add: users_ok_def)

lemma usersI: "\<lbrakk>users_ok s; registered s c; conn_UID s c \<noteq> 0\<rbrakk> \<Longrightarrow> users s (conn_UID s c) = Some c"
  by (simp add: users_ok_def)

lemma registered_bound: "registered s c \<Longrightarrow> c < length (sHeap s)"
  by (simp add: registered_def)

lemma conn_ID_inj:
  "\<lbrakk>conns_ok s; c < length (sHeap s); c' < length (sHeap s)\<rbrakk> \<Longrightarrow> conn_ID s c = conn_ID s c' \<longleftrightarrow> c = c'"
  unfolding conns_ok_def by blast

lemma connLocked_KConn:
  "connLocked KConn cid s = (case conns s cid of None \<Rightarrow> Err ErrNotFoundSession | Some c \<Rightarrow> Ok c)"
  by (simp add: connLocked_def sessionsLocked_def)

text \<open>Rebinding keeps a partial injection: the owner table stays the inverse of the owned values.\<close>

lemma owner_rebind:
  assumes inv: "\<And>u c. m u = Some c \<longleftrightarrow> u \<noteq> z \<and> reg c \<and> U c = u" and "reg c" "U c \<noteq> v"
  shows "(if u = v \<and> v \<noteq> z then Some c else if u = U c \<and> u \<noteq> z then None else m u) = Some d \<longleftrightarrow>
         u \<noteq> z \<and> reg d \<and> (if d = c then v else if m v = Some d then z else U d) = u"
proof -
  have "d = c" if "reg d" "U d = U c" "U c \<noteq> z"
    using that inv [of "U c" c] inv [of "U c" d] assms(2) by simp
  then show ?thesis using assms(2,3) by (cases "d = c") (auto simp: inv)
qed

text \<open>\<open>Bind\<close> under the invariant: the connection is released, the user is taken from whoever has it,
  and then given to the connection.\<close>

definition bind_users :: "int64 \<Rightarrow> int64 \<Rightarrow> nat \<Rightarrow> session \<Rightarrow> (int64 \<times> nat) list" where
  "bind_users old uid c s =
     (let us = (if old \<noteq> 0 then AList.delete old (sUsers s) else sUsers s)
      in if uid = 0 then us else AList.update uid c us)"

definition bind_result :: "nat \<Rightarrow> int64 \<Rightarrow> session \<Rightarrow> session" where
  "bind_result c uid s =
     (conn_Bind c uid (case users s uid of Some k \<Rightarrow> conn_Bind k 0 s | None \<Rightarrow> s))
       \<lparr>sUsers := bind_users (conn_UID s c) uid c s\<rparr>"

lemma conn_Bind_users [simp]: "conn_Bind c u (s\<lparr>sUsers := us\<rparr>) = (conn_Bind c u s)\<lparr>sUsers := us\<rparr>"
  by (simp add: conn_Bind_def)

lemma Session_Bind_eq:
  assumes "session_ok s" "conns s cid = Some c" "conn_UID s c \<noteq> uid"
  shows "Session_Bind cid uid s = Ok (users s uid, bind_result c uid s)"
proof -
  have ok: "conns_ok s" "users_ok s" and c: "registered s c" "conn_ID s c = cid"
    using assms connsD by (auto simp: session_ok_def)
  have z: "users s 0 = None"
    using usersD [OF ok(2), of 0] by (cases "users s 0") auto
  have old: "conn_UID s c \<noteq> 0 \<Longrightarrow> users s (conn_UID s c) = Some c"
    using usersI [OF ok(2) c(1)] .
  have k: "conn_ID s k \<noteq> cid" if "users s uid = Some k" for k
    using usersD [OF ok(2) that] assms(3) c conn_ID_inj [OF ok(1), of k c]
    by (auto dest: registered_bound)
  show ?thesis
    using assms(2,3) z old k c
    by (auto simp: Session_Bind_def connLocked_KConn bind_result_def bind_users_def conn_Unbind_def
        Let_def delete_conv' split: option.splits)
qed


lemma bind_result_UID:
  assumes "users_ok s" "registered s c" "conn_UID s c \<noteq> uid"
  shows "conn_UID (bind_result c uid s) x =
         (if x = c then uid else if users s uid = Some x then 0 else conn_UID s x)"
proof (cases "users s uid")
  case None
  then show ?thesis using registered_bound [OF assms(2)] by (simp add: bind_result_def conn_Bind_UID)
next
  case (Some k)
  then show ?thesis
    using registered_bound [OF assms(2)] usersD [OF assms(1) Some] registered_bound [of s k]
    by (simp add: bind_result_def conn_Bind_UID)
qed

lemma registered_bind_result [simp]: "registered (bind_result c uid s) x = registered s x"
  by (simp add: bind_result_def split: option.split)

lemma users_bind_result:
  "users (bind_result c uid s) x =
     (if x = uid \<and> uid \<noteq> 0 then Some c
      else if x = conn_UID s c \<and> x \<noteq> 0 then None else users s x)"
  by (simp add: bind_result_def bind_users_def Let_def update_conv' delete_conv')

lemma bind_result_ok:
  assumes "session_ok s" "registered s c" "conn_UID s c \<noteq> uid"
  shows "session_ok (bind_result c uid s)"
proof -
  have ok: "users_ok s" using assms(1) by (simp add: session_ok_def)
  have "users_ok (bind_result c uid s)"
    unfolding users_ok_def users_bind_result registered_bind_result bind_result_UID [OF ok assms(2,3)]
    using owner_rebind [of "users s" 0 "registered s" "conn_UID s" c uid] ok assms(2,3)
    unfolding users_ok_def by blast
  moreover have "conns_ok (bind_result c uid s)" "chans_ok (bind_result c uid s)" "keys_ok (bind_result c uid s)"
    using assms(1)
    by (auto simp: session_ok_def bind_result_def bind_users_def Let_def keys_ok_def distinct_update distinct_delete
        split: option.split)
  ultimately show ?thesis by (simp add: session_ok_def)
qed


lemma Session_Unbind_eq:
  assumes "session_ok s" "conns s cid = Some c" "cid \<noteq> 0" "uid \<noteq> 0"
  shows "Session_Unbind cid uid s = (if conn_UID s c = uid then Ok (cid, bind_result c 0 s) else Ok (0, s))"
proof -
  have ok: "conns_ok s" "users_ok s" and c: "registered s c" "conn_ID s c = cid"
    using assms connsD by (auto simp: session_ok_def)
  have z: "users s 0 = None"
    using usersD [OF ok(2), of 0] by (cases "users s 0") auto
  have old: "conn_UID s c \<noteq> 0 \<Longrightarrow> users s (conn_UID s c) = Some c"
    using usersI [OF ok(2) c(1)] .
  show ?thesis
    using assms(2-) z old c
    by (auto simp: Session_Unbind_def connLocked_KConn bind_result_def bind_users_def conn_Unbind_def Let_def)
qed

lemma Session_Bind_keeps:
  assumes "session_ok s" "Session_Bind cid uid s = Ok (k, s')"
  shows "session_ok s'"
proof (cases "conns s cid")
  case None
  then show ?thesis using assms(2) by (simp add: Session_Bind_def connLocked_KConn)
next
  case (Some c)
  have "registered s c" using connsD Some assms(1) by (auto simp: session_ok_def)
  then show ?thesis
    using Session_Bind_eq [OF assms(1) Some, of uid] bind_result_ok [OF assms(1), of c uid] assms Some
    by (cases "conn_UID s c = uid") (auto simp: Session_Bind_def connLocked_KConn)
qed

lemma Session_Unbind_keeps:
  assumes "session_ok s" "Session_Unbind cid uid s = Ok (k, s')"
  shows "session_ok s'"
proof (cases "cid = 0 \<or> uid = 0 \<or> conns s cid = None")
  case True
  then show ?thesis using assms(2) by (auto simp: Session_Unbind_def connLocked_KConn split: if_splits)
next
  case False
  then obtain c where c: "conns s cid = Some c" by auto
  have "registered s c" using connsD c assms(1) by (auto simp: session_ok_def)
  then show ?thesis
    using Session_Unbind_eq [OF assms(1) c, of uid] bind_result_ok [OF assms(1), of c 0] assms False
    by (auto split: if_splits)
qed

text \<open>A connection the table does not know yet, with a fresh attribute map.\<close>

definition fresh_conn :: "session \<Rightarrow> nat \<Rightarrow> bool" where
  "fresh_conn s c \<longleftrightarrow> c < length (sHeap s) \<and> \<not> registered s c \<and> conn_Attrs s c = []"

lemma owner_add:
  assumes inv: "\<And>u c. m u = Some c \<longleftrightarrow> u \<noteq> z \<and> reg c \<and> U c = u" and "\<not> reg c"
  shows "(if u = U c \<and> u \<noteq> z then Some c else m u) = Some d \<longleftrightarrow>
         u \<noteq> z \<and> (reg d \<or> d = c) \<and> (if m (U c) = Some d then z else U d) = u"
  using assms(2) by (cases "d = c") (auto simp: inv)

lemma owner_remove:
  assumes inv: "\<And>u c. m u = Some c \<longleftrightarrow> u \<noteq> z \<and> reg c \<and> U c = u"
  shows "(if m u = Some c then None else m u) = Some d \<longleftrightarrow> u \<noteq> z \<and> (reg d \<and> d \<noteq> c) \<and> U d = u"
  using inv [of u c] inv [of u d] by auto

lemma conn_Bind_conns [simp]: "conn_Bind c u (s\<lparr>sConns := cs\<rparr>) = (conn_Bind c u s)\<lparr>sConns := cs\<rparr>"
  by (simp add: conn_Bind_def)

definition add_result :: "nat \<Rightarrow> session \<Rightarrow> session" where
  "add_result c s =
     (case users s (conn_UID s c) of Some k \<Rightarrow> conn_Bind k 0 s | None \<Rightarrow> s)
       \<lparr>sConns := AList.update (conn_ID s c) c (sConns s),
        sUsers := (if conn_UID s c = 0 then sUsers s else AList.update (conn_UID s c) c (sUsers s))\<rparr>"

lemma AddConn_eq:
  assumes "session_ok s" "fresh_conn s c"
  shows "AddConn (Some c) s = add_result c s"
proof -
  have ok: "conns_ok s" "users_ok s" using assms(1) by (auto simp: session_ok_def)
  have z: "users s 0 = None"
    using usersD [OF ok(2), of 0] by (cases "users s 0") auto
  have k: "conn_ID s k \<noteq> conn_ID s c" if "users s (conn_UID s c) = Some k" for k
    using usersD [OF ok(2) that] assms(2) conn_ID_inj [OF ok(1), of k c]
    by (auto dest: registered_bound simp: fresh_conn_def)
  show ?thesis
    using z k by (cases s) (auto simp: AddConn_def add_result_def conn_Unbind_def Let_def conn_Bind_def split: option.splits)
qed


lemma registered_add_result:
  assumes "conns_ok s" "c < length (sHeap s)"
  shows "registered (add_result c s) x = (registered s x \<or> x = c)"
  using conn_ID_inj [OF assms(1), of x c] assms(2)
  by (auto simp: registered_def add_result_def update_conv' split: option.splits)

lemma add_result_UID:
  assumes "users_ok s"
  shows "conn_UID (add_result c s) x = (if users s (conn_UID s c) = Some x then 0 else conn_UID s x)"
  using usersD [OF assms, of "conn_UID s c"]
  by (auto simp: add_result_def conn_Bind_UID registered_bound split: option.splits)

lemma AddConn_keeps:
  assumes "session_ok s" "fresh_conn s c"
  shows "session_ok (AddConn (Some c) s)"
proof -
  have ok: "conns_ok s" "users_ok s" "chans_ok s" "keys_ok s" using assms(1) by (auto simp: session_ok_def)
  have c: "c < length (sHeap s)" "\<not> registered s c" "conn_Attrs s c = []"
    using assms(2) by (auto simp: fresh_conn_def)
  note reg = registered_add_result [OF ok(1) c(1)]
  have "users (add_result c s) u = (if u = conn_UID s c \<and> u \<noteq> 0 then Some c else users s u)" for u
    by (auto simp: add_result_def update_conv')
  then have "users_ok (add_result c s)"
    using owner_add [of "users s" 0 "registered s" "conn_UID s" c] ok(2) c(2)
    unfolding users_ok_def reg add_result_UID [OF ok(2)] by simp
  moreover have "conns_ok (add_result c s)"
    using ok(1) c(1) by (auto simp: conns_ok_def add_result_def update_conv' split: option.splits)
  moreover have "chans_ok (add_result c s)"
    using ok(3) c(3) unfolding chans_ok_def reg by (auto simp: add_result_def split: option.split)
  moreover have "keys_ok (add_result c s)"
    using ok(4) by (auto simp: keys_ok_def add_result_def distinct_update split: option.split)
  ultimately show ?thesis by (simp add: AddConn_eq [OF assms] session_ok_def)
qed

text \<open>\<open>RemConn\<close>: the connection disappears from the table, from its user and from every channel.\<close>

definition rem_tables :: "nat \<Rightarrow> session \<Rightarrow> session" where
  "rem_tables c s =
     s\<lparr>sConns := AList.delete (conn_ID s c) (sConns s),
       sUsers := (if users s (conn_UID s c) = Some c then AList.delete (conn_UID s c) (sUsers s) else sUsers s)\<rparr>"

lemma RemConn_eq:
  assumes "session_ok s" "c < length (sHeap s)"
  shows "RemConn (Some c) s = fold (visit_attr c) (conn_Attrs s c) (rem_tables c s)"
proof -
  have ok: "conns_ok s" "users_ok s" using assms(1) by (auto simp: session_ok_def)
  have z: "users s 0 = None"
    using usersD [OF ok(2), of 0] by (cases "users s 0") auto
  have k: "conn_ID s k = conn_ID s c \<longleftrightarrow> k = c" if "users s (conn_UID s c) = Some k" for k
    using usersD [OF ok(2) that] assms(2) conn_ID_inj [OF ok(1), of k c] by (auto dest: registered_bound)
  show ?thesis
    using z k by (auto simp: RemConn_def rem_tables_def Let_def split: option.splits)
qed

lemma registered_RemConn:
  assumes "session_ok s" "c < length (sHeap s)"
  shows "registered (RemConn (Some c) s) x = (registered s x \<and> x \<noteq> c)"
  using conn_ID_inj [of s x c] assms
  by (auto simp: registered_def RemConn_eq [OF assms] rem_tables_def delete_conv' session_ok_def)

lemma users_RemConn:
  assumes "session_ok s" "c < length (sHeap s)"
  shows "users (RemConn (Some c) s) u = (if users s u = Some c then None else users s u)"
proof -
  have "conn_UID s c = u" if "users s u = Some c"
    using usersD [OF _ that] assms(1) by (simp add: session_ok_def)
  then show ?thesis
    by (cases "users s u = Some c") (auto simp add: RemConn_eq [OF assms] rem_tables_def delete_conv')
qed

lemma snapshotChannel_RemConn:
  assumes "session_ok s" "c < length (sHeap s)"
  shows "snapshotChannel ch (RemConn (Some c) s) = removeAll c (snapshotChannel ch s)"
proof (cases "ch \<noteq> [] \<and> channelAttrKey ch \<in> set (conn_Attrs s c)")
  case False
  then have "c \<notin> set (snapshotChannel ch s)" using assms(1) unfolding session_ok_def chans_ok_def by blast
  then show ?thesis using False
    by (auto simp: RemConn_eq [OF assms] rem_tables_def snapshotChannel_visit_attrs)
qed (simp add: RemConn_eq [OF assms] rem_tables_def snapshotChannel_visit_attrs)

lemma heap_RemConn [simp]:
  assumes "session_ok s" "c < length (sHeap s)"
  shows "sHeap (RemConn (Some c) s) = sHeap s"
  by (simp add: RemConn_eq [OF assms] rem_tables_def)

lemma RemConn_keeps:
  assumes "session_ok s" "c < length (sHeap s)"
  shows "session_ok (RemConn (Some c) s)"
proof -
  have ok: "conns_ok s" "users_ok s" "chans_ok s" "keys_ok s" using assms(1) by (auto simp: session_ok_def)
  let ?s = "RemConn (Some c) s"
  note facts = registered_RemConn [OF assms] users_RemConn [OF assms] snapshotChannel_RemConn [OF assms]
    heap_RemConn [OF assms]
  have "users_ok ?s"
    using owner_remove [of "users s" 0 "registered s" "conn_UID s" _ c] ok(2) unfolding users_ok_def facts by simp
  moreover have "conns_ok ?s"
    using ok(1) by (auto simp: conns_ok_def RemConn_eq [OF assms] rem_tables_def delete_conv' split: if_splits)
  moreover have "chans_ok ?s"
    using ok(3) unfolding chans_ok_def facts by auto
  moreover have "distinct (map fst (sChannels ?s))"
    using ok(4) visit_attrs_distinct by (simp add: RemConn_eq [OF assms] rem_tables_def keys_ok_def)
  then have "keys_ok ?s"
    using ok(4) unfolding keys_ok_def facts
    by (auto simp: RemConn_eq [OF assms] rem_tables_def distinct_delete distinct_removeAll)
  ultimately show ?thesis by (simp add: session_ok_def)
qed


subsection \<open>Subscriptions\<close>

text \<open>What a change of subscriptions may touch: the channels and the attributes only.\<close>

definition same_tables :: "session \<Rightarrow> session \<Rightarrow> bool" where
  "same_tables s s' \<longleftrightarrow> sConns s' = sConns s \<and> sUsers s' = sUsers s \<and> length (sHeap s') = length (sHeap s) \<and>
     (\<forall>x. conn_ID s' x = conn_ID s x \<and> conn_UID s' x = conn_UID s x)"

lemma same_tables_refl [simp]: "same_tables s s"
  by (simp add: same_tables_def)

lemma same_tables_trans: "\<lbrakk>same_tables s t; same_tables t u\<rbrakk> \<Longrightarrow> same_tables s u"
  by (simp add: same_tables_def)

lemma same_tables_registered: "same_tables s s' \<Longrightarrow> registered s' x = registered s x"
  by (simp add: same_tables_def registered_def)

lemma same_tables_ok: "\<lbrakk>same_tables s s'; conns_ok s; users_ok s\<rbrakk> \<Longrightarrow> conns_ok s' \<and> users_ok s'"
  by (simp add: same_tables_registered conns_ok_def users_ok_def) (simp add: same_tables_def)

lemma same_tables_sessionsLocked: "same_tables s s' \<Longrightarrow> sessionsLocked k s' = sessionsLocked k s"
  by (simp add: same_tables_def sessionsLocked_def)

lemma same_tables_subscribe_conn: "same_tables s (subscribe_conn ch c s)"
  by (simp add: same_tables_def subscribe_conn_def Let_def)

lemma same_tables_unsubscribe_conn: "same_tables s (unsubscribe_conn ch c s)"
  by (simp add: same_tables_def unsubscribe_conn_def)

lemma snapshotChannel_subscribe_conn:
  "snapshotChannel x (subscribe_conn ch c s) =
   (if x = ch then List.insert c (snapshotChannel ch s) else snapshotChannel x s)"
  by (simp add: snapshotChannel_def subscribe_conn_def Let_def update_conv')

lemma Attrs_subscribe_conn:
  "c < length (sHeap s) \<Longrightarrow> set (conn_Attrs (subscribe_conn ch c s) x) =
     (if x = c then insert (channelAttrKey ch) (set (conn_Attrs s x)) else set (conn_Attrs s x))"
  by (simp add: subscribe_conn_def Let_def attr_Set_Attrs)

lemma subscribe_conn_keeps:
  assumes "session_ok s" "registered s c" "ch \<noteq> []"
  shows "session_ok (subscribe_conn ch c s)"
proof -
  let ?s = "subscribe_conn ch c s"
  note st = same_tables_subscribe_conn [of s ch c]
  have "chans_ok ?s"
    using assms registered_bound [OF assms(2)]
    unfolding chans_ok_def session_ok_def snapshotChannel_subscribe_conn same_tables_registered [OF st]
    by (auto simp: Attrs_subscribe_conn)
  moreover have "keys_ok ?s"
    using assms(1) unfolding keys_ok_def session_ok_def snapshotChannel_subscribe_conn
    by (auto simp: subscribe_conn_def Let_def distinct_update)
  ultimately show ?thesis using same_tables_ok [OF st] assms(1) by (simp add: session_ok_def)
qed

lemma snapshotChannel_attr_Del [simp]: "snapshotChannel x (attr_Del c k s) = snapshotChannel x s"
  by (simp add: snapshotChannel_def)

lemma snapshotChannel_unsubscribe_conn:
  assumes "chans_ok s"
  shows "snapshotChannel x (unsubscribe_conn ch c s) =
         (if x = ch then removeAll c (snapshotChannel ch s) else snapshotChannel x s)"
proof (cases "channelAttrKey ch \<in> set (conn_Attrs s c)")
  case False
  then have "c \<notin> set (snapshotChannel ch s)" using assms unfolding chans_ok_def by blast
  then show ?thesis using False by (simp add: unsubscribe_conn_def)
qed (simp add: unsubscribe_conn_def snapshotChannel_doUnsubscribeLocked)

lemma Attrs_unsubscribe_conn:
  "c < length (sHeap s) \<Longrightarrow> set (conn_Attrs (unsubscribe_conn ch c s) x) =
     (if x = c then set (conn_Attrs s x) - {channelAttrKey ch} else set (conn_Attrs s x))"
  by (auto simp: unsubscribe_conn_def attr_Del_Attrs)

lemma unsubscribe_conn_keeps:
  assumes "session_ok s" "registered s c"
  shows "session_ok (unsubscribe_conn ch c s)"
proof -
  let ?s = "unsubscribe_conn ch c s"
  note st = same_tables_unsubscribe_conn [of s ch c]
  have ch: "chans_ok s" using assms(1) by (simp add: session_ok_def)
  have "chans_ok ?s"
    using ch registered_bound [OF assms(2)]
    unfolding chans_ok_def snapshotChannel_unsubscribe_conn [OF ch] same_tables_registered [OF st]
    by (auto simp: Attrs_unsubscribe_conn)
  moreover have "distinct (map fst (sChannels ?s))"
    using assms(1) by (auto simp: unsubscribe_conn_def session_ok_def keys_ok_def intro: distinct_doUnsubscribeLocked)
  then have "keys_ok ?s"
    using assms(1) unfolding keys_ok_def session_ok_def snapshotChannel_unsubscribe_conn [OF ch]
    by (auto simp: unsubscribe_conn_def distinct_removeAll)
  ultimately show ?thesis using same_tables_ok [OF st] assms(1) by (simp add: session_ok_def)
qed


text \<open>The loops over targets visit the connections that \<open>snapshotTargets\<close> lists.\<close>

lemma fold_targets:
  "fold (\<lambda>t s. case m t of None \<Rightarrow> s | Some c \<Rightarrow> f c s) ts s = fold f (List.map_filter m ts) s"
  by (induction ts arbitrary: s) (auto simp: map_filter_simps split: option.split)

lemma snapshotTargets_registered:
  assumes "session_ok s" "snapshotTargets kind ts s = Ok cs" "c \<in> set cs"
  shows "registered s c"
  using assms connsD [of s _ c] usersD [of s _ c]
  by (auto simp: snapshotTargets_def sessionsLocked_def session_ok_def List.map_filter_def split: if_splits)

lemma fold_subscribe_conn:
  assumes "session_ok s" "\<forall>c \<in> set cs. registered s c" "ch \<noteq> []"
  shows "session_ok (fold (subscribe_conn ch) cs s) \<and>
         set (snapshotChannel x (fold (subscribe_conn ch) cs s)) =
           set (snapshotChannel x s) \<union> (if x = ch then set cs else {})"
  using assms
proof (induction cs arbitrary: s)
  case (Cons c cs)
  then show ?case
    using subscribe_conn_keeps [of s c ch] same_tables_registered [OF same_tables_subscribe_conn]
    by (auto simp: snapshotChannel_subscribe_conn)
qed simp

lemma fold_unsubscribe_conn:
  assumes "session_ok s" "\<forall>c \<in> set cs. registered s c"
  shows "session_ok (fold (unsubscribe_conn ch) cs s) \<and>
         set (snapshotChannel x (fold (unsubscribe_conn ch) cs s)) =
           set (snapshotChannel x s) - (if x = ch then set cs else {})"
  using assms
proof (induction cs arbitrary: s)
  case (Cons c cs)
  have "chans_ok s" using Cons.prems(1) by (simp add: session_ok_def)
  then show ?case
    using Cons unsubscribe_conn_keeps [of s c ch] same_tables_registered [OF same_tables_unsubscribe_conn]
    by (auto simp: snapshotChannel_unsubscribe_conn)
qed simp

text \<open>Creating the entry of a channel does not subscribe anyone.\<close>

definition open_channel :: "string \<Rightarrow> session \<Rightarrow> session" where
  "open_channel ch s =
     (case map_of (sChannels s) ch of
        None \<Rightarrow> s\<lparr>sChannels := AList.update ch [] (sChannels s)\<rparr> | Some _ \<Rightarrow> s)"

lemma snapshotChannel_open [simp]: "snapshotChannel x (open_channel ch s) = snapshotChannel x s"
  by (simp add: snapshotChannel_def open_channel_def update_conv' split: option.split)

lemma open_channel_simps [simp]:
  "sHeap (open_channel ch s) = sHeap s" "registered (open_channel ch s) x = registered s x"
  "sConns (open_channel ch s) = sConns s" "sUsers (open_channel ch s) = sUsers s"
  by (simp_all add: open_channel_def split: option.split)

lemma open_channel_keeps: "session_ok s \<Longrightarrow> session_ok (open_channel ch s)"
  by (simp add: session_ok_def conns_ok_def users_ok_def chans_ok_def keys_ok_def)
     (simp add: open_channel_def distinct_update split: option.split)

lemma Session_Subscribe_eq:
  assumes "ts \<noteq> []" "ch \<noteq> []"
  shows "Session_Subscribe kind ts ch s =
         go_map (\<lambda>cs. fold (subscribe_conn ch) cs (open_channel ch s)) (snapshotTargets kind ts s)"
  using assms
  by (cases "sessionsLocked kind s")
     (simp_all add: Session_Subscribe_def snapshotTargets_def fold_targets open_channel_def Let_def)

lemma Session_Unsubscribe_eq:
  assumes "ts \<noteq> []" "ch \<noteq> []"
  shows "Session_Unsubscribe kind ts ch s =
         go_map (\<lambda>cs. fold (unsubscribe_conn ch) cs s) (snapshotTargets kind ts s)"
  using assms
  by (cases "sessionsLocked kind s") (simp_all add: Session_Unsubscribe_def snapshotTargets_def fold_targets)

lemma snapshotTargets_cases:
  obtains cs where "snapshotTargets kind ts s = Ok cs" | "snapshotTargets kind ts s = Err ErrInvalidSessionKind"
  by (cases "kind = KConn"; cases "kind = KUser"; simp add: snapshotTargets_def sessionsLocked_def)

lemma Session_Subscribe_keeps:
  assumes "session_ok s" "Session_Subscribe kind ts ch s = Ok s'"
  shows "session_ok s'"
proof (cases "ts = [] \<or> ch = []")
  case False
  then obtain cs where "snapshotTargets kind ts s = Ok cs" "s' = fold (subscribe_conn ch) cs (open_channel ch s)"
    using assms(2) by (cases rule: snapshotTargets_cases [of kind ts s]) (auto simp: Session_Subscribe_eq)
  then show ?thesis
    using fold_subscribe_conn [OF open_channel_keeps] assms(1) snapshotTargets_registered False by auto
qed (use assms in \<open>auto simp: Session_Subscribe_def\<close>)

lemma Session_Unsubscribe_keeps:
  assumes "session_ok s" "Session_Unsubscribe kind ts ch s = Ok s'"
  shows "session_ok s'"
proof (cases "ts = [] \<or> ch = []")
  case False
  then obtain cs where "snapshotTargets kind ts s = Ok cs" "s' = fold (unsubscribe_conn ch) cs s"
    using assms(2) by (cases rule: snapshotTargets_cases [of kind ts s]) (auto simp: Session_Unsubscribe_eq)
  then show ?thesis
    using fold_unsubscribe_conn assms(1) snapshotTargets_registered by blast
qed (use assms in \<open>auto simp: Session_Unsubscribe_def\<close>)


section \<open>Bindings as a contract\<close>

text \<open>
  What the rest of a gate relies on: at most one connection per user and one user per connection,
  and a bind takes effect whatever was bound before.  \<open>owner s u\<close> is the connection id of user \<open>u\<close>.
\<close>

definition rebind :: "int64 \<Rightarrow> int64 \<Rightarrow> (int64 \<rightharpoonup> int64) \<Rightarrow> (int64 \<rightharpoonup> int64)" where
  "rebind cid uid b = (\<lambda>u. if u = uid \<and> uid \<noteq> 0 then Some cid else if b u = Some cid then None else b u)"

locale binding_table =
  fixes ok :: "'s \<Rightarrow> bool"
    and online :: "'s \<Rightarrow> int64 \<Rightarrow> bool"
    and owner :: "'s \<Rightarrow> int64 \<rightharpoonup> int64"
    and bind :: "int64 \<Rightarrow> int64 \<Rightarrow> 's \<Rightarrow> 's go"
  assumes bind_online: "\<lbrakk>ok s; online s cid\<rbrakk> \<Longrightarrow>
      \<exists>s'. bind cid uid s = Ok s' \<and> ok s' \<and> online s' = online s \<and> owner s' = rebind cid uid (owner s)"
    and bind_offline: "\<not> online s cid \<Longrightarrow> bind cid uid s = Err ErrNotFoundSession"
    and owner_inj: "\<lbrakk>ok s; owner s u = Some cid; owner s v = Some cid\<rbrakk> \<Longrightarrow> u = v"
    and owner_online: "\<lbrakk>ok s; owner s u = Some cid\<rbrakk> \<Longrightarrow> online s cid"
begin

text \<open>A sequence of binds, each applied to what the one before left (a failed bind changes nothing).\<close>

definition bind1 :: "int64 \<times> int64 \<Rightarrow> 's \<Rightarrow> 's" where
  "bind1 b s = (case bind (fst b) (snd b) s of Ok s' \<Rightarrow> s' | _ \<Rightarrow> s)"

definition binds :: "(int64 \<times> int64) list \<Rightarrow> 's \<Rightarrow> 's" where
  "binds bs s = fold bind1 bs s"

lemma binds_simps [simp]:
  "binds [] s = s" "binds (b # bs) s = binds bs (bind1 b s)" "binds (xs @ ys) s = binds ys (binds xs s)"
  by (simp_all add: binds_def)

lemma bind1_spec:
  assumes "ok s"
  shows "ok (bind1 (cid, uid) s) \<and> online (bind1 (cid, uid) s) = online s \<and>
         owner (bind1 (cid, uid) s) = (if online s cid then rebind cid uid (owner s) else owner s)"
  using bind_online [OF assms, of cid uid] bind_offline [of s cid uid] assms by (auto simp: bind1_def)

lemma binds_ok: "ok s \<Longrightarrow> ok (binds bs s) \<and> online (binds bs s) = online s"
proof (induction bs arbitrary: s)
  case (Cons b bs)
  then show ?case using bind1_spec [OF Cons.prems] by (cases b) simp
qed simp

text \<open>A binding survives the binds of other connections to other users.\<close>

lemma binds_other:
  assumes "ok s" "owner s u = Some cid" "\<And>c v. (c, v) \<in> set bs \<Longrightarrow> c \<noteq> cid \<and> v \<noteq> u"
  shows "owner (binds bs s) u = Some cid"
  using assms
proof (induction bs arbitrary: s)
  case (Cons b bs)
  obtain c v where b: "b = (c, v)" by (cases b)
  have "c \<noteq> cid" "v \<noteq> u" using Cons.prems(3) [of c v] b by auto
  then have "owner (bind1 (c, v) s) u = Some cid"
    using bind1_spec [OF Cons.prems(1), of c v] Cons.prems(2) by (simp add: rebind_def)
  from Cons.IH [OF conjunct1 [OF bind1_spec [OF Cons.prems(1)]] this] show ?case
    using Cons.prems(3) by (auto simp: b)
qed simp

lemma last_bind_wins:
  assumes "ok s" "online s cid" "uid \<noteq> 0" "\<And>c v. (c, v) \<in> set ys \<Longrightarrow> c \<noteq> cid \<and> v \<noteq> uid"
  shows "owner (binds (xs @ (cid, uid) # ys) s) uid = Some cid"
proof -
  let ?s = "binds xs s"
  have s: "ok ?s" "online ?s cid" using binds_ok [OF assms(1), of xs] assms(2) by auto
  have "owner (bind1 (cid, uid) ?s) uid = Some cid"
    using bind1_spec [OF s(1), of cid uid] s(2) assms(3) by (simp add: rebind_def)
  then show ?thesis using binds_other [OF conjunct1 [OF bind1_spec [OF s(1)]] _ assms(4)] by simp
qed

end

definition session_online :: "session \<Rightarrow> int64 \<Rightarrow> bool" where
  "session_online s cid \<longleftrightarrow> conns s cid \<noteq> None"

definition session_owner :: "session \<Rightarrow> int64 \<rightharpoonup> int64" where
  "session_owner s u = map_option (conn_ID s) (users s u)"

definition bind_op :: "int64 \<Rightarrow> int64 \<Rightarrow> session \<Rightarrow> session go" where
  "bind_op cid uid s = go_map snd (Session_Bind cid uid s)"

lemma bind_result_ID [simp]: "conn_ID (bind_result c uid s) x = conn_ID s x"
  by (simp add: bind_result_def split: option.split)

lemma bind_result_conns [simp]: "sConns (bind_result c uid s) = sConns s"
  by (simp add: bind_result_def split: option.split)

text \<open>The connection ids of two users tell whether the users are the same.\<close>

lemma session_owner_Some:
  assumes "session_ok s" "conns s cid = Some c"
  shows "session_owner s u = Some cid \<longleftrightarrow> users s u = Some c"
proof -
  have ok: "conns_ok s" "users_ok s" using assms(1) by (auto simp: session_ok_def)
  have "conn_ID s k = cid \<longleftrightarrow> k = c" if "users s u = Some k" for k
    using usersD [OF ok(2) that] connsD [OF ok(1) assms(2)] conn_ID_inj [OF ok(1), of k c]
    by (auto dest: registered_bound)
  then show ?thesis by (auto simp: session_owner_def)
qed

lemma session_owner_user:
  assumes "session_ok s" "conns s cid = Some c"
  shows "session_owner s u = Some cid \<longleftrightarrow> u \<noteq> 0 \<and> conn_UID s c = u"
  using session_owner_Some [OF assms, of u] connsD [OF _ assms(2)] assms(1)
  by (simp add: session_ok_def users_ok_def)

lemma owner_registered:
  assumes "session_ok s" "session_owner s u = Some cid"
  shows "\<exists>c. conns s cid = Some c"
  using assms usersD [of s u] by (auto simp: session_owner_def session_ok_def registered_def)

lemma session_owner_bind_result:
  assumes "session_ok s" "conns s cid = Some c" "conn_UID s c \<noteq> uid"
  shows "session_owner (bind_result c uid s) = rebind cid uid (session_owner s)"
proof
  fix u
  have "conn_ID s c = cid" using connsD [OF _ assms(2)] assms(1) by (simp add: session_ok_def)
  moreover have "session_owner (bind_result c uid s) u =
      (if u = uid \<and> uid \<noteq> 0 then Some (conn_ID s c)
       else if u = conn_UID s c \<and> u \<noteq> 0 then None else session_owner s u)"
    by (simp add: session_owner_def users_bind_result)
  ultimately show "session_owner (bind_result c uid s) u = rebind cid uid (session_owner s) u"
    using session_owner_user [OF assms(1,2), of u] by (auto simp: rebind_def)
qed

lemma bind_op_online:
  assumes "session_ok s" "session_online s cid"
  shows "\<exists>s'. bind_op cid uid s = Ok s' \<and> session_ok s' \<and> session_online s' = session_online s \<and>
              session_owner s' = rebind cid uid (session_owner s)"
proof -
  obtain c where c: "conns s cid = Some c" using assms(2) by (auto simp: session_online_def)
  have reg: "registered s c" using connsD c assms(1) by (auto simp: session_ok_def)
  show ?thesis
  proof (cases "conn_UID s c = uid")
    case True
    have "rebind cid uid (session_owner s) = session_owner s"
      using True by (auto simp: fun_eq_iff rebind_def eq_commute [of "Some cid"] session_owner_user [OF assms(1) c])
    then show ?thesis using True assms(1) c by (auto simp: bind_op_def Session_Bind_def connLocked_KConn)
  next
    case False
    then show ?thesis
      using Session_Bind_eq [OF assms(1) c False] bind_result_ok [OF assms(1) reg False]
        session_owner_bind_result [OF assms(1) c False]
      by (auto simp: bind_op_def session_online_def)
  qed
qed

lemma session_owner_inj:
  "\<lbrakk>session_ok s; session_owner s u = Some cid; session_owner s v = Some cid\<rbrakk> \<Longrightarrow> u = v"
  using owner_registered session_owner_user by metis

interpretation st: binding_table session_ok session_online session_owner bind_op
  using bind_op_online session_owner_inj owner_registered
  by unfold_locales (auto simp: bind_op_def Session_Bind_def connLocked_KConn session_online_def)


section \<open>Reachable sessions\<close>

text \<open>
  A gate starts with an empty table and a supply of connections with distinct ids.  A connection is
  added once, before anything is subscribed for it; every other operation may come at any time and
  with any arguments, \<open>RemConn\<close> also for connections that were never added or are already removed.
\<close>

inductive session_step :: "session \<Rightarrow> session \<Rightarrow> bool" where
  add: "fresh_conn s c \<Longrightarrow> session_step s (AddConn (Some c) s)"
| rem: "c < length (sHeap s) \<Longrightarrow> session_step s (RemConn (Some c) s)"
| bind: "Session_Bind cid uid s = Ok (k, s') \<Longrightarrow> session_step s s'"
| unbind: "Session_Unbind cid uid s = Ok (k, s') \<Longrightarrow> session_step s s'"
| subscribe: "Session_Subscribe kind ts ch s = Ok s' \<Longrightarrow> session_step s s'"
| unsubscribe: "Session_Unsubscribe kind ts ch s = Ok s' \<Longrightarrow> session_step s s'"

inductive session_reachable :: "conn list \<Rightarrow> session \<Rightarrow> bool" for heap where
  new: "session_reachable heap (NewSession heap)"
| step: "\<lbrakk>session_reachable heap s; session_step s s'\<rbrakk> \<Longrightarrow> session_reachable heap s'"

lemma NewSession_ok: "distinct (map cnID heap) \<Longrightarrow> session_ok (NewSession heap)"
  by (auto simp: session_ok_def conns_ok_def users_ok_def chans_ok_def keys_ok_def registered_def
      NewSession_def snapshotChannel_def distinct_conv_nth)

lemma session_step_keeps: "\<lbrakk>session_step s s'; session_ok s\<rbrakk> \<Longrightarrow> session_ok s'"
  by (cases rule: session_step.cases)
     (auto intro: AddConn_keeps RemConn_keeps Session_Bind_keeps Session_Unbind_keeps
       Session_Subscribe_keeps Session_Unsubscribe_keeps)

lemma reachable_ok: "\<lbrakk>session_reachable heap s; distinct (map cnID heap)\<rbrakk> \<Longrightarrow> session_ok s"
  by (induction rule: session_reachable.induct) (auto intro: NewSession_ok session_step_keeps)

text \<open>The binds of a list of pairs, one after the other.\<close>

definition bind_sequence :: "(int64 \<times> int64) list \<Rightarrow> session \<Rightarrow> session" where
  "bind_sequence bs s =
     fold (\<lambda>(cid, uid) s. case Session_Bind cid uid s of Ok (_, s') \<Rightarrow> s' | _ \<Rightarrow> s) bs s"

lemma bind_sequence_binds: "bind_sequence bs s = st.binds bs s"
  by (induction bs arbitrary: s)
     (auto simp: bind_sequence_def st.bind1_def bind_op_def split: go.splits prod.splits)

text \<open>What closing the connection pushed out by a bind leaves behind.\<close>

lemma kicked_RemConn:
  assumes "session_ok s" "Session_Bind cid uid s = Ok (Some k, s')" "uid \<noteq> 0"
  shows "session_owner (RemConn (Some k) s') uid = Some cid"
    and "session_owner (RemConn (Some k) s') = session_owner s'"
    and "conn_UID (RemConn (Some k) s') k = 0"
    and "conns (RemConn (Some k) s') x = (if x = conn_ID s k then None else conns s x)"
    and "k \<notin> set (snapshotChannel ch (RemConn (Some k) s'))"
proof -
  note ok = assms(1)
  obtain c where c: "conns s cid = Some c"
    using assms(2) by (cases "conns s cid") (auto simp: Session_Bind_def connLocked_KConn)
  have ne: "conn_UID s c \<noteq> uid" using assms(2) c by (auto simp: Session_Bind_def connLocked_KConn)
  have kick: "users s uid = Some k" and s': "s' = bind_result c uid s"
    using Session_Bind_eq [OF ok c ne] assms(2) by auto
  have uok: "users_ok s" using ok by (simp add: session_ok_def)
  have reg: "registered s c" using connsD [OF _ c] ok by (simp add: session_ok_def)
  have ok': "session_ok s'" using bind_result_ok [OF ok reg ne] s' by simp
  have k: "registered s' k" "k < length (sHeap s')"
    using usersD [OF uok kick] registered_bound [of s' k] s' by simp_all
  have zero: "conn_UID s' k = 0"
    using bind_result_UID [OF uok reg ne, of k] kick usersD [OF uok kick] ne by (auto simp: s')
  then have none: "users s' u \<noteq> Some k" for u
    using usersD [of s' u k] ok' by (auto simp: session_ok_def)
  have own: "session_owner (RemConn (Some k) s') u = session_owner s' u" for u
    using none [of u] by (simp add: session_owner_def users_RemConn [OF ok' k(2)] heap_RemConn [OF ok' k(2)])
  have new: "session_owner s' uid = Some cid"
    using session_owner_bind_result [OF ok c ne] assms(3) by (simp add: s' rebind_def)
  show "session_owner (RemConn (Some k) s') uid = Some cid" "session_owner (RemConn (Some k) s') = session_owner s'"
    using own new by auto
  show "conn_UID (RemConn (Some k) s') k = 0" using zero by (simp add: heap_RemConn [OF ok' k(2)])
  show "conns (RemConn (Some k) s') x = (if x = conn_ID s k then None else conns s x)"
    unfolding RemConn_eq [OF ok' k(2)] by (simp add: rem_tables_def delete_conv' s')
  show "k \<notin> set (snapshotChannel ch (RemConn (Some k) s'))" by (simp add: snapshotChannel_RemConn [OF ok' k(2)])
qed

text \<open>A small session: two registered connections, no user bound yet.\<close>

definition demo_heap :: "conn list" where
  "demo_heap = [\<lparr>cnID = 1, cnUID = 0, cnAttrs = []\<rparr>, \<lparr>cnID = 2, cnUID = 0, cnAttrs = []\<rparr>]"

definition demo_session :: session where
  "demo_session = AddConn (Some 1) (AddConn (Some 0) (NewSession demo_heap))"

lemma demo_session_value:
  "demo_session = \<lparr>sHeap = demo_heap, sConns = [(1, 0), (2, 1)], sUsers = [], sChannels = []\<rparr>"
  by (simp add: demo_session_def AddConn_def NewSession_def demo_heap_def Let_def)

lemma demo_reachable: "session_reachable demo_heap demo_session" "distinct (map cnID demo_heap)"
proof -
  have "fresh_conn (NewSession demo_heap) 0"
    by (simp add: fresh_conn_def registered_def NewSession_def demo_heap_def)
  moreover have "fresh_conn (AddConn (Some 0) (NewSession demo_heap)) 1"
    by (simp add: fresh_conn_def registered_def NewSession_def demo_heap_def AddConn_def)
  ultimately show "session_reachable demo_heap demo_session"
    unfolding demo_session_def by (blast intro: session_reachable.intros session_step.add)
qed (simp add: demo_heap_def)

section \<open>Properties\<close>

text \<open>C5. In every session a gate can reach, the three indexes of \<open>session.go\<close> agree: a connection is
  found under its own id only, the user table holds exactly the registered connections that carry
  that user id (so a user has at most one connection and a connection at most one user), and a
  channel holds exactly the registered connections whose attributes name it.\<close>

theorem session_indexes_agree:
  assumes "session_reachable heap s" "distinct (map cnID heap)"
  shows "(\<forall>cid c. map_of (sConns s) cid = Some c \<longrightarrow> c < length (sHeap s) \<and> cnID (sHeap s ! c) = cid) \<and>
         (\<forall>u c. map_of (sUsers s) u = Some c \<longleftrightarrow>
            u \<noteq> 0 \<and> map_of (sConns s) (cnID (sHeap s ! c)) = Some c \<and> cnUID (sHeap s ! c) = u) \<and>
         (\<forall>ch c. c \<in> set (snapshotChannel ch s) \<longleftrightarrow> ch \<noteq> [] \<and>
            map_of (sConns s) (cnID (sHeap s ! c)) = Some c \<and> channelAttrKey ch \<in> set (cnAttrs (sHeap s ! c)))"
proof -
  have ok: "conns_ok s" "users_ok s" "chans_ok s" using reachable_ok [OF assms] by (auto simp: session_ok_def)
  have reg: "registered s c \<longleftrightarrow> map_of (sConns s) (cnID (sHeap s ! c)) = Some c" for c
    using ok(1) by (auto simp: registered_def conns_ok_def)
  show ?thesis
    using ok(1) ok(2) [unfolded users_ok_def reg] ok(3) [unfolded chans_ok_def reg] by (simp add: conns_ok_def)
qed

theorem session_indexes_agree_witness:
  "map_of (sConns demo_session) 1 = Some 0 \<and> cnID (sHeap demo_session ! 0) = 1"
  using session_indexes_agree [OF demo_reachable] by (simp add: demo_session_value)

text \<open>C29. \<open>Bind(cid, uid)\<close> implements the abstract rebinding of the user-to-connection map: an unknown
  connection is an error; otherwise the user belongs to \<open>cid\<close> afterwards (nobody, when uid is 0),
  the user \<open>cid\<close> had before belongs to nobody, every other binding is untouched, and the connection
  to be closed is exactly the one the user was bound to before.\<close>

theorem session_bind_refines:
  assumes "session_reachable heap s" "distinct (map cnID heap)"
  shows "(case map_of (sConns s) cid of
            None \<Rightarrow> Session_Bind cid uid s = Err ErrNotFoundSession
          | Some c \<Rightarrow> (\<exists>s'. Session_Bind cid uid s =
                Ok (if cnUID (sHeap s ! c) = uid then None else map_of (sUsers s) uid, s') \<and>
              session_reachable heap s' \<and> session_owner s' = rebind cid uid (session_owner s)))"
proof (cases "map_of (sConns s) cid")
  case None
  then show ?thesis by (simp add: Session_Bind_def connLocked_KConn)
next
  case (Some c)
  have ok: "session_ok s" using reachable_ok [OF assms] .
  obtain s' where s': "bind_op cid uid s = Ok s'" "session_owner s' = rebind cid uid (session_owner s)"
    using bind_op_online [OF ok, of cid uid] Some by (auto simp: session_online_def)
  then obtain k where k: "Session_Bind cid uid s = Ok (k, s')" by (auto simp: bind_op_def go_map_eq_Ok)
  have "k = (if cnUID (sHeap s ! c) = uid then None else map_of (sUsers s) uid)"
    using k Session_Bind_eq [OF ok Some, of uid] Some
    by (auto simp: Session_Bind_def connLocked_KConn)
  then show ?thesis using k s'(2) Some session_reachable.step [OF assms(1) session_step.bind [OF k]] by auto
qed

theorem session_bind_refines_witness:
  "\<exists>s'. Session_Bind 2 7 demo_session = Ok (None, s') \<and> session_owner s' 7 = Some 2"
  using session_bind_refines [OF demo_reachable, of 2 7]
  by (auto simp: demo_session_value demo_heap_def rebind_def)


text \<open>Over any sequence of binds, whatever was bound before and whichever connections were pushed out
  on the way, a user ends up with the connection that bound it last, as long as that connection
  binds no other user later; and no connection ever serves two users.\<close>

theorem session_last_bind_wins:
  assumes "session_reachable heap s" "distinct (map cnID heap)"
    and "map_of (sConns s) cid \<noteq> None" "uid \<noteq> 0"
    and "\<forall>(c, v) \<in> set ys. c \<noteq> cid \<and> v \<noteq> uid"
  shows "session_owner (bind_sequence (xs @ (cid, uid) # ys) s) uid = Some cid \<and>
         (\<forall>u. session_owner (bind_sequence (xs @ (cid, uid) # ys) s) u = Some cid \<longrightarrow> u = uid)"
proof -
  let ?s = "st.binds (xs @ (cid, uid) # ys) s"
  have ok: "session_ok s" using reachable_ok [OF assms(1,2)] .
  have "session_owner ?s uid = Some cid"
    using assms(3-5) by (intro st.last_bind_wins [OF ok]) (auto simp: session_online_def)
  then show ?thesis
    unfolding bind_sequence_binds using st.owner_inj [OF conjunct1 [OF st.binds_ok [OF ok]]] by blast
qed

theorem session_last_bind_wins_witness:
  "session_owner (bind_sequence [(1, 7), (2, 7), (1, 8)] demo_session) 7 = Some 2"
  using session_last_bind_wins [OF demo_reachable, of 2 7 "[(1, 8)]" "[(1, 7)]"]
  by (simp add: demo_session_value)

text \<open>A reconnecting user is not disturbed by the end of the connection it left: when \<open>Bind\<close> pushes
  out another connection, the close of that connection and its \<open>RemConn\<close> leave the user bound to
  the new connection, remove nothing but the old one, and take it out of every channel.\<close>

theorem session_reconnect_survives_close:
  assumes "session_reachable heap s" "distinct (map cnID heap)"
    and "Session_Bind cid uid s = Ok (Some k, s')" "uid \<noteq> 0"
  shows "session_owner (RemConn (Some k) s') uid = Some cid \<and>
         (\<forall>u. session_owner (RemConn (Some k) s') u = session_owner s' u) \<and>
         (\<forall>c. map_of (sConns (RemConn (Some k) s')) c =
            (if c = cnID (sHeap s ! k) then None else map_of (sConns s) c)) \<and>
         (\<forall>ch. k \<notin> set (snapshotChannel ch (RemConn (Some k) s')))"
  using kicked_RemConn [OF reachable_ok [OF assms(1,2)] assms(3,4)] by auto

definition demo_bound :: session where
  "demo_bound = (case Session_Bind 1 7 demo_session of Ok (_, s) \<Rightarrow> s | _ \<Rightarrow> demo_session)"

lemma demo_bound_eval:
  "Session_Bind 1 7 demo_session = Ok (None, demo_bound)"
  "\<exists>s'. Session_Bind 2 7 demo_bound = Ok (Some 0, s')"
  by (simp_all add: demo_bound_def demo_session_value demo_heap_def Session_Bind_def connLocked_KConn
      conn_Bind_def conn_Unbind_def Let_def)

lemma demo_bound_reachable: "session_reachable demo_heap demo_bound"
  using session_reachable.step [OF demo_reachable(1) session_step.bind [OF demo_bound_eval(1)]] .

theorem session_reconnect_survives_close_witness:
  "\<exists>s'. Session_Bind 2 7 demo_bound = Ok (Some 0, s') \<and> session_owner (RemConn (Some 0) s') 7 = Some 2"
proof -
  obtain s' where s': "Session_Bind 2 7 demo_bound = Ok (Some 0, s')" using demo_bound_eval(2) by blast
  have "session_owner (RemConn (Some 0) s') 7 = Some 2"
    by (rule conjunct1 [OF session_reconnect_survives_close [OF demo_bound_reachable demo_reachable(2) s']]) simp
  with s' show ?thesis by blast
qed

text \<open>\<open>Publish\<close> reaches the subscribers and nobody else: after a successful \<open>Subscribe\<close> of some
  targets to a channel, a message published there is pushed once to every connection that was
  subscribed before or that the targets name, and the count returned is the number of those pushes
  that succeed; other channels are unaffected, and after \<open>Unsubscribe\<close> the targets are out.\<close>

theorem session_publish_reaches_subscribers:
  assumes "session_reachable heap s" "distinct (map cnID heap)"
    and "snapshotTargets kind targets s = Ok cs" "targets \<noteq> []" "ch \<noteq> []"
  shows "\<exists>s1 s2. Session_Subscribe kind targets ch s = Ok s1 \<and> Session_Unsubscribe kind targets ch s = Ok s2 \<and>
     Session_Publish push ch s1 = card {c \<in> set (snapshotChannel ch s) \<union> set cs. push c = None} \<and>
     Session_Publish push ch s2 = card {c \<in> set (snapshotChannel ch s) - set cs. push c = None} \<and>
     (\<forall>x. x \<noteq> ch \<longrightarrow> set (snapshotChannel x s1) = set (snapshotChannel x s) \<and>
        set (snapshotChannel x s2) = set (snapshotChannel x s))"
proof -
  let ?s1 = "fold (subscribe_conn ch) cs (open_channel ch s)"
  let ?s2 = "fold (unsubscribe_conn ch) cs s"
  have ok: "session_ok s" using reachable_ok [OF assms(1,2)] .
  have reg: "\<forall>c \<in> set cs. registered s c" using snapshotTargets_registered [OF ok assms(3)] by blast
  have 1: "session_ok ?s1 \<and> set (snapshotChannel x ?s1) = set (snapshotChannel x s) \<union> (if x = ch then set cs else {})" for x
    using fold_subscribe_conn [OF open_channel_keeps [OF ok, of ch] _ assms(5), of cs x] reg by simp
  have 2: "session_ok ?s2 \<and> set (snapshotChannel x ?s2) = set (snapshotChannel x s) - (if x = ch then set cs else {})" for x
    using fold_unsubscribe_conn [OF ok reg, of ch x] .
  have pub: "Session_Publish push ch t = card {c \<in> set (snapshotChannel ch t). push c = None}" if "session_ok t" for t
    using that assms(5)
    by (simp add: Session_Publish_def count_pushes_def session_ok_def keys_ok_def flip: distinct_card)
  show ?thesis
    using 1 2 pub [of ?s1] pub [of ?s2] assms(3-5) by (auto simp: Session_Subscribe_eq Session_Unsubscribe_eq)
qed

theorem session_publish_reaches_subscribers_witness:
  "\<exists>s1. Session_Subscribe KConn [2, 9] ''c'' demo_session = Ok s1 \<and>
        Session_Publish (\<lambda>_. None) ''c'' s1 = 1"
  using session_publish_reaches_subscribers [OF demo_reachable, of KConn "[2, 9]" "[1]" "''c''" "\<lambda>_. None"]
  by (auto simp: demo_session_value snapshotTargets_def sessionsLocked_def map_filter_simps snapshotChannel_def)

end
