(* ===== verification/Gate.thy ===== *)
theory Gate
  imports ProtocolFacts Session
begin

text \<open>
  A gate and the remote calls other cluster members make to it: the provider of
  \<open>cluster/gate/provider.go\<close> over the session table, the connection callbacks of
  \<open>cluster/gate/gate.go\<close>, the request handlers of \<open>internal/transporter/gate/server.go\<close>, and the
  client of \<open>internal/transporter/gate/client.go\<close>.

  What lies outside the repository or behind a network is an argument: the locator service, the
  socket operations of a connection, the lobby binding of the node linker, and the parser of
  IPv4 addresses.
\<close>

section \<open>State\<close>

record 'l gate_env =
  geID :: string
  geBindGate :: "int64 \<Rightarrow> string \<Rightarrow> 'l \<Rightarrow> goerr option \<times> 'l"
  geUnbindGate :: "int64 \<Rightarrow> string \<Rightarrow> 'l \<Rightarrow> goerr option \<times> 'l"
  geBindLobby :: "int64 \<Rightarrow> 'l \<Rightarrow> goerr option \<times> 'l"
  geConnectionEvents :: bool
  gePush :: "bytes \<Rightarrow> nat \<Rightarrow> goerr option"
  geRemoteIP :: "nat \<Rightarrow> string go"
  geClose :: "nat \<Rightarrow> bool \<Rightarrow> goerr option"
  geParseIP4 :: "string \<Rightarrow> bytes"

text \<open>\<open>gClosed\<close> lists the connections the gate has asked to close and \<open>gEvents\<close> the events it has
  triggered, newest first; \<open>gWg\<close> is the wait group of open connections.\<close>

record 'l gate =
  gSession :: session
  gLocator :: 'l
  gState :: int32
  gClosed :: "nat list"
  gEvents :: "(int \<times> int64 \<times> int64) list"
  gWg :: int

abbreviation (input) Event_Connect :: int where "Event_Connect \<equiv> 1"
abbreviation (input) Event_Reconnect :: int where "Event_Reconnect \<equiv> 2"
abbreviation (input) Event_Disconnect :: int where "Event_Disconnect \<equiv> 3"

section \<open>proxy.go\<close>

definition bindGate :: "'l gate_env \<Rightarrow> int64 \<Rightarrow> int64 \<Rightarrow> 'l gate \<Rightarrow> goerr option \<times> 'l gate" where
  "bindGate env cid uid g =
     (let (err, l) = geBindGate env uid (geID env) (gLocator g) in (err, g\<lparr>gLocator := l\<rparr>))"

definition bindLobby :: "'l gate_env \<Rightarrow> int64 \<Rightarrow> 'l gate \<Rightarrow> goerr option \<times> 'l gate" where
  "bindLobby env uid g = (let (err, l) = geBindLobby env uid (gLocator g) in (err, g\<lparr>gLocator := l\<rparr>))"

definition unbindGate :: "'l gate_env \<Rightarrow> int64 \<Rightarrow> int64 \<Rightarrow> 'l gate \<Rightarrow> goerr option \<times> 'l gate" where
  "unbindGate env cid uid g =
     (let (err, l) = geUnbindGate env uid (geID env) (gLocator g) in (err, g\<lparr>gLocator := l\<rparr>))"

definition trigger :: "int \<Rightarrow> int64 \<Rightarrow> int64 \<Rightarrow> 'l gate \<Rightarrow> 'l gate" where
  "trigger event cid uid g = g\<lparr>gEvents := (event, cid, uid) # gEvents g\<rparr>"

section \<open>provider.go\<close>

text \<open>\<open>session.Bind\<close> and \<open>session.Unbind\<close> on the gate's table; the connection \<open>Bind\<close> pushed out is
  closed by a goroutine of its own.  The session operations do not panic (\<open>session_no_panic\<close>), so
  the branches for \<open>Panic\<close> in this section are never taken.\<close>

definition session_Bind :: "int64 \<Rightarrow> int64 \<Rightarrow> 'l gate \<Rightarrow> goerr option \<times> 'l gate" where
  "session_Bind cid uid g =
     (case Session_Bind cid uid (gSession g) of
        Ok (None, s) \<Rightarrow> (None, g\<lparr>gSession := s\<rparr>)
      | Ok (Some c, s) \<Rightarrow> (None, g\<lparr>gSession := s, gClosed := c # gClosed g\<rparr>)
      | Err e \<Rightarrow> (Some e, g)
      | Panic \<Rightarrow> (None, g))"

definition session_Unbind :: "int64 \<Rightarrow> int64 \<Rightarrow> 'l gate \<Rightarrow> (goerr option \<times> int64) \<times> 'l gate" where
  "session_Unbind cid uid g =
     (case Session_Unbind cid uid (gSession g) of
        Ok (c, s) \<Rightarrow> ((None, c), g\<lparr>gSession := s\<rparr>)
      | Err e \<Rightarrow> ((Some e, 0), g)
      | Panic \<Rightarrow> ((None, 0), g))"

definition gate_bind :: "'l gate_env \<Rightarrow> int64 \<Rightarrow> int64 \<Rightarrow> bool \<Rightarrow> 'l gate \<Rightarrow> goerr option \<times> 'l gate" where
  "gate_bind env cid uid lobby g =
     (if sint cid \<le> 0 \<or> sint uid \<le> 0 then (Some ErrInvalidArgument, g)
      else
        let (err, g) = session_Bind cid uid g
        in if err \<noteq> None then (err, g)
           else
             let (err, g) = bindGate env cid uid g
             in if err \<noteq> None then (err, snd (session_Unbind cid uid g))
                else
                  let (err, g) = (if lobby then bindLobby env uid g else (None, g))
                  in if err \<noteq> None \<and> err \<noteq> Some ErrNotFoundRoute
                     then (err, snd (session_Unbind cid uid (snd (unbindGate env cid uid g))))
                     else (None, if geConnectionEvents env then trigger Event_Reconnect cid uid g else g))"

definition provider_Bind :: "'l gate_env \<Rightarrow> int64 \<Rightarrow> int64 \<Rightarrow> 'l gate \<Rightarrow> goerr option \<times> 'l gate" where
  "provider_Bind env cid uid g = gate_bind env cid uid False g"

text \<open>\<open>Bind\<close> of the context of a gate message, for the connection the message came in on.\<close>

definition context_Bind :: "'l gate_env \<Rightarrow> nat \<Rightarrow> int64 \<Rightarrow> 'l gate \<Rightarrow> goerr option \<times> 'l gate" where
  "context_Bind env c uid g = gate_bind env (conn_ID (gSession g) c) uid True g"

definition provider_Unbind :: "'l gate_env \<Rightarrow> int64 \<Rightarrow> int64 \<Rightarrow> 'l gate \<Rightarrow> goerr option \<times> 'l gate" where
  "provider_Unbind env cid uid g =
     (if uid = 0 then (Some ErrInvalidArgument, g)
      else
        let ((err, cid), g) = session_Unbind cid uid g
        in if err \<noteq> None then (err, g) else unbindGate env cid uid g)"

definition provider_GetIP :: "'l gate_env \<Rightarrow> int \<Rightarrow> int64 \<Rightarrow> 'l gate \<Rightarrow> string go" where
  "provider_GetIP env kind target g = Session_RemoteIP (geRemoteIP env) kind target (gSession g)"

definition provider_IsOnline :: "int \<Rightarrow> int64 \<Rightarrow> 'l gate \<Rightarrow> bool go" where
  "provider_IsOnline kind target g = Session_Has kind target (gSession g)"

definition provider_Stat :: "int \<Rightarrow> 'l gate \<Rightarrow> nat go" where
  "provider_Stat kind g = Session_Stat kind (gSession g)"

definition provider_Disconnect :: "'l gate_env \<Rightarrow> int64 \<Rightarrow> int64 \<Rightarrow> bool \<Rightarrow> 'l gate \<Rightarrow> goerr option \<times> 'l gate" where
  "provider_Disconnect env cid uid force g =
     (case Session_Close cid uid (gSession g) of
        Ok None \<Rightarrow> (None, g)
      | Ok (Some c) \<Rightarrow> (geClose env c force, g\<lparr>gClosed := c # gClosed g\<rparr>)
      | Err e \<Rightarrow> (Some e, g)
      | Panic \<Rightarrow> (None, g))"

text \<open>The locator update after a failed push to a user is done by a goroutine; here it takes effect at
  once, and its error is only logged.\<close>

definition provider_Push :: "'l gate_env \<Rightarrow> int \<Rightarrow> int64 \<Rightarrow> bytes \<Rightarrow> 'l gate \<Rightarrow> goerr option \<times> 'l gate" where
  "provider_Push env kind target message g =
     (let err = Session_Push (gePush env message) kind target (gSession g)
      in (err,
          if kind = KUser \<and> err = Some ErrNotFoundSession
          then g\<lparr>gLocator := snd (geUnbindGate env target (geID env) (gLocator g))\<rparr> else g))"

definition provider_Multicast :: "'l gate_env \<Rightarrow> int \<Rightarrow> int64 list \<Rightarrow> bytes \<Rightarrow> 'l gate \<Rightarrow> nat go" where
  "provider_Multicast env kind targets message g =
     Session_Multicast (gePush env message) kind targets (gSession g)"

definition provider_Broadcast :: "'l gate_env \<Rightarrow> int \<Rightarrow> bytes \<Rightarrow> 'l gate \<Rightarrow> nat go" where
  "provider_Broadcast env kind message g = Session_Broadcast (gePush env message) kind (gSession g)"

definition provider_Publish :: "'l gate_env \<Rightarrow> string \<Rightarrow> bytes \<Rightarrow> 'l gate \<Rightarrow> nat" where
  "provider_Publish env channel message g = Session_Publish (gePush env message) channel (gSession g)"

definition provider_Subscribe :: "int \<Rightarrow> int64 list \<Rightarrow> string \<Rightarrow> 'l gate \<Rightarrow> goerr option \<times> 'l gate" where
  "provider_Subscribe kind targets channel g =
     (case Session_Subscribe kind targets channel (gSession g) of
        Ok s \<Rightarrow> (None, g\<lparr>gSession := s\<rparr>) | Err e \<Rightarrow> (Some e, g) | Panic \<Rightarrow> (None, g))"

definition provider_Unsubscribe :: "int \<Rightarrow> int64 list \<Rightarrow> string \<Rightarrow> 'l gate \<Rightarrow> goerr option \<times> 'l gate" where
  "provider_Unsubscribe kind targets channel g =
     (case Session_Unsubscribe kind targets channel (gSession g) of
        Ok s \<Rightarrow> (None, g\<lparr>gSession := s\<rparr>) | Err e \<Rightarrow> (Some e, g) | Panic \<Rightarrow> (None, g))"

definition provider_GetState :: "'l gate \<Rightarrow> int" where
  "provider_GetState g = sint (gState g)"

definition provider_SetState :: "int \<Rightarrow> 'l gate \<Rightarrow> 'l gate" where
  "provider_SetState state g = g\<lparr>gState := word_of_int state\<rparr>"

section \<open>gate.go: the callbacks of the network server\<close>

definition handleConnect :: "'l gate_env \<Rightarrow> nat \<Rightarrow> 'l gate \<Rightarrow> 'l gate" where
  "handleConnect env c g =
     (let g = g\<lparr>gWg := gWg g + 1\<rparr>;
          g = g\<lparr>gSession := AddConn (Some c) (gSession g)\<rparr>
      in if geConnectionEvents env
         then trigger Event_Connect (conn_ID (gSession g) c) (conn_UID (gSession g) c) g else g)"

definition handleDisconnect :: "'l gate_env \<Rightarrow> nat \<Rightarrow> 'l gate \<Rightarrow> 'l gate" where
  "handleDisconnect env c g =
     (let g = g\<lparr>gSession := RemConn (Some c) (gSession g)\<rparr>;
          cid = conn_ID (gSession g) c; uid = conn_UID (gSession g) c;
          g = (if uid \<noteq> 0
               then let g = snd (unbindGate env cid uid g)
                    in if geConnectionEvents env then trigger Event_Disconnect cid uid g else g
               else if geConnectionEvents env then trigger Event_Disconnect cid uid g else g)
      in g\<lparr>gWg := gWg g - 1\<rparr>)"


section \<open>server.go: the request handlers\<close>

text \<open>A handler either returns an error value (nil when nothing went wrong) or returns what
  \<open>conn.Send\<close> of an encoded response returns.\<close>

datatype outcome = Return "goerr option" | Send encoder

type_synonym 'g handler = "bytes \<Rightarrow> 'g \<Rightarrow> (outcome \<times> 'g) go"

text \<open>The two ends of every handler: a request that does not decode is returned as an error, and a
  request with sequence number 0 gets no response.\<close>

definition with_request :: "'r go \<Rightarrow> ('r \<Rightarrow> (outcome \<times> 'g) go) \<Rightarrow> 'g \<Rightarrow> (outcome \<times> 'g) go" where
  "with_request req f g =
     (case req of Ok r \<Rightarrow> f r | Err e \<Rightarrow> Ok (Return (Some e), g) | Panic \<Rightarrow> Panic)"

definition respond :: "uint64 \<Rightarrow> goerr option \<Rightarrow> encoder \<Rightarrow> outcome" where
  "respond seq err res = (if seq = 0 then Return err else Send res)"

text \<open>A Go pair of a value and an error, the value being the zero value next to an error.\<close>

definition go_pair :: "'a \<Rightarrow> 'a go \<Rightarrow> (goerr option \<times> 'a) go" where
  "go_pair zero r = (case r of Ok v \<Rightarrow> Ok (None, v) | Err e \<Rightarrow> Ok (Some e, zero) | Panic \<Rightarrow> Panic)"

definition server_bind :: "'l gate_env \<Rightarrow> 'l gate handler" where
  "server_bind env data g =
     with_request (DecodeBindReq data) (\<lambda>(seq, cid, uid).
       let (err, g) = provider_Bind env cid uid g
       in Ok (respond seq err (EncodeBindRes seq (ErrorToCode err)), g)) g"

definition server_unbind :: "'l gate_env \<Rightarrow> 'l gate handler" where
  "server_unbind env data g =
     with_request (DecodeUnbindReq data) (\<lambda>(seq, uid, cid).
       let (err, g) = provider_Unbind env uid cid g
       in Ok (respond seq err (EncodeUnbindRes seq (ErrorToCode err)), g)) g"

definition server_getIP :: "'l gate_env \<Rightarrow> 'l gate handler" where
  "server_getIP env data g =
     with_request (DecodeGetIPReq data) (\<lambda>(seq, kind, target).
       go_map (\<lambda>(err, ip). (respond seq err (EncodeGetIPRes (geParseIP4 env) seq (ErrorToCode err) [ip]), g))
         (go_pair [] (provider_GetIP env kind target g))) g"

definition server_stat :: "'l gate_env \<Rightarrow> 'l gate handler" where
  "server_stat env data g =
     with_request (DecodeStatReq data) (\<lambda>(seq, kind).
       go_map (\<lambda>(err, n). (respond seq err (EncodeStatRes seq (ErrorToCode err) [of_nat n]), g))
         (go_pair 0 (provider_Stat kind g))) g"

definition server_isOnline :: "'l gate_env \<Rightarrow> 'l gate handler" where
  "server_isOnline env data g =
     with_request (DecodeIsOnlineReq data) (\<lambda>(seq, kind, target).
       go_map (\<lambda>(err, online). (respond seq err (EncodeIsOnlineRes seq (ErrorToCode err) online), g))
         (go_pair False (provider_IsOnline kind target g))) g"

text \<open>The handler names the two fields \<open>kind\<close> and \<open>target\<close>; they are what \<open>DecodeDisconnectReq\<close>
  returns as the user id and the connection id.\<close>

definition server_disconnect :: "'l gate_env \<Rightarrow> 'l gate handler" where
  "server_disconnect env data g =
     with_request (DecodeDisconnectReq data) (\<lambda>(seq, kind, target, force).
       let (err, g) = provider_Disconnect env kind target force g
       in Ok (respond seq err (EncodeDisconnectRes seq (ErrorToCode err)), g)) g"

definition server_push :: "'l gate_env \<Rightarrow> 'l gate handler" where
  "server_push env data g =
     with_request (DecodePushReq data) (\<lambda>(seq, kind, target, message).
       let (err, g) = provider_Push env kind target message g
       in Ok (respond seq err (EncodePushRes seq (ErrorToCode err)), g)) g"

definition server_multicast :: "'l gate_env \<Rightarrow> 'l gate handler" where
  "server_multicast env data g =
     with_request (DecodeMulticastReq data) (\<lambda>(seq, kind, targets, message).
       go_map (\<lambda>(err, n). (respond seq err (EncodeMulticastRes seq (ErrorToCode err) [of_nat n]), g))
         (go_pair 0 (provider_Multicast env kind targets message g))) g"

definition server_broadcast :: "'l gate_env \<Rightarrow> 'l gate handler" where
  "server_broadcast env data g =
     with_request (DecodeBroadcastReq data) (\<lambda>(seq, kind, message).
       go_map (\<lambda>(err, n). (respond seq err (EncodeBroadcastRes seq (ErrorToCode err) [of_nat n]), g))
         (go_pair 0 (provider_Broadcast env kind message g))) g"

definition server_publish :: "'l gate_env \<Rightarrow> 'l gate handler" where
  "server_publish env data g =
     with_request (DecodePublishReq data) (\<lambda>(seq, channel, message).
       Ok (respond seq None (EncodePublishRes seq (of_nat (provider_Publish env channel message g))), g)) g"

definition server_subscribe :: "'l gate_env \<Rightarrow> 'l gate handler" where
  "server_subscribe env data g =
     with_request (DecodeSubscribeReq data) (\<lambda>(seq, kind, targets, channel).
       let (err, g) = provider_Subscribe kind targets channel g
       in Ok (respond seq err (EncodeSubscribeRes seq (ErrorToCode err)), g)) g"

definition server_unsubscribe :: "'l gate_env \<Rightarrow> 'l gate handler" where
  "server_unsubscribe env data g =
     with_request (DecodeUnsubscribeReq data) (\<lambda>(seq, kind, targets, channel).
       let (err, g) = provider_Unsubscribe kind targets channel g
       in Ok (respond seq err (EncodeUnsubscribeRes seq (ErrorToCode err)), g)) g"

definition server_getState :: "'l gate_env \<Rightarrow> 'l gate handler" where
  "server_getState env data g =
     with_request (DecodeGetStateReq data) (\<lambda>seq.
       Ok (respond seq None (EncodeGetStateRes seq (ErrorToCode None) (provider_GetState g)), g)) g"

definition server_setState :: "'l gate_env \<Rightarrow> 'l gate handler" where
  "server_setState env data g =
     with_request (DecodeSetStateReq data) (\<lambda>(seq, state).
       Ok (respond seq None (EncodeSetStateRes seq (ErrorToCode None)), provider_SetState state g)) g"

text \<open>The handshake of the underlying server; what it records of the peer is not part of the gate.\<close>

definition server_handshake :: "'g handler" where
  "server_handshake data g =
     with_request (DecodeHandshakeReq data) (\<lambda>(seq, insKind, insID).
       Ok (Send (EncodeHandshakeRes seq (ErrorToCode None)), g)) g"

text \<open>\<open>NewServer\<close> and \<open>init\<close> fill the handler table, \<open>getHandler\<close> looks a route up.\<close>

definition server_handlers :: "'l gate_env \<Rightarrow> (uint8 \<times> 'l gate handler) list" where
  "server_handlers env =
     [(route_Handshake, server_handshake), (route_Bind, server_bind env), (route_Unbind, server_unbind env),
      (route_GetIP, server_getIP env), (route_Stat, server_stat env), (route_IsOnline, server_isOnline env),
      (route_Disconnect, server_disconnect env), (route_Push, server_push env),
      (route_Multicast, server_multicast env), (route_Broadcast, server_broadcast env),
      (route_Publish, server_publish env), (route_Subscribe, server_subscribe env),
      (route_Unsubscribe, server_unsubscribe env), (route_GetState, server_getState env),
      (route_SetState, server_setState env)]"

definition getHandler :: "'l gate_env \<Rightarrow> uint8 \<Rightarrow> 'l gate handler option" where
  "getHandler env rt = map_of (server_handlers env) rt"

text \<open>One turn of the read loop of a server connection: the frame is read and handled, and the bytes
  to be sent back are what the write loop takes out of the response's chain.\<close>

definition write_chain :: "nocopy \<Rightarrow> bytes" where
  "write_chain b = snd (Visit (\<lambda>k out. (True, case NocopyNode_Bytes k of Ok d \<Rightarrow> out @ d | _ \<Rightarrow> out)) b [])"

definition encode_wire :: "(writer list \<Rightarrow> nat option) \<Rightarrow> writer_pool \<Rightarrow> encoder \<Rightarrow> bytes go" where
  "encode_wire sel wp e = go_map (\<lambda>(b, _). write_chain b) (e sel wp)"

definition serve_frame ::
  "'l gate_env \<Rightarrow> (writer list \<Rightarrow> nat option) \<Rightarrow> writer_pool \<Rightarrow> bytes \<Rightarrow> 'l gate \<Rightarrow> (bytes option \<times> 'l gate) go" where
  "serve_frame env sel wp stream g =
     go_bind (proto_ReadMessage stream) (\<lambda>((isHeartbeat, routeID, seq, data), rest).
       if isHeartbeat then go_map (\<lambda>hb. (Some hb, g)) Heartbeat
       else
         case getHandler env routeID of
           None \<Rightarrow> Ok (None, g)
         | Some handler \<Rightarrow>
             go_bind (handler data g) (\<lambda>(out, g).
               case out of
                 Return err \<Rightarrow> Ok (None, g)
               | Send e \<Rightarrow> go_map (\<lambda>bs. (Some bs, g)) (encode_wire sel wp e)))"

end
