(* ===== verification/GateClient.thy ===== *)
theory GateClient
  imports Gate
begin

text \<open>
  The client side of the remote calls to a gate (\<open>internal/transporter/gate/client.go\<close>), and the
  contract of a remote call: the locale \<open>remote_method\<close> says what a request, its handler and its
  response must satisfy, and shows that calling through the wire is calling the provider, with
  errors reduced to the three codes the protocol has.  It is interpreted for the methods.
\<close>

section \<open>The client\<close>

text \<open>The transport a client works on (\<open>internal/client\<close>): a call waits for the response with the
  request's sequence number, a send does not wait.\<close>

record 's transport =
  tCall :: "uint64 \<Rightarrow> encoder \<Rightarrow> 's \<Rightarrow> bytes go \<times> 's"
  tSend :: "encoder \<Rightarrow> int64 list \<Rightarrow> 's \<Rightarrow> goerr option \<times> 's"

text \<open>Sequence numbers are drawn from a counter that wraps; 0 is skipped.\<close>

function doGenSequence :: "uint64 \<Rightarrow> uint64" where
  "doGenSequence c = (let seq = c + 1 in if seq \<noteq> 0 then seq else doGenSequence seq)"
  by auto
termination
  by (relation "measure (\<lambda>c. if c = - 1 then 1 else 0)") (auto simp: eq_neg_iff_add_eq_0)

declare doGenSequence.simps [simp del]

definition check_code :: "uint16 \<times> 'a \<Rightarrow> 'a go" where
  "check_code r = (case CodeToError (fst r) of None \<Rightarrow> Ok (snd r) | Some e \<Rightarrow> Err e)"

text \<open>The common body of the methods: draw a number, call, decode.\<close>

definition client_call ::
  "'s transport \<Rightarrow> (uint64 \<Rightarrow> encoder) \<Rightarrow> (bytes \<Rightarrow> 'a go) \<Rightarrow> uint64 \<Rightarrow> 's \<Rightarrow> 'a go \<times> uint64 \<times> 's" where
  "client_call tr req dec c s =
     (let seq = doGenSequence c; (res, s) = tCall tr seq (req seq) s in (go_bind res dec, seq, s))"

definition decode_code :: "(bytes \<Rightarrow> uint16 go) \<Rightarrow> bytes \<Rightarrow> unit go" where
  "decode_code dec data = go_bind (dec data) (\<lambda>code. check_code (code, ()))"

definition Client_Bind where
  "Client_Bind tr cid uid = client_call tr (\<lambda>seq. EncodeBindReq seq cid uid) (decode_code DecodeBindRes)"

definition Client_Unbind where
  "Client_Unbind tr uid cid = client_call tr (\<lambda>seq. EncodeUnbindReq seq uid cid) (decode_code DecodeUnbindRes)"

definition Client_GetIP where
  "Client_GetIP tr kind target =
     client_call tr (\<lambda>seq. EncodeGetIPReq seq kind target) (\<lambda>data. go_bind (DecodeGetIPRes data) check_code)"

definition Client_Stat where
  "Client_Stat tr kind =
     client_call tr (\<lambda>seq. EncodeStatReq seq kind) (\<lambda>data. go_bind (DecodeStatRes data) check_code)"

definition Client_IsOnline where
  "Client_IsOnline tr kind target =
     client_call tr (\<lambda>seq. EncodeIsOnlineReq seq kind target) (\<lambda>data. go_bind (DecodeIsOnlineRes data) check_code)"

definition Client_Disconnect where
  "Client_Disconnect tr uid cid force =
     client_call tr (\<lambda>seq. EncodeDisconnectReq seq uid cid force) (decode_code DecodeDisconnectRes)"

text \<open>The methods with an optional acknowledgement: without it the request carries number 0 and
  nothing is awaited.\<close>

definition wants_ack :: "bool list \<Rightarrow> bool" where
  "wants_ack ack \<longleftrightarrow> ack \<noteq> [] \<and> hd ack"

definition client_send :: "'s transport \<Rightarrow> encoder \<Rightarrow> int64 list \<Rightarrow> 'a \<Rightarrow> uint64 \<Rightarrow> 's \<Rightarrow> 'a go \<times> uint64 \<times> 's" where
  "client_send tr e idx v c s =
     (let (err, s) = tSend tr e idx s in (case err of None \<Rightarrow> Ok v | Some e \<Rightarrow> Err e, c, s))"

definition Client_Push where
  "Client_Push tr kind target message ack =
     (if wants_ack ack
      then client_call tr (\<lambda>seq. EncodePushReq seq kind target message) (decode_code DecodePushRes)
      else client_send tr (EncodePushReq 0 kind target message) [target] ())"

definition Client_Multicast where
  "Client_Multicast tr kind targets message ack =
     (if wants_ack ack
      then client_call tr (\<lambda>seq. EncodeMulticastReq seq kind targets message)
             (\<lambda>data. go_bind (DecodeMulticastRes data) check_code)
      else client_send tr (EncodeMulticastReq 0 kind targets message) [] 0)"

definition Client_Broadcast where
  "Client_Broadcast tr kind message ack =
     (if wants_ack ack
      then client_call tr (\<lambda>seq. EncodeBroadcastReq seq kind message)
             (\<lambda>data. go_bind (DecodeBroadcastRes data) check_code)
      else client_send tr (EncodeBroadcastReq 0 kind message) [] 0)"

definition Client_Publish ::
  "'s transport \<Rightarrow> string \<Rightarrow> mountable \<Rightarrow> bool list \<Rightarrow> uint64 \<Rightarrow> 's \<Rightarrow> uint64 go \<times> uint64 \<times> 's" where
  "Client_Publish tr channel message ack c s =
     (if length channel > 255 then (Err ErrInvalidArgument, c, s)
      else if wants_ack ack
      then client_call tr (\<lambda>seq. EncodePublishReq seq channel message) DecodePublishRes c s
      else client_send tr (EncodePublishReq 0 channel message) [] 0 c s)"

definition Client_Subscribe ::
  "'s transport \<Rightarrow> int \<Rightarrow> int64 list \<Rightarrow> string \<Rightarrow> uint64 \<Rightarrow> 's \<Rightarrow> unit go \<times> uint64 \<times> 's" where
  "Client_Subscribe tr kind targets channel c s =
     (if length channel > 255 then (Err ErrInvalidArgument, c, s)
      else client_call tr (\<lambda>seq. EncodeSubscribeReq seq kind targets channel)
             (decode_code DecodeSubscribeRes) c s)"

definition Client_Unsubscribe ::
  "'s transport \<Rightarrow> int \<Rightarrow> int64 list \<Rightarrow> string \<Rightarrow> uint64 \<Rightarrow> 's \<Rightarrow> unit go \<times> uint64 \<times> 's" where
  "Client_Unsubscribe tr kind targets channel c s =
     (if length channel > 255 then (Err ErrInvalidArgument, c, s)
      else client_call tr (\<lambda>seq. EncodeUnsubscribeReq seq kind targets channel)
             (decode_code DecodeUnsubscribeRes) c s)"

definition Client_GetState where
  "Client_GetState tr =
     client_call tr (\<lambda>seq. EncodeGetStateReq seq) (\<lambda>data. go_bind (DecodeGetStateRes data) check_code)"

definition Client_SetState where
  "Client_SetState tr state = client_call tr (\<lambda>seq. EncodeSetStateReq seq state) (decode_code DecodeSetStateRes)"

section \<open>A wire between client and gate\<close>

text \<open>
  A connection that loses nothing: the request's bytes reach the gate, and the bytes sent back reach
  the client, which accepts them when the sequence number is the one it waits for.  In every other
  case (no response, a response to another request, a connection the gate closed) the call runs
  into its deadline.
\<close>

definition gate_call ::
  "'l gate_env \<Rightarrow> (writer list \<Rightarrow> nat option) \<Rightarrow> writer_pool \<Rightarrow> uint64 \<Rightarrow> encoder \<Rightarrow> 'l gate \<Rightarrow> bytes go \<times> 'l gate" where
  "gate_call env sel wp seq e g =
     (case encode_wire sel wp e of
        Ok req \<Rightarrow>
          (case serve_frame env sel wp req g of
             Ok (Some res, g') \<Rightarrow>
               (case proto_ReadMessage res of
                  Ok ((isHeartbeat, _, resSeq, data), _) \<Rightarrow>
                    (if \<not> isHeartbeat \<and> resSeq = seq then Ok data else Err ContextDeadlineExceeded, g')
                | _ \<Rightarrow> (Err ContextDeadlineExceeded, g'))
           | Ok (None, g') \<Rightarrow> (Err ContextDeadlineExceeded, g')
           | _ \<Rightarrow> (Err ContextDeadlineExceeded, g))
      | Err e \<Rightarrow> (Err e, g)
      | Panic \<Rightarrow> (Panic, g))"

definition gate_send ::
  "'l gate_env \<Rightarrow> (writer list \<Rightarrow> nat option) \<Rightarrow> writer_pool \<Rightarrow> encoder \<Rightarrow> int64 list \<Rightarrow> 'l gate \<Rightarrow> goerr option \<times> 'l gate" where
  "gate_send env sel wp e idx g =
     (case encode_wire sel wp e of
        Ok req \<Rightarrow> (None, case serve_frame env sel wp req g of Ok (_, g') \<Rightarrow> g' | _ \<Rightarrow> g)
      | Err e \<Rightarrow> (Some e, g)
      | Panic \<Rightarrow> (None, g))"

definition gate_wire :: "'l gate_env \<Rightarrow> (writer list \<Rightarrow> nat option) \<Rightarrow> writer_pool \<Rightarrow> 'l gate transport" where
  "gate_wire env sel wp = \<lparr>tCall = gate_call env sel wp, tSend = gate_send env sel wp\<rparr>"


section \<open>What travels\<close>

lemma ok_leaves:
  "nocopy_ok b \<Longrightarrow> \<forall>k \<in> set (leaves b). block_ok k"
  "children_ok cs \<Longrightarrow> \<forall>k \<in> set (child_leaves cs). block_ok k"
  by (induction b and cs rule: nocopy_ok_children_ok.induct) auto

lemma fold_write: "\<forall>k \<in> set ks. block_ok k \<Longrightarrow>
  fold (\<lambda>k out. case NocopyNode_Bytes k of Ok d \<Rightarrow> out @ d | _ \<Rightarrow> out) ks out = out @ concat (map block_data ks)"
  by (induction ks arbitrary: out) (auto simp: NocopyNode_Bytes_ok)

lemma write_chain_contents: "nocopy_ok b \<Longrightarrow> write_chain b = contents b"
  by (simp add: write_chain_def Visit_all(1) fold_write ok_leaves contents_def)

lemma encode_wire_encodes: "\<lbrakk>encodes e bs; writer_pool_ok wp\<rbrakk> \<Longrightarrow> encode_wire sel wp e = Ok bs"
proof -
  assume "encodes e bs" "writer_pool_ok wp"
  then obtain b wp' where "e sel wp = Ok (b, wp')" "nocopy_ok b" "contents b = bs"
    unfolding encodes_def by blast
  then show ?thesis by (simp add: encode_wire_def write_chain_contents)
qed

lemma doGenSequence_nonzero: "doGenSequence c \<noteq> 0"
  by (induction c rule: doGenSequence.induct) (simp add: doGenSequence.simps Let_def)

text \<open>The two errors that survive the wire.\<close>

definition wire_error :: "goerr option \<Rightarrow> goerr option" where
  "wire_error err = CodeToError (ErrorToCode err)"

lemma wire_error_simps [simp]:
  "wire_error None = None" "wire_error (Some ErrNotFoundSession) = Some ErrNotFoundSession"
  "e \<noteq> ErrNotFoundSession \<Longrightarrow> wire_error (Some e) = Some ErrUnknownError"
  by (simp_all add: wire_error_def ErrorToCode_def CodeToError_def codes_OK_def codes_NotFoundSession_def
      codes_InternalError_def split: goerr.split)

lemma ErrorToCode_OK [simp]: "ErrorToCode err = codes_OK \<longleftrightarrow> err = None"
  by (auto simp: ErrorToCode_def codes_OK_def codes_NotFoundSession_def codes_InternalError_def
      split: option.split goerr.split)

definition remote_result :: "goerr option \<times> 'b \<Rightarrow> 'b go" where
  "remote_result r = (case wire_error (fst r) of None \<Rightarrow> Ok (snd r) | Some e \<Rightarrow> Err e)"

lemma check_code_remote [simp]: "check_code (ErrorToCode err, v) = remote_result (err, v)"
  by (simp add: check_code_def remote_result_def wire_error_def split: option.split)

lemma remote_result_simps [simp]:
  "remote_result (None, v) = Ok v" "remote_result (Some ErrNotFoundSession, v) = Err ErrNotFoundSession"
  by (simp_all add: remote_result_def)

lemma remote_result_error: "err \<noteq> None \<Longrightarrow> remote_result (err, v) = remote_result (err, w)"
  by (cases "err = Some ErrNotFoundSession"; cases err) (auto simp: remote_result_def)

section \<open>Remote methods\<close>

text \<open>
  A method of the gate as seen over the wire: \<open>op\<close> is what the provider does, with its error and its
  value.  The laws ask that the route leads to the handler, that the request is encoded as one
  frame, that the handler of that frame does what the provider does and answers with one frame,
  and that this frame decodes to the provider's result.
\<close>

locale remote_method =
  fixes good :: "'a \<Rightarrow> bool" and rt :: uint8
    and req :: "uint64 \<Rightarrow> 'a \<Rightarrow> encoder" and req_body :: "'a \<Rightarrow> bytes"
    and handler :: "'l gate_env \<Rightarrow> 'l gate handler"
    and op :: "'l gate_env \<Rightarrow> 'a \<Rightarrow> 'l gate \<Rightarrow> (goerr option \<times> 'b) \<times> 'l gate"
    and res_body :: "goerr option \<times> 'b \<Rightarrow> bytes" and dec :: "bytes \<Rightarrow> 'c go" and val :: "'b \<Rightarrow> 'c"
  assumes routed: "getHandler env rt = Some (handler env)"
    and requested: "good a \<Longrightarrow> encodes (req seq a) (frame rt seq (req_body a)) \<and> length (req_body a) < 2 ^ 32 - 14"
    and handled: "\<lbrakk>good a; seq \<noteq> 0\<rbrakk> \<Longrightarrow>
      \<exists>e. handler env (frame rt seq (req_body a)) g = Ok (Send e, snd (op env a g)) \<and>
          encodes e (frame rt seq (res_body (fst (op env a g))))"
    and short: "length (res_body r) < 2 ^ 32 - 14"
    and decoded: "good a \<Longrightarrow> dec (frame rt seq (res_body (fst (op env a g)))) =
      remote_result (fst (fst (op env a g)), val (snd (fst (op env a g))))"
begin

lemma gate_call_op:
  assumes "good a" "seq \<noteq> 0" "writer_pool_ok wp"
  shows "gate_call env sel wp seq (req seq a) g =
         (Ok (frame rt seq (res_body (fst (op env a g)))), snd (op env a g))"
proof -
  obtain e where e: "handler env (frame rt seq (req_body a)) g = Ok (Send e, snd (op env a g))"
    and enc: "encodes e (frame rt seq (res_body (fst (op env a g))))"
    using handled [OF assms(1,2)] by blast
  have "serve_frame env sel wp (frame rt seq (req_body a)) g =
      Ok (Some (frame rt seq (res_body (fst (op env a g)))), snd (op env a g))"
    using proto_ReadMessage_frame [of "req_body a" rt seq "[]"] requested [OF assms(1), of seq] e
      encode_wire_encodes [OF enc assms(3), of sel]
    by (simp add: serve_frame_def routed)
  then show ?thesis
    using encode_wire_encodes [OF conjunct1 [OF requested [OF assms(1)]] assms(3), of sel seq]
      proto_ReadMessage_frame [OF short, of rt seq "fst (op env a g)" "[]"]
    by (simp add: gate_call_def)
qed

text \<open>Calling over the wire is calling the provider.\<close>

lemma remote:
  assumes "good a" "writer_pool_ok wp"
  shows "client_call (gate_wire env sel wp) (\<lambda>seq. req seq a) dec c g =
         (remote_result (fst (fst (op env a g)), val (snd (fst (op env a g)))), doGenSequence c, snd (op env a g))"
  using gate_call_op [OF assms(1) doGenSequence_nonzero assms(2), of env sel c g] decoded [OF assms(1)]
  by (simp add: client_call_def gate_wire_def Let_def)

end


text \<open>The methods whose response is only a code, and the ones with a value.\<close>

abbreviation code_body :: "goerr option \<times> unit \<Rightarrow> bytes" where
  "code_body r \<equiv> PutUint16 BigEndian (ErrorToCode (fst r))"

definition err_op :: "goerr option \<times> 'g \<Rightarrow> (goerr option \<times> unit) \<times> 'g" where
  "err_op r = ((fst r, ()), snd r)"

lemma err_op_simps [simp]: "fst (err_op r) = (fst r, ())" "snd (err_op r) = snd r"
  by (simp_all add: err_op_def)

lemmas handler_simps = with_request_def respond_def split_beta Let_def

lemmas route_defs = route_Handshake_def route_Bind_def route_Unbind_def route_GetIP_def route_Stat_def
  route_IsOnline_def route_Disconnect_def route_Push_def route_Multicast_def route_Broadcast_def
  route_Publish_def route_Subscribe_def route_Unsubscribe_def route_GetState_def route_SetState_def

lemma getHandler_routes:
  "getHandler env route_Bind = Some (server_bind env)" "getHandler env route_Unbind = Some (server_unbind env)"
  "getHandler env route_GetIP = Some (server_getIP env)" "getHandler env route_Stat = Some (server_stat env)"
  "getHandler env route_IsOnline = Some (server_isOnline env)"
  "getHandler env route_Disconnect = Some (server_disconnect env)"
  "getHandler env route_Push = Some (server_push env)"
  "getHandler env route_Multicast = Some (server_multicast env)"
  "getHandler env route_Broadcast = Some (server_broadcast env)"
  "getHandler env route_Publish = Some (server_publish env)"
  "getHandler env route_Subscribe = Some (server_subscribe env)"
  "getHandler env route_Unsubscribe = Some (server_unsubscribe env)"
  "getHandler env route_GetState = Some (server_getState env)"
  "getHandler env route_SetState = Some (server_setState env)"
  by (simp_all add: getHandler_def server_handlers_def route_defs)

interpretation m_bind: remote_method "\<lambda>_. True" route_Bind "\<lambda>seq (cid, uid). EncodeBindReq seq cid uid"
  "\<lambda>(cid, uid). PutUint64 BigEndian cid @ PutUint64 BigEndian uid" server_bind
  "\<lambda>env (cid, uid) g. err_op (provider_Bind env cid uid g)" code_body "decode_code DecodeBindRes" "\<lambda>u. u"
  by unfold_locales
     (auto simp: getHandler_routes EncodeBindReq_encodes server_bind_def DecodeBindReq_frame handler_simps
       EncodeBindRes_encodes decode_code_def DecodeBindRes_frame)

interpretation m_unbind: remote_method "\<lambda>_. True" route_Unbind "\<lambda>seq (uid, cid). EncodeUnbindReq seq uid cid"
  "\<lambda>(uid, cid). PutUint64 BigEndian uid @ PutUint64 BigEndian cid" server_unbind
  "\<lambda>env (uid, cid) g. err_op (provider_Unbind env uid cid g)" code_body "decode_code DecodeUnbindRes" "\<lambda>u. u"
  by unfold_locales
     (auto simp: getHandler_routes EncodeUnbindReq_encodes server_unbind_def DecodeUnbindReq_frame handler_simps
       EncodeUnbindRes_encodes decode_code_def DecodeUnbindRes_frame)


interpretation m_disconnect: remote_method "\<lambda>_. True" route_Disconnect
  "\<lambda>seq (uid, cid, force). EncodeDisconnectReq seq uid cid force"
  "\<lambda>(uid, cid, force). PutUint64 BigEndian uid @ PutUint64 BigEndian cid @ [if force then 1 else 0]"
  server_disconnect "\<lambda>env (uid, cid, force) g. err_op (provider_Disconnect env uid cid force g)" code_body
  "decode_code DecodeDisconnectRes" "\<lambda>u. u"
  by unfold_locales
     (auto simp: getHandler_routes EncodeDisconnectReq_encodes server_disconnect_def DecodeDisconnectReq_frame
       handler_simps EncodeDisconnectRes_encodes decode_code_def DecodeDisconnectRes_frame
       simp del: if_split)

text \<open>No operation of the session table panics.\<close>

lemma sessionsLocked_no_panic: "sessionsLocked kind s \<noteq> Panic" "connLocked kind target s \<noteq> Panic"
  by (auto simp: sessionsLocked_def connLocked_def split: option.split)

lemma go_map_no_panic [simp]: "go_map f m = Panic \<longleftrightarrow> m = Panic"
  by (cases m) auto

lemma session_no_panic:
  "Session_Has kind target s \<noteq> Panic" "Session_Stat kind s \<noteq> Panic"
  "Session_Multicast push kind targets s \<noteq> Panic" "Session_Broadcast push kind s \<noteq> Panic"
  "Session_Bind cid uid s \<noteq> Panic" "Session_Unbind cid uid s \<noteq> Panic" "Session_Close cid uid s \<noteq> Panic"
  "Session_Subscribe kind targets ch s \<noteq> Panic" "Session_Unsubscribe kind targets ch s \<noteq> Panic"
  by (auto simp: Session_Has_def Session_Stat_def Session_Multicast_def Session_Broadcast_def snapshotTargets_def
      snapshotAll_def Session_Bind_def Session_Unbind_def Session_Close_def Session_Subscribe_def
      Session_Unsubscribe_def sessionsLocked_no_panic go_bind_eq_Panic Let_def split: option.splits if_splits)

definition value_op :: "'b \<Rightarrow> 'b go \<Rightarrow> 'g \<Rightarrow> (goerr option \<times> 'b) \<times> 'g" where
  "value_op zero r g = (case r of Ok v \<Rightarrow> ((None, v), g) | Err e \<Rightarrow> ((Some e, zero), g) | Panic \<Rightarrow> ((None, zero), g))"

lemma value_op_state [simp]: "snd (value_op zero r g) = g"
  by (simp add: value_op_def split: go.split)

lemma value_handled:
  assumes "r \<noteq> Panic" "\<And>err v. encodes (enc err v) (frame rt seq (body (err, v)))"
  shows "\<exists>e. go_map (\<lambda>(err, v). (Send (enc err v), g)) (go_pair zero r) = Ok (Send e, g) \<and>
             encodes e (frame rt seq (body (fst (value_op zero r g))))"
  using assms by (cases r) (auto simp: go_pair_def value_op_def)

abbreviation kind_ok :: "int \<Rightarrow> bool" where
  "kind_ok kind \<equiv> 0 \<le> kind \<and> kind < 256"

interpretation m_isOnline: remote_method "\<lambda>(kind, target). kind_ok kind" route_IsOnline
  "\<lambda>seq (kind, target). EncodeIsOnlineReq seq kind target"
  "\<lambda>(kind, target). byte_of_int kind # PutUint64 BigEndian target" server_isOnline
  "\<lambda>env (kind, target) g. value_op False (provider_IsOnline kind target g) g"
  "\<lambda>r. PutUint16 BigEndian (ErrorToCode (fst r)) @ [if snd r then 1 else 0]"
  "\<lambda>data. go_bind (DecodeIsOnlineRes data) check_code" "\<lambda>v. v"
  by unfold_locales
     (auto simp: getHandler_routes EncodeIsOnlineReq_encodes server_isOnline_def DecodeIsOnlineReq_frame
       handler_simps EncodeIsOnlineRes_encodes DecodeIsOnlineRes_frame provider_IsOnline_def session_no_panic
       intro!: value_handled [where body = "\<lambda>r. PutUint16 BigEndian (ErrorToCode (fst r)) @ [if snd r then 1 else 0]"]
       split del: if_split)

lemma DecodeGetStateRes_byte:
  "DecodeGetStateRes (frame route_GetState seq (PutUint16 BigEndian code @ [b])) = Ok (code, int_of_byte b)"
  by (simp add: DecodeGetStateRes_def getStateResBytes_def decode_simps)

interpretation m_getState: remote_method "\<lambda>_. True" route_GetState "\<lambda>seq _. EncodeGetStateReq seq" "\<lambda>_. []"
  server_getState "\<lambda>env _ g. ((None, provider_GetState g), g)"
  "\<lambda>(err, v). PutUint16 BigEndian (ErrorToCode err) @ [byte_of_int v]"
  "\<lambda>data. go_bind (DecodeGetStateRes data) check_code" "\<lambda>v. int_of_byte (byte_of_int v)"
  by unfold_locales
     (auto simp: getHandler_routes EncodeGetStateReq_encodes server_getState_def DecodeGetStateReq_frame
       handler_simps EncodeGetStateRes_encodes DecodeGetStateRes_byte)

interpretation m_setState: remote_method kind_ok route_SetState "\<lambda>seq state. EncodeSetStateReq seq state"
  "\<lambda>state. [byte_of_int state]" server_setState "\<lambda>env state g. err_op (None, provider_SetState state g)"
  code_body "decode_code DecodeSetStateRes" "\<lambda>u. u"
  by unfold_locales
     (auto simp: getHandler_routes EncodeSetStateReq_encodes server_setState_def DecodeSetStateReq_frame
       handler_simps EncodeSetStateRes_encodes decode_code_def DecodeSetStateRes_frame)


text \<open>The methods that carry a packet, for packets of less than 2 GiB and within the offsets the
  decoders can express.\<close>

abbreviation packet_ok :: "mountable \<Rightarrow> bool" where
  "packet_ok m \<equiv> mountable_ok m \<and> length (mount_data m) < 2 ^ 31"

interpretation m_push: remote_method "\<lambda>(kind, target, m). kind_ok kind \<and> packet_ok m" route_Push
  "\<lambda>seq (kind, target, m). EncodePushReq seq kind target m"
  "\<lambda>(kind, target, m). byte_of_int kind # PutUint64 BigEndian target @ mount_data m" server_push
  "\<lambda>env (kind, target, m) g. err_op (provider_Push env kind target (mount_data m) g)" code_body
  "decode_code DecodePushRes" "\<lambda>u. u"
  by unfold_locales
     (auto simp: getHandler_routes EncodePushReq_encodes server_push_def DecodePushReq_frame
       handler_simps EncodePushRes_encodes decode_code_def DecodePushRes_frame)

abbreviation total_body :: "goerr option \<times> nat \<Rightarrow> bytes" where
  "total_body r \<equiv> PutUint16 BigEndian (ErrorToCode (fst r)) @ total_part (ErrorToCode (fst r)) [of_nat (snd r)]"

lemma check_code_total [simp]:
  "remote_result (err, total_value (ErrorToCode err) [v]) = remote_result (err, v)"
  by (cases err) (auto simp: total_value_def intro: remote_result_error)

lemma length_total_part: "length (total_part code tot) \<le> 8"
  by (simp add: total_part_def)

lemma total_body_short: "length (total_body r) < 2 ^ 32 - 14"
  using length_total_part [of "ErrorToCode (fst r)" "[of_nat (snd r)]"] by simp

interpretation m_broadcast: remote_method "\<lambda>(kind, m). kind_ok kind \<and> packet_ok m" route_Broadcast
  "\<lambda>seq (kind, m). EncodeBroadcastReq seq kind m" "\<lambda>(kind, m). byte_of_int kind # mount_data m" server_broadcast
  "\<lambda>env (kind, m) g. value_op 0 (provider_Broadcast env kind (mount_data m) g) g" total_body
  "\<lambda>data. go_bind (DecodeBroadcastRes data) check_code" of_nat
  using total_body_short
  by unfold_locales
     (auto simp: getHandler_routes EncodeBroadcastReq_encodes server_broadcast_def DecodeBroadcastReq_frame
       handler_simps EncodeBroadcastRes_encodes DecodeBroadcastRes_frame provider_Broadcast_def session_no_panic
       intro!: value_handled [where body = total_body])

abbreviation targets_ok :: "int64 list \<Rightarrow> bool" where
  "targets_ok ts \<equiv> length ts < 8190"

lemma targets_body_short:
  "\<lbrakk>targets_ok ts; length rest < 2 ^ 31\<rbrakk> \<Longrightarrow>
   length (byte_of_int kind # count_bytes ts @ targets_bytes ts @ rest) < 2 ^ 32 - 14"
  by (simp add: u64.length_concat_put)

lemma DecodeMulticastReq_small:
  "\<lbrakk>targets_ok ts; kind_ok kind\<rbrakk> \<Longrightarrow>
   DecodeMulticastReq (targets_frame route_Multicast seq kind ts msg) = Ok (seq, kind, ts, msg)"
  by (simp only: DecodeMulticastReq_frame targets_offset_small drop_targets_frame)

lemma DecodeSubscribeReq_small:
  "\<lbrakk>targets_ok ts; kind_ok kind\<rbrakk> \<Longrightarrow>
   DecodeSubscribeReq (targets_frame route_Subscribe seq kind ts (string_bytes ch)) = Ok (seq, kind, ts, ch)"
  by (simp only: DecodeSubscribeReq_frame targets_offset_small drop_targets_frame bytes_string_string_bytes)

lemma DecodeUnsubscribeReq_small:
  "\<lbrakk>targets_ok ts; kind_ok kind\<rbrakk> \<Longrightarrow>
   DecodeUnsubscribeReq (targets_frame route_Unsubscribe seq kind ts (string_bytes ch)) = Ok (seq, kind, ts, ch)"
  by (simp only: DecodeUnsubscribeReq_frame targets_offset_small drop_targets_frame bytes_string_string_bytes)


lemmas targets_simps = targets_frame_def [symmetric] EncodeMulticastReq_encodes EncodeSubscribeReq_encodes
  EncodeUnsubscribeReq_encodes DecodeMulticastReq_small DecodeSubscribeReq_small DecodeUnsubscribeReq_small

interpretation m_multicast: remote_method "\<lambda>(kind, ts, m). kind_ok kind \<and> targets_ok ts \<and> packet_ok m"
  route_Multicast "\<lambda>seq (kind, ts, m). EncodeMulticastReq seq kind ts m"
  "\<lambda>(kind, ts, m). byte_of_int kind # count_bytes ts @ targets_bytes ts @ mount_data m" server_multicast
  "\<lambda>env (kind, ts, m) g. value_op 0 (provider_Multicast env kind ts (mount_data m) g) g" total_body
  "\<lambda>data. go_bind (DecodeMulticastRes data) check_code" of_nat
  using total_body_short targets_body_short
  by unfold_locales
     (auto simp: getHandler_routes server_multicast_def targets_simps
       handler_simps EncodeMulticastRes_encodes DecodeMulticastRes_frame provider_Multicast_def session_no_panic
       intro!: value_handled [where body = total_body])

interpretation m_subscribe: remote_method "\<lambda>(kind, ts, ch). kind_ok kind \<and> targets_ok ts \<and> length ch < 256"
  route_Subscribe "\<lambda>seq (kind, ts, ch). EncodeSubscribeReq seq kind ts ch"
  "\<lambda>(kind, ts, ch). byte_of_int kind # count_bytes ts @ targets_bytes ts @ string_bytes ch" server_subscribe
  "\<lambda>env (kind, ts, ch) g. err_op (provider_Subscribe kind ts ch g)" code_body "decode_code DecodeSubscribeRes" "\<lambda>u. u"
  by unfold_locales
     (auto simp: getHandler_routes server_subscribe_def targets_simps u64.length_concat_put
       handler_simps EncodeSubscribeRes_encodes decode_code_def DecodeSubscribeRes_frame)

interpretation m_unsubscribe: remote_method "\<lambda>(kind, ts, ch). kind_ok kind \<and> targets_ok ts \<and> length ch < 256"
  route_Unsubscribe "\<lambda>seq (kind, ts, ch). EncodeUnsubscribeReq seq kind ts ch"
  "\<lambda>(kind, ts, ch). byte_of_int kind # count_bytes ts @ targets_bytes ts @ string_bytes ch" server_unsubscribe
  "\<lambda>env (kind, ts, ch) g. err_op (provider_Unsubscribe kind ts ch g)" code_body "decode_code DecodeUnsubscribeRes" "\<lambda>u. u"
  by unfold_locales
     (auto simp: getHandler_routes server_unsubscribe_def targets_simps u64.length_concat_put
       handler_simps EncodeUnsubscribeRes_encodes decode_code_def DecodeUnsubscribeRes_frame)

lemma DecodePublishReq_small:
  "length ch \<le> 240 \<Longrightarrow> DecodePublishReq (publish_frame seq ch msg) = Ok (seq, ch, msg)"
proof -
  assume "length ch \<le> 240"
  then have "length ch \<le> 255" "(15 + length ch) mod 2 ^ 8 = 15 + length ch" by simp_all
  then show ?thesis by (simp only: DecodePublishReq_frame drop_publish_frame)
qed

interpretation m_publish: remote_method "\<lambda>(ch, m). length ch \<le> 240 \<and> packet_ok m" route_Publish
  "\<lambda>seq (ch, m). EncodePublishReq seq ch m" "\<lambda>(ch, m). of_nat (length ch) # string_bytes ch @ mount_data m"
  server_publish "\<lambda>env (ch, m) g. ((None, provider_Publish env ch (mount_data m) g), g)"
  "\<lambda>r. PutUint64 BigEndian (of_nat (snd r))" DecodePublishRes of_nat
  by unfold_locales
     (auto simp: getHandler_routes EncodePublishReq_encodes server_publish_def DecodePublishReq_small
       handler_simps EncodePublishRes_encodes DecodePublishRes_frame remote_result_def)


section \<open>The gate under binds and disconnects\<close>

text \<open>\<open>Session.Bind\<close> at the gate: the session afterwards, the connection that is closed, and nothing
  else of the gate changed.\<close>

lemma session_Bind_ok:
  assumes "session_ok (gSession g)" "session_online (gSession g) cid"
  obtains s k where "session_Bind cid uid g = (None, g\<lparr>gSession := s, gClosed := k @ gClosed g\<rparr>)" "session_ok s"
    "session_online s = session_online (gSession g)" "session_owner s = rebind cid uid (session_owner (gSession g))"
proof -
  obtain s where s: "bind_op cid uid (gSession g) = Ok s" "session_ok s" "session_online s = session_online (gSession g)"
      "session_owner s = rebind cid uid (session_owner (gSession g))"
    using bind_op_online [OF assms] by blast
  then obtain k where k: "Session_Bind cid uid (gSession g) = Ok (k, s)" by (auto simp: bind_op_def go_map_eq_Ok)
  have "session_Bind cid uid g = (None, g\<lparr>gSession := s, gClosed := (case k of None \<Rightarrow> [] | Some c \<Rightarrow> [c]) @ gClosed g\<rparr>)"
    using k by (cases g) (auto simp: session_Bind_def split: option.split)
  with s show ?thesis using that by blast
qed

text \<open>\<open>Session.Unbind\<close> of the connection's own user.\<close>

lemma session_Unbind_own:
  assumes "session_ok (gSession g)" "session_owner (gSession g) uid = Some cid" "cid \<noteq> 0"
  obtains s where "session_Unbind cid uid g = ((None, cid), g\<lparr>gSession := s\<rparr>)" "session_ok s"
    "session_owner s = rebind cid 0 (session_owner (gSession g))"
proof -
  obtain c where c: "conns (gSession g) cid = Some c" using owner_registered [OF assms(1,2)] by blast
  then have u: "uid \<noteq> 0" "conn_UID (gSession g) c = uid" using session_owner_user [OF assms(1) c] assms(2) by auto
  have reg: "registered (gSession g) c" using connsD [OF _ c] assms(1) by (simp add: session_ok_def)
  let ?s = "bind_result c 0 (gSession g)"
  have "session_Unbind cid uid g = ((None, cid), g\<lparr>gSession := ?s\<rparr>)"
    using Session_Unbind_eq [OF assms(1) c assms(3) u(1)] u by (simp add: session_Unbind_def)
  moreover have "session_ok ?s" "session_owner ?s = rebind cid 0 (session_owner (gSession g))"
    using bind_result_ok [OF assms(1) reg] session_owner_bind_result [OF assms(1) c] u by auto
  ultimately show ?thesis using that by blast
qed

lemma sint_pos_nonzero: "0 < sint (x :: int64) \<Longrightarrow> x \<noteq> 0"
  by auto

lemma rebind_other: "u \<noteq> uid \<Longrightarrow> rebind cid uid b u = (if b u = Some cid then None else b u)"
  by (simp add: rebind_def)

section \<open>Properties\<close>



text \<open>A gate for the witnesses: the locator is a list of the users bound to gates.\<close>

definition demo_env :: "(int64 \<times> string) list gate_env" where
  "demo_env = \<lparr>geID = ''g1'', geBindGate = (\<lambda>uid gid l. (None, (uid, gid) # l)),
     geUnbindGate = (\<lambda>uid gid l. (None, removeAll (uid, gid) l)), geBindLobby = (\<lambda>uid l. (None, l)),
     geConnectionEvents = False, gePush = (\<lambda>_ _. None), geRemoteIP = (\<lambda>_. Ok []), geClose = (\<lambda>_ _. None),
     geParseIP4 = (\<lambda>_. [])\<rparr>"

definition demo_gate :: "session \<Rightarrow> (int64 \<times> string) list gate" where
  "demo_gate s = \<lparr>gSession = s, gLocator = [(7, ''g1'')], gState = 1, gClosed = [], gEvents = [], gWg = 2\<rparr>"


text \<open>The remote \<open>Unbind\<close> and \<open>Disconnect\<close> exchange user id and connection id: the request carries
  the user first, and the handlers hand the two to a provider that expects the connection first.
  So unbinding or disconnecting a user that is bound to a connection has no effect and reports
  that there is no session, unless the user id happens to be a connection id (for \<open>Disconnect\<close>
  also: or the connection id a bound user id).\<close>

theorem gate_unbind_disconnect_swapped:
  assumes "writer_pool_ok wp" "session_owner (gSession g) uid = Some cid" "cid \<noteq> 0"
    and "map_of (sConns (gSession g)) uid = None" "map_of (sUsers (gSession g)) cid = None"
  shows "Client_Unbind (gate_wire env sel wp) uid cid c g = (Err ErrNotFoundSession, doGenSequence c, g) \<and>
         Client_Disconnect (gate_wire env sel wp) uid cid force c g = (Err ErrNotFoundSession, doGenSequence c, g)"
proof -
  have "provider_Unbind env uid cid g = (Some ErrNotFoundSession, g)"
    using assms(3,4)
    by (simp add: provider_Unbind_def session_Unbind_def Session_Unbind_def connLocked_KConn split_beta)
  moreover have "provider_Disconnect env uid cid force g = (Some ErrNotFoundSession, g)"
    using assms(4,5) by (simp add: provider_Disconnect_def Session_Close_def)
  ultimately show ?thesis
    using m_unbind.remote [OF _ assms(1), where a = "(uid, cid)" and env = env and g = g]
      m_disconnect.remote [OF _ assms(1), where a = "(uid, cid, force)" and env = env and g = g]
    by (simp add: Client_Unbind_def Client_Disconnect_def)
qed

theorem gate_unbind_disconnect_swapped_witness:
  "fst (Client_Unbind (gate_wire demo_env (\<lambda>_. None) (NewWriterPool 32)) 7 1 0 (demo_gate demo_bound)) =
     Err ErrNotFoundSession"
proof -
  have own: "session_owner (gSession (demo_gate demo_bound)) 7 = Some 1"
    and none: "map_of (sConns (gSession (demo_gate demo_bound))) 7 = None"
      "map_of (sUsers (gSession (demo_gate demo_bound))) 1 = None"
    by (simp_all add: demo_gate_def session_owner_def demo_bound_def demo_session_value demo_heap_def
        Session_Bind_def connLocked_KConn conn_Bind_def Let_def)
  from gate_unbind_disconnect_swapped [OF NewWriterPool_ok own _ none] show ?thesis by simp
qed

text \<open>C23. A remote \<open>Bind\<close> of a live connection to a user, when the locator service accepts it, binds
  exactly that: the user-to-connection map is rebound, the locator is told, and nothing else of
  the gate changes but the closing of the connection the user had.\<close>

theorem gate_bind_end_to_end:
  assumes "writer_pool_ok wp" "session_reachable heap (gSession g)" "distinct (map cnID heap)"
    and "map_of (sConns (gSession g)) cid \<noteq> None" "0 < sint cid" "0 < sint uid"
    and "geBindGate env uid (geID env) (gLocator g) = (None, l)"
  shows "\<exists>g'. Client_Bind (gate_wire env sel wp) cid uid c g = (Ok (), doGenSequence c, g') \<and>
     session_owner (gSession g') = rebind cid uid (session_owner (gSession g)) \<and>
     session_owner (gSession g') uid = Some cid \<and> gLocator g' = l \<and> gState g' = gState g \<and> gWg g' = gWg g"
proof -
  have ok: "session_ok (gSession g)" using reachable_ok [OF assms(2,3)] .
  have "session_online (gSession g) cid" using assms(4) by (simp add: session_online_def)
  then obtain s k where s: "session_Bind cid uid g = (None, g\<lparr>gSession := s, gClosed := k @ gClosed g\<rparr>)" "session_ok s"
    "session_owner s = rebind cid uid (session_owner (gSession g))"
    by (rule session_Bind_ok [OF ok])
  define h where "h = g\<lparr>gSession := s, gClosed := k @ gClosed g, gLocator := l\<rparr>"
  have "provider_Bind env cid uid g =
      (None, if geConnectionEvents env then trigger Event_Reconnect cid uid h else h)"
    using assms(5-7) s(1) by (simp add: provider_Bind_def gate_bind_def bindGate_def h_def)
  then show ?thesis
    using m_bind.remote [OF _ assms(1), where a = "(cid, uid)" and env = env and sel = sel and c = c and g = g] s(3) sint_pos_nonzero [OF assms(6)]
    by (auto simp: Client_Bind_def h_def trigger_def rebind_def)
qed

theorem gate_bind_end_to_end_witness:
  "\<exists>g'. Client_Bind (gate_wire demo_env (\<lambda>_. None) (NewWriterPool 32)) 2 7 0 (demo_gate demo_bound) =
     (Ok (), doGenSequence 0, g') \<and> session_owner (gSession g') 7 = Some 2"
proof -
  have r: "session_reachable demo_heap (gSession (demo_gate demo_bound))"
    using demo_bound_reachable by (simp add: demo_gate_def)
  have "map_of (sConns (gSession (demo_gate demo_bound))) 2 \<noteq> None"
    by (simp add: demo_gate_def demo_bound_def demo_session_value demo_heap_def Session_Bind_def connLocked_KConn Let_def)
  from gate_bind_end_to_end [OF NewWriterPool_ok [of 32] r demo_reachable(2) this, where uid = 7 and env = demo_env
      and sel = "\<lambda>_. None" and c = 0 and l = "[(7, ''g1''), (7, ''g1'')]"]
  have "\<exists>g'. Client_Bind (gate_wire demo_env (\<lambda>_. None) (NewWriterPool 32)) 2 7 0 (demo_gate demo_bound) =
     (Ok (), doGenSequence 0, g') \<and>
     session_owner (gSession g') = rebind 2 7 (session_owner (gSession (demo_gate demo_bound))) \<and>
     session_owner (gSession g') 7 = Some 2 \<and> gLocator g' = [(7, ''g1''), (7, ''g1'')] \<and>
     gState g' = gState (demo_gate demo_bound) \<and> gWg g' = gWg (demo_gate demo_bound)"
    by (simp add: demo_env_def demo_gate_def)
  then show ?thesis by blast
qed


text \<open>A bind the locator service refuses is rolled back: the error is returned, the user is bound
  to no connection of this gate, the connection serves no user, and every other user keeps its
  connection.\<close>

theorem gate_bind_rolled_back:
  assumes "session_reachable heap (gSession g)" "distinct (map cnID heap)"
    and "map_of (sConns (gSession g)) cid \<noteq> None" "0 < sint cid" "0 < sint uid"
    and "geBindGate env uid (geID env) (gLocator g) = (Some e, l)"
  shows "\<exists>g'. gate_bind env cid uid lobby g = (Some e, g') \<and> gLocator g' = l \<and>
     session_owner (gSession g') uid = None \<and> (\<forall>u. session_owner (gSession g') u \<noteq> Some cid) \<and>
     (\<forall>u. u \<noteq> uid \<and> session_owner (gSession g) u \<noteq> Some cid \<longrightarrow>
        session_owner (gSession g') u = session_owner (gSession g) u)"
proof -
  have ok: "session_ok (gSession g)" using reachable_ok [OF assms(1,2)] .
  have "session_online (gSession g) cid" using assms(3) by (simp add: session_online_def)
  then obtain s k where s: "session_Bind cid uid g = (None, g\<lparr>gSession := s, gClosed := k @ gClosed g\<rparr>)" "session_ok s"
    "session_owner s = rebind cid uid (session_owner (gSession g))"
    by (rule session_Bind_ok [OF ok])
  define h where "h = g\<lparr>gSession := s, gClosed := k @ gClosed g, gLocator := l\<rparr>"
  have h: "session_ok (gSession h)" "session_owner (gSession h) uid = Some cid"
    using s(2,3) sint_pos_nonzero [OF assms(5)] by (simp_all add: h_def rebind_def)
  obtain s' where s': "session_Unbind cid uid h = ((None, cid), h\<lparr>gSession := s'\<rparr>)"
      "session_owner s' = rebind cid 0 (session_owner (gSession h))"
    using session_Unbind_own [OF h sint_pos_nonzero [OF assms(4)]] by metis
  have "gate_bind env cid uid lobby g = (Some e, h\<lparr>gSession := s'\<rparr>)"
    using assms(4-6) s(1) s'(1) by (simp add: gate_bind_def bindGate_def h_def)
  moreover have "session_owner s' u = (if u = uid then None else rebind cid 0 (session_owner (gSession g)) u)" for u
    using s(3) s'(2) sint_pos_nonzero [OF assms(5)] by (simp add: h_def rebind_def)
  ultimately show ?thesis by (auto simp: h_def rebind_def)
qed

theorem gate_bind_rolled_back_witness:
  "\<exists>g'. gate_bind (demo_env\<lparr>geBindGate := \<lambda>_ _ l. (Some ErrNotFoundLocator, l)\<rparr>) 2 7 True (demo_gate demo_bound) =
      (Some ErrNotFoundLocator, g') \<and> session_owner (gSession g') 7 = None"
proof -
  have r: "session_reachable demo_heap (gSession (demo_gate demo_bound))"
    using demo_bound_reachable by (simp add: demo_gate_def)
  have on: "map_of (sConns (gSession (demo_gate demo_bound))) 2 \<noteq> None"
    by (simp add: demo_gate_def demo_bound_def demo_session_value demo_heap_def Session_Bind_def connLocked_KConn Let_def)
  show ?thesis
    using gate_bind_rolled_back [OF r demo_reachable(2) on, of 7
        "demo_env\<lparr>geBindGate := \<lambda>_ _ l. (Some ErrNotFoundLocator, l)\<rparr>" ErrNotFoundLocator _ True]
    by auto
qed

text \<open>The locator keeps a reconnected user: when a bind pushes out the user's old connection, the
  disconnect callback of that connection changes neither the locator nor any binding, and the
  wait group is decremented once.\<close>

theorem gate_reconnect_keeps_location:
  assumes "session_reachable heap (gSession g)" "distinct (map cnID heap)"
    and "session_Bind cid uid g = (None, g')" "gClosed g' = k # gClosed g" "uid \<noteq> 0"
  shows "gLocator (handleDisconnect env k g') = gLocator g \<and> gWg (handleDisconnect env k g') = gWg g - 1 \<and>
         session_owner (gSession (handleDisconnect env k g')) uid = Some cid \<and>
         session_owner (gSession (handleDisconnect env k g')) = session_owner (gSession g')"
proof -
  have ok: "session_ok (gSession g)" using reachable_ok [OF assms(1,2)] .
  obtain s where b: "Session_Bind cid uid (gSession g) = Ok (Some k, s)"
    and g': "g' = g\<lparr>gSession := s, gClosed := k # gClosed g\<rparr>"
    using assms(3,4) by (auto simp: session_Bind_def split: go.splits option.splits prod.splits)
  have own: "session_owner (RemConn (Some k) s) uid = Some cid" "session_owner (RemConn (Some k) s) = session_owner s"
    using kicked_RemConn [OF ok b assms(5)] by auto
  have "conn_UID (RemConn (Some k) s) k = 0" using kicked_RemConn [OF ok b assms(5)] by simp
  then show ?thesis
    using own by (simp add: handleDisconnect_def Let_def g' trigger_def)
qed


theorem gate_reconnect_keeps_location_witness:
  "\<exists>g'. session_Bind 2 7 (demo_gate demo_bound) = (None, g') \<and>
        gLocator (handleDisconnect demo_env 0 g') = [(7, ''g1'')]"
proof -
  have r: "session_reachable demo_heap (gSession (demo_gate demo_bound))"
    using demo_bound_reachable by (simp add: demo_gate_def)
  obtain s' where "Session_Bind 2 7 demo_bound = Ok (Some 0, s')" using demo_bound_eval(2) by blast
  then obtain g' where g': "session_Bind 2 7 (demo_gate demo_bound) = (None, g')"
      "gClosed g' = 0 # gClosed (demo_gate demo_bound)"
    by (auto simp: session_Bind_def demo_gate_def)
  have "gLocator (handleDisconnect demo_env 0 g') = gLocator (demo_gate demo_bound)"
    by (rule conjunct1 [OF gate_reconnect_keeps_location [OF r demo_reachable(2) g']]) simp
  with g'(1) show ?thesis by (auto simp: demo_gate_def)
qed

text \<open>A stale \<open>Unbind\<close> is refused by the session but not by the provider: when the connection
  no longer serves the user (it has reconnected elsewhere), the session is untouched, yet the
  provider still tells the locator to drop the user's gate.\<close>

theorem gate_stale_unbind_drops_location:
  assumes "map_of (sConns (gSession g)) cid = Some c" "cnUID (sHeap (gSession g) ! c) \<noteq> uid" "cid \<noteq> 0" "uid \<noteq> 0"
  shows "provider_Unbind env cid uid g =
    (fst (geUnbindGate env uid (geID env) (gLocator g)),
     g\<lparr>gLocator := snd (geUnbindGate env uid (geID env) (gLocator g))\<rparr>)"
  using assms
  by (simp add: provider_Unbind_def session_Unbind_def Session_Unbind_def connLocked_KConn unbindGate_def split_beta)

theorem gate_stale_unbind_drops_location_witness:
  "session_owner (gSession (demo_gate demo_bound)) 7 = Some 1 \<and>
   gLocator (snd (provider_Unbind demo_env 2 7 (demo_gate demo_bound))) = []"
  using gate_stale_unbind_drops_location [of "demo_gate demo_bound" 2 1 7 demo_env]
  by (simp add: demo_gate_def session_owner_def demo_bound_def demo_session_value demo_heap_def
      Session_Bind_def connLocked_KConn conn_Bind_def Let_def demo_env_def)

end
