(* ===== verification/GoIO.thy ===== *)
theory GoIO
  imports Prelude
begin

text \<open>
  The two interfaces of package \<open>io\<close> as arguments of the model.  A writer is given bytes and a state
  and says how many it took and whether it failed; a reader is given the length of a slice and
  returns the bytes it put there.
\<close>

type_synonym 'w io_writer = "bytes \<Rightarrow> 'w \<Rightarrow> nat \<times> goerr option \<times> 'w"
type_synonym 'r io_reader = "nat \<Rightarrow> 'r \<Rightarrow> bytes \<times> goerr option \<times> 'r"

text \<open>A writer that keeps the contract of \<open>io.Writer\<close>: it takes a prefix of what it is given and says
  how long that prefix is.  \<open>sink\<close> is what it has taken so far.\<close>

definition honest_writer :: "('w \<Rightarrow> bytes) \<Rightarrow> 'w io_writer \<Rightarrow> bool" where
  "honest_writer sink wr \<longleftrightarrow>
     (\<forall>p st m err st'. wr p st = (m, err, st') \<longrightarrow> m \<le> length p \<and> sink st' = sink st @ take m p)"

lemma honest_writerD:
  "honest_writer sink wr \<Longrightarrow> wr p st = (m, err, st') \<Longrightarrow> m \<le> length p \<and> sink st' = sink st @ take m p"
  by (auto simp: honest_writer_def)

end
