(* ===== verification/Fifo.thy ===== *)
theory Fifo
  imports Pool GoIO
begin

text \<open>
  The contract of the byte buffers of \<open>utils/xbuffer\<close>: a first-in first-out queue of bytes.  The
  ring buffer, the linked-list buffer, the elastic ring and the elastic buffer that combines them
  each implement it; what a client can rely on is proved once, for any sequence of calls.
\<close>

datatype fifo_op = FWrite bytes | FRead nat | FDiscard nat

text \<open>What a sequence of calls does to a plain list of bytes, and the bytes each call hands out.\<close>

fun fifo_spec :: "fifo_op list \<Rightarrow> bytes \<Rightarrow> bytes list \<times> bytes" where
  "fifo_spec [] q = ([], q)"
| "fifo_spec (FWrite p # ops) q = (let (outs, q') = fifo_spec ops (q @ p) in ([] # outs, q'))"
| "fifo_spec (FRead k # ops) q = (let (outs, q') = fifo_spec ops (drop k q) in (take k q # outs, q'))"
| "fifo_spec (FDiscard k # ops) q = (let (outs, q') = fifo_spec ops (drop k q) in ([] # outs, q'))"

text \<open>The same calls on an implementation.  A write returns \<open>None\<close> when it does not return.\<close>

fun fifo_run :: "(bytes \<Rightarrow> 'b \<Rightarrow> 'b option) \<Rightarrow> (nat \<Rightarrow> 'b \<Rightarrow> bytes \<times> 'b) \<Rightarrow> (nat \<Rightarrow> 'b \<Rightarrow> nat \<times> 'b) \<Rightarrow>
    fifo_op list \<Rightarrow> 'b \<Rightarrow> (bytes list \<times> 'b) option" where
  "fifo_run wr rd dc [] b = Some ([], b)"
| "fifo_run wr rd dc (FWrite p # ops) b =
     Option.bind (wr p b) (\<lambda>b. map_option (apfst (Cons [])) (fifo_run wr rd dc ops b))"
| "fifo_run wr rd dc (FRead k # ops) b =
     (let (d, b) = rd k b in map_option (apfst (Cons d)) (fifo_run wr rd dc ops b))"
| "fifo_run wr rd dc (FDiscard k # ops) b =
     (let (n, b) = dc k b in map_option (apfst (Cons [])) (fifo_run wr rd dc ops b))"

fun fifo_written :: "fifo_op list \<Rightarrow> bytes" where
  "fifo_written [] = []"
| "fifo_written (FWrite p # ops) = p @ fifo_written ops"
| "fifo_written (_ # ops) = fifo_written ops"

text \<open>Without discards, what is read, then what is left, is what was there, then what was written.\<close>

lemma fifo_spec_stream:
  "\<lbrakk>\<forall>k. FDiscard k \<notin> set ops; fifo_spec ops q = (outs, q')\<rbrakk> \<Longrightarrow> concat outs @ q' = q @ fifo_written ops"
proof (induction ops q arbitrary: outs q' rule: fifo_spec.induct)
  case (2 p ops q)
  then show ?case by (auto split: prod.splits)
next
  case (3 k ops q)
  obtain outs1 q1 where r: "fifo_spec ops (drop k q) = (outs1, q1)" by fastforce
  then have "concat outs1 @ q1 = drop k q @ fifo_written ops" using 3 by auto
  then have "take k q @ concat outs1 @ q1 = q @ fifo_written ops" by simp
  then show ?case using 3(3) r by auto
qed auto

locale byte_fifo =
  fixes ok :: "'b \<Rightarrow> bool" and held :: "'b \<Rightarrow> bytes"
    and wr :: "bytes \<Rightarrow> 'b \<Rightarrow> 'b option" and rd :: "nat \<Rightarrow> 'b \<Rightarrow> bytes \<times> 'b" and dc :: "nat \<Rightarrow> 'b \<Rightarrow> nat \<times> 'b"
  assumes write_law: "ok b \<Longrightarrow> \<exists>b'. wr p b = Some b' \<and> ok b' \<and> held b' = held b @ p"
    and read_law: "ok b \<Longrightarrow> rd k b = (d, b') \<Longrightarrow> ok b' \<and> d = take k (held b) \<and> held b' = drop k (held b)"
    and discard_law: "ok b \<Longrightarrow> dc k b = (n, b') \<Longrightarrow>
      ok b' \<and> n = min k (length (held b)) \<and> held b' = drop k (held b)"
begin

lemma refines:
  "ok b \<Longrightarrow> \<exists>b'. fifo_run wr rd dc ops b = Some (fst (fifo_spec ops (held b)), b') \<and> ok b' \<and>
     held b' = snd (fifo_spec ops (held b))"
proof (induction ops arbitrary: b)
  case (Cons op ops)
  show ?case
  proof (cases op)
    case (FWrite p)
    obtain b1 where b1: "wr p b = Some b1" "ok b1" "held b1 = held b @ p"
      using write_law [OF Cons.prems] by blast
    then show ?thesis using Cons.IH [OF b1(2)] FWrite by (auto simp: split_beta)
  next
    case (FRead k)
    obtain d b1 where r: "rd k b = (d, b1)" by fastforce
    then show ?thesis using Cons.IH [of b1] read_law [OF Cons.prems r] FRead by (auto simp: split_beta)
  next
    case (FDiscard k)
    obtain n b1 where r: "dc k b = (n, b1)" by fastforce
    then show ?thesis using Cons.IH [of b1] discard_law [OF Cons.prems r] FDiscard by (auto simp: split_beta)
  qed
qed simp

lemma stream:
  assumes "ok b" "\<forall>k. FDiscard k \<notin> set ops"
  shows "\<exists>outs b'. fifo_run wr rd dc ops b = Some (outs, b') \<and> ok b' \<and> concat outs @ held b' = held b @ fifo_written ops"
proof -
  obtain outs q where s: "fifo_spec ops (held b) = (outs, q)" by fastforce
  then show ?thesis using refines [OF assms(1), of ops] fifo_spec_stream [OF assms(2) s] by auto
qed

end

text \<open>The bytes a \<open>Read\<close> copied, whatever error it reports next to them.\<close>

primrec go_bytes :: "bytes go \<Rightarrow> bytes" where
  "go_bytes (Ok d) = d"
| "go_bytes (Err e) = []"
| "go_bytes Panic = []"

end
