(* ===== verification/RingBuffer.thy ===== *)
theory RingBuffer
  imports Fifo
begin

text \<open>
  The growing ring buffer of \<open>utils/xbuffer/xring\<close> (used by every \<open>xnet\<close> connection for inbound
  bytes) and the two power-of-two functions of \<open>utils/xmath\<close> it uses.  A buffer is a backing slice
  with a read and a write index and a flag that tells an empty buffer from a full one; what it
  holds is \<open>content\<close>, a plain byte list, and each operation is shown to be the list operation.

  A slice taken from the byte-slice pool keeps what was in it: \<open>mem\<close> stands for that.  \<open>Write\<close>
  returns an option because the loop that computes the new capacity is a partial function; that it
  always returns is part of what is proved.
\<close>

section \<open>Powers of two\<close>

text \<open>\<open>bits.Len\<close> and \<open>CeilToPowerOfTwo\<close>; its panic for arguments above \<open>2\<^sup>6\<^sup>2\<close> is out of reach for
  lengths of slices.\<close>

fun bits_Len :: "nat \<Rightarrow> nat" where
  "bits_Len n = (if n = 0 then 0 else Suc (bits_Len (n div 2)))"

declare bits_Len.simps [simp del]

definition IsPowerOfTwo :: "nat \<Rightarrow> bool" where
  "IsPowerOfTwo n \<longleftrightarrow> n > 0 \<and> and n (n - 1) = 0"

definition CeilToPowerOfTwo :: "nat \<Rightarrow> nat" where
  "CeilToPowerOfTwo n = (if n \<le> 2 then 2 else 2 ^ bits_Len (n - 1))"

definition ClosestPowerOfTwo :: "nat \<Rightarrow> nat" where
  "ClosestPowerOfTwo n =
     (let next = CeilToPowerOfTwo n; prev = next div 2
      in if int n - int prev < int next - int n then prev else next)"

lemma bits_Len_upper: "n < 2 ^ bits_Len n"
proof (induction n rule: bits_Len.induct)
  case (1 n)
  then show ?case by (cases "n = 0") (simp_all add: bits_Len.simps [of n])
qed

lemma bits_Len_lower: "0 < n \<Longrightarrow> 2 ^ bits_Len n \<le> 2 * n"
proof (induction n rule: bits_Len.induct)
  case (1 n)
  show ?case
  proof (cases "n div 2 = 0")
    case True
    then have "n = 1" using 1(2) by simp
    then show ?thesis by (simp add: bits_Len.simps)
  next
    case False
    then show ?thesis using 1 by (simp add: bits_Len.simps [of n])
  qed
qed

section \<open>State\<close>

record ring =
  rgBuf :: bytes
  rgSize :: nat
  rgR :: nat
  rgW :: nat
  rgEmpty :: bool

definition ring_New :: "nat \<Rightarrow> ring" where
  "ring_New n =
     (if n = 0 then \<lparr>rgBuf = [], rgSize = 0, rgR = 0, rgW = 0, rgEmpty = True\<rparr>
      else let size = CeilToPowerOfTwo n
           in \<lparr>rgBuf = replicate size 0, rgSize = size, rgR = 0, rgW = 0, rgEmpty = True\<rparr>)"

definition ring_Reset :: "ring \<Rightarrow> ring" where
  "ring_Reset rb = rb\<lparr>rgEmpty := True, rgR := 0, rgW := 0\<rparr>"

definition ring_IsFull :: "ring \<Rightarrow> bool" where
  "ring_IsFull rb \<longleftrightarrow> rgR rb = rgW rb \<and> \<not> rgEmpty rb"

definition ring_Buffered :: "ring \<Rightarrow> nat" where
  "ring_Buffered rb =
     (if rgR rb = rgW rb then (if rgEmpty rb then 0 else rgSize rb)
      else if rgW rb > rgR rb then rgW rb - rgR rb
      else rgSize rb - rgR rb + rgW rb)"

definition ring_Available :: "ring \<Rightarrow> nat" where
  "ring_Available rb =
     (if rgR rb = rgW rb then (if rgEmpty rb then rgSize rb else 0)
      else if rgW rb < rgR rb then rgR rb - rgW rb
      else rgSize rb - rgW rb + rgR rb)"

section \<open>Reading\<close>

definition ring_peekAll :: "ring \<Rightarrow> bytes \<times> bytes" where
  "ring_peekAll rb =
     (if rgEmpty rb then ([], [])
      else if rgW rb > rgR rb then (take (rgW rb - rgR rb) (drop (rgR rb) (rgBuf rb)), [])
      else (drop (rgR rb) (rgBuf rb), if rgW rb \<noteq> 0 then take (rgW rb) (rgBuf rb) else []))"

definition ring_Peek :: "int \<Rightarrow> ring \<Rightarrow> bytes \<times> bytes" where
  "ring_Peek n rb =
     (if rgEmpty rb then ([], [])
      else if n \<le> 0 then ring_peekAll rb
      else if rgW rb > rgR rb
      then let m = min (rgW rb - rgR rb) (nat n) in (take m (drop (rgR rb) (rgBuf rb)), [])
      else let m = min (rgSize rb - rgR rb + rgW rb) (nat n)
           in if rgR rb + m \<le> rgSize rb then (take m (drop (rgR rb) (rgBuf rb)), [])
              else let c1 = rgSize rb - rgR rb; c2 = m - c1
                   in (drop (rgR rb) (rgBuf rb), take c2 (rgBuf rb)))"

definition ring_Discard :: "int \<Rightarrow> ring \<Rightarrow> nat \<times> ring" where
  "ring_Discard n rb =
     (if n \<le> 0 then (0, rb)
      else let discarded = ring_Buffered rb
           in if nat n < discarded then (nat n, rb\<lparr>rgR := (rgR rb + nat n) mod rgSize rb\<rparr>)
              else (discarded, ring_Reset rb))"

text \<open>\<open>Read(p)\<close> with \<open>k = len(p)\<close>; the bytes copied into \<open>p\<close> are the result.\<close>

definition ring_Read :: "nat \<Rightarrow> ring \<Rightarrow> bytes go \<times> ring" where
  "ring_Read k rb =
     (if k = 0 then (Ok [], rb)
      else if rgEmpty rb then (Err ErrIsEmpty, rb)
      else if rgW rb > rgR rb
      then let n = min (rgW rb - rgR rb) k;
               data = take n (drop (rgR rb) (rgBuf rb));
               rb = rb\<lparr>rgR := rgR rb + n\<rparr>
           in (Ok data, if rgR rb = rgW rb then ring_Reset rb else rb)
      else let n = min (rgSize rb - rgR rb + rgW rb) k;
               data = (if rgR rb + n \<le> rgSize rb then take n (drop (rgR rb) (rgBuf rb))
                       else let c1 = rgSize rb - rgR rb; c2 = n - c1
                            in drop (rgR rb) (rgBuf rb) @ take c2 (rgBuf rb));
               rb = rb\<lparr>rgR := (rgR rb + n) mod rgSize rb\<rparr>
           in (Ok data, if rgR rb = rgW rb then ring_Reset rb else rb))"

definition ring_ReadByte :: "ring \<Rightarrow> byte go \<times> ring" where
  "ring_ReadByte rb =
     (if rgEmpty rb then (Err ErrIsEmpty, rb)
      else let b = rgBuf rb ! rgR rb;
               rb = rb\<lparr>rgR := rgR rb + 1\<rparr>;
               rb = (if rgR rb = rgSize rb then rb\<lparr>rgR := 0\<rparr> else rb)
           in (Ok b, if rgR rb = rgW rb then ring_Reset rb else rb))"

definition ring_Bytes :: "ring \<Rightarrow> bytes" where
  "ring_Bytes rb =
     (if rgEmpty rb then []
      else if rgW rb = rgR rb then drop (rgR rb) (rgBuf rb) @ take (rgW rb) (rgBuf rb)
      else if rgW rb > rgR rb then take (rgW rb - rgR rb) (drop (rgR rb) (rgBuf rb))
      else drop (rgR rb) (rgBuf rb) @ (if rgW rb \<noteq> 0 then take (rgW rb) (rgBuf rb) else []))"

section \<open>Writing\<close>

text \<open>\<open>bsPool.Get(n)\<close>: a slice of length \<open>n\<close> with the pool's old bytes in it.\<close>

definition slice_Get :: "bytes \<Rightarrow> nat \<Rightarrow> bytes" where
  "slice_Get mem n = take n (mem @ replicate n 0)"

partial_function (option) grow_loop :: "nat \<Rightarrow> nat \<Rightarrow> nat option" where
  "grow_loop n newCap = (if 0 < n \<and> n < newCap then grow_loop (n + n div 4) newCap else Some n)"

definition grow_cap :: "nat \<Rightarrow> nat \<Rightarrow> nat option" where
  "grow_cap n newCap =
     (if n = 0 then Some (if newCap \<le> 1024 then 1024 else CeilToPowerOfTwo newCap)
      else if newCap \<le> n + n
      then if n < 4096 then Some (n + n)
           else map_option (\<lambda>n. if n > 0 then n else newCap) (grow_loop n newCap)
      else Some newCap)"

definition ring_grow :: "bytes \<Rightarrow> nat \<Rightarrow> ring \<Rightarrow> ring option" where
  "ring_grow mem newCap rb =
     map_option (\<lambda>newCap.
       let newBuf = slice_Get mem newCap;
           oldLen = ring_Buffered rb;
           (res, rb) = ring_Read newCap rb;
           newBuf = (case res of Ok data \<Rightarrow> overwrite 0 data newBuf | _ \<Rightarrow> newBuf);
           rb = rb\<lparr>rgBuf := newBuf, rgR := 0, rgW := oldLen, rgSize := newCap\<rparr>
       in if oldLen > 0 then rb\<lparr>rgEmpty := False\<rparr> else rb)
       (grow_cap (rgSize rb) newCap)"

text \<open>The copying part of \<open>Write\<close>, once there is room.\<close>

definition ring_put :: "bytes \<Rightarrow> ring \<Rightarrow> ring" where
  "ring_put p rb =
     (let n = length p;
          rb = (if rgW rb \<ge> rgR rb
                then let c1 = rgSize rb - rgW rb
                     in if c1 \<ge> n then rb\<lparr>rgBuf := overwrite (rgW rb) p (rgBuf rb), rgW := rgW rb + n\<rparr>
                        else let c2 = n - c1
                             in rb\<lparr>rgBuf := overwrite 0 (drop c1 p) (overwrite (rgW rb) (take c1 p) (rgBuf rb)), rgW := c2\<rparr>
                else rb\<lparr>rgBuf := overwrite (rgW rb) p (rgBuf rb), rgW := rgW rb + n\<rparr>);
          rb = (if rgW rb = rgSize rb then rb\<lparr>rgW := 0\<rparr> else rb)
      in rb\<lparr>rgEmpty := False\<rparr>)"

definition ring_Write :: "bytes \<Rightarrow> bytes \<Rightarrow> ring \<Rightarrow> ring option" where
  "ring_Write mem p rb =
     (let n = length p; free = ring_Available rb
      in if n = 0 then Some rb
         else map_option (ring_put p) (if n > free then ring_grow mem (rgSize rb + n - free) rb else Some rb))"

definition ring_WriteByte :: "bytes \<Rightarrow> byte \<Rightarrow> ring \<Rightarrow> ring go option" where
  "ring_WriteByte mem c rb =
     map_option (\<lambda>rb.
       if rgW rb < length (rgBuf rb)
       then let rb = rb\<lparr>rgBuf := (rgBuf rb)[rgW rb := c], rgW := rgW rb + 1\<rparr>;
                rb = (if rgW rb = rgSize rb then rb\<lparr>rgW := 0\<rparr> else rb)
            in Ok (rb\<lparr>rgEmpty := False\<rparr>)
       else Panic)
       (if ring_Available rb < 1 then ring_grow mem 1 rb else Some rb)"

definition ring_WriteString :: "bytes \<Rightarrow> string \<Rightarrow> ring \<Rightarrow> ring option" where
  "ring_WriteString mem s rb = ring_Write mem (string_bytes s) rb"

section \<open>Streaming\<close>

text \<open>\<open>WriteTo\<close>: the writer is an argument that says how many bytes it took, and whether it failed.\<close>

definition reset_if_read :: "ring \<Rightarrow> ring" where
  "reset_if_read rb = (if rgR rb = rgW rb then ring_Reset rb else rb)"

definition write_status :: "nat \<Rightarrow> goerr option \<Rightarrow> ring \<Rightarrow> nat \<times> goerr option" where
  "write_status m err rb = (m, if err \<noteq> None then err else if \<not> rgEmpty rb then Some IoErrShortWrite else None)"

definition ring_WriteTo :: "'w io_writer \<Rightarrow> ring \<Rightarrow> 'w \<Rightarrow> (nat \<times> goerr option) go \<times> ring \<times> 'w" where
  "ring_WriteTo wr rb st =
     (if rgEmpty rb then (Ok (0, Some ErrIsEmpty), rb, st)
      else if rgW rb > rgR rb
      then let n = rgW rb - rgR rb; (m, err, st) = wr (take n (drop (rgR rb) (rgBuf rb))) st
           in if m > n then (Panic, rb, st)
              else let rb = reset_if_read (rb\<lparr>rgR := rgR rb + m\<rparr>) in (Ok (write_status m err rb), rb, st)
      else let n = rgSize rb - rgR rb + rgW rb
           in if rgR rb + n \<le> rgSize rb
              then let (m, err, st) = wr (take n (drop (rgR rb) (rgBuf rb))) st
                   in if m > n then (Panic, rb, st)
                      else let rb = reset_if_read (rb\<lparr>rgR := (rgR rb + m) mod rgSize rb\<rparr>)
                           in (Ok (write_status m err rb), rb, st)
              else let c1 = rgSize rb - rgR rb; (m, err, st) = wr (drop (rgR rb) (rgBuf rb)) st
                   in if m > c1 then (Panic, rb, st)
                      else let rb = rb\<lparr>rgR := (rgR rb + m) mod rgSize rb\<rparr>
                           in if err \<noteq> None then (Ok (m, err), rb, st)
                              else if m < c1 then (Ok (m, Some IoErrShortWrite), rb, st)
                              else let c2 = n - c1; (m', err, st) = wr (take c2 (rgBuf rb)) st
                                   in if m' > c2 then (Panic, rb, st)
                                      else let rb = reset_if_read (rb\<lparr>rgR := m'\<rparr>)
                                           in (Ok (write_status (m + m') err rb), rb, st))"

text \<open>\<open>ReadFrom\<close>: the reader is an argument that returns the bytes it put into a slice of the given
  length, and possibly an error.  One \<open>Read\<close> into the slice that starts at \<open>off\<close>:\<close>

definition ring_fill :: "'r io_reader \<Rightarrow> nat \<Rightarrow> nat \<Rightarrow> ring \<Rightarrow> 'r \<Rightarrow> nat \<times> goerr option \<times> ring \<times> 'r" where
  "ring_fill rd off len rb st =
     (let (d, err, st) = rd len st
      in (length d, err,
          rb\<lparr>rgBuf := overwrite off d (rgBuf rb), rgW := (rgW rb + length d) mod rgSize rb\<rparr>, st))"

definition read_status :: "goerr option \<Rightarrow> goerr option" where
  "read_status err = (if err = Some IoEOF then None else err)"

partial_function (option) ring_ReadFrom ::
    "bytes \<Rightarrow> 'r io_reader \<Rightarrow> nat \<Rightarrow> ring \<Rightarrow> 'r \<Rightarrow> ((nat \<times> goerr option) \<times> ring \<times> 'r) option" where
  "ring_ReadFrom mem rd n rb st =
     Option.bind (if ring_Available rb < 512 then ring_grow mem (ring_Buffered rb + 512) rb else Some rb) (\<lambda>rb.
       if rgW rb \<ge> rgR rb
       then case ring_fill rd (rgW rb) (rgSize rb - rgW rb) (rb\<lparr>rgEmpty := False\<rparr>) st of
              (m, err, rb, st) \<Rightarrow>
                if err \<noteq> None then Some ((n + m, read_status err), rb, st)
                else case ring_fill rd 0 (rgR rb) rb st of
                       (m', err, rb, st) \<Rightarrow>
                         if err \<noteq> None then Some ((n + m + m', read_status err), rb, st)
                         else ring_ReadFrom mem rd (n + m + m') rb st
       else case ring_fill rd (rgW rb) (rgR rb - rgW rb) (rb\<lparr>rgEmpty := False\<rparr>) st of
              (m, err, rb, st) \<Rightarrow>
                if err \<noteq> None then Some ((n + m, read_status err), rb, st)
                else ring_ReadFrom mem rd (n + m) rb st)"

section \<open>What a buffer holds\<close>

definition ring_ok :: "ring \<Rightarrow> bool" where
  "ring_ok rb \<longleftrightarrow> length (rgBuf rb) = rgSize rb \<and> (rgSize rb \<noteq> 0 \<longrightarrow> rgR rb < rgSize rb \<and> rgW rb < rgSize rb) \<and>
     (rgSize rb = 0 \<longrightarrow> rgEmpty rb) \<and> (rgEmpty rb \<longrightarrow> rgR rb = 0 \<and> rgW rb = 0)"

definition content :: "ring \<Rightarrow> bytes" where
  "content rb =
     (if rgEmpty rb then []
      else if rgW rb > rgR rb then take (rgW rb - rgR rb) (drop (rgR rb) (rgBuf rb))
      else drop (rgR rb) (rgBuf rb) @ take (rgW rb) (rgBuf rb))"

lemma ring_okD:
  "ring_ok rb \<Longrightarrow> length (rgBuf rb) = rgSize rb"
  "ring_ok rb \<Longrightarrow> \<not> rgEmpty rb \<Longrightarrow> 0 < rgSize rb \<and> rgR rb < rgSize rb \<and> rgW rb < rgSize rb"
  "ring_ok rb \<Longrightarrow> rgEmpty rb \<Longrightarrow> rgR rb = 0 \<and> rgW rb = 0"
  by (auto simp: ring_ok_def)

lemma length_content: "ring_ok rb \<Longrightarrow> length (content rb) = ring_Buffered rb"
  by (auto simp: ring_ok_def content_def ring_Buffered_def)

lemma Buffered_Available: "ring_ok rb \<Longrightarrow> ring_Buffered rb + ring_Available rb = rgSize rb"
  by (auto simp: ring_ok_def ring_Buffered_def ring_Available_def)

lemma content_empty_iff: "ring_ok rb \<Longrightarrow> content rb = [] \<longleftrightarrow> rgEmpty rb"
  by (auto simp: ring_ok_def content_def)

lemma ring_Bytes_content: "ring_Bytes rb = content rb"
  by (simp add: ring_Bytes_def content_def)

lemma ring_peekAll_content: "fst (ring_peekAll rb) @ snd (ring_peekAll rb) = content rb"
  by (simp add: ring_peekAll_def content_def)

lemma ring_Reset_ok: "ring_ok rb \<Longrightarrow> ring_ok (ring_Reset rb)" "content (ring_Reset rb) = []"
  by (auto simp: ring_ok_def ring_Reset_def content_def)

lemma CeilToPowerOfTwo_upper: "n \<le> CeilToPowerOfTwo n"
proof (cases "n \<le> 2")
  case False
  then show ?thesis using bits_Len_upper [of "n - 1"] unfolding CeilToPowerOfTwo_def by simp
qed (simp add: CeilToPowerOfTwo_def)

lemma CeilToPowerOfTwo_pos: "0 < CeilToPowerOfTwo n"
  by (simp add: CeilToPowerOfTwo_def)

lemma ring_New_ok: "ring_ok (ring_New n)" "content (ring_New n) = []" "n \<le> rgSize (ring_New n)"
  using CeilToPowerOfTwo_pos [of n] CeilToPowerOfTwo_upper [of n]
  by (auto simp: ring_New_def ring_ok_def content_def Let_def)

text \<open>Moving the read index forward drops a prefix.\<close>

lemma ring_advance:
  assumes "ring_ok rb" "n < ring_Buffered rb"
  shows "ring_ok (rb\<lparr>rgR := (rgR rb + n) mod rgSize rb\<rparr>)"
    and "content (rb\<lparr>rgR := (rgR rb + n) mod rgSize rb\<rparr>) = drop n (content rb)"
    and "rgR rb = rgW rb \<and> n = 0 \<or> (rgR rb + n) mod rgSize rb \<noteq> rgW rb"
proof -
  let ?r = "rgR rb" and ?w = "rgW rb" and ?s = "rgSize rb"
  have ne: "\<not> rgEmpty rb" using assms by (auto simp: ring_ok_def ring_Buffered_def)
  note b = ring_okD(1) [OF assms(1)] ring_okD(2) [OF assms(1) ne]
  consider (straight) "?r < ?w" "n < ?w - ?r" | (head) "?w \<le> ?r" "?r + n < ?s"
    | (wrap) "?w \<le> ?r" "?s \<le> ?r + n" "n < ?s - ?r + ?w"
    using assms(2) ne b by (fastforce simp: ring_Buffered_def split: if_splits)
  then have "ring_ok (rb\<lparr>rgR := (?r + n) mod ?s\<rparr>) \<and>
      content (rb\<lparr>rgR := (?r + n) mod ?s\<rparr>) = drop n (content rb) \<and> (?r = ?w \<and> n = 0 \<or> (?r + n) mod ?s \<noteq> ?w)"
  proof cases
    case straight
    then have "?r + n < ?s" using b by linarith
    then have "(?r + n) mod ?s = ?r + n" by simp
    then show ?thesis using straight ne b assms(1) by (auto simp: content_def ring_ok_def drop_take add.commute)
  next
    case head
    then have "(?r + n) mod ?s = ?r + n" by simp
    then show ?thesis using head ne b assms(1) by (auto simp: content_def ring_ok_def add.commute)
  next
    case wrap
    then have "?r + n - ?s < ?s" using b by linarith
    then have m: "(?r + n) mod ?s = ?r + n - ?s" using wrap by (simp add: le_mod_geq)
    moreover have "n - (?s - ?r) = ?r + n - ?s" using wrap b by simp
    ultimately have "drop n (content rb) = take (?w - (?r + n - ?s)) (drop (?r + n - ?s) (rgBuf rb))"
      using wrap ne b by (simp add: content_def drop_take)
    moreover have "?r + n - ?s < ?w" using wrap b by linarith
    moreover have "content (rb\<lparr>rgR := ?r + n - ?s\<rparr>) = take (?w - (?r + n - ?s)) (drop (?r + n - ?s) (rgBuf rb))"
      using \<open>?r + n - ?s < ?w\<close> ne by (simp add: content_def)
    moreover have "ring_ok (rb\<lparr>rgR := ?r + n - ?s\<rparr>)"
      using assms(1) ne \<open>?r + n - ?s < ?w\<close> b by (simp add: ring_ok_def)
    ultimately show ?thesis unfolding m by simp
  qed
  then show "ring_ok (rb\<lparr>rgR := (?r + n) mod ?s\<rparr>)"
    "content (rb\<lparr>rgR := (?r + n) mod ?s\<rparr>) = drop n (content rb)"
    "?r = ?w \<and> n = 0 \<or> (?r + n) mod ?s \<noteq> ?w" by auto
qed


section \<open>Reading takes a prefix\<close>

lemma ring_Discard_content:
  assumes "ring_ok rb" "ring_Discard n rb = (k, rb')"
  shows "k = min (nat n) (length (content rb))" "ring_ok rb'" "content rb' = drop k (content rb)"
proof -
  have "k = min (nat n) (length (content rb)) \<and> ring_ok rb' \<and> content rb' = drop k (content rb)"
    using assms(2) ring_advance [OF assms(1), of "nat n"] ring_Reset_ok [of rb] assms(1)
    by (auto simp: ring_Discard_def Let_def length_content split: if_splits)
  then show "k = min (nat n) (length (content rb))" "ring_ok rb'" "content rb' = drop k (content rb)" by auto
qed

lemma content_take:
  assumes "ring_ok rb" "\<not> rgEmpty rb" "n \<le> ring_Buffered rb"
  shows "take n (content rb) =
    (if rgW rb > rgR rb \<or> rgR rb + n \<le> rgSize rb then take n (drop (rgR rb) (rgBuf rb))
     else drop (rgR rb) (rgBuf rb) @ take (n - (rgSize rb - rgR rb)) (rgBuf rb))"
  using assms ring_okD(1,2) [OF assms(1)]
  by (auto simp: content_def ring_Buffered_def min_def split: if_splits)

lemma ring_Peek_content:
  assumes "ring_ok rb" "0 < n"
  shows "fst (ring_Peek n rb) @ snd (ring_Peek n rb) = take (nat n) (content rb)"
proof (cases "rgEmpty rb")
  case False
  define m where "m = min (ring_Buffered rb) (nat n)"
  have "take (nat n) (content rb) = take m (content rb)"
    using length_content [OF assms(1)] by (simp add: m_def min_def)
  also have "\<dots> = fst (ring_Peek n rb) @ snd (ring_Peek n rb)"
  proof (cases "rgR rb < rgW rb")
    case True
    then have "min (rgW rb - rgR rb) (nat n) = m" by (simp add: m_def ring_Buffered_def)
    then show ?thesis
      using content_take [OF assms(1) False, of m] True False assms(2) by (simp add: ring_Peek_def Let_def m_def)
  next
    case wrapped: False
    then have "min (rgSize rb - rgR rb + rgW rb) (nat n) = m"
      using False ring_okD(2) [OF assms(1) False] by (auto simp: m_def ring_Buffered_def)
    then show ?thesis
      using content_take [OF assms(1) False, of m] wrapped False assms(2) by (simp add: ring_Peek_def Let_def m_def)
  qed
  finally show ?thesis by simp
qed (simp add: ring_Peek_def content_def)

text \<open>\<open>Read\<close> of at least one byte from a buffer that is not empty.\<close>

lemma ring_Reset_R [simp]: "ring_Reset (rb\<lparr>rgR := x\<rparr>) = ring_Reset rb"
  by (simp add: ring_Reset_def)

lemma ring_Read_eq:
  assumes "ring_ok rb" "\<not> rgEmpty rb" "0 < k" "n = min (ring_Buffered rb) k"
  shows "ring_Read k rb =
    (Ok (take n (content rb)),
     if n = ring_Buffered rb then ring_Reset rb else rb\<lparr>rgR := (rgR rb + n) mod rgSize rb\<rparr>)"
proof -
  let ?r = "rgR rb" and ?w = "rgW rb" and ?s = "rgSize rb"
  note b = ring_okD(1) [OF assms(1)] ring_okD(2) [OF assms(1,2)]
  have le: "n \<le> ring_Buffered rb" "0 < n"
    using assms b by (auto simp: ring_Buffered_def split: if_splits)
  have all: "(?r + n) mod ?s = ?w \<longleftrightarrow> n = ring_Buffered rb"
  proof (cases "n = ring_Buffered rb")
    case True
    then have "?r + n = (if ?r < ?w then ?w else ?s + ?w)"
      using b assms(2) by (auto simp: ring_Buffered_def)
    then show ?thesis using b True by auto
  next
    case False
    then show ?thesis using ring_advance(3) [OF assms(1), of n] le by auto
  qed
  show ?thesis
  proof (cases "?w > ?r")
    case True
    then have n: "min (?w - ?r) k = n" using assms(4) by (simp add: ring_Buffered_def)
    have "?r + n < ?s" using True b le(1) unfolding ring_Buffered_def by (auto split: if_splits)
    then have "(?r + n) mod ?s = ?r + n" by simp
    then show ?thesis
      using True assms(2,3) all content_take [OF assms(1,2) le(1)] unfolding ring_Read_def n by (simp add: Let_def)
  next
    case False
    then have n: "min (?s - ?r + ?w) k = n" using assms(2,4) b by (auto simp: ring_Buffered_def)
    then show ?thesis
      using False assms(2,3) all content_take [OF assms(1,2) le(1)] unfolding ring_Read_def n by (simp add: Let_def)
  qed
qed

lemma ring_Read_content:
  assumes "ring_ok rb" "ring_Read k rb = (res, rb')"
  shows "ring_ok rb'" "content rb' = drop k (content rb)"
    "res = (if k \<noteq> 0 \<and> content rb = [] then Err ErrIsEmpty else Ok (take k (content rb)))"
proof -
  have "ring_ok rb' \<and> content rb' = drop k (content rb) \<and>
    res = (if k \<noteq> 0 \<and> content rb = [] then Err ErrIsEmpty else Ok (take k (content rb)))"
  proof (cases "k = 0 \<or> rgEmpty rb")
    case True
    then show ?thesis using assms by (auto simp: ring_Read_def content_empty_iff content_def)
  next
    case False
    define n where "n = min (ring_Buffered rb) k"
    have ne: "content rb \<noteq> []" using False content_empty_iff [OF assms(1)] by simp
    have td: "take k (content rb) = take n (content rb)" "drop k (content rb) = drop n (content rb)"
      using length_content [OF assms(1)] by (auto simp: n_def min_def)
    have eq: "res = Ok (take n (content rb))"
      "rb' = (if n = ring_Buffered rb then ring_Reset rb else rb\<lparr>rgR := (rgR rb + n) mod rgSize rb\<rparr>)"
      using ring_Read_eq [OF assms(1) _ _ n_def] False assms(2) by auto
    show ?thesis
    proof (cases "n = ring_Buffered rb")
      case True
      then show ?thesis
        using eq ne td ring_Reset_ok [of rb] assms(1) length_content [OF assms(1)] by simp
    next
      case less: False
      then have "n < ring_Buffered rb" by (simp add: n_def)
      then show ?thesis using eq ne td less ring_advance [OF assms(1), of n] by simp
    qed
  qed
  then show "ring_ok rb'" "content rb' = drop k (content rb)"
    "res = (if k \<noteq> 0 \<and> content rb = [] then Err ErrIsEmpty else Ok (take k (content rb)))" by auto
qed


lemma ring_ReadByte_content:
  assumes "ring_ok rb" "content rb = b # bs"
  shows "fst (ring_ReadByte rb) = Ok b" "ring_ok (snd (ring_ReadByte rb))" "content (snd (ring_ReadByte rb)) = bs"
proof -
  have ne: "\<not> rgEmpty rb" using assms by (auto simp: content_def)
  note s = ring_okD(2) [OF assms(1) ne]
  have n: "1 = min (ring_Buffered rb) 1" using length_content [OF assms(1)] assms(2) by simp
  have "[b] = take 1 (drop (rgR rb) (rgBuf rb))"
    using content_take [OF assms(1) ne, of 1] assms(2) n s by simp
  also have "\<dots> = [rgBuf rb ! rgR rb]"
    using s ring_okD(1) [OF assms(1)] by (simp add: take_Suc hd_drop_conv_nth)
  finally have hd: "rgBuf rb ! rgR rb = b" by simp
  define r1 where "r1 = (if rgR rb + 1 = rgSize rb then 0 else rgR rb + 1)"
  have r1: "(rgR rb + 1) mod rgSize rb = r1" using s by (auto simp: r1_def)
  have "r1 = rgW rb \<longleftrightarrow> 1 = ring_Buffered rb"
    using s ne unfolding r1_def ring_Buffered_def by auto
  then have "snd (ring_Read 1 rb) = (if r1 = rgW rb then ring_Reset rb else rb\<lparr>rgR := r1\<rparr>)"
    using ring_Read_eq [OF assms(1) ne _ n] r1 by simp
  then have "ring_ReadByte rb = (Ok b, snd (ring_Read 1 rb))"
    using ne hd by (cases "rgR rb + 1 = rgSize rb") (auto simp: ring_ReadByte_def Let_def r1_def)
  then show "fst (ring_ReadByte rb) = Ok b" "ring_ok (snd (ring_ReadByte rb))" "content (snd (ring_ReadByte rb)) = bs"
    using ring_Read_content [OF assms(1), of 1] assms(2) by (auto simp: prod_eq_iff)
qed

section \<open>Writing appends\<close>

text \<open>The capacity loop ends and reaches what was asked for.\<close>

lemma grow_loop_ends: "4 \<le> n \<Longrightarrow> \<exists>m. grow_loop n c = Some m \<and> n \<le> m \<and> c \<le> m"
proof (induction "c - n" arbitrary: n rule: less_induct)
  case less
  show ?case
  proof (cases "n < c")
    case True
    have "0 < n div 4" using less.prems by (simp add: div_greater_zero_iff)
    then obtain m where "grow_loop (n + n div 4) c = Some m" "n + n div 4 \<le> m" "c \<le> m"
      using less.hyps [of "n + n div 4"] True less.prems by (meson diff_less_mono2 less_add_same_cancel1 trans_le_add1)
    then show ?thesis using True less.prems by (subst grow_loop.simps) auto
  next
    case False
    then show ?thesis by (subst grow_loop.simps) auto
  qed
qed

lemma grow_cap_ends: "\<exists>m. grow_cap n c = Some m \<and> n \<le> m \<and> c \<le> m \<and> 0 < m"
proof (cases "n = 0 \<or> n + n < c \<or> n < 4096")
  case True
  then show ?thesis using CeilToPowerOfTwo_upper [of c] CeilToPowerOfTwo_pos [of c] by (auto simp: grow_cap_def)
next
  case False
  then obtain m where "grow_loop n c = Some m" "n \<le> m" "c \<le> m" using grow_loop_ends [of n c] by auto
  then show ?thesis using False by (auto simp: grow_cap_def)
qed

lemma length_slice_Get [simp]: "length (slice_Get mem n) = n"
  by (simp add: slice_Get_def)

lemma ring_grow_content:
  assumes "ring_ok rb" "ring_Buffered rb < c"
  shows "\<exists>rb'. ring_grow mem c rb = Some rb' \<and> ring_ok rb' \<and> content rb' = content rb \<and>
           c \<le> rgSize rb' \<and> rgR rb' = 0 \<and> rgW rb' = ring_Buffered rb"
proof -
  obtain m where m: "grow_cap (rgSize rb) c = Some m" "rgSize rb \<le> m" "c \<le> m" "0 < m"
    using grow_cap_ends by blast
  obtain res rb1 where r: "ring_Read m rb = (res, rb1)" by fastforce
  have "drop m (content rb) = []" "take m (content rb) = content rb"
    using length_content [OF assms(1)] Buffered_Available [OF assms(1)] m(2) by auto
  note read = ring_Read_content [OF assms(1) r, unfolded this]
  then have rb1: "rgEmpty rb1" using content_empty_iff by blast
  show ?thesis
  proof (cases "content rb = []")
    case True
    then have "ring_Buffered rb = 0" using length_content [OF assms(1)] by simp
    moreover have "res = Err ErrIsEmpty" using read(3) True m(4) by simp
    ultimately show ?thesis
      using r m rb1 True by (auto simp: ring_grow_def Let_def ring_ok_def content_def)
  next
    case False
    then have "res = Ok (content rb)" "0 < ring_Buffered rb"
      using read(3) by (simp_all flip: length_content [OF assms(1)])
    then show ?thesis
      using r m assms(2) length_content [OF assms(1)]
      by (auto simp: ring_grow_def Let_def ring_ok_def content_def overwrite_def)
  qed
qed


lemma take_overwrite_le: "\<lbrakk>i \<le> off; off \<le> length mem\<rbrakk> \<Longrightarrow> take i (overwrite off p mem) = take i mem"
  by (simp add: overwrite_def)

lemma drop_overwrite_ge: "\<lbrakk>off + length p \<le> i; off \<le> length mem\<rbrakk> \<Longrightarrow> drop i (overwrite off p mem) = drop i mem"
  by (simp add: overwrite_def)

lemma drop_overwrite_le:
  "\<lbrakk>i \<le> off; off \<le> length mem\<rbrakk> \<Longrightarrow> drop i (overwrite off p mem) = drop i (take off mem) @ p @ drop (off + length p) mem"
  by (simp add: overwrite_def)

lemma ring_put_content:
  assumes "ring_ok rb" "p \<noteq> []" "length p \<le> ring_Available rb"
  shows "ring_ok (ring_put p rb) \<and> content (ring_put p rb) = content rb @ p"
proof -
  let ?r = "rgR rb" and ?w = "rgW rb" and ?s = "rgSize rb" and ?b = "rgBuf rb" and ?n = "length p"
  have len: "length ?b = ?s" using ring_okD(1) [OF assms(1)] .
  have n: "0 < ?n" using assms(2) by simp
  have s: "0 < ?s" "?r < ?s" "?w < ?s"
    using assms n Buffered_Available [OF assms(1)] by (auto simp: ring_ok_def)
  consider (empty) "rgEmpty rb" "?r = 0" "?w = 0" "?n \<le> ?s"
    | (straight) "\<not> rgEmpty rb" "?r < ?w" "?n \<le> ?s - ?w"
    | (wrap) "\<not> rgEmpty rb" "?r < ?w" "?s - ?w < ?n" "?n - (?s - ?w) \<le> ?r"
    | (behind) "\<not> rgEmpty rb" "?w < ?r" "?w + ?n \<le> ?r"
    using assms(3) n ring_okD(3) [OF assms(1)] s unfolding ring_Available_def
    by (cases "rgEmpty rb"; cases "?r < ?w"; cases "?n \<le> ?s - ?w") (auto split: if_splits)
  then show ?thesis
  proof cases
    case empty
    then show ?thesis using s n len
      by (auto simp: ring_put_def Let_def ring_ok_def content_def overwrite_def simp del: length_greater_0_conv)
  next
    case straight
    define b' where "b' = overwrite ?w p ?b"
    have b': "length b' = ?s" "drop ?r b' = drop ?r (take ?w ?b) @ p @ drop (?w + ?n) ?b"
      using straight s len by (simp_all add: b'_def drop_overwrite_le)
    have "?w + ?n = ?s \<Longrightarrow> drop (?w + ?n) ?b = []" using len by simp
    then show ?thesis using straight s n b' 
      by (auto simp: ring_put_def Let_def ring_ok_def content_def b'_def [symmetric] drop_take)
  next
    case wrap
    define b' where "b' = overwrite 0 (drop (?s - ?w) p) (overwrite ?w (take (?s - ?w) p) ?b)"
    have l1: "length (overwrite ?w (take (?s - ?w) p) ?b) = ?s" using wrap s len by simp
    have d: "drop ?r b' = drop ?r (take ?w ?b) @ take (?s - ?w) p"
      using wrap s len l1 unfolding b'_def by (subst drop_overwrite_ge) (simp_all add: drop_overwrite_le)
    have t: "take (?n - (?s - ?w)) b' = drop (?s - ?w) p"
      using wrap l1 unfolding b'_def by (simp add: overwrite_def)
    have l: "length b' = ?s" using wrap l1 s unfolding b'_def by (subst length_overwrite) auto
    have w: "?n - (?s - ?w) < ?w" "0 < ?n - (?s - ?w)" using wrap by auto
    have "ring_put p rb = rb\<lparr>rgBuf := b', rgW := ?n - (?s - ?w), rgEmpty := False\<rparr>"
      using wrap w s by (simp add: ring_put_def Let_def b'_def)
    then show ?thesis using wrap w s d t l by (auto simp: ring_ok_def content_def drop_take)
  next
    case behind
    define b' where "b' = overwrite ?w p ?b"
    have "length b' = ?s" "drop ?r b' = drop ?r ?b" "take (?w + ?n) b' = take ?w ?b @ p"
      using behind s len by (simp_all add: b'_def drop_overwrite_ge)
    moreover have "ring_put p rb = rb\<lparr>rgBuf := b', rgW := ?w + ?n, rgEmpty := False\<rparr>"
      using behind s by (simp add: ring_put_def Let_def b'_def)
    ultimately show ?thesis using behind s by (simp add: ring_ok_def content_def)
  qed
qed

lemma ring_Write_content:
  assumes "ring_ok rb"
  shows "\<exists>rb'. ring_Write mem p rb = Some rb' \<and> ring_ok rb' \<and> content rb' = content rb @ p"
proof (cases "p = [] \<or> length p \<le> ring_Available rb")
  case True
  then show ?thesis using assms ring_put_content [OF assms, of p] by (auto simp: ring_Write_def Let_def)
next
  case False
  let ?c = "rgSize rb + length p - ring_Available rb"
  have c: "?c = ring_Buffered rb + length p" using False Buffered_Available [OF assms] by simp
  then have lt: "ring_Buffered rb < ?c" using False by simp
  obtain rb' where g: "ring_grow mem ?c rb = Some rb'" "ring_ok rb'" "content rb' = content rb" "?c \<le> rgSize rb'"
    using ring_grow_content [OF assms lt, of mem] by blast
  have "length p \<le> ring_Available rb'"
    using Buffered_Available [OF g(2)] length_content [OF g(2)] length_content [OF assms] g(3,4) c by simp
  then show ?thesis using False g ring_put_content [OF g(2), of p] by (auto simp: ring_Write_def Let_def)
qed


text \<open>\<open>WriteByte\<close> appends too, as long as the buffer is not full at 4096 bytes or more.\<close>

lemma overwrite_byte: "w < length mem \<Longrightarrow> overwrite w [c] mem = mem[w := c]"
  by (simp add: overwrite_def upd_conv_take_nth_drop)

lemma ring_put_byte:
  assumes "ring_ok rb" "1 \<le> ring_Available rb"
  shows "ring_put [c] rb =
    (let rb = rb\<lparr>rgBuf := (rgBuf rb)[rgW rb := c], rgW := rgW rb + 1\<rparr>;
         rb = (if rgW rb = rgSize rb then rb\<lparr>rgW := 0\<rparr> else rb)
     in rb\<lparr>rgEmpty := False\<rparr>)"
proof -
  have "rgW rb < rgSize rb"
    using assms Buffered_Available [OF assms(1)] by (auto simp: ring_ok_def)
  then show ?thesis using ring_okD(1) [OF assms(1)] by (simp add: ring_put_def Let_def overwrite_byte)
qed

lemma ring_WriteByte_content:
  assumes "ring_ok rb" "ring_Available rb = 0 \<Longrightarrow> rgSize rb < 4096"
  shows "\<exists>rb'. ring_WriteByte mem c rb = Some (Ok rb') \<and> ring_ok rb' \<and> content rb' = content rb @ [c]"
proof -
  obtain rb1 where g: "(if ring_Available rb < 1 then ring_grow mem 1 rb else Some rb) = Some rb1" "ring_ok rb1"
      "content rb1 = content rb" "1 \<le> ring_Available rb1"
  proof (cases "ring_Available rb = 0")
    case False
    then show ?thesis using that [of rb] assms(1) by auto
  next
    case True
    have b: "ring_Buffered rb = rgSize rb" using Buffered_Available [OF assms(1)] True by simp
    define c where "c = (if rgSize rb = 0 then 1024 else rgSize rb + rgSize rb)"
    have c: "grow_cap (rgSize rb) 1 = grow_cap (rgSize rb) c" "ring_Buffered rb < c" "grow_cap (rgSize rb) c = Some c"
      using assms(2) True b by (auto simp: grow_cap_def c_def)
    obtain rb1 where r: "ring_grow mem c rb = Some rb1" "ring_ok rb1" "content rb1 = content rb" "c \<le> rgSize rb1"
      using ring_grow_content [OF assms(1) c(2)] by blast
    have "1 \<le> ring_Available rb1"
      using Buffered_Available [OF r(2)] length_content [OF r(2)] length_content [OF assms(1)] r(3,4) c(2) by simp
    then show ?thesis using that [of rb1] r c(1) True by (simp add: ring_grow_def)
  qed
  have "rgW rb1 < length (rgBuf rb1)"
    using g(2,4) Buffered_Available [OF g(2)] by (auto simp: ring_ok_def)
  then have "ring_WriteByte mem c rb = Some (Ok (ring_put [c] rb1))"
    using g(1) by (simp add: ring_WriteByte_def ring_put_byte [OF g(2,4)] Let_def)
  then show ?thesis using ring_put_content [OF g(2), of "[c]"] g(3,4) by simp
qed

text \<open>On a full buffer of at least 4096 bytes \<open>grow(1)\<close> keeps the capacity, and the store is out of
  range.\<close>

lemma ring_WriteByte_full:
  assumes "ring_ok rb" "ring_IsFull rb" "4096 \<le> rgSize rb"
  shows "ring_WriteByte mem c rb = Some Panic"
proof -
  have full: "ring_Available rb = 0" "ring_Buffered rb = rgSize rb"
    using assms by (auto simp: ring_IsFull_def ring_Available_def ring_Buffered_def)
  have "grow_loop (rgSize rb) 1 = Some (rgSize rb)" by (subst grow_loop.simps) (use assms(3) in simp)
  then have cap: "grow_cap (rgSize rb) 1 = Some (rgSize rb)" using assms(3) by (simp add: grow_cap_def)
  obtain res rb1 where r: "ring_Read (rgSize rb) rb = (res, rb1)" by fastforce
  have len: "length (content rb) = rgSize rb" using length_content [OF assms(1)] full(2) by simp
  then have "content rb \<noteq> []" using assms(3) by auto
  then have "res = Ok (content rb)" using ring_Read_content(3) [OF assms(1) r] len by simp
  then show ?thesis using full r len cap assms(3) by (simp add: ring_WriteByte_def ring_grow_def)
qed


section \<open>Streaming out\<close>

lemma reset_if_read_ok:
  assumes "ring_ok rb" "\<not> rgEmpty rb" "m \<le> ring_Buffered rb" "0 < m \<or> rgR rb \<noteq> rgW rb"
  shows "ring_ok (reset_if_read (rb\<lparr>rgR := (rgR rb + m) mod rgSize rb\<rparr>))"
    and "content (reset_if_read (rb\<lparr>rgR := (rgR rb + m) mod rgSize rb\<rparr>)) = drop m (content rb)"
proof -
  have "(rgR rb + m) mod rgSize rb = rgW rb \<longleftrightarrow> m = ring_Buffered rb"
  proof (cases "m = ring_Buffered rb")
    case True
    then have "rgR rb + m = (if rgR rb < rgW rb then rgW rb else rgSize rb + rgW rb)"
      using ring_okD(2) [OF assms(1,2)] assms(2) by (auto simp: ring_Buffered_def)
    then show ?thesis using ring_okD(2) [OF assms(1,2)] True by auto
  next
    case False
    then show ?thesis using ring_advance(3) [OF assms(1), of m] assms(3,4) by auto
  qed
  then show "ring_ok (reset_if_read (rb\<lparr>rgR := (rgR rb + m) mod rgSize rb\<rparr>))"
    "content (reset_if_read (rb\<lparr>rgR := (rgR rb + m) mod rgSize rb\<rparr>)) = drop m (content rb)"
    using ring_advance [OF assms(1), of m] ring_Reset_ok [of rb] assms(1,3) length_content [OF assms(1)]
    by (auto simp: reset_if_read_def)
qed

text \<open>A write that takes nothing from a full buffer whose indices are both 0 is the one case in which
  \<open>WriteTo\<close> does not keep the rest.\<close>

definition ring_at_origin :: "ring \<Rightarrow> bool" where
  "ring_at_origin rb \<longleftrightarrow> ring_IsFull rb \<and> rgR rb = 0"

definition wrote :: "('w \<Rightarrow> bytes) \<Rightarrow> ring \<Rightarrow> 'w \<Rightarrow> (nat \<times> goerr option) go \<times> ring \<times> 'w \<Rightarrow> bool" where
  "wrote sink rb st out \<longleftrightarrow>
     (case out of (Ok (m, err), rb', st') \<Rightarrow>
        sink st' = sink st @ take m (content rb) \<and> m \<le> length (content rb) \<and> (err = None \<longrightarrow> rgEmpty rb') \<and>
        (ring_at_origin rb \<and> m = 0 \<or> ring_ok rb' \<and> content rb' = drop m (content rb))
      | _ \<Rightarrow> False)"

lemma wrote_advance:
  assumes "ring_ok rb" "\<not> rgEmpty rb" "honest_writer sink wr" "rgR rb < rgW rb \<or> rgW rb = 0"
    "n = ring_Buffered rb" "wr (take n (drop (rgR rb) (rgBuf rb))) st = (m, err, st')"
    "rb' = reset_if_read (rb\<lparr>rgR := (rgR rb + m) mod rgSize rb\<rparr>)"
  shows "m \<le> n" "wrote sink rb st (Ok (write_status m err rb'), rb', st')"
proof -
  note s = ring_okD(2) [OF assms(1,2)]
  have "take n (drop (rgR rb) (rgBuf rb)) = content rb"
    using assms(2,4,5) s ring_okD(1) [OF assms(1)] by (auto simp: content_def ring_Buffered_def)
  then have w: "m \<le> length (content rb)" "sink st' = sink st @ take m (content rb)"
    using honest_writerD [OF assms(3,6)] by auto
  then show "m \<le> n" using length_content [OF assms(1)] assms(5) by simp
  show "wrote sink rb st (Ok (write_status m err rb'), rb', st')"
  proof (cases "0 < m \<or> rgR rb \<noteq> rgW rb")
    case True
    then show ?thesis
      using reset_if_read_ok [OF assms(1,2) _ True] w assms(7) length_content [OF assms(1)]
      by (simp add: wrote_def write_status_def)
  next
    case False
    then show ?thesis using w assms(2,4) by (auto simp: wrote_def write_status_def ring_at_origin_def ring_IsFull_def)
  qed
qed

lemma wrote_split:
  assumes "ring_ok rb" "\<not> rgEmpty rb" "honest_writer sink wr" "rgW rb \<le> rgR rb" "rgW rb \<noteq> 0"
    "c1 = rgSize rb - rgR rb" "wr (drop (rgR rb) (rgBuf rb)) st = (m, err, st1)"
  shows "m \<le> c1" "c1 < ring_Buffered rb" "sink st1 = sink st @ take m (content rb)"
    "ring_ok (rb\<lparr>rgR := (rgR rb + m) mod rgSize rb\<rparr>)"
    "content (rb\<lparr>rgR := (rgR rb + m) mod rgSize rb\<rparr>) = drop m (content rb)"
proof -
  note s = ring_okD(2) [OF assms(1,2)]
  have l: "length (drop (rgR rb) (rgBuf rb)) = c1" using assms(6) ring_okD(1) [OF assms(1)] by simp
  show m: "m \<le> c1" using honest_writerD [OF assms(3,7)] l by simp
  show c: "c1 < ring_Buffered rb" using assms(2,4,5,6) s by (auto simp: ring_Buffered_def)
  have "take m (content rb) = take m (drop (rgR rb) (rgBuf rb))"
    using content_take [OF assms(1,2), of m] m c assms(6) s by (simp add: le_diff_conv2 add.commute)
  then show "sink st1 = sink st @ take m (content rb)" using honest_writerD [OF assms(3,7)] by simp
  show "ring_ok (rb\<lparr>rgR := (rgR rb + m) mod rgSize rb\<rparr>)"
    "content (rb\<lparr>rgR := (rgR rb + m) mod rgSize rb\<rparr>) = drop m (content rb)"
    using ring_advance [OF assms(1), of m] m c by simp_all
qed

lemma ring_WriteTo_wrote:
  assumes "ring_ok rb" "\<not> rgEmpty rb" "honest_writer sink wr"
  shows "wrote sink rb st (ring_WriteTo wr rb st)"
proof -
  let ?r = "rgR rb" and ?w = "rgW rb" and ?s = "rgSize rb"
  note s = ring_okD(2) [OF assms(1,2)]
  show ?thesis
  proof (cases "?r < ?w \<or> ?w = 0")
    case True
    define n where "n = ring_Buffered rb"
    obtain m err st' where wr: "wr (take n (drop ?r (rgBuf rb))) st = (m, err, st')" by (cases "wr (take n (drop ?r (rgBuf rb))) st")
    note adv = wrote_advance [OF assms True n_def wr refl]
    have n: "n = (if ?r < ?w then ?w - ?r else ?s - ?r + ?w)" "?r < ?w \<Longrightarrow> ?r + m < ?s" "\<not> ?r < ?w \<Longrightarrow> ?r + n \<le> ?s"
      using True s assms(2) adv(1) by (auto simp: n_def ring_Buffered_def split: if_splits)
    then have "\<not> n < m" using adv(1) by simp
    then show ?thesis
      using assms(2) wr n adv(2) True s by (cases "?r < ?w") (simp_all add: ring_WriteTo_def Let_def)
  next
    case False
    define c1 where "c1 = ?s - ?r"
    obtain m err st1 where wr: "wr (drop ?r (rgBuf rb)) st = (m, err, st1)" by (cases "wr (drop ?r (rgBuf rb)) st")
    define rb1 where "rb1 = rb\<lparr>rgR := (?r + m) mod ?s\<rparr>"
    have f: "?w \<le> ?r" "?w \<noteq> 0" using False by auto
    note first = wrote_split [OF assms f c1_def wr, folded rb1_def]
    have long: "\<not> ?r + (c1 + ?w) \<le> ?s" using f s by (simp add: c1_def)
    have part: "e \<noteq> None \<Longrightarrow> wrote sink rb st (Ok (m, e), rb1, st1)" for e
      using first length_content [OF assms(1)] by (auto simp: wrote_def)
    show ?thesis
    proof (cases "err \<noteq> None \<or> m < c1")
      case True
      then show ?thesis
        using assms(2) f long wr first(1) part
        by (auto simp: ring_WriteTo_def Let_def c1_def [symmetric] rb1_def [symmetric])
    next
      case all: False
      then have m: "m = c1" using first(1) by simp
      then have r1: "rgR rb1 = 0" "rgW rb1 = ?w" "rgBuf rb1 = rgBuf rb" "\<not> rgEmpty rb1" "rgSize rb1 = ?s"
        using s assms(2) by (simp_all add: rb1_def c1_def)
      obtain m' err' st' where wr': "wr (take ?w (rgBuf rb)) st1 = (m', err', st')" by (cases "wr (take ?w (rgBuf rb)) st1")
      have "?w = ring_Buffered rb1" using r1 f by (simp add: ring_Buffered_def)
      note adv = wrote_advance [OF first(4) r1(4) assms(3) _ this _ refl, of st1 m' err' st']
      have le: "m' \<le> ?w" "(rgR rb1 + m') mod ?s = m'" using adv(1) r1 f wr' s by auto
      have upd: "rb1\<lparr>rgR := m'\<rparr> = rb\<lparr>rgR := m'\<rparr>" by (simp add: rb1_def)
      have "ring_WriteTo wr rb st = (Ok (write_status (m + m') err' (reset_if_read (rb1\<lparr>rgR := m'\<rparr>))),
          reset_if_read (rb1\<lparr>rgR := m'\<rparr>), st')"
        unfolding upd using assms(2) f long wr wr' all m le r1
        by (simp add: ring_WriteTo_def Let_def c1_def [symmetric] rb1_def [symmetric])
      moreover have "\<not> ring_at_origin rb1" using r1 f by (simp add: ring_at_origin_def ring_IsFull_def)
      moreover have "wrote sink rb1 st1 (Ok (write_status m' err' (reset_if_read (rb1\<lparr>rgR := m'\<rparr>))),
          reset_if_read (rb1\<lparr>rgR := m'\<rparr>), st')" using adv(2) wr' r1 f le by simp
      moreover have "m \<le> length (content rb)" using first(1,2) length_content [OF assms(1)] by simp
      ultimately show ?thesis
        using first(3) unfolding wrote_def write_status_def first(5)
        by (auto simp: take_add add.commute [of m' m])
    qed
  qed
qed

lemma ring_WriteTo_complete:
  assumes "ring_ok rb" "\<not> rgEmpty rb" "honest_writer sink wr" "\<not> ring_at_origin rb"
  shows "\<exists>m err rb' st'. ring_WriteTo wr rb st = (Ok (m, err), rb', st') \<and> sink st' = sink st @ take m (content rb) \<and>
           ring_ok rb' \<and> content rb' = drop m (content rb) \<and> m \<le> length (content rb) \<and> (err = None \<longrightarrow> rgEmpty rb')"
  using ring_WriteTo_wrote [OF assms(1-3), of st] assms(4)
  by (cases "ring_WriteTo wr rb st") (auto simp: wrote_def split: go.splits prod.splits)

text \<open>The excluded case: everything the buffer held is gone although nothing was written.\<close>

lemma ring_WriteTo_loses:
  assumes "ring_ok rb" "ring_at_origin rb" "wr (rgBuf rb) st = (0, err, st')"
  shows "content rb \<noteq> [] \<and> (\<exists>e rb'. ring_WriteTo wr rb st = (Ok (0, e), rb', st') \<and> content rb' = [])"
proof -
  have ne: "\<not> rgEmpty rb" "rgR rb = 0" "rgW rb = 0"
    using assms(2) by (auto simp: ring_at_origin_def ring_IsFull_def)
  then have "ring_WriteTo wr rb st = (Ok (write_status 0 err (ring_Reset rb)), ring_Reset rb, st')"
    using assms(3) ring_okD(1) [OF assms(1)] by (simp add: ring_WriteTo_def Let_def reset_if_read_def)
  then show ?thesis
    using content_empty_iff [OF assms(1)] ne(1) ring_Reset_ok(2) [of rb] by (simp add: write_status_def)
qed

section \<open>Streaming in\<close>

text \<open>One \<open>Read\<close> of \<open>ReadFrom\<close> appends what it got, if it got something and there is room for it after
  the write index.\<close>

lemma ring_fill_content:
  assumes "ring_ok rb" "rd len st = (d, err, st')" "d \<noteq> []" "length d \<le> len"
    "rgSize rb \<noteq> 0" "len = (if rgR rb \<le> rgW rb then rgSize rb - rgW rb else rgR rb - rgW rb)" "\<not> ring_IsFull rb"
  shows "ring_fill rd (rgW rb) len (rb\<lparr>rgEmpty := False\<rparr>) st = (length d, err, ring_put d rb, st')"
    and "ring_ok (ring_put d rb) \<and> content (ring_put d rb) = content rb @ d"
proof -
  have s: "rgR rb < rgSize rb" "rgW rb < rgSize rb" using assms(1,5) by (auto simp: ring_ok_def)
  have "length d \<le> ring_Available rb"
  proof (cases "rgR rb = rgW rb")
    case True
    then have "ring_Available rb = rgSize rb" using assms(7) by (simp add: ring_Available_def ring_IsFull_def)
    then show ?thesis using assms(4,6) True by simp
  next
    case False
    then show ?thesis using assms(4,6) s unfolding ring_Available_def by (simp split: if_splits)
  qed
  then show "ring_ok (ring_put d rb) \<and> content (ring_put d rb) = content rb @ d"
    using ring_put_content [OF assms(1,3)] by simp
  have le: "rgW rb + length d \<le> rgSize rb" using assms(4,6) s by (auto split: if_splits)
  define w where "w = (if rgW rb + length d = rgSize rb then 0 else rgW rb + length d)"
  have "ring_put d rb = rb\<lparr>rgBuf := overwrite (rgW rb) d (rgBuf rb), rgW := w, rgEmpty := False\<rparr>"
    using le unfolding ring_put_def Let_def w_def by (cases "rgR rb \<le> rgW rb") auto
  moreover have "(rgW rb + length d) mod rgSize rb = w" using le s by (simp add: w_def)
  ultimately show "ring_fill rd (rgW rb) len (rb\<lparr>rgEmpty := False\<rparr>) st = (length d, err, ring_put d rb, st')"
    using assms(2) by (simp add: ring_fill_def)
qed

text \<open>A reader that is at its end at once turns an empty buffer into one that is full of the bytes left
  in its slice.\<close>

lemma ring_ReadFrom_eof:
  assumes "ring_ok rb" "rgEmpty rb" "512 \<le> rgSize rb" "rd (rgSize rb) st = ([], Some IoEOF, st')"
  shows "\<exists>rb'. ring_ReadFrom mem rd n rb st = Some ((n, None), rb', st') \<and> content rb' = rgBuf rb"
  using assms
  by (subst ring_ReadFrom.simps)
    (auto simp: ring_ok_def ring_Available_def ring_fill_def read_status_def overwrite_def content_def)

text \<open>After a short read the next chunk is stored at the start of the slice but counted as if it
  followed the first: the bytes in between are stale.\<close>

lemma ring_ReadFrom_gap:
  assumes "ring_ok rb" "0 < rgR rb" "rgR rb \<le> rgW rb" "512 \<le> ring_Available rb"
    and "rd (rgSize rb - rgW rb) st = (d1, None, st1)" "d1 \<noteq> []" "d2 \<noteq> []"
    and "rgW rb + length d1 + length d2 < rgSize rb" "length d2 \<le> rgR rb"
    and "rd (rgR rb) st1 = (d2, Some IoEOF, st2)"
  shows "\<exists>rb'. ring_ReadFrom mem rd 0 rb st = Some ((length d1 + length d2, None), rb', st2) \<and>
           content rb' = content rb @ d1 @ take (length d2) (drop (rgW rb + length d1) (rgBuf rb))"
proof -
  have ne: "\<not> rgEmpty rb" using ring_okD(3) [OF assms(1)] assms(2) by auto
  note s = ring_okD(1) [OF assms(1)] ring_okD(2) [OF assms(1) ne]
  have lt: "rgR rb < rgW rb" using assms(3,4) ne by (auto simp: ring_Available_def split: if_splits)
  have "take (rgW rb + length d1 + length d2 - rgR rb) (drop (rgR rb) (overwrite 0 d2 (overwrite (rgW rb) d1 (rgBuf rb)))) =
      content rb @ d1 @ take (length d2) (drop (rgW rb + length d1) (rgBuf rb))"
    using s lt ne assms(8,9) by (simp add: drop_overwrite_ge drop_overwrite_le content_def drop_take)
  then show ?thesis
    using assms s ne lt
    by (subst ring_ReadFrom.simps) (simp add: ring_fill_def read_status_def content_def add.assoc)
qed

section \<open>The ring buffer is a queue of bytes\<close>

interpretation rg: byte_fifo ring_ok content "ring_Write mem" "\<lambda>k rb. apfst go_bytes (ring_Read k rb)"
    "\<lambda>k. ring_Discard (int k)" for mem
proof
  show "\<exists>b'. ring_Write mem p b = Some b' \<and> ring_ok b' \<and> content b' = content b @ p" if "ring_ok b" for b p
    using ring_Write_content [OF that] .
  show "ring_ok b' \<and> d = take k (content b) \<and> content b' = drop k (content b)"
    if "ring_ok b" "apfst go_bytes (ring_Read k b) = (d, b')" for b k d b'
    using that ring_Read_content [OF that(1), of k]
    by (cases "ring_Read k b") (auto simp: apfst_def map_prod_def split: if_splits)
  show "ring_ok b' \<and> n = min k (length (content b)) \<and> content b' = drop k (content b)"
    if "ring_ok b" "ring_Discard (int k) b = (n, b')" for b k n b'
    using ring_Discard_content [OF that] by (auto simp: min_def)
qed

section \<open>Properties\<close>



end
