(* ===== verification/LinkedListBuffer.thy ===== *)
theory LinkedListBuffer
  imports RingBuffer
begin

text \<open>
  The linked-list buffer of \<open>utils/xbuffer/xlinkedlist\<close>: a list of byte slices with a count of nodes
  and of bytes.  The chain from \<open>head\<close> to \<open>tail\<close> is the list \<open>llNodes\<close>; nodes are never shared, so
  the list determines the pointers.  Readers and writers are the arguments of \<open>RingBuffer\<close>.
\<close>

section \<open>State and node operations\<close>

record llb =
  llNodes :: "bytes list"
  llSize :: int
  llBytes :: int

definition ll_empty :: llb where
  "ll_empty = \<lparr>llNodes = [], llSize = 0, llBytes = 0\<rparr>"

fun ll_pop :: "llb \<Rightarrow> (bytes \<times> llb) option" where
  "ll_pop llb =
     (case llNodes llb of
        [] \<Rightarrow> None
      | b # bs \<Rightarrow> Some (b, llb\<lparr>llNodes := bs, llSize := llSize llb - 1, llBytes := llBytes llb - int (length b)\<rparr>))"

declare ll_pop.simps [simp del]

definition ll_pushFront :: "bytes \<Rightarrow> llb \<Rightarrow> llb" where
  "ll_pushFront b llb =
     llb\<lparr>llNodes := b # llNodes llb, llSize := llSize llb + 1, llBytes := llBytes llb + int (length b)\<rparr>"

definition ll_pushBack :: "bytes \<Rightarrow> llb \<Rightarrow> llb" where
  "ll_pushBack b llb =
     llb\<lparr>llNodes := llNodes llb @ [b], llSize := llSize llb + 1, llBytes := llBytes llb + int (length b)\<rparr>"

definition ll_Buffered :: "llb \<Rightarrow> int" where
  "ll_Buffered llb = llBytes llb"

definition ll_IsEmpty :: "llb \<Rightarrow> bool" where
  "ll_IsEmpty llb \<longleftrightarrow> llNodes llb = []"

section \<open>Operations\<close>

definition ll_Append :: "bytes \<Rightarrow> llb \<Rightarrow> llb" where
  "ll_Append p llb = (if length p = 0 then llb else ll_pushBack p llb)"

definition ll_Pop :: "llb \<Rightarrow> bytes \<times> llb" where
  "ll_Pop llb = (case ll_pop llb of None \<Rightarrow> ([], llb) | Some (b, llb) \<Rightarrow> (b, llb))"

text \<open>\<open>b := bsPool.Get(n); copy(b, p)\<close> is a slice with the bytes of \<open>p\<close>.\<close>

definition ll_PushFront :: "bytes \<Rightarrow> bytes \<Rightarrow> llb \<Rightarrow> llb" where
  "ll_PushFront mem p llb =
     (let n = length p in if n = 0 then llb else ll_pushFront (overwrite 0 p (slice_Get mem n)) llb)"

definition ll_PushBack :: "bytes \<Rightarrow> bytes \<Rightarrow> llb \<Rightarrow> llb" where
  "ll_PushBack mem p llb =
     (let n = length p in if n = 0 then llb else ll_pushBack (overwrite 0 p (slice_Get mem n)) llb)"

lemma ll_pop_Some:
  "ll_pop l = Some (b, l') \<longleftrightarrow>
     llNodes l = b # llNodes l' \<and> l' = l\<lparr>llNodes := llNodes l', llSize := llSize l - 1, llBytes := llBytes l - int (length b)\<rparr>"
  by (auto simp: ll_pop.simps split: list.splits)

lemma ll_pop_None: "ll_pop l = None \<longleftrightarrow> llNodes l = []"
  by (auto simp: ll_pop.simps split: list.splits)

lemma llNodes_push [simp]:
  "llNodes (ll_pushFront b l) = b # llNodes l" "llNodes (ll_pushBack b l) = llNodes l @ [b]"
  by (simp_all add: ll_pushFront_def ll_pushBack_def)

text \<open>\<open>Read\<close>: \<open>r = len(p) - n\<close> is the room left in \<open>p\<close>, \<open>d\<close> what was copied.  The loop puts a rest
  back only when \<open>p\<close> is full, and then it returns.\<close>

function ll_read_loop :: "nat \<Rightarrow> bytes \<Rightarrow> llb \<Rightarrow> bytes \<times> llb" where
  "ll_read_loop r d llb =
     (case ll_pop llb of
        None \<Rightarrow> (d, llb)
      | Some (b, llb) \<Rightarrow>
          let m = min r (length b);
              llb = (if m < length b then ll_pushFront (drop m b) llb else llb)
          in if r - m = 0 then (d @ take m b, llb) else ll_read_loop (r - m) (d @ take m b) llb)"
  by auto
termination
  by (relation "measure (\<lambda>(r, d, llb). length (llNodes llb))") (auto simp: ll_pop_Some)

declare ll_read_loop.simps [simp del]

definition ll_Read :: "nat \<Rightarrow> llb \<Rightarrow> (bytes \<times> goerr option) \<times> llb" where
  "ll_Read k llb =
     (if k = 0 then (([], None), llb)
      else let (d, llb) = ll_read_loop k [] llb
           in ((d, if length d = 0 then Some IoEOF else None), llb))"

abbreviation (input) MaxInt32 :: int where
  "MaxInt32 \<equiv> 2147483647"

text \<open>The loop of \<open>Peek\<close> over the nodes, and the one of \<open>PeekWithBytes\<close> over the slices before them,
  which skips empty ones and says whether the limit was reached.\<close>

primrec ll_gather :: "int \<Rightarrow> int \<Rightarrow> bytes list \<Rightarrow> bytes list" where
  "ll_gather mx cum [] = []"
| "ll_gather mx cum (b # bs) =
     (let offset = (if cum + int (length b) > mx then mx - cum else int (length b))
      in take (nat offset) b # (if cum + offset = mx then [] else ll_gather mx (cum + offset) bs))"

primrec ll_gather_bytes :: "int \<Rightarrow> int \<Rightarrow> bytes list \<Rightarrow> bytes list \<times> int" where
  "ll_gather_bytes mx cum [] = ([], cum)"
| "ll_gather_bytes mx cum (b # bs) =
     (if length b > 0
      then let offset = (if cum + int (length b) > mx then mx - cum else int (length b))
           in if cum + offset = mx then ([take (nat offset) b], mx)
              else apfst (Cons (take (nat offset) b)) (ll_gather_bytes mx (cum + offset) bs)
      else ll_gather_bytes mx cum bs)"

definition ll_Peek :: "int \<Rightarrow> llb \<Rightarrow> bytes list go" where
  "ll_Peek maxBytes llb =
     (if maxBytes \<le> 0 \<or> maxBytes = MaxInt32 then Ok (ll_gather MaxInt32 0 (llNodes llb))
      else if maxBytes > ll_Buffered llb then Err IoErrShortBuffer
      else Ok (ll_gather maxBytes 0 (llNodes llb)))"

definition ll_peek_with :: "int \<Rightarrow> bytes list \<Rightarrow> llb \<Rightarrow> bytes list" where
  "ll_peek_with mx bs llb =
     (let (bss, cum) = ll_gather_bytes mx 0 bs
      in if cum = mx then bss else bss @ ll_gather mx cum (llNodes llb))"

definition ll_PeekWithBytes :: "int \<Rightarrow> bytes list \<Rightarrow> llb \<Rightarrow> bytes list go" where
  "ll_PeekWithBytes maxBytes bs llb =
     (if maxBytes \<le> 0 \<or> maxBytes = MaxInt32 then Ok (ll_peek_with MaxInt32 bs llb)
      else if maxBytes > ll_Buffered llb then Err IoErrShortBuffer
      else Ok (ll_peek_with maxBytes bs llb))"

function ll_discard_loop :: "nat \<Rightarrow> nat \<Rightarrow> llb \<Rightarrow> nat \<times> llb" where
  "ll_discard_loop n discarded llb =
     (if n = 0 then (discarded, llb)
      else case ll_pop llb of
             None \<Rightarrow> (discarded, llb)
           | Some (b, llb) \<Rightarrow>
               if n < length b then (discarded + n, ll_pushFront (drop n b) llb)
               else ll_discard_loop (n - length b) (discarded + length b) llb)"
  by auto
termination
  by (relation "measure (\<lambda>(n, d, llb). length (llNodes llb))") (auto simp: ll_pop_Some)

declare ll_discard_loop.simps [simp del]

definition ll_Discard :: "int \<Rightarrow> llb \<Rightarrow> nat \<times> llb" where
  "ll_Discard n llb = (if n \<le> 0 then (0, llb) else ll_discard_loop (nat n) 0 llb)"

text \<open>\<open>ReadFrom\<close> does not return while the reader has data; what comes together with an error is
  counted, and freed.\<close>

partial_function (option) ll_ReadFrom ::
    "'r io_reader \<Rightarrow> nat \<Rightarrow> llb \<Rightarrow> 'r \<Rightarrow> ((nat \<times> goerr option) \<times> llb \<times> 'r) option" where
  "ll_ReadFrom rd n llb st =
     (case rd 512 st of
        (b, err, st) \<Rightarrow>
          if err = Some IoEOF then Some ((n + length b, None), llb, st)
          else if err \<noteq> None then Some ((n + length b, err), llb, st)
          else ll_ReadFrom rd (n + length b) (ll_pushBack b llb) st)"

function ll_WriteTo :: "'w io_writer \<Rightarrow> nat \<Rightarrow> llb \<Rightarrow> 'w \<Rightarrow> (nat \<times> goerr option) go \<times> llb \<times> 'w" where
  "ll_WriteTo wr n llb st =
     (case ll_pop llb of
        None \<Rightarrow> (Ok (n, None), llb, st)
      | Some (b, llb) \<Rightarrow>
          case wr b st of
            (m, err, st) \<Rightarrow>
              if m > length b then (Panic, llb, st)
              else if err \<noteq> None then (Ok (n + m, err), llb, st)
              else if m < length b then (Ok (n + m, Some IoErrShortWrite), ll_pushFront (drop m b) llb, st)
              else ll_WriteTo wr (n + m) llb st)"
  by auto
termination
  by (relation "measure (\<lambda>(wr, n, llb, st). length (llNodes llb))") (auto simp: ll_pop_Some)

declare ll_WriteTo.simps [simp del]

definition ll_Reset :: "llb \<Rightarrow> llb" where
  "ll_Reset llb = llb\<lparr>llNodes := [], llSize := 0, llBytes := 0\<rparr>"

section \<open>What a buffer holds\<close>

definition ll_ok :: "llb \<Rightarrow> bool" where
  "ll_ok l \<longleftrightarrow> llSize l = int (length (llNodes l)) \<and> llBytes l = int (length (concat (llNodes l)))"

definition ll_content :: "llb \<Rightarrow> bytes" where
  "ll_content l = concat (llNodes l)"

lemma ll_empty_ok: "ll_ok ll_empty" "ll_content ll_empty = []"
  by (simp_all add: ll_empty_def ll_ok_def ll_content_def)

lemma ll_push_ok:
  "ll_ok l \<Longrightarrow> ll_ok (ll_pushFront b l)" "ll_content (ll_pushFront b l) = b @ ll_content l"
  "ll_ok l \<Longrightarrow> ll_ok (ll_pushBack b l)" "ll_content (ll_pushBack b l) = ll_content l @ b"
  by (simp_all add: ll_ok_def ll_content_def ll_pushFront_def ll_pushBack_def)

lemma ll_pop_ok: "ll_ok l \<Longrightarrow> ll_pop l = Some (b, l') \<Longrightarrow> ll_ok l' \<and> ll_content l = b @ ll_content l'"
  by (auto simp: ll_ok_def ll_content_def ll_pop.simps split: list.splits)

lemma ll_Buffered_content: "ll_ok l \<Longrightarrow> ll_Buffered l = int (length (ll_content l))"
  by (simp add: ll_ok_def ll_Buffered_def ll_content_def)

lemma ll_PushBack_content: "ll_ok l \<Longrightarrow> ll_ok (ll_PushBack mem p l) \<and> ll_content (ll_PushBack mem p l) = ll_content l @ p"
  by (simp add: ll_PushBack_def Let_def ll_push_ok overwrite_def)

lemma ll_PushFront_content: "ll_ok l \<Longrightarrow> ll_ok (ll_PushFront mem p l) \<and> ll_content (ll_PushFront mem p l) = p @ ll_content l"
  by (simp add: ll_PushFront_def Let_def ll_push_ok overwrite_def)

lemma ll_Append_content: "ll_ok l \<Longrightarrow> ll_ok (ll_Append p l) \<and> ll_content (ll_Append p l) = ll_content l @ p"
  by (simp add: ll_Append_def ll_push_ok)

lemma ll_Pop_content: "ll_ok l \<Longrightarrow> ll_Pop l = (b, l') \<Longrightarrow> ll_ok l' \<and> ll_content l = b @ ll_content l'"
  by (auto simp: ll_Pop_def ll_content_def ll_pop_None dest: ll_pop_ok split: option.splits)

lemma ll_Reset_ok: "ll_ok (ll_Reset l)" "ll_content (ll_Reset l) = []"
  by (simp_all add: ll_Reset_def ll_ok_def ll_content_def)

lemma ll_read_loop_content:
  "\<lbrakk>ll_ok l; 0 < r; ll_read_loop r d l = (d', l')\<rbrakk> \<Longrightarrow>
     ll_ok l' \<and> d' = d @ take r (ll_content l) \<and> ll_content l' = drop r (ll_content l)"
proof (induction r d l rule: ll_read_loop.induct)
  case (1 r d l)
  show ?case
  proof (cases "ll_pop l")
    case None
    then have "ll_content l = []" by (simp add: ll_pop_None ll_content_def)
    then show ?thesis using 1 None by (simp add: ll_read_loop.simps)
  next
    case (Some bl)
    then obtain b l1 where p: "ll_pop l = Some (b, l1)" by (cases bl) auto
    note ok = ll_pop_ok [OF 1(2) p]
    show ?thesis
    proof (cases "r \<le> length b")
      case True
      then have "d' = d @ take r b" "l' = (if r < length b then ll_pushFront (drop r b) l1 else l1)"
        using 1(4) p by (auto simp: ll_read_loop.simps [of r d l] Let_def)
      then show ?thesis using ok True by (auto simp: ll_push_ok)
    next
      case False
      then have "ll_read_loop (r - length b) (d @ b) l1 = (d', l')"
        using 1(4) p by (simp add: ll_read_loop.simps [of r d l] Let_def)
      then show ?thesis using 1(1) [OF p refl refl refl] ok False by (simp add: Let_def)
    qed
  qed
qed

lemma ll_Read_content:
  assumes "ll_ok l" "ll_Read k l = ((d, err), l')"
  shows "ll_ok l'" "d = take k (ll_content l)" "ll_content l' = drop k (ll_content l)"
    "err = (if k \<noteq> 0 \<and> ll_content l = [] then Some IoEOF else None)"
  using assms ll_read_loop_content [OF assms(1), of k "[]"]
  by (auto simp: ll_Read_def split: if_splits prod.splits)

lemma ll_discard_loop_content:
  "\<lbrakk>ll_ok l; ll_discard_loop n d l = (d', l')\<rbrakk> \<Longrightarrow>
     ll_ok l' \<and> d' = d + min n (length (ll_content l)) \<and> ll_content l' = drop n (ll_content l)"
proof (induction n d l rule: ll_discard_loop.induct)
  case (1 n d l)
  show ?case
  proof (cases "n = 0 \<or> ll_pop l = None")
    case True
    moreover have "ll_pop l = None \<Longrightarrow> ll_content l = []" by (simp add: ll_pop_None ll_content_def)
    ultimately show ?thesis using 1(2,3) by (auto simp: ll_discard_loop.simps [of n d l] split: if_splits)
  next
    case False
    then obtain b l1 where p: "ll_pop l = Some (b, l1)" by auto
    note ok = ll_pop_ok [OF 1(2) p]
    show ?thesis
    proof (cases "n < length b")
      case True
      then show ?thesis using 1(3) p ok False by (auto simp: ll_discard_loop.simps [of n d l] ll_push_ok)
    next
      case less: False
      then have "ll_discard_loop (n - length b) (d + length b) l1 = (d', l')"
        using 1(3) p False by (simp add: ll_discard_loop.simps [of n d l])
      then show ?thesis using 1(1) [OF _ p refl less] ok False less by auto
    qed
  qed
qed

lemma ll_Discard_content:
  "\<lbrakk>ll_ok l; ll_Discard n l = (d, l')\<rbrakk> \<Longrightarrow>
     ll_ok l' \<and> d = min (nat n) (length (ll_content l)) \<and> ll_content l' = drop (nat n) (ll_content l)"
  using ll_discard_loop_content [of l "nat n" 0 d l'] by (auto simp: ll_Discard_def split: if_splits)

interpretation ll: byte_fifo ll_ok ll_content "\<lambda>p l. Some (ll_PushBack mem p l)"
    "\<lambda>k l. apfst fst (ll_Read k l)" "\<lambda>k. ll_Discard (int k)" for mem
proof
  show "ll_ok b' \<and> d = take k (ll_content b) \<and> ll_content b' = drop k (ll_content b)"
    if "ll_ok b" "apfst fst (ll_Read k b) = (d, b')" for b k d b'
    using that ll_Read_content [OF that(1), of k] by (cases "ll_Read k b") auto
  show "ll_ok b' \<and> n = min k (length (ll_content b)) \<and> ll_content b' = drop k (ll_content b)"
    if "ll_ok b" "ll_Discard (int k) b = (n, b')" for b k n b'
    using ll_Discard_content [OF that] by simp
qed (simp add: ll_PushBack_content)

section \<open>Looking at a prefix\<close>

lemma ll_gather_content: "cum < mx \<Longrightarrow> concat (ll_gather mx cum bs) = take (nat (mx - cum)) (concat bs)"
proof (induction bs arbitrary: cum)
  case (Cons b bs)
  show ?case
  proof (cases "cum + int (length b) \<ge> mx")
    case True
    then show ?thesis using Cons.prems by (auto simp: Let_def)
  next
    case False
    then have "nat (mx - cum) - length b = nat (mx - (cum + int (length b)))" by linarith
    then show ?thesis using False Cons.IH [of "cum + int (length b)"] by (simp add: Let_def)
  qed
qed simp

lemma ll_gather_bytes_content:
  "\<lbrakk>cum < mx; ll_gather_bytes mx cum bs = (bss, c)\<rbrakk> \<Longrightarrow>
     concat bss = take (nat (mx - cum)) (concat bs) \<and> c = min mx (cum + int (length (concat bs)))"
proof (induction bs arbitrary: cum bss)
  case (Cons b bs)
  show ?case
  proof (cases "b = [] \<or> cum + int (length b) \<ge> mx")
    case True
    then show ?thesis using Cons by (auto simp: Let_def split: if_splits)
  next
    case False
    then obtain bss1 where g: "ll_gather_bytes mx (cum + int (length b)) bs = (bss1, c)" "bss = b # bss1"
      using Cons.prems by (cases "ll_gather_bytes mx (cum + int (length b)) bs") (auto simp: Let_def)
    have "nat (mx - cum) - length b = nat (mx - (cum + int (length b)))" "length b \<le> nat (mx - cum)"
      using False by linarith+
    then show ?thesis using False Cons.IH [OF _ g(1)] g(2) by (simp add: add.assoc)
  qed
qed simp

lemma ll_peek_with_content:
  assumes "0 < mx"
  shows "concat (ll_peek_with mx bs l) = take (nat mx) (concat bs @ ll_content l)"
proof -
  obtain bss c where g: "ll_gather_bytes mx 0 bs = (bss, c)" by fastforce
  note h = ll_gather_bytes_content [OF assms g]
  show ?thesis
  proof (cases "c = mx")
    case True
    then have "nat mx \<le> length (concat bs)" using h by linarith
    then show ?thesis using g h True by (simp add: ll_peek_with_def)
  next
    case False
    then have c: "c = int (length (concat bs))" "c < mx" using h by auto
    then have "nat (mx - c) = nat mx - length (concat bs)" by linarith
    then show ?thesis
      using g h False c ll_gather_content [OF c(2), of "llNodes l"] by (simp add: ll_peek_with_def ll_content_def)
  qed
qed

lemma ll_PeekWithBytes_content:
  assumes "ll_ok l" "0 < n" "n \<le> int (length (ll_content l))" "n < MaxInt32"
  shows "\<exists>bss. ll_PeekWithBytes n bs l = Ok bss \<and> concat bss = take (nat n) (concat bs @ ll_content l)"
  using assms ll_peek_with_content [OF assms(2)] by (simp add: ll_PeekWithBytes_def ll_Buffered_content)

lemma ll_Peek_content:
  assumes "ll_ok l" "0 < n" "n < MaxInt32"
  shows "ll_Peek n l = (if n \<le> int (length (ll_content l)) then Ok (ll_gather n 0 (llNodes l)) else Err IoErrShortBuffer)"
    "concat (ll_gather n 0 (llNodes l)) = take (nat n) (ll_content l)"
  using assms ll_gather_content [of 0 n "llNodes l"] by (auto simp: ll_Peek_def ll_Buffered_content ll_content_def)

section \<open>Streaming\<close>

text \<open>A writer that reports no error of its own: what it took is a prefix, and the rest stays.\<close>

lemma ll_WriteTo_wrote:
  "\<lbrakk>ll_ok l; honest_writer sink wr; \<forall>p st. fst (snd (wr p st)) = None\<rbrakk> \<Longrightarrow>
     \<exists>m err l' st'. ll_WriteTo wr n l st = (Ok (n + m, err), l', st') \<and> ll_ok l' \<and>
       sink st' = sink st @ take m (ll_content l) \<and> ll_content l' = drop m (ll_content l) \<and>
       m \<le> length (ll_content l) \<and> (err = None \<longrightarrow> ll_content l' = [])"
proof (induction wr n l st rule: ll_WriteTo.induct)
  case (1 wr n l st)
  show ?case
  proof (cases "ll_pop l")
    case None
    moreover have "ll_content l = []" using None by (simp add: ll_pop_None ll_content_def)
    ultimately show ?thesis using 1(2) by (simp add: ll_WriteTo.simps [of wr n l st])
  next
    case (Some bl)
    then obtain b l1 where p: "ll_pop l = Some (b, l1)" by (cases bl) auto
    obtain m err st1 where w: "wr b st = (m, err, st1)" by (cases "wr b st")
    have err: "err = None" using 1(4) w by (metis fst_conv snd_conv)
    note hw = honest_writerD [OF 1(3) w] and ok = ll_pop_ok [OF 1(2) p]
    show ?thesis
    proof (cases "m < length b")
      case True
      then have "ll_WriteTo wr n l st = (Ok (n + m, Some IoErrShortWrite), ll_pushFront (drop m b) l1, st1)"
        using p w hw err by (simp add: ll_WriteTo.simps [of wr n l st])
      then show ?thesis using hw ok True by (auto simp: ll_push_ok)
    next
      case False
      then have m: "m = length b" using hw by simp
      obtain m' e' l' st' where r: "ll_WriteTo wr (n + m) l1 st1 = (Ok (n + m + m', e'), l', st')" "ll_ok l'"
          "sink st' = sink st1 @ take m' (ll_content l1)" "ll_content l' = drop m' (ll_content l1)"
          "m' \<le> length (ll_content l1)" "e' = None \<longrightarrow> ll_content l' = []"
        using 1(1) [OF p refl w [symmetric] refl] err m ok 1(3,4) by auto
      have "ll_WriteTo wr n l st = (Ok (n + (m + m'), e'), l', st')"
        using p w err m r(1) by (simp add: ll_WriteTo.simps [of wr n l st] add.assoc)
      then show ?thesis using r hw ok m by (intro exI [of _ "m + m'"]) auto
    qed
  qed
qed

text \<open>When the writer fails in the middle of a node, the rest of that node is dropped.\<close>

lemma ll_WriteTo_error_loses:
  assumes "llNodes l = b # bs" "wr b st = (m, Some e, st')" "m \<le> length b"
  shows "\<exists>l'. ll_WriteTo wr n l st = (Ok (n + m, Some e), l', st') \<and> llNodes l' = bs"
  using assms by (simp add: ll_WriteTo.simps [of wr n l st] ll_pop.simps)

text \<open>Bytes that arrive together with the end of the stream, as \<open>io.Reader\<close> allows, are counted but
  not kept.\<close>

lemma ll_ReadFrom_eof_drops:
  "rd 512 st = (d, Some IoEOF, st') \<Longrightarrow> ll_ReadFrom rd n l st = Some ((n + length d, None), l, st')"
  by (subst ll_ReadFrom.simps) simp

end
