(* ===== verification/BufferPools.thy ===== *)
theory BufferPools
  imports RingBuffer "HOL-Library.Multiset"
begin

text \<open>
  The two pools behind the byte buffers: \<open>utils/xpool/xbyteslice\<close>, which keeps bare pointers to arrays
  and rebuilds slices with \<open>unsafe.Slice\<close>, and \<open>utils/xpool/xringbuffer\<close>, which keeps ring buffers and
  calibrates the size of new ones.  What the run time hands out of a \<open>sync.Pool\<close> is chosen by \<open>sel\<close>, as
  in \<open>Pool\<close>.
\<close>

section \<open>Byte slices\<close>

text \<open>A stored pointer is the array behind it; \<open>None\<close> is the nil that an empty \<open>sync.Pool\<close> returns.\<close>

type_synonym bs_pools = "bytes option list list"

definition bs_index :: "nat \<Rightarrow> nat" where
  "bs_index n = bits_Len (n - 1)"

text \<open>\<open>Get\<close> returns the memory up to the slice's capacity; the slice is its first \<open>size\<close> bytes.
  \<open>unsafe.Slice\<close> over an array that is too short reads memory that is not there: \<open>Panic\<close>.\<close>

definition bs_Get :: "(bytes option list \<Rightarrow> nat option) \<Rightarrow> int \<Rightarrow> bs_pools \<Rightarrow> bytes go \<times> bs_pools" where
  "bs_Get sel sz ps =
     (if sz \<le> 0 then (Ok [], ps)
      else if sz > 2147483647 then (Ok (replicate (nat sz) 0), ps)
      else let idx = bs_index (nat sz); (ptr, ps) = pool_take (\<lambda>_. None) sel idx ps
           in case ptr of
                None \<Rightarrow> (Ok (replicate (2 ^ idx) 0), ps)
              | Some arr \<Rightarrow> if 2 ^ idx \<le> length arr then (Ok (take (2 ^ idx) arr), ps) else (Panic, ps))"

text \<open>\<open>arr\<close> is \<open>buf[:cap(buf)]\<close>.\<close>

definition bs_Put :: "bytes \<Rightarrow> bs_pools \<Rightarrow> bs_pools" where
  "bs_Put arr ps =
     (let sz = length arr
      in if sz = 0 \<or> sz > 2147483647 then ps
         else let idx = bs_index sz; idx = (if sz \<noteq> 2 ^ idx then idx - 1 else idx)
              in ps[idx := Some arr # ps ! idx])"

definition bs_idle :: "nat \<Rightarrow> bytes option \<Rightarrow> bool" where
  "bs_idle i ptr \<longleftrightarrow> (case ptr of None \<Rightarrow> True | Some arr \<Rightarrow> 2 ^ i \<le> length arr)"

definition bs_ok :: "bs_pools \<Rightarrow> bool" where
  "bs_ok ps \<longleftrightarrow> length ps = 32 \<and> pools_ok bs_idle ps"

interpretation bs: graded_pool "\<lambda>_. None" bs_idle
  by unfold_locales (simp add: bs_idle_def)

lemma bs_index_upper: "0 < n \<Longrightarrow> n \<le> 2 ^ bs_index n"
  using bits_Len_upper [of "n - 1"] by (simp add: bs_index_def)

lemma bs_index_lower: "0 < n \<Longrightarrow> n \<noteq> 2 ^ bs_index n \<Longrightarrow> 2 ^ (bs_index n - 1) \<le> n"
proof -
  assume n: "0 < n" "n \<noteq> 2 ^ bs_index n"
  show "2 ^ (bs_index n - 1) \<le> n"
  proof (cases "bs_index n")
    case (Suc i)
    then have "0 < n - 1" by (cases "n - 1") (auto simp: bs_index_def bits_Len.simps)
    then have "2 ^ bs_index n \<le> 2 * (n - 1)" unfolding bs_index_def by (rule bits_Len_lower)
    then show ?thesis using Suc by simp
  qed (use n in simp)
qed

lemma bs_index_less: "0 < n \<Longrightarrow> n \<le> 2147483647 \<Longrightarrow> bs_index n < 32"
proof -
  assume n: "0 < n" "n \<le> 2147483647"
  show "bs_index n < 32"
  proof (cases "n - 1 = 0")
    case False
    then have "2 ^ bs_index n \<le> 2 * (n - 1)" unfolding bs_index_def using bits_Len_lower [of "n - 1"] by simp
    also have "\<dots> < 2 ^ 32" using n by simp
    finally show ?thesis by (simp only: power_strict_increasing_iff)
  qed (simp add: bs_index_def bits_Len.simps)
qed

lemma bs_Get_safe:
  assumes "bs_ok ps"
  shows "\<exists>mem ps'. bs_Get sel sz ps = (Ok mem, ps') \<and> bs_ok ps' \<and> nat sz \<le> length mem"
proof (cases "sz \<le> 0 \<or> sz > 2147483647")
  case False
  define idx where "idx = bs_index (nat sz)"
  have pos: "0 < nat sz" "nat sz \<le> 2147483647" using False by linarith+
  note i = bs_index_less [OF pos, folded idx_def] bs_index_upper [OF pos(1), folded idx_def]
  obtain ptr ps' where t: "pool_take (\<lambda>_. None) sel idx ps = (ptr, ps')" by fastforce
  have "bs_idle idx ptr" "bs_ok ps'"
    using assms bs.take_idle [OF _ t] bs.take_pools_ok [OF _ t] i by (auto simp: bs_ok_def)
  then show ?thesis
    using False i t by (auto simp: bs_Get_def Let_def idx_def [symmetric] bs_idle_def split: option.splits)
qed (use assms in \<open>auto simp: bs_Get_def\<close>)

lemma bs_Put_ok: "bs_ok ps \<Longrightarrow> bs_ok (bs_Put arr ps)"
proof -
  assume ok: "bs_ok ps"
  have "bs_idle (if length arr \<noteq> 2 ^ bs_index (length arr) then bs_index (length arr) - 1 else bs_index (length arr)) (Some arr)"
    if "arr \<noteq> []" using that bs_index_lower [of "length arr"] by (auto simp: bs_idle_def)
  then show ?thesis using ok bs.put_pools_ok by (auto simp: bs_ok_def bs_Put_def Let_def)
qed

text \<open>Any sequence of calls.\<close>

datatype bs_op = BsGet "bytes option list \<Rightarrow> nat option" int | BsPut bytes

primrec bs_run :: "bs_op list \<Rightarrow> bs_pools \<Rightarrow> bool" where
  "bs_run [] ps \<longleftrightarrow> True"
| "bs_run (op # ops) ps \<longleftrightarrow>
     (case op of
        BsGet sel sz \<Rightarrow> (case bs_Get sel sz ps of (res, ps) \<Rightarrow> res \<noteq> Panic \<and> bs_run ops ps)
      | BsPut arr \<Rightarrow> bs_run ops (bs_Put arr ps))"

lemma bs_run_safe: "bs_ok ps \<Longrightarrow> bs_run ops ps"
proof (induction ops arbitrary: ps)
  case (Cons op ops)
  show ?case
  proof (cases op)
    case (BsGet sel n)
    then show ?thesis using bs_Get_safe [OF Cons.prems, of sel n] Cons.IH by auto
  next
    case (BsPut arr)
    then show ?thesis using bs_Put_ok [OF Cons.prems] Cons.IH by simp
  qed
qed simp

lemma bs_new_ok: "bs_ok (replicate 32 [])"
  using pools_ok_empty [of bs_idle 31] by (simp add: bs_ok_def)

section \<open>Ring buffers\<close>

record rpool =
  rpCalls :: "uint64 list"
  rpCalibrating :: bool
  rpDefault :: nat
  rpMax :: nat
  rpIdle :: "ring list"

definition rp_new :: rpool where
  "rp_new = \<lparr>rpCalls = replicate 20 0, rpCalibrating = False, rpDefault = 0, rpMax = 0, rpIdle = []\<rparr>"

definition rp_index :: "nat \<Rightarrow> nat" where
  "rp_index n =
     (let n = (int n - 1) div 2 ^ 6;
          idx = (if n > 0 then bits_Len (nat n) else 0)
      in if idx \<ge> 20 then 19 else idx)"

definition rp_Get :: "(ring list \<Rightarrow> nat option) \<Rightarrow> rpool \<Rightarrow> ring \<times> rpool" where
  "rp_Get sel p =
     (let (b, idle) = pool_take (\<lambda>_. ring_New (rpDefault p)) sel 0 [rpIdle p] in (b, p\<lparr>rpIdle := hd idle\<rparr>))"

text \<open>\<open>calibrate\<close>: a new buffer gets the size that was returned most often, and the limit is the largest
  of the most frequent sizes that make up 95 percent of the calls.  \<open>srt\<close> is \<open>sort.Sort\<close> (which is not
  stable) and \<open>pct\<close> the multiplication by 0.95 in floating point.\<close>

type_synonym callSize = "uint64 \<times> nat"

primrec rp_max_loop :: "uint64 \<Rightarrow> uint64 \<Rightarrow> nat \<Rightarrow> callSize list \<Rightarrow> nat" where
  "rp_max_loop maxSum callsSum maxSize [] = maxSize"
| "rp_max_loop maxSum callsSum maxSize (c # cs) =
     (if callsSum > maxSum then maxSize
      else rp_max_loop maxSum (callsSum + fst c) (if snd c > maxSize then snd c else maxSize) cs)"

definition rp_sizes :: "rpool \<Rightarrow> callSize list" where
  "rp_sizes p = map (\<lambda>i. (rpCalls p ! i, 64 * 2 ^ i)) [0..<20]"

definition rp_calibrate :: "(callSize list \<Rightarrow> callSize list) \<Rightarrow> (uint64 \<Rightarrow> uint64) \<Rightarrow> rpool \<Rightarrow> rpool" where
  "rp_calibrate srt pct p =
     (if rpCalibrating p then p
      else let a = srt (rp_sizes p);
               callsSum = sum_list (map fst (rp_sizes p));
               defaultSize = snd (a ! 0);
               maxSize = rp_max_loop (pct callsSum) 0 defaultSize a
           in p\<lparr>rpCalls := replicate 20 0, rpDefault := defaultSize, rpMax := maxSize, rpCalibrating := False\<rparr>)"

definition rp_Put :: "(callSize list \<Rightarrow> callSize list) \<Rightarrow> (uint64 \<Rightarrow> uint64) \<Rightarrow> ring \<Rightarrow> rpool \<Rightarrow> rpool" where
  "rp_Put srt pct b p =
     (let idx = rp_index (length (rgBuf b));
          calls = rpCalls p ! idx + 1;
          p = p\<lparr>rpCalls := (rpCalls p)[idx := calls]\<rparr>;
          p = (if calls > 42000 then rp_calibrate srt pct p else p);
          maxSize = rpMax p
      in if maxSize = 0 \<or> rgSize b \<le> maxSize then p\<lparr>rpIdle := ring_Reset b # rpIdle p\<rparr> else p)"

text \<open>An empty ring buffer over a slice with old bytes in it: what \<open>Get\<close> hands out.\<close>

definition ring_pooled :: "bytes \<Rightarrow> ring" where
  "ring_pooled old = \<lparr>rgBuf = old, rgSize = length old, rgR = 0, rgW = 0, rgEmpty = True\<rparr>"

lemma ring_pooled_ok [simp]: "ring_ok (ring_pooled old)" "content (ring_pooled old) = []" "rgEmpty (ring_pooled old)"
  by (simp_all add: ring_pooled_def ring_ok_def content_def)

lemma ring_empty_pooled: "ring_ok b \<Longrightarrow> rgEmpty b \<Longrightarrow> b = ring_pooled (rgBuf b)"
  by (cases b) (simp add: ring_ok_def ring_pooled_def)

definition ring_idle :: "nat \<Rightarrow> ring \<Rightarrow> bool" where
  "ring_idle i b \<longleftrightarrow> ring_ok b \<and> rgEmpty b"

definition rp_ok :: "rpool \<Rightarrow> bool" where
  "rp_ok p \<longleftrightarrow> length (rpCalls p) = 20 \<and> (\<forall>b \<in> set (rpIdle p). ring_ok b \<and> rgEmpty b)"

interpretation rp: graded_pool "\<lambda>_. ring_New n" ring_idle for n
  by unfold_locales (simp add: ring_idle_def ring_New_ok content_empty_iff [symmetric])

lemma rp_Get_ok:
  assumes "rp_ok p" "rp_Get sel p = (b, p')"
  shows "\<exists>old. b = ring_pooled old" "rp_ok p'"
proof -
  obtain idle where t: "pool_take (\<lambda>_. ring_New (rpDefault p)) sel 0 [rpIdle p] = (b, idle)" "p' = p\<lparr>rpIdle := hd idle\<rparr>"
    using assms(2) by (auto simp: rp_Get_def split: prod.splits)
  have ok: "pools_ok ring_idle [rpIdle p]" using assms(1) by (auto simp: pools_ok_def rp_ok_def ring_idle_def)
  have "ring_idle 0 b" using rp.take_idle [OF ok t(1)] by simp
  then show "\<exists>old. b = ring_pooled old" using ring_empty_pooled by (auto simp: ring_idle_def)
  show "rp_ok p'" using rp.take_pools_ok [OF ok t(1)] assms(1) t(2)
    by (cases idle) (auto simp: pools_ok_def rp_ok_def ring_idle_def)
qed

lemma rp_calibrate_ok: "rp_ok p \<Longrightarrow> rp_ok (rp_calibrate srt pct p)"
  by (simp add: rp_calibrate_def rp_ok_def Let_def)

lemma rp_Put_ok: "rp_ok p \<Longrightarrow> ring_ok b \<Longrightarrow> rp_ok (rp_Put srt pct b p)"
  using rp_calibrate_ok [of "p\<lparr>rpCalls := (rpCalls p)[i := c]\<rparr>" srt pct for i c] ring_Reset_ok [of b]
  by (auto simp: rp_Put_def rp_ok_def Let_def ring_Reset_def)

lemma rp_index_less: "rp_index n < 20"
  by (simp add: rp_index_def Let_def)

lemma rp_max_loop_ge: "mx \<le> rp_max_loop ms cs mx a"
proof (induction a arbitrary: cs mx)
  case (Cons c a)
  then show ?case by (auto intro: order_trans [OF _ Cons.IH])
qed simp

text \<open>After a calibration the default size is one that was returned most often, and it is within the
  limit, so that default-sized buffers go back to the pool.\<close>

lemma rp_calibrate_default:
  assumes "\<not> rpCalibrating p" "length (rpCalls p) = 20" "mset (srt (rp_sizes p)) = mset (rp_sizes p)"
    "sorted_wrt (\<lambda>c d. fst c \<ge> fst d) (srt (rp_sizes p))"
  shows "\<exists>i<20. rpDefault (rp_calibrate srt pct p) = 64 * 2 ^ i \<and> (\<forall>j<20. rpCalls p ! j \<le> rpCalls p ! i)"
    "rpDefault (rp_calibrate srt pct p) \<le> rpMax (rp_calibrate srt pct p)"
proof -
  let ?a = "srt (rp_sizes p)"
  have set: "set ?a = set (rp_sizes p)" using assms(3) by (metis set_mset_mset)
  have "length ?a = length (rp_sizes p)" using assms(3) by (rule mset_eq_length)
  then have "length ?a = 20" by (simp add: rp_sizes_def)
  then obtain c cs where a: "?a = c # cs" by (cases ?a) auto
  have "c \<in> set (rp_sizes p)" using a set by auto
  then obtain i where i: "i < 20" "c = (rpCalls p ! i, 64 * 2 ^ i)" by (auto simp: rp_sizes_def)
  have "rpCalls p ! j \<le> rpCalls p ! i" if "j < 20" for j
  proof -
    have "(rpCalls p ! j, 64 * 2 ^ j) \<in> set ?a" unfolding set using that by (auto simp: rp_sizes_def)
    then show ?thesis using assms(4) a i by auto
  qed
  then show "\<exists>i<20. rpDefault (rp_calibrate srt pct p) = 64 * 2 ^ i \<and> (\<forall>j<20. rpCalls p ! j \<le> rpCalls p ! i)"
    using i a assms(1) unfolding rp_calibrate_def Let_def by (intro exI [of _ i]) simp
  show "rpDefault (rp_calibrate srt pct p) \<le> rpMax (rp_calibrate srt pct p)"
    using assms(1) rp_max_loop_ge by (simp add: rp_calibrate_def Let_def)
qed

section \<open>Properties\<close>

text \<open>The byte-slice pool keeps bare pointers and rebuilds slices from them: whatever slices are
  put into it, in any order, a slice it hands out never reaches past the array behind it.\<close>

theorem byte_slice_pool_safe: "bs_run ops (replicate 32 [])"
  by (rule bs_run_safe [OF bs_new_ok])

end
