(* ===== verification/ElasticBuffer.thy ===== *)
theory ElasticBuffer
  imports LinkedListBuffer BufferPools
begin

text \<open>
  The elastic buffers of \<open>utils/xbuffer/xelastic\<close>: \<open>XRingBuffer\<close>, a ring buffer taken from the pool on
  the first write and given back when it is empty, and \<open>XBuffer\<close>, a ring buffer up to a limit with a
  linked-list buffer behind it.  \<open>old\<close> is the slice of the ring buffer the pool hands out
  (\<open>ring_pooled\<close>, justified by \<open>rp_Get_ok\<close>), \<open>mem\<close> the old bytes of a pooled slice.
\<close>

section \<open>The elastic ring\<close>

type_synonym ering = "ring option"

definition er_instance :: "bytes \<Rightarrow> ering \<Rightarrow> ring" where
  "er_instance old b = (case b of None \<Rightarrow> ring_pooled old | Some rb \<Rightarrow> rb)"

definition er_Done :: "ering \<Rightarrow> ering" where
  "er_Done b = None"

definition er_done :: "ering \<Rightarrow> ering" where
  "er_done b = (case b of None \<Rightarrow> None | Some rb \<Rightarrow> if rgEmpty rb then None else Some rb)"

definition er_Peek :: "int \<Rightarrow> ering \<Rightarrow> bytes \<times> bytes" where
  "er_Peek n b = (case b of None \<Rightarrow> ([], []) | Some rb \<Rightarrow> ring_Peek n rb)"

definition er_Discard :: "int \<Rightarrow> ering \<Rightarrow> (nat \<times> goerr option) \<times> ering" where
  "er_Discard n b =
     (case b of
        None \<Rightarrow> ((0, Some ErrIsEmpty), None)
      | Some rb \<Rightarrow> let (d, rb) = ring_Discard n rb in ((d, None), er_done (Some rb)))"

definition er_Read :: "nat \<Rightarrow> ering \<Rightarrow> bytes go \<times> ering" where
  "er_Read k b =
     (case b of
        None \<Rightarrow> (Err ErrIsEmpty, None)
      | Some rb \<Rightarrow> let (res, rb) = ring_Read k rb in (res, er_done (Some rb)))"

definition er_ReadByte :: "ering \<Rightarrow> byte go \<times> ering" where
  "er_ReadByte b =
     (case b of
        None \<Rightarrow> (Err ErrIsEmpty, None)
      | Some rb \<Rightarrow> let (res, rb) = ring_ReadByte rb in (res, er_done (Some rb)))"

definition er_Write :: "bytes \<Rightarrow> bytes \<Rightarrow> bytes \<Rightarrow> ering \<Rightarrow> ering option" where
  "er_Write mem old p b =
     (if length p = 0 then Some b else map_option Some (ring_Write mem p (er_instance old b)))"

definition er_WriteByte :: "bytes \<Rightarrow> bytes \<Rightarrow> byte \<Rightarrow> ering \<Rightarrow> ering go option" where
  "er_WriteByte mem old c b = map_option (go_map Some) (ring_WriteByte mem c (er_instance old b))"

definition er_Buffered :: "ering \<Rightarrow> nat" where
  "er_Buffered b = (case b of None \<Rightarrow> 0 | Some rb \<Rightarrow> ring_Buffered rb)"

definition er_Len :: "ering \<Rightarrow> nat" where
  "er_Len b = (case b of None \<Rightarrow> 0 | Some rb \<Rightarrow> length (rgBuf rb))"

definition er_Cap :: "ering \<Rightarrow> nat" where
  "er_Cap b = (case b of None \<Rightarrow> 0 | Some rb \<Rightarrow> rgSize rb)"

definition er_Available :: "ering \<Rightarrow> nat" where
  "er_Available b = (case b of None \<Rightarrow> 0 | Some rb \<Rightarrow> ring_Available rb)"

definition er_WriteString :: "bytes \<Rightarrow> bytes \<Rightarrow> string \<Rightarrow> ering \<Rightarrow> ering option" where
  "er_WriteString mem old s b =
     (if length s = 0 then Some b else map_option Some (ring_WriteString mem s (er_instance old b)))"

definition er_Bytes :: "ering \<Rightarrow> bytes" where
  "er_Bytes b = (case b of None \<Rightarrow> [] | Some rb \<Rightarrow> ring_Bytes rb)"

definition er_ReadFrom ::
    "bytes \<Rightarrow> bytes \<Rightarrow> 'r io_reader \<Rightarrow> ering \<Rightarrow> 'r \<Rightarrow> ((nat \<times> goerr option) \<times> ering \<times> 'r) option" where
  "er_ReadFrom mem old rd b st =
     map_option (\<lambda>(res, rb, st). (res, Some rb, st)) (ring_ReadFrom mem rd 0 (er_instance old b) st)"

definition er_WriteTo :: "'w io_writer \<Rightarrow> ering \<Rightarrow> 'w \<Rightarrow> (nat \<times> goerr option) go \<times> ering \<times> 'w" where
  "er_WriteTo wr b st =
     (case b of
        None \<Rightarrow> (Ok (0, Some ErrIsEmpty), None, st)
      | Some rb \<Rightarrow> let (res, rb, st) = ring_WriteTo wr rb st in (res, er_done (Some rb), st))"

definition er_IsFull :: "ering \<Rightarrow> bool" where
  "er_IsFull b = (case b of None \<Rightarrow> False | Some rb \<Rightarrow> ring_IsFull rb)"

definition er_IsEmpty :: "ering \<Rightarrow> bool" where
  "er_IsEmpty b = (case b of None \<Rightarrow> True | Some rb \<Rightarrow> rgEmpty rb)"

definition er_Reset :: "ering \<Rightarrow> ering" where
  "er_Reset b = (case b of None \<Rightarrow> None | Some rb \<Rightarrow> Some (ring_Reset rb))"

definition er_ok :: "ering \<Rightarrow> bool" where
  "er_ok b = (case b of None \<Rightarrow> True | Some rb \<Rightarrow> ring_ok rb)"

definition er_content :: "ering \<Rightarrow> bytes" where
  "er_content b = (case b of None \<Rightarrow> [] | Some rb \<Rightarrow> content rb)"

lemma er_simps [simp]:
  "er_ok None" "er_content None = []" "er_ok (Some rb) = ring_ok rb" "er_content (Some rb) = content rb"
  by (simp_all add: er_ok_def er_content_def)

lemma er_instance_ok: "er_ok b \<Longrightarrow> ring_ok (er_instance old b)" "content (er_instance old b) = er_content b"
  by (auto simp: er_instance_def split: option.splits)

lemma er_done_ok: "er_ok b \<Longrightarrow> er_ok (er_done b)" "er_content (er_done b) = er_content b"
  by (auto simp: er_done_def content_def split: option.splits)

lemma er_Buffered_content: "er_ok b \<Longrightarrow> er_Buffered b = length (er_content b)"
  by (auto simp: er_Buffered_def length_content split: option.splits)

lemma er_IsEmpty_content: "er_ok b \<Longrightarrow> er_IsEmpty b \<longleftrightarrow> er_content b = []"
  by (auto simp: er_IsEmpty_def content_empty_iff split: option.splits)

lemma er_Write_content: "er_ok b \<Longrightarrow> \<exists>b'. er_Write mem old p b = Some b' \<and> er_ok b' \<and> er_content b' = er_content b @ p"
  using ring_Write_content [OF er_instance_ok(1), of b mem p old] er_instance_ok(2) [of old b]
  by (auto simp: er_Write_def)

lemma er_Read_content:
  assumes "er_ok b" "er_Read k b = (res, b')"
  shows "er_ok b'" "go_bytes res = take k (er_content b)" "er_content b' = drop k (er_content b)" "res \<noteq> Panic"
proof -
  have "er_ok b' \<and> go_bytes res = take k (er_content b) \<and> er_content b' = drop k (er_content b) \<and> res \<noteq> Panic"
  proof (cases b)
    case (Some rb)
    obtain res1 rb1 where r: "ring_Read k rb = (res1, rb1)" by fastforce
    then show ?thesis using Some assms ring_Read_content [OF _ r] er_done_ok [of "Some rb1"]
      by (auto simp: er_Read_def split: if_splits)
  qed (use assms in \<open>auto simp: er_Read_def\<close>)
  then show "er_ok b'" "go_bytes res = take k (er_content b)" "er_content b' = drop k (er_content b)" "res \<noteq> Panic"
    by auto
qed

lemma er_Discard_content:
  assumes "er_ok b" "er_Discard n b = ((d, err), b')"
  shows "er_ok b' \<and> d = min (nat n) (length (er_content b)) \<and> er_content b' = drop (nat n) (er_content b)"
proof (cases b)
  case (Some rb)
  obtain d1 rb1 where r: "ring_Discard n rb = (d1, rb1)" by fastforce
  then show ?thesis using Some assms ring_Discard_content [OF _ r] er_done_ok [of "Some rb1"]
    by (auto simp: er_Discard_def min_def)
qed (use assms in \<open>auto simp: er_Discard_def\<close>)

interpretation er: byte_fifo er_ok er_content "\<lambda>p b. er_Write (mem p b) (old p b) p b" "\<lambda>k b. apfst go_bytes (er_Read k b)"
    "\<lambda>k b. apfst fst (er_Discard (int k) b)" for mem old
proof
  show "er_ok b' \<and> d = take k (er_content b) \<and> er_content b' = drop k (er_content b)"
    if "er_ok b" "apfst go_bytes (er_Read k b) = (d, b')" for b k d b'
    using that er_Read_content [OF that(1), of k] by (cases "er_Read k b") auto
  show "er_ok b' \<and> n = min k (length (er_content b)) \<and> er_content b' = drop k (er_content b)"
    if "er_ok b" "apfst fst (er_Discard (int k) b) = (n, b')" for b k n b'
    using that er_Discard_content [OF that(1), of "int k"] by (cases "er_Discard (int k) b") auto
qed (rule er_Write_content)

section \<open>The elastic buffer\<close>

record ebuf =
  ebMax :: nat
  ebRing :: ering
  ebList :: llb

definition eb_New :: "int \<Rightarrow> ebuf go" where
  "eb_New maxStaticBytes =
     (if maxStaticBytes \<le> 0 then Err ErrNegativeSize
      else Ok \<lparr>ebMax = nat maxStaticBytes, ebRing = None, ebList = ll_empty\<rparr>)"

definition eb_Buffered :: "ebuf \<Rightarrow> int" where
  "eb_Buffered mb = int (er_Buffered (ebRing mb)) + ll_Buffered (ebList mb)"

definition eb_IsEmpty :: "ebuf \<Rightarrow> bool" where
  "eb_IsEmpty mb \<longleftrightarrow> er_IsEmpty (ebRing mb) \<and> ll_IsEmpty (ebList mb)"

primrec go_error :: "'a go \<Rightarrow> goerr option" where
  "go_error (Ok d) = None"
| "go_error (Err e) = Some e"
| "go_error Panic = None"

definition eb_Read :: "nat \<Rightarrow> ebuf \<Rightarrow> (bytes \<times> goerr option) \<times> ebuf" where
  "eb_Read k mb =
     (let (res, rb) = er_Read k (ebRing mb);
          mb = mb\<lparr>ebRing := rb\<rparr>;
          d = go_bytes res
      in if length d = k then ((d, go_error res), mb)
         else let ((d', err), l) = ll_Read (k - length d) (ebList mb) in ((d @ d', err), mb\<lparr>ebList := l\<rparr>))"

definition eb_peek :: "int \<Rightarrow> ebuf \<Rightarrow> bytes list go" where
  "eb_peek n mb =
     (let (head, tail) = er_Peek n (ebRing mb)
      in if int (er_Buffered (ebRing mb)) = n then Ok [head, tail] else ll_PeekWithBytes n [head, tail] (ebList mb))"

definition eb_Peek :: "int \<Rightarrow> ebuf \<Rightarrow> bytes list go" where
  "eb_Peek n mb =
     (if n \<le> 0 \<or> n = MaxInt32 then eb_peek MaxInt32 mb
      else if n > eb_Buffered mb then Err IoErrShortBuffer
      else eb_peek n mb)"

definition eb_Discard :: "int \<Rightarrow> ebuf \<Rightarrow> (nat \<times> goerr option) \<times> ebuf" where
  "eb_Discard n mb =
     (let ((discarded, err), rb) = er_Discard n (ebRing mb);
          mb = mb\<lparr>ebRing := rb\<rparr>
      in if n \<le> int discarded then ((discarded, err), mb)
         else let (m, l) = ll_Discard (n - int discarded) (ebList mb)
              in ((discarded + m, None), mb\<lparr>ebList := l\<rparr>))"

definition eb_spills :: "ebuf \<Rightarrow> bool" where
  "eb_spills mb \<longleftrightarrow> \<not> ll_IsEmpty (ebList mb) \<or> er_Buffered (ebRing mb) \<ge> ebMax mb"

definition eb_ring_write :: "bytes \<Rightarrow> bytes \<Rightarrow> bytes \<Rightarrow> ebuf \<Rightarrow> ebuf option" where
  "eb_ring_write mem old p mb = map_option (\<lambda>rb. mb\<lparr>ebRing := rb\<rparr>) (er_Write mem old p (ebRing mb))"

definition eb_push :: "bytes \<Rightarrow> bytes \<Rightarrow> ebuf \<Rightarrow> ebuf" where
  "eb_push mem p mb = mb\<lparr>ebList := ll_PushBack mem p (ebList mb)\<rparr>"

definition eb_Write :: "bytes \<Rightarrow> bytes \<Rightarrow> bytes \<Rightarrow> ebuf \<Rightarrow> ebuf option" where
  "eb_Write mem old p mb =
     (if eb_spills mb then Some (eb_push mem p mb)
      else let writable = er_Available (ebRing mb)
           in if er_Len (ebRing mb) \<ge> ebMax mb \<and> length p > writable
              then map_option (eb_push mem (drop writable p)) (eb_ring_write mem old (take writable p) mb)
              else eb_ring_write mem old p mb)"

text \<open>The loop of \<open>Writev\<close> stops at the first slice that does not fit, whose rest goes to the list with
  the slices after it.\<close>

fun eb_writev_loop :: "bytes \<Rightarrow> bytes \<Rightarrow> nat \<Rightarrow> bytes list \<Rightarrow> ebuf \<Rightarrow> ebuf option" where
  "eb_writev_loop mem old writable [] mb = Some mb"
| "eb_writev_loop mem old writable (b # bs) mb =
     (if length b > writable
      then map_option (\<lambda>mb. fold (eb_push mem) bs (eb_push mem (drop writable b) mb))
             (eb_ring_write mem old (take writable b) mb)
      else Option.bind (eb_ring_write mem old b mb) (eb_writev_loop mem old (writable - length b) bs))"

definition eb_Writev :: "bytes \<Rightarrow> bytes \<Rightarrow> bytes list \<Rightarrow> ebuf \<Rightarrow> (nat \<times> ebuf) option" where
  "eb_Writev mem old bs mb =
     (let n = sum_list (map length bs)
      in if eb_spills mb then Some (n, fold (eb_push mem) bs mb)
         else let writable = (if er_Len (ebRing mb) < ebMax mb then ebMax mb - er_Buffered (ebRing mb)
                              else er_Available (ebRing mb))
              in map_option (Pair n) (eb_writev_loop mem old writable bs mb))"

definition eb_ReadFrom ::
    "bytes \<Rightarrow> bytes \<Rightarrow> 'r io_reader \<Rightarrow> ebuf \<Rightarrow> 'r \<Rightarrow> ((nat \<times> goerr option) \<times> ebuf \<times> 'r) option" where
  "eb_ReadFrom mem old rd mb st =
     (if eb_spills mb
      then map_option (\<lambda>(res, l, st). (res, mb\<lparr>ebList := l\<rparr>, st)) (ll_ReadFrom rd 0 (ebList mb) st)
      else map_option (\<lambda>(res, rb, st). (res, mb\<lparr>ebRing := rb\<rparr>, st)) (er_ReadFrom mem old rd (ebRing mb) st))"

definition eb_WriteTo :: "'w io_writer \<Rightarrow> ebuf \<Rightarrow> 'w \<Rightarrow> (nat \<times> goerr option) go \<times> ebuf \<times> 'w" where
  "eb_WriteTo wr mb st =
     (case er_WriteTo wr (ebRing mb) st of
        (Ok (n, None), rb, st) \<Rightarrow>
          (case ll_WriteTo wr 0 (ebList mb) st of
             (res, l, st) \<Rightarrow> (go_map (\<lambda>(m, err). (n + m, err)) res, mb\<lparr>ebRing := rb, ebList := l\<rparr>, st))
      | (res, rb, st) \<Rightarrow> (res, mb\<lparr>ebRing := rb\<rparr>, st))"

definition eb_Reset :: "int \<Rightarrow> ebuf \<Rightarrow> ebuf" where
  "eb_Reset maxStaticBytes mb =
     (let mb = mb\<lparr>ebRing := er_Reset (ebRing mb), ebList := ll_Reset (ebList mb)\<rparr>
      in if maxStaticBytes > 0 then mb\<lparr>ebMax := nat maxStaticBytes\<rparr> else mb)"

definition eb_Release :: "ebuf \<Rightarrow> ebuf" where
  "eb_Release mb = mb\<lparr>ebRing := er_Done (ebRing mb), ebList := ll_Reset (ebList mb)\<rparr>"

section \<open>The elastic buffer is a queue of bytes\<close>

definition eb_ok :: "ebuf \<Rightarrow> bool" where
  "eb_ok mb \<longleftrightarrow> er_ok (ebRing mb) \<and> ll_ok (ebList mb)"

definition eb_content :: "ebuf \<Rightarrow> bytes" where
  "eb_content mb = er_content (ebRing mb) @ ll_content (ebList mb)"

lemma eb_New_ok: "eb_New n = Ok mb \<Longrightarrow> eb_ok mb \<and> eb_content mb = []"
  by (auto simp: eb_New_def eb_ok_def eb_content_def ll_empty_ok split: if_splits)

lemma eb_Buffered_content: "eb_ok mb \<Longrightarrow> eb_Buffered mb = int (length (eb_content mb))"
  by (simp add: eb_ok_def eb_Buffered_def eb_content_def er_Buffered_content ll_Buffered_content)

lemma eb_Reset_content: "eb_ok mb \<Longrightarrow> eb_ok (eb_Reset n mb) \<and> eb_content (eb_Reset n mb) = []"
  by (cases "0 < n") (auto simp: eb_ok_def eb_content_def eb_Reset_def er_Reset_def ll_Reset_ok ring_Reset_ok Let_def split: option.splits)

lemma eb_Release_content: "eb_ok (eb_Release mb) \<and> eb_content (eb_Release mb) = []"
  by (simp add: eb_ok_def eb_content_def eb_Release_def er_Done_def ll_Reset_ok)

lemma eb_push_content: "eb_ok mb \<Longrightarrow> eb_ok (eb_push mem p mb) \<and> eb_content (eb_push mem p mb) = eb_content mb @ p"
  using ll_PushBack_content [of "ebList mb" mem p] by (simp add: eb_ok_def eb_content_def eb_push_def)

lemma eb_push_all_content:
  "eb_ok mb \<Longrightarrow> eb_ok (fold (eb_push mem) bs mb) \<and> eb_content (fold (eb_push mem) bs mb) = eb_content mb @ concat bs"
proof (induction bs arbitrary: mb)
  case (Cons b bs)
  then show ?case using eb_push_content [OF Cons.prems, of mem b] by simp
qed simp

text \<open>A write to the ring appends as long as the list is empty.\<close>

lemma eb_ring_write_content:
  assumes "eb_ok mb" "llNodes (ebList mb) = []"
  shows "\<exists>mb'. eb_ring_write mem old p mb = Some mb' \<and> eb_ok mb' \<and> eb_content mb' = eb_content mb @ p \<and>
           ebList mb' = ebList mb"
  using er_Write_content [of "ebRing mb" mem old p] assms
  by (auto simp: eb_ring_write_def eb_ok_def eb_content_def ll_content_def)

lemma eb_Write_content:
  assumes "eb_ok mb"
  shows "\<exists>mb'. eb_Write mem old p mb = Some mb' \<and> eb_ok mb' \<and> eb_content mb' = eb_content mb @ p"
proof (cases "eb_spills mb")
  case False
  then have l: "llNodes (ebList mb) = []" by (simp add: eb_spills_def ll_IsEmpty_def)
  let ?w = "er_Available (ebRing mb)"
  show ?thesis
  proof (cases "er_Len (ebRing mb) \<ge> ebMax mb \<and> length p > ?w")
    case True
    obtain mb1 where w: "eb_ring_write mem old (take ?w p) mb = Some mb1" "eb_ok mb1" "eb_content mb1 = eb_content mb @ take ?w p"
      using eb_ring_write_content [OF assms l] by blast
    then show ?thesis using False True eb_push_content [OF w(2), of mem "drop ?w p"] by (simp add: eb_Write_def)
  next
    case fits: False
    have "eb_Write mem old p mb = eb_ring_write mem old p mb"
      unfolding eb_Write_def Let_def using False fits by (simp only: if_False)
    then show ?thesis using eb_ring_write_content [OF assms l, of mem old p] by auto
  qed
qed (use assms eb_push_content in \<open>auto simp: eb_Write_def\<close>)

lemma eb_writev_loop_content:
  "\<lbrakk>eb_ok mb; llNodes (ebList mb) = []\<rbrakk> \<Longrightarrow>
     \<exists>mb'. eb_writev_loop mem old writable bs mb = Some mb' \<and> eb_ok mb' \<and> eb_content mb' = eb_content mb @ concat bs"
proof (induction bs arbitrary: mb writable)
  case (Cons b bs)
  show ?case
  proof (cases "length b > writable")
    case True
    obtain mb1 where w: "eb_ring_write mem old (take writable b) mb = Some mb1" "eb_ok mb1"
        "eb_content mb1 = eb_content mb @ take writable b"
      using eb_ring_write_content [OF Cons.prems] by blast
    note push = eb_push_content [OF w(2), of mem "drop writable b"]
    then show ?thesis using True w eb_push_all_content [of "eb_push mem (drop writable b) mb1" mem bs] by simp
  next
    case False
    obtain mb1 where w: "eb_ring_write mem old b mb = Some mb1" "eb_ok mb1" "eb_content mb1 = eb_content mb @ b"
        "ebList mb1 = ebList mb"
      using eb_ring_write_content [OF Cons.prems] by blast
    then show ?thesis using False Cons.IH [OF w(2)] Cons.prems by auto
  qed
qed simp

lemma eb_Writev_content:
  assumes "eb_ok mb"
  shows "\<exists>mb'. eb_Writev mem old bs mb = Some (length (concat bs), mb') \<and> eb_ok mb' \<and>
           eb_content mb' = eb_content mb @ concat bs"
proof (cases "eb_spills mb")
  case False
  then have l: "llNodes (ebList mb) = []" by (simp add: eb_spills_def ll_IsEmpty_def)
  then show ?thesis using False eb_writev_loop_content [OF assms l] by (fastforce simp: eb_Writev_def Let_def length_concat)
qed (use eb_push_all_content [OF assms] in \<open>simp add: eb_Writev_def length_concat\<close>)

lemma eb_Read_content:
  assumes "eb_ok mb" "eb_Read k mb = ((d, err), mb')"
  shows "eb_ok mb' \<and> d = take k (eb_content mb) \<and> eb_content mb' = drop k (eb_content mb)"
proof -
  obtain res rb where r: "er_Read k (ebRing mb) = (res, rb)" by fastforce
  have ok: "er_ok (ebRing mb)" "ll_ok (ebList mb)" using assms(1) by (auto simp: eb_ok_def)
  note ring = er_Read_content [OF ok(1) r]
  let ?n = "length (go_bytes res)"
  have n: "?n = min (length (er_content (ebRing mb))) k" using ring(2) by simp
  obtain d' e l where l: "ll_Read (k - ?n) (ebList mb) = ((d', e), l)" by (metis surj_pair)
  note list = ll_Read_content [OF ok(2) l]
  show ?thesis
  proof (cases "?n = k")
    case True
    then show ?thesis using assms(2) r ring n ok(2) by (auto simp: eb_Read_def eb_ok_def eb_content_def Let_def)
  next
    case False
    then have "go_bytes res = er_content (ebRing mb)" "drop k (er_content (ebRing mb)) = []"
      using ring(2) n by auto
    then show ?thesis using assms(2) r ring l list False by (auto simp: eb_Read_def eb_ok_def eb_content_def Let_def)
  qed
qed

lemma eb_Discard_content:
  assumes "eb_ok mb" "eb_Discard n mb = ((d, err), mb')"
  shows "eb_ok mb' \<and> d = min (nat n) (length (eb_content mb)) \<and> eb_content mb' = drop (nat n) (eb_content mb)"
proof -
  obtain d1 e rb where r: "er_Discard n (ebRing mb) = ((d1, e), rb)" by (metis surj_pair)
  have ok: "er_ok (ebRing mb)" "ll_ok (ebList mb)" using assms(1) by (auto simp: eb_ok_def)
  note ring = er_Discard_content [OF ok(1) r]
  obtain m l where l: "ll_Discard (n - int d1) (ebList mb) = (m, l)" by fastforce
  note list = ll_Discard_content [OF ok(2) l]
  show ?thesis
  proof (cases "n \<le> int d1")
    case True
    then have "nat n \<le> length (er_content (ebRing mb))" "d1 = nat n" using ring by linarith+
    then show ?thesis using assms(2) r ring ok(2) True by (auto simp: eb_Discard_def eb_ok_def eb_content_def Let_def)
  next
    case False
    then have "d1 = length (er_content (ebRing mb))" "nat (n - int d1) = nat n - d1" using ring by linarith+
    moreover have "a + min (k - a) b = min k (a + b)" if "a \<le> k" for a b k :: nat using that by linarith
    moreover have "d1 \<le> nat n" using False by linarith
    ultimately show ?thesis using assms(2) r ring l list False by (auto simp: eb_Discard_def eb_ok_def eb_content_def Let_def)
  qed
qed

interpretation eb: byte_fifo eb_ok eb_content "\<lambda>p b. eb_Write (mem p b) (old p b) p b"
    "\<lambda>k b. apfst fst (eb_Read k b)" "\<lambda>k b. apfst fst (eb_Discard (int k) b)" for mem old
proof
  show "eb_ok b' \<and> d = take k (eb_content b) \<and> eb_content b' = drop k (eb_content b)"
    if "eb_ok b" "apfst fst (eb_Read k b) = (d, b')" for b k d b'
    using that eb_Read_content [OF that(1), of k] by (cases "eb_Read k b") auto
  show "eb_ok b' \<and> n = min k (length (eb_content b)) \<and> eb_content b' = drop k (eb_content b)"
    if "eb_ok b" "apfst fst (eb_Discard (int k) b) = (n, b')" for b k n b'
    using that eb_Discard_content [OF that(1), of "int k"] by (cases "eb_Discard (int k) b") auto
qed (rule eb_Write_content)

section \<open>Looking ahead and streaming\<close>

text \<open>\<open>Peek\<close> asks the list for all \<open>n\<close> bytes although the ring holds the first of them.\<close>

lemma eb_Peek_short:
  assumes "eb_ok mb" "0 < n" "n < MaxInt32" "n \<noteq> int (er_Buffered (ebRing mb))" "ll_Buffered (ebList mb) < n"
  shows "eb_Peek n mb = Err IoErrShortBuffer"
  using assms by (cases "er_Peek n (ebRing mb)") (auto simp: eb_Peek_def eb_peek_def ll_PeekWithBytes_def)

lemma er_Peek_content:
  "er_ok b \<Longrightarrow> 0 < n \<Longrightarrow> fst (er_Peek n b) @ snd (er_Peek n b) = take (nat n) (er_content b)"
  by (auto simp: er_Peek_def ring_Peek_content split: option.splits)

lemma eb_Peek_content:
  assumes "eb_ok mb" "0 < n" "n < MaxInt32" "n = int (er_Buffered (ebRing mb)) \<or> n \<le> ll_Buffered (ebList mb)"
  shows "\<exists>bss. eb_Peek n mb = Ok bss \<and> concat bss = take (nat n) (eb_content mb)"
proof -
  obtain h t where p: "er_Peek n (ebRing mb) = (h, t)" by fastforce
  have ok: "er_ok (ebRing mb)" "ll_ok (ebList mb)" using assms(1) by (auto simp: eb_ok_def)
  have ht: "h @ t = take (nat n) (er_content (ebRing mb))" using er_Peek_content [OF ok(1) assms(2)] p by simp
  have le: "\<not> n > eb_Buffered mb" using assms(4) ll_Buffered_content [OF ok(2)] by (auto simp: eb_Buffered_def)
  show ?thesis
  proof (cases "int (er_Buffered (ebRing mb)) = n")
    case True
    then show ?thesis
      using p ht le assms(2,3) er_Buffered_content [OF ok(1)] by (auto simp: eb_Peek_def eb_peek_def eb_content_def)
  next
    case False
    then have n: "n \<le> int (length (ll_content (ebList mb)))" using assms(4) ll_Buffered_content [OF ok(2)] by simp
    obtain bss where b: "ll_PeekWithBytes n [h, t] (ebList mb) = Ok bss"
        "concat bss = take (nat n) ((h @ t) @ ll_content (ebList mb))"
      using ll_PeekWithBytes_content [OF ok(2) assms(2) n assms(3)] by fastforce
    have "take (nat n) (take (nat n) x @ y) = take (nat n) (x @ y)" for x y :: bytes
      by (cases "nat n \<le> length x") auto
    then show ?thesis using p ht le False b assms(2,3) by (auto simp: eb_Peek_def eb_peek_def eb_content_def)
  qed
qed

text \<open>\<open>WriteTo\<close> gives up when the ring is empty, also when the list is not.\<close>

lemma eb_WriteTo_stuck: "ebRing mb = None \<Longrightarrow> eb_WriteTo wr mb st = (Ok (0, Some ErrIsEmpty), mb, st)"
  by (cases mb) (simp add: eb_WriteTo_def er_WriteTo_def)

text \<open>Otherwise nothing is lost: what a writer without errors took is a prefix of what was held, and
  the rest is still there.\<close>

lemma eb_WriteTo_wrote:
  assumes "eb_ok mb" "ebRing mb = Some rb" "\<not> rgEmpty rb" "\<not> ring_at_origin rb"
    "honest_writer sink wr" "\<forall>p st. fst (snd (wr p st)) = None"
  shows "\<exists>m err mb' st'. eb_WriteTo wr mb st = (Ok (m, err), mb', st') \<and> eb_ok mb' \<and>
           sink st' = sink st @ take m (eb_content mb) \<and> eb_content mb' = drop m (eb_content mb)"
proof -
  have ok: "ring_ok rb" "ll_ok (ebList mb)" using assms(1,2) by (auto simp: eb_ok_def)
  obtain n err rb1 st1 where r: "ring_WriteTo wr rb st = (Ok (n, err), rb1, st1)" "sink st1 = sink st @ take n (content rb)"
      "ring_ok rb1" "content rb1 = drop n (content rb)" "n \<le> length (content rb)" "err = None \<longrightarrow> rgEmpty rb1"
    using ring_WriteTo_complete [OF ok(1) assms(3,5,4)] by blast
  have er: "er_WriteTo wr (ebRing mb) st = (Ok (n, err), er_done (Some rb1), st1)"
    using assms(2) r(1) by (simp add: er_WriteTo_def)
  have dn: "er_ok (er_done (Some rb1))" "er_content (er_done (Some rb1)) = drop n (content rb)"
    using er_done_ok [of "Some rb1"] r(3,4) by auto
  show ?thesis
  proof (cases err)
    case None
    then have "drop n (content rb) = []" using r(3,4,6) content_empty_iff by metis
    moreover obtain m e l st' where l: "ll_WriteTo wr 0 (ebList mb) st1 = (Ok (m, e), l, st')" "ll_ok l"
        "sink st' = sink st1 @ take m (ll_content (ebList mb))" "ll_content l = drop m (ll_content (ebList mb))"
      using ll_WriteTo_wrote [OF ok(2) assms(5,6), of 0 st1] by auto
    ultimately have "n = length (content rb)" using r(5) by simp
    then show ?thesis using None er l r(2) dn assms(2)
      by (intro exI [of _ "n + m"]) (auto simp: eb_WriteTo_def eb_ok_def eb_content_def)
  next
    case (Some e)
    then show ?thesis using er r(2,5) dn ok assms(2)
      by (intro exI [of _ n]) (auto simp: eb_WriteTo_def eb_ok_def eb_content_def)
  qed
qed

section \<open>Properties\<close>

text \<open>C20. The elastic buffer, a ring buffer and a linked list behind it, is a first-in first-out queue of
  bytes.  From a new buffer, any sequence of writes, reads and discards returns, every read hands out
  exactly what it would hand out on a plain list of bytes, and the buffer holds what that list
  holds, whatever the pools of ring buffers and slices hand out.\<close>

theorem elastic_buffer_fifo:
  assumes "eb_New n = Ok mb"
  shows "\<exists>mb'. fifo_run (\<lambda>p b. eb_Write (mem p b) (old p b) p b) (\<lambda>k b. apfst fst (eb_Read k b))
            (\<lambda>k b. apfst fst (eb_Discard (int k) b)) ops mb = Some (fst (fifo_spec ops []), mb') \<and>
           eb_content mb' = snd (fifo_spec ops []) \<and> eb_Buffered mb' = int (length (snd (fifo_spec ops [])))"
  using eb.refines [of mb mem old ops] eb_New_ok [OF assms] eb_Buffered_content by auto

theorem elastic_buffer_fifo_witness:
  "\<exists>mb'. fifo_run (\<lambda>p b. eb_Write [7] [] p b) (\<lambda>k b. apfst fst (eb_Read k b))
      (\<lambda>k b. apfst fst (eb_Discard (int k) b)) [FWrite [1, 2, 3], FRead 2, FWrite [4], FDiscard 1, FRead 9]
      \<lparr>ebMax = 2, ebRing = None, ebList = ll_empty\<rparr> = Some ([[], [1, 2], [], [], [4]], mb') \<and>
    eb_content mb' = [] \<and> eb_Buffered mb' = 0"
  using elastic_buffer_fifo [of 2 "\<lparr>ebMax = 2, ebRing = None, ebList = ll_empty\<rparr>" "\<lambda>_ _. [7]" "\<lambda>_ _. []"
      "[FWrite [1, 2, 3], FRead 2, FWrite [4], FDiscard 1, FRead 9]"]
  by (simp add: eb_New_def)

text \<open>\<open>Writev\<close> appends all its slices in order and reports their total length, however the ring
  and the list share them.\<close>

theorem elastic_writev_appends:
  assumes "eb_ok mb"
  shows "\<exists>mb'. eb_Writev mem old bs mb = Some (length (concat bs), mb') \<and> eb_ok mb' \<and>
           eb_content mb' = eb_content mb @ concat bs"
  using eb_Writev_content [OF assms] .

theorem elastic_writev_appends_witness:
  "\<exists>mb'. eb_Writev [] [0, 0] [[1], [2, 3], [4]] \<lparr>ebMax = 2, ebRing = None, ebList = ll_empty\<rparr> = Some (4, mb') \<and>
     eb_content mb' = [1, 2, 3, 4]"
  using elastic_writev_appends [of "\<lparr>ebMax = 2, ebRing = None, ebList = ll_empty\<rparr>" "[]" "[0, 0]" "[[1], [2, 3], [4]]"]
  by (auto simp: eb_ok_def eb_content_def ll_empty_ok)

text \<open>\<open>WriteTo\<close> on a buffer whose ring is in use neither loses nor reorders a byte: what a writer
  took is a prefix of what was held, and the buffer keeps the rest.\<close>

theorem elastic_WriteTo_keeps:
  assumes "eb_ok mb" "ebRing mb = Some rb" "\<not> rgEmpty rb" "\<not> ring_at_origin rb"
    "honest_writer sink wr" "\<forall>p st. fst (snd (wr p st)) = None"
  shows "\<exists>m err mb' st'. eb_WriteTo wr mb st = (Ok (m, err), mb', st') \<and> eb_ok mb' \<and>
           sink st' = sink st @ take m (eb_content mb) \<and> eb_content mb' = drop m (eb_content mb)"
  using eb_WriteTo_wrote [OF assms] .

definition two_byte_writer :: "bytes io_writer" where
  "two_byte_writer p st = (min 2 (length p), None, st @ take 2 p)"

lemma two_byte_writer_honest:
  "honest_writer (\<lambda>st. st) two_byte_writer" "\<forall>p st. fst (snd (two_byte_writer p st)) = None"
  by (auto simp: honest_writer_def two_byte_writer_def min_def)

theorem elastic_WriteTo_keeps_witness:
  "\<exists>m err mb' st'. eb_WriteTo two_byte_writer
      \<lparr>ebMax = 4, ebRing = Some \<lparr>rgBuf = [3, 9, 1, 2], rgSize = 4, rgR = 2, rgW = 1, rgEmpty = False\<rparr>, ebList = ll_empty\<rparr> [] =
      (Ok (m, err), mb', st') \<and> eb_ok mb' \<and> st' = take m [1, 2, 3] \<and> eb_content mb' = drop m [1, 2, 3]"
  using elastic_WriteTo_keeps [of
      "\<lparr>ebMax = 4, ebRing = Some \<lparr>rgBuf = [3, 9, 1, 2], rgSize = 4, rgR = 2, rgW = 1, rgEmpty = False\<rparr>, ebList = ll_empty\<rparr>"
      "\<lparr>rgBuf = [3, 9, 1, 2], rgSize = 4, rgR = 2, rgW = 1, rgEmpty = False\<rparr>" "\<lambda>st. st"
      two_byte_writer "[]"] two_byte_writer_honest
  by (simp add: eb_ok_def ring_ok_def ring_at_origin_def ring_IsFull_def eb_content_def content_def ll_empty_ok)

text \<open>\<open>Peek\<close> of a part of what the ring holds fails: with an empty list and more than \<open>n\<close> bytes
  buffered it reports a short buffer.\<close>

theorem elastic_Peek_fails:
  assumes "eb_ok mb" "llNodes (ebList mb) = []" "0 < n" "n < int (length (eb_content mb))" "n < MaxInt32"
  shows "eb_Peek n mb = Err IoErrShortBuffer"
  using assms eb_Peek_short [of mb n] er_Buffered_content [of "ebRing mb"] ll_Buffered_content [of "ebList mb"]
  by (simp add: eb_ok_def eb_content_def ll_content_def)

theorem elastic_Peek_fails_witness:
  "eb_Peek 1 \<lparr>ebMax = 4, ebRing = Some \<lparr>rgBuf = [1, 2], rgSize = 2, rgR = 0, rgW = 0, rgEmpty = False\<rparr>, ebList = ll_empty\<rparr>
     = Err IoErrShortBuffer"
  using elastic_Peek_fails [of
    "\<lparr>ebMax = 4, ebRing = Some \<lparr>rgBuf = [1, 2], rgSize = 2, rgR = 0, rgW = 0, rgEmpty = False\<rparr>, ebList = ll_empty\<rparr>" 1]
  by (simp add: eb_ok_def ring_ok_def eb_content_def content_def ll_empty_ok) (simp add: ll_empty_def)

end
