(* ===== verification/Pending.thy ===== *)
theory Pending
  imports Prelude "HOL-Library.Word"
begin

text \<open>
  \<open>internal/transporter/internal/client/pending.go\<close>: the calls that wait for a response, spread over
  twenty locked partitions by sequence number.  A channel is a number, \<open>None\<close> is a nil channel.
  The partitions together are one map from sequence numbers to channels.
\<close>

type_synonym chan = nat
type_synonym partition = "uint64 \<rightharpoonup> chan option"
type_synonym pending = "partition list"

definition newPending :: pending where
  "newPending = replicate 20 Map.empty"

definition partition_extract :: "uint64 \<Rightarrow> partition \<Rightarrow> chan option option \<times> partition" where
  "partition_extract seq p = (case p seq of Some call \<Rightarrow> (Some call, p(seq := None)) | None \<Rightarrow> (None, p))"

definition partition_store :: "uint64 \<Rightarrow> chan option \<Rightarrow> partition \<Rightarrow> partition" where
  "partition_store seq call p = p(seq \<mapsto> call)"

definition partition_delete :: "uint64 \<Rightarrow> partition \<Rightarrow> partition" where
  "partition_delete seq p = p(seq := None)"

definition pending_index :: "uint64 \<Rightarrow> pending \<Rightarrow> nat" where
  "pending_index seq p = unat seq mod length p"

definition pending_extract :: "uint64 \<Rightarrow> pending \<Rightarrow> chan option option \<times> pending" where
  "pending_extract seq p =
     (let i = pending_index seq p; (res, q) = partition_extract seq (p ! i) in (res, p[i := q]))"

definition pending_store :: "uint64 \<Rightarrow> chan option \<Rightarrow> pending \<Rightarrow> pending" where
  "pending_store seq call p = (let i = pending_index seq p in p[i := partition_store seq call (p ! i)])"

definition pending_delete :: "uint64 \<Rightarrow> pending \<Rightarrow> pending" where
  "pending_delete seq p = (let i = pending_index seq p in p[i := partition_delete seq (p ! i)])"

section \<open>One map\<close>

definition pending_abs :: "pending \<Rightarrow> partition" where
  "pending_abs p seq = (p ! pending_index seq p) seq"

definition pending_ok :: "pending \<Rightarrow> bool" where
  "pending_ok p \<longleftrightarrow> length p = 20"

lemma pending_index_less: "pending_ok p \<Longrightarrow> pending_index seq p < length p"
  by (simp add: pending_ok_def pending_index_def)

lemma pending_update:
  assumes "pending_ok p"
  shows "pending_abs (p[pending_index seq p := (p ! pending_index seq p)(seq := v)]) = (pending_abs p)(seq := v)"
    "pending_ok (p[i := q])"
  using pending_index_less [OF assms] assms
  by (auto simp: pending_abs_def pending_index_def pending_ok_def fun_eq_iff nth_list_update)

lemma newPending_abs: "pending_ok newPending" "pending_abs newPending = Map.empty"
  by (auto simp: newPending_def pending_ok_def pending_abs_def pending_index_def)

lemma pending_ops:
  assumes "pending_ok p"
  shows "pending_abs (pending_store seq call p) = (pending_abs p)(seq \<mapsto> call)"
    and "pending_abs (pending_delete seq p) = (pending_abs p)(seq := None)"
    and "fst (pending_extract seq p) = pending_abs p seq"
    and "pending_abs (snd (pending_extract seq p)) = (pending_abs p)(seq := None)"
    and "pending_ok (pending_store seq call p)" "pending_ok (pending_delete seq p)" "pending_ok (snd (pending_extract seq p))"
  using pending_update [OF assms] assms
  by (auto simp: pending_store_def pending_delete_def pending_extract_def partition_store_def partition_delete_def
      partition_extract_def pending_abs_def [of p] Let_def pending_ok_def split: option.splits)

text \<open>A sequence of operations on the partitions, and on one map; both return what each extraction
  found.\<close>

datatype pending_op = PStore uint64 "chan option" | PDelete uint64 | PExtract uint64

fun pending_run :: "pending_op list \<Rightarrow> pending \<Rightarrow> chan option option list \<times> pending" where
  "pending_run [] p = ([], p)"
| "pending_run (PStore s c # ops) p = pending_run ops (pending_store s c p)"
| "pending_run (PDelete s # ops) p = pending_run ops (pending_delete s p)"
| "pending_run (PExtract s # ops) p =
     (let (r, p) = pending_extract s p in apfst (Cons r) (pending_run ops p))"

fun map_run :: "pending_op list \<Rightarrow> partition \<Rightarrow> chan option option list \<times> partition" where
  "map_run [] m = ([], m)"
| "map_run (PStore s c # ops) m = map_run ops (m(s \<mapsto> c))"
| "map_run (PDelete s # ops) m = map_run ops (m(s := None))"
| "map_run (PExtract s # ops) m = apfst (Cons (m s)) (map_run ops (m(s := None)))"

lemma pending_run_map:
  "pending_ok p \<Longrightarrow> fst (pending_run ops p) = fst (map_run ops (pending_abs p)) \<and>
     pending_abs (snd (pending_run ops p)) = snd (map_run ops (pending_abs p))"
proof (induction ops p rule: pending_run.induct)
  case (4 s ops p)
  then show ?case using pending_ops [OF 4(2), of s] by (cases "pending_extract s p") auto
qed (simp_all add: pending_ops)

text \<open>C24. The twenty partitions of the pending calls behave like one map from sequence numbers to
  channels: for any sequence of store, delete and extract operations every extraction finds the
  same channel in both.\<close>

theorem pending_partitions_equiv:
  "fst (pending_run ops newPending) = fst (map_run ops Map.empty)"
  using pending_run_map [OF newPending_abs(1), of ops] newPending_abs(2) by simp

end
