(* ===== verification/LinkConn.thy ===== *)
theory LinkConn
  imports Pending Protocol GoIO
begin

text \<open>
  The client side of the links between servers,
  \<open>internal/transporter/internal/client\<close> (\<open>client.go\<close>, \<open>conn.go\<close>, \<open>message.go\<close>): a client with a pool
  of messages and several connections, each with a queue of messages to write, the calls that wait
  for a response, and a state that a reconnection changes.

  Messages live in a heap, because the pool hands the same object to one call after another.  What
  the network does (the outcome of dialling and of the handshake, whether a write succeeds, the
  clock) is an argument of each operation.  Each operation here runs under the lock it takes; how
  the goroutines interleave is the subject of \<open>CallRace\<close>.
\<close>

section \<open>State\<close>

datatype conn_state = ConnClosed | ConnOpened | ConnHanged
datatype msg_state = StatePending | StateSent | StateCanceled

record message =
  msgSeq :: uint64
  msgBuf :: "nocopy option"
  msgCall :: "chan option"
  msgState :: msg_state

text \<open>\<open>lcCtx\<close> is the context (\<open>Some b\<close>: whether it is done), \<open>lcCancel\<close> whether \<open>cancel\<close> is set,
  \<open>lcSuccess\<close> and \<open>lcFailure\<close> count the signals sent.\<close>

record lconn =
  lcState :: conn_state
  lcNet :: "nat option"
  lcCtx :: "bool option"
  lcCancel :: bool
  lcQueue :: "nat list"
  lcPending :: pending
  lcSuccess :: nat
  lcFailure :: nat
  lcLastFault :: int
  lcLastHeartbeat :: int

record lclient =
  ltMsgs :: "nat \<Rightarrow> message"
  ltNext :: nat
  ltPool :: "nat list"
  ltConns :: "lconn list"
  ltIdx :: uint64
  ltChans :: chan

definition newConn :: "int \<Rightarrow> lconn" where
  "newConn now =
     \<lparr>lcState = ConnClosed, lcNet = None, lcCtx = None, lcCancel = False, lcQueue = [], lcPending = newPending,
      lcSuccess = 0, lcFailure = 0, lcLastFault = now, lcLastHeartbeat = 0\<rparr>"

definition zero_message :: message where
  "zero_message = \<lparr>msgSeq = 0, msgBuf = None, msgCall = None, msgState = StatePending\<rparr>"

definition NewClient :: lclient where
  "NewClient = \<lparr>ltMsgs = (\<lambda>_. zero_message), ltNext = 0, ltPool = [], ltConns = [], ltIdx = 0, ltChans = 0\<rparr>"

section \<open>Dialling\<close>

text \<open>What one attempt meets: an error of \<open>net.DialTimeout\<close>, or a connection and what the handshake on
  it returns.\<close>

datatype dial_result = DialError goerr | Dialled nat "goerr option"

definition processLocked :: "int \<Rightarrow> nat \<Rightarrow> goerr option \<Rightarrow> lconn \<Rightarrow> goerr option \<times> lconn" where
  "processLocked now conn hs c =
     (let c = c\<lparr>lcNet := Some conn, lcCtx := Some False, lcCancel := True, lcState := ConnOpened, lcLastHeartbeat := now\<rparr>
      in case hs of
           Some err \<Rightarrow> (Some err, c\<lparr>lcCtx := Some True, lcNet := None, lcState := ConnClosed\<rparr>)
         | None \<Rightarrow> (None, c))"

text \<open>The loop returns the delays it slept, in milliseconds.\<close>

function doDialLocked :: "(nat \<Rightarrow> dial_result) \<Rightarrow> int \<Rightarrow> nat \<Rightarrow> nat \<Rightarrow> lconn \<Rightarrow> (goerr option \<times> nat list) \<times> lconn" where
  "doDialLocked env now retry delay c =
     (case env retry of
        DialError err \<Rightarrow>
          if retry + 1 \<ge> 3 then ((Some err, []), c)
          else let delay = (if delay = 0 then 5 else delay * 2);
                   delay = (if delay > 1000 then 1000 else delay);
                   ((res, ds), c) = doDialLocked env now (retry + 1) delay c
               in ((res, delay # ds), c)
      | Dialled conn hs \<Rightarrow> let (err, c) = processLocked now conn hs c in ((err, []), c))"
  by auto
termination by (relation "measure (\<lambda>(env, now, retry, delay, c). 3 - retry)") auto

declare doDialLocked.simps [simp del]

definition markClosedLocked :: "int \<Rightarrow> lconn \<Rightarrow> lconn" where
  "markClosedLocked now c =
     (let c = (if lcState c \<noteq> ConnClosed then c\<lparr>lcState := ConnClosed, lcLastFault := now\<rparr> else c);
          c = (if lcCancel c then c\<lparr>lcCtx := map_option (\<lambda>_. True) (lcCtx c), lcCancel := False\<rparr> else c)
      in c\<lparr>lcNet := None\<rparr>)"

definition signalSuccessLocked :: "lconn \<Rightarrow> lconn" where
  "signalSuccessLocked c = c\<lparr>lcSuccess := Suc (lcSuccess c)\<rparr>"

definition signalFailureLocked :: "lconn \<Rightarrow> lconn" where
  "signalFailureLocked c = c\<lparr>lcFailure := Suc (lcFailure c)\<rparr>"

definition lc_dial :: "(nat \<Rightarrow> dial_result) \<Rightarrow> int \<Rightarrow> lconn \<Rightarrow> goerr option \<times> lconn" where
  "lc_dial env now c =
     (if lcState c = ConnOpened then (None, c)
      else case doDialLocked env now 0 0 c of
             ((Some err, _), c) \<Rightarrow> (Some err, signalFailureLocked (markClosedLocked now c))
           | ((None, _), c) \<Rightarrow> (None, signalSuccessLocked c))"

text \<open>The handshake reads frames until one that is not a heartbeat answers request 1.  \<open>frames\<close> are the
  frames that arrive, \<open>None\<close> a failed read; when they end, the deadline of the connection fires.\<close>

fun lc_handshake :: "bytes option list \<Rightarrow> goerr option go" where
  "lc_handshake [] = Ok (Some ContextDeadlineExceeded)"
| "lc_handshake (None # fs) = Ok (Some IoEOF)"
| "lc_handshake (Some data # fs) =
     go_bind (ParseBuffer data) (\<lambda>(isHeartbeat, _, respSeq).
       if isHeartbeat then lc_handshake fs
       else if respSeq = 1 then Ok None
       else lc_handshake fs)"

text \<open>\<open>retry\<close> is called by the goroutines of the network connection \<open>conn\<close>.\<close>

definition lc_retry :: "(nat \<Rightarrow> dial_result) \<Rightarrow> int \<Rightarrow> nat \<Rightarrow> lconn \<Rightarrow> lconn" where
  "lc_retry env now conn c =
     (if lcState c \<noteq> ConnOpened then c
      else let c = c\<lparr>lcState := ConnHanged\<rparr>;
               c = (if lcCancel c then c\<lparr>lcCtx := map_option (\<lambda>_. True) (lcCtx c)\<rparr> else c)
           in snd (lc_dial env now c))"

section \<open>Messages\<close>

definition set_msg :: "nat \<Rightarrow> (message \<Rightarrow> message) \<Rightarrow> lclient \<Rightarrow> lclient" where
  "set_msg a f t = t\<lparr>ltMsgs := (ltMsgs t)(a := f (ltMsgs t a))\<rparr>"

definition set_conn :: "nat \<Rightarrow> (lconn \<Rightarrow> lconn) \<Rightarrow> lclient \<Rightarrow> lclient" where
  "set_conn i f t = t\<lparr>ltConns := (ltConns t)[i := f (ltConns t ! i)]\<rparr>"

text \<open>\<open>c.pool.Get()\<close>: an idle message or a new one.\<close>

definition msg_get :: "(nat list \<Rightarrow> nat option) \<Rightarrow> lclient \<Rightarrow> nat \<times> lclient" where
  "msg_get sel t =
     (let fresh = (ltNext t, t\<lparr>ltNext := Suc (ltNext t), ltMsgs := (ltMsgs t)(ltNext t := zero_message)\<rparr>)
      in case sel (ltPool t) of
           Some k \<Rightarrow> if k < length (ltPool t)
                     then (ltPool t ! k, t\<lparr>ltPool := take k (ltPool t) @ drop (Suc k) (ltPool t)\<rparr>)
                     else fresh
         | None \<Rightarrow> fresh)"

definition msg_release :: "nat \<Rightarrow> lclient \<Rightarrow> lclient" where
  "msg_release a t =
     (let t = set_msg a (\<lambda>m. m\<lparr>msgBuf := None, msgSeq := 0, msgCall := None\<rparr>) t in t\<lparr>ltPool := a # ltPool t\<rparr>)"

definition drainQueue :: "nat \<Rightarrow> lclient \<Rightarrow> lclient" where
  "drainQueue i t = set_conn i (\<lambda>c. c\<lparr>lcQueue := []\<rparr>) (fold msg_release (lcQueue (ltConns t ! i)) t)"

definition lc_close :: "int \<Rightarrow> nat \<Rightarrow> lclient \<Rightarrow> lclient" where
  "lc_close now i t =
     (if lcState (ltConns t ! i) = ConnClosed then t
      else let t = set_conn i (\<lambda>c. c\<lparr>lcState := ConnClosed, lcLastFault := now, lcNet := None,
                     lcCtx := (if lcCancel c then map_option (\<lambda>_. True) (lcCtx c) else lcCtx c), lcCancel := False\<rparr>) t
           in set_conn i signalFailureLocked (drainQueue i t))"

text \<open>The message's state decides between cancelling it and forgetting the call.\<close>

definition lc_delete :: "nat \<Rightarrow> nat \<Rightarrow> lclient \<Rightarrow> lclient" where
  "lc_delete i a t =
     (if msgState (ltMsgs t a) = StatePending then set_msg a (\<lambda>m. m\<lparr>msgState := StateCanceled\<rparr>) t
      else set_conn i (\<lambda>c. c\<lparr>lcPending := pending_delete (msgSeq (ltMsgs t a)) (lcPending c)\<rparr>) t)"

section \<open>Sending\<close>

text \<open>How a call of \<open>enqueue\<close> goes: it puts the message into the queue, it is refused, or the queue is
  full and it waits.  Where several cases of a \<open>select\<close> are ready, \<open>done\<close> says whether the one of the
  context is taken; \<open>expired\<close> says whether the timer of the slow path fired.\<close>

datatype enq_result = Enqueued | Refused goerr | Blocked

definition lc_enqueue :: "bool \<Rightarrow> bool \<Rightarrow> int \<Rightarrow> nat \<Rightarrow> nat \<Rightarrow> lclient \<Rightarrow> enq_result \<times> lclient" where
  "lc_enqueue ctxDone expired now i a t =
     (let c = ltConns t ! i
      in if lcState c \<noteq> ConnOpened then (Refused ErrConnectionClosed, t)
         else case lcCtx c of
                None \<Rightarrow> (Refused ErrConnectionClosed, t)
              | Some cancelled \<Rightarrow>
                  if cancelled \<and> (ctxDone \<or> length (lcQueue c) \<ge> 4096) then (Refused ErrConnectionClosed, t)
                  else if length (lcQueue c) < 4096
                  then (Enqueued, set_conn i (\<lambda>c. c\<lparr>lcQueue := lcQueue c @ [a]\<rparr>) t)
                  else if expired then (Refused ErrConnectionClosed, lc_close now i t)
                  else (Blocked, t))"

text \<open>\<open>wait\<close> on a hanged connection ends with the signal of the goroutine that dials again: it is that
  goroutine's \<open>dial\<close> that has run.\<close>

definition lc_wait :: "(nat \<Rightarrow> dial_result) \<Rightarrow> int \<Rightarrow> lconn \<Rightarrow> goerr option \<times> lconn" where
  "lc_wait env now c =
     (case lcState c of
        ConnOpened \<Rightarrow> (None, c)
      | ConnHanged \<Rightarrow> (case lc_dial env now c of (None, c) \<Rightarrow> (None, c) | (Some _, c) \<Rightarrow> (Some ErrConnectionClosed, c))
      | ConnClosed \<Rightarrow> (Some ErrConnectionClosed, c))"

text \<open>The loop of \<open>send\<close>.  \<open>guarded\<close> says whether the connection failed so recently that a release-mode
  server does not dial again.\<close>

partial_function (option) lc_send ::
    "(nat \<Rightarrow> dial_result) \<Rightarrow> bool \<Rightarrow> bool \<Rightarrow> bool \<Rightarrow> int \<Rightarrow> nat \<Rightarrow> nat \<Rightarrow> lclient \<Rightarrow> (enq_result \<times> lclient) option" where
  "lc_send env guarded ctxDone expired now i a t =
     (case lcState (ltConns t ! i) of
        ConnClosed \<Rightarrow>
          if guarded then Some (Refused ErrConnectionClosed, t)
          else (case lc_dial env now (ltConns t ! i) of
                  (Some err, c) \<Rightarrow> Some (Refused err, set_conn i (\<lambda>_. c) t)
                | (None, c) \<Rightarrow> lc_send env guarded ctxDone expired now i a (set_conn i (\<lambda>_. c) t))
      | ConnHanged \<Rightarrow>
          (case lc_wait env now (ltConns t ! i) of
             (Some err, c) \<Rightarrow> Some (Refused err, set_conn i (\<lambda>_. c) t)
           | (None, c) \<Rightarrow> lc_send env guarded ctxDone expired now i a (set_conn i (\<lambda>_. c) t))
      | ConnOpened \<Rightarrow> Some (lc_enqueue ctxDone expired now i a t))"

section \<open>Writing and reading\<close>

function writeAll :: "'w io_writer \<Rightarrow> bytes \<Rightarrow> 'w \<Rightarrow> goerr option go \<times> 'w" where
  "writeAll wr data st =
     (if length data > 0
      then case wr data st of
             (n, err, st) \<Rightarrow>
               if err \<noteq> None then (Ok err, st)
               else if n \<le> 0 then (Ok (Some IoErrShortWrite), st)
               else if n > length data then (Panic, st)
               else writeAll wr (drop n data) st
      else (Ok None, st))"
  by auto
termination by (relation "measure (\<lambda>(wr, data, st). length data)") auto

declare writeAll.simps [simp del]

text \<open>The visitor of \<open>doWrite\<close>: the data of a node, if it has any, is written in full.  The flag next to
  the writer's state records a panic, which ends everything.\<close>

definition write_node :: "'w io_writer \<Rightarrow> block \<Rightarrow> 'w \<times> bool \<Rightarrow> bool \<times> 'w \<times> bool" where
  "write_node wr k s =
     (case NocopyNode_Bytes k of
        Ok data \<Rightarrow> if length data = 0 then (True, s)
                   else (case writeAll wr data (fst s) of
                           (Ok None, st) \<Rightarrow> (True, st, False)
                         | (Ok (Some _), st) \<Rightarrow> (False, st, False)
                         | (_, st) \<Rightarrow> (False, st, True))
      | _ \<Rightarrow> (False, fst s, True))"

text \<open>\<open>doWrite\<close> in two parts: claiming the message (with \<open>False\<close>: it had been cancelled), and what
  follows the write.\<close>

definition write_claim :: "nat \<Rightarrow> nat \<Rightarrow> lclient \<Rightarrow> bool \<times> lclient" where
  "write_claim i a t =
     (if msgSeq (ltMsgs t a) \<noteq> 0
      then if msgState (ltMsgs t a) \<noteq> StatePending then (False, msg_release a t)
           else (True, set_conn i (\<lambda>c. c\<lparr>lcPending := pending_store (msgSeq (ltMsgs t a)) (msgCall (ltMsgs t a)) (lcPending c)\<rparr>)
                         (set_msg a (\<lambda>m. m\<lparr>msgState := StateSent\<rparr>) t))
      else (True, t))"

definition write_finish :: "bool \<Rightarrow> nat \<Rightarrow> nat \<Rightarrow> lclient \<Rightarrow> lclient" where
  "write_finish ok i a t =
     (let seq = msgSeq (ltMsgs t a);
          t = (if \<not> ok \<and> seq \<noteq> 0 then set_conn i (\<lambda>c. c\<lparr>lcPending := pending_delete seq (lcPending c)\<rparr>) t else t)
      in msg_release a t)"

definition doWrite ::
    "'w io_writer \<Rightarrow> (nat \<Rightarrow> dial_result) \<Rightarrow> int \<Rightarrow> nat \<Rightarrow> nat \<Rightarrow> nat \<Rightarrow> lclient \<Rightarrow> 'w \<Rightarrow> bool go \<times> lclient \<times> 'w" where
  "doWrite wr env now conn i a t st =
     (case write_claim i a t of
        (False, t) \<Rightarrow> (Ok True, t, st)
      | (True, t) \<Rightarrow>
          (case msgBuf (ltMsgs t a) of
             None \<Rightarrow> (Panic, t, st)
           | Some buf \<Rightarrow>
               (case Visit (write_node wr) buf (st, False) of
                  (_, st, True) \<Rightarrow> (Panic, t, st)
                | (ok, st, False) \<Rightarrow>
                    let t = write_finish ok i a t
                    in if \<not> ok then (Ok False, set_conn i (lc_retry env now conn) t, st) else (Ok True, t, st))))"

text \<open>One turn of \<open>read\<close>: the channel that the response is for, if some call waits for it.\<close>

definition read_turn :: "int \<Rightarrow> nat \<Rightarrow> bytes \<Rightarrow> lclient \<Rightarrow> chan option option go \<times> lclient" where
  "read_turn now i data t =
     (let t = set_conn i (\<lambda>c. c\<lparr>lcLastHeartbeat := now\<rparr>) t
      in case ParseBuffer data of
           Ok (isHeartbeat, _, seq) \<Rightarrow>
             if isHeartbeat then (Ok None, t)
             else let (call, p) = pending_extract seq (lcPending (ltConns t ! i))
                  in (Ok call, set_conn i (\<lambda>c. c\<lparr>lcPending := p\<rparr>) t)
         | _ \<Rightarrow> (Panic, t))"

text \<open>The heartbeat of \<open>write\<close>, at time \<open>now\<close> in seconds: whether the connection is given up.\<close>

definition heartbeat_lost :: "int \<Rightarrow> lconn \<Rightarrow> bool" where
  "heartbeat_lost now c \<longleftrightarrow> lcLastHeartbeat c < now - 20"

section \<open>Calls\<close>

text \<open>\<open>load\<close>: Go's remainder has the sign of the dividend.\<close>

definition lt_load :: "int64 option \<Rightarrow> lclient \<Rightarrow> nat option go \<times> lclient" where
  "lt_load idx t =
     (let n = length (ltConns t)
      in if n > 0
         then case idx of
                Some x \<Rightarrow> let r = sgn (sint x) * (\<bar>sint x\<bar> mod int n)
                          in (if 0 \<le> r then Ok (Some (nat r)) else Panic, t)
              | None \<Rightarrow> let k = ltIdx t + 1 in (Ok (Some (unat k mod n)), t\<lparr>ltIdx := k\<rparr>)
         else (Ok None, t))"

definition call_prepare :: "uint64 \<Rightarrow> nocopy \<Rightarrow> nat \<Rightarrow> lclient \<Rightarrow> lclient" where
  "call_prepare seq buf a t =
     set_msg a (\<lambda>_. \<lparr>msgSeq = seq, msgBuf = Some buf, msgCall = Some (ltChans t), msgState = StatePending\<rparr>)
       (t\<lparr>ltChans := Suc (ltChans t)\<rparr>)"

definition send_prepare :: "nocopy \<Rightarrow> nat \<Rightarrow> lclient \<Rightarrow> lclient" where
  "send_prepare buf a t = set_msg a (\<lambda>m. m\<lparr>msgBuf := Some buf\<rparr>) t"

text \<open>\<open>Call\<close> up to the point where it waits, with the connection, the message and the sequence number it
  waits for, and \<open>Send\<close>.  A message that is refused goes back to the pool.\<close>

datatype call_start = Started nat nat | CallFailed goerr | CallBlocked | CallPanic

definition submit ::
    "(nat \<Rightarrow> dial_result) \<Rightarrow> bool \<Rightarrow> bool \<Rightarrow> bool \<Rightarrow> int \<Rightarrow> int64 option \<Rightarrow> (nat list \<Rightarrow> nat option) \<Rightarrow>
     (nat \<Rightarrow> lclient \<Rightarrow> lclient) \<Rightarrow> lclient \<Rightarrow> (call_start \<times> lclient) option" where
  "submit env guarded ctxDone expired now idx sel prepare t =
     (case lt_load idx t of
        (Ok None, t) \<Rightarrow> Some (CallFailed ErrClientClosed, t)
      | (Ok (Some i), t) \<Rightarrow>
          let (a, t) = msg_get sel t
          in map_option (\<lambda>(res, t).
               case res of
                 Enqueued \<Rightarrow> (Started i a, t)
               | Refused err \<Rightarrow> (CallFailed err, msg_release a t)
               | Blocked \<Rightarrow> (CallBlocked, t))
               (lc_send env guarded ctxDone expired now i a (prepare a t))
      | (_, t) \<Rightarrow> Some (CallPanic, t))"

definition lt_Call where
  "lt_Call env guarded ctxDone expired now idx sel seq buf t =
     submit env guarded ctxDone expired now idx sel (call_prepare seq buf) t"

definition lt_Send where
  "lt_Send env guarded ctxDone expired now idx sel buf t =
     submit env guarded ctxDone expired now idx sel (send_prepare buf) t"

text \<open>\<open>Establish\<close>: the connections that could be dialled, in the order in which their goroutines end
  (\<open>envs\<close>).\<close>

definition lt_Establish :: "(nat \<Rightarrow> dial_result) list \<Rightarrow> int \<Rightarrow> lclient \<Rightarrow> goerr option \<times> lclient" where
  "lt_Establish envs now t =
     (let rs = map (\<lambda>env. lc_dial env now (newConn now)) envs;
          conns = map snd (filter (\<lambda>r. fst r = None) rs);
          errs = List.map_filter fst rs
      in if errs \<noteq> [] \<and> conns = [] then (Some (hd errs), t) else (None, t\<lparr>ltConns := conns\<rparr>))"

section \<open>Dialling ends\<close>

lemma processLocked_state:
  "processLocked now conn hs c = (err, c') \<Longrightarrow>
     err = hs \<and> lcState c' = (if hs = None then ConnOpened else ConnClosed) \<and> lcQueue c' = lcQueue c \<and> lcFailure c' = lcFailure c \<and>
     lcPending c' = lcPending c \<and> lcCtx c' = Some (hs \<noteq> None) \<and> lcNet c' = (if hs = None then Some conn else None)"
  by (auto simp: processLocked_def Let_def split: option.splits)

lemma doDialLocked_state:
  "doDialLocked env now r d c = ((err, ds), c') \<Longrightarrow>
     (err = None \<longrightarrow> lcState c' = ConnOpened \<and> lcCtx c' = Some False \<and> lcNet c' \<noteq> None) \<and>
     lcQueue c' = lcQueue c \<and> lcPending c' = lcPending c \<and> lcFailure c' = lcFailure c"
proof (induction env now r d c arbitrary: err ds c' rule: doDialLocked.induct)
  case (1 env now r d c)
  show ?case
  proof (cases "env r")
    case (Dialled conn hs)
    then show ?thesis using 1(2) processLocked_state [of now conn hs c]
      by (auto simp: doDialLocked.simps [of env now r d c] split: prod.splits)
  next
    case (DialError e)
    define d' where "d' = (if (if d = 0 then 5 else d * 2) > 1000 then 1000 else (if d = 0 then 5 else d * 2))"
    show ?thesis
    proof (cases "3 \<le> r + 1")
      case False
      obtain res ds1 c1 where r: "doDialLocked env now (r + 1) d' c = ((res, ds1), c1)" by (metis surj_pair)
      then have "err = res" "c' = c1" using 1(2) DialError False
        by (auto simp: doDialLocked.simps [of env now r d c] Let_def d'_def)
      then show ?thesis using 1(1) [OF DialError False refl refl] r unfolding d'_def by simp
    qed (use 1(2) DialError in \<open>auto simp: doDialLocked.simps [of env now r d c]\<close>)
  qed
qed

text \<open>At most three attempts, with delays of 5 and 10 milliseconds.\<close>

lemma doDialLocked_delays: "snd (fst (doDialLocked env now 0 0 c)) \<in> {[], [5], [5, 10]}"
  by (simp add: doDialLocked.simps split: dial_result.split prod.split)

lemma lc_dial_state:
  assumes "lc_dial env now c = (err, c')"
  shows "lcQueue c' = lcQueue c" "lcPending c' = lcPending c"
    "err = None \<Longrightarrow> lcState c' = ConnOpened" "err \<noteq> None \<Longrightarrow> lcState c' = ConnClosed \<and> lcNet c' = None \<and> lcFailure c' = Suc (lcFailure c)"
  using assms doDialLocked_state [of env now 0 0 c]
  by (auto simp: lc_dial_def signalFailureLocked_def signalSuccessLocked_def markClosedLocked_def Let_def
      split: if_splits option.splits prod.splits)

lemma lc_send_opened:
  "lcState (ltConns t ! i) = ConnOpened \<Longrightarrow> lc_send env g d e now i a t = Some (lc_enqueue d e now i a t)"
  by (subst lc_send.simps) simp

lemma set_conn_nth [simp]: "i < length (ltConns t) \<Longrightarrow> ltConns (set_conn i f t) ! i = f (ltConns t ! i)"
  by (simp add: set_conn_def)

lemma lc_send_returns:
  assumes "i < length (ltConns t)"
  shows "\<exists>r. lc_send env g d e now i a t = Some r"
proof (cases "lcState (ltConns t ! i)")
  case ConnClosed
  obtain err c where r: "lc_dial env now (ltConns t ! i) = (err, c)" by fastforce
  have "err = None \<Longrightarrow> lc_send env g d e now i a (set_conn i (\<lambda>_. c) t) =
      Some (lc_enqueue d e now i a (set_conn i (\<lambda>_. c) t))"
    using lc_send_opened [of "set_conn i (\<lambda>_. c) t" i] lc_dial_state(3) [OF r] assms by simp
  then show ?thesis using ConnClosed r by (subst lc_send.simps) (auto split: option.splits)
next
  case ConnHanged
  obtain err c where r: "lc_dial env now (ltConns t ! i) = (err, c)" by fastforce
  have "err = None \<Longrightarrow> lc_send env g d e now i a (set_conn i (\<lambda>_. c) t) =
      Some (lc_enqueue d e now i a (set_conn i (\<lambda>_. c) t))"
    using lc_send_opened [of "set_conn i (\<lambda>_. c) t" i] lc_dial_state(3) [OF r] assms by simp
  then show ?thesis using ConnHanged r by (subst lc_send.simps) (auto simp: lc_wait_def split: option.splits)
qed (simp add: lc_send_opened)

text \<open>A goroutine of an old connection that calls \<open>retry\<close> late takes down the connection that has
  replaced it: the context of the new one is cancelled, and nobody closes it.\<close>

lemma stale_retry_hangs:
  assumes "lcState c = ConnOpened" "lcNet c = Some new" "conn \<noteq> new" "lcCancel c" "lcCtx c = Some False"
    "\<And>k. env k = DialError err"
  shows "lcState (lc_retry env now conn c) = ConnClosed" "lcCtx (lc_retry env now conn c) = Some True"
  using assms
  by (simp_all add: lc_retry_def lc_dial_def doDialLocked.simps markClosedLocked_def signalFailureLocked_def Let_def)

section \<open>Writing\<close>

lemma writeAll_sink:
  "\<lbrakk>honest_writer sink wr; writeAll wr data st = (res, st')\<rbrakk> \<Longrightarrow>
     res \<noteq> Panic \<and> (\<forall>e. res \<noteq> Err e) \<and> (\<exists>k. sink st' = sink st @ take k data) \<and>
     (res = Ok None \<longrightarrow> sink st' = sink st @ data)"
proof (induction wr data st rule: writeAll.induct)
  case (1 wr data st)
  show ?case
  proof (cases "data = []")
    case True
    then show ?thesis using 1(3) by (auto simp: writeAll.simps [of wr "[]" st])
  next
    case False
    obtain n err st1 where w: "wr data st = (n, err, st1)" by (cases "wr data st")
    note hw = honest_writerD [OF 1(2) w]
    show ?thesis
    proof (cases "err \<noteq> None \<or> n = 0")
      case True
      then have "st' = st1 \<and> (res = Ok err \<and> err \<noteq> None \<or> res = Ok (Some IoErrShortWrite))"
        using 1(3) False w by (auto simp: writeAll.simps [of wr data st] split: if_splits)
      then show ?thesis using hw by auto
    next
      case more: False
      then have r: "writeAll wr (drop n data) st1 = (res, st')"
        using 1(3) False w hw by (simp add: writeAll.simps [of wr data st])
      have "res \<noteq> Panic \<and> (\<forall>e. res \<noteq> Err e) \<and> (\<exists>k. sink st' = sink st1 @ take k (drop n data)) \<and>
          (res = Ok None \<longrightarrow> sink st' = sink st1 @ drop n data)"
        using 1(1) [OF _ w [symmetric] refl] False more hw 1(2) r by auto
      moreover have "take n data @ take k (drop n data) = take (n + k) data" for k by (simp add: take_add)
      ultimately show ?thesis using hw by (metis append_assoc append_take_drop_id)
    qed
  qed
qed

text \<open>\<open>Visit\<close> goes over the blocks of the chain until the visitor says no.\<close>

fun visit_blocks :: "(block \<Rightarrow> 's \<Rightarrow> bool \<times> 's) \<Rightarrow> block list \<Rightarrow> 's \<Rightarrow> bool \<times> 's" where
  "visit_blocks fn [] st = (True, st)"
| "visit_blocks fn (k # ks) st = (let (go, st') = fn k st in if \<not> go then (False, st') else visit_blocks fn ks st')"

lemma visit_blocks_append:
  "visit_blocks fn (ks @ ls) st = (let (go, st') = visit_blocks fn ks st in if \<not> go then (False, st') else visit_blocks fn ls st')"
  by (induction ks arbitrary: st) (auto split: prod.splits)

lemma Visit_blocks:
  "Visit fn b st = visit_blocks fn (leaves b) st"
  "visit_children fn cs st = visit_blocks fn (child_leaves cs) st"
  by (induction fn b st and fn cs st rule: Visit_visit_children.induct)
    (auto simp: visit_blocks_append split: prod.splits)

lemma write_node_sink:
  assumes "honest_writer sink wr" "block_ok k" "write_node wr k (st, False) = (go, st', p)"
  shows "\<not> p" "go \<Longrightarrow> sink st' = sink st @ block_data k"
  using assms(3) writeAll_sink [OF assms(1), of "block_data k" st]
  by (auto simp: write_node_def NocopyNode_Bytes_ok [OF assms(2)] split: if_splits prod.splits go.splits option.splits)

lemma visit_blocks_sink:
  "\<lbrakk>honest_writer sink wr; \<forall>k \<in> set ks. block_ok k; visit_blocks (write_node wr) ks (st, False) = (go, st', p)\<rbrakk> \<Longrightarrow>
     \<not> p \<and> (go \<longrightarrow> sink st' = sink st @ concat (map block_data ks))"
proof (induction ks arbitrary: st)
  case (Cons k ks)
  obtain g st1 p1 where w: "write_node wr k (st, False) = (g, st1, p1)" by (metis surj_pair)
  note n = write_node_sink [OF Cons.prems(1) _ w]
  show ?case
  proof (cases g)
    case True
    then show ?thesis using Cons.IH [OF Cons.prems(1), of st1] Cons.prems w n by auto
  next
    case False
    then show ?thesis using Cons.prems w n by auto
  qed
qed simp

lemma set_msg_nth [simp]: "ltMsgs (set_msg a f t) = (ltMsgs t)(a := f (ltMsgs t a))" "ltConns (set_msg a f t) = ltConns t"
  "ltPool (set_msg a f t) = ltPool t" "ltMsgs (set_conn i g t) = ltMsgs t" "ltPool (set_conn i g t) = ltPool t"
  "length (ltConns (set_conn i g t)) = length (ltConns t)" "ltNext (set_msg a f t) = ltNext t" "ltNext (set_conn i g t) = ltNext t"
  "ltChans (set_msg a f t) = ltChans t" "ltChans (set_conn i g t) = ltChans t"
  by (simp_all add: set_msg_def set_conn_def)

lemma write_claim_buf: "write_claim i a t = (True, t') \<Longrightarrow> msgBuf (ltMsgs t' a) = msgBuf (ltMsgs t a)"
  by (auto simp: write_claim_def split: if_splits)

text \<open>A message that is written reaches the network in full, and in the order of its blocks.\<close>

lemma doWrite_sink:
  assumes "honest_writer sink wr" "write_claim i a t = (True, t1)" "msgBuf (ltMsgs t a) = Some buf"
    "\<forall>k \<in> set (leaves buf). block_ok k" "doWrite wr env now conn i a t st = (res, t', st')"
  shows "res = Ok True \<Longrightarrow> sink st' = sink st @ contents buf" "res \<noteq> Panic" "res = Ok True \<Longrightarrow> t' = write_finish True i a t1"
proof -
  obtain go st1 p where v: "Visit (write_node wr) buf (st, False) = (go, st1, p)" by (metis surj_pair)
  have "visit_blocks (write_node wr) (leaves buf) (st, False) = (go, st1, p)" using v by (simp add: Visit_blocks)
  note s = visit_blocks_sink [OF assms(1,4) this]
  have "doWrite wr env now conn i a t st =
      (if go then (Ok True, write_finish True i a t1, st1)
       else (Ok False, set_conn i (lc_retry env now conn) (write_finish False i a t1), st1))"
    using assms(2,3) v s write_claim_buf [OF assms(2)] by (simp add: doWrite_def Let_def)
  then show "res = Ok True \<Longrightarrow> sink st' = sink st @ contents buf" "res \<noteq> Panic" "res = Ok True \<Longrightarrow> t' = write_finish True i a t1"
    using assms(5) s by (auto simp: contents_def split: if_splits)
qed

section \<open>Nothing stays in a closed queue\<close>

lemma msg_release_simps [simp]:
  "ltPool (msg_release a t) = a # ltPool t" "ltConns (msg_release a t) = ltConns t" "ltNext (msg_release a t) = ltNext t"
  "ltChans (msg_release a t) = ltChans t"
  "ltMsgs (msg_release a t) b = (if b = a then (ltMsgs t a)\<lparr>msgBuf := None, msgSeq := 0, msgCall := None\<rparr> else ltMsgs t b)"
  by (simp_all add: msg_release_def Let_def)

lemma release_all:
  "ltPool (fold msg_release as t) = rev as @ ltPool t" "ltConns (fold msg_release as t) = ltConns t"
  by (induction as arbitrary: t) simp_all

lemma lc_close_drains:
  assumes "i < length (ltConns t)" "lcState (ltConns t ! i) \<noteq> ConnClosed"
  shows "lcQueue (ltConns (lc_close now i t) ! i) = []"
    "ltPool (lc_close now i t) = rev (lcQueue (ltConns t ! i)) @ ltPool t"
    "lcState (ltConns (lc_close now i t) ! i) = ConnClosed"
  using assms by (simp_all add: lc_close_def drainQueue_def signalFailureLocked_def release_all Let_def)

lemma lt_load_range:
  assumes "ltConns t \<noteq> []" "\<forall>x. idx = Some x \<longrightarrow> 0 \<le> sint x"
  shows "\<exists>i t'. lt_load idx t = (Ok (Some i), t') \<and> i < length (ltConns t) \<and> ltConns t' = ltConns t"
proof (cases idx)
  case (Some x)
  have n: "0 < int (length (ltConns t))" using assms(1) by simp
  have "sgn (sint x) * (\<bar>sint x\<bar> mod int (length (ltConns t))) = sint x mod int (length (ltConns t))"
    using assms(2) Some by (cases "sint x = 0") auto
  moreover have "0 \<le> sint x mod int (length (ltConns t))" "sint x mod int (length (ltConns t)) < int (length (ltConns t))"
    using n by simp_all
  moreover have "nat (sint x mod int (length (ltConns t))) < length (ltConns t)" using calculation by linarith
  ultimately show ?thesis using Some assms(1) by (simp add: lt_load_def Let_def)
qed (use assms(1) in \<open>simp add: lt_load_def Let_def\<close>)

lemma lt_load_negative:
  assumes "ltConns t \<noteq> []" "sint x < 0" "\<not> int (length (ltConns t)) dvd sint x"
  shows "fst (lt_load (Some x) t) = Panic"
proof -
  have "\<bar>sint x\<bar> mod int (length (ltConns t)) \<noteq> 0" using assms(3) by (simp add: dvd_eq_mod_eq_0 [symmetric])
  moreover have "0 \<le> \<bar>sint x\<bar> mod int (length (ltConns t))" using assms(1) by simp
  ultimately have "- (\<bar>sint x\<bar> mod int (length (ltConns t))) < 0" by linarith
  then show ?thesis using assms(1,2) by (simp add: lt_load_def Let_def)
qed

section \<open>Properties\<close>

text \<open>\<open>send\<close> returns: with a connection in any state and any outcome of dialling, its loop ends with
  the message in the queue, refused, or waiting for room in a full queue.\<close>

theorem link_send_returns:
  assumes "i < length (ltConns t)"
  shows "\<exists>r. lc_send env guarded ctxDone expired now i a t = Some r"
  using lc_send_returns [OF assms] .

theorem link_send_returns_witness:
  "\<exists>r. lc_send (\<lambda>_. Dialled 7 None) False False False 0 0 3 (NewClient\<lparr>ltConns := [newConn 0]\<rparr>) = Some r"
  using link_send_returns [of 0 "NewClient\<lparr>ltConns := [newConn 0]\<rparr>"] by simp

text \<open>A message the write loop has claimed and written without an error has reached the network in
  full, in the order of the blocks of its chain, and goes back to the pool.\<close>

theorem link_write_complete:
  assumes "honest_writer sink wr" "write_claim i a t = (True, t1)" "msgBuf (ltMsgs t a) = Some buf"
    "\<forall>k \<in> set (leaves buf). block_ok k" "doWrite wr env now conn i a t st = (Ok True, t', st')"
  shows "sink st' = sink st @ contents buf \<and> a \<in> set (ltPool t')"
  using doWrite_sink [OF assms] by (auto simp: write_finish_def Let_def)

definition all_writer :: "bytes io_writer" where
  "all_writer p st = (length p, None, st @ p)"

theorem link_write_complete_witness:
  "\<exists>t'. doWrite all_writer (\<lambda>_. DialError IoEOF) 0 7 0 3
      (NewClient\<lparr>ltMsgs := (\<lambda>_. zero_message\<lparr>msgBuf := Some (NewNocopyBuffer [MBlock (RawBlock [1, 2]), MBlock (RawBlock [3])])\<rparr>)\<rparr>) [] =
      (Ok True, t', [1, 2, 3]) \<and> 3 \<in> set (ltPool t')"
proof -
  let ?t = "NewClient\<lparr>ltMsgs := (\<lambda>_. zero_message\<lparr>msgBuf := Some (NewNocopyBuffer [MBlock (RawBlock [1, 2]), MBlock (RawBlock [3])])\<rparr>)\<rparr>"
  let ?b = "NewNocopyBuffer [MBlock (RawBlock [1, 2]), MBlock (RawBlock [3])]"
  obtain res t' st' where d: "doWrite all_writer (\<lambda>_. DialError IoEOF) 0 7 0 3 ?t [] = (res, t', st')" by (metis surj_pair)
  have hw: "honest_writer (\<lambda>s. s) all_writer" by (simp add: honest_writer_def all_writer_def)
  have claim: "write_claim 0 3 ?t = (True, ?t)" by (simp add: write_claim_def zero_message_def)
  have leaves: "leaves ?b = [RawBlock [1, 2], RawBlock [3]]"
    by (simp add: NewNocopyBuffer_def Mount_def mount_at_def empty_nocopy_def)
  then have ok: "\<forall>k \<in> set (leaves ?b). block_ok k" by (simp add: block_ok_def)
  have res: "res = Ok True"
    using d claim
    by (auto simp: doWrite_def Visit_blocks leaves zero_message_def write_node_def NocopyNode_Bytes_def
        writeAll.simps all_writer_def Let_def)
  have "msgBuf (ltMsgs ?t 3) = Some ?b" by simp
  from link_write_complete [OF hw claim this ok d [unfolded res]] res d leaves
  show ?thesis by (simp add: contents_def block_data_def)
qed

end
