(* ===== verification/CallRace.thy ===== *)
theory CallRace
  imports LinkConn
begin

text \<open>
  How the goroutines around a link client interleave: callers between the two halves of \<open>Call\<close> (before
  and after \<open>send\<close>), the write loop and the read loop of each connection.  An action is a stretch of
  one goroutine that no other goroutine can observe the middle of; \<open>call_exec\<close> says whether an action
  is enabled and what it does, built from the operations of \<open>LinkConn\<close>.
\<close>

section \<open>Goroutines\<close>

text \<open>A caller has enqueued its message but not yet evaluated \<open>msg.call\<close> for its \<open>select\<close>, waits on the
  channel it evaluated, or has returned.\<close>

datatype call_pc = BeforeSelect | Selecting "chan option" | Answered bytes | CallError goerr

record caller =
  clConn :: nat
  clMsg :: nat
  clSeq :: uint64
  clPc :: call_pc

text \<open>\<open>wWriter\<close> and \<open>wReader\<close> are what the loops of a connection hold: a message being written, a response
  being handed over.  \<open>wOwner\<close> records, for the statements only, the sequence number of the call each
  channel was made for.\<close>

record world =
  wCl :: lclient
  wCallers :: "nat \<Rightarrow> caller option"
  wWriter :: "nat \<Rightarrow> nat option"
  wReader :: "nat \<Rightarrow> (chan option \<times> bytes) option"
  wOwner :: "chan \<Rightarrow> uint64"

definition start_world :: "lclient \<Rightarrow> world" where
  "start_world t = \<lparr>wCl = t, wCallers = Map.empty, wWriter = Map.empty, wReader = Map.empty, wOwner = (\<lambda>_. 0)\<rparr>"

datatype call_act =
    ACall nat nat uint64 nocopy "nat list \<Rightarrow> nat option"
  | ASend nat nocopy "nat list \<Rightarrow> nat option"
  | ASelect nat
  | ATake nat
  | AWritten nat bool
  | ARecv nat bytes int
  | ADeliver nat nat
  | AExpire nat
  | ARetry nat "nat \<Rightarrow> dial_result" int nat
  | AClose nat int

definition set_caller :: "nat \<Rightarrow> caller \<Rightarrow> world \<Rightarrow> world" where
  "set_caller k cl w = w\<lparr>wCallers := (wCallers w)(k \<mapsto> cl)\<rparr>"

text \<open>\<open>Call\<close> up to the end of \<open>send\<close>, on an open connection.\<close>

definition exec_call :: "nat \<Rightarrow> nat \<Rightarrow> uint64 \<Rightarrow> nocopy \<Rightarrow> (nat list \<Rightarrow> nat option) \<Rightarrow> world \<Rightarrow> world option" where
  "exec_call k i seq buf sel w =
     (if wCallers w k \<noteq> None \<or> i \<ge> length (ltConns (wCl w)) then None
      else let (a, t) = msg_get sel (wCl w);
               w = w\<lparr>wOwner := (wOwner w)(ltChans t := seq)\<rparr>
           in case lc_enqueue True False 0 i a (call_prepare seq buf a t) of
                (Enqueued, t) \<Rightarrow> Some (set_caller k \<lparr>clConn = i, clMsg = a, clSeq = seq, clPc = BeforeSelect\<rparr> (w\<lparr>wCl := t\<rparr>))
              | (Refused err, t) \<Rightarrow>
                  Some (set_caller k \<lparr>clConn = i, clMsg = a, clSeq = seq, clPc = CallError err\<rparr> (w\<lparr>wCl := msg_release a t\<rparr>))
              | (Blocked, t) \<Rightarrow> None)"

definition exec_send :: "nat \<Rightarrow> nocopy \<Rightarrow> (nat list \<Rightarrow> nat option) \<Rightarrow> world \<Rightarrow> world option" where
  "exec_send i buf sel w =
     (if i \<ge> length (ltConns (wCl w)) then None
      else let (a, t) = msg_get sel (wCl w)
           in case lc_enqueue True False 0 i a (send_prepare buf a t) of
                (Enqueued, t) \<Rightarrow> Some (w\<lparr>wCl := t\<rparr>)
              | (Refused err, t) \<Rightarrow> Some (w\<lparr>wCl := msg_release a t\<rparr>)
              | (Blocked, t) \<Rightarrow> None)"

definition exec_take :: "nat \<Rightarrow> world \<Rightarrow> world option" where
  "exec_take i w =
     (if i \<ge> length (ltConns (wCl w)) \<or> wWriter w i \<noteq> None then None
      else case lcQueue (ltConns (wCl w) ! i) of
             [] \<Rightarrow> None
           | a # q \<Rightarrow>
               let t = set_conn i (\<lambda>c. c\<lparr>lcQueue := q\<rparr>) (wCl w); (claimed, t) = write_claim i a t
               in Some (w\<lparr>wCl := t, wWriter := (wWriter w)(i := if claimed then Some a else None)\<rparr>))"

definition exec_recv :: "nat \<Rightarrow> bytes \<Rightarrow> int \<Rightarrow> world \<Rightarrow> world option" where
  "exec_recv i data now w =
     (if i \<ge> length (ltConns (wCl w)) \<or> wReader w i \<noteq> None then None
      else case read_turn now i data (wCl w) of
             (Ok None, t) \<Rightarrow> Some (w\<lparr>wCl := t\<rparr>)
           | (Ok (Some call), t) \<Rightarrow> Some (w\<lparr>wCl := t, wReader := (wReader w)(i \<mapsto> (call, data))\<rparr>)
           | (_, t) \<Rightarrow> None)"

text \<open>A \<open>retry\<close> or \<open>close\<close> cancels the context of the connection: a read loop that waits for its caller
  gives the response up.\<close>

fun call_exec :: "call_act \<Rightarrow> world \<Rightarrow> world option" where
  "call_exec (ACall k i seq buf sel) w = exec_call k i seq buf sel w"
| "call_exec (ASend i buf sel) w = exec_send i buf sel w"
| "call_exec (ASelect k) w =
     (case wCallers w k of
        Some cl \<Rightarrow> if clPc cl = BeforeSelect
                   then Some (set_caller k (cl\<lparr>clPc := Selecting (msgCall (ltMsgs (wCl w) (clMsg cl)))\<rparr>) w)
                   else None
      | None \<Rightarrow> None)"
| "call_exec (ATake i) w = exec_take i w"
| "call_exec (AWritten i ok) w =
     (case wWriter w i of
        Some a \<Rightarrow> if i < length (ltConns (wCl w))
                  then Some (w\<lparr>wCl := write_finish ok i a (wCl w), wWriter := (wWriter w)(i := None)\<rparr>) else None
      | None \<Rightarrow> None)"
| "call_exec (ARecv i data now) w = exec_recv i data now w"
| "call_exec (ADeliver i k) w =
     (case (wReader w i, wCallers w k) of
        (Some (Some ch, data), Some cl) \<Rightarrow>
          if clPc cl = Selecting (Some ch)
          then Some (set_caller k (cl\<lparr>clPc := Answered data\<rparr>) (w\<lparr>wReader := (wReader w)(i := None)\<rparr>))
          else None
      | _ \<Rightarrow> None)"
| "call_exec (AExpire k) w =
     (case wCallers w k of
        Some cl \<Rightarrow>
          (case clPc cl of
             Selecting _ \<Rightarrow>
               if clConn cl < length (ltConns (wCl w))
               then Some (set_caller k (cl\<lparr>clPc := CallError ContextDeadlineExceeded\<rparr>)
                      (w\<lparr>wCl := lc_delete (clConn cl) (clMsg cl) (wCl w)\<rparr>)) else None
           | _ \<Rightarrow> None)
      | None \<Rightarrow> None)"
| "call_exec (ARetry i env now conn) w =
     (if i < length (ltConns (wCl w))
      then Some (w\<lparr>wCl := set_conn i (lc_retry env now conn) (wCl w), wReader := (wReader w)(i := None)\<rparr>) else None)"
| "call_exec (AClose i now) w =
     (if i < length (ltConns (wCl w))
      then Some (w\<lparr>wCl := lc_close now i (wCl w), wReader := (wReader w)(i := None)\<rparr>) else None)"

primrec call_run :: "call_act list \<Rightarrow> world \<Rightarrow> world option" where
  "call_run [] w = Some w"
| "call_run (x # xs) w = Option.bind (call_exec x w) (call_run xs)"

section \<open>The reachable states\<close>

text \<open>A state is prompt when every caller that has not reached its \<open>select\<close> yet still has its message:
  the message is not back in the pool.\<close>

definition prompt :: "world \<Rightarrow> bool" where
  "prompt w \<longleftrightarrow> (\<forall>k cl. wCallers w k = Some cl \<and> clPc cl = BeforeSelect \<longrightarrow> clMsg cl \<notin> set (ltPool (wCl w)))"

inductive call_step :: "world \<Rightarrow> world \<Rightarrow> bool" where
  "call_exec x w = Some w' \<Longrightarrow> call_step w w'"

inductive prompt_reach :: "world \<Rightarrow> world \<Rightarrow> bool" for w0 where
  prompt_start: "prompt w0 \<Longrightarrow> prompt_reach w0 w0"
| prompt_next: "prompt_reach w0 w \<Longrightarrow> call_step w w' \<Longrightarrow> prompt w' \<Longrightarrow> prompt_reach w0 w'"

inductive_cases call_stepE: "call_step w w'"

section \<open>Invariant\<close>

definition answers :: "bytes \<Rightarrow> uint64 \<Rightarrow> bool" where
  "answers data seq \<longleftrightarrow> (\<exists>route. ParseBuffer data = Ok (False, route, seq))"

definition conn_inv :: "(chan \<Rightarrow> uint64) \<Rightarrow> chan \<Rightarrow> nat \<Rightarrow> lconn \<Rightarrow> bool" where
  "conn_inv own n m c \<longleftrightarrow> pending_ok (lcPending c) \<and>
     (\<forall>seq ch. pending_abs (lcPending c) seq = Some (Some ch) \<longrightarrow> ch < n \<and> own ch = seq) \<and>
     (\<forall>a \<in> set (lcQueue c). a < m)"

definition client_inv :: "(chan \<Rightarrow> uint64) \<Rightarrow> lclient \<Rightarrow> bool" where
  "client_inv own t \<longleftrightarrow>
     (\<forall>a ch. msgCall (ltMsgs t a) = Some ch \<longrightarrow> ch < ltChans t \<and> own ch = msgSeq (ltMsgs t a)) \<and>
     (\<forall>c \<in> set (ltConns t). conn_inv own (ltChans t) (ltNext t) c) \<and> (\<forall>a \<in> set (ltPool t). a < ltNext t)"

definition caller_inv :: "(chan \<Rightarrow> uint64) \<Rightarrow> lclient \<Rightarrow> caller \<Rightarrow> bool" where
  "caller_inv own t cl \<longleftrightarrow>
     (case clPc cl of
        BeforeSelect \<Rightarrow> clMsg cl < ltNext t \<and> msgSeq (ltMsgs t (clMsg cl)) = clSeq cl
      | Selecting (Some ch) \<Rightarrow> ch < ltChans t \<and> own ch = clSeq cl
      | Selecting None \<Rightarrow> True
      | Answered data \<Rightarrow> answers data (clSeq cl)
      | CallError _ \<Rightarrow> True)"

definition world_inv :: "world \<Rightarrow> bool" where
  "world_inv w \<longleftrightarrow> client_inv (wOwner w) (wCl w) \<and>
     (\<forall>k cl. wCallers w k = Some cl \<longrightarrow> caller_inv (wOwner w) (wCl w) cl) \<and>
     (\<forall>i a. wWriter w i = Some a \<longrightarrow> a < ltNext (wCl w)) \<and>
     (\<forall>i ch data. wReader w i = Some (Some ch, data) \<longrightarrow> ch < ltChans (wCl w) \<and> answers data (wOwner w ch))"

text \<open>What an operation on the client may do: it keeps the invariant, creates messages and channels, and
  changes the sequence number only of messages that are or were in the pool.\<close>

definition client_step :: "(chan \<Rightarrow> uint64) \<Rightarrow> lclient \<Rightarrow> (chan \<Rightarrow> uint64) \<Rightarrow> lclient \<Rightarrow> bool" where
  "client_step own t own' t' \<longleftrightarrow> client_inv own' t' \<and> ltNext t \<le> ltNext t' \<and> ltChans t \<le> ltChans t' \<and>
     (\<forall>ch < ltChans t. own' ch = own ch) \<and>
     (\<forall>a < ltNext t. a \<notin> set (ltPool t) \<and> a \<notin> set (ltPool t') \<longrightarrow> msgSeq (ltMsgs t' a) = msgSeq (ltMsgs t a))"

lemma client_step_refl: "client_inv own t \<Longrightarrow> client_step own t own t"
  by (simp add: client_step_def)

lemma client_step_trans:
  assumes "client_step own t own1 t1" "client_step own1 t1 own2 t2" "set (ltPool t1) \<subseteq> set (ltPool t) \<union> set (ltPool t2)"
  shows "client_step own t own2 t2"
proof -
  have le: "ltNext t \<le> ltNext t1" "ltChans t \<le> ltChans t1" using assms(1) by (auto simp: client_step_def)
  have "msgSeq (ltMsgs t2 a) = msgSeq (ltMsgs t a)"
    if "a < ltNext t" "a \<notin> set (ltPool t)" "a \<notin> set (ltPool t2)" for a
  proof -
    have "a \<notin> set (ltPool t1)" using that assms(3) by auto
    then show ?thesis
      using that assms(1,2) order_less_le_trans [OF that(1) le(1)] by (simp add: client_step_def)
  qed
  moreover have "own2 ch = own ch" if "ch < ltChans t" for ch
    using that assms(1,2) order_less_le_trans [OF that le(2)] by (auto simp: client_step_def)
  ultimately show ?thesis using assms(1,2) by (auto simp: client_step_def)
qed

lemma caller_inv_step:
  assumes "client_step own t own' t'" "caller_inv own t cl"
    "clPc cl = BeforeSelect \<Longrightarrow> clMsg cl \<notin> set (ltPool t) \<and> clMsg cl \<notin> set (ltPool t')"
  shows "caller_inv own' t' cl"
  using assms by (auto simp: caller_inv_def client_step_def split: call_pc.splits option.splits)

lemma conn_inv_mono: "conn_inv own n m c \<Longrightarrow> n \<le> n' \<Longrightarrow> m \<le> m' \<Longrightarrow> \<forall>ch<n. own' ch = own ch \<Longrightarrow> conn_inv own' n' m' c"
  by (fastforce simp: conn_inv_def)

lemma step_set_conn:
  assumes "client_inv own t" "\<And>c. conn_inv own (ltChans t) (ltNext t) c \<Longrightarrow> conn_inv own (ltChans t) (ltNext t) (f c)"
    "i < length (ltConns t)"
  shows "client_step own t own (set_conn i f t)"
proof -
  have "conn_inv own (ltChans t) (ltNext t) c" if "c \<in> set (ltConns (set_conn i f t))" for c
    using that assms set_update_subset_insert [of "ltConns t" i "f (ltConns t ! i)"] nth_mem [OF assms(3)]
    by (auto simp: set_conn_def client_inv_def)
  then show ?thesis using assms(1) by (simp add: client_step_def client_inv_def)
qed

lemma step_release:
  assumes "client_inv own t" "a < ltNext t"
  shows "client_step own t own (msg_release a t)"
  using assms by (auto simp: client_step_def client_inv_def)

lemma step_release_all:
  "\<lbrakk>client_inv own t; \<forall>a \<in> set as. a < ltNext t\<rbrakk> \<Longrightarrow> client_step own t own (fold msg_release as t) \<and>
     ltNext (fold msg_release as t) = ltNext t \<and> ltChans (fold msg_release as t) = ltChans t"
proof (induction as arbitrary: t)
  case (Cons a as)
  have s: "client_step own t own (msg_release a t)" using Cons.prems by (intro step_release) auto
  then have "client_inv own (msg_release a t)" by (simp add: client_step_def)
  from Cons.IH [OF this] Cons.prems
  have "client_step own (msg_release a t) own (fold msg_release as (msg_release a t)) \<and>
    ltNext (fold msg_release as (msg_release a t)) = ltNext t \<and> ltChans (fold msg_release as (msg_release a t)) = ltChans t"
    by simp
  then show ?case using client_step_trans [OF s] by (simp add: release_all)
qed (simp add: client_step_refl)

lemma step_set_msg:
  assumes "client_inv own t" "\<And>m. msgSeq (f m) = msgSeq m" "\<And>m. msgCall (f m) = msgCall m"
  shows "client_step own t own (set_msg a f t)"
  using assms by (auto simp: client_step_def client_inv_def)

lemma msg_get_cases:
  assumes "msg_get sel t = (a, t')"
  obtains (idle) p where "a \<in> set (ltPool t)" "set p \<subseteq> set (ltPool t)" "t' = t\<lparr>ltPool := p\<rparr>"
  | (fresh) "a = ltNext t" "t' = t\<lparr>ltNext := Suc (ltNext t), ltMsgs := (ltMsgs t)(ltNext t := zero_message)\<rparr>"
proof (cases "\<exists>k < length (ltPool t). sel (ltPool t) = Some k")
  case True
  then obtain k where k: "k < length (ltPool t)" "sel (ltPool t) = Some k" by auto
  have "set (take k (ltPool t) @ drop (Suc k) (ltPool t)) \<subseteq> set (ltPool t)"
    by (auto dest: in_set_takeD in_set_dropD)
  then show ?thesis using idle [of "take k (ltPool t) @ drop (Suc k) (ltPool t)"] k assms by (auto simp: msg_get_def)
next
  case False
  then show ?thesis using fresh assms by (auto simp: msg_get_def Let_def split: option.splits if_splits)
qed

lemma step_msg_get:
  assumes "client_inv own t" "msg_get sel t = (a, t')"
  shows "client_step own t own t'" "a < ltNext t'" "a \<in> set (ltPool t) \<or> a = ltNext t"
    "set (ltPool t') \<subseteq> set (ltPool t)" "ltConns t' = ltConns t" "ltChans t' = ltChans t"
proof -
  have "client_step own t own t' \<and> a < ltNext t' \<and> (a \<in> set (ltPool t) \<or> a = ltNext t) \<and>
      set (ltPool t') \<subseteq> set (ltPool t) \<and> ltConns t' = ltConns t \<and> ltChans t' = ltChans t"
    using assms(2)
  proof (cases rule: msg_get_cases)
    case (idle p)
    then show ?thesis using assms(1) by (auto simp: client_step_def client_inv_def)
  next
    case fresh
    have "conn_inv own (ltChans t) (Suc (ltNext t)) c" if "c \<in> set (ltConns t)" for c
      using that assms(1) by (auto simp: client_inv_def intro: conn_inv_mono)
    then show ?thesis using fresh assms(1) by (auto simp: client_step_def client_inv_def zero_message_def less_Suc_eq)
  qed
  then show "client_step own t own t'" "a < ltNext t'" "a \<in> set (ltPool t) \<or> a = ltNext t"
    "set (ltPool t') \<subseteq> set (ltPool t)" "ltConns t' = ltConns t" "ltChans t' = ltChans t" by auto
qed

lemma step_call_prepare:
  assumes "client_inv own t" "msg_get sel t = (a, t1)" "own' = own(ltChans t1 := seq)"
  shows "client_step own t own' (call_prepare seq buf a t1)"
proof -
  note g = step_msg_get [OF assms(1,2)]
  have i1: "client_inv own t1" using g(1) by (simp add: client_step_def)
  have "client_inv own' (call_prepare seq buf a t1)"
    using i1 assms(3) by (auto simp: client_inv_def call_prepare_def less_Suc_eq intro: conn_inv_mono)
  then show ?thesis using g assms(3) by (auto simp: client_step_def call_prepare_def)
qed

lemma step_enqueue:
  assumes "client_inv own t" "lc_enqueue True False now i a t = (res, t')" "i < length (ltConns t)" "a < ltNext t"
  shows "client_step own t own t'" "ltPool t' = ltPool t" "ltNext t' = ltNext t" "ltMsgs t' = ltMsgs t" "ltChans t' = ltChans t"
proof -
  have "t' = t \<or> t' = set_conn i (\<lambda>c. c\<lparr>lcQueue := lcQueue c @ [a]\<rparr>) t"
    using assms(2) by (auto simp: lc_enqueue_def Let_def split: if_splits option.splits)
  moreover have "client_step own t own (set_conn i (\<lambda>c. c\<lparr>lcQueue := lcQueue c @ [a]\<rparr>) t)"
    using assms by (intro step_set_conn) (auto simp: conn_inv_def)
  ultimately show "client_step own t own t'" "ltPool t' = ltPool t" "ltNext t' = ltNext t" "ltMsgs t' = ltMsgs t" "ltChans t' = ltChans t"
    using client_step_refl [OF assms(1)] by auto
qed

lemma step_write_claim:
  assumes "client_inv own t" "write_claim i a t = (ok, t')" "i < length (ltConns t)" "a < ltNext t"
  shows "client_step own t own t'" "ltNext t' = ltNext t" "ltChans t' = ltChans t"
proof -
  let ?t1 = "set_msg a (\<lambda>m. m\<lparr>msgState := StateSent\<rparr>) t"
  let ?f = "\<lambda>c. c\<lparr>lcPending := pending_store (msgSeq (ltMsgs t a)) (msgCall (ltMsgs t a)) (lcPending c)\<rparr>"
  have s1: "client_step own t own ?t1" using assms(1) by (intro step_set_msg) auto
  then have i1: "client_inv own ?t1" by (simp add: client_step_def)
  have "client_step own ?t1 own (set_conn i ?f ?t1)"
  proof (rule step_set_conn [OF i1])
    fix c assume "conn_inv own (ltChans ?t1) (ltNext ?t1) c"
    then show "conn_inv own (ltChans ?t1) (ltNext ?t1) (?f c)"
      using assms(1) by (auto simp: conn_inv_def pending_ops client_inv_def split: if_splits)
  qed (use assms(3) in simp)
  then have "client_step own t own (set_conn i ?f ?t1)" by (rule client_step_trans [OF s1]) simp
  then show "client_step own t own t'" "ltNext t' = ltNext t" "ltChans t' = ltChans t"
    using assms(2) step_release [OF assms(1,4)] client_step_refl [OF assms(1)]
    by (auto simp: write_claim_def split: if_splits)
qed

lemma step_delete_pending:
  assumes "client_inv own t" "i < length (ltConns t)"
  shows "client_step own t own (set_conn i (\<lambda>c. c\<lparr>lcPending := pending_delete seq (lcPending c)\<rparr>) t)"
  using assms by (intro step_set_conn) (auto simp: conn_inv_def pending_ops split: if_splits)

lemma step_write_finish:
  assumes "client_inv own t" "i < length (ltConns t)" "a < ltNext t"
  shows "client_step own t own (write_finish ok i a t)"
proof -
  let ?t1 = "if \<not> ok \<and> msgSeq (ltMsgs t a) \<noteq> 0
    then set_conn i (\<lambda>c. c\<lparr>lcPending := pending_delete (msgSeq (ltMsgs t a)) (lcPending c)\<rparr>) t else t"
  have s1: "client_step own t own ?t1" using step_delete_pending [OF assms(1,2)] client_step_refl [OF assms(1)] by simp
  then have "client_step own ?t1 own (msg_release a ?t1)"
    using assms(3) by (intro step_release) (auto simp: client_step_def)
  then have "client_step own t own (msg_release a ?t1)" by (rule client_step_trans [OF s1]) auto
  then show ?thesis by (simp add: write_finish_def Let_def)
qed

lemma step_delete:
  assumes "client_inv own t" "i < length (ltConns t)"
  shows "client_step own t own (lc_delete i a t)"
proof (cases "msgState (ltMsgs t a) = StatePending")
  case True
  then show ?thesis using assms(1) by (simp add: lc_delete_def step_set_msg)
next
  case False
  then show ?thesis using step_delete_pending [OF assms] by (simp add: lc_delete_def)
qed

lemma lc_retry_keeps: "lcPending (lc_retry env now conn c) = lcPending c" "lcQueue (lc_retry env now conn c) = lcQueue c"
proof -
  define c1 where "c1 = (if lcCancel c then c\<lparr>lcState := ConnHanged, lcCtx := map_option (\<lambda>_. True) (lcCtx c)\<rparr>
    else c\<lparr>lcState := ConnHanged\<rparr>)"
  obtain e c2 where d: "lc_dial env now c1 = (e, c2)" by fastforce
  have "lc_retry env now conn c = (if lcState c \<noteq> ConnOpened then c else c2)"
    using d by (cases "lcCancel c") (simp_all add: lc_retry_def c1_def Let_def)
  then show "lcPending (lc_retry env now conn c) = lcPending c" "lcQueue (lc_retry env now conn c) = lcQueue c"
    using lc_dial_state(1,2) [OF d] by (auto simp: c1_def)
qed

lemma step_retry:
  "client_inv own t \<Longrightarrow> i < length (ltConns t) \<Longrightarrow> client_step own t own (set_conn i (lc_retry env now conn) t)"
  by (intro step_set_conn) (auto simp: conn_inv_def lc_retry_keeps)

lemma step_close:
  assumes "client_inv own t" "i < length (ltConns t)"
  shows "client_step own t own (lc_close now i t)"
proof (cases "lcState (ltConns t ! i) = ConnClosed")
  case True
  then show ?thesis using client_step_refl [OF assms(1)] by (simp add: lc_close_def)
next
  case False
  let ?f = "\<lambda>c. c\<lparr>lcState := ConnClosed, lcLastFault := now, lcNet := None,
    lcCtx := (if lcCancel c then map_option (\<lambda>_. True) (lcCtx c) else lcCtx c), lcCancel := False\<rparr>"
  let ?t1 = "set_conn i ?f t" and ?q = "lcQueue (ltConns t ! i)"
  let ?t2 = "fold msg_release ?q ?t1"
  have s1: "client_step own t own ?t1" using assms by (intro step_set_conn) (auto simp: conn_inv_def)
  then have i1: "client_inv own ?t1" by (simp add: client_step_def)
  have "\<forall>a \<in> set ?q. a < ltNext ?t1" using assms nth_mem [OF assms(2)] by (auto simp: client_inv_def conn_inv_def)
  then have s2: "client_step own ?t1 own ?t2" using step_release_all [OF i1] by simp
  have s12: "client_step own t own ?t2" by (rule client_step_trans [OF s1 s2]) simp
  then have i2: "client_inv own ?t2" by (simp add: client_step_def)
  have l2: "i < length (ltConns ?t2)" using assms(2) by (simp add: release_all)
  have s3: "client_step own ?t2 own (set_conn i (\<lambda>c. c\<lparr>lcQueue := []\<rparr>) ?t2)"
    using i2 l2 by (intro step_set_conn) (auto simp: conn_inv_def)
  have s123: "client_step own t own (set_conn i (\<lambda>c. c\<lparr>lcQueue := []\<rparr>) ?t2)" by (rule client_step_trans [OF s12 s3]) simp
  then have i3: "client_inv own (set_conn i (\<lambda>c. c\<lparr>lcQueue := []\<rparr>) ?t2)" by (simp add: client_step_def)
  have "client_step own (set_conn i (\<lambda>c. c\<lparr>lcQueue := []\<rparr>) ?t2) own
      (set_conn i signalFailureLocked (set_conn i (\<lambda>c. c\<lparr>lcQueue := []\<rparr>) ?t2))"
    using i3 l2 by (intro step_set_conn) (auto simp: conn_inv_def signalFailureLocked_def)
  then have "client_step own t own (set_conn i signalFailureLocked (set_conn i (\<lambda>c. c\<lparr>lcQueue := []\<rparr>) ?t2))"
    by (rule client_step_trans [OF s123]) simp
  moreover have "lcQueue (ltConns ?t1 ! i) = ?q" using assms(2) by simp
  ultimately show ?thesis using False by (simp add: lc_close_def drainQueue_def Let_def)
qed

lemma step_read_turn:
  assumes "client_inv own t" "i < length (ltConns t)" "read_turn now i data t = (Ok res, t')"
  shows "client_step own t own t'" "ltChans t' = ltChans t" "ltPool t' = ltPool t"
    "res = Some (Some ch) \<Longrightarrow> ch < ltChans t \<and> answers data (own ch)"
proof -
  obtain hb rt seq where p: "ParseBuffer data = Ok (hb, rt, seq)"
    using assms(3) by (auto simp: read_turn_def Let_def split: go.splits)
  let ?t1 = "set_conn i (\<lambda>c. c\<lparr>lcLastHeartbeat := now\<rparr>) t"
  let ?p = "lcPending (ltConns t ! i)"
  let ?t2 = "set_conn i (\<lambda>c. c\<lparr>lcPending := snd (pending_extract seq ?p)\<rparr>) ?t1"
  have s1: "client_step own t own ?t1" using assms(1,2) by (intro step_set_conn) (auto simp: conn_inv_def)
  have ci: "conn_inv own (ltChans t) (ltNext t) (ltConns t ! i)" using assms(1,2) by (simp add: client_inv_def)
  then have ok: "pending_ok ?p" by (simp add: conn_inv_def)
  have "client_step own ?t1 own ?t2"
  proof (rule step_set_conn)
    show "client_inv own ?t1" using s1 by (simp add: client_step_def)
    show "conn_inv own (ltChans ?t1) (ltNext ?t1) (c\<lparr>lcPending := snd (pending_extract seq ?p)\<rparr>)"
      if "conn_inv own (ltChans ?t1) (ltNext ?t1) c" for c
      using that ci by (auto simp: conn_inv_def pending_ops [OF ok] split: if_splits)
  qed (use assms(2) in simp)
  then have s2: "client_step own t own ?t2" by (rule client_step_trans [OF s1]) simp
  have eq: "(res, t') = (if hb then (None, ?t1) else (fst (pending_extract seq ?p), ?t2))"
    using assms(2,3) p by (auto simp: read_turn_def Let_def split: prod.splits if_splits)
  show "client_step own t own t'" "ltChans t' = ltChans t" "ltPool t' = ltPool t" using eq s1 s2 by (auto split: if_splits)
  show "ch < ltChans t \<and> answers data (own ch)" if "res = Some (Some ch)"
    using that eq ci p by (auto simp: pending_ops [OF ok] conn_inv_def answers_def split: if_splits)
qed

section \<open>Every step keeps the invariant\<close>

lemma world_inv_client:
  assumes "world_inv w" "prompt w" "prompt w'" "client_step (wOwner w) (wCl w) (wOwner w') (wCl w')"
    and "\<And>k cl. wCallers w' k = Some cl \<Longrightarrow> wCallers w k = Some cl \<or> caller_inv (wOwner w') (wCl w') cl"
    and "\<And>i a. wWriter w' i = Some a \<Longrightarrow> wWriter w i = Some a \<or> a < ltNext (wCl w')"
    and "\<And>i ch data. wReader w' i = Some (Some ch, data) \<Longrightarrow>
      wReader w i = Some (Some ch, data) \<or> ch < ltChans (wCl w') \<and> answers data (wOwner w' ch)"
  shows "world_inv w'"
proof -
  have "caller_inv (wOwner w') (wCl w') cl" if "wCallers w' k = Some cl" for k cl
  proof (cases "wCallers w k = Some cl")
    case True
    then have "caller_inv (wOwner w) (wCl w) cl" using assms(1) by (auto simp: world_inv_def)
    then show ?thesis using caller_inv_step [OF assms(4)] assms(2,3) True that by (auto simp: prompt_def)
  qed (use assms(5) [OF that] in simp)
  moreover have "a < ltNext (wCl w')" if "wWriter w' i = Some a" for i a
    using assms(6) [OF that] assms(1,4) by (fastforce simp: world_inv_def client_step_def)
  moreover have "ch < ltChans (wCl w') \<and> answers data (wOwner w' ch)" if "wReader w' i = Some (Some ch, data)" for i ch data
    using assms(7) [OF that] assms(1,4) by (fastforce simp: world_inv_def client_step_def)
  ultimately show ?thesis using assms(4) by (auto simp: world_inv_def client_step_def)
qed

lemma exec_call_inv:
  assumes "world_inv w" "prompt w" "prompt w'" "exec_call k i seq buf sel w = Some w'"
  shows "world_inv w'"
proof -
  obtain a t where g: "msg_get sel (wCl w) = (a, t)" by fastforce
  let ?own = "(wOwner w)(ltChans t := seq)" and ?t1 = "call_prepare seq buf a t"
  have i0: "client_inv (wOwner w) (wCl w)" using assms(1) by (simp add: world_inv_def)
  note get = step_msg_get [OF i0 g]
  have i: "i < length (ltConns (wCl w))" using assms(4) by (auto simp: exec_call_def split: if_splits)
  have s1: "client_step (wOwner w) (wCl w) ?own ?t1" by (rule step_call_prepare [OF i0 g refl])
  have p1: "set (ltPool ?t1) \<subseteq> set (ltPool (wCl w))" "a < ltNext ?t1" "msgSeq (ltMsgs ?t1 a) = seq" "i < length (ltConns ?t1)"
    using get i by (auto simp: call_prepare_def)
  obtain res t2 where e: "lc_enqueue True False 0 i a ?t1 = (res, t2)" by fastforce
  have i1: "client_inv ?own ?t1" using s1 by (simp add: client_step_def)
  note enq = step_enqueue [OF i1 e p1(4,2)]
  have s2: "client_step (wOwner w) (wCl w) ?own t2" by (rule client_step_trans [OF s1 enq(1)]) (use p1 in auto)
  then have i2: "client_inv ?own t2" by (simp add: client_step_def)
  have "client_step ?own t2 ?own (msg_release a t2)" using i2 p1(2) enq(3) by (intro step_release) auto
  then have s3: "client_step (wOwner w) (wCl w) ?own (msg_release a t2)"
    by (rule client_step_trans [OF s2]) (use p1 enq in auto)
  define cl where "cl pc = \<lparr>clConn = i, clMsg = a, clSeq = seq, clPc = pc\<rparr>" for pc
  have w': "(res = Enqueued \<and> w' = set_caller k (cl BeforeSelect) (w\<lparr>wOwner := ?own, wCl := t2\<rparr>)) \<or>
      (\<exists>err. w' = set_caller k (cl (CallError err)) (w\<lparr>wOwner := ?own, wCl := msg_release a t2\<rparr>))"
    using assms(4) g e by (auto simp: exec_call_def Let_def cl_def split: if_splits enq_result.splits)
  have "client_step (wOwner w) (wCl w) (wOwner w') (wCl w')" using w' s2 s3 by (auto simp: set_caller_def)
  then show ?thesis
    by (rule world_inv_client [OF assms(1-3)])
      (use w' p1 enq in \<open>auto simp: set_caller_def cl_def caller_inv_def split: if_splits\<close>)
qed

lemma exec_send_inv:
  assumes "world_inv w" "prompt w" "prompt w'" "exec_send i buf sel w = Some w'"
  shows "world_inv w'"
proof -
  obtain a t where g: "msg_get sel (wCl w) = (a, t)" by fastforce
  let ?t1 = "send_prepare buf a t"
  have i0: "client_inv (wOwner w) (wCl w)" using assms(1) by (simp add: world_inv_def)
  note get = step_msg_get [OF i0 g]
  have i: "i < length (ltConns (wCl w))" using assms(4) by (auto simp: exec_send_def split: if_splits)
  have "client_inv (wOwner w) t" using get(1) by (simp add: client_step_def)
  then have "client_step (wOwner w) t (wOwner w) ?t1" unfolding send_prepare_def by (intro step_set_msg) auto
  then have s1: "client_step (wOwner w) (wCl w) (wOwner w) ?t1" by (rule client_step_trans [OF get(1)]) (use get(4) in auto)
  have p1: "set (ltPool ?t1) \<subseteq> set (ltPool (wCl w))" "a < ltNext ?t1" "i < length (ltConns ?t1)"
    using get i by (auto simp: send_prepare_def)
  obtain res t2 where e: "lc_enqueue True False 0 i a ?t1 = (res, t2)" by fastforce
  have i1: "client_inv (wOwner w) ?t1" using s1 by (simp add: client_step_def)
  note enq = step_enqueue [OF i1 e p1(3,2)]
  have s2: "client_step (wOwner w) (wCl w) (wOwner w) t2" by (rule client_step_trans [OF s1 enq(1)]) (use p1 in auto)
  then have i2: "client_inv (wOwner w) t2" by (simp add: client_step_def)
  have "client_step (wOwner w) t2 (wOwner w) (msg_release a t2)" using i2 p1(2) enq(3) by (intro step_release) auto
  then have s3: "client_step (wOwner w) (wCl w) (wOwner w) (msg_release a t2)"
    by (rule client_step_trans [OF s2]) (use p1 enq in auto)
  have w': "w' = w\<lparr>wCl := t2\<rparr> \<or> w' = w\<lparr>wCl := msg_release a t2\<rparr>"
    using assms(4) g e by (auto simp: exec_send_def Let_def split: if_splits enq_result.splits)
  have "client_step (wOwner w) (wCl w) (wOwner w') (wCl w')" using w' s2 s3 by auto
  then show ?thesis by (rule world_inv_client [OF assms(1-3)]) (use w' in auto)
qed

lemma exec_take_inv:
  assumes "world_inv w" "prompt w" "prompt w'" "exec_take i w = Some w'"
  shows "world_inv w'"
proof -
  have i0: "client_inv (wOwner w) (wCl w)" using assms(1) by (simp add: world_inv_def)
  obtain a q where q: "lcQueue (ltConns (wCl w) ! i) = a # q" and i: "i < length (ltConns (wCl w))"
    using assms(4) by (auto simp: exec_take_def split: if_splits list.splits)
  let ?t1 = "set_conn i (\<lambda>c. c\<lparr>lcQueue := q\<rparr>) (wCl w)"
  obtain ok t2 where c: "write_claim i a ?t1 = (ok, t2)" by fastforce
  have "conn_inv (wOwner w) (ltChans (wCl w)) (ltNext (wCl w)) (ltConns (wCl w) ! i)"
    using i0 nth_mem [OF i] by (auto simp: client_inv_def)
  then have aq: "a < ltNext (wCl w)" "\<forall>b \<in> set q. b < ltNext (wCl w)" using q by (auto simp: conn_inv_def)
  then have s1: "client_step (wOwner w) (wCl w) (wOwner w) ?t1"
    using i0 i by (intro step_set_conn) (auto simp: conn_inv_def)
  then have i1: "client_inv (wOwner w) ?t1" by (simp add: client_step_def)
  have "i < length (ltConns ?t1)" "a < ltNext ?t1" using i aq by auto
  note claim = step_write_claim [OF i1 c this]
  have s2: "client_step (wOwner w) (wCl w) (wOwner w) t2" by (rule client_step_trans [OF s1 claim(1)]) simp
  have w': "w' = w\<lparr>wCl := t2, wWriter := (wWriter w)(i := if ok then Some a else None)\<rparr>"
    using assms(4) q i c by (auto simp: exec_take_def Let_def split: if_splits)
  have "client_step (wOwner w) (wCl w) (wOwner w') (wCl w')" using w' s2 by simp
  then show ?thesis
    by (rule world_inv_client [OF assms(1-3)]) (use w' aq(1) claim(2) in \<open>auto split: if_splits\<close>)
qed

lemma exec_recv_inv:
  assumes "world_inv w" "prompt w" "prompt w'" "exec_recv i data now w = Some w'"
  shows "world_inv w'"
proof -
  have i0: "client_inv (wOwner w) (wCl w)" using assms(1) by (simp add: world_inv_def)
  have i: "i < length (ltConns (wCl w))" using assms(4) by (auto simp: exec_recv_def split: if_splits)
  obtain res t where r: "read_turn now i data (wCl w) = (Ok res, t)"
    using assms(4) by (auto simp: exec_recv_def split: if_splits go.splits prod.splits)
  note turn = step_read_turn [OF i0 i r]
  have w': "w' = (case res of None \<Rightarrow> w\<lparr>wCl := t\<rparr> | Some call \<Rightarrow> w\<lparr>wCl := t, wReader := (wReader w)(i \<mapsto> (call, data))\<rparr>)"
    using assms(4) r by (auto simp: exec_recv_def split: if_splits option.splits)
  have "client_step (wOwner w) (wCl w) (wOwner w') (wCl w')" using w' turn(1) by (auto split: option.splits)
  then show ?thesis
    by (rule world_inv_client [OF assms(1-3)]) (use w' turn(2,4) in \<open>auto split: option.splits if_splits\<close>)
qed

lemma call_exec_inv:
  assumes "world_inv w" "prompt w" "prompt w'" "call_exec x w = Some w'"
  shows "world_inv w'"
proof -
  have i0: "client_inv (wOwner w) (wCl w)" using assms(1) by (simp add: world_inv_def)
  note frame = world_inv_client [OF assms(1-3)]
  show ?thesis
  proof (cases x)
    case (ACall k i seq buf sel)
    then show ?thesis using exec_call_inv [OF assms(1-3)] assms(4) by simp
  next
    case (ASend i buf sel)
    then show ?thesis using exec_send_inv [OF assms(1-3)] assms(4) by simp
  next
    case (ASelect k)
    then obtain cl where cl: "wCallers w k = Some cl" "clPc cl = BeforeSelect"
      "w' = set_caller k (cl\<lparr>clPc := Selecting (msgCall (ltMsgs (wCl w) (clMsg cl)))\<rparr>) w"
      using assms(4) by (auto split: option.splits if_splits)
    have "caller_inv (wOwner w) (wCl w) (cl\<lparr>clPc := Selecting (msgCall (ltMsgs (wCl w) (clMsg cl)))\<rparr>)"
    proof -
      have "caller_inv (wOwner w) (wCl w) cl" using assms(1) cl(1) by (simp add: world_inv_def)
      then show ?thesis using cl(2) i0 by (auto simp: caller_inv_def client_inv_def split: option.splits)
    qed
    then show ?thesis using cl client_step_refl [OF i0] by (intro frame) (auto simp: set_caller_def split: if_splits)
  next
    case (ATake i)
    then show ?thesis using exec_take_inv [OF assms(1-3)] assms(4) by simp
  next
    case (AWritten i ok)
    then obtain a where a: "wWriter w i = Some a" "i < length (ltConns (wCl w))"
      "w' = w\<lparr>wCl := write_finish ok i a (wCl w), wWriter := (wWriter w)(i := None)\<rparr>"
      using assms(4) by (auto split: option.splits if_splits)
    then have "client_step (wOwner w) (wCl w) (wOwner w') (wCl w')"
      using step_write_finish [OF i0 a(2)] assms(1) by (auto simp: world_inv_def)
    then show ?thesis using a(3) by (intro frame) (auto split: if_splits)
  next
    case (ARecv i data now)
    then show ?thesis using exec_recv_inv [OF assms(1-3)] assms(4) by simp
  next
    case (ADeliver i k)
    then obtain ch data cl where d: "wReader w i = Some (Some ch, data)" "wCallers w k = Some cl" "clPc cl = Selecting (Some ch)"
      "w' = set_caller k (cl\<lparr>clPc := Answered data\<rparr>) (w\<lparr>wReader := (wReader w)(i := None)\<rparr>)"
      using assms(4) by (auto split: option.splits if_splits)
    have "caller_inv (wOwner w) (wCl w) cl" using assms(1) d(2) by (simp add: world_inv_def)
    then have "wOwner w ch = clSeq cl" using d(3) by (simp add: caller_inv_def)
    moreover have "answers data (wOwner w ch)" using assms(1) d(1) by (auto simp: world_inv_def)
    ultimately have "caller_inv (wOwner w) (wCl w) (cl\<lparr>clPc := Answered data\<rparr>)" by (simp add: caller_inv_def)
    then show ?thesis using d client_step_refl [OF i0] by (intro frame) (auto simp: set_caller_def split: if_splits)
  next
    case (AExpire k)
    then obtain cl where cl: "wCallers w k = Some cl" "clConn cl < length (ltConns (wCl w))"
      "w' = set_caller k (cl\<lparr>clPc := CallError ContextDeadlineExceeded\<rparr>)
         (w\<lparr>wCl := lc_delete (clConn cl) (clMsg cl) (wCl w)\<rparr>)"
      using assms(4) by (auto split: option.splits if_splits call_pc.splits)
    then show ?thesis using step_delete [OF i0 cl(2)]
      by (intro frame) (auto simp: set_caller_def caller_inv_def split: if_splits)
  next
    case (ARetry i env now conn)
    then have r: "i < length (ltConns (wCl w))"
      "w' = w\<lparr>wCl := set_conn i (lc_retry env now conn) (wCl w), wReader := (wReader w)(i := None)\<rparr>"
      using assms(4) by (auto split: if_splits)
    then show ?thesis using step_retry [OF i0 r(1)] by (intro frame) (auto split: if_splits)
  next
    case (AClose i now)
    then have r: "i < length (ltConns (wCl w))"
      "w' = w\<lparr>wCl := lc_close now i (wCl w), wReader := (wReader w)(i := None)\<rparr>"
      using assms(4) by (auto split: if_splits)
    then show ?thesis using step_close [OF i0 r(1)] by (intro frame) (auto split: if_splits)
  qed
qed

lemma prompt_reach_inv:
  assumes "prompt_reach w0 w" "world_inv w0"
  shows "world_inv w \<and> prompt w"
  using assms
proof (induction rule: prompt_reach.induct)
  case (prompt_next w w')
  then show ?case using call_exec_inv by (auto elim: call_stepE)
qed simp

text \<open>A client whose connections are as \<open>newConn\<close> and \<open>dial\<close> leave them.\<close>

definition fresh_client :: "lconn list \<Rightarrow> lclient" where
  "fresh_client cs = NewClient\<lparr>ltConns := cs\<rparr>"

lemma fresh_client_inv:
  "\<forall>c \<in> set cs. lcQueue c = [] \<and> lcPending c = newPending \<Longrightarrow> world_inv (start_world (fresh_client cs))"
  by (auto simp: world_inv_def start_world_def fresh_client_def NewClient_def client_inv_def conn_inv_def zero_message_def
      newPending_abs)

section \<open>A call that is answered\<close>

lemma pending_extract_stored:
  assumes "pending_ok p"
  shows "pending_extract seq (pending_store seq call p) = (Some call, snd (pending_extract seq (pending_store seq call p)))"
proof -
  note ok = pending_ops(5) [OF assms, of seq call]
  have "fst (pending_extract seq (pending_store seq call p)) = Some call"
    unfolding pending_ops(3) [OF ok] pending_ops(1) [OF assms] by simp
  then show ?thesis by (metis prod.collapse)
qed

lemma call_completes_run:
  assumes "i < length (ltConns (wCl w))" "lcQueue (ltConns (wCl w) ! i) = a # q" "wWriter w i = None" "wReader w i = None"
    and "pending_ok (lcPending (ltConns (wCl w) ! i))" "wCallers w k = Some cl" "clPc cl = Selecting (Some ch)"
    and "ltMsgs (wCl w) a = \<lparr>msgSeq = seq, msgBuf = b, msgCall = Some ch, msgState = StatePending\<rparr>" "seq \<noteq> 0" "answers data seq"
  shows "\<exists>w'. call_run [ATake i, AWritten i True, ARecv i data now, ADeliver i k] w = Some w' \<and>
           wCallers w' k = Some (cl\<lparr>clPc := Answered data\<rparr>) \<and> a \<in> set (ltPool (wCl w'))"
proof -
  obtain p where "pending_extract seq (pending_store seq (Some ch) (lcPending (ltConns (wCl w) ! i))) = (Some (Some ch), p)"
    using pending_extract_stored [OF assms(5)] by blast
  then show ?thesis
    using assms
    by (auto simp: exec_take_def exec_recv_def write_claim_def write_finish_def read_turn_def answers_def set_caller_def Let_def)
qed

text \<open>Frames and buffers for the examples below.\<close>

definition sample_frame :: "uint8 \<Rightarrow> bytes" where
  "sample_frame seq = [0, 0, 0, 10, 0, 1, 0, 0, 0, 0, 0, 0, 0, seq]"

definition sample_conn :: lconn where
  "sample_conn = (newConn 0)\<lparr>lcState := ConnOpened, lcNet := Some 7, lcCtx := Some False, lcCancel := True\<rparr>"

lemma sample_frame_answers: "answers (sample_frame 5) 5" "answers (sample_frame 6) 6"
  unfolding answers_def sample_frame_def by (rule exI [of _ 1], code_simp)+

lemma sample_parse: "ParseBuffer (sample_frame 5) = Ok (False, 1, 5)" "ParseBuffer (sample_frame 6) = Ok (False, 1, 6)"
  by code_simp+

lemma sample_pending: "pending_extract 5 (pending_store 5 c newPending) = (Some c, newPending[5 := Map.empty(5 := None)])"
  by (simp add: pending_extract_def pending_store_def pending_index_def newPending_def partition_extract_def partition_store_def Let_def)

lemmas run_defs = start_world_def fresh_client_def NewClient_def sample_conn_def newConn_def exec_call_def msg_get_def
  call_prepare_def lc_enqueue_def set_caller_def set_msg_def set_conn_def exec_take_def write_claim_def write_finish_def
  msg_release_def exec_recv_def read_turn_def zero_message_def Let_def

text \<open>A run all of whose states are prompt.\<close>

fun prompt_runs :: "call_act list \<Rightarrow> world \<Rightarrow> world \<Rightarrow> bool" where
  "prompt_runs [] w w' \<longleftrightarrow> prompt w \<and> w' = w"
| "prompt_runs (x # xs) w w' \<longleftrightarrow> prompt w \<and> (case call_exec x w of Some w1 \<Rightarrow> prompt_runs xs w1 w' | None \<Rightarrow> False)"

lemma prompt_runs_start: "prompt_runs xs w w' \<Longrightarrow> prompt w"
  by (cases xs) auto

lemma prompt_runs_reach: "prompt_reach w0 w \<Longrightarrow> prompt_runs xs w w' \<Longrightarrow> prompt_reach w0 w'"
proof (induction xs arbitrary: w)
  case (Cons x xs)
  then obtain w1 where x: "call_exec x w = Some w1" "prompt_runs xs w1 w'" by (auto split: option.splits)
  have "prompt_reach w0 w1" using Cons.prems(1) call_step.intros [OF x(1)] prompt_runs_start [OF x(2)] by (rule prompt_next)
  then show ?case using Cons.IH x(2) by simp
qed simp

section \<open>Properties\<close>

text \<open>C19. Responses reach the calls they answer.  In every interleaving of callers, write loops, read
  loops, timeouts, reconnections and closings in which no caller loses its message before it
  evaluates its channel, a call that returns a response returns one with its own sequence number.\<close>

theorem call_answers_match:
  assumes "\<forall>c \<in> set cs. lcQueue c = [] \<and> lcPending c = newPending"
    and "prompt_reach (start_world (fresh_client cs)) w" "wCallers w k = Some cl" "clPc cl = Answered data"
  shows "\<exists>route. ParseBuffer data = Ok (False, route, clSeq cl)"
proof -
  have "world_inv w" using prompt_reach_inv [OF assms(2) fresh_client_inv [OF assms(1)]] by simp
  then have "caller_inv (wOwner w) (wCl w) cl" using assms(3) by (simp add: world_inv_def)
  then show ?thesis using assms(4) by (simp add: caller_inv_def answers_def)
qed

theorem call_answers_match_witness:
  "\<exists>w. prompt_reach (start_world (fresh_client [sample_conn])) w \<and>
     wCallers w 0 = Some \<lparr>clConn = 0, clMsg = 0, clSeq = 5, clPc = Answered (sample_frame 5)\<rparr> \<and>
     (\<exists>route. ParseBuffer (sample_frame 5) = Ok (False, route, 5))"
proof -
  let ?w0 = "start_world (fresh_client [sample_conn])"
  let ?cl = "\<lparr>clConn = 0, clMsg = 0, clSeq = 5, clPc = Answered (sample_frame 5)\<rparr>"
  obtain w where r: "prompt_runs [ACall 0 0 5 empty_nocopy (\<lambda>_. None), ASelect 0, ATake 0, AWritten 0 True,
        ARecv 0 (sample_frame 5) 0, ADeliver 0 0] ?w0 w"
    and c: "wCallers w 0 = Some ?cl"
    by (atomize_elim) (simp add: run_defs prompt_def sample_pending sample_parse)
  have "prompt_reach ?w0 ?w0" using prompt_runs_start [OF r] by (rule prompt_start)
  then have reach: "prompt_reach ?w0 w" using r by (rule prompt_runs_reach)
  have "\<forall>c \<in> set [sample_conn]. lcQueue c = [] \<and> lcPending c = newPending"
    by (simp add: sample_conn_def newConn_def)
  from call_answers_match [OF this reach c] show ?thesis using reach c by auto
qed


definition waiting_world :: world where
  "waiting_world =
     \<lparr>wCl = (fresh_client [sample_conn\<lparr>lcQueue := [0]\<rparr>])\<lparr>ltChans := 1,
        ltMsgs := (\<lambda>_. \<lparr>msgSeq = 5, msgBuf = Some empty_nocopy, msgCall = Some 0, msgState = StatePending\<rparr>)\<rparr>,
      wCallers = [0 \<mapsto> \<lparr>clConn = 0, clMsg = 0, clSeq = 5, clPc = Selecting (Some 0)\<rparr>], wWriter = Map.empty,
      wReader = Map.empty, wOwner = (\<lambda>_. 5)\<rparr>"


section \<open>Faults\<close>

definition foreign_run :: "call_act list" where
  "foreign_run =
     [ACall 0 0 5 empty_nocopy (\<lambda>_. None), ATake 0, AWritten 0 True,
      ACall 1 0 6 empty_nocopy (\<lambda>_. Some 0), ASelect 0, ATake 0, AWritten 0 True,
      ARecv 0 (sample_frame 6) 0, ADeliver 0 0]"

lemma foreign_run_result:
  "map_option (\<lambda>w. (map_option clSeq (wCallers w 0), map_option clPc (wCallers w 0)))
     (call_run foreign_run (start_world (fresh_client [sample_conn]))) = Some (Some 5, Some (Answered (sample_frame 6)))"
  by code_simp

text \<open>Without that condition a call can return the response to another call: the write loop releases
  the message of call 5 before its caller evaluates \<open>msg.call\<close>, call 6 gets the same message from the
  pool, and the caller of 5 then waits on the channel of 6.\<close>

theorem call_takes_foreign_answer:
  "\<exists>w cl. call_run foreign_run (start_world (fresh_client [sample_conn])) = Some w \<and> wCallers w 0 = Some cl \<and>
     clSeq cl = 5 \<and> clPc cl = Answered (sample_frame 6) \<and> ParseBuffer (sample_frame 6) = Ok (False, 1, 6)"
  using foreign_run_result sample_parse(2) by auto

definition stuck_run :: "call_act list" where
  "stuck_run =
     [ACall 0 0 5 empty_nocopy (\<lambda>_. None), ASelect 0, ATake 0, AWritten 0 True, ARecv 0 (sample_frame 5) 0, AExpire 0]"

lemma stuck_run_result:
  "map_option (\<lambda>w. (wReader w 0, map_option clPc (wCallers w 0)))
     (call_run stuck_run (start_world (fresh_client [sample_conn]))) =
   Some (Some (Some 0, sample_frame 5), Some (CallError ContextDeadlineExceeded))"
  by code_simp

text \<open>A timeout that comes while the read loop hands a response over leaves the loop waiting for a
  receiver that is gone: no further frame is read on that connection until it is closed or dialled
  again.\<close>

theorem expired_call_blocks_reader:
  "\<exists>w. call_run stuck_run (start_world (fresh_client [sample_conn])) = Some w \<and> call_exec (ADeliver 0 0) w = None \<and>
     (\<forall>data now. call_exec (ARecv 0 data now) w = None)"
proof -
  obtain w where w: "call_run stuck_run (start_world (fresh_client [sample_conn])) = Some w"
      "wReader w 0 = Some (Some 0, sample_frame 5)" "map_option clPc (wCallers w 0) = Some (CallError ContextDeadlineExceeded)"
    using stuck_run_result by auto
  then show ?thesis by (auto simp: exec_recv_def)
qed

end
