(* ===== verification/NodeActor.thy ===== *)
theory NodeActor
  imports Prelude "HOL-Library.AList"
begin

text \<open>
  \<open>cluster/node\<close>, first part: the contexts a node passes to its handlers (\<open>request.go\<close>, \<open>event.go\<close>, with the
  defer chain of \<open>core/chains\<close>), actors (\<open>actor.go\<close>) and the scheduler that binds users to actors
  (\<open>scheduler.go\<close>).  Contexts and actors are objects that are shared by reference; they live in two stores
  and are named by their index.  A user function (handler, deferred call) is named by a number.

  A context carries a version.  Whoever works on it remembers the version it started with; passing the
  context on raises the version, and only the last holder, whose version is still the current one, runs
  the deferred calls and gives the object back to its pool.
\<close>

section \<open>State\<close>

datatype ctx_kind = RequestKind | EventKind

record 'd nctx =
  cxKind :: ctx_kind
  cxGid :: string
  cxNid :: string
  cxPid :: string
  cxCid :: int64
  cxUid :: int64
  cxMetadata :: "(string \<times> string) list"
  cxSeq :: int32
  cxGameID :: int32
  cxMessageID :: int32
  cxData :: "'d option"
  cxEvent :: int
  cxVersion :: int32
  cxChain :: "nat list option"
  cxActor :: "nat option"

text \<open>What an actor's own goroutine is asked to run through \<open>fnChan\<close>.\<close>

datatype actor_fn = FnDefault nat | FnRoute int32 nat | FnEvent int nat | FnCall nat

abbreviation (input) act_unstart :: nat where
  "act_unstart \<equiv> 0"

abbreviation (input) act_started :: nat where
  "act_started \<equiv> 1"

abbreviation (input) act_destroyed :: nat where
  "act_destroyed \<equiv> 2"

record actor =
  acKind :: string
  acID :: string
  acWait :: bool
  acDispatch :: bool
  acState :: nat
  acRoutes :: "(int32 \<times> nat) list"
  acEvents :: "(int \<times> nat) list"
  acDefault :: "nat option"
  acMailbox :: "nat list"
  acFns :: "actor_fn list"
  acBinds :: "int64 set"

text \<open>The parts of \<open>Node\<close> that contexts and actors work on, and the scheduler.  \<open>nnRuns\<close> are the handlers
  that are running: the context of each and the version it remembers.\<close>

record 'd nnode =
  nnID :: string
  nnState :: int
  nnWait :: int
  nnMailboxTimeout :: int
  nnDeliverTimeout :: int
  nnCtxs :: "'d nctx list"
  nnReqPool :: "nat list"
  nnEvtPool :: "nat list"
  nnReqChan :: "nat list"
  nnEvtChan :: "nat list"
  nnRuns :: "(nat \<times> int32) list"
  nnActors :: "actor list"
  schActors :: "(string \<times> nat) list"
  schRoutes :: "(int32 \<times> string) list"
  schKinds :: "string list"
  schRelations :: "int64 \<rightharpoonup> (string \<rightharpoonup> nat)"

text \<open>\<open>cluster.Shut\<close> is 0.  A wait group panics when its counter becomes negative.\<close>

definition addWait :: "'d nnode \<Rightarrow> 'd nnode" where
  "addWait n = (if nnState n \<noteq> 0 then n\<lparr>nnWait := nnWait n + 1\<rparr> else n)"

definition doneWait :: "'d nnode \<Rightarrow> 'd nnode go" where
  "doneWait n =
     (if nnState n \<noteq> 0
      then if nnWait n - 1 < 0 then Panic else Ok (n\<lparr>nnWait := nnWait n - 1\<rparr>)
      else Ok n)"

definition upd_ctx :: "nat \<Rightarrow> ('d nctx \<Rightarrow> 'd nctx) \<Rightarrow> 'd nnode \<Rightarrow> 'd nnode" where
  "upd_ctx c f n = n\<lparr>nnCtxs := (nnCtxs n)[c := f (nnCtxs n ! c)]\<rparr>"

definition upd_actor :: "nat \<Rightarrow> (actor \<Rightarrow> actor) \<Rightarrow> 'd nnode \<Rightarrow> 'd nnode" where
  "upd_actor a f n = n\<lparr>nnActors := (nnActors n)[a := f (nnActors n ! a)]\<rparr>"

abbreviation the_ctx :: "'d nnode \<Rightarrow> nat \<Rightarrow> 'd nctx" where
  "the_ctx n c \<equiv> nnCtxs n ! c"

abbreviation the_actor :: "'d nnode \<Rightarrow> nat \<Rightarrow> actor" where
  "the_actor n a \<equiv> nnActors n ! a"

section \<open>Contexts\<close>

definition chain_AddToHead :: "nat \<Rightarrow> nat list \<Rightarrow> nat list" where
  "chain_AddToHead fn ch = fn # ch"

definition chain_AddToTail :: "nat \<Rightarrow> nat list \<Rightarrow> nat list" where
  "chain_AddToTail fn ch = ch @ [fn]"

text \<open>The functions run, and the chain left.\<close>

definition chain_FireHead :: "nat list \<Rightarrow> nat list \<times> nat list" where
  "chain_FireHead ch = (ch, [])"

definition chain_FireTail :: "nat list \<Rightarrow> nat list \<times> nat list" where
  "chain_FireTail ch = (rev ch, [])"

definition ctx_Defer :: "nat \<Rightarrow> bool \<Rightarrow> 'd nctx \<Rightarrow> 'd nctx" where
  "ctx_Defer fn bottom x =
     (let ch = (case cxChain x of None \<Rightarrow> [] | Some ch \<Rightarrow> ch)
      in x\<lparr>cxChain := Some (if bottom then chain_AddToTail fn ch else chain_AddToHead fn ch)\<rparr>)"

definition ctx_Cancel :: "'d nctx \<Rightarrow> 'd nctx" where
  "ctx_Cancel x = x\<lparr>cxChain := map_option (\<lambda>_. []) (cxChain x)\<rparr>"

definition ctx_incrVersion :: "nat \<Rightarrow> 'd nnode \<Rightarrow> int32 \<times> 'd nnode" where
  "ctx_incrVersion c n =
     (let n = upd_ctx c (\<lambda>x. x\<lparr>cxVersion := cxVersion x + 1\<rparr>) n in (cxVersion (the_ctx n c), n))"

text \<open>The deferred functions that run, and the context after.\<close>

definition compareVersionExecDefer :: "int32 \<Rightarrow> 'd nctx \<Rightarrow> nat list \<times> 'd nctx" where
  "compareVersionExecDefer version x =
     (case cxChain x of
        None \<Rightarrow> ([], x)
      | Some ch \<Rightarrow>
          if cxVersion x = version
          then let (fired, rest) = chain_FireHead ch in (fired, x\<lparr>cxChain := Some rest\<rparr>)
          else ([], x))"

definition ctx_reset :: "'d nctx \<Rightarrow> 'd nctx" where
  "ctx_reset x =
     (let x = (if cxKind x = RequestKind then x\<lparr>cxData := None, cxMetadata := []\<rparr> else x)
      in x\<lparr>cxActor := None, cxChain := None\<rparr>)"

definition pool_put :: "nat \<Rightarrow> 'd nnode \<Rightarrow> 'd nnode" where
  "pool_put c n =
     (if cxKind (the_ctx n c) = RequestKind then n\<lparr>nnReqPool := c # nnReqPool n\<rparr> else n\<lparr>nnEvtPool := c # nnEvtPool n\<rparr>)"

text \<open>\<open>postRouteHandler\<close>, a user function, runs between the exchange of the version and the reset.\<close>

definition compareVersionRecycle :: "nat \<Rightarrow> int32 \<Rightarrow> 'd nnode \<Rightarrow> 'd nnode" where
  "compareVersionRecycle c version n =
     (if cxVersion (the_ctx n c) = version
      then pool_put c (upd_ctx c (\<lambda>x. ctx_reset (x\<lparr>cxVersion := 0\<rparr>)) n)
      else n)"

definition new_ctx :: "ctx_kind \<Rightarrow> 'd nctx" where
  "new_ctx k = \<lparr>cxKind = k, cxGid = '''', cxNid = '''', cxPid = '''', cxCid = 0, cxUid = 0, cxMetadata = [], cxSeq = 0,
     cxGameID = 0, cxMessageID = 0, cxData = None, cxEvent = 0, cxVersion = 0, cxChain = None, cxActor = None\<rparr>"

text \<open>\<open>sync.Pool.Get\<close> returns some object of the pool or a new one; \<open>pick\<close> is its choice.\<close>

definition pool_of :: "ctx_kind \<Rightarrow> 'd nnode \<Rightarrow> nat list" where
  "pool_of k n = (case k of RequestKind \<Rightarrow> nnReqPool n | EventKind \<Rightarrow> nnEvtPool n)"

definition set_pool :: "ctx_kind \<Rightarrow> nat list \<Rightarrow> 'd nnode \<Rightarrow> 'd nnode" where
  "set_pool k p n = (case k of RequestKind \<Rightarrow> n\<lparr>nnReqPool := p\<rparr> | EventKind \<Rightarrow> n\<lparr>nnEvtPool := p\<rparr>)"

definition pool_get :: "ctx_kind \<Rightarrow> nat option \<Rightarrow> 'd nnode \<Rightarrow> nat \<times> 'd nnode" where
  "pool_get k pick n =
     (case pick of
        Some c \<Rightarrow> if c \<in> set (pool_of k n) then (c, set_pool k (remove1 c (pool_of k n)) n)
                  else (length (nnCtxs n), n\<lparr>nnCtxs := nnCtxs n @ [new_ctx k]\<rparr>)
      | None \<Rightarrow> (length (nnCtxs n), n\<lparr>nnCtxs := nnCtxs n @ [new_ctx k]\<rparr>))"

text \<open>A clone is a new object outside the pools, with version 0 and no chain; an event's clone has no event kind.\<close>

definition ctx_Clone :: "'d nctx \<Rightarrow> 'd nctx" where
  "ctx_Clone x =
     (case cxKind x of
        RequestKind \<Rightarrow> (new_ctx RequestKind)\<lparr>cxGid := cxGid x, cxNid := cxNid x, cxCid := cxCid x, cxUid := cxUid x,
           cxMetadata := cxMetadata x, cxSeq := cxSeq x, cxGameID := cxGameID x, cxMessageID := cxMessageID x,
           cxData := cxData x, cxActor := cxActor x\<rparr>
      | EventKind \<Rightarrow> (new_ctx EventKind)\<lparr>cxGid := cxGid x, cxCid := cxCid x, cxUid := cxUid x, cxActor := cxActor x\<rparr>)"

section \<open>Actors\<close>

definition pid_of :: "string \<Rightarrow> string \<Rightarrow> string" where
  "pid_of kind aid = kind @ ''/'' @ aid"

definition actor_PID :: "actor \<Rightarrow> string" where
  "actor_PID a = pid_of (acKind a) (acID a)"

abbreviation (input) mailbox_cap :: nat where
  "mailbox_cap \<equiv> 4096"

text \<open>\<open>Invoke\<close> and the callback of \<open>AfterInvoke\<close>: a full channel drops the function.\<close>

definition actor_Invoke :: "nat \<Rightarrow> actor \<Rightarrow> actor" where
  "actor_Invoke fn a =
     (if acState a \<noteq> act_started then a
      else if length (acFns a) < mailbox_cap then a\<lparr>acFns := acFns a @ [FnCall fn]\<rparr> else a)"

text \<open>The callback of \<open>AfterFunc\<close>: whether the function runs.\<close>

definition actor_AfterFunc_fires :: "actor \<Rightarrow> bool" where
  "actor_AfterFunc_fires a \<longleftrightarrow> acState a = act_started"

text \<open>\<open>SetDefaultRouteHandler\<close>, \<open>AddRouteHandler\<close> and \<open>AddEventHandler\<close>; \<open>None\<close> when the send on the full
  channel waits.\<close>

definition actor_register :: "actor_fn \<Rightarrow> actor \<Rightarrow> actor option" where
  "actor_register fn a =
     (if acState a = act_unstart
      then Some (case fn of
             FnDefault h \<Rightarrow> a\<lparr>acDefault := Some h\<rparr>
           | FnRoute route h \<Rightarrow> a\<lparr>acRoutes := AList.update route h (acRoutes a)\<rparr>
           | FnEvent evt h \<Rightarrow> a\<lparr>acEvents := AList.update evt h (acEvents a)\<rparr>
           | FnCall h \<Rightarrow> a)
      else if acState a = act_started
      then if length (acFns a) < mailbox_cap then Some (a\<lparr>acFns := acFns a @ [fn]\<rparr>) else None
      else Some a)"

text \<open>\<open>Next\<close>; \<open>None\<close> when the send waits for room without a time limit.  With a limit, a mailbox that
  stays full until the timer fires drops the message.\<close>

definition actor_Next :: "nat \<Rightarrow> nat \<Rightarrow> 'd nnode \<Rightarrow> (goerr option \<times> 'd nnode) option" where
  "actor_Next a c n =
     (if acState (the_actor n a) \<noteq> act_started then Some (Some ErrNotFoundActor, n)
      else
        let n = upd_ctx c (\<lambda>x. x\<lparr>cxActor := Some a\<rparr>) n;
            n = snd (ctx_incrVersion c n);
            n = upd_ctx c ctx_Cancel n
        in if length (acMailbox (the_actor n a)) < mailbox_cap
           then Some (None, upd_actor a (\<lambda>x. x\<lparr>acMailbox := acMailbox x @ [c]\<rparr>) n)
           else if nnMailboxTimeout n \<le> 0 then None
           else Some (Some ErrMailboxFull, n))"

text \<open>One turn of \<open>dispatch\<close> on the mailbox: the context, its version and the handler found.  The handler
  then runs, and \<open>run_finish\<close> ends the turn.\<close>

definition actor_handler :: "actor \<Rightarrow> 'd nctx \<Rightarrow> nat option" where
  "actor_handler a x =
     (if cxKind x = EventKind then map_of (acEvents a) (cxEvent x)
      else case map_of (acRoutes a) (cxMessageID x) of Some h \<Rightarrow> Some h | None \<Rightarrow> acDefault a)"

definition actor_take :: "nat \<Rightarrow> 'd nnode \<Rightarrow> ((nat \<times> int32 \<times> nat option) \<times> 'd nnode) option" where
  "actor_take a n =
     (case acMailbox (the_actor n a) of
        [] \<Rightarrow> None
      | c # cs \<Rightarrow>
          let version = cxVersion (the_ctx n c); n = upd_actor a (\<lambda>x. x\<lparr>acMailbox := cs\<rparr>) n
          in Some ((c, version, actor_handler (the_actor n a) (the_ctx n c)), n\<lparr>nnRuns := (c, version) # nnRuns n\<rparr>))"

text \<open>The end of a handler: the deferred calls if a handler ran, and the recycling.\<close>

definition run_finish :: "nat \<Rightarrow> int32 \<Rightarrow> bool \<Rightarrow> 'd nnode \<Rightarrow> nat list \<times> 'd nnode" where
  "run_finish c version handled n =
     (let n = n\<lparr>nnRuns := remove1 (c, version) (nnRuns n)\<rparr>;
          (fired, x) = (if handled then compareVersionExecDefer version (the_ctx n c) else ([], the_ctx n c));
          n = upd_ctx c (\<lambda>_. x) n
      in (fired, compareVersionRecycle c version n))"

text \<open>One turn of \<open>dispatch\<close> on \<open>fnChan\<close>; \<open>FnCall\<close> runs a user function.\<close>

definition actor_run_fn :: "nat \<Rightarrow> 'd nnode \<Rightarrow> 'd nnode option" where
  "actor_run_fn a n =
     (case acFns (the_actor n a) of
        [] \<Rightarrow> None
      | fn # fns \<Rightarrow>
          let n = upd_actor a (\<lambda>x. x\<lparr>acFns := fns\<rparr>) n
          in Some (case fn of
               FnDefault h \<Rightarrow> upd_actor a (\<lambda>x. x\<lparr>acDefault := Some h\<rparr>) n
             | FnRoute route h \<Rightarrow>
                 let n = upd_actor a (\<lambda>x. x\<lparr>acRoutes := AList.update route h (acRoutes x)\<rparr>) n
                 in if acDispatch (the_actor n a)
                    then n\<lparr>schRoutes := AList.update route (acKind (the_actor n a)) (schRoutes n)\<rparr> else n
             | FnEvent evt h \<Rightarrow> upd_actor a (\<lambda>x. x\<lparr>acEvents := AList.update evt h (acEvents x)\<rparr>) n
             | FnCall h \<Rightarrow> n))"

definition actor_bindUser :: "int64 \<Rightarrow> actor \<Rightarrow> actor" where
  "actor_bindUser uid a = a\<lparr>acBinds := insert uid (acBinds a)\<rparr>"

definition actor_unbindUser :: "int64 \<Rightarrow> actor \<Rightarrow> bool \<times> actor" where
  "actor_unbindUser uid a = (uid \<in> acBinds a, a\<lparr>acBinds := acBinds a - {uid}\<rparr>)"

text \<open>\<open>delete(relations[uid], kind)\<close> for the users the actor remembers.\<close>

definition unbind_all :: "int64 set \<Rightarrow> string \<Rightarrow> (int64 \<rightharpoonup> (string \<rightharpoonup> nat)) \<Rightarrow> (int64 \<rightharpoonup> (string \<rightharpoonup> nat))" where
  "unbind_all uids kind rels = (\<lambda>uid. map_option (\<lambda>rel. if uid \<in> uids then rel(kind := None) else rel) (rels uid))"

definition actor_destroy :: "nat \<Rightarrow> 'd nnode \<Rightarrow> bool \<times> 'd nnode" where
  "actor_destroy a n =
     (let x = the_actor n a
      in if acState x \<noteq> act_started then (False, n)
         else (True, (upd_actor a (\<lambda>x. x\<lparr>acState := act_destroyed, acRoutes := [], acEvents := [], acDefault := None\<rparr>) n)
                 \<lparr>schRelations := unbind_all (acBinds x) (acKind x) (schRelations n)\<rparr>))"

section \<open>The scheduler\<close>

definition sch_doLoad :: "string \<Rightarrow> 'd nnode \<Rightarrow> nat option" where
  "sch_doLoad pid n = map_of (schActors n) pid"

definition sch_load :: "string \<Rightarrow> string \<Rightarrow> 'd nnode \<Rightarrow> nat option" where
  "sch_load kind aid n = sch_doLoad (pid_of kind aid) n"

text \<open>\<open>regs\<close> are the handlers that the creator and \<open>Init\<close> register; \<open>None\<close> when that waits for ever,
  because the goroutine that would serve \<open>fnChan\<close> is started later.\<close>

fun register_all :: "actor_fn list \<Rightarrow> actor \<Rightarrow> actor option" where
  "register_all [] a = Some a"
| "register_all (fn # fns) a = Option.bind (actor_register fn a) (register_all fns)"

definition new_actor :: "string \<Rightarrow> string \<Rightarrow> bool \<Rightarrow> bool \<Rightarrow> actor" where
  "new_actor kind aid wait disp = \<lparr>acKind = kind, acID = aid, acWait = wait, acDispatch = disp, acState = act_started,
     acRoutes = [], acEvents = [], acDefault = None, acMailbox = [], acFns = [], acBinds = {}\<rparr>"

definition sch_register :: "nat \<Rightarrow> 'd nnode \<Rightarrow> 'd nnode" where
  "sch_register a n =
     (let x = the_actor n a;
          n = (if acDispatch x \<and> acKind x \<notin> set (schKinds n)
               then n\<lparr>schKinds := acKind x # schKinds n,
                      schRoutes := fold (\<lambda>route. AList.update route (acKind x)) (map fst (acRoutes x)) (schRoutes n)\<rparr>
               else n)
      in n\<lparr>schActors := AList.update (actor_PID x) a (schActors n)\<rparr>)"

definition sch_spawn :: "string \<Rightarrow> string \<Rightarrow> bool \<Rightarrow> bool \<Rightarrow> actor_fn list \<Rightarrow> actor_fn list \<Rightarrow> 'd nnode \<Rightarrow> (nat go \<times> 'd nnode) option" where
  "sch_spawn kind aid wait disp created init n =
     Option.bind (register_all created (new_actor kind aid wait disp)) (\<lambda>x.
       let a = length (nnActors n); n = n\<lparr>nnActors := nnActors n @ [x]\<rparr>
       in if sch_load kind aid n \<noteq> None then Some (Err ErrActorExists, n)
          else let n = (if wait then addWait n else n)
               in map_option (\<lambda>x. (Ok a, sch_register a (upd_actor a (\<lambda>_. x) n))) (register_all init x))"

text \<open>The bindings without those to an actor of a kind.\<close>

definition drop_actor :: "nat \<Rightarrow> string \<Rightarrow> (int64 \<rightharpoonup> (string \<rightharpoonup> nat)) \<Rightarrow> (int64 \<rightharpoonup> (string \<rightharpoonup> nat))" where
  "drop_actor a kind rels = (\<lambda>uid. map_option (\<lambda>rel. if rel kind = Some a then rel(kind := None) else rel) (rels uid))"

definition sch_remove :: "string \<Rightarrow> string \<Rightarrow> 'd nnode \<Rightarrow> nat option \<times> 'd nnode" where
  "sch_remove kind aid n =
     (case sch_load kind aid n of
        None \<Rightarrow> (None, n)
      | Some a \<Rightarrow>
          (Some a, n\<lparr>schActors := AList.delete (actor_PID (the_actor n a)) (schActors n),
                     schRelations := drop_actor a (acKind (the_actor n a)) (schRelations n)\<rparr>))"

definition sch_kill :: "string \<Rightarrow> string \<Rightarrow> 'd nnode \<Rightarrow> (bool \<times> 'd nnode) go" where
  "sch_kill kind aid n =
     (case sch_remove kind aid n of
        (None, n) \<Rightarrow> Ok (False, n)
      | (Some a, n) \<Rightarrow>
          let (ok, n) = actor_destroy a n
          in if acWait (the_actor n a) then go_map (Pair ok) (doneWait n) else Ok (ok, n))"

definition actor_Destroy :: "nat \<Rightarrow> 'd nnode \<Rightarrow> bool \<times> 'd nnode" where
  "actor_Destroy a n =
     (let (ok, n) = actor_destroy a n
      in if \<not> ok then (False, n)
         else let (act, n) = sch_remove (acKind (the_actor n a)) (acID (the_actor n a)) n in (act \<noteq> None, n))"

definition bindActor :: "int64 \<Rightarrow> string \<Rightarrow> string \<Rightarrow> 'd nnode \<Rightarrow> goerr option \<times> 'd nnode" where
  "bindActor uid kind aid n =
     (if uid = 0 then (Some ErrIllegalOperation, n)
      else case sch_load kind aid n of
             None \<Rightarrow> (Some ErrNotFoundActor, n)
           | Some a \<Rightarrow>
               let n = upd_actor a (actor_bindUser uid) n;
                   rel = (case schRelations n uid of None \<Rightarrow> Map.empty | Some rel \<Rightarrow> rel)
               in (None, n\<lparr>schRelations := (schRelations n)(uid \<mapsto> rel(acKind (the_actor n a) \<mapsto> a))\<rparr>))"

definition unbindActor :: "int64 \<Rightarrow> string \<Rightarrow> 'd nnode \<Rightarrow> 'd nnode" where
  "unbindActor uid kind n =
     (case schRelations n uid of
        None \<Rightarrow> n
      | Some rel \<Rightarrow>
          (case rel kind of
             None \<Rightarrow> n
           | Some a \<Rightarrow>
               let (ok, x) = actor_unbindUser uid (the_actor n a); n = upd_actor a (\<lambda>_. x) n
               in if \<not> ok then n else n\<lparr>schRelations := (schRelations n)(uid \<mapsto> rel(kind := None))\<rparr>))"

definition loadActor :: "int64 \<Rightarrow> string \<Rightarrow> 'd nnode \<Rightarrow> nat option" where
  "loadActor uid kind n = Option.bind (schRelations n uid) (\<lambda>rel. rel kind)"

definition dispatchRequest :: "nat \<Rightarrow> 'd nnode \<Rightarrow> (goerr option \<times> 'd nnode) option" where
  "dispatchRequest c n =
     (let uid = cxUid (the_ctx n c)
      in if uid = 0 then Some (Some ErrMissingDispatchStrategy, n)
         else case map_of (schRoutes n) (cxMessageID (the_ctx n c)) of
                None \<Rightarrow> Some (Some ErrUnregisterRoute, n)
              | Some kind \<Rightarrow>
                  (case loadActor uid kind n of
                     None \<Rightarrow> Some (Some ErrNotBindActor, n)
                   | Some a \<Rightarrow> actor_Next a c n))"

fun next_all :: "nat list \<Rightarrow> nat \<Rightarrow> 'd nnode \<Rightarrow> 'd nnode option" where
  "next_all [] c n = Some n"
| "next_all (a # as) c n =
     (if acDispatch (the_actor n a) then Option.bind (actor_Next a c n) (\<lambda>(_, n). next_all as c n) else next_all as c n)"

definition dispatchEvent :: "nat \<Rightarrow> 'd nnode \<Rightarrow> (goerr option \<times> 'd nnode) option" where
  "dispatchEvent c n = map_option (Pair None) (next_all (map snd (schActors n)) c n)"

definition sch_dispatch :: "nat \<Rightarrow> 'd nnode \<Rightarrow> (goerr option \<times> 'd nnode) option" where
  "sch_dispatch c n = (if cxKind (the_ctx n c) = RequestKind then dispatchRequest c n else dispatchEvent c n)"

section \<open>Bindings lead to live actors\<close>

text \<open>What the scheduler's invariant looks at.\<close>

definition actor_view :: "actor \<Rightarrow> string \<times> string \<times> nat \<times> int64 set" where
  "actor_view a = (acKind a, acID a, acState a, acBinds a)"

definition sched_view :: "'d nnode \<Rightarrow> (string \<times> string \<times> nat \<times> int64 set) list \<times> (string \<times> nat) list \<times> (int64 \<rightharpoonup> (string \<rightharpoonup> nat))" where
  "sched_view n = (map actor_view (nnActors n), schActors n, schRelations n)"

text \<open>A registered actor is started and stands under its own name; a binding names a registered actor of its kind
  that remembers the user.\<close>

definition registered_ok :: "'d nnode \<Rightarrow> bool" where
  "registered_ok n \<longleftrightarrow> (\<forall>pid a. map_of (schActors n) pid = Some a \<longrightarrow>
     a < length (nnActors n) \<and> actor_PID (the_actor n a) = pid \<and> acState (the_actor n a) = act_started)"

definition bound_ok :: "'d nnode \<Rightarrow> int64 \<Rightarrow> string \<Rightarrow> nat \<Rightarrow> bool" where
  "bound_ok n uid kind a \<longleftrightarrow> a < length (nnActors n) \<and> map_of (schActors n) (actor_PID (the_actor n a)) = Some a \<and>
     acKind (the_actor n a) = kind \<and> uid \<in> acBinds (the_actor n a)"

definition relations_ok :: "'d nnode \<Rightarrow> bool" where
  "relations_ok n \<longleftrightarrow> (\<forall>uid rel kind a. schRelations n uid = Some rel \<longrightarrow> rel kind = Some a \<longrightarrow> bound_ok n uid kind a)"

definition sched_ok :: "'d nnode \<Rightarrow> bool" where
  "sched_ok n \<longleftrightarrow> distinct (map fst (schActors n)) \<and> registered_ok n \<and> relations_ok n"

lemma actor_view_PID: "actor_view x = actor_view y \<Longrightarrow> actor_PID x = actor_PID y"
  by (simp add: actor_view_def actor_PID_def)

lemma sched_ok_view:
  assumes "sched_view n' = sched_view n"
  shows "sched_ok n' = sched_ok n"
proof -
  have len: "length (nnActors n') = length (nnActors n)" and rest: "schActors n' = schActors n" "schRelations n' = schRelations n"
    using assms by (auto simp: sched_view_def dest: map_eq_imp_length_eq)
  have "actor_view (the_actor n' a) = actor_view (the_actor n a)" if "a < length (nnActors n)" for a
    using assms that len by (metis sched_view_def fst_conv nth_map)
  then have same: "acKind (the_actor n' a) = acKind (the_actor n a)" "acState (the_actor n' a) = acState (the_actor n a)"
      "acBinds (the_actor n' a) = acBinds (the_actor n a)" "actor_PID (the_actor n' a) = actor_PID (the_actor n a)"
    if "a < length (nnActors n)" for a
    using that by (simp_all add: actor_view_def actor_PID_def)
  have "registered_ok n' = registered_ok n"
    unfolding registered_ok_def len rest by (intro iff_allI imp_cong conj_cong refl) (simp_all add: same)
  moreover have "relations_ok n' = relations_ok n"
    unfolding relations_ok_def bound_ok_def len rest by (intro iff_allI imp_cong conj_cong refl) (simp_all add: same)
  ultimately show ?thesis using rest by (simp add: sched_ok_def)
qed

named_theorems view_rules \<open>operations that the scheduler's invariant does not see\<close>

lemma view_upd_ctx [simp, view_rules]: "sched_view (upd_ctx c f n) = sched_view n"
  by (simp add: upd_ctx_def sched_view_def)

lemma view_upd_actor [view_rules]:
  "(\<And>x. actor_view (f x) = actor_view x) \<Longrightarrow> sched_view (upd_actor a f n) = sched_view n"
  by (cases "a < length (nnActors n)") (auto simp: upd_actor_def sched_view_def list_eq_iff_nth_eq nth_list_update)

lemma view_fields [simp]:
  "sched_view (n\<lparr>nnRuns := r\<rparr>) = sched_view n" "sched_view (n\<lparr>nnReqPool := p\<rparr>) = sched_view n"
  "sched_view (n\<lparr>nnEvtPool := p\<rparr>) = sched_view n" "sched_view (n\<lparr>nnCtxs := cs\<rparr>) = sched_view n"
  "sched_view (n\<lparr>nnReqChan := p\<rparr>) = sched_view n" "sched_view (n\<lparr>nnEvtChan := p\<rparr>) = sched_view n"
  "sched_view (n\<lparr>schRoutes := rs\<rparr>) = sched_view n" "sched_view (n\<lparr>nnWait := w\<rparr>) = sched_view n"
  "sched_view (n\<lparr>nnState := st\<rparr>) = sched_view n" "sched_view (n\<lparr>schKinds := ks\<rparr>) = sched_view n"
  by (simp_all add: sched_view_def)

lemma view_ctx_incrVersion [simp]: "sched_view (snd (ctx_incrVersion c n)) = sched_view n"
  by (simp add: ctx_incrVersion_def Let_def)

lemma view_recycle [simp]: "sched_view (compareVersionRecycle c v n) = sched_view n"
  by (simp add: compareVersionRecycle_def pool_put_def)

lemma view_addWait [simp]: "sched_view (addWait n) = sched_view n"
  by (simp add: addWait_def)

lemma view_doneWait: "doneWait n = Ok n' \<Longrightarrow> sched_view n' = sched_view n"
  by (auto simp: doneWait_def split: if_splits)

lemma view_pool_get: "pool_get k pick n = (c, n') \<Longrightarrow> sched_view n' = sched_view n"
  by (auto simp: pool_get_def set_pool_def split: option.splits if_splits ctx_kind.splits)

lemma view_actor_Next: "actor_Next a c n = Some (e, n') \<Longrightarrow> sched_view n' = sched_view n"
  by (auto simp: actor_Next_def Let_def actor_view_def view_upd_actor split: if_splits)

lemma view_actor_take: "actor_take a n = Some (r, n') \<Longrightarrow> sched_view n' = sched_view n"
  by (auto simp: actor_take_def Let_def actor_view_def view_upd_actor split: list.splits)

lemma view_run_finish: "run_finish c v handled n = (fired, n') \<Longrightarrow> sched_view n' = sched_view n"
  by (auto simp: run_finish_def Let_def split: prod.splits)

lemma view_actor_run_fn: "actor_run_fn a n = Some n' \<Longrightarrow> sched_view n' = sched_view n"
  by (auto simp: actor_run_fn_def Let_def actor_view_def view_upd_actor split: list.splits actor_fn.splits if_splits)

lemma view_next_all: "next_all as c n = Some n' \<Longrightarrow> sched_view n' = sched_view n"
  by (induction as arbitrary: n) (auto split: if_splits Option.bind_splits dest: view_actor_Next)

lemma view_dispatch: "sch_dispatch c n = Some (e, n') \<Longrightarrow> sched_view n' = sched_view n"
  by (auto simp: sch_dispatch_def dispatchRequest_def dispatchEvent_def Let_def
      dest: view_actor_Next view_next_all split: if_splits option.splits)

lemma view_register: "actor_register fn x = Some y \<Longrightarrow> actor_view y = actor_view x"
  by (auto simp: actor_register_def actor_view_def split: if_splits actor_fn.splits)

lemma view_register_all: "register_all fns x = Some y \<Longrightarrow> actor_view y = actor_view x"
  by (induction fns arbitrary: x) (auto split: Option.bind_splits dest: view_register)

lemma upd_actor_simps [simp]:
  "length (nnActors (upd_actor a f n)) = length (nnActors n)"
  "schActors (upd_actor a f n) = schActors n" "schRelations (upd_actor a f n) = schRelations n"
  "b < length (nnActors n) \<Longrightarrow> the_actor (upd_actor a f n) b = (if a = b then f (the_actor n b) else the_actor n b)"
  by (simp_all add: upd_actor_def nth_list_update)

lemma sched_okD:
  assumes "sched_ok n" "sch_load kind aid n = Some a"
  shows "a < length (nnActors n)" "actor_PID (the_actor n a) = pid_of kind aid" "acState (the_actor n a) = act_started"
  using assms by (auto simp: sched_ok_def registered_ok_def sch_load_def sch_doLoad_def)

text \<open>Registered actors with the same name are the same.\<close>

lemma registered_inj:
  "\<lbrakk>registered_ok n; map_of (schActors n) p = Some a; map_of (schActors n) q = Some a\<rbrakk> \<Longrightarrow> p = q"
  unfolding registered_ok_def by metis

lemma relations_okI:
  "(\<And>uid rel kind a. \<lbrakk>schRelations n uid = Some rel; rel kind = Some a\<rbrakk> \<Longrightarrow> bound_ok n uid kind a) \<Longrightarrow> relations_ok n"
  by (auto simp: relations_ok_def)

lemma relations_okD: "\<lbrakk>relations_ok n; schRelations n uid = Some rel; rel kind = Some a\<rbrakk> \<Longrightarrow> bound_ok n uid kind a"
  by (auto simp: relations_ok_def)

text \<open>Removing relations, seen from one that is left.\<close>

lemma drop_actor_Some:
  "\<lbrakk>drop_actor b kd rels uid = Some rel; rel k = Some a\<rbrakk> \<Longrightarrow> \<exists>rel0. rels uid = Some rel0 \<and> rel0 k = Some a \<and> \<not> (k = kd \<and> a = b)"
  by (cases "rels uid") (auto simp: drop_actor_def split: if_splits)

lemma unbind_all_Some:
  "\<lbrakk>unbind_all uids kd rels uid = Some rel; rel k = Some a\<rbrakk> \<Longrightarrow> \<exists>rel0. rels uid = Some rel0 \<and> rel0 k = Some a \<and> \<not> (k = kd \<and> uid \<in> uids)"
  by (cases "rels uid") (auto simp: unbind_all_def split: if_splits)

text \<open>Unregistering an actor and dropping the bindings to it.\<close>

lemma relations_remove:
  assumes "relations_ok n" "map_of (schActors n) (actor_PID (the_actor n b)) = Some b"
  shows "relations_ok (n\<lparr>schActors := AList.delete (actor_PID (the_actor n b)) (schActors n),
    schRelations := drop_actor b (acKind (the_actor n b)) (schRelations n)\<rparr>)"
proof (rule relations_okI)
  fix uid rel k a
  assume h: "schRelations (n\<lparr>schActors := AList.delete (actor_PID (the_actor n b)) (schActors n),
    schRelations := drop_actor b (acKind (the_actor n b)) (schRelations n)\<rparr>) uid = Some rel" "rel k = Some a"
  then obtain rel0 where "schRelations n uid = Some rel0" "rel0 k = Some a" and ne: "\<not> (k = acKind (the_actor n b) \<and> a = b)"
    using drop_actor_Some [of b "acKind (the_actor n b)" "schRelations n" uid rel k a] by auto
  then have ok: "bound_ok n uid k a" using relations_okD [OF assms(1)] by blast
  with ne assms(2) have "actor_PID (the_actor n a) \<noteq> actor_PID (the_actor n b)" by (auto simp: bound_ok_def)
  with ok show "bound_ok (n\<lparr>schActors := AList.delete (actor_PID (the_actor n b)) (schActors n),
    schRelations := drop_actor b (acKind (the_actor n b)) (schRelations n)\<rparr>) uid k a"
    by (simp add: bound_ok_def AList.delete_conv')
qed

lemma sched_remove:
  assumes "sched_ok n" "sch_remove kind aid n = (r, n')"
  shows "sched_ok n'" "nnActors n' = nnActors n"
    "r = Some a \<Longrightarrow> a < length (nnActors n) \<and> (\<forall>p. map_of (schActors n') p \<noteq> Some a)"
proof -
  show "nnActors n' = nnActors n" using assms(2) by (auto simp: sch_remove_def split: option.splits)
  show "sched_ok n'"
  proof (cases "sch_load kind aid n")
    case (Some a)
    then have reg: "map_of (schActors n) (actor_PID (the_actor n a)) = Some a"
      using sched_okD(2) [OF assms(1) Some] by (simp add: sch_load_def sch_doLoad_def)
    have n': "n' = n\<lparr>schActors := AList.delete (actor_PID (the_actor n a)) (schActors n),
        schRelations := drop_actor a (acKind (the_actor n a)) (schRelations n)\<rparr>"
      using assms(2) Some by (auto simp: sch_remove_def)
    have "registered_ok n'"
      using assms(1) by (auto simp: n' sched_ok_def registered_ok_def AList.delete_conv' split: if_splits)
    moreover have "relations_ok n'" unfolding n' by (rule relations_remove [OF _ reg]) (use assms(1) in \<open>simp add: sched_ok_def\<close>)
    ultimately show ?thesis using assms(1) by (simp add: sched_ok_def n' AList.distinct_delete)
  qed (use assms in \<open>simp add: sch_remove_def\<close>)
  show "r = Some a \<Longrightarrow> a < length (nnActors n) \<and> (\<forall>p. map_of (schActors n') p \<noteq> Some a)"
    using assms sched_okD [OF assms(1)] registered_inj [of n]
    by (auto simp: sch_remove_def sched_ok_def sch_load_def sch_doLoad_def registered_ok_def AList.delete_conv' split: option.splits if_splits)
qed

text \<open>The state between destroying an actor and unregistering it.\<close>

abbreviation (input) destroyed_node :: "nat \<Rightarrow> 'd nnode \<Rightarrow> 'd nnode" where
  "destroyed_node a n \<equiv> (upd_actor a (\<lambda>x. x\<lparr>acState := act_destroyed, acRoutes := [], acEvents := [], acDefault := None\<rparr>) n)
     \<lparr>schRelations := unbind_all (acBinds (the_actor n a)) (acKind (the_actor n a)) (schRelations n)\<rparr>"

lemma PID_destroyed [simp]:
  "actor_PID (x\<lparr>acState := st, acRoutes := [], acEvents := [], acDefault := None\<rparr>) = actor_PID x"
  by (simp add: actor_PID_def)

lemma relations_destroy:
  assumes "relations_ok n"
  shows "relations_ok (destroyed_node a n)"
proof (rule relations_okI)
  fix uid rel k b
  assume h: "schRelations (destroyed_node a n) uid = Some rel" "rel k = Some b"
  then obtain rel0 where "schRelations n uid = Some rel0" "rel0 k = Some b"
    using unbind_all_Some [of "acBinds (the_actor n a)" "acKind (the_actor n a)" "schRelations n" uid rel k b] by auto
  then show "bound_ok (destroyed_node a n) uid k b" using relations_okD [OF assms] by (fastforce simp: bound_ok_def)
qed

lemma sched_destroy:
  assumes "sched_ok n" "actor_destroy a n = (ok, n')" "\<forall>p. map_of (schActors n) p \<noteq> Some a"
  shows "sched_ok n'"
proof (cases "acState (the_actor n a) = act_started")
  case True
  then have n': "n' = destroyed_node a n" using assms(2) by (auto simp: actor_destroy_def Let_def)
  have "registered_ok n'" using assms(1,3) by (auto simp: sched_ok_def registered_ok_def n')
  then show ?thesis using assms(1) relations_destroy [of n a] by (simp add: sched_ok_def n')
qed (use assms in \<open>simp add: actor_destroy_def\<close>)

lemma sched_kill: "\<lbrakk>sched_ok n; sch_kill kind aid n = Ok (ok, n')\<rbrakk> \<Longrightarrow> sched_ok n'"
  using sched_remove [of n kind aid] sched_destroy sched_ok_view [OF view_doneWait]
  by (fastforce simp: sch_kill_def Let_def go_map_eq_Ok split: prod.splits option.splits if_splits)

text \<open>An actor that destroys itself is unregistered after it is destroyed.\<close>

lemma sched_self_destroy:
  assumes "sched_ok n" "actor_Destroy a n = (ok, n')" "a < length (nnActors n)"
  shows "sched_ok n'"
proof (cases "acState (the_actor n a) = act_started")
  case True
  let ?x = "the_actor n a" and ?n1 = "destroyed_node a n"
  have step: "n' = snd (sch_remove (acKind ?x) (acID ?x) ?n1)"
    using assms(2,3) True by (auto simp: actor_Destroy_def actor_destroy_def Let_def split: prod.splits)
  have acts: "registered_ok n" "distinct (map fst (schActors n))" and rels: "relations_ok ?n1"
    using assms(1) relations_destroy [of n a] by (simp_all add: sched_ok_def)
  show ?thesis
  proof (cases "map_of (schActors n) (actor_PID ?x)")
    case None
    then have "\<forall>p. map_of (schActors n) p \<noteq> Some a" using acts(1) by (auto simp: registered_ok_def)
    then have "registered_ok ?n1" using acts(1) by (auto simp: registered_ok_def)
    with rels acts(2) have "sched_ok ?n1" by (simp add: sched_ok_def)
    then show ?thesis using sched_remove(1) [of ?n1] step by (metis prod.collapse)
  next
    case (Some b)
    then have b: "b < length (nnActors n)" "actor_PID (the_actor n b) = actor_PID ?x" using acts(1) by (auto simp: registered_ok_def)
    have bpid: "actor_PID (the_actor ?n1 b) = actor_PID ?x"
    proof (cases "a = b")
      case True
      then show ?thesis using b(1) by simp
    next
      case False
      then show ?thesis using b by simp
    qed
    have n': "n' = ?n1\<lparr>schActors := AList.delete (actor_PID (the_actor ?n1 b)) (schActors ?n1),
        schRelations := drop_actor b (acKind (the_actor ?n1 b)) (schRelations ?n1)\<rparr>"
      unfolding step using Some by (simp add: sch_remove_def sch_load_def sch_doLoad_def actor_PID_def)
    have acts': "schActors n' = AList.delete (actor_PID ?x) (schActors n)" unfolding n' bpid by simp
    have "registered_ok n'"
      unfolding registered_ok_def
    proof (intro allI impI)
      fix p c
      assume "map_of (schActors n') p = Some c"
      then have p: "p \<noteq> actor_PID ?x" "map_of (schActors n) p = Some c"
        using acts' by (simp_all add: AList.delete_conv' split: if_splits)
      then have c: "c < length (nnActors n)" "actor_PID (the_actor n c) = p" "acState (the_actor n c) = act_started"
        using acts(1) by (auto simp: registered_ok_def)
      with p(1) have "the_actor n' c = the_actor n c" unfolding n' by auto
      with c show "c < length (nnActors n') \<and> actor_PID (the_actor n' c) = p \<and> acState (the_actor n' c) = act_started"
        by (simp add: n')
    qed
    moreover have "relations_ok n'" unfolding n' by (rule relations_remove [OF rels]) (use Some bpid in simp)
    ultimately show ?thesis using acts(2) by (simp add: sched_ok_def n' AList.distinct_delete)
  qed
qed (use assms in \<open>simp add: actor_Destroy_def actor_destroy_def\<close>)

lemma PID_bindUser [simp]:
  "actor_PID (actor_bindUser uid y) = actor_PID y" "acKind (actor_bindUser uid y) = acKind y"
  "acState (actor_bindUser uid y) = acState y" "acBinds (actor_bindUser uid y) = insert uid (acBinds y)"
  by (simp_all add: actor_PID_def actor_bindUser_def)

lemma bound_bindUser: "bound_ok n uid k b \<Longrightarrow> bound_ok (upd_actor a (actor_bindUser u) n) uid k b"
  by (simp add: bound_ok_def)

lemma sched_bind:
  assumes "sched_ok n" "bindActor uid kind aid n = (e, n')"
  shows "sched_ok n'"
proof (cases "uid \<noteq> 0 \<and> sch_load kind aid n \<noteq> None")
  case True
  then obtain a where a: "sch_load kind aid n = Some a" by auto
  note live = sched_okD [OF assms(1) a]
  let ?rel = "case schRelations n uid of None \<Rightarrow> Map.empty | Some rel \<Rightarrow> rel"
  have n': "n' = (upd_actor a (actor_bindUser uid) n)\<lparr>schRelations := (schRelations n)(uid \<mapsto> ?rel(acKind (the_actor n a) \<mapsto> a))\<rparr>"
    using assms(2) True a live(1) by (auto simp: bindActor_def Let_def)
  have reg: "map_of (schActors n) (actor_PID (the_actor n a)) = Some a"
    using a live(2) by (simp add: sch_load_def sch_doLoad_def)
  have "registered_ok n'" using assms(1) by (auto simp: sched_ok_def registered_ok_def n')
  moreover have "relations_ok n'"
  proof (rule relations_okI)
    fix u rel k b
    assume h: "schRelations n' u = Some rel" "rel k = Some b"
    have "schRelations n' = (schRelations n)(uid \<mapsto> ?rel(acKind (the_actor n a) \<mapsto> a))" unfolding n' by simp
    with h consider "u = uid" "k = acKind (the_actor n a)" "b = a" | rel0 where "schRelations n u = Some rel0" "rel0 k = Some b"
      by (cases "u = uid"; cases "k = acKind (the_actor n a)"; cases "schRelations n uid") auto
    then show "bound_ok n' u k b"
    proof cases
      case 1
      then show ?thesis using live(1) reg by (simp add: bound_ok_def n')
    next
      case 2
      then have "bound_ok n u k b" using assms(1) relations_okD by (auto simp: sched_ok_def)
      then show ?thesis using bound_bindUser [of n u k b a uid] by (simp add: bound_ok_def n')
    qed
  qed
  ultimately show ?thesis using assms(1) by (simp add: sched_ok_def n')
qed (use assms in \<open>auto simp: bindActor_def split: if_splits option.splits\<close>)

lemma sched_unbind:
  assumes "sched_ok n"
  shows "sched_ok (unbindActor uid kind n)"
proof (cases "loadActor uid kind n")
  case (Some a)
  then obtain rel where rel: "schRelations n uid = Some rel" "rel kind = Some a"
    by (auto simp: loadActor_def split: Option.bind_splits)
  then have a: "bound_ok n uid kind a" using assms relations_okD by (auto simp: sched_ok_def)
  let ?x = "(the_actor n a)\<lparr>acBinds := acBinds (the_actor n a) - {uid}\<rparr>"
  have pid: "actor_PID ?x = actor_PID (the_actor n a)" by (simp add: actor_PID_def)
  have n': "unbindActor uid kind n = (upd_actor a (\<lambda>_. ?x) n)\<lparr>schRelations := (schRelations n)(uid \<mapsto> rel(kind := None))\<rparr>"
    (is "_ = ?n'") using rel a by (simp add: unbindActor_def actor_unbindUser_def bound_ok_def)
  have "registered_ok ?n'" using assms by (auto simp: sched_ok_def registered_ok_def pid)
  moreover have "relations_ok ?n'"
  proof (rule relations_okI)
    fix u r k b
    assume h: "schRelations ?n' u = Some r" "r k = Some b"
    then obtain r0 where r0: "schRelations n u = Some r0" "r0 k = Some b" "\<not> (u = uid \<and> k = kind)"
      using rel by (auto split: if_splits)
    then have b: "bound_ok n u k b" using assms relations_okD by (auto simp: sched_ok_def)
    have "u \<noteq> uid \<or> b \<noteq> a" using r0(3) a b by (auto simp: bound_ok_def)
    with b show "bound_ok ?n' u k b" using pid by (cases "b = a") (auto simp: bound_ok_def)
  qed
  ultimately show ?thesis using assms by (simp add: sched_ok_def n')
qed (use assms in \<open>auto simp: unbindActor_def loadActor_def split: option.splits Option.bind_splits\<close>)

text \<open>Spawning: a new actor is added to the store, and registered when its name is free.\<close>

lemma sched_new_actor: "sched_ok n \<Longrightarrow> sched_ok (n\<lparr>nnActors := nnActors n @ [x]\<rparr>)"
  by (fastforce simp: sched_ok_def registered_ok_def relations_ok_def bound_ok_def nth_append)

lemma sched_register:
  assumes "sched_ok n" "a < length (nnActors n)" "acState (the_actor n a) = act_started"
    "map_of (schActors n) (actor_PID (the_actor n a)) = None"
  shows "sched_ok (sch_register a n)"
proof -
  let ?pid = "actor_PID (the_actor n a)" and ?n' = "n\<lparr>schActors := AList.update (actor_PID (the_actor n a)) a (schActors n)\<rparr>"
  have "registered_ok ?n'" using assms by (auto simp: sched_ok_def registered_ok_def AList.update_conv')
  moreover have "relations_ok ?n'"
    using assms by (fastforce simp: sched_ok_def relations_ok_def bound_ok_def AList.update_conv')
  ultimately have "sched_ok ?n'" using assms(1) by (simp add: sched_ok_def AList.distinct_update)
  moreover have "sched_view (sch_register a n) = sched_view ?n'" by (simp add: sch_register_def Let_def sched_view_def)
  ultimately show ?thesis using sched_ok_view by blast
qed

lemma sched_spawn:
  assumes "sched_ok n" "sch_spawn kind aid wait disp created init n = Some (r, n')"
  shows "sched_ok n'"
proof -
  obtain x where x: "register_all created (new_actor kind aid wait disp) = Some x"
    using assms(2) by (auto simp: sch_spawn_def split: Option.bind_splits)
  let ?a = "length (nnActors n)" and ?n1 = "n\<lparr>nnActors := nnActors n @ [x]\<rparr>"
  have n1: "sched_ok ?n1" by (rule sched_new_actor [OF assms(1)])
  show ?thesis
  proof (cases "sch_load kind aid ?n1")
    case None
    then obtain y where y: "register_all init x = Some y" and
      n': "n' = sch_register ?a (upd_actor ?a (\<lambda>_. y) (if wait then addWait ?n1 else ?n1))"
      using assms(2) x by (auto simp: sch_spawn_def Let_def split: if_splits)
    let ?n2 = "upd_actor ?a (\<lambda>_. y) (if wait then addWait ?n1 else ?n1)"
    have view: "actor_view y = actor_view x" "actor_view x = actor_view (new_actor kind aid wait disp)"
      using view_register_all [OF y] view_register_all [OF x] by simp_all
    then have y_is: "acState y = act_started" "actor_PID y = pid_of kind aid"
      by (simp_all add: actor_view_def actor_PID_def new_actor_def)
    have at: "the_actor ?n2 ?a = y" "?a < length (nnActors ?n2)" "schActors ?n2 = schActors n"
      by (simp_all add: upd_actor_def addWait_def)
    have "sched_view ?n2 = sched_view ?n1" using view(1) by (simp add: sched_view_def upd_actor_def addWait_def)
    then have "sched_ok ?n2" using n1 sched_ok_view by blast
    then show ?thesis unfolding n'
      by (rule sched_register) (use at y_is None in \<open>simp_all add: sch_load_def sch_doLoad_def\<close>)
  next
    case (Some b)
    then show ?thesis using assms(2) x n1 by (auto simp: sch_spawn_def Let_def)
  qed
qed

end
