(* ===== verification/GateLink.thy ===== *)
theory GateLink
  imports Dispatcher Packet
begin

text \<open>
  \<open>internal/link/gate.go\<close>: how a node finds the gate a user is connected to and calls it.  The linker
  keeps a cache of user locations, asks the locator when a user is not in it, finds the gate's
  endpoint in the dispatcher and calls the gate through a client.

  The locator, the builder of clients and the methods of a client (modelled in \<open>GateClient\<close>) are
  arguments that work on a state \<open>'w\<close>, which stands for the rest of the cluster.  Goroutines of an
  \<open>errgroup\<close> run one after the other, in the order of the list they are started from.
\<close>

section \<open>The linker and what it relies on\<close>

text \<open>A method that returns a value next to an error returns both.\<close>

record 'w gate_client =
  gcBind :: "string \<Rightarrow> int64 \<Rightarrow> int64 \<Rightarrow> 'w \<Rightarrow> goerr option \<times> 'w"
  gcUnbind :: "string \<Rightarrow> int64 \<Rightarrow> int64 \<Rightarrow> 'w \<Rightarrow> goerr option \<times> 'w"
  gcGetIP :: "string \<Rightarrow> int \<Rightarrow> int64 \<Rightarrow> 'w \<Rightarrow> (string \<times> goerr option) \<times> 'w"
  gcStat :: "string \<Rightarrow> int \<Rightarrow> 'w \<Rightarrow> (int \<times> goerr option) \<times> 'w"
  gcIsOnline :: "string \<Rightarrow> int \<Rightarrow> int64 \<Rightarrow> 'w \<Rightarrow> (bool \<times> goerr option) \<times> 'w"
  gcDisconnect :: "string \<Rightarrow> int64 \<Rightarrow> int64 \<Rightarrow> bool \<Rightarrow> 'w \<Rightarrow> goerr option \<times> 'w"
  gcPush :: "string \<Rightarrow> int \<Rightarrow> int64 \<Rightarrow> nocopy \<Rightarrow> bool \<Rightarrow> 'w \<Rightarrow> goerr option \<times> 'w"
  gcMulticast :: "string \<Rightarrow> int \<Rightarrow> int64 list \<Rightarrow> nocopy \<Rightarrow> bool \<Rightarrow> 'w \<Rightarrow> (int \<times> goerr option) \<times> 'w"
  gcBroadcast :: "string \<Rightarrow> int \<Rightarrow> nocopy \<Rightarrow> bool \<Rightarrow> 'w \<Rightarrow> (int \<times> goerr option) \<times> 'w"
  gcPublish :: "string \<Rightarrow> string \<Rightarrow> nocopy \<Rightarrow> bool \<Rightarrow> 'w \<Rightarrow> (int \<times> goerr option) \<times> 'w"
  gcSubscribe :: "string \<Rightarrow> int \<Rightarrow> int64 list \<Rightarrow> string \<Rightarrow> 'w \<Rightarrow> goerr option \<times> 'w"
  gcUnsubscribe :: "string \<Rightarrow> int \<Rightarrow> int64 list \<Rightarrow> string \<Rightarrow> 'w \<Rightarrow> goerr option \<times> 'w"
  gcGetState :: "string \<Rightarrow> 'w \<Rightarrow> (int \<times> goerr option) \<times> 'w"
  gcSetState :: "string \<Rightarrow> int \<Rightarrow> 'w \<Rightarrow> goerr option \<times> 'w"

text \<open>The message argument of a call: nothing, bytes, or a value for the codec.\<close>

datatype 'd payload = NoData | RawData bytes | ValueData 'd

record 'd link_message =
  lmSeq :: int32
  lmGameID :: int32
  lmMessageID :: int32
  lmData :: "'d payload"

record ('d, 'w) link_env =
  leClient :: "'w gate_client"
  leBuild :: "string \<Rightarrow> 'w \<Rightarrow> goerr option \<times> 'w"
  leLocate :: "(int64 \<Rightarrow> 'w \<Rightarrow> string go \<times> 'w) option"
  leMarshal :: "'d \<Rightarrow> bytes go"
  leEncrypt :: "(bytes \<Rightarrow> bytes go) option"
  lePacker :: packer_options
  leRelease :: "nocopy \<Rightarrow> 'w \<Rightarrow> 'w"

record 'w glink =
  glSources :: "int64 \<rightharpoonup> string"
  glDisp :: Dispatcher
  glWorld :: 'w

definition NewGateLinker :: "string \<Rightarrow> 'w \<Rightarrow> 'w glink" where
  "NewGateLinker disp w = \<lparr>glSources = Map.empty, glDisp = NewDispatcher disp, glWorld = w\<rparr>"

text \<open>Running a call of the outside world inside the linker.\<close>

definition on_world :: "('w \<Rightarrow> 'r \<times> 'w) \<Rightarrow> 'w glink \<Rightarrow> 'r \<times> 'w glink" where
  "on_world f l = (let (r, w) = f (glWorld l) in (r, l\<lparr>glWorld := w\<rparr>))"

section \<open>Locating\<close>

definition HasGate :: "string \<Rightarrow> 'w glink \<Rightarrow> bool" where
  "HasGate gid l = (case FindEndpoint gid (glDisp l) of Ok _ \<Rightarrow> True | _ \<Rightarrow> False)"

definition ask_locator :: "(int64 \<Rightarrow> 'w \<Rightarrow> string go \<times> 'w) \<Rightarrow> int64 \<Rightarrow> 'w glink \<Rightarrow> string go \<times> 'w glink" where
  "ask_locator locate uid l =
     (case on_world (locate uid) l of
        (Ok gid, l) \<Rightarrow> if gid = '''' then (Err ErrNotFoundUserLocation, l)
                       else (Ok gid, l\<lparr>glSources := (glSources l)(uid \<mapsto> gid)\<rparr>)
      | (res, l) \<Rightarrow> (res, l))"

definition LocateGate :: "('d, 'w) link_env \<Rightarrow> int64 \<Rightarrow> 'w glink \<Rightarrow> string go \<times> 'w glink" where
  "LocateGate env uid l =
     (case leLocate env of
        None \<Rightarrow> (Err ErrNotFoundLocator, l)
      | Some locate \<Rightarrow>
          (case glSources l uid of
             Some gid \<Rightarrow> if gid \<noteq> '''' then (Ok gid, l) else ask_locator locate uid l
           | None \<Rightarrow> ask_locator locate uid l))"

definition AskGate :: "('d, 'w) link_env \<Rightarrow> string \<Rightarrow> int64 \<Rightarrow> 'w glink \<Rightarrow> (string \<times> bool) go \<times> 'w glink" where
  "AskGate env gid uid l = (let (res, l) = LocateGate env uid l in (go_map (\<lambda>insID. (insID, insID = gid)) res, l))"

text \<open>The address of the client.\<close>

definition build_client :: "('d, 'w) link_env \<Rightarrow> string \<Rightarrow> 'w glink \<Rightarrow> string go \<times> 'w glink" where
  "build_client env addr l =
     (let (err, l) = on_world (leBuild env addr) l
      in (case err of None \<Rightarrow> Ok addr | Some e \<Rightarrow> Err e, l))"

definition gl_doBuildClient :: "('d, 'w) link_env \<Rightarrow> string \<Rightarrow> 'w glink \<Rightarrow> string go \<times> 'w glink" where
  "gl_doBuildClient env gid l =
     (if gid = '''' then (Err ErrInvalidGID, l)
      else case FindEndpoint gid (glDisp l) of
             Ok ep \<Rightarrow> build_client env (Endpoint_Address ep) l
           | Err e \<Rightarrow> (Err e, l)
           | Panic \<Rightarrow> (Panic, l))"

section \<open>Calls to the gate of a user\<close>

text \<open>A handler of \<open>doRPC\<close> is given the client, the number of the attempt and the number of attempts; it
  returns whether to go on, the reply and the error.\<close>

type_synonym ('r, 'w) rpc_handler = "string \<Rightarrow> nat \<Rightarrow> nat \<Rightarrow> 'w glink \<Rightarrow> (bool \<times> 'r option \<times> goerr option) \<times> 'w glink"

abbreviation (input) rpc_total :: nat where
  "rpc_total \<equiv> 2"

function rpc_loop ::
    "('d, 'w) link_env \<Rightarrow> int64 \<Rightarrow> ('r, 'w) rpc_handler \<Rightarrow> (nat \<Rightarrow> nat \<Rightarrow> 'w glink \<Rightarrow> 'w glink) \<Rightarrow> nat \<Rightarrow> string \<Rightarrow>
     'r option \<Rightarrow> goerr option \<Rightarrow> 'w glink \<Rightarrow> ('r option \<times> goerr option) go \<times> 'w glink" where
  "rpc_loop env uid success failed i prev reply err l =
     (if i \<ge> rpc_total then (Ok (reply, err), l)
      else case LocateGate env uid l of
             (Err e, l) \<Rightarrow> (Ok (None, Some e), failed (i + 1) rpc_total l)
           | (Panic, l) \<Rightarrow> (Panic, l)
           | (Ok gid, l) \<Rightarrow>
               if gid = prev then (Ok (reply, None), failed (i + 1) rpc_total l)
               else case gl_doBuildClient env gid l of
                      (Err e, l) \<Rightarrow> (Ok (None, Some e), failed (i + 1) rpc_total l)
                    | (Panic, l) \<Rightarrow> (Panic, l)
                    | (Ok client, l) \<Rightarrow>
                        (case success client (i + 1) rpc_total l of
                           ((continued, reply, err), l) \<Rightarrow>
                             if \<not> continued then (Ok (reply, err), l)
                             else rpc_loop env uid success failed (i + 1) gid reply err
                                    (l\<lparr>glSources := (glSources l)(uid := None)\<rparr>)))"
  by auto
termination by (relation "measure (\<lambda>(env, uid, success, failed, i, prev, reply, err, l). rpc_total - i)") auto

declare rpc_loop.simps [simp del]

definition gl_doRPC ::
    "('d, 'w) link_env \<Rightarrow> int64 \<Rightarrow> ('r, 'w) rpc_handler \<Rightarrow> (nat \<Rightarrow> nat \<Rightarrow> 'w glink \<Rightarrow> 'w glink) \<Rightarrow> 'w glink \<Rightarrow>
     ('r option \<times> goerr option) go \<times> 'w glink" where
  "gl_doRPC env uid success failed l = rpc_loop env uid success failed 0 '''' None None l"

text \<open>The handlers all go on exactly when the gate does not know the session.\<close>

definition session_lost :: "goerr option \<Rightarrow> bool" where
  "session_lost err \<longleftrightarrow> err = Some ErrNotFoundSession"

definition no_failed :: "nat \<Rightarrow> nat \<Rightarrow> 'w glink \<Rightarrow> 'w glink" where
  "no_failed index tot l = l"

text \<open>A call on the client of a given gate.\<close>

definition on_gate ::
    "('d, 'w) link_env \<Rightarrow> string \<Rightarrow> 'r \<Rightarrow> (string \<Rightarrow> 'w \<Rightarrow> ('r \<times> goerr option) \<times> 'w) \<Rightarrow> 'w glink \<Rightarrow>
     ('r \<times> goerr option) go \<times> 'w glink" where
  "on_gate env gid z f l =
     (case gl_doBuildClient env gid l of
        (Ok client, l) \<Rightarrow> apfst Ok (on_world (f client) l)
      | (Err e, l) \<Rightarrow> (Ok (z, Some e), l)
      | (Panic, l) \<Rightarrow> (Panic, l))"

definition unit_reply :: "('w \<Rightarrow> goerr option \<times> 'w) \<Rightarrow> 'w \<Rightarrow> (unit \<times> goerr option) \<times> 'w" where
  "unit_reply f w = (let (err, w) = f w in (((), err), w))"

definition BindGate :: "('d, 'w) link_env \<Rightarrow> string \<Rightarrow> int64 \<Rightarrow> int64 \<Rightarrow> 'w glink \<Rightarrow> (unit \<times> goerr option) go \<times> 'w glink" where
  "BindGate env gid cid uid l =
     (case on_gate env gid () (\<lambda>c. unit_reply (gcBind (leClient env) c cid uid)) l of
        (Ok (r, None), l) \<Rightarrow> (Ok (r, None), l\<lparr>glSources := (glSources l)(uid \<mapsto> gid)\<rparr>)
      | (res, l) \<Rightarrow> (res, l))"

text \<open>A handler that calls one method and goes on when the session is lost.\<close>

definition rpc_call :: "(string \<Rightarrow> 'w \<Rightarrow> ('r \<times> goerr option) \<times> 'w) \<Rightarrow> ('r, 'w) rpc_handler" where
  "rpc_call f client index tot l =
     (let ((r, err), l) = on_world (f client) l in ((session_lost err, Some r, err), l))"

definition UnbindGate :: "('d, 'w) link_env \<Rightarrow> int64 \<Rightarrow> int64 \<Rightarrow> 'w glink \<Rightarrow> goerr option go \<times> 'w glink" where
  "UnbindGate env cid uid l =
     (case gl_doRPC env uid (rpc_call (\<lambda>c. unit_reply (gcUnbind (leClient env) c uid cid))) no_failed l of
        (Ok (_, Some e), l) \<Rightarrow> (Ok (Some e), l)
      | (Ok (_, None), l) \<Rightarrow> (Ok None, l\<lparr>glSources := (glSources l)(uid := None)\<rparr>)
      | (Err e, l) \<Rightarrow> (Err e, l)
      | (Panic, l) \<Rightarrow> (Panic, l))"

definition FetchGateList :: "('w \<Rightarrow> ServiceInstance list go \<times> 'w) \<Rightarrow> string list \<Rightarrow> 'w glink \<Rightarrow> ServiceInstance list go \<times> 'w glink" where
  "FetchGateList services states l =
     (let (res, l) = on_world services l
      in (go_map (\<lambda>ss. if states = [] then ss else filter (\<lambda>i. siState i \<in> set states) ss) res, l))"

definition gl_GetState :: "('d, 'w) link_env \<Rightarrow> string \<Rightarrow> 'w glink \<Rightarrow> (int \<times> goerr option) go \<times> 'w glink" where
  "gl_GetState env gid = on_gate env gid 0 (gcGetState (leClient env))"

definition gl_SetState :: "('d, 'w) link_env \<Rightarrow> string \<Rightarrow> int \<Rightarrow> 'w glink \<Rightarrow> (unit \<times> goerr option) go \<times> 'w glink" where
  "gl_SetState env gid state = on_gate env gid () (\<lambda>c. unit_reply (gcSetState (leClient env) c state))"

text \<open>Session kinds are 1 for a connection and 2 for a user, as in \<open>session.Kind\<close>.  An indirect call
  returns the reply of the last attempt; \<open>v.(T)\<close> on a nil reply panics.\<close>

definition rpc_value :: "'r \<Rightarrow> ('r option \<times> goerr option) go \<times> 'w glink \<Rightarrow> ('r \<times> goerr option) go \<times> 'w glink" where
  "rpc_value z out =
     (case out of
        (Ok (_, Some e), l) \<Rightarrow> (Ok (z, Some e), l)
      | (Ok (Some r, None), l) \<Rightarrow> (Ok (r, None), l)
      | (Ok (None, None), l) \<Rightarrow> (Panic, l)
      | (Err e, l) \<Rightarrow> (Err e, l)
      | (Panic, l) \<Rightarrow> (Panic, l))"

definition doDirectGetIP where
  "doDirectGetIP env gid kind target = on_gate env gid '''' (\<lambda>c. gcGetIP (leClient env) c kind target)"

definition doIndirectGetIP where
  "doIndirectGetIP env uid l =
     rpc_value '''' (gl_doRPC env uid (rpc_call (\<lambda>c. gcGetIP (leClient env) c 2 uid)) no_failed l)"

definition gl_GetIP :: "('d, 'w) link_env \<Rightarrow> string \<Rightarrow> int \<Rightarrow> int64 \<Rightarrow> 'w glink \<Rightarrow> (string \<times> goerr option) go \<times> 'w glink" where
  "gl_GetIP env gid kind target l =
     (if kind = 1 then doDirectGetIP env gid kind target l
      else if kind = 2
      then if gid = '''' then doIndirectGetIP env target l else doDirectGetIP env gid kind target l
      else (Ok ('''', Some ErrInvalidSessionKind), l))"

definition doDirectIsOnline where
  "doDirectIsOnline env gid kind target = on_gate env gid False (\<lambda>c. gcIsOnline (leClient env) c kind target)"

definition doIndirectIsOnline where
  "doIndirectIsOnline env kind target l =
     rpc_value False (gl_doRPC env target (rpc_call (\<lambda>c. gcIsOnline (leClient env) c kind target)) no_failed l)"

definition gl_IsOnline :: "('d, 'w) link_env \<Rightarrow> string \<Rightarrow> int \<Rightarrow> int64 \<Rightarrow> 'w glink \<Rightarrow> (bool \<times> goerr option) go \<times> 'w glink" where
  "gl_IsOnline env gid kind target l =
     (if kind = 1 then doDirectIsOnline env gid kind target l
      else if kind = 2
      then if gid = '''' then doIndirectIsOnline env kind target l else doDirectIsOnline env gid kind target l
      else (Ok (False, Some ErrInvalidSessionKind), l))"

definition doDirectDisconnect where
  "doDirectDisconnect env gid uid cid force = on_gate env gid () (\<lambda>c. unit_reply (gcDisconnect (leClient env) c uid cid force))"

definition rpc_error :: "('r option \<times> goerr option) go \<times> 'w glink \<Rightarrow> (unit \<times> goerr option) go \<times> 'w glink" where
  "rpc_error out = apfst (go_map (\<lambda>(_, err). ((), err))) out"

definition doIndirectDisconnect where
  "doIndirectDisconnect env uid cid force l =
     rpc_error (gl_doRPC env uid (rpc_call (\<lambda>c. unit_reply (gcDisconnect (leClient env) c uid cid force))) no_failed l)"

definition gl_Disconnect ::
    "('d, 'w) link_env \<Rightarrow> string \<Rightarrow> int64 \<Rightarrow> int64 \<Rightarrow> bool \<Rightarrow> 'w glink \<Rightarrow> (unit \<times> goerr option) go \<times> 'w glink" where
  "gl_Disconnect env gid uid cid force l =
     (if 0 < sint cid then doDirectDisconnect env gid uid cid force l
      else if gid = '''' then doIndirectDisconnect env uid cid force l
      else doDirectDisconnect env gid uid cid force l)"

section \<open>Groups of calls\<close>

text \<open>The goroutines of an \<open>errgroup\<close>: the first error, and the sum of what the others add to the total.\<close>

fun go_group :: "('a \<Rightarrow> 'w glink \<Rightarrow> (int \<times> goerr option) go \<times> 'w glink) \<Rightarrow> 'a list \<Rightarrow> 'w glink \<Rightarrow> (int \<times> goerr option) go \<times> 'w glink" where
  "go_group f [] l = (Ok (0, None), l)"
| "go_group f (x # xs) l =
     (case f x l of
        (Ok (n, err), l) \<Rightarrow>
          (case go_group f xs l of
             (Ok (m, err'), l) \<Rightarrow> (Ok ((if err = None then n else 0) + m, if err = None then err' else err), l)
           | out \<Rightarrow> out)
      | out \<Rightarrow> out)"

text \<open>\<open>if err = eg.Wait(); err != nil && total == 0\<close>.\<close>

definition group_total :: "(int \<times> goerr option) go \<times> 'w glink \<Rightarrow> (int \<times> goerr option) go \<times> 'w glink" where
  "group_total out = apfst (go_map (\<lambda>(tot, err). if err \<noteq> None \<and> tot = 0 then (0, err) else (tot, None))) out"

definition gl_Stat :: "('d, 'w) link_env \<Rightarrow> int \<Rightarrow> 'w glink \<Rightarrow> (int \<times> goerr option) go \<times> 'w glink" where
  "gl_Stat env kind l =
     apfst (go_map (\<lambda>(tot, err). if tot > 0 then (tot, None) else (tot, err)))
       (go_group (\<lambda>(_, ep) l.
          case build_client env (Endpoint_Address ep) l of
            (Ok client, l) \<Rightarrow> apfst Ok (on_world (gcStat (leClient env) client kind) l)
          | (Err e, l) \<Rightarrow> (Ok (0, Some e), l)
          | (Panic, l) \<Rightarrow> (Panic, l)) (dEndpoints (glDisp l)) l)"

section \<open>Packing and pushing\<close>

definition gl_PackBuffer :: "('d, 'w) link_env \<Rightarrow> 'd payload \<Rightarrow> bool \<Rightarrow> bytes go" where
  "gl_PackBuffer env message encrypt =
     (case message of
        NoData \<Rightarrow> Ok []
      | RawData v \<Rightarrow> Ok v
      | ValueData d \<Rightarrow>
          go_bind (leMarshal env d) (\<lambda>data.
            case leEncrypt env of
              Some enc \<Rightarrow> if encrypt then enc data else Ok data
            | None \<Rightarrow> Ok data))"

definition gl_PackMessage :: "('d, 'w) link_env \<Rightarrow> 'd link_message \<Rightarrow> bool \<Rightarrow> nocopy go" where
  "gl_PackMessage env m encrypt =
     go_bind (gl_PackBuffer env (lmData m) encrypt) (\<lambda>buf.
     go_bind (PackMessage (lePacker env) \<lparr>mSeq = lmSeq m, mGameID = lmGameID m, mMessageID = lmMessageID m, mBuffer = buf\<rparr>)
       (\<lambda>wire. Ok (NewNocopyBuffer [MBlock (RawBlock wire)])))"

text \<open>\<open>for range total - index { message.Release() }\<close>.\<close>

definition release_rest :: "('d, 'w) link_env \<Rightarrow> nocopy \<Rightarrow> nat \<Rightarrow> nat \<Rightarrow> 'w glink \<Rightarrow> 'w glink" where
  "release_rest env message index tot l = l\<lparr>glWorld := ((leRelease env message) ^^ (tot - index)) (glWorld l)\<rparr>"

definition push_handler :: "('d, 'w) link_env \<Rightarrow> int \<Rightarrow> int64 \<Rightarrow> nocopy \<Rightarrow> bool \<Rightarrow> (unit, 'w) rpc_handler" where
  "push_handler env kind target message ack client index tot l =
     (let (err, l) = on_world (gcPush (leClient env) client kind target message ack) l
      in if ack then if session_lost err then ((True, None, err), l)
                     else ((False, None, err), release_rest env message index tot l)
         else ((False, None, err), l))"

definition doPush :: "('d, 'w) link_env \<Rightarrow> int \<Rightarrow> nocopy \<Rightarrow> bool \<Rightarrow> int64 \<Rightarrow> 'w glink \<Rightarrow> goerr option go \<times> 'w glink" where
  "doPush env kind message ack target l =
     apfst (go_map snd) (gl_doRPC env target (push_handler env kind target message ack) (release_rest env message) l)"

definition doMulticast ::
    "('d, 'w) link_env \<Rightarrow> int \<Rightarrow> int64 list \<Rightarrow> nocopy \<Rightarrow> bool \<Rightarrow> 'w glink \<Rightarrow> (int \<times> goerr option) go \<times> 'w glink" where
  "doMulticast env kind targets message ack l =
     group_total (go_group (\<lambda>target l. apfst (go_map (\<lambda>err. (1, err))) (doPush env kind message ack target l)) targets l)"

definition doDirectMulticast ::
    "('d, 'w) link_env \<Rightarrow> string \<Rightarrow> int \<Rightarrow> int64 list \<Rightarrow> 'd link_message \<Rightarrow> bool \<Rightarrow> 'w glink \<Rightarrow> (int \<times> goerr option) go \<times> 'w glink" where
  "doDirectMulticast env gid kind targets m ack l =
     (if length targets = 0 then (Ok (0, Some ErrReceiveTargetEmpty), l)
      else case gl_doBuildClient env gid l of
             (Err e, l) \<Rightarrow> (Ok (0, Some e), l)
           | (Panic, l) \<Rightarrow> (Panic, l)
           | (Ok client, l) \<Rightarrow>
               (case gl_PackMessage env m True of
                  Err e \<Rightarrow> (Ok (0, Some e), l)
                | Panic \<Rightarrow> (Panic, l)
                | Ok message \<Rightarrow>
                    if length targets = 1
                    then let (err, l) = on_world (gcPush (leClient env) client kind (hd targets) message ack) l
                         in (Ok (if err \<noteq> None then 0 else if ack then 1 else 0, err), l)
                    else apfst Ok (on_world (gcMulticast (leClient env) client kind targets message ack) l)))"

definition doIndirectMulticast ::
    "('d, 'w) link_env \<Rightarrow> int \<Rightarrow> int64 list \<Rightarrow> 'd link_message \<Rightarrow> bool \<Rightarrow> 'w glink \<Rightarrow> (int \<times> goerr option) go \<times> 'w glink" where
  "doIndirectMulticast env kind targets m ack l =
     (let n = length targets
      in if n = 0 then (Ok (0, Some ErrReceiveTargetEmpty), l)
         else case gl_PackMessage env m True of
                Err e \<Rightarrow> (Ok (0, Some e), l)
              | Panic \<Rightarrow> (Panic, l)
              | Ok message \<Rightarrow>
                  if ack
                  then let message = Nocopy_Delay (of_nat (n * 2)) message
                       in if n = 1
                          then apfst (go_map (\<lambda>err. (if err \<noteq> None then 0 else 1, err))) (doPush env kind message ack (hd targets) l)
                          else doMulticast env kind targets message ack l
                  else if n = 1
                  then apfst (go_map (\<lambda>err. (0, err))) (doPush env kind message ack (hd targets) l)
                  else apfst (go_map (\<lambda>(_, err). (0, err)))
                         (doMulticast env kind targets (Nocopy_Delay (of_nat n) message) ack l))"

definition gl_Multicast ::
    "('d, 'w) link_env \<Rightarrow> string \<Rightarrow> int \<Rightarrow> int64 list \<Rightarrow> 'd link_message \<Rightarrow> bool \<Rightarrow> 'w glink \<Rightarrow> (int \<times> goerr option) go \<times> 'w glink" where
  "gl_Multicast env gid kind targets m ack l =
     (if kind = 1 then doDirectMulticast env gid kind targets m ack l
      else if kind = 2
      then if gid = '''' then doIndirectMulticast env kind targets m ack l
           else doDirectMulticast env gid kind targets m ack l
      else (Ok (0, Some ErrInvalidSessionKind), l))"

definition gl_Push ::
    "('d, 'w) link_env \<Rightarrow> string \<Rightarrow> int \<Rightarrow> int64 \<Rightarrow> 'd link_message \<Rightarrow> bool \<Rightarrow> 'w glink \<Rightarrow> goerr option go \<times> 'w glink" where
  "gl_Push env gid kind target m ack l = apfst (go_map snd) (gl_Multicast env gid kind [target] m ack l)"

text \<open>\<open>doBroadcast\<close> and \<open>doPublish\<close>: one call \<open>f\<close> to every gate.\<close>

definition doBroadcast ::
    "('d, 'w) link_env \<Rightarrow> nocopy \<Rightarrow> (string \<Rightarrow> nocopy \<Rightarrow> 'w \<Rightarrow> (int \<times> goerr option) \<times> 'w) \<Rightarrow> string \<Rightarrow> 'w glink \<Rightarrow>
     (int \<times> goerr option) go \<times> 'w glink" where
  "doBroadcast env message f addr l =
     (case build_client env addr l of
        (Err e, l) \<Rightarrow> (Ok (0, Some e), l\<lparr>glWorld := leRelease env message (glWorld l)\<rparr>)
      | (Panic, l) \<Rightarrow> (Panic, l)
      | (Ok client, l) \<Rightarrow> apfst Ok (on_world (f client message) l))"

definition to_all_gates ::
    "('d, 'w) link_env \<Rightarrow> 'd link_message \<Rightarrow> (string \<Rightarrow> nocopy \<Rightarrow> 'w \<Rightarrow> (int \<times> goerr option) \<times> 'w) \<Rightarrow> 'w glink \<Rightarrow>
     (int \<times> goerr option) go \<times> 'w glink" where
  "to_all_gates env m f l =
     (let addrs = map (\<lambda>(_, ep). Endpoint_Address ep) (dEndpoints (glDisp l)); n = length addrs
      in if n = 0 then (Ok (0, None), l)
         else case gl_PackMessage env m True of
                Err e \<Rightarrow> (Ok (0, Some e), l)
              | Panic \<Rightarrow> (Panic, l)
              | Ok message \<Rightarrow>
                  if n = 1 then doBroadcast env message f (hd addrs) l
                  else group_total (go_group (doBroadcast env (Nocopy_Delay (of_nat n) message) f) addrs l))"

definition gl_Broadcast :: "('d, 'w) link_env \<Rightarrow> int \<Rightarrow> 'd link_message \<Rightarrow> bool \<Rightarrow> 'w glink \<Rightarrow> (int \<times> goerr option) go \<times> 'w glink" where
  "gl_Broadcast env kind m ack = to_all_gates env m (\<lambda>c message. gcBroadcast (leClient env) c kind message ack)"

definition gl_Publish :: "('d, 'w) link_env \<Rightarrow> string \<Rightarrow> 'd link_message \<Rightarrow> bool \<Rightarrow> 'w glink \<Rightarrow> (int \<times> goerr option) go \<times> 'w glink" where
  "gl_Publish env channel m ack = to_all_gates env m (\<lambda>c message. gcPublish (leClient env) c channel message ack)"

section \<open>Channels\<close>

text \<open>\<open>Subscribe\<close> and \<open>Unsubscribe\<close> differ in the method \<open>f\<close> of the client.\<close>

type_synonym 'w channel_call = "string \<Rightarrow> int \<Rightarrow> int64 list \<Rightarrow> string \<Rightarrow> 'w \<Rightarrow> goerr option \<times> 'w"

definition doDirectSubscribe ::
    "('d, 'w) link_env \<Rightarrow> 'w channel_call \<Rightarrow> string \<Rightarrow> int \<Rightarrow> int64 list \<Rightarrow> string \<Rightarrow> 'w glink \<Rightarrow> (unit \<times> goerr option) go \<times> 'w glink" where
  "doDirectSubscribe env f gid kind targets channel l =
     (if length targets = 0 then (Ok ((), Some ErrReceiveTargetEmpty), l)
      else on_gate env gid () (\<lambda>c. unit_reply (f c kind targets channel)) l)"

definition doIndirectSubscribe ::
    "('d, 'w) link_env \<Rightarrow> 'w channel_call \<Rightarrow> int \<Rightarrow> int64 list \<Rightarrow> string \<Rightarrow> 'w glink \<Rightarrow> (unit \<times> goerr option) go \<times> 'w glink" where
  "doIndirectSubscribe env f kind targets channel l =
     (if length targets = 0 then (Ok ((), Some ErrReceiveTargetEmpty), l)
      else apfst (go_map (\<lambda>(n, err). ((), err)))
             (go_group (\<lambda>target l.
                apfst (go_map (\<lambda>(_, err). (0, err)))
                  (gl_doRPC env target (\<lambda>client index tot l.
                     let (err, l) = on_world (f client kind [target] channel) l in ((False, None :: unit option, err), l))
                     no_failed l)) targets l))"

definition gl_channel ::
    "('d, 'w) link_env \<Rightarrow> 'w channel_call \<Rightarrow> string \<Rightarrow> int \<Rightarrow> int64 list \<Rightarrow> string \<Rightarrow> 'w glink \<Rightarrow> (unit \<times> goerr option) go \<times> 'w glink" where
  "gl_channel env f gid kind targets channel l =
     (if kind = 1 then doDirectSubscribe env f gid kind targets channel l
      else if kind = 2
      then if gid = '''' then doIndirectSubscribe env f kind targets channel l
           else doDirectSubscribe env f gid kind targets channel l
      else (Ok ((), Some ErrInvalidSessionKind), l))"

definition gl_Subscribe where
  "gl_Subscribe env = gl_channel env (gcSubscribe (leClient env))"

definition gl_Unsubscribe where
  "gl_Unsubscribe env = gl_channel env (gcUnsubscribe (leClient env))"

section \<open>Watching\<close>

datatype locate_event = GateBound int64 string | GateUnbound int64 string | OtherEvent

fun watch_gate_event :: "locate_event \<Rightarrow> 'w glink \<Rightarrow> 'w glink" where
  "watch_gate_event (GateBound uid insID) l = l\<lparr>glSources := (glSources l)(uid \<mapsto> insID)\<rparr>"
| "watch_gate_event (GateUnbound uid insID) l = l\<lparr>glSources := (glSources l)(uid := None)\<rparr>"
| "watch_gate_event OtherEvent l = l"

definition gl_WatchUserLocate :: "locate_event list \<Rightarrow> 'w glink \<Rightarrow> 'w glink" where
  "gl_WatchUserLocate events l = fold watch_gate_event events l"

definition gl_WatchClusterInstance :: "(string \<Rightarrow> url option) \<Rightarrow> ServiceInstance option list \<Rightarrow> 'w glink \<Rightarrow> 'w glink go" where
  "gl_WatchClusterInstance parse services l = go_map (\<lambda>d. l\<lparr>glDisp := d\<rparr>) (ReplaceServices parse services (glDisp l))"

section \<open>Locations\<close>

lemma LocateGate_cached:
  "\<lbrakk>leLocate env = Some loc; glSources l uid = Some gid; gid \<noteq> ''''\<rbrakk> \<Longrightarrow> LocateGate env uid l = (Ok gid, l)"
  by (simp add: LocateGate_def)

lemma LocateGate_asks:
  "\<lbrakk>leLocate env = Some loc; glSources l uid = None; loc uid (glWorld l) = (Ok gid, w); gid \<noteq> ''''\<rbrakk> \<Longrightarrow>
     LocateGate env uid l = (Ok gid, l\<lparr>glWorld := w, glSources := (glSources l)(uid \<mapsto> gid)\<rparr>)"
  by (simp add: LocateGate_def ask_locator_def on_world_def)

lemma doBuildClient_known:
  "\<lbrakk>gid \<noteq> ''''; FindEndpoint gid (glDisp l) = Ok ep; leBuild env (Endpoint_Address ep) (glWorld l) = (None, w)\<rbrakk> \<Longrightarrow>
     gl_doBuildClient env gid l = (Ok (Endpoint_Address ep), l\<lparr>glWorld := w\<rparr>)"
  by (simp add: gl_doBuildClient_def build_client_def on_world_def)

lemma doBuildClient_sources: "glSources (snd (gl_doBuildClient env gid l)) = glSources l"
  by (simp add: gl_doBuildClient_def build_client_def on_world_def split: go.splits prod.splits)

text \<open>A gate that was bound is where the user is looked for.\<close>

lemma BindGate_locates:
  assumes "BindGate env gid cid uid l = (Ok (r, None), l')" "leLocate env = Some loc"
  shows "LocateGate env uid l' = (Ok gid, l')"
proof -
  have "gid \<noteq> ''''" using assms(1) by (auto simp: BindGate_def on_gate_def gl_doBuildClient_def split: if_splits)
  moreover have "glSources l' uid = Some gid"
    using assms(1) by (auto simp: BindGate_def split: go.splits option.splits prod.splits)
  ultimately show ?thesis using assms(2) by (intro LocateGate_cached)
qed

text \<open>Where the linker knows the user to be: the two endpoints are registered and can be dialled.\<close>

definition gates_known :: "('d, 'w) link_env \<Rightarrow> (string \<Rightarrow> string option) \<Rightarrow> 'w glink \<Rightarrow> bool" where
  "gates_known env addr l \<longleftrightarrow>
     (\<forall>gid a. addr gid = Some a \<longrightarrow> gid \<noteq> '''' \<and> (\<exists>ep. FindEndpoint gid (glDisp l) = Ok ep \<and> Endpoint_Address ep = a)) \<and>
     (\<forall>a w. leBuild env a w = (None, w))"

lemma gates_known_build:
  assumes "gates_known env addr l" "addr gid = Some a" "glDisp l' = glDisp l"
  shows "gl_doBuildClient env gid l' = (Ok a, l')"
proof -
  obtain ep where ep: "FindEndpoint gid (glDisp l') = Ok ep" "Endpoint_Address ep = a" "gid \<noteq> ''''"
    using assms by (auto simp: gates_known_def)
  then show ?thesis using doBuildClient_known [OF ep(3,1), of env "glWorld l'"] assms(1) by (simp add: gates_known_def)
qed

lemma rpc_step:
  assumes "i < rpc_total" "LocateGate env uid l = (Ok gid, l1)" "gid \<noteq> prev" "gl_doBuildClient env gid l1 = (Ok a, l2)"
    "success a (i + 1) rpc_total l2 = ((continued, r, e), l3)"
  shows "rpc_loop env uid success failed i prev reply err l =
    (if continued then rpc_loop env uid success failed (i + 1) gid r e (l3\<lparr>glSources := (glSources l3)(uid := None)\<rparr>)
     else (Ok (r, e), l3))"
  using assms by (simp add: rpc_loop.simps [of env uid success failed i])

lemma rpc_same_gate:
  assumes "i < rpc_total" "LocateGate env uid l = (Ok gid, l1)" "gid = prev"
  shows "rpc_loop env uid success failed i prev reply err l = (Ok (reply, None), failed (i + 1) rpc_total l1)"
  using assms by (simp add: rpc_loop.simps [of env uid success failed i])

text \<open>The first attempt at the cached gate, when the session is not there.\<close>

lemma rpc_first_lost:
  assumes "gates_known env addr l" "leLocate env = Some loc" "glSources l uid = Some g1" "addr g1 = Some a1"
    "success a1 1 rpc_total l = ((True, r1, e1), l1)"
  shows "gl_doRPC env uid success failed l =
    rpc_loop env uid success failed 1 g1 r1 e1 (l1\<lparr>glSources := (glSources l1)(uid := None)\<rparr>)"
proof -
  have "g1 \<noteq> ''''" using assms(1,4) by (auto simp: gates_known_def)
  then show ?thesis
    using rpc_step [of 0 env uid l g1 l "''''" a1 l success True r1 e1 l1 failed None None]
      LocateGate_cached [OF assms(2,3)] gates_known_build [OF assms(1,4)] assms(5)
    by (simp add: gl_doRPC_def)
qed

lemma same_gate_swallows:
  assumes "gates_known env addr l" "leLocate env = Some loc" "glSources l uid = Some g1" "addr g1 = Some a1"
    and "success a1 1 rpc_total l = ((True, r1, Some ErrNotFoundSession), l\<lparr>glWorld := w1\<rparr>)" "loc uid w1 = (Ok g1, w2)"
  shows "\<exists>l'. gl_doRPC env uid success failed l = (Ok (r1, None), l')"
proof -
  let ?l1 = "l\<lparr>glWorld := w1, glSources := (glSources l)(uid := None)\<rparr>"
  have "g1 \<noteq> ''''" using assms(1,4) by (auto simp: gates_known_def)
  then have "LocateGate env uid ?l1 = (Ok g1, ?l1\<lparr>glWorld := w2, glSources := (glSources ?l1)(uid \<mapsto> g1)\<rparr>)"
    using LocateGate_asks [OF assms(2), of ?l1 uid g1 w2] assms(6) by simp
  then show ?thesis
    using rpc_first_lost [where success = success, OF assms(1-5)] rpc_same_gate [of 1 env uid ?l1 g1 _ g1 success failed r1] by simp
qed

section \<open>Properties\<close>

text \<open>C22. A stale location is repaired.  When the cached gate no longer has the user's session and the
  locator knows another gate, a call for the user reaches that gate on the second attempt, returns
  its reply, and the cache points to the new gate.\<close>

theorem stale_location_recovers:
  assumes "gates_known env addr l" "leLocate env = Some loc" "glSources l uid = Some g1" "addr g1 = Some a1" "addr g2 = Some a2"
    and "g1 \<noteq> g2" "f a1 (glWorld l) = ((r1, Some ErrNotFoundSession), w1)" "loc uid w1 = (Ok g2, w2)" "f a2 w2 = ((r2, None), w3)"
  shows "gl_doRPC env uid (rpc_call f) no_failed l =
    (Ok (Some r2, None), l\<lparr>glWorld := w3, glSources := (glSources l)(uid \<mapsto> g2)\<rparr>)"
proof -
  let ?l1 = "l\<lparr>glWorld := w1, glSources := (glSources l)(uid := None)\<rparr>"
  let ?l2 = "l\<lparr>glWorld := w2, glSources := (glSources l)(uid \<mapsto> g2)\<rparr>"
  have first: "rpc_call f a1 1 rpc_total l = ((True, Some r1, Some ErrNotFoundSession), l\<lparr>glWorld := w1\<rparr>)"
    using assms(7) by (simp add: rpc_call_def on_world_def session_lost_def)
  have "g2 \<noteq> ''''" using assms(1,5) by (auto simp: gates_known_def)
  then have "LocateGate env uid ?l1 = (Ok g2, ?l2)" using LocateGate_asks [OF assms(2), of ?l1 uid g2 w2] assms(8) by simp
  moreover have "gl_doBuildClient env g2 ?l2 = (Ok a2, ?l2)" by (rule gates_known_build [OF assms(1,5)]) simp
  moreover have "rpc_call f a2 (1 + 1) rpc_total ?l2 = ((False, Some r2, None), l\<lparr>glWorld := w3, glSources := (glSources l)(uid \<mapsto> g2)\<rparr>)"
    using assms(9) by (simp add: rpc_call_def on_world_def session_lost_def)
  ultimately show ?thesis
    using rpc_first_lost [where success = "rpc_call f", OF assms(1-4) first] assms(6) rpc_step [of 1 env uid ?l1 g2 ?l2 g1 a2 ?l2 "rpc_call f"] by simp
qed

text \<open>Two gates; the user's session is on the second, and so says the locator.\<close>

definition sample_endpoint :: "string \<Rightarrow> endpoint" where
  "sample_endpoint a = NewEndpoint ''tcp'' a False"

definition sample_link :: "nat glink" where
  "sample_link = \<lparr>glSources = [7 \<mapsto> ''g1''],
     glDisp = (NewDispatcher ''rr'')\<lparr>dEndpoints := [(''g1'', sample_endpoint ''a1''), (''g2'', sample_endpoint ''a2'')]\<rparr>, glWorld = 0\<rparr>"

definition sample_env :: "string \<Rightarrow> (unit, nat) link_env" where
  "sample_env gid = \<lparr>leClient = undefined\<lparr>gcPush := \<lambda>a k t m ack w. (if a = ''a2'' then None else Some ErrNotFoundSession, Suc w)\<rparr>,
     leBuild = (\<lambda>a w. (None, w)), leLocate = Some (\<lambda>uid w. (Ok gid, w)), leMarshal = (\<lambda>_. Ok []), leEncrypt = None,
     lePacker = defaultOptions ''big'' 4096, leRelease = (\<lambda>_ w. w)\<rparr>"

definition sample_addr :: "string \<Rightarrow> string option" where
  "sample_addr = [''g1'' \<mapsto> ''a1'', ''g2'' \<mapsto> ''a2'']"

lemma sample_known: "gates_known (sample_env gid) sample_addr sample_link"
  by (auto simp: gates_known_def sample_addr_def sample_link_def sample_env_def FindEndpoint_def sample_endpoint_def
      NewEndpoint_def Endpoint_Address_def NewDispatcher_def split: if_splits)

theorem stale_location_recovers_witness:
  "gl_doRPC (sample_env ''g2'') 7 (rpc_call (\<lambda>a w. ((a, if a = ''a2'' then None else Some ErrNotFoundSession), Suc w))) no_failed sample_link
     = (Ok (Some ''a2'', None), sample_link\<lparr>glWorld := 2, glSources := (glSources sample_link)(7 \<mapsto> ''g2'')\<rparr>)"
  by (rule stale_location_recovers [OF sample_known, where ?loc = "\<lambda>uid w. (Ok ''g2'', w)" and ?g1.0 = "''g1''" and ?a1.0 = "''a1''"
      and ?r1.0 = "''a1''" and ?w1.0 = 1 and ?w2.0 = 1])
    (simp_all add: sample_env_def sample_link_def sample_addr_def)

text \<open>The error of a lost session is swallowed when the locator still names the same gate: a push
  with acknowledgement to a user whose session is gone returns no error, and counts as delivered.\<close>

theorem push_error_swallowed:
  assumes "gates_known env addr l" "leLocate env = Some loc" "glSources l uid = Some g1" "addr g1 = Some a1"
    and "gcPush (leClient env) a1 kind uid message True (glWorld l) = (Some ErrNotFoundSession, w1)" "loc uid w1 = (Ok g1, w2)"
  shows "\<exists>l'. doPush env kind message True uid l = (Ok None, l')"
proof -
  have "push_handler env kind uid message True a1 1 rpc_total l = ((True, None, Some ErrNotFoundSession), l\<lparr>glWorld := w1\<rparr>)"
    using assms(5) by (simp add: push_handler_def on_world_def session_lost_def)
  from same_gate_swallows [where success = "push_handler env kind uid message True" and failed = "release_rest env message",
      OF assms(1-4) this assms(6)] show ?thesis by (auto simp: doPush_def)
qed

theorem push_error_swallowed_witness:
  "\<exists>l'. doPush (sample_env ''g1'') 2 empty_nocopy True 7 sample_link = (Ok None, l')"
  by (rule push_error_swallowed [OF sample_known, where ?loc = "\<lambda>uid w. (Ok ''g1'', w)" and ?g1.0 = "''g1''" and ?a1.0 = "''a1''" and ?w1.0 = 1])
    (simp_all add: sample_env_def sample_link_def sample_addr_def)

end
