(* ===== verification/NodeLink.thy ===== *)
theory NodeLink
  imports GateLink
begin

text \<open>
  \<open>internal/link/node.go\<close>: how a gate or a node finds the node a user is bound to, binds users to
  nodes and delivers messages.  The linker caches the bindings of each user by node group; a node
  counts the users bound to itself through two handlers, which it waits for before it shuts down.

  As in \<open>GateLink\<close>, the locator, the builder and the client are arguments over a state \<open>'w\<close>.
\<close>

section \<open>State\<close>

record NodeBinding =
  nbNID :: string
  nbMetadata :: "(string \<times> string) list"

type_synonym node_sources = "(int64 \<times> (string \<times> NodeBinding) list) list"

record ('d, 'w) node_env =
  neInsID :: string
  neWaitHandler :: bool
  neDoneHandler :: bool
  neLocate :: "(int64 \<Rightarrow> string \<Rightarrow> 'w \<Rightarrow> NodeBinding go \<times> 'w) option"
  neBind :: "int64 \<Rightarrow> string \<Rightarrow> NodeBinding \<Rightarrow> 'w \<Rightarrow> goerr option \<times> 'w"
  neUnbind :: "int64 \<Rightarrow> string \<Rightarrow> string \<Rightarrow> 'w \<Rightarrow> goerr option \<times> 'w"
  neLocateNodes :: "int64 \<Rightarrow> 'w \<Rightarrow> (string \<times> string) list go \<times> 'w"
  neResolve :: "(int64 \<Rightarrow> string) option"
  neRand :: "nat \<Rightarrow> nat"
  neBuild :: "string \<Rightarrow> 'w \<Rightarrow> goerr option \<times> 'w"
  neDeliver :: "string \<Rightarrow> int64 \<Rightarrow> int64 \<Rightarrow> (string \<times> string) list \<Rightarrow> nocopy \<Rightarrow> 'w \<Rightarrow> goerr option \<times> 'w"
  neTrigger :: "string \<Rightarrow> int \<Rightarrow> int64 \<Rightarrow> int64 \<Rightarrow> 'w \<Rightarrow> goerr option \<times> 'w"
  neGetState :: "string \<Rightarrow> 'w \<Rightarrow> (int \<times> goerr option) \<times> 'w"
  neSetState :: "string \<Rightarrow> int \<Rightarrow> 'w \<Rightarrow> goerr option \<times> 'w"
  neMarshal :: "'d \<Rightarrow> bytes go"
  neEncrypt :: "(bytes \<Rightarrow> bytes go) option"
  nePacker :: packer_options
  neRelease :: "nocopy \<Rightarrow> 'w \<Rightarrow> 'w"

text \<open>\<open>nlWaits\<close> and \<open>nlDones\<close> count the calls of \<open>WaitHandler\<close> and \<open>DoneHandler\<close>.\<close>

record 'w nlink =
  nlSources :: node_sources
  nlWaits :: nat
  nlDones :: nat
  nlDisp :: Dispatcher
  nlWorld :: 'w

definition nl_on_world :: "('w \<Rightarrow> 'r \<times> 'w) \<Rightarrow> 'w nlink \<Rightarrow> 'r \<times> 'w nlink" where
  "nl_on_world f l = (let (r, w) = f (nlWorld l) in (r, l\<lparr>nlWorld := w\<rparr>))"

section \<open>The cache\<close>

definition doLoadSource :: "int64 \<Rightarrow> string \<Rightarrow> 'w nlink \<Rightarrow> NodeBinding option" where
  "doLoadSource uid name l = Option.bind (map_of (nlSources l) uid) (\<lambda>sources. map_of sources name)"

text \<open>The new sources, whether to wait and whether to be done.\<close>

definition store_source :: "string \<Rightarrow> int64 \<Rightarrow> string \<Rightarrow> NodeBinding \<Rightarrow> node_sources \<Rightarrow> node_sources \<times> bool \<times> bool" where
  "store_source insID uid name binding srcs =
     (case map_of srcs uid of
        Some sources \<Rightarrow>
          let srcs' = AList.update uid (AList.update name binding sources) srcs
          in (case map_of sources name of
                Some oldBinding \<Rightarrow>
                  if nbNID oldBinding = nbNID binding then (srcs', False, False)
                  else if insID = nbNID oldBinding then (srcs', False, True)
                  else if insID = nbNID binding then (srcs', True, False)
                  else (srcs', False, False)
              | None \<Rightarrow> (srcs', insID = nbNID binding, False))
      | None \<Rightarrow> (AList.update uid [(name, binding)] srcs, insID = nbNID binding, False))"

definition call_handlers :: "('d, 'w) node_env \<Rightarrow> bool \<Rightarrow> bool \<Rightarrow> 'w nlink \<Rightarrow> 'w nlink" where
  "call_handlers env wait dn l =
     (let l = (if wait \<and> neWaitHandler env then l\<lparr>nlWaits := Suc (nlWaits l)\<rparr> else l)
      in if dn \<and> neDoneHandler env then l\<lparr>nlDones := Suc (nlDones l)\<rparr> else l)"

definition doStoreSource :: "('d, 'w) node_env \<Rightarrow> int64 \<Rightarrow> string \<Rightarrow> NodeBinding \<Rightarrow> 'w nlink \<Rightarrow> 'w nlink" where
  "doStoreSource env uid name binding l =
     (let (srcs, wait, dn) = store_source (neInsID env) uid name binding (nlSources l)
      in call_handlers env wait dn (l\<lparr>nlSources := srcs\<rparr>))"

definition delete_source :: "string \<Rightarrow> int64 \<Rightarrow> string \<Rightarrow> string \<Rightarrow> node_sources \<Rightarrow> node_sources \<times> bool" where
  "delete_source insID uid name nid srcs =
     (case map_of srcs uid of
        None \<Rightarrow> (srcs, False)
      | Some sources \<Rightarrow>
          (case map_of sources name of
             None \<Rightarrow> (srcs, False)
           | Some oldBinding \<Rightarrow>
               if nbNID oldBinding \<noteq> nid then (srcs, False)
               else (if length sources = 1 then AList.delete uid srcs
                     else AList.update uid (AList.delete name sources) srcs,
                     nbNID oldBinding = insID)))"

definition doDeleteSource :: "('d, 'w) node_env \<Rightarrow> int64 \<Rightarrow> string \<Rightarrow> string \<Rightarrow> 'w nlink \<Rightarrow> 'w nlink" where
  "doDeleteSource env uid name nid l =
     (let (srcs, dn) = delete_source (neInsID env) uid name nid (nlSources l)
      in call_handlers env False dn (l\<lparr>nlSources := srcs\<rparr>))"

section \<open>Locating and binding\<close>

definition HasNode :: "string \<Rightarrow> 'w nlink \<Rightarrow> bool" where
  "HasNode nid l = (case FindEndpoint nid (nlDisp l) of Ok _ \<Rightarrow> True | _ \<Rightarrow> False)"

definition LocateNodeBinding :: "('d, 'w) node_env \<Rightarrow> int64 \<Rightarrow> string \<Rightarrow> 'w nlink \<Rightarrow> NodeBinding go \<times> 'w nlink" where
  "LocateNodeBinding env uid name l =
     (case neLocate env of
        None \<Rightarrow> (Err ErrNotFoundLocator, l)
      | Some locate \<Rightarrow>
          (case doLoadSource uid name l of
             Some binding \<Rightarrow> (Ok binding, l)
           | None \<Rightarrow>
               (case nl_on_world (locate uid name) l of
                  (Ok binding, l) \<Rightarrow>
                    if nbNID binding = '''' then (Err ErrNotFoundUserLocation, l)
                    else (Ok binding, doStoreSource env uid name binding l)
                | (res, l) \<Rightarrow> (res, l))))"

definition LocateNode :: "('d, 'w) node_env \<Rightarrow> int64 \<Rightarrow> string \<Rightarrow> 'w nlink \<Rightarrow> string go \<times> 'w nlink" where
  "LocateNode env uid name l = (let (res, l) = LocateNodeBinding env uid name l in (go_map nbNID res, l))"

definition AskNode :: "('d, 'w) node_env \<Rightarrow> int64 \<Rightarrow> string \<Rightarrow> string \<Rightarrow> 'w nlink \<Rightarrow> (string \<times> bool) go \<times> 'w nlink" where
  "AskNode env uid name nid l =
     (let (res, l) = LocateNodeBinding env uid name l in (go_map (\<lambda>b. (nbNID b, nbNID b = nid)) res, l))"

definition LocateNodes :: "('d, 'w) node_env \<Rightarrow> int64 \<Rightarrow> 'w nlink \<Rightarrow> (string \<times> string) list go \<times> 'w nlink" where
  "LocateNodes env uid l =
     (if neLocate env = None then (Err ErrNotFoundLocator, l) else nl_on_world (neLocateNodes env uid) l)"

definition BindNode :: "('d, 'w) node_env \<Rightarrow> int64 \<Rightarrow> string \<Rightarrow> NodeBinding \<Rightarrow> 'w nlink \<Rightarrow> goerr option \<times> 'w nlink" where
  "BindNode env uid name binding l =
     (if neLocate env = None then (Some ErrNotFoundLocator, l)
      else case nl_on_world (neBind env uid name binding) l of
             (Some e, l) \<Rightarrow> (Some e, l)
           | (None, l) \<Rightarrow> (None, doStoreSource env uid name binding l))"

definition UnbindNode :: "('d, 'w) node_env \<Rightarrow> int64 \<Rightarrow> string \<Rightarrow> string \<Rightarrow> 'w nlink \<Rightarrow> goerr option \<times> 'w nlink" where
  "UnbindNode env uid name nid l =
     (if neLocate env = None then (Some ErrNotFoundLocator, l)
      else case nl_on_world (neUnbind env uid name nid) l of
             (Some e, l) \<Rightarrow> (Some e, l)
           | (None, l) \<Rightarrow> (None, doDeleteSource env uid name nid l))"

definition resolveServiceStatus :: "('d, 'w) node_env \<Rightarrow> int64 \<Rightarrow> string" where
  "resolveServiceStatus env uid = (case neResolve env of Some f \<Rightarrow> f uid | None \<Rightarrow> ServiceStatusNormal)"

definition bind_selected :: "('d, 'w) node_env \<Rightarrow> int64 \<Rightarrow> int32 \<Rightarrow> string \<Rightarrow> 'w nlink \<Rightarrow> goerr option go \<times> 'w nlink" where
  "bind_selected env uid gameID name l =
     (case SelectGameNode (neRand env) gameID (resolveServiceStatus env uid) (nlDisp l) of
        Err e \<Rightarrow> (Ok (Some e), l)
      | Panic \<Rightarrow> (Panic, l)
      | Ok ((_, nid), d) \<Rightarrow> apfst Ok (BindNode env uid name \<lparr>nbNID = nid, nbMetadata = []\<rparr> (l\<lparr>nlDisp := d\<rparr>)))"

definition BindGameNode :: "('d, 'w) node_env \<Rightarrow> int64 \<Rightarrow> int32 \<Rightarrow> 'w nlink \<Rightarrow> goerr option go \<times> 'w nlink" where
  "BindGameNode env uid gameID l =
     (case FindGameRoute gameID (nlDisp l) of
        Err e \<Rightarrow> (Ok (Some e), l)
      | Panic \<Rightarrow> (Panic, l)
      | Ok route \<Rightarrow>
          let name = grGroup route; (res, l) = LocateNode env uid name l
          in (case res of
                Panic \<Rightarrow> (Panic, l)
              | Ok nid \<Rightarrow> if HasNode nid l then (Ok None, l) else bind_selected env uid gameID name l
              | Err e \<Rightarrow> if e \<noteq> ErrNotFoundUserLocation then (Ok (Some e), l) else bind_selected env uid gameID name l))"

definition NewNodeLinker :: "string \<Rightarrow> 'w \<Rightarrow> 'w nlink" where
  "NewNodeLinker disp w = \<lparr>nlSources = [], nlWaits = 0, nlDones = 0, nlDisp = NewDispatcher disp, nlWorld = w\<rparr>"

definition FetchNodeList :: "('w \<Rightarrow> ServiceInstance list go \<times> 'w) \<Rightarrow> string list \<Rightarrow> 'w nlink \<Rightarrow> ServiceInstance list go \<times> 'w nlink" where
  "FetchNodeList services states l =
     (let (res, l) = nl_on_world services l
      in (go_map (\<lambda>ss. if states = [] then ss else filter (\<lambda>i. siState i \<in> set states) ss) res, l))"

section \<open>Calls to a node\<close>

definition nl_build :: "('d, 'w) node_env \<Rightarrow> endpoint \<Rightarrow> 'w nlink \<Rightarrow> string go \<times> 'w nlink" where
  "nl_build env ep l =
     (let addr = Endpoint_Address ep; (err, l) = nl_on_world (neBuild env addr) l
      in (case err of None \<Rightarrow> Ok addr | Some e \<Rightarrow> Err e, l))"

definition nl_doBuildClient :: "('d, 'w) node_env \<Rightarrow> string \<Rightarrow> 'w nlink \<Rightarrow> string go \<times> 'w nlink" where
  "nl_doBuildClient env nid l =
     (if nid = '''' then (Err ErrInvalidNID, l)
      else case FindEndpoint nid (nlDisp l) of
             Ok ep \<Rightarrow> nl_build env ep l
           | Err e \<Rightarrow> (Err e, l)
           | Panic \<Rightarrow> (Panic, l))"

text \<open>\<open>cluster.Shut\<close> is 0.\<close>

definition nl_GetState :: "('d, 'w) node_env \<Rightarrow> string \<Rightarrow> 'w nlink \<Rightarrow> (int \<times> goerr option) go \<times> 'w nlink" where
  "nl_GetState env nid l =
     (case nl_doBuildClient env nid l of
        (Ok client, l) \<Rightarrow> apfst Ok (nl_on_world (neGetState env client) l)
      | (Err e, l) \<Rightarrow> (Ok (0, Some e), l)
      | (Panic, l) \<Rightarrow> (Panic, l))"

definition nl_SetState :: "('d, 'w) node_env \<Rightarrow> string \<Rightarrow> int \<Rightarrow> 'w nlink \<Rightarrow> goerr option go \<times> 'w nlink" where
  "nl_SetState env nid state l =
     (case nl_doBuildClient env nid l of
        (Ok client, l) \<Rightarrow> apfst Ok (nl_on_world (neSetState env client state) l)
      | (Err e, l) \<Rightarrow> (Ok (Some e), l)
      | (Panic, l) \<Rightarrow> (Panic, l))"

text \<open>One goroutine per endpoint of the event; the first error is returned.\<close>

fun trigger_group :: "('d, 'w) node_env \<Rightarrow> int \<Rightarrow> int64 \<Rightarrow> int64 \<Rightarrow> endpoint list \<Rightarrow> 'w nlink \<Rightarrow> goerr option \<times> 'w nlink" where
  "trigger_group env evt cid uid [] l = (None, l)"
| "trigger_group env evt cid uid (ep # eps) l =
     (let (res, l) = nl_build env ep l;
          (err, l) = (case res of
                        Ok client \<Rightarrow> nl_on_world (neTrigger env client evt cid uid) l
                      | Err e \<Rightarrow> (Some e, l)
                      | Panic \<Rightarrow> (None, l));
          (err', l) = trigger_group env evt cid uid eps l
      in (if err = None then err' else err, l))"

definition nl_Trigger :: "('d, 'w) node_env \<Rightarrow> int \<Rightarrow> int64 \<Rightarrow> int64 \<Rightarrow> 'w nlink \<Rightarrow> goerr option \<times> 'w nlink" where
  "nl_Trigger env evt cid uid l =
     (case FindEvent evt (nlDisp l) of
        Ok e \<Rightarrow> trigger_group env evt cid uid (map (\<lambda>r. seEndpoint (dStore (nlDisp l) ! r)) (Event_VisitEndpoints e)) l
      | Err e \<Rightarrow> (Some e, l)
      | Panic \<Rightarrow> (None, l))"

text \<open>A handler of \<open>doRPC\<close> is given the client and the metadata of the binding; it returns whether to go
  on, the reply and the error.\<close>

type_synonym ('r, 'w) node_handler =
  "string \<Rightarrow> (string \<times> string) list \<Rightarrow> 'w nlink \<Rightarrow> (bool \<times> 'r option \<times> goerr option) \<times> 'w nlink"

text \<open>\<open>route.FindEndpointForServiceStatus\<close> on the route that the dispatcher holds, which it may advance.\<close>

definition find_node :: "('d, 'w) node_env \<Rightarrow> int32 \<Rightarrow> int64 \<Rightarrow> string \<Rightarrow> 'w nlink \<Rightarrow> endpoint go \<times> 'w nlink" where
  "find_node env gameID uid nid l =
     (let d = nlDisp l
      in case go_bind (FindGameRoute gameID d) (\<lambda>route.
                FindEndpointForServiceStatus (neRand env) (dDispatch d) (resolveServiceStatus env uid) [nid] route (dStore d)) of
           Ok (ep, route, st) \<Rightarrow> (Ok ep, l\<lparr>nlDisp := d\<lparr>dRoutes := AList.update gameID route (dRoutes d), dStore := st\<rparr>\<rparr>)
         | Err e \<Rightarrow> (Err e, l)
         | Panic \<Rightarrow> (Panic, l))"

text \<open>The node a user is bound to in a group and the metadata of the binding; neither when the user is
  anonymous or not bound.\<close>

definition bound_node :: "('d, 'w) node_env \<Rightarrow> int64 \<Rightarrow> string \<Rightarrow> 'w nlink \<Rightarrow> NodeBinding option go \<times> 'w nlink" where
  "bound_node env uid grp l =
     (if uid = 0 then (Ok None, l)
      else case LocateNodeBinding env uid grp l of
             (Ok binding, l) \<Rightarrow> (Ok (Some binding), l)
           | (Err e, l) \<Rightarrow> (if e = ErrNotFoundUserLocation then Ok None else Err e, l)
           | (Panic, l) \<Rightarrow> (Panic, l))"

text \<open>One attempt: the client and the metadata, or the error that ends the call.\<close>

definition node_client ::
    "('d, 'w) node_env \<Rightarrow> int32 \<Rightarrow> int64 \<Rightarrow> string \<Rightarrow> 'w nlink \<Rightarrow> string go \<times> 'w nlink" where
  "node_client env gameID uid nid l =
     (case find_node env gameID uid nid l of
        (Ok ep, l) \<Rightarrow> nl_build env ep l
      | (Err e, l) \<Rightarrow> (Err e, l)
      | (Panic, l) \<Rightarrow> (Panic, l))"

fun nl_rpc_loop ::
    "('d, 'w) node_env \<Rightarrow> int32 \<Rightarrow> int64 \<Rightarrow> string \<Rightarrow> ('r, 'w) node_handler \<Rightarrow> nat \<Rightarrow> string \<Rightarrow> 'r option \<Rightarrow>
     goerr option \<Rightarrow> 'w nlink \<Rightarrow> ('r option \<times> goerr option) go \<times> 'w nlink" where
  "nl_rpc_loop env gameID uid grp fn 0 prev reply err l = (Ok (reply, err), l)"
| "nl_rpc_loop env gameID uid grp fn (Suc n) prev reply err l =
     (case bound_node env uid grp l of
        (Err e, l) \<Rightarrow> (Ok (None, Some e), l)
      | (Panic, l) \<Rightarrow> (Panic, l)
      | (Ok binding, l) \<Rightarrow>
          let nid = (case binding of None \<Rightarrow> '''' | Some b \<Rightarrow> nbNID b);
              metadata = (case binding of None \<Rightarrow> [] | Some b \<Rightarrow> nbMetadata b)
          in if binding \<noteq> None \<and> nid = prev then (Ok (reply, None), l)
             else case node_client env gameID uid nid l of
                    (Err e, l) \<Rightarrow> (Ok (None, Some e), l)
                  | (Panic, l) \<Rightarrow> (Panic, l)
                  | (Ok client, l) \<Rightarrow>
                      (case fn client metadata l of
                         ((continued, reply, err), l) \<Rightarrow>
                           if continued
                           then nl_rpc_loop env gameID uid grp fn n nid reply err
                                  (if uid \<noteq> 0 \<and> prev \<noteq> '''' then doDeleteSource env uid grp prev l else l)
                           else (Ok (reply, err), l)))"

definition nl_doRPC ::
    "('d, 'w) node_env \<Rightarrow> int32 \<Rightarrow> int64 \<Rightarrow> ('r, 'w) node_handler \<Rightarrow> 'w nlink \<Rightarrow> ('r option \<times> goerr option) go \<times> 'w nlink" where
  "nl_doRPC env gameID uid fn l =
     (case FindGameRoute gameID (nlDisp l) of
        Err e \<Rightarrow> (Ok (None, Some e), l)
      | Panic \<Rightarrow> (Panic, l)
      | Ok route \<Rightarrow> nl_rpc_loop env gameID uid (grGroup route) fn 2 '''' None None l)"

section \<open>Delivering\<close>

definition nl_PackBuffer :: "('d, 'w) node_env \<Rightarrow> 'd payload \<Rightarrow> bool \<Rightarrow> bytes go" where
  "nl_PackBuffer env message encrypt =
     (case message of
        NoData \<Rightarrow> Ok []
      | RawData v \<Rightarrow> Ok v
      | ValueData d \<Rightarrow>
          go_bind (neMarshal env d) (\<lambda>data.
            case neEncrypt env of
              Some enc \<Rightarrow> if encrypt then enc data else Ok data
            | None \<Rightarrow> Ok data))"

definition nl_PackMessage :: "('d, 'w) node_env \<Rightarrow> 'd link_message \<Rightarrow> bool \<Rightarrow> nocopy go" where
  "nl_PackMessage env m encrypt =
     go_bind (nl_PackBuffer env (lmData m) encrypt) (\<lambda>buf.
     go_bind (PackMessage (nePacker env) \<lparr>mSeq = lmSeq m, mGameID = lmGameID m, mMessageID = lmMessageID m, mBuffer = buf\<rparr>)
       (\<lambda>wire. Ok (NewNocopyBuffer [MBlock (RawBlock wire)])))"

text \<open>The argument \<open>args.Buffer\<close> of type \<open>any\<close>.\<close>

datatype 'd deliver_buffer = DeliverBytes bytes | DeliverBuffer nocopy | DeliverMessage "'d link_message" | DeliverOther

record 'd DeliverArgs =
  daNID :: string
  daCID :: int64
  daUID :: int64
  daMetadata :: "(string \<times> string) list"
  daGameID :: int32
  daBuffer :: "'d deliver_buffer"

text \<open>When \<open>PackMessage\<close> fails, \<open>buf\<close> holds a nil \<open>*NocopyBuffer\<close>, and its \<open>Release\<close> panics.\<close>

definition deliver_buf :: "('d, 'w) node_env \<Rightarrow> 'd deliver_buffer \<Rightarrow> nocopy go" where
  "deliver_buf env b =
     (case b of
        DeliverBytes bs \<Rightarrow> Ok (NewNocopyBuffer [MBlock (RawBlock bs)])
      | DeliverBuffer buf \<Rightarrow> Ok buf
      | DeliverMessage m \<Rightarrow> (case nl_PackMessage env m False of Err e \<Rightarrow> Panic | res \<Rightarrow> res)
      | DeliverOther \<Rightarrow> Err ErrInvalidMessage)"

definition nl_release :: "('d, 'w) node_env \<Rightarrow> nocopy \<Rightarrow> 'w nlink \<Rightarrow> 'w nlink" where
  "nl_release env buf l = l\<lparr>nlWorld := neRelease env buf (nlWorld l)\<rparr>"

text \<open>The reply stands for \<open>isDeliver\<close>: there is one exactly when the handler ran.\<close>

definition deliver_handler :: "('d, 'w) node_env \<Rightarrow> int64 \<Rightarrow> int64 \<Rightarrow> nocopy \<Rightarrow> (unit, 'w) node_handler" where
  "deliver_handler env cid uid buf client metadata l =
     (let (err, l) = nl_on_world (neDeliver env client cid uid metadata buf) l in ((False, Some (), err), l))"

definition Deliver :: "('d, 'w) node_env \<Rightarrow> 'd DeliverArgs \<Rightarrow> 'w nlink \<Rightarrow> goerr option go \<times> 'w nlink" where
  "Deliver env args l =
     (case deliver_buf env (daBuffer args) of
        Err e \<Rightarrow> (Ok (Some e), l)
      | Panic \<Rightarrow> (Panic, l)
      | Ok buf \<Rightarrow>
          if daNID args \<noteq> ''''
          then case nl_doBuildClient env (daNID args) l of
                 (Err e, l) \<Rightarrow> (Ok (Some e), nl_release env buf l)
               | (Panic, l) \<Rightarrow> (Panic, l)
               | (Ok client, l) \<Rightarrow>
                   apfst Ok (nl_on_world (neDeliver env client (daCID args) (daUID args) (daMetadata args) buf) l)
          else case nl_doRPC env (daGameID args) (daUID args) (deliver_handler env (daCID args) (daUID args) buf) l of
                 (Ok (isDeliver, Some e), l) \<Rightarrow>
                   (Ok (if e = ErrNotFoundUserLocation then None else Some e),
                    if isDeliver = None then nl_release env buf l else l)
               | (Ok (_, None), l) \<Rightarrow> (Ok None, l)
               | (Err e, l) \<Rightarrow> (Err e, l)
               | (Panic, l) \<Rightarrow> (Panic, l))"

section \<open>Watching\<close>

datatype node_event =
    NodeBound int64 string string "(string \<times> string) list"
  | NodeUnbound int64 string string
  | OtherNodeEvent

fun watch_node_event :: "('d, 'w) node_env \<Rightarrow> node_event \<Rightarrow> 'w nlink \<Rightarrow> 'w nlink" where
  "watch_node_event env (NodeBound uid insName insID metadata) l =
     doStoreSource env uid insName \<lparr>nbNID = insID, nbMetadata = metadata\<rparr> l"
| "watch_node_event env (NodeUnbound uid insName insID) l = doDeleteSource env uid insName insID l"
| "watch_node_event env OtherNodeEvent l = l"

definition nl_WatchUserLocate :: "('d, 'w) node_env \<Rightarrow> node_event list \<Rightarrow> 'w nlink \<Rightarrow> 'w nlink" where
  "nl_WatchUserLocate env events l = fold (watch_node_event env) events l"

definition nl_WatchClusterInstance :: "(string \<Rightarrow> url option) \<Rightarrow> ServiceInstance option list \<Rightarrow> 'w nlink \<Rightarrow> 'w nlink go" where
  "nl_WatchClusterInstance parse services l = go_map (\<lambda>d. l\<lparr>nlDisp := d\<rparr>) (ReplaceServices parse services (nlDisp l))"

section \<open>Sums over association lists\<close>

definition alist_sum :: "('v \<Rightarrow> nat) \<Rightarrow> ('k \<times> 'v) list \<Rightarrow> nat" where
  "alist_sum f xs = sum_list (map (f \<circ> snd) xs)"

abbreviation key_value :: "('v \<Rightarrow> nat) \<Rightarrow> ('k \<times> 'v) list \<Rightarrow> 'k \<Rightarrow> nat" where
  "key_value f xs k \<equiv> case map_of xs k of None \<Rightarrow> 0 | Some v \<Rightarrow> f v"

lemma alist_sum_update:
  "alist_sum f (AList.update k v xs) + key_value f xs k = alist_sum f xs + f v"
  by (induction xs) (auto simp: alist_sum_def)

lemma alist_sum_delete:
  "distinct (map fst xs) \<Longrightarrow> alist_sum f (AList.delete k xs) + key_value f xs k = alist_sum f xs"
proof (induction xs)
  case (Cons x xs)
  have "k \<notin> fst ` set xs \<Longrightarrow> AList.delete k xs = xs" by (simp add: AList.delete_idem)
  with Cons show ?case by (auto simp: alist_sum_def map_of_eq_None_iff split: option.splits)
qed (simp add: alist_sum_def)

lemma map_of_update_same: "map_of (AList.update k v xs) k = Some v"
  by (simp add: AList.update_conv')

section \<open>Users bound to this node\<close>

text \<open>The number of cached bindings, over all users and groups, that point to the instance.\<close>

definition own_group_bindings :: "string \<Rightarrow> (string \<times> NodeBinding) list \<Rightarrow> nat" where
  "own_group_bindings insID = alist_sum (\<lambda>b. if nbNID b = insID then 1 else 0)"

definition own_bindings :: "string \<Rightarrow> node_sources \<Rightarrow> nat" where
  "own_bindings insID = alist_sum (own_group_bindings insID)"

definition sources_ok :: "node_sources \<Rightarrow> bool" where
  "sources_ok srcs \<longleftrightarrow> distinct (map fst srcs) \<and>
     (\<forall>uid sources. map_of srcs uid = Some sources \<longrightarrow> distinct (map fst sources) \<and> sources \<noteq> [])"

definition wait_balance :: "('d, 'w) node_env \<Rightarrow> 'w nlink \<Rightarrow> bool" where
  "wait_balance env l \<longleftrightarrow> sources_ok (nlSources l) \<and> nlWaits l = nlDones l + own_bindings (neInsID env) (nlSources l)"

lemma sources_ok_update:
  "\<lbrakk>sources_ok srcs; distinct (map fst sources); sources \<noteq> []\<rbrakk> \<Longrightarrow> sources_ok (AList.update uid sources srcs)"
  by (auto simp: sources_ok_def AList.distinct_update AList.update_conv')

lemma sources_ok_delete: "sources_ok srcs \<Longrightarrow> sources_ok (AList.delete uid srcs)"
  by (auto simp: sources_ok_def AList.distinct_delete AList.delete_conv')

lemma store_source_ok:
  assumes "sources_ok srcs"
  shows "sources_ok (fst (store_source insID uid name binding srcs))"
proof -
  have "map_of srcs uid = Some sources \<Longrightarrow> sources_ok (AList.update uid (AList.update name binding sources) srcs)" for sources
    using assms by (intro sources_ok_update AList.distinct_update) (auto simp: sources_ok_def)
  moreover have "sources_ok (AList.update uid [(name, binding)] srcs)" by (rule sources_ok_update [OF assms]) simp_all
  ultimately show ?thesis by (simp add: store_source_def Let_def split: option.splits)
qed

lemma delete_source_ok:
  assumes "sources_ok srcs"
  shows "sources_ok (fst (delete_source insID uid name nid srcs))"
proof -
  have "sources_ok (AList.update uid (AList.delete name sources) srcs)"
    if h: "map_of srcs uid = Some sources" "length sources \<noteq> 1" "map_of sources name = Some b" for sources b
  proof (rule sources_ok_update [OF assms])
    have dist: "distinct (map fst sources)" using assms h(1) by (auto simp: sources_ok_def)
    then show "distinct (map fst (AList.delete name sources))" by (rule AList.distinct_delete)
    obtain x y zs where "sources = x # y # zs"
      using h(2,3) by (cases sources rule: list.exhaust; cases "tl sources") auto
    with dist show "AList.delete name sources \<noteq> []" by (cases x; cases y) auto
  qed
  with assms show ?thesis by (simp add: delete_source_def sources_ok_delete split: option.splits)
qed

text \<open>Storing a binding changes the number of own bindings by what the handlers are told.\<close>

lemma store_source_count:
  assumes "store_source insID uid name binding srcs = (srcs', wait, dn)"
  shows "own_bindings insID srcs' + (if dn then 1 else 0) = own_bindings insID srcs + (if wait then 1 else 0)"
proof (cases "map_of srcs uid")
  case None
  then show ?thesis
    using assms alist_sum_update [of "own_group_bindings insID" uid "[(name, binding)]" srcs]
    by (auto simp: store_source_def own_bindings_def own_group_bindings_def alist_sum_def)
next
  case (Some sources)
  let ?new = "AList.update name binding sources"
  have "own_bindings insID (AList.update uid ?new srcs) + own_group_bindings insID sources
      = own_bindings insID srcs + own_group_bindings insID ?new"
    using alist_sum_update [of "own_group_bindings insID" uid ?new srcs] Some by (simp add: own_bindings_def)
  moreover have "own_group_bindings insID ?new + key_value (\<lambda>b. if nbNID b = insID then 1 else 0) sources name
      = own_group_bindings insID sources + (if nbNID binding = insID then 1 else 0)"
    unfolding own_group_bindings_def by (rule alist_sum_update)
  ultimately show ?thesis
    using assms Some by (auto simp: store_source_def Let_def split: option.splits if_splits)
qed

lemma delete_source_count:
  assumes "delete_source insID uid name nid srcs = (srcs', dn)" "sources_ok srcs"
  shows "own_bindings insID srcs' + (if dn then 1 else 0) = own_bindings insID srcs"
proof (cases "Option.bind (map_of srcs uid) (\<lambda>sources. map_of sources name)")
  case None
  then show ?thesis using assms(1) by (auto simp: delete_source_def split: option.splits Option.bind_splits)
next
  case (Some b)
  then obtain sources where sources: "map_of srcs uid = Some sources" "map_of sources name = Some b"
    by (auto split: Option.bind_splits)
  let ?own = "if nbNID b = insID then 1 else 0"
  have dist: "distinct (map fst srcs)" "distinct (map fst sources)" using assms(2) sources(1) by (auto simp: sources_ok_def)
  have inner: "own_group_bindings insID (AList.delete name sources) + ?own = own_group_bindings insID sources"
    using alist_sum_delete [OF dist(2), of "\<lambda>b. if nbNID b = insID then 1 else 0" name] sources(2)
    by (simp add: own_group_bindings_def)
  have outer: "own_bindings insID (AList.delete uid srcs) + own_group_bindings insID sources = own_bindings insID srcs"
    using alist_sum_delete [OF dist(1), of "own_group_bindings insID" uid] sources(1) by (simp add: own_bindings_def)
  have upd: "own_bindings insID (AList.update uid (AList.delete name sources) srcs) + own_group_bindings insID sources
      = own_bindings insID srcs + own_group_bindings insID (AList.delete name sources)"
    using alist_sum_update [of "own_group_bindings insID" uid "AList.delete name sources" srcs] sources(1)
    by (simp add: own_bindings_def)
  have one: "own_group_bindings insID sources = ?own" if "length sources = 1"
    using that sources(2) by (cases sources) (auto simp: own_group_bindings_def alist_sum_def split: if_splits)
  show ?thesis
    using assms(1) sources inner outer upd one by (auto simp: delete_source_def split: if_splits)
qed

section \<open>Every operation keeps the balance\<close>

named_theorems balance_rules \<open>operations of the linker that keep the balance of the handlers\<close>

definition handlers_set :: "('d, 'w) node_env \<Rightarrow> bool" where
  "handlers_set env \<longleftrightarrow> neWaitHandler env \<and> neDoneHandler env"

lemma wait_balance_frame [simp]:
  "wait_balance env (l\<lparr>nlWorld := w\<rparr>) = wait_balance env l"
  "wait_balance env (l\<lparr>nlDisp := d\<rparr>) = wait_balance env l"
  by (simp_all add: wait_balance_def)

lemma balance_on_world [balance_rules]: "nl_on_world f l = (r, l') \<Longrightarrow> wait_balance env l' = wait_balance env l"
  by (auto simp: nl_on_world_def split: prod.splits)

lemma balance_build [balance_rules]: "nl_build env ep l = (r, l') \<Longrightarrow> wait_balance env' l' = wait_balance env' l"
  by (auto simp: nl_build_def Let_def dest: balance_on_world split: prod.splits)

lemma balance_doBuildClient [balance_rules]:
  "nl_doBuildClient env nid l = (r, l') \<Longrightarrow> wait_balance env' l' = wait_balance env' l"
  by (auto simp: nl_doBuildClient_def dest: balance_build split: if_splits go.splits)

lemma balance_find_node [balance_rules]:
  "find_node env gameID uid nid l = (r, l') \<Longrightarrow> wait_balance env' l' = wait_balance env' l"
  by (auto simp: find_node_def Let_def split: go.splits)

lemma balance_node_client [balance_rules]:
  "node_client env gameID uid nid l = (r, l') \<Longrightarrow> wait_balance env' l' = wait_balance env' l"
  by (auto simp: node_client_def dest: balance_build balance_find_node split: go.splits prod.splits)

lemma doStoreSource_balance [balance_rules]:
  "\<lbrakk>wait_balance env l; handlers_set env\<rbrakk> \<Longrightarrow> wait_balance env (doStoreSource env uid name binding l)"
  using store_source_ok [of "nlSources l" "neInsID env" uid name binding]
  by (auto simp: doStoreSource_def call_handlers_def wait_balance_def handlers_set_def Let_def
      dest: store_source_count split: prod.splits if_splits)

lemma doDeleteSource_balance [balance_rules]:
  "\<lbrakk>wait_balance env l; handlers_set env\<rbrakk> \<Longrightarrow> wait_balance env (doDeleteSource env uid name nid l)"
  using delete_source_ok [of "nlSources l" "neInsID env" uid name nid]
  by (auto simp: doDeleteSource_def call_handlers_def wait_balance_def handlers_set_def Let_def
      dest: delete_source_count split: prod.splits if_splits)

lemma LocateNodeBinding_balance [balance_rules]:
  "\<lbrakk>LocateNodeBinding env uid name l = (r, l'); wait_balance env l; handlers_set env\<rbrakk> \<Longrightarrow> wait_balance env l'"
  by (auto simp: LocateNodeBinding_def balance_rules dest: balance_on_world [where env = env] split: option.splits prod.splits go.splits if_splits)

lemma LocateNode_balance [balance_rules]:
  "\<lbrakk>LocateNode env uid name l = (r, l'); wait_balance env l; handlers_set env\<rbrakk> \<Longrightarrow> wait_balance env l'"
  by (auto simp: LocateNode_def dest: LocateNodeBinding_balance split: prod.splits)

lemma AskNode_balance [balance_rules]:
  "\<lbrakk>AskNode env uid name nid l = (r, l'); wait_balance env l; handlers_set env\<rbrakk> \<Longrightarrow> wait_balance env l'"
  by (auto simp: AskNode_def dest: LocateNodeBinding_balance split: prod.splits)

lemma BindNode_balance [balance_rules]:
  "\<lbrakk>BindNode env uid name binding l = (r, l'); wait_balance env l; handlers_set env\<rbrakk> \<Longrightarrow> wait_balance env l'"
  by (auto simp: BindNode_def balance_rules dest: balance_on_world [where env = env] split: option.splits prod.splits if_splits)

lemma UnbindNode_balance [balance_rules]:
  "\<lbrakk>UnbindNode env uid name nid l = (r, l'); wait_balance env l; handlers_set env\<rbrakk> \<Longrightarrow> wait_balance env l'"
  by (auto simp: UnbindNode_def balance_rules dest: balance_on_world [where env = env] split: option.splits prod.splits if_splits)

lemma bind_selected_balance:
  "\<lbrakk>bind_selected env uid gameID name l = (r, l'); wait_balance env l; handlers_set env\<rbrakk> \<Longrightarrow> wait_balance env l'"
  using BindNode_balance [where l = "l\<lparr>nlDisp := _\<rparr>"]
  by (auto simp: bind_selected_def apfst_def map_prod_def split: go.splits prod.splits)

lemma BindGameNode_balance [balance_rules]:
  "\<lbrakk>BindGameNode env uid gameID l = (r, l'); wait_balance env l; handlers_set env\<rbrakk> \<Longrightarrow> wait_balance env l'"
  by (auto simp: BindGameNode_def Let_def dest: bind_selected_balance LocateNode_balance split: go.splits prod.splits if_splits)

lemma bound_node_balance [balance_rules]:
  "\<lbrakk>bound_node env uid grp l = (r, l'); wait_balance env l; handlers_set env\<rbrakk> \<Longrightarrow> wait_balance env l'"
  by (auto simp: bound_node_def dest: LocateNodeBinding_balance split: go.splits prod.splits if_splits)

lemma nl_rpc_loop_balance:
  assumes "nl_rpc_loop env gameID uid grp fn n prev reply err l = (r, l')" "wait_balance env l" "handlers_set env"
    and fn: "\<And>client metadata l r l'. fn client metadata l = (r, l') \<Longrightarrow> wait_balance env l \<Longrightarrow> wait_balance env l'"
  shows "wait_balance env l'"
  using assms(1-3)
proof (induction n arbitrary: uid prev reply err l)
  case (Suc n)
  obtain b l1 where b: "bound_node env uid grp l = (b, l1)" by fastforce
  then have w1: "wait_balance env l1" using Suc.prems by (auto dest: bound_node_balance)
  show ?case
  proof (cases b)
    case (Ok binding)
    let ?nid = "case binding of None \<Rightarrow> '''' | Some b \<Rightarrow> nbNID b"
    obtain c l2 where c: "node_client env gameID uid ?nid l1 = (c, l2)" by fastforce
    then have w2: "wait_balance env l2" using w1 by (simp add: balance_node_client)
    note again = Suc.IH [OF _ _ Suc.prems(3)] and dropped = doDeleteSource_balance [OF _ Suc.prems(3)]
    have fnb: "fn client metadata l2 = (q, l3) \<Longrightarrow> wait_balance env l3" for client metadata q l3
      by (rule fn [OF _ w2])
    from Suc.prems(1) b c Ok w1 w2 show ?thesis
      by (auto simp: Let_def dest!: fnb dest: again intro: dropped split: if_splits go.splits prod.splits)
  qed (use Suc.prems(1) b w1 in auto)
qed simp

lemma nl_doRPC_balance:
  assumes "nl_doRPC env gameID uid fn l = (r, l')" "wait_balance env l" "handlers_set env"
    and "\<And>client metadata l r l'. fn client metadata l = (r, l') \<Longrightarrow> wait_balance env l \<Longrightarrow> wait_balance env l'"
  shows "wait_balance env l'"
  using assms(1) nl_rpc_loop_balance [OF _ assms(2-4)] assms(2) by (auto simp: nl_doRPC_def split: go.splits)

lemma Deliver_balance [balance_rules]:
  assumes "Deliver env args l = (r, l')" "wait_balance env l" "handlers_set env"
  shows "wait_balance env l'"
proof -
  have fn: "deliver_handler env cid uid buf client metadata l = (r, l') \<Longrightarrow> wait_balance env l \<Longrightarrow> wait_balance env l'"
    for cid uid buf client metadata l r l'
    by (auto simp: deliver_handler_def Let_def dest: balance_on_world [where env = env] split: prod.splits)
  show ?thesis
    using assms(1,2) nl_doRPC_balance [OF _ assms(2,3) fn]
    by (auto simp: Deliver_def nl_release_def apfst_def map_prod_def dest: balance_on_world [where env = env]
        balance_doBuildClient [where env' = env] split: go.splits prod.splits if_splits option.splits)
qed

lemma trigger_group_balance: "trigger_group env evt cid uid eps l = (r, l') \<Longrightarrow> wait_balance env' l' = wait_balance env' l"
  by (induction eps arbitrary: l r l')
    (fastforce simp: Let_def dest: balance_on_world [where env = env'] balance_build [where env' = env'] split: prod.splits go.splits)+

lemma nl_Trigger_balance [balance_rules]: "nl_Trigger env evt cid uid l = (r, l') \<Longrightarrow> wait_balance env' l' = wait_balance env' l"
  by (auto simp: nl_Trigger_def dest: trigger_group_balance split: go.splits)

lemma nl_WatchUserLocate_balance [balance_rules]:
  "\<lbrakk>wait_balance env l; handlers_set env\<rbrakk> \<Longrightarrow> wait_balance env (nl_WatchUserLocate env events l)"
  unfolding nl_WatchUserLocate_def
proof (induction events arbitrary: l)
  case (Cons e events)
  then show ?case by (cases e) (auto intro: balance_rules)
qed simp

text \<open>What a running linker does: its operations in any order, with the rest of the cluster (the world)
  changing in between.\<close>

inductive nl_step :: "('d, 'w) node_env \<Rightarrow> (string \<Rightarrow> url option) \<Rightarrow> 'w nlink \<Rightarrow> 'w nlink \<Rightarrow> bool"
  for env :: "('d, 'w) node_env" and parse where
  locate: "LocateNodeBinding env uid name l = (r, l') \<Longrightarrow> nl_step env parse l l'"
| ask: "AskNode env uid name nid l = (r, l') \<Longrightarrow> nl_step env parse l l'"
| locates: "LocateNodes env uid l = (r, l') \<Longrightarrow> nl_step env parse l l'"
| bind: "BindNode env uid name binding l = (r, l') \<Longrightarrow> nl_step env parse l l'"
| unbind: "UnbindNode env uid name nid l = (r, l') \<Longrightarrow> nl_step env parse l l'"
| bind_game: "BindGameNode env uid gameID l = (r, l') \<Longrightarrow> nl_step env parse l l'"
| deliver: "Deliver env args l = (r, l') \<Longrightarrow> nl_step env parse l l'"
| trigger: "nl_Trigger env evt cid uid l = (r, l') \<Longrightarrow> nl_step env parse l l'"
| get_state: "nl_GetState env nid l = (r, l') \<Longrightarrow> nl_step env parse l l'"
| set_state: "nl_SetState env nid state l = (r, l') \<Longrightarrow> nl_step env parse l l'"
| users: "nl_step env parse l (nl_WatchUserLocate env events l)"
| cluster: "nl_WatchClusterInstance parse services l = Ok l' \<Longrightarrow> nl_step env parse l l'"
| world: "nl_step env parse l (l\<lparr>nlWorld := w\<rparr>)"

lemma nl_step_balance:
  assumes "nl_step env parse l l'" "wait_balance env l" "handlers_set env"
  shows "wait_balance env l'"
  using assms
proof (cases rule: nl_step.cases)
  case (locates uid r)
  then show ?thesis using assms(2) by (auto simp: LocateNodes_def dest: balance_on_world [where env = env] split: if_splits)
next
  case (get_state nid r)
  then show ?thesis using assms(2)
    by (auto simp: nl_GetState_def apfst_def map_prod_def dest: balance_on_world [where env = env]
        balance_doBuildClient [where env' = env] split: go.splits prod.splits)
next
  case (set_state nid state r)
  then show ?thesis using assms(2)
    by (auto simp: nl_SetState_def apfst_def map_prod_def dest: balance_on_world [where env = env]
        balance_doBuildClient [where env' = env] split: go.splits prod.splits)
next
  case (cluster services)
  then show ?thesis using assms(2) by (auto simp: nl_WatchClusterInstance_def go_map_eq_Ok)
qed (use assms in \<open>auto intro: balance_rules simp: nl_Trigger_balance\<close>)

lemma nl_reach_balance:
  assumes "(nl_step env parse)\<^sup>*\<^sup>* (NewNodeLinker disp w) l" "handlers_set env"
  shows "wait_balance env l"
  using assms(1)
proof (induction rule: rtranclp_induct)
  case base
  then show ?case by (simp add: wait_balance_def NewNodeLinker_def sources_ok_def own_bindings_def alist_sum_def)
next
  case (step l l')
  then show ?case using nl_step_balance [OF _ _ assms(2)] by blast
qed

section \<open>Bindings are found again\<close>

lemma doLoadSource_store: "doLoadSource uid name (doStoreSource env uid name binding l) = Some binding"
  by (auto simp: doStoreSource_def doLoadSource_def call_handlers_def store_source_def Let_def AList.update_conv'
      split: prod.splits option.splits if_splits)

lemma LocateNodeBinding_cached:
  "\<lbrakk>neLocate env = Some loc; doLoadSource uid name l = Some b\<rbrakk> \<Longrightarrow> LocateNodeBinding env uid name l = (Ok b, l)"
  by (simp add: LocateNodeBinding_def)

lemma LocateNodeBinding_stores:
  "LocateNodeBinding env uid name l = (Ok b, l') \<Longrightarrow> doLoadSource uid name l' = Some b"
  by (auto simp: LocateNodeBinding_def doLoadSource_store split: option.splits prod.splits go.splits if_splits)

lemma BindNode_stores: "BindNode env uid name b l = (None, l') \<Longrightarrow> doLoadSource uid name l' = Some b"
  by (auto simp: BindNode_def doLoadSource_store split: option.splits prod.splits if_splits)

lemma BindGameNode_stores:
  assumes "BindGameNode env uid gameID l = (Ok None, l')" "FindGameRoute gameID (nlDisp l) = Ok route"
  shows "\<exists>b. doLoadSource uid (grGroup route) l' = Some b"
proof -
  have sel: "bind_selected env uid gameID name l1 = (Ok None, l') \<Longrightarrow> \<exists>b. doLoadSource uid name l' = Some b" for name l1
    by (auto simp: bind_selected_def apfst_def map_prod_def dest: BindNode_stores split: go.splits prod.splits)
  show ?thesis
    using assms by (auto simp: BindGameNode_def LocateNode_def Let_def go_map_eq_Ok
        dest: sel LocateNodeBinding_stores split: go.splits prod.splits if_splits)
qed

lemma BindGameNode_keeps:
  assumes "neLocate env = Some loc" "doLoadSource uid (grGroup route) l = Some b" "HasNode (nbNID b) l"
    "FindGameRoute gameID (nlDisp l) = Ok route"
  shows "BindGameNode env uid gameID l = (Ok None, l)"
  using assms by (simp add: BindGameNode_def LocateNode_def LocateNodeBinding_cached)

section \<open>A delivered buffer is handed on once\<close>

text \<open>A counter of the calls that take over a buffer: the client's \<open>Deliver\<close> and \<open>Release\<close>.\<close>

definition tracks :: "('w \<Rightarrow> nat) \<Rightarrow> ('d, 'w) node_env \<Rightarrow> bool" where
  "tracks used env \<longleftrightarrow>
     (\<forall>a cid uid m b w. used (snd (neDeliver env a cid uid m b w)) = Suc (used w)) \<and>
     (\<forall>b w. used (neRelease env b w) = Suc (used w)) \<and>
     (\<forall>a w. used (snd (neBuild env a w)) = used w) \<and>
     (\<forall>loc uid name w. neLocate env = Some loc \<longrightarrow> used (snd (loc uid name w)) = used w)"

lemma used_on_world: "nl_on_world f l = (r, l') \<Longrightarrow> nlWorld l' = snd (f (nlWorld l))"
  by (auto simp: nl_on_world_def split: prod.splits)

lemma used_build: "\<lbrakk>nl_build env ep l = (r, l'); tracks used env\<rbrakk> \<Longrightarrow> used (nlWorld l') = used (nlWorld l)"
  by (auto simp: nl_build_def Let_def tracks_def dest: used_on_world split: prod.splits)

lemma used_doBuildClient: "\<lbrakk>nl_doBuildClient env nid l = (r, l'); tracks used env\<rbrakk> \<Longrightarrow> used (nlWorld l') = used (nlWorld l)"
  by (auto simp: nl_doBuildClient_def dest: used_build split: if_splits go.splits)

lemma used_node_client:
  "\<lbrakk>node_client env gameID uid nid l = (r, l'); tracks used env\<rbrakk> \<Longrightarrow> used (nlWorld l') = used (nlWorld l)"
  by (auto simp: node_client_def find_node_def Let_def dest!: used_build [where used = used] split: go.splits prod.splits)

lemma world_doStoreSource [simp]: "nlWorld (doStoreSource env uid name b l) = nlWorld l"
  by (simp add: doStoreSource_def call_handlers_def Let_def split: prod.splits)

lemma used_bound_node:
  assumes "bound_node env uid grp l = (r, l')" "tracks used env" "\<And>b. doLoadSource uid grp l = Some b \<Longrightarrow> nbNID b \<noteq> ''''"
  shows "used (nlWorld l') = used (nlWorld l) \<and> (\<forall>b. r = Ok (Some b) \<longrightarrow> nbNID b \<noteq> '''')"
  using assms by (auto simp: bound_node_def LocateNodeBinding_def tracks_def dest!: used_on_world
      split: if_splits option.splits prod.splits go.splits)

lemma used_deliver_rpc:
  assumes "nl_doRPC env gameID uid (deliver_handler env cid uid' buf) l = (Ok (isDeliver, err), l')" "tracks used env"
    and "\<And>b route. FindGameRoute gameID (nlDisp l) = Ok route \<Longrightarrow> doLoadSource uid (grGroup route) l = Some b \<Longrightarrow> nbNID b \<noteq> ''''"
  shows "used (nlWorld l') = used (nlWorld l) + (if isDeliver = None then 0 else 1) \<and> (isDeliver = None \<longrightarrow> err \<noteq> None)"
proof (cases "FindGameRoute gameID (nlDisp l)")
  case (Ok route)
  obtain b l1 where b: "bound_node env uid (grGroup route) l = (b, l1)" by fastforce
  note u1 = used_bound_node [OF b assms(2) assms(3) [OF Ok]]
  have deliver: "used (nlWorld l3) = Suc (used (nlWorld l2)) \<and> r = (False, Some (), e)"
    if "deliver_handler env cid uid' buf client metadata l2 = (r, l3)" "snd (snd r) = e" for client metadata l2 r l3 e
    using that assms(2) by (auto simp: deliver_handler_def Let_def tracks_def dest!: used_on_world split: prod.splits)
  show ?thesis
    using assms(1) Ok b u1 by (auto simp: nl_doRPC_def numeral_2_eq_2 Let_def dest!: deliver [OF _ refl] used_node_client [OF _ assms(2)]
        split: go.splits prod.splits if_splits option.splits)
qed (use assms(1) in \<open>auto simp: nl_doRPC_def\<close>)

section \<open>Properties\<close>

text \<open>C21. A node knows how many users it waits for.  In every state that a linker can reach by binding,
  unbinding, locating, delivering and watching, the calls of the wait handler less those of the done
  handler are the number of cached bindings that point to this instance.\<close>

theorem node_wait_balance:
  assumes "(nl_step env parse)\<^sup>*\<^sup>* (NewNodeLinker disp w) l" "handlers_set env"
  shows "nlWaits l = nlDones l + own_bindings (neInsID env) (nlSources l)"
  using nl_reach_balance [OF assms] by (simp add: wait_balance_def)

text \<open>A node \<open>n1\<close> with a locator that knows of no binding and accepts every new one; the world counts the
  buffers that were handed on.\<close>

definition sample_nenv :: "(unit, nat) node_env" where
  "sample_nenv = \<lparr>neInsID = ''n1'', neWaitHandler = True, neDoneHandler = True,
     neLocate = Some (\<lambda>uid name w. (Ok \<lparr>nbNID = '''', nbMetadata = []\<rparr>, w)), neBind = (\<lambda>uid name b w. (None, w)),
     neUnbind = (\<lambda>uid name nid w. (None, w)), neLocateNodes = (\<lambda>uid w. (Ok [], w)), neResolve = None, neRand = (\<lambda>n. 0),
     neBuild = (\<lambda>a w. (None, w)), neDeliver = (\<lambda>a cid uid m b w. (None, Suc w)), neTrigger = (\<lambda>a evt cid uid w. (None, w)),
     neGetState = (\<lambda>a w. ((1, None), w)), neSetState = (\<lambda>a st w. (None, w)), neMarshal = (\<lambda>_. Err ErrInvalidMessage),
     neEncrypt = None, nePacker = defaultOptions ''big'' 4096, neRelease = (\<lambda>b w. Suc w)\<rparr>"

definition own_binding :: NodeBinding where
  "own_binding = \<lparr>nbNID = ''n1'', nbMetadata = []\<rparr>"

definition sample_run :: "nat nlink" where
  "sample_run = snd (UnbindNode sample_nenv 7 ''game'' ''n1'' (snd (BindNode sample_nenv 8 ''game'' own_binding
     (snd (BindNode sample_nenv 7 ''game'' own_binding (NewNodeLinker ''rr'' 0))))))"

lemma sample_run_reached: "(nl_step sample_nenv parse)\<^sup>*\<^sup>* (NewNodeLinker ''rr'' 0) sample_run"
proof -
  have bind: "nl_step sample_nenv parse l (snd (BindNode sample_nenv uid name b l))" for uid name b l
    by (rule nl_step.bind [where r = "fst (BindNode sample_nenv uid name b l)"]) simp
  have unbind: "nl_step sample_nenv parse l (snd (UnbindNode sample_nenv uid name nid l))" for uid name nid l
    by (rule nl_step.unbind [where r = "fst (UnbindNode sample_nenv uid name nid l)"]) simp
  show ?thesis
    unfolding sample_run_def
    by (rule rtranclp.rtrancl_into_rtrancl [OF rtranclp.rtrancl_into_rtrancl [OF r_into_rtranclp [of "nl_step sample_nenv parse", OF bind] bind] unbind])
qed

theorem node_wait_balance_witness:
  "nlWaits sample_run = nlDones sample_run + own_bindings ''n1'' (nlSources sample_run) \<and> nlWaits sample_run = 2 \<and> nlDones sample_run = 1"
proof -
  have "handlers_set sample_nenv" by (simp add: handlers_set_def sample_nenv_def)
  from node_wait_balance [OF sample_run_reached this] have
    "nlWaits sample_run = nlDones sample_run + own_bindings ''n1'' (nlSources sample_run)" by (simp add: sample_nenv_def)
  moreover have "nlWaits sample_run = 2" "nlDones sample_run = 1"
    by (simp_all add: sample_run_def sample_nenv_def own_binding_def UnbindNode_def BindNode_def nl_on_world_def NewNodeLinker_def
        doStoreSource_def doDeleteSource_def store_source_def delete_source_def call_handlers_def)
  ultimately show ?thesis by simp
qed

text \<open>Binding a user to a game sticks.  After \<open>BindGameNode\<close> succeeds the linker locates the user in
  the game's group without asking the locator, and a binding whose node is still registered is left
  as it is.\<close>

theorem bind_game_node_located:
  assumes "FindGameRoute gameID (nlDisp l) = Ok route" "neLocate env = Some loc"
    and "BindGameNode env uid gameID l = (Ok None, l')"
  shows "(\<exists>b. LocateNodeBinding env uid (grGroup route) l' = (Ok b, l')) \<and>
    (\<forall>b. doLoadSource uid (grGroup route) l = Some b \<and> HasNode (nbNID b) l \<longrightarrow> l' = l)"
  using BindGameNode_stores [OF assms(3,1)] LocateNodeBinding_cached [OF assms(2)] BindGameNode_keeps [OF assms(2) _ _ assms(1)] assms(3)
  by fastforce

definition sample_nlink :: "nat nlink" where
  "sample_nlink = (NewNodeLinker ''rr'' 0)\<lparr>nlDisp := (NewDispatcher ''rr'')\<lparr>dEndpoints := [(''n1'', sample_endpoint ''a1'')],
     dRoutes := [(3, \<lparr>grGroup = ''game'', grCounter = 0, grGameID = 3, grAbs = newAbstract\<lparr>endpoints1 := [0], endpoints2 := [0]\<rparr>\<rparr>)],
     dStore := [\<lparr>seInsID = ''n1'', seState = ''work'', seStatus = ''normal'', seEndpoint = sample_endpoint ''a1'', seWeight = 1, seCurr = 0\<rparr>]\<rparr>\<rparr>"

theorem bind_game_node_located_witness:
  "\<exists>b l'. BindGameNode sample_nenv 7 3 sample_nlink = (Ok None, l') \<and> LocateNodeBinding sample_nenv 7 ''game'' l' = (Ok b, l')"
proof -
  let ?l' = "snd (BindGameNode sample_nenv 7 3 sample_nlink)"
  have "fst (BindGameNode sample_nenv 7 3 sample_nlink) = Ok None" by code_simp
  then have run: "BindGameNode sample_nenv 7 3 sample_nlink = (Ok None, ?l')" by (metis prod.collapse)
  have route: "FindGameRoute 3 (nlDisp sample_nlink) = Ok (the (map_of (dRoutes (nlDisp sample_nlink)) 3))"
    "grGroup (the (map_of (dRoutes (nlDisp sample_nlink)) 3)) = ''game''"
    by (simp_all add: sample_nlink_def FindGameRoute_def)
  have "neLocate sample_nenv = Some (\<lambda>uid name w. (Ok \<lparr>nbNID = '''', nbMetadata = []\<rparr>, w))" by (simp add: sample_nenv_def)
  from bind_game_node_located [OF route(1) this run] show ?thesis using run route(2) by auto
qed

text \<open>C35. A delivered buffer is handed on exactly once.  When the message could be turned into a buffer and the
  user's cached binding names a node, every delivery that returns has either passed the buffer to one
  client or released it, and never both.\<close>

theorem deliver_hands_over_once:
  assumes "tracks used env" "deliver_buf env (daBuffer args) = Ok buf" "Deliver env args l = (Ok err, l')"
    and "\<And>b route. FindGameRoute (daGameID args) (nlDisp l) = Ok route \<Longrightarrow>
           doLoadSource (daUID args) (grGroup route) l = Some b \<Longrightarrow> nbNID b \<noteq> ''''"
  shows "used (nlWorld l') = Suc (used (nlWorld l))"
proof (cases "daNID args = ''''")
  case True
  let ?rpc = "nl_doRPC env (daGameID args) (daUID args) (deliver_handler env (daCID args) (daUID args) buf) l"
  obtain isDeliver e l1 where rpc: "?rpc = (Ok (isDeliver, e), l1)"
    using assms(2,3) True by (auto simp: Deliver_def split: go.splits prod.splits option.splits)
  from used_deliver_rpc [OF rpc assms(1,4)] assms(1-3) True rpc show ?thesis
    by (cases e) (auto simp: Deliver_def nl_release_def tracks_def split: if_splits)
next
  case False
  obtain c l1 where c: "nl_doBuildClient env (daNID args) l = (c, l1)" by fastforce
  then have "used (nlWorld l1) = used (nlWorld l)" by (rule used_doBuildClient [OF _ assms(1)])
  moreover have "used w' = Suc (used w)" if "neDeliver env a cid uid m b w = (r, w')" for a cid uid m b w r w'
    using assms(1) that by (metis tracks_def snd_conv)
  ultimately show ?thesis
    using assms(1-3) False c
    by (cases c) (auto simp: Deliver_def nl_release_def nl_on_world_def tracks_def Let_def split: prod.splits)
qed

definition sample_args :: "unit DeliverArgs" where
  "sample_args = \<lparr>daNID = '''', daCID = 1, daUID = 7, daMetadata = [], daGameID = 3, daBuffer = DeliverBytes [1, 2]\<rparr>"

theorem deliver_hands_over_once_witness:
  "nlWorld (snd (Deliver sample_nenv sample_args sample_nlink)) = Suc 0"
proof -
  have "fst (Deliver sample_nenv sample_args sample_nlink) = Ok None" by code_simp
  then have run: "Deliver sample_nenv sample_args sample_nlink = (Ok None, snd (Deliver sample_nenv sample_args sample_nlink))"
    by (metis prod.collapse)
  have "tracks id sample_nenv" by (simp add: tracks_def sample_nenv_def)
  moreover have "deliver_buf sample_nenv (daBuffer sample_args) = Ok (NewNocopyBuffer [MBlock (RawBlock [1, 2])])"
    by (simp add: deliver_buf_def sample_args_def)
  ultimately show ?thesis
    using deliver_hands_over_once [OF _ _ run] by (fastforce simp: doLoadSource_def sample_nlink_def NewNodeLinker_def)
qed

text \<open>A message that cannot be packed does not come back as an error: releasing the missing buffer panics.\<close>

lemma deliver_unpackable_panics:
  "\<lbrakk>daBuffer args = DeliverMessage m; nl_PackMessage env m False = Err e\<rbrakk> \<Longrightarrow> Deliver env args l = (Panic, l)"
  by (simp add: Deliver_def deliver_buf_def)

end
