(* ===== verification/NodeRouter.thy ===== *)
theory NodeRouter
  imports NodeActor NodeLink
begin

text \<open>
  \<open>cluster/node\<close>, second part: the router and the trigger that queue requests and events (\<open>router.go\<close>,
  \<open>trigger.go\<close>), middleware (\<open>middleware.go\<close>), what a node does with a delivery (\<open>provider.go\<close>), the calls of a
  request or event that go to the proxy (\<open>request.go\<close>, \<open>event.go\<close>, \<open>proxy.go\<close>), the life cycle of a node
  (\<open>node.go\<close>), and its goroutines as a step relation over these operations.
\<close>

section \<open>Routes\<close>

record RouteOptions =
  roInternal :: bool
  roStateful :: bool
  roAuthorized :: bool
  roMiddlewares :: "nat list"

record routeEntity =
  reMessageID :: int32
  reHandler :: "nat option"
  reOptions :: RouteOptions

record Router =
  rtRoutes :: "(int32 \<times> routeEntity) list"
  rtPre :: "nat option"
  rtPost :: "nat option"
  rtDefault :: "nat option"
  rtDispatcher :: "nat option"

definition no_options :: RouteOptions where
  "no_options = \<lparr>roInternal = False, roStateful = False, roAuthorized = False, roMiddlewares = []\<rparr>"

definition newRouter :: Router where
  "newRouter = \<lparr>rtRoutes = [], rtPre = None, rtPost = None, rtDefault = None, rtDispatcher = None\<rparr>"

text \<open>Every change of the router is refused unless the node is shut (state 0).\<close>

definition BindMessageDispatcher :: "int \<Rightarrow> nat \<Rightarrow> Router \<Rightarrow> Router" where
  "BindMessageDispatcher state h r = (if state \<noteq> 0 then r else r\<lparr>rtDispatcher := Some h\<rparr>)"

definition HasMessageDispatcher :: "Router \<Rightarrow> bool" where
  "HasMessageDispatcher r \<longleftrightarrow> rtDispatcher r \<noteq> None"

definition route_entity :: "int32 \<Rightarrow> Router \<Rightarrow> routeEntity" where
  "route_entity messageID r =
     (case map_of (rtRoutes r) messageID of
        Some e \<Rightarrow> e | None \<Rightarrow> \<lparr>reMessageID = messageID, reHandler = None, reOptions = no_options\<rparr>)"

definition SetRoutePolicy :: "int \<Rightarrow> int32 \<Rightarrow> bool \<Rightarrow> bool \<Rightarrow> nat list \<Rightarrow> Router \<Rightarrow> Router" where
  "SetRoutePolicy state messageID internal stateful mws r =
     (if state \<noteq> 0 then r
      else r\<lparr>rtRoutes := AList.update messageID ((route_entity messageID r)
             \<lparr>reOptions := \<lparr>roInternal = internal, roStateful = stateful, roAuthorized = False, roMiddlewares = mws\<rparr>\<rparr>) (rtRoutes r)\<rparr>)"

definition AddRouteHandler :: "int \<Rightarrow> int32 \<Rightarrow> nat \<Rightarrow> RouteOptions option \<Rightarrow> Router \<Rightarrow> Router" where
  "AddRouteHandler state messageID h opts r =
     (if state \<noteq> 0 then r
      else let e = (route_entity messageID r)\<lparr>reHandler := Some h\<rparr>
           in r\<lparr>rtRoutes := AList.update messageID (case opts of None \<Rightarrow> e | Some o1 \<Rightarrow> e\<lparr>reOptions := o1\<rparr>) (rtRoutes r)\<rparr>)"

definition SetDefaultRouteHandler :: "int \<Rightarrow> nat \<Rightarrow> Router \<Rightarrow> Router" where
  "SetDefaultRouteHandler state h r = (if state \<noteq> 0 then r else r\<lparr>rtDefault := Some h\<rparr>)"

definition HasDefaultRouteHandler :: "Router \<Rightarrow> bool" where
  "HasDefaultRouteHandler r \<longleftrightarrow> rtDefault r \<noteq> None"

definition SetPreRouteHandler :: "int \<Rightarrow> nat \<Rightarrow> Router \<Rightarrow> Router" where
  "SetPreRouteHandler state h r = (if state \<noteq> 0 then r else r\<lparr>rtPre := Some h\<rparr>)"

definition SetPostRouteHandler :: "int \<Rightarrow> nat \<Rightarrow> Router \<Rightarrow> Router" where
  "SetPostRouteHandler state h r = (if state \<noteq> 0 then r else r\<lparr>rtPost := Some h\<rparr>)"

definition CheckRouteStateful :: "int32 \<Rightarrow> Router \<Rightarrow> bool \<times> bool" where
  "CheckRouteStateful messageID r =
     (case map_of (rtRoutes r) messageID of Some e \<Rightarrow> (roStateful (reOptions e), True) | None \<Rightarrow> (False, False))"

definition CheckRouteAuthorized :: "int32 \<Rightarrow> Router \<Rightarrow> bool \<times> bool" where
  "CheckRouteAuthorized messageID r =
     (case map_of (rtRoutes r) messageID of Some e \<Rightarrow> (roAuthorized (reOptions e), True) | None \<Rightarrow> (False, False))"

text \<open>The id of each route, and whether it is internal, stateful and authorized.\<close>

definition CollectRoutes :: "Router \<Rightarrow> (int32 \<times> bool \<times> bool \<times> bool) list" where
  "CollectRoutes r = map (\<lambda>(_, e). (reMessageID e, roInternal (reOptions e), roStateful (reOptions e), roAuthorized (reOptions e))) (rtRoutes r)"

definition StatefulRouteCount :: "Router \<Rightarrow> nat" where
  "StatefulRouteCount r = length (filter (\<lambda>(_, e). roStateful (reOptions e)) (rtRoutes r))"

text \<open>A group puts its middleware before that of the route.\<close>

definition Group_AddRouteHandler :: "int \<Rightarrow> nat list \<Rightarrow> int32 \<Rightarrow> nat \<Rightarrow> RouteOptions option \<Rightarrow> Router \<Rightarrow> Router" where
  "Group_AddRouteHandler state grp messageID h opts r =
     (let o1 = (case opts of None \<Rightarrow> no_options\<lparr>roMiddlewares := grp\<rparr> | Some o1 \<Rightarrow> o1\<lparr>roMiddlewares := grp @ roMiddlewares o1\<rparr>)
      in AddRouteHandler state messageID h (Some o1) r)"

definition Group_SetRoutePolicy :: "int \<Rightarrow> nat list \<Rightarrow> int32 \<Rightarrow> bool \<Rightarrow> bool \<Rightarrow> nat list \<Rightarrow> Router \<Rightarrow> Router" where
  "Group_SetRoutePolicy state grp messageID internal stateful mws r = SetRoutePolicy state messageID internal stateful (grp @ mws) r"

section \<open>Queues\<close>

abbreviation (input) req_cap :: nat where
  "req_cap \<equiv> 10240"

abbreviation (input) evt_cap :: nat where
  "evt_cap \<equiv> 4096"

record 'd delivery =
  dlGid :: string
  dlNid :: string
  dlPid :: string
  dlCid :: int64
  dlUid :: int64
  dlSeq :: int32
  dlGameID :: int32
  dlMessageID :: int32
  dlMetadata :: "(string \<times> string) list"
  dlData :: "'d option"

definition fill_request :: "'d delivery \<Rightarrow> 'd nctx \<Rightarrow> 'd nctx" where
  "fill_request d x = x\<lparr>cxGid := dlGid d, cxNid := dlNid d, cxPid := dlPid d, cxCid := dlCid d, cxUid := dlUid d,
     cxMetadata := dlMetadata d, cxSeq := dlSeq d, cxGameID := dlGameID d, cxMessageID := dlMessageID d, cxData := dlData d\<rparr>"

text \<open>\<open>None\<close> when the send waits without a time limit.\<close>

definition router_deliver :: "nat option \<Rightarrow> 'd delivery \<Rightarrow> 'd nnode \<Rightarrow> (goerr option \<times> 'd nnode) option" where
  "router_deliver pick d n =
     (let (c, n) = pool_get RequestKind pick n; n = upd_ctx c (fill_request d) n
      in if length (nnReqChan n) < req_cap then Some (None, n\<lparr>nnReqChan := nnReqChan n @ [c]\<rparr>)
         else if nnDeliverTimeout n \<le> 0 then None
         else Some (Some ErrDeliverQueueFull, pool_put c (upd_ctx c ctx_reset n)))"

definition fill_event :: "int \<Rightarrow> string \<Rightarrow> int64 \<Rightarrow> int64 \<Rightarrow> 'd nctx \<Rightarrow> 'd nctx" where
  "fill_event evt gid cid uid x = x\<lparr>cxEvent := evt, cxGid := gid, cxCid := cid, cxUid := uid\<rparr>"

definition trigger_trigger :: "nat option \<Rightarrow> int \<Rightarrow> string \<Rightarrow> int64 \<Rightarrow> int64 \<Rightarrow> 'd nnode \<Rightarrow> (goerr option \<times> 'd nnode) option" where
  "trigger_trigger pick evt gid cid uid n =
     (let (c, n) = pool_get EventKind pick n; n = upd_ctx c (fill_event evt gid cid uid) n
      in if length (nnEvtChan n) < evt_cap then Some (None, n\<lparr>nnEvtChan := nnEvtChan n @ [c]\<rparr>)
         else if nnDeliverTimeout n \<le> 0 then None
         else Some (Some ErrDeliverQueueFull, pool_put c (upd_ctx c ctx_reset n)))"

section \<open>Handling\<close>

text \<open>The handler of a request, and its middleware.\<close>

definition route_handler :: "Router \<Rightarrow> int32 \<Rightarrow> nat option \<times> nat list" where
  "route_handler r messageID =
     (let route = map_of (rtRoutes r) messageID;
          h = (case rtDispatcher r of Some h \<Rightarrow> Some h | None \<Rightarrow> Option.bind route reHandler);
          h = (case h of Some h \<Rightarrow> Some h | None \<Rightarrow> rtDefault r)
      in (h, case route of None \<Rightarrow> [] | Some e \<Rightarrow> roMiddlewares (reOptions e)))"

text \<open>A worker takes a request and starts on it.  Without a handler the request goes straight back to the
  pool; otherwise a handler runs (after the pre-route handler), holding the version of the worker or,
  behind middleware, the version of the middleware's first step.\<close>

definition middleware_Skip :: "int \<Rightarrow> int \<Rightarrow> nat list \<Rightarrow> nat \<Rightarrow> 'd nnode \<Rightarrow> (int \<times> 'd nnode) go" where
  "middleware_Skip index skip mws c n =
     (if index \<ge> int (length mws) then Ok (index, n)
      else let (version, n) = ctx_incrVersion c n;
               n = upd_ctx c ctx_Cancel n;
               index = index + skip
           in if index < 0 then Panic else Ok (index, n\<lparr>nnRuns := (c, version) # nnRuns n\<rparr>))"

definition router_handle :: "Router \<Rightarrow> 'd nnode \<Rightarrow> ((nat \<times> nat option) \<times> 'd nnode) option" where
  "router_handle r n =
     (case nnReqChan n of
        [] \<Rightarrow> None
      | c # cs \<Rightarrow>
          let (version, n) = ctx_incrVersion c (n\<lparr>nnReqChan := cs\<rparr>);
              (h, mws) = route_handler r (cxMessageID (the_ctx n c))
          in if h = None then Some ((c, None), compareVersionRecycle c version n)
             else if mws \<noteq> []
             then (case middleware_Skip (- 1) 1 mws c n of Ok (_, n) \<Rightarrow> Some ((c, h), n) | _ \<Rightarrow> None)
             else Some ((c, h), n\<lparr>nnRuns := (c, version) # nnRuns n\<rparr>))"

definition trigger_handle :: "(int \<times> nat) list \<Rightarrow> 'd nnode \<Rightarrow> ((nat \<times> nat option) \<times> 'd nnode) option" where
  "trigger_handle events n =
     (case nnEvtChan n of
        [] \<Rightarrow> None
      | c # cs \<Rightarrow>
          let (version, n) = ctx_incrVersion c (n\<lparr>nnEvtChan := cs\<rparr>); h = map_of events (cxEvent (the_ctx n c))
          in Some ((c, h), if h = None then compareVersionRecycle c version n else n\<lparr>nnRuns := (c, version) # nnRuns n\<rparr>))"

text \<open>\<open>Task\<close>: the function runs elsewhere and ends with \<open>task_finish\<close>.\<close>

definition ctx_Task :: "nat \<Rightarrow> 'd nnode \<Rightarrow> int32 \<times> 'd nnode" where
  "ctx_Task c n =
     (let (version, n) = ctx_incrVersion c n; n = upd_ctx c ctx_Cancel n; n = addWait n
      in (version, n\<lparr>nnRuns := (c, version) # nnRuns n\<rparr>))"

definition task_finish :: "nat \<Rightarrow> int32 \<Rightarrow> 'd nnode \<Rightarrow> (nat list \<times> 'd nnode) go" where
  "task_finish c version n = (let (fired, n) = run_finish c version True n in go_map (Pair fired) (doneWait n))"

text \<open>\<open>Actor.Deliver\<close>, with the packed message in \<open>d\<close>.\<close>

definition actor_Deliver :: "nat \<Rightarrow> nat option \<Rightarrow> 'd delivery \<Rightarrow> 'd nnode \<Rightarrow> (goerr option \<times> 'd nnode) option" where
  "actor_Deliver a pick d n =
     (let (c, n) = pool_get RequestKind pick n;
          n = upd_ctx c (\<lambda>x. x\<lparr>cxNid := nnID n, cxUid := dlUid d, cxSeq := dlSeq d, cxGameID := dlGameID d,
                cxMessageID := dlMessageID d, cxData := dlData d\<rparr>) n
      in actor_Next a c n)"

definition actor_Push :: "nat \<Rightarrow> nat option \<Rightarrow> 'd delivery \<Rightarrow> 'd nnode \<Rightarrow> (goerr option \<times> 'd nnode) option" where
  "actor_Push a pick d n =
     router_deliver pick (d\<lparr>dlGid := '''', dlNid := nnID n, dlPid := actor_PID (the_actor n a), dlCid := 0, dlMetadata := []\<rparr>) n"

section \<open>Deliveries from the link\<close>

record node_opts =
  noID :: string
  noName :: string
  noGameID :: int32
  noPacker :: packer_options

definition node_trigger :: "nat option \<Rightarrow> string \<Rightarrow> int64 \<Rightarrow> int64 \<Rightarrow> int \<Rightarrow> 'd nnode \<Rightarrow> (goerr option \<times> 'd nnode) option" where
  "node_trigger pick gid cid uid evt n = trigger_trigger pick evt gid cid uid n"

text \<open>The user must be bound to this node when the route is stateful: \<open>Ok None\<close> lets the message pass.\<close>

definition check_stateful :: "('d, 'w) node_env \<Rightarrow> node_opts \<Rightarrow> bool \<Rightarrow> int64 \<Rightarrow> 'w nlink \<Rightarrow> goerr option go \<times> 'w nlink" where
  "check_stateful env opts stateful uid l =
     (if \<not> stateful then (Ok None, l)
      else if uid = 0 then (Ok (Some ErrInvalidArgument), l)
      else case AskNode env uid (noName opts) (noID opts) l of
             (Err e, l) \<Rightarrow> (Ok (Some e), l)
           | (Panic, l) \<Rightarrow> (Panic, l)
           | (Ok (_, ok), l) \<Rightarrow> (Ok (if ok then None else Some ErrNotFoundSession), l))"

text \<open>A message that \<open>UnpackMessage\<close> finds incomplete is nil, and reading its game panics.\<close>

definition node_deliver ::
    "('d, 'w) node_env \<Rightarrow> node_opts \<Rightarrow> Router \<Rightarrow> nat option \<Rightarrow> string \<Rightarrow> string \<Rightarrow> int64 \<Rightarrow> int64 \<Rightarrow> (string \<times> string) list \<Rightarrow> bytes \<Rightarrow>
     bytes nnode \<Rightarrow> 'w nlink \<Rightarrow> (goerr option \<times> bytes nnode) option go \<times> 'w nlink" where
  "node_deliver env opts r pick gid nid cid uid metadata message n l =
     (case UnpackMessage (noPacker opts) message of
        Err e \<Rightarrow> (Ok (Some (Some e, n)), l)
      | Panic \<Rightarrow> (Panic, l)
      | Ok (None, _) \<Rightarrow> (Panic, l)
      | Ok (Some msg, _) \<Rightarrow>
          if mGameID msg \<noteq> noGameID opts then (Ok (Some (Some ErrInvalidGameID, n)), l)
          else let (stateful, known) = CheckRouteStateful (mMessageID msg) r
               in if \<not> known \<and> \<not> (HasMessageDispatcher r \<or> HasDefaultRouteHandler r) then (Ok (Some (None, n)), l)
                  else case check_stateful env opts stateful uid l of
                         (Ok None, l) \<Rightarrow>
                           (Ok (router_deliver pick \<lparr>dlGid = gid, dlNid = nid, dlPid = '''', dlCid = cid, dlUid = uid,
                                  dlSeq = mSeq msg, dlGameID = mGameID msg, dlMessageID = mMessageID msg, dlMetadata = metadata,
                                  dlData = Some (mBuffer msg)\<rparr> n), l)
                       | (Ok (Some e), l) \<Rightarrow> (Ok (Some (Some e, n)), l)
                       | (Err e, l) \<Rightarrow> (Err e, l)
                       | (Panic, l) \<Rightarrow> (Panic, l))"

section \<open>Calls of a context\<close>

text \<open>What a method of a request or event asks of the proxy.  Session kinds are 1 for a connection and 2 for a user.\<close>

datatype 'm proxy_call =
    CallBindGate string int64 int64
  | CallUnbindGate int64 int64
  | CallBindNode int64 "(string \<times> string) list"
  | CallUnbindNode int64
  | CallSubscribe string int "int64 list" string
  | CallUnsubscribe string int "int64 list" string
  | CallGetIP string int int64
  | CallPush string int int64 'm
  | CallActorDeliver string int64 'm
  | CallDeliver string int64 'm
  | CallDisconnect string int64 int64 bool
  | Refuse goerr
  | Nothing

text \<open>The user given, or else the user of the request.\<close>

definition for_user :: "int64 list \<Rightarrow> int64 \<Rightarrow> (int64 \<Rightarrow> 'm proxy_call) \<Rightarrow> 'm proxy_call" where
  "for_user uids own f = (case uids of u # _ \<Rightarrow> f u | [] \<Rightarrow> if own \<noteq> 0 then f own else Refuse ErrIllegalOperation)"

text \<open>The call and the context when it succeeds.\<close>

definition request_BindGate :: "int64 list \<Rightarrow> 'd nctx \<Rightarrow> 'm proxy_call \<times> 'd nctx" where
  "request_BindGate uids x =
     (for_user uids (cxUid x) (CallBindGate (cxGid x) (cxCid x)), case uids of u # _ \<Rightarrow> x\<lparr>cxUid := u\<rparr> | [] \<Rightarrow> x)"

definition request_UnbindGate :: "int64 list \<Rightarrow> 'd nctx \<Rightarrow> 'm proxy_call" where
  "request_UnbindGate uids x = for_user uids (cxUid x) (CallUnbindGate (cxCid x))"

definition request_BindNode :: "int64 list \<Rightarrow> 'd nctx \<Rightarrow> 'm proxy_call" where
  "request_BindNode uids x = for_user uids (cxUid x) (\<lambda>u. CallBindNode u (cxMetadata x))"

definition request_UnbindNode :: "int64 list \<Rightarrow> 'd nctx \<Rightarrow> 'm proxy_call" where
  "request_UnbindNode uids x = for_user uids (cxUid x) CallUnbindNode"

definition request_Subscribe :: "string \<Rightarrow> int64 list \<Rightarrow> 'd nctx \<Rightarrow> 'm proxy_call" where
  "request_Subscribe channel uids x =
     (if uids \<noteq> [] then CallSubscribe '''' 2 uids channel
      else if cxGid x = '''' then Refuse ErrIllegalOperation else CallSubscribe (cxGid x) 1 [cxCid x] channel)"

definition request_Unsubscribe :: "string \<Rightarrow> int64 list \<Rightarrow> 'd nctx \<Rightarrow> 'm proxy_call" where
  "request_Unsubscribe channel uids x =
     (if uids \<noteq> [] then CallUnsubscribe '''' 2 uids channel
      else if cxGid x = '''' then Refuse ErrIllegalOperation else CallUnsubscribe (cxGid x) 1 [cxCid x] channel)"

definition request_GetIP :: "'d nctx \<Rightarrow> 'm proxy_call" where
  "request_GetIP x = (if cxGid x = '''' then Refuse ErrIllegalOperation else CallGetIP (cxGid x) 1 (cxCid x))"

text \<open>To the gate, the actor or the node the request came from; \<open>known\<close> tells whether an actor is registered.\<close>

definition request_Reply :: "string \<Rightarrow> (string \<Rightarrow> bool) \<Rightarrow> 'm \<Rightarrow> 'd nctx \<Rightarrow> 'm proxy_call" where
  "request_Reply own known m x =
     (if cxGid x \<noteq> '''' then CallPush (cxGid x) 1 (cxCid x) m
      else if cxPid x \<noteq> '''' then if known (cxPid x) then CallActorDeliver (cxPid x) (cxUid x) m else Nothing
      else if cxNid x \<noteq> '''' then if cxNid x = own then Nothing else CallDeliver (cxNid x) (cxUid x) m
      else Refuse ErrIllegalOperation)"

definition request_Response :: "string \<Rightarrow> (string \<Rightarrow> bool) \<Rightarrow> 'p payload \<Rightarrow> 'd nctx \<Rightarrow> 'p link_message proxy_call" where
  "request_Response own known data x =
     request_Reply own known \<lparr>lmSeq = cxSeq x, lmGameID = cxGameID x, lmMessageID = cxMessageID x, lmData = data\<rparr> x"

definition request_Disconnect :: "bool list \<Rightarrow> 'd nctx \<Rightarrow> 'm proxy_call" where
  "request_Disconnect force x =
     (if cxGid x = '''' then Refuse ErrIllegalOperation
      else CallDisconnect (cxGid x) (cxUid x) (cxCid x) (force \<noteq> [] \<and> hd force))"

text \<open>\<open>Parse\<close> of a message that is bytes; the codec's result is \<open>'v\<close>, and empty bytes leave the target as it is.\<close>

definition request_Parse :: "(bytes \<Rightarrow> bytes go) option \<Rightarrow> (bytes \<Rightarrow> 'v go) \<Rightarrow> bytes nctx \<Rightarrow> 'v option go" where
  "request_Parse decrypt unmarshal x =
     (case cxData x of
        None \<Rightarrow> Ok None
      | Some msg \<Rightarrow>
          if length msg = 0 then Ok None
          else case decrypt of
                 Some dec \<Rightarrow> if cxGid x \<noteq> '''' then go_bind (dec msg) (\<lambda>data. go_map Some (unmarshal data)) else go_map Some (unmarshal msg)
               | None \<Rightarrow> go_map Some (unmarshal msg))"

definition event_GetIP :: "'d nctx \<Rightarrow> 'm proxy_call" where
  "event_GetIP x = CallGetIP (cxGid x) 1 (cxCid x)"

definition event_Reply :: "'m \<Rightarrow> 'd nctx \<Rightarrow> 'm proxy_call" where
  "event_Reply m x = (if cxUid x \<noteq> 0 then CallPush (cxGid x) 2 (cxUid x) m else CallPush (cxGid x) 1 (cxCid x) m)"

definition event_Disconnect :: "bool list \<Rightarrow> 'd nctx \<Rightarrow> 'm proxy_call" where
  "event_Disconnect force x = CallDisconnect (cxGid x) (cxUid x) (cxCid x) (force \<noteq> [] \<and> hd force)"

section \<open>The proxy\<close>

definition proxy_Deliver :: "('d, 'w) node_env \<Rightarrow> node_opts \<Rightarrow> string \<Rightarrow> int64 \<Rightarrow> (string \<times> string) list \<Rightarrow> 'd link_message \<Rightarrow> 'w nlink \<Rightarrow> goerr option go \<times> 'w nlink" where
  "proxy_Deliver env opts nid uid metadata m l =
     (if nid = noID opts then (Ok (Some ErrIllegalOperation), l)
      else Deliver env \<lparr>daNID = nid, daCID = 0, daUID = uid, daMetadata = metadata, daGameID = lmGameID m, daBuffer = DeliverMessage m\<rparr> l)"

definition bindCurrentNode :: "('d, 'w) node_env \<Rightarrow> node_opts \<Rightarrow> int64 \<Rightarrow> (string \<times> string) list \<Rightarrow> 'w nlink \<Rightarrow> goerr option \<times> 'w nlink" where
  "bindCurrentNode env opts uid metadata l = BindNode env uid (noName opts) \<lparr>nbNID = noID opts, nbMetadata = metadata\<rparr> l"

definition proxy_UnbindNode :: "('d, 'w) node_env \<Rightarrow> node_opts \<Rightarrow> int64 \<Rightarrow> string list \<Rightarrow> 'w nlink \<Rightarrow> goerr option \<times> 'w nlink" where
  "proxy_UnbindNode env opts uid nameAndNID l =
     (let (name, nid) =
        (case nameAndNID of
           name # nid # _ \<Rightarrow> if name \<noteq> '''' \<and> nid \<noteq> '''' then (name, nid) else (noName opts, noID opts)
         | _ \<Rightarrow> (noName opts, noID opts))
      in UnbindNode env uid name nid l)"

text \<open>A reply to the actor the request came from: \<open>Actor.Deliver\<close> with the message packed by \<open>Proxy.PackBuffer\<close>.\<close>

definition reply_actor :: "('p, 'w) link_env \<Rightarrow> nat option \<Rightarrow> string \<Rightarrow> int64 \<Rightarrow> 'p link_message \<Rightarrow> bytes nnode \<Rightarrow> (goerr option \<times> bytes nnode) option go" where
  "reply_actor genv pick pid uid m n =
     (case sch_doLoad pid n of
        None \<Rightarrow> Ok (Some (None, n))
      | Some a \<Rightarrow>
          (case gl_PackBuffer genv (lmData m) True of
             Err e \<Rightarrow> Ok (Some (Some e, n))
           | Panic \<Rightarrow> Panic
           | Ok buf \<Rightarrow> Ok (actor_Deliver a pick \<lparr>dlGid = [], dlNid = [], dlPid = [], dlCid = 0, dlUid = uid, dlSeq = lmSeq m,
               dlGameID = lmGameID m, dlMessageID = lmMessageID m, dlMetadata = [], dlData = Some buf\<rparr> n)))"

text \<open>The call on the linkers or on the node itself: the error it returns; \<open>None\<close> when a send waits.\<close>

definition proxy_run ::
    "('p, 'w) link_env \<Rightarrow> ('p, 'v) node_env \<Rightarrow> node_opts \<Rightarrow> nat option \<Rightarrow> 'p link_message proxy_call \<Rightarrow>
     'w glink \<times> 'v nlink \<times> bytes nnode \<Rightarrow> goerr option option go \<times> 'w glink \<times> 'v nlink \<times> bytes nnode" where
  "proxy_run genv nenv opts pick call ls =
     (case ls of (g, l, n) \<Rightarrow>
      (case call of
         CallBindGate gid cid uid \<Rightarrow> let (r, g) = BindGate genv gid cid uid g in (go_map (Some \<circ> snd) r, g, l, n)
       | CallUnbindGate cid uid \<Rightarrow> let (r, g) = UnbindGate genv cid uid g in (go_map Some r, g, l, n)
       | CallBindNode uid metadata \<Rightarrow> let (r, l) = bindCurrentNode nenv opts uid metadata l in (Ok (Some r), g, l, n)
       | CallUnbindNode uid \<Rightarrow> let (r, l) = proxy_UnbindNode nenv opts uid [] l in (Ok (Some r), g, l, n)
       | CallSubscribe gid kind targets channel \<Rightarrow> let (r, g) = gl_Subscribe genv gid kind targets channel g in (go_map (Some \<circ> snd) r, g, l, n)
       | CallUnsubscribe gid kind targets channel \<Rightarrow> let (r, g) = gl_Unsubscribe genv gid kind targets channel g in (go_map (Some \<circ> snd) r, g, l, n)
       | CallGetIP gid kind target \<Rightarrow> let (r, g) = gl_GetIP genv gid kind target g in (go_map (Some \<circ> snd) r, g, l, n)
       | CallPush gid kind target m \<Rightarrow> let (r, g) = gl_Push genv gid kind target m False g in (go_map Some r, g, l, n)
       | CallDeliver nid uid m \<Rightarrow> let (r, l) = proxy_Deliver nenv opts nid uid [] m l in (go_map Some r, g, l, n)
       | CallDisconnect gid uid cid force \<Rightarrow> let (r, g) = gl_Disconnect genv gid uid cid force g in (go_map (Some \<circ> snd) r, g, l, n)
       | CallActorDeliver pid uid m \<Rightarrow>
           (case reply_actor genv pick pid uid m n of
              Ok None \<Rightarrow> (Ok None, g, l, n)
            | Ok (Some (e, n)) \<Rightarrow> (Ok (Some e), g, l, n)
            | Err e \<Rightarrow> (Err e, g, l, n)
            | Panic \<Rightarrow> (Panic, g, l, n))
       | Refuse e \<Rightarrow> (Ok (Some (Some e)), g, l, n)
       | Nothing \<Rightarrow> (Ok (Some None), g, l, n)))"

section \<open>Life cycle\<close>

abbreviation (input) st_Shut :: int where "st_Shut \<equiv> 0"

abbreviation (input) st_Work :: int where "st_Work \<equiv> 1"

abbreviation (input) st_Busy :: int where "st_Busy \<equiv> 2"

abbreviation (input) st_Hang :: int where "st_Hang \<equiv> 3"

definition NewNode :: "string \<Rightarrow> int \<Rightarrow> int \<Rightarrow> 'd nnode" where
  "NewNode nid mailboxTimeout deliverTimeout =
     \<lparr>nnID = nid, nnState = st_Shut, nnWait = 0, nnMailboxTimeout = mailboxTimeout, nnDeliverTimeout = deliverTimeout, nnCtxs = [],
      nnReqPool = [], nnEvtPool = [], nnReqChan = [], nnEvtChan = [], nnRuns = [], nnActors = [], schActors = [], schRoutes = [],
      schKinds = [], schRelations = Map.empty\<rparr>"

definition node_Start :: "'d nnode \<Rightarrow> 'd nnode" where
  "node_Start n = (if nnState n = st_Shut then n\<lparr>nnState := st_Work\<rparr> else n)"

text \<open>\<open>Close\<close> up to \<open>wg.Wait()\<close>, which returns when the counter is 0.\<close>

definition node_Close :: "'d nnode \<Rightarrow> 'd nnode" where
  "node_Close n = (if nnState n = st_Work \<or> nnState n = st_Busy then n\<lparr>nnState := st_Hang\<rparr> else n)"

definition node_Destroy :: "'d nnode \<Rightarrow> 'd nnode" where
  "node_Destroy n = (if nnState n = st_Hang then n\<lparr>nnState := st_Shut\<rparr> else n)"

definition node_setState :: "int \<Rightarrow> 'd nnode \<Rightarrow> 'd nnode" where
  "node_setState st n = n\<lparr>nnState := st\<rparr>"

definition mergeServiceMetadata :: "(string \<times> string) list \<Rightarrow> string \<Rightarrow> (string \<times> string) list" where
  "mergeServiceMetadata metadata status = AList.update ''service_status'' status metadata"

section \<open>What a delivery queues\<close>

lemma router_deliver_queues:
  assumes "router_deliver pick d n = Some (None, n')" "\<forall>c \<in> set (nnReqPool n). c < length (nnCtxs n)"
  obtains c x where "nnReqChan n' = nnReqChan n @ [c]" "the_ctx n' c = fill_request d x" "c < length (nnCtxs n')"
proof -
  obtain c n1 where get: "pool_get RequestKind pick n = (c, n1)" by fastforce
  have "c < length (nnCtxs n1)" "nnReqChan n1 = nnReqChan n"
    using get assms(2) by (auto simp: pool_get_def pool_of_def set_pool_def split: option.splits if_splits)
  then show ?thesis
    using assms(1) get by (intro that [of c "the_ctx n1 c"]) (auto simp: router_deliver_def Let_def upd_ctx_def split: if_splits)
qed

lemma router_deliver_room:
  assumes "length (nnReqChan n) < req_cap"
  shows "\<exists>n'. router_deliver pick d n = Some (None, n')"
proof -
  obtain c n1 where get: "pool_get RequestKind pick n = (c, n1)" by fastforce
  then have "nnReqChan n1 = nnReqChan n" by (auto simp: pool_get_def set_pool_def split: option.splits if_splits)
  then show ?thesis using assms get by (simp add: router_deliver_def Let_def upd_ctx_def)
qed

end
