(* ===== verification/NodeOwner.thy ===== *)
theory NodeOwner
  imports NodeRace "HOL-Library.Multiset"
begin

text \<open>
  Ownership of the contexts of a node.  A context is in a pool, in the queue of the router or trigger, in a
  mailbox, or held by the running handler whose version is the current one.  It is at most one of
  these at a time.  The first section states this for multisets of holders and proves the moves from
  one holder to another; the second shows that the operations of a node are such moves.
\<close>

section \<open>Holders\<close>

text \<open>\<open>N\<close> objects; the pool, the channels, the mailboxes, the version of each object and the running handlers.\<close>

definition own_ok :: "nat \<Rightarrow> nat multiset \<Rightarrow> nat multiset \<Rightarrow> nat multiset \<Rightarrow> (nat \<Rightarrow> int32) \<Rightarrow> (nat \<times> int32) multiset \<Rightarrow> bool" where
  "own_ok N P C M V R \<longleftrightarrow>
     (\<forall>c. count P c + count C c + count M c + count R (c, V c) \<le> 1) \<and>
     (\<forall>c \<in># P. V c = 0 \<and> c < N) \<and>
     (\<forall>c \<in># C. V c = 0 \<and> c < N \<and> (\<forall>v. (c, v) \<notin># R)) \<and>
     (\<forall>c \<in># M. V c \<noteq> 0 \<and> c < N) \<and>
     (\<forall>(c, v) \<in># R. v \<noteq> 0 \<and> c < N \<and> (V c \<noteq> 0 \<longrightarrow> v \<le> V c))"

text \<open>Nobody holds the object.\<close>

definition unheld :: "nat \<Rightarrow> nat multiset \<Rightarrow> nat multiset \<Rightarrow> nat multiset \<Rightarrow> (nat \<Rightarrow> int32) \<Rightarrow> (nat \<times> int32) multiset \<Rightarrow> bool" where
  "unheld c P C M V R \<longleftrightarrow> c \<notin># P \<and> c \<notin># C \<and> c \<notin># M \<and> (c, V c) \<notin># R"

lemma own_holders: "own_ok N P C M V R \<Longrightarrow> count P c + count C c + count M c + count R (c, V c) \<le> 1"
  by (simp add: own_ok_def)

lemma own_runs: "\<lbrakk>own_ok N P C M V R; (c, v) \<in># R\<rbrakk> \<Longrightarrow> v \<noteq> 0 \<and> c < N \<and> (V c \<noteq> 0 \<longrightarrow> v \<le> V c)"
  by (auto simp: own_ok_def)

lemma own_P: "\<lbrakk>own_ok N P C M V R; c \<in># P\<rbrakk> \<Longrightarrow> V c = 0 \<and> c < N"
  by (auto simp: own_ok_def)

lemma own_C: "\<lbrakk>own_ok N P C M V R; c \<in># C\<rbrakk> \<Longrightarrow> V c = 0 \<and> c < N \<and> (\<forall>v. (c, v) \<notin># R)"
  by (auto simp: own_ok_def)

lemma own_M: "\<lbrakk>own_ok N P C M V R; c \<in># M\<rbrakk> \<Longrightarrow> V c \<noteq> 0 \<and> c < N"
  by (auto simp: own_ok_def)

lemma own_okI:
  assumes "\<And>c. count P c + count C c + count M c + count R (c, V c) \<le> 1"
    and "\<And>c. c \<in># P \<Longrightarrow> V c = 0 \<and> c < N"
    and "\<And>c. c \<in># C \<Longrightarrow> V c = 0 \<and> c < N \<and> (\<forall>v. (c, v) \<notin># R)"
    and "\<And>c. c \<in># M \<Longrightarrow> V c \<noteq> 0 \<and> c < N"
    and "\<And>c v. (c, v) \<in># R \<Longrightarrow> v \<noteq> 0 \<and> c < N \<and> (V c \<noteq> 0 \<longrightarrow> v \<le> V c)"
  shows "own_ok N P C M V R"
  using assms unfolding own_ok_def by blast

lemmas own_facts = own_P own_C own_M own_runs

lemma held_once:
  assumes "own_ok N P C M V R"
  shows "c \<in># P \<Longrightarrow> c \<notin># P - {#c#} \<and> c \<notin># C \<and> c \<notin># M \<and> (c, V c) \<notin># R"
    and "c \<in># C \<Longrightarrow> c \<notin># P \<and> c \<notin># C - {#c#} \<and> c \<notin># M \<and> (c, V c) \<notin># R"
    and "c \<in># M \<Longrightarrow> c \<notin># P \<and> c \<notin># C \<and> c \<notin># M - {#c#} \<and> (c, V c) \<notin># R"
    and "(c, V c) \<in># R \<Longrightarrow> c \<notin># P \<and> c \<notin># C \<and> c \<notin># M \<and> (c, V c) \<notin># R - {#(c, V c)#}"
proof -
  have le: "count P c + count C c + count M c + count R (c, V c) \<le> 1" by (rule own_holders [OF assms])
  note pos = count_greater_zero_iff [symmetric] count_eq_zero_iff [symmetric]
  show "c \<in># P \<Longrightarrow> c \<notin># P - {#c#} \<and> c \<notin># C \<and> c \<notin># M \<and> (c, V c) \<notin># R"
    "c \<in># C \<Longrightarrow> c \<notin># P \<and> c \<notin># C - {#c#} \<and> c \<notin># M \<and> (c, V c) \<notin># R"
    "c \<in># M \<Longrightarrow> c \<notin># P \<and> c \<notin># C \<and> c \<notin># M - {#c#} \<and> (c, V c) \<notin># R"
    "(c, V c) \<in># R \<Longrightarrow> c \<notin># P \<and> c \<notin># C \<and> c \<notin># M \<and> (c, V c) \<notin># R - {#(c, V c)#}"
    using le by (simp_all add: pos count_eq_zero_iff [symmetric] count_greater_zero_iff [symmetric] del: count_greater_zero_iff count_eq_zero_iff)
qed

text \<open>Fewer holders.\<close>

lemma own_mono:
  assumes "own_ok N P C M V R" "P' \<subseteq># P" "C' \<subseteq># C" "M' \<subseteq># M" "R' \<subseteq># R"
  shows "own_ok N P' C' M' V R'"
proof -
  have "count P' c + count C' c + count M' c + count R' (c, V c) \<le> 1" for c
    using own_holders [OF assms(1), of c] assms(2-5) by (meson add_mono le_trans mset_subset_eq_count)
  then show ?thesis
    by (rule own_okI) (use assms(2-5) own_facts [OF assms(1)] in \<open>blast dest: mset_subset_eqD\<close>)+
qed

lemma word_less_Suc: "(x :: 'a :: len word) \<noteq> - 1 \<Longrightarrow> x < x + 1"
  by (simp add: word_less_nat_alt unat_plus_if_size word_size)
    (metis Suc_lessI not_less_eq unsigned_less word_less_nat_alt word_order.not_eq_extremum)

text \<open>Raising the version of an object that at most a running handler holds.\<close>

lemma own_bump:
  assumes "own_ok N P C M V R" "c \<notin># P" "c \<notin># C" "c \<notin># M" "V c \<noteq> - 1" "V c = 0 \<Longrightarrow> \<forall>v. (c, v) \<notin># R"
  shows "own_ok N P C M (V(c := V c + 1)) R \<and> unheld c P C M (V(c := V c + 1)) R \<and> V c + 1 \<noteq> 0"
proof -
  have inc: "V c < V c + 1" by (rule word_less_Suc) (fact assms(5))
  have old: "v < V c + 1" if "(c, v) \<in># R" for v
    using own_runs [OF assms(1) that] assms(6) that inc by (metis order.strict_trans1)
  then have new: "(c, V c + 1) \<notin># R" by blast
  have "own_ok N P C M (V(c := V c + 1)) R"
  proof (rule own_okI)
    fix d
    show "count P d + count C d + count M d + count R (d, (V(c := V c + 1)) d) \<le> 1"
      using own_holders [OF assms(1), of d] assms(2-4) new by (cases "d = c") (simp_all add: count_eq_zero_iff [symmetric] del: count_eq_zero_iff)
    show "d \<in># P \<Longrightarrow> (V(c := V c + 1)) d = 0 \<and> d < N"
      "d \<in># C \<Longrightarrow> (V(c := V c + 1)) d = 0 \<and> d < N \<and> (\<forall>v. (d, v) \<notin># R)"
      "d \<in># M \<Longrightarrow> (V(c := V c + 1)) d \<noteq> 0 \<and> d < N"
      using own_facts(1-3) [OF assms(1), of d] assms(2-4) by auto
    show "(d, v) \<in># R \<Longrightarrow> v \<noteq> 0 \<and> d < N \<and> ((V(c := V c + 1)) d \<noteq> 0 \<longrightarrow> v \<le> (V(c := V c + 1)) d)" for v
      using own_runs [OF assms(1), of d v] old [of v] by auto
  qed
  then show ?thesis using assms(2-4) new inc by (auto simp: unheld_def)
qed

text \<open>Clearing the version of an object that is not queued.\<close>

lemma own_clear:
  assumes "own_ok N P C M V R" "c \<notin># C" "c \<notin># M" "c \<notin># P"
  shows "own_ok N P C M (V(c := 0)) R \<and> unheld c P C M (V(c := 0)) R"
proof -
  have "(c, 0) \<notin># R" using own_runs [OF assms(1)] by blast
  moreover have "count P c = 0" "count C c = 0" "count M c = 0" using assms(2-4) by (simp_all add: count_eq_zero_iff)
  ultimately have "count P d + count C d + count M d + count R (d, (V(c := 0)) d) \<le> 1" for d
    using own_holders [OF assms(1), of d] by (simp add: not_in_iff)
  then have "own_ok N P C M (V(c := 0)) R"
    by (rule own_okI) (use own_facts [OF assms(1)] assms(2-4) in auto)
  with \<open>(c, 0) \<notin># R\<close> show ?thesis using assms(2-4) by (simp add: unheld_def)
qed

text \<open>Handing an unheld object to a holder.\<close>

lemma own_put:
  assumes "own_ok N P C M V R" "unheld c P C M V R" "c < N"
  shows "V c = 0 \<Longrightarrow> own_ok N (add_mset c P) C M V R"
    and "\<lbrakk>V c = 0; \<forall>v. (c, v) \<notin># R\<rbrakk> \<Longrightarrow> own_ok N P (add_mset c C) M V R"
    and "V c \<noteq> 0 \<Longrightarrow> own_ok N P C (add_mset c M) V R"
    and "V c \<noteq> 0 \<Longrightarrow> own_ok N P C M V (add_mset (c, V c) R)"
proof -
  have z: "count P c = 0" "count C c = 0" "count M c = 0" "count R (c, V c) = 0"
    using assms(2) by (auto simp: unheld_def count_eq_zero_iff)
  note facts = own_holders [OF assms(1)] own_facts [OF assms(1)]
  show "V c = 0 \<Longrightarrow> own_ok N (add_mset c P) C M V R"
    by (rule own_okI) (use facts z assms(3) in auto)
  show "\<lbrakk>V c = 0; \<forall>v. (c, v) \<notin># R\<rbrakk> \<Longrightarrow> own_ok N P (add_mset c C) M V R"
    by (rule own_okI) (use facts z assms(3) in auto)
  show "V c \<noteq> 0 \<Longrightarrow> own_ok N P C (add_mset c M) V R"
    by (rule own_okI) (use facts z assms(3) in auto)
  show "V c \<noteq> 0 \<Longrightarrow> own_ok N P C M V (add_mset (c, V c) R)"
    by (rule own_okI) (use facts z assms(3) assms(2) in \<open>auto simp: unheld_def dest: facts(5)\<close>)
qed

section \<open>The holders of a node\<close>

definition pooled :: "'d nnode \<Rightarrow> nat multiset" where
  "pooled n = mset (nnReqPool n) + mset (nnEvtPool n)"

definition in_chans :: "'d nnode \<Rightarrow> nat multiset" where
  "in_chans n = mset (nnReqChan n) + mset (nnEvtChan n)"

definition in_mail :: "'d nnode \<Rightarrow> nat multiset" where
  "in_mail n = mset (concat (map acMailbox (nnActors n)))"

definition ver :: "'d nnode \<Rightarrow> nat \<Rightarrow> int32" where
  "ver n c = (if c < length (nnCtxs n) then cxVersion (the_ctx n c) else 0)"

definition owners_ok :: "'d nnode \<Rightarrow> bool" where
  "owners_ok n \<longleftrightarrow> own_ok (length (nnCtxs n)) (pooled n) (in_chans n) (in_mail n) (ver n) (mset (nnRuns n))"

text \<open>An object in the hands of the code that runs, held by nobody else.\<close>

definition in_hand :: "nat \<Rightarrow> 'd nnode \<Rightarrow> bool" where
  "in_hand c n \<longleftrightarrow> owners_ok n \<and> unheld c (pooled n) (in_chans n) (in_mail n) (ver n) (mset (nnRuns n)) \<and> c < length (nnCtxs n)"

text \<open>Two states with the same holders.\<close>

definition same_holders :: "'d nnode \<Rightarrow> 'd nnode \<Rightarrow> bool" where
  "same_holders n n' \<longleftrightarrow> length (nnCtxs n') = length (nnCtxs n) \<and> pooled n' = pooled n \<and> in_chans n' = in_chans n \<and>
     in_mail n' = in_mail n \<and> ver n' = ver n \<and> mset (nnRuns n') = mset (nnRuns n)"

lemma same_owners: "same_holders n n' \<Longrightarrow> owners_ok n' = owners_ok n"
  by (simp add: same_holders_def owners_ok_def)

lemma same_in_hand: "same_holders n n' \<Longrightarrow> in_hand c n' = in_hand c n"
  by (simp add: same_holders_def owners_ok_def in_hand_def)

lemma ver_upd_ctx: "ver (upd_ctx c f n) d = (if d = c \<and> c < length (nnCtxs n) then cxVersion (f (the_ctx n c)) else ver n d)"
  by (simp add: ver_def upd_ctx_def nth_list_update)

lemma holders_upd_ctx [simp]:
  "pooled (upd_ctx c f n) = pooled n" "in_chans (upd_ctx c f n) = in_chans n" "in_mail (upd_ctx c f n) = in_mail n"
  "nnRuns (upd_ctx c f n) = nnRuns n" "length (nnCtxs (upd_ctx c f n)) = length (nnCtxs n)"
  by (simp_all add: pooled_def in_chans_def in_mail_def upd_ctx_def)

lemma same_upd_ctx: "(\<And>x. cxVersion (f x) = cxVersion x) \<Longrightarrow> same_holders n (upd_ctx c f n)"
  by (auto simp: same_holders_def ver_upd_ctx fun_eq_iff) (simp add: ver_def)

lemma same_cancel: "same_holders n (upd_ctx c ctx_Cancel n)"
  by (rule same_upd_ctx) (simp add: ctx_Cancel_def)

lemma mset_concat_update:
  "a < length xs \<Longrightarrow> mset (concat (map g (xs[a := y]))) + mset (g (xs ! a)) = mset (concat (map g xs)) + mset (g y)"
  by (induction xs arbitrary: a) (auto split: nat.splits simp: ac_simps)

lemma mail_upd_actor:
  "a < length (nnActors n) \<Longrightarrow>
     in_mail (upd_actor a f n) + mset (acMailbox (the_actor n a)) = in_mail n + mset (acMailbox (f (the_actor n a)))"
  by (simp add: in_mail_def upd_actor_def mset_concat_update)

lemma holders_upd_actor [simp]:
  "pooled (upd_actor a f n) = pooled n" "in_chans (upd_actor a f n) = in_chans n" "nnCtxs (upd_actor a f n) = nnCtxs n"
  "nnRuns (upd_actor a f n) = nnRuns n" "ver (upd_actor a f n) = ver n"
  by (simp_all add: pooled_def in_chans_def upd_actor_def ver_def fun_eq_iff)

lemma mail_keep: "(\<And>x. acMailbox (f x) = acMailbox x) \<Longrightarrow> in_mail (upd_actor a f n) = in_mail n"
  using mail_upd_actor [of a n f] by (cases "a < length (nnActors n)") (auto simp: upd_actor_def in_mail_def not_less list_update_beyond)

lemma same_upd_actor: "(\<And>x. acMailbox (f x) = acMailbox x) \<Longrightarrow> same_holders n (upd_actor a f n)"
  by (simp add: same_holders_def mail_keep)

lemma holders_fields [simp]:
  "ver (n\<lparr>nnRuns := r\<rparr>) = ver n" "ver (n\<lparr>nnReqPool := p\<rparr>) = ver n" "ver (n\<lparr>nnEvtPool := p\<rparr>) = ver n"
  "ver (n\<lparr>nnReqChan := p\<rparr>) = ver n" "ver (n\<lparr>nnEvtChan := p\<rparr>) = ver n"
  "pooled (n\<lparr>nnRuns := r\<rparr>) = pooled n" "pooled (n\<lparr>nnReqChan := p\<rparr>) = pooled n" "pooled (n\<lparr>nnEvtChan := p\<rparr>) = pooled n"
  "in_chans (n\<lparr>nnRuns := r\<rparr>) = in_chans n" "in_chans (n\<lparr>nnReqPool := p\<rparr>) = in_chans n" "in_chans (n\<lparr>nnEvtPool := p\<rparr>) = in_chans n"
  "in_mail (n\<lparr>nnRuns := r\<rparr>) = in_mail n" "in_mail (n\<lparr>nnReqPool := p\<rparr>) = in_mail n" "in_mail (n\<lparr>nnEvtPool := p\<rparr>) = in_mail n"
  "in_mail (n\<lparr>nnReqChan := p\<rparr>) = in_mail n" "in_mail (n\<lparr>nnEvtChan := p\<rparr>) = in_mail n"
  by (simp_all add: pooled_def in_chans_def in_mail_def ver_def fun_eq_iff)

lemma pooled_put [simp]: "pooled (n\<lparr>nnReqPool := c # nnReqPool n\<rparr>) = add_mset c (pooled n)" "pooled (n\<lparr>nnEvtPool := c # nnEvtPool n\<rparr>) = add_mset c (pooled n)"
  by (simp_all add: pooled_def)

lemma same_fields [simp]:
  "same_holders m (n\<lparr>schActors := x1\<rparr>) = same_holders m n" "same_holders m (n\<lparr>schRoutes := x2\<rparr>) = same_holders m n"
  "same_holders m (n\<lparr>schKinds := x3\<rparr>) = same_holders m n" "same_holders m (n\<lparr>schRelations := x4\<rparr>) = same_holders m n"
  "same_holders m (n\<lparr>nnWait := x5\<rparr>) = same_holders m n" "same_holders m (n\<lparr>nnState := x6\<rparr>) = same_holders m n"
  "same_holders n n"
  by (simp_all add: same_holders_def pooled_def in_chans_def in_mail_def ver_def fun_eq_iff)

lemma same_addWait [simp]: "same_holders m (addWait n) = same_holders m n"
  by (simp add: addWait_def)

lemma same_trans: "\<lbrakk>same_holders n n'; same_holders n' n''\<rbrakk> \<Longrightarrow> same_holders n n''"
  by (simp add: same_holders_def)

section \<open>Operations as moves\<close>

text \<open>The version of an object that nobody but a running handler holds is raised; it is then in hand.\<close>

definition can_bump :: "nat \<Rightarrow> 'd nnode \<Rightarrow> bool" where
  "can_bump c n \<longleftrightarrow> owners_ok n \<and> c < length (nnCtxs n) \<and> c \<notin># pooled n \<and> c \<notin># in_chans n \<and> c \<notin># in_mail n \<and>
     ver n c \<noteq> - 1 \<and> (ver n c = 0 \<longrightarrow> (\<forall>v. (c, v) \<notin> set (nnRuns n)))"

lemma incr_bump:
  assumes "can_bump c n" "ctx_incrVersion c n = (v, n')"
  shows "in_hand c n' \<and> ver n' c = v \<and> v \<noteq> 0"
proof -
  have lt: "c < length (nnCtxs n)" using assms(1) by (simp add: can_bump_def)
  have n': "n' = upd_ctx c (\<lambda>x. x\<lparr>cxVersion := cxVersion x + 1\<rparr>) n" and v: "v = cxVersion (the_ctx n' c)"
    using assms(2) by (auto simp: ctx_incrVersion_def Let_def)
  have ver': "ver n' = (ver n)(c := ver n c + 1)" using lt by (auto simp: n' ver_upd_ctx fun_eq_iff) (simp add: ver_def)
  have "v = ver n' c" using lt v by (simp add: ver_def n')
  moreover have "own_ok (length (nnCtxs n)) (pooled n) (in_chans n) (in_mail n) (ver n') (mset (nnRuns n)) \<and>
      unheld c (pooled n) (in_chans n) (in_mail n) (ver n') (mset (nnRuns n)) \<and> ver n c + 1 \<noteq> 0"
    unfolding ver' by (rule own_bump) (use assms(1) in \<open>auto simp: can_bump_def owners_ok_def\<close>)
  ultimately show ?thesis using lt ver' by (simp add: in_hand_def owners_ok_def n')
qed

lemma bump_passing:
  assumes "owners_ok n" "(c, v) \<in> set (nnRuns n)" "v = ver n c" "v \<noteq> - 1"
  shows "can_bump c n"
proof -
  have own: "own_ok (length (nnCtxs n)) (pooled n) (in_chans n) (in_mail n) (ver n) (mset (nnRuns n))"
    using assms(1) by (simp add: owners_ok_def)
  have run: "(c, ver n c) \<in># mset (nnRuns n)" using assms(2,3) by simp
  show ?thesis using held_once(4) [OF own run] own_runs [OF own run] assms by (simp add: can_bump_def)
qed

lemma bump_fresh:
  "\<lbrakk>in_hand c n; ver n c = 0; \<forall>v. (c, v) \<notin> set (nnRuns n)\<rbrakk> \<Longrightarrow> can_bump c n"
  by (simp add: in_hand_def unheld_def can_bump_def)

lemma bump_again: "\<lbrakk>in_hand c n; ver n c \<noteq> 0; ver n c \<noteq> - 1\<rbrakk> \<Longrightarrow> can_bump c n"
  by (simp add: in_hand_def unheld_def can_bump_def)

lemma hand_owners: "in_hand c n \<Longrightarrow> owners_ok n"
  by (simp add: in_hand_def)

lemma hand_run: "\<lbrakk>in_hand c n; ver n c \<noteq> 0; v = ver n c\<rbrakk> \<Longrightarrow> owners_ok (n\<lparr>nnRuns := (c, v) # nnRuns n\<rparr>)"
  using own_put(4) [of "length (nnCtxs n)" "pooled n" "in_chans n" "in_mail n" "ver n" "mset (nnRuns n)" c]
  by (simp add: in_hand_def owners_ok_def)

lemma hand_mail:
  assumes "in_hand c n" "ver n c \<noteq> 0"
  shows "owners_ok (upd_actor a (\<lambda>x. x\<lparr>acMailbox := acMailbox x @ [c]\<rparr>) n)"
proof (cases "a < length (nnActors n)")
  case True
  then have "in_mail (upd_actor a (\<lambda>x. x\<lparr>acMailbox := acMailbox x @ [c]\<rparr>) n) = add_mset c (in_mail n)"
    using mail_upd_actor [OF True, of "\<lambda>x. x\<lparr>acMailbox := acMailbox x @ [c]\<rparr>"] by simp
  then show ?thesis
    using own_put(3) [of "length (nnCtxs n)" "pooled n" "in_chans n" "in_mail n" "ver n" "mset (nnRuns n)" c] assms
    by (simp add: in_hand_def owners_ok_def)
next
  case False
  then show ?thesis using assms(1) by (simp add: in_hand_def owners_ok_def upd_actor_def list_update_beyond)
qed

lemma hand_pool: "\<lbrakk>in_hand c n; ver n c = 0\<rbrakk> \<Longrightarrow> owners_ok (pool_put c n)"
  using own_put(1) [of "length (nnCtxs n)" "pooled n" "in_chans n" "in_mail n" "ver n" "mset (nnRuns n)" c]
  by (simp add: in_hand_def owners_ok_def pool_put_def)

lemma recycle_owners:
  assumes "owners_ok n" "c < length (nnCtxs n)" "cxVersion (the_ctx n c) = v \<Longrightarrow> c \<notin># pooled n \<and> c \<notin># in_chans n \<and> c \<notin># in_mail n"
  shows "owners_ok (compareVersionRecycle c v n)"
proof (cases "cxVersion (the_ctx n c) = v")
  case True
  let ?n = "upd_ctx c (\<lambda>x. ctx_reset (x\<lparr>cxVersion := 0\<rparr>)) n"
  have ver': "ver ?n = (ver n)(c := 0)" using assms(2) by (auto simp: ver_upd_ctx fun_eq_iff ctx_reset_def Let_def)
  have "in_hand c ?n"
    using own_clear [of "length (nnCtxs n)" "pooled n" "in_chans n" "in_mail n" "ver n" "mset (nnRuns n)" c] assms True
    by (simp add: in_hand_def owners_ok_def ver')
  then show ?thesis using True hand_pool [of c ?n] by (simp add: compareVersionRecycle_def ver')
qed (use assms(1) in \<open>simp add: compareVersionRecycle_def\<close>)

text \<open>A handler ends.\<close>

lemma run_finish_owners:
  assumes "owners_ok n" "(c, v) \<in> set (nnRuns n)" "run_finish c v handled n = (fired, n')"
  shows "owners_ok n'"
proof -
  have own: "own_ok (length (nnCtxs n)) (pooled n) (in_chans n) (in_mail n) (ver n) (mset (nnRuns n))"
    using assms(1) by (simp add: owners_ok_def)
  have lt: "c < length (nnCtxs n)" using own_runs [OF own, of c v] assms(2) by simp
  let ?n1 = "n\<lparr>nnRuns := remove1 (c, v) (nnRuns n)\<rparr>"
  obtain x where x: "n' = compareVersionRecycle c v (upd_ctx c (\<lambda>_. x) ?n1)" "cxVersion x = cxVersion (the_ctx n c)"
    using assms(3) by (auto simp: run_finish_def Let_def compareVersionExecDefer_def chain_FireHead_def split: prod.splits if_splits option.splits)
  let ?n2 = "upd_ctx c (\<lambda>_. x) ?n1"
  have "own_ok (length (nnCtxs n)) (pooled n) (in_chans n) (in_mail n) (ver n) (mset (nnRuns ?n1))"
    by (rule own_mono [OF own]) (simp_all add: diff_subset_eq_self)
  moreover have "ver ?n2 = ver n" using x(2) lt by (simp add: ver_upd_ctx fun_eq_iff) (simp add: ver_def)
  ultimately have own2: "owners_ok ?n2" by (simp add: owners_ok_def)
  have "c \<notin># pooled n \<and> c \<notin># in_chans n \<and> c \<notin># in_mail n" if "cxVersion (the_ctx n c) = v"
  proof -
    have "(c, ver n c) \<in># mset (nnRuns n)" using assms(2) that lt by (simp add: ver_def)
    from held_once(4) [OF own this] show ?thesis by simp
  qed
  moreover have "cxVersion (the_ctx ?n2 c) = cxVersion (the_ctx n c)" using lt x(2) by (simp add: upd_ctx_def)
  ultimately show ?thesis unfolding x(1) by (intro recycle_owners [OF own2]) (use lt in simp_all)
qed

text \<open>Passing a context to an actor.\<close>

lemma actor_Next_owners:
  assumes "can_bump c n" "actor_Next a c n = Some (e, n')"
  shows "owners_ok n'"
proof (cases "acState (the_actor n a) = act_started")
  case True
  let ?n1 = "upd_ctx c (\<lambda>x. x\<lparr>cxActor := Some a\<rparr>) n"
  let ?n2 = "snd (ctx_incrVersion c ?n1)" and ?v = "fst (ctx_incrVersion c ?n1)"
  have "same_holders n ?n1" by (rule same_upd_ctx) simp
  then have "can_bump c ?n1" using assms(1) by (simp add: can_bump_def same_holders_def owners_ok_def)
  then have "in_hand c ?n2 \<and> ver ?n2 c = ?v \<and> ?v \<noteq> 0" by (rule incr_bump) simp
  moreover have same: "same_holders ?n2 (upd_ctx c ctx_Cancel ?n2)" by (rule same_cancel)
  ultimately have "in_hand c (upd_ctx c ctx_Cancel ?n2)" "ver (upd_ctx c ctx_Cancel ?n2) c \<noteq> 0"
    using same_in_hand [OF same, of c] by (simp_all add: same_holders_def)
  then show ?thesis
    using assms(2) True hand_mail [of c "upd_ctx c ctx_Cancel ?n2" a] hand_owners [of c "upd_ctx c ctx_Cancel ?n2"]
    by (auto simp: actor_Next_def Let_def split: if_splits)
qed (use assms in \<open>simp add: actor_Next_def can_bump_def\<close>)

lemma next_all_none:
  "\<lbrakk>next_all as c n = Some n'; \<forall>a \<in> set as. \<not> acDispatch (the_actor n a)\<rbrakk> \<Longrightarrow> n' = n"
  by (induction as) auto

lemma nth_update_keep: "(\<And>x. g (f x) = g x) \<Longrightarrow> g (xs[a := f (xs ! a)] ! b) = g (xs ! b)"
  by (cases "a = b"; cases "a < length xs") (simp_all add: list_update_beyond)

lemma actors_ctx: "nnActors (upd_ctx c f n) = nnActors n" "nnActors (snd (ctx_incrVersion c n)) = nnActors n"
  by (simp_all add: upd_ctx_def ctx_incrVersion_def Let_def)

lemma dispatch_mail: "acDispatch (the_actor (upd_actor a (\<lambda>x. x\<lparr>acMailbox := m x\<rparr>) n) b) = acDispatch (the_actor n b)"
  unfolding upd_actor_def using nth_update_keep [where g = acDispatch and f = "\<lambda>x. x\<lparr>acMailbox := m x\<rparr>"] by simp

lemma actor_Next_dispatch:
  "actor_Next a c n = Some (e, n') \<Longrightarrow> acDispatch (the_actor n' b) = acDispatch (the_actor n b)"
  by (auto simp: actor_Next_def Let_def dispatch_mail actors_ctx split: if_splits)

text \<open>At most one actor listens to events.\<close>

definition one_listener :: "'d nnode \<Rightarrow> bool" where
  "one_listener n \<longleftrightarrow> length (filter (\<lambda>a. acDispatch (the_actor n a)) (map snd (schActors n))) \<le> 1"

lemma next_all_owners:
  assumes "next_all as c n = Some n'" "can_bump c n" "length (filter (\<lambda>a. acDispatch (the_actor n a)) as) \<le> 1"
  shows "owners_ok n'"
  using assms
proof (induction as)
  case Nil
  then show ?case by (simp add: can_bump_def)
next
  case (Cons a as)
  show ?case
  proof (cases "acDispatch (the_actor n a)")
    case True
    then obtain e n1 where n1: "actor_Next a c n = Some (e, n1)" "next_all as c n1 = Some n'"
      using Cons.prems(1) by (auto split: Option.bind_splits)
    have "\<forall>b \<in> set as. \<not> acDispatch (the_actor n b)" using Cons.prems(3) True by (auto simp: filter_empty_conv)
    then have "\<forall>b \<in> set as. \<not> acDispatch (the_actor n1 b)" using actor_Next_dispatch [OF n1(1)] by simp
    then have "n' = n1" by (rule next_all_none [OF n1(2)])
    then show ?thesis using actor_Next_owners [OF Cons.prems(2) n1(1)] by simp
  qed (use Cons in auto)
qed

lemma dispatch_owners:
  assumes "sch_dispatch c n = Some (e, n')" "can_bump c n" "cxKind (the_ctx n c) = EventKind \<Longrightarrow> one_listener n"
  shows "owners_ok n'"
  using assms actor_Next_owners [OF assms(2)] next_all_owners [OF _ assms(2)]
  by (cases "cxKind (the_ctx n c)")
    (auto simp: sch_dispatch_def dispatchRequest_def dispatchEvent_def Let_def can_bump_def one_listener_def split: if_splits option.splits)

lemma ctx_Task_owners:
  assumes "can_bump c n" "ctx_Task c n = (v, n')"
  shows "owners_ok n'"
proof -
  obtain n1 where n1: "ctx_incrVersion c n = (v, n1)" "n' = (addWait (upd_ctx c ctx_Cancel n1))\<lparr>nnRuns := (c, v) # nnRuns n1\<rparr>"
    using assms(2) by (auto simp: ctx_Task_def Let_def addWait_def split: prod.splits if_splits)
  let ?n2 = "addWait (upd_ctx c ctx_Cancel n1)"
  have same: "same_holders n1 ?n2"
    by (rule same_trans [OF same_cancel [of n1 c]]) (simp add: addWait_def)
  have "in_hand c n1 \<and> ver n1 c = v \<and> v \<noteq> 0" by (rule incr_bump [OF assms(1) n1(1)])
  then have "in_hand c ?n2" "ver ?n2 c = v" "v \<noteq> 0" using same_in_hand [OF same, of c] same by (simp_all add: same_holders_def)
  moreover have "nnRuns ?n2 = nnRuns n1" by (simp add: addWait_def)
  ultimately show ?thesis using hand_run [of c ?n2 "ver ?n2 c"] unfolding n1(2) by metis
qed

lemma Skip_owners:
  assumes "can_bump c n" "middleware_Skip index sk mws c n = Ok (index', n')"
  shows "owners_ok n'"
proof (cases "index \<ge> int (length mws)")
  case False
  then obtain v n1 where n1: "ctx_incrVersion c n = (v, n1)" "n' = (upd_ctx c ctx_Cancel n1)\<lparr>nnRuns := (c, v) # nnRuns n1\<rparr>"
    using assms(2) by (auto simp: middleware_Skip_def Let_def split: prod.splits if_splits)
  have same: "same_holders n1 (upd_ctx c ctx_Cancel n1)" by (rule same_cancel)
  have "in_hand c n1 \<and> ver n1 c = v \<and> v \<noteq> 0" by (rule incr_bump [OF assms(1) n1(1)])
  then have "in_hand c (upd_ctx c ctx_Cancel n1)" "ver (upd_ctx c ctx_Cancel n1) c = v" "v \<noteq> 0"
    using same_in_hand [OF same, of c] same by (simp_all add: same_holders_def)
  then show ?thesis using hand_run [of c "upd_ctx c ctx_Cancel n1" "ver (upd_ctx c ctx_Cancel n1) c"] unfolding n1(2) by (metis holders_upd_ctx(4))
qed (use assms in \<open>auto simp: middleware_Skip_def can_bump_def\<close>)

text \<open>Taking an object from a pool: no handler may still be running on it.\<close>

definition may_get :: "ctx_kind \<Rightarrow> nat option \<Rightarrow> 'd nnode \<Rightarrow> bool" where
  "may_get k pick n \<longleftrightarrow> (\<forall>c. pick = Some c \<longrightarrow> c \<in> set (pool_of k n) \<longrightarrow> (\<forall>v. (c, v) \<notin> set (nnRuns n)))"

definition fresh :: "nat \<Rightarrow> 'd nnode \<Rightarrow> bool" where
  "fresh c n \<longleftrightarrow> in_hand c n \<and> ver n c = 0 \<and> (\<forall>v. (c, v) \<notin> set (nnRuns n))"

lemma own_more: "own_ok N P C M V R \<Longrightarrow> own_ok (Suc N) P C M V R"
  unfolding own_ok_def by (auto simp: less_SucI)

lemma fresh_new:
  assumes "owners_ok n"
  shows "fresh (length (nnCtxs n)) (n\<lparr>nnCtxs := nnCtxs n @ [new_ctx k]\<rparr>)"
proof -
  let ?c = "length (nnCtxs n)" and ?n = "n\<lparr>nnCtxs := nnCtxs n @ [new_ctx k]\<rparr>"
  have own: "own_ok ?c (pooled n) (in_chans n) (in_mail n) (ver n) (mset (nnRuns n))"
    using assms by (simp add: owners_ok_def)
  have ver: "ver ?n = ver n" by (auto simp: ver_def nth_append new_ctx_def fun_eq_iff)
  have holders: "pooled ?n = pooled n" "in_chans ?n = in_chans n" "in_mail ?n = in_mail n"
    by (simp_all add: pooled_def in_chans_def in_mail_def)
  have runs: "(?c, v) \<notin> set (nnRuns n)" for v using own_runs [OF own, of ?c v] by auto
  then have "unheld ?c (pooled n) (in_chans n) (in_mail n) (ver n) (mset (nnRuns n))"
    using own_P [OF own] own_C [OF own] own_M [OF own] by (auto simp: unheld_def)
  then show ?thesis using own_more [OF own] runs by (simp add: fresh_def in_hand_def owners_ok_def ver holders) (simp add: ver_def)
qed

lemma pooled_set_pool: "c \<in> set (pool_of k n) \<Longrightarrow> pooled (set_pool k (remove1 c (pool_of k n)) n) = pooled n - {#c#}"
  by (cases k) (simp_all add: pooled_def pool_of_def set_pool_def)

lemma holders_set_pool [simp]:
  "in_chans (set_pool k p n) = in_chans n" "in_mail (set_pool k p n) = in_mail n" "ver (set_pool k p n) = ver n"
  "nnRuns (set_pool k p n) = nnRuns n" "nnCtxs (set_pool k p n) = nnCtxs n"
  by (cases k; simp add: set_pool_def)+

lemma pool_get_fresh:
  assumes "owners_ok n" "may_get k pick n" "pool_get k pick n = (c, n')"
  shows "fresh c n'"
proof (cases "\<exists>c. pick = Some c \<and> c \<in> set (pool_of k n)")
  case True
  then have c: "c \<in> set (pool_of k n)" "pick = Some c" "n' = set_pool k (remove1 c (pool_of k n)) n"
    using assms(3) by (auto simp: pool_get_def)
  have own: "own_ok (length (nnCtxs n)) (pooled n) (in_chans n) (in_mail n) (ver n) (mset (nnRuns n))"
    using assms(1) by (simp add: owners_ok_def)
  have in_pool: "c \<in># pooled n" using c(1) by (cases k) (auto simp: pooled_def pool_of_def)
  have "own_ok (length (nnCtxs n)) (pooled n - {#c#}) (in_chans n) (in_mail n) (ver n) (mset (nnRuns n))"
    by (rule own_mono [OF own]) (simp_all add: diff_subset_eq_self)
  then show ?thesis
    using held_once(1) [OF own in_pool] own_P [OF own in_pool] assms(2) c
    by (simp add: fresh_def in_hand_def owners_ok_def unheld_def pooled_set_pool may_get_def)
next
  case False
  then have "c = length (nnCtxs n)" "n' = n\<lparr>nnCtxs := nnCtxs n @ [new_ctx k]\<rparr>"
    using assms(3) by (auto simp: pool_get_def split: option.splits if_splits)
  then show ?thesis using fresh_new [OF assms(1)] by simp
qed

lemma fresh_same: "\<lbrakk>same_holders n n'; fresh c n\<rbrakk> \<Longrightarrow> fresh c n'"
  using same_in_hand [of n n' c] by (simp add: fresh_def same_holders_def) (metis set_mset_mset)

lemma fresh_chan:
  assumes "fresh c n"
  shows "owners_ok (n\<lparr>nnReqChan := nnReqChan n @ [c]\<rparr>)" "owners_ok (n\<lparr>nnEvtChan := nnEvtChan n @ [c]\<rparr>)"
proof -
  have "own_ok (length (nnCtxs n)) (pooled n) (add_mset c (in_chans n)) (in_mail n) (ver n) (mset (nnRuns n))"
    by (rule own_put(2)) (use assms in \<open>simp_all add: fresh_def in_hand_def owners_ok_def\<close>)
  then show "owners_ok (n\<lparr>nnReqChan := nnReqChan n @ [c]\<rparr>)" "owners_ok (n\<lparr>nnEvtChan := nnEvtChan n @ [c]\<rparr>)"
    by (simp_all add: owners_ok_def) (simp_all add: in_chans_def)
qed

lemma fresh_back:
  assumes "fresh c n"
  shows "owners_ok (pool_put c (upd_ctx c ctx_reset n))"
proof -
  have same: "same_holders n (upd_ctx c ctx_reset n)" by (rule same_upd_ctx) (simp add: ctx_reset_def Let_def)
  show ?thesis using fresh_same [OF same assms] by (intro hand_pool) (simp_all add: fresh_def)
qed

lemma router_deliver_owners:
  assumes "router_deliver pick d n = Some (e, n')" "owners_ok n" "may_get RequestKind pick n"
  shows "owners_ok n'"
proof -
  obtain c n1 where get: "pool_get RequestKind pick n = (c, n1)" by fastforce
  have "same_holders n1 (upd_ctx c (fill_request d) n1)" by (rule same_upd_ctx) (simp add: fill_request_def)
  from fresh_same [OF this pool_get_fresh [OF assms(2,3) get]] show ?thesis
    using assms(1) get by (auto simp: router_deliver_def Let_def fresh_chan fresh_back split: if_splits)
qed

lemma trigger_owners:
  assumes "trigger_trigger pick evt gid cid uid n = Some (e, n')" "owners_ok n" "may_get EventKind pick n"
  shows "owners_ok n'"
proof -
  obtain c n1 where get: "pool_get EventKind pick n = (c, n1)" by fastforce
  have "same_holders n1 (upd_ctx c (fill_event evt gid cid uid) n1)" by (rule same_upd_ctx) (simp add: fill_event_def)
  from fresh_same [OF this pool_get_fresh [OF assms(2,3) get]] show ?thesis
    using assms(1) get by (auto simp: trigger_trigger_def Let_def fresh_chan fresh_back split: if_splits)
qed

lemma actor_Deliver_owners:
  assumes "actor_Deliver a pick d n = Some (e, n')" "owners_ok n" "may_get RequestKind pick n"
  shows "owners_ok n'"
proof -
  obtain c n1 where get: "pool_get RequestKind pick n = (c, n1)" by fastforce
  let ?n2 = "upd_ctx c (\<lambda>x. x\<lparr>cxNid := nnID n1, cxUid := dlUid d, cxSeq := dlSeq d, cxGameID := dlGameID d,
    cxMessageID := dlMessageID d, cxData := dlData d\<rparr>) n1"
  have "same_holders n1 ?n2" by (rule same_upd_ctx) simp
  from fresh_same [OF this pool_get_fresh [OF assms(2,3) get]] have "can_bump c ?n2"
    by (intro bump_fresh) (simp_all add: fresh_def)
  then show ?thesis using assms(1) get by (auto simp: actor_Deliver_def Let_def intro: actor_Next_owners)
qed

text \<open>A worker takes a context from its channel.\<close>

lemma chan_fresh:
  assumes "owners_ok n" "in_chans n = add_mset c (in_chans n0)" "length (nnCtxs n0) = length (nnCtxs n)" "pooled n0 = pooled n"
    "in_mail n0 = in_mail n" "ver n0 = ver n" "nnRuns n0 = nnRuns n"
  shows "fresh c n0"
proof -
  have own: "own_ok (length (nnCtxs n)) (pooled n) (in_chans n) (in_mail n) (ver n) (mset (nnRuns n))"
    using assms(1) by (simp add: owners_ok_def)
  have c: "c \<in># in_chans n" using assms(2) by simp
  have "own_ok (length (nnCtxs n)) (pooled n) (in_chans n0) (in_mail n) (ver n) (mset (nnRuns n))"
    by (rule own_mono [OF own]) (simp_all add: assms(2))
  then show ?thesis
    using held_once(2) [OF own c] own_C [OF own c] assms(2-7) by (simp add: fresh_def in_hand_def owners_ok_def unheld_def)
qed

lemma fresh_incr:
  assumes "fresh c n" "ctx_incrVersion c n = (v, n')"
  shows "in_hand c n' \<and> ver n' c = 1 \<and> v = 1"
proof -
  have "can_bump c n" using assms(1) by (intro bump_fresh) (simp_all add: fresh_def)
  from incr_bump [OF this assms(2)] have hand: "in_hand c n' \<and> ver n' c = v" by simp
  have "c < length (nnCtxs n)" "ver n c = 0" using assms(1) by (simp_all add: fresh_def in_hand_def)
  then have "v = 1" using assms(2) by (auto simp: ctx_incrVersion_def Let_def upd_ctx_def ver_def)
  with hand show ?thesis by simp
qed

lemma hand_recycle: "in_hand c n \<Longrightarrow> owners_ok (compareVersionRecycle c v n)"
  by (rule recycle_owners) (auto simp: in_hand_def unheld_def)

lemma router_handle_owners:
  assumes "router_handle r n = Some (h, n')" "owners_ok n"
  shows "owners_ok n'"
proof -
  obtain c cs where cs: "nnReqChan n = c # cs" using assms(1) by (auto simp: router_handle_def split: list.splits)
  obtain v n1 where n1: "ctx_incrVersion c (n\<lparr>nnReqChan := cs\<rparr>) = (v, n1)" by fastforce
  have "fresh c (n\<lparr>nnReqChan := cs\<rparr>)" by (rule chan_fresh [OF assms(2)]) (simp_all add: in_chans_def cs)
  from fresh_incr [OF this n1] have hand: "in_hand c n1" "ver n1 c = 1" "v = 1" by simp_all
  have "can_bump c n1" using hand(1,2) by (intro bump_again) simp_all
  note skip = Skip_owners [OF this]
  have run: "owners_ok (n1\<lparr>nnRuns := (c, v) # nnRuns n1\<rparr>)" by (rule hand_run [OF hand(1)]) (simp_all add: hand)
  show ?thesis
    using assms(1) cs n1 run skip hand_recycle [OF hand(1), of v]
    by (auto simp: router_handle_def Let_def split: prod.splits if_splits go.splits)
qed

lemma trigger_handle_owners:
  assumes "trigger_handle events n = Some (h, n')" "owners_ok n"
  shows "owners_ok n'"
proof -
  obtain c cs where cs: "nnEvtChan n = c # cs" using assms(1) by (auto simp: trigger_handle_def split: list.splits)
  obtain v n1 where n1: "ctx_incrVersion c (n\<lparr>nnEvtChan := cs\<rparr>) = (v, n1)" by fastforce
  have "fresh c (n\<lparr>nnEvtChan := cs\<rparr>)" by (rule chan_fresh [OF assms(2)]) (simp_all add: in_chans_def cs)
  from fresh_incr [OF this n1] have hand: "in_hand c n1" "ver n1 c = 1" "v = 1" by simp_all
  have run: "owners_ok (n1\<lparr>nnRuns := (c, v) # nnRuns n1\<rparr>)" by (rule hand_run [OF hand(1)]) (simp_all add: hand)
  show ?thesis
    using assms(1) cs n1 run hand_recycle [OF hand(1), of v] by (auto simp: trigger_handle_def Let_def split: if_splits)
qed

text \<open>An actor takes a context from its mailbox.\<close>

lemma actor_take_owners:
  assumes "actor_take a n = Some (h, n')" "owners_ok n" "a < length (nnActors n)"
  shows "owners_ok n'"
proof -
  obtain c cs where cs: "acMailbox (the_actor n a) = c # cs" using assms(1) by (auto simp: actor_take_def split: list.splits)
  let ?n1 = "upd_actor a (\<lambda>x. x\<lparr>acMailbox := cs\<rparr>) n"
  have n': "n' = ?n1\<lparr>nnRuns := (c, cxVersion (the_ctx n c)) # nnRuns ?n1\<rparr>"
    using assms(1) cs by (auto simp: actor_take_def Let_def)
  have mail: "in_mail n = add_mset c (in_mail ?n1)"
    using mail_upd_actor [OF assms(3), of "\<lambda>x. x\<lparr>acMailbox := cs\<rparr>"] cs by simp
  have own: "own_ok (length (nnCtxs n)) (pooled n) (in_chans n) (in_mail n) (ver n) (mset (nnRuns n))"
    using assms(2) by (simp add: owners_ok_def)
  have c: "c \<in># in_mail n" using mail by simp
  have "own_ok (length (nnCtxs n)) (pooled n) (in_chans n) (in_mail ?n1) (ver n) (mset (nnRuns n))"
    by (rule own_mono [OF own]) (simp_all add: mail)
  then have "in_hand c ?n1"
    using held_once(3) [OF own c] own_M [OF own c] mail by (simp add: in_hand_def owners_ok_def unheld_def)
  moreover have "ver ?n1 c \<noteq> 0" "cxVersion (the_ctx n c) = ver ?n1 c" using own_M [OF own c] by (auto simp: ver_def)
  ultimately show ?thesis unfolding n' by (rule hand_run)
qed

text \<open>The other operations leave the holders alone, or drop what is in a mailbox.\<close>

lemma owners_exit:
  assumes "owners_ok n" "a < length (nnActors n)"
  shows "owners_ok (upd_actor a (\<lambda>x. x\<lparr>acMailbox := [], acFns := []\<rparr>) n)"
proof -
  have "in_mail n = in_mail (upd_actor a (\<lambda>x. x\<lparr>acMailbox := [], acFns := []\<rparr>) n) + mset (acMailbox (the_actor n a))"
    using mail_upd_actor [OF assms(2), of "\<lambda>x. x\<lparr>acMailbox := [], acFns := []\<rparr>"] by simp
  then have "in_mail (upd_actor a (\<lambda>x. x\<lparr>acMailbox := [], acFns := []\<rparr>) n) \<subseteq># in_mail n" by simp
  then show ?thesis using assms(1) own_mono by (fastforce simp: owners_ok_def)
qed

lemma same_run_fn: "actor_run_fn a n = Some n' \<Longrightarrow> same_holders n n'"
  by (auto simp: actor_run_fn_def Let_def same_upd_actor intro!: same_trans [OF same_upd_actor same_upd_actor]
      split: list.splits actor_fn.splits if_splits)

lemma same_new_actor: "acMailbox x = [] \<Longrightarrow> same_holders n (n\<lparr>nnActors := nnActors n @ [x]\<rparr>)"
  by (simp add: same_holders_def pooled_def in_chans_def in_mail_def ver_def fun_eq_iff)

lemma mailbox_register: "register_all fns x = Some y \<Longrightarrow> acMailbox y = acMailbox x"
  by (induction fns arbitrary: x) (auto simp: actor_register_def split: Option.bind_splits if_splits actor_fn.splits)

lemma same_sch_register: "same_holders n (sch_register a n)"
  by (simp add: sch_register_def Let_def)

lemma same_spawn:
  assumes "sch_spawn kind aid wait disp created init n = Some (res, n')"
  shows "same_holders n n'"
proof -
  obtain x where x: "register_all created (new_actor kind aid wait disp) = Some x"
    using assms by (auto simp: sch_spawn_def split: Option.bind_splits)
  then have mx: "acMailbox x = []" using mailbox_register [OF x] by (simp add: new_actor_def)
  let ?a = "length (nnActors n)" and ?n1 = "n\<lparr>nnActors := nnActors n @ [x]\<rparr>"
  let ?n2 = "if wait then addWait ?n1 else ?n1"
  have n1: "same_holders n ?n1" by (rule same_new_actor [OF mx])
  have at: "the_actor ?n2 ?a = x" "?a < length (nnActors ?n2)" by (simp_all add: addWait_def)
  have n2: "same_holders n ?n2" by (rule same_trans [OF n1]) (simp add: addWait_def)
  have n3: "same_holders n (upd_actor ?a (\<lambda>_. y) ?n2)" if "register_all init x = Some y" for y
  proof (rule same_trans [OF n2])
    have "acMailbox y = []" using mailbox_register [OF that] mx by simp
    then have "in_mail (upd_actor ?a (\<lambda>_. y) ?n2) = in_mail ?n2" using mail_upd_actor [OF at(2), of "\<lambda>_. y"] at(1) mx by simp
    then show "same_holders ?n2 (upd_actor ?a (\<lambda>_. y) ?n2)" by (simp add: same_holders_def)
  qed
  show ?thesis
    using assms x n1 n3 same_trans [OF _ same_sch_register] by (auto simp: sch_spawn_def Let_def split: if_splits)
qed

lemma same_remove: "sch_remove kind aid n = (r, n') \<Longrightarrow> same_holders n n'"
  by (auto simp: sch_remove_def split: option.splits)

lemma same_destroy: "actor_destroy a n = (ok, n') \<Longrightarrow> same_holders n n'"
  by (auto simp: actor_destroy_def Let_def same_upd_actor split: if_splits)

lemma same_doneWait: "doneWait n = Ok n' \<Longrightarrow> same_holders n n'"
  by (auto simp: doneWait_def split: if_splits)

lemma same_kill: "sch_kill kind aid n = Ok (ok, n') \<Longrightarrow> same_holders n n'"
  by (fastforce simp: sch_kill_def Let_def go_map_eq_Ok dest: same_remove same_destroy same_doneWait intro: same_trans
      split: prod.splits option.splits if_splits)

lemma same_Destroy: "actor_Destroy a n = (ok, n') \<Longrightarrow> same_holders n n'"
  by (fastforce simp: actor_Destroy_def Let_def dest: same_remove same_destroy intro: same_trans split: prod.splits if_splits)

lemma same_bind: "bindActor uid kind aid n = (e, n') \<Longrightarrow> same_holders n n'"
  by (auto simp: bindActor_def Let_def actor_bindUser_def same_upd_actor split: if_splits option.splits)

lemma same_upd_const: "acMailbox y = acMailbox (the_actor n a) \<Longrightarrow> same_holders n (upd_actor a (\<lambda>_. y) n)"
  using mail_upd_actor [of a n "\<lambda>_. y"]
  by (cases "a < length (nnActors n)") (simp_all add: same_holders_def, simp add: upd_actor_def list_update_beyond)

lemma same_unbind: "same_holders n (unbindActor uid kind n)"
  unfolding unbindActor_def Let_def actor_unbindUser_def
  by (auto simp: same_upd_const split: option.splits)

section \<open>Careful runs\<close>

text \<open>A handler passes its context on at most once; an event goes to one actor at most; an object leaves
  its pool when no handler is running on it; and no version reaches the largest number.\<close>

fun careful :: "node_label \<Rightarrow> 'd nnode \<Rightarrow> bool" where
  "careful (Getting k pick) n = may_get k pick n"
| "careful (Passing c v) n = (v = ver n c \<and> v \<noteq> - 1)"
| "careful (Dispatching c v) n = (v = ver n c \<and> v \<noteq> - 1 \<and> (cxKind (the_ctx n c) = EventKind \<longrightarrow> one_listener n))"
| "careful Working n = True"

definition careful_run :: "Router \<Rightarrow> (int \<times> nat) list \<Rightarrow> 'd nnode \<Rightarrow> 'd nnode \<Rightarrow> bool" where
  "careful_run r events = (\<lambda>n n'. \<exists>lab. careful lab n \<and> node_step r events lab n n')\<^sup>*\<^sup>*"

lemma owners_state: "owners_ok (n\<lparr>nnState := st\<rparr>) = owners_ok n"
  by (rule same_owners) simp

lemma careful_step_owners:
  assumes "node_step r events lab n n'" "careful lab n" "owners_ok n"
  shows "owners_ok n'"
  using assms(1)
proof (cases rule: node_step.cases)
  case (deliver pick d e)
  then show ?thesis using assms(2,3) by (auto intro: router_deliver_owners)
next
  case (trigger pick evt gid cid uid e)
  then show ?thesis using assms(2,3) by (auto intro: trigger_owners)
next
  case (pass_on c v e)
  then have "can_bump c n" using assms(2,3) bump_passing [of n c v] by auto
  with pass_on show ?thesis using assms(2) by (intro dispatch_owners [of c n e n']) simp_all
next
  case (next_actor c v a e)
  then have "can_bump c n" using assms(2,3) bump_passing [of n c v] by auto
  then show ?thesis using next_actor by (intro actor_Next_owners [of c n a e n']) simp_all
next
  case (task c v v')
  then have "can_bump c n" using assms(2,3) bump_passing [of n c v] by auto
  then show ?thesis using task by (intro ctx_Task_owners [of c n v' n']) simp_all
next
  case (skip c v index sk mws index')
  then have "can_bump c n" using assms(2,3) bump_passing [of n c v] by auto
  then show ?thesis using skip by (intro Skip_owners [of c n index sk mws index' n']) simp_all
next
  case (finish_task c v fired)
  obtain fired' n1 where n1: "run_finish c v True n = (fired', n1)" by fastforce
  with finish_task have dn: "doneWait n1 = Ok n'" by (simp add: task_finish_def go_map_eq_Ok)
  from n1 have "owners_ok n1" using finish_task assms(3) by (intro run_finish_owners [of n c v True fired' n1]) simp_all
  then show ?thesis using same_owners [OF same_doneWait [OF dn]] by simp
next
  case (actor_delivers a pick d e)
  then show ?thesis using assms(2,3) by (auto intro: actor_Deliver_owners)
next
  case (actor_pushes a pick d e)
  then show ?thesis using assms(2,3) by (auto simp: actor_Push_def intro: router_deliver_owners)
next
  case (actor_invokes a fn)
  moreover have "same_holders n (upd_actor a (actor_Invoke fn) n)" by (rule same_upd_actor) (simp add: actor_Invoke_def)
  ultimately show ?thesis using assms(3) same_owners by blast
next
  case (deferred c v fn bottom)
  moreover have "same_holders n (upd_ctx c (ctx_Defer fn bottom) n)" by (rule same_upd_ctx) (simp add: ctx_Defer_def Let_def)
  ultimately show ?thesis using assms(3) same_owners by blast
qed (use assms(3) in \<open>auto intro: router_handle_owners trigger_handle_owners run_finish_owners actor_take_owners owners_exit
      simp: same_owners [OF same_cancel] same_owners [OF same_unbind] node_setState_def owners_state
      dest: same_owners [OF same_run_fn] same_owners [OF same_spawn] same_owners [OF same_kill] same_owners [OF same_Destroy] same_owners [OF same_bind]\<close>)

lemma careful_run_refl: "careful_run r events n n"
  by (simp add: careful_run_def)

lemma careful_run_step: "\<lbrakk>careful_run r events n m; careful lab m; node_step r events lab m m'\<rbrakk> \<Longrightarrow> careful_run r events n m'"
  unfolding careful_run_def by (blast intro: rtranclp.rtrancl_into_rtrancl)

lemma careful_reach: "careful_run r events (NewNode nid mt dt) n \<Longrightarrow> owners_ok n"
  unfolding careful_run_def
proof (induction rule: rtranclp_induct)
  case base
  then show ?case by (simp add: owners_ok_def own_ok_def pooled_def in_chans_def in_mail_def NewNode_def)
qed (blast intro: careful_step_owners)

section \<open>Properties\<close>


text \<open>A node with a message dispatcher; a request is delivered, handled and given back.\<close>

definition sample_router :: Router where
  "sample_router = newRouter\<lparr>rtDispatcher := Some 1\<rparr>"

definition sample_delivery :: "nat \<Rightarrow> nat delivery" where
  "sample_delivery k = \<lparr>dlGid = ''g1'', dlNid = [], dlPid = [], dlCid = 5, dlUid = 7, dlSeq = 0, dlGameID = 2, dlMessageID = 9,
     dlMetadata = [], dlData = Some k\<rparr>"

definition run_deliver :: "nat option \<Rightarrow> nat \<Rightarrow> nat nnode \<Rightarrow> nat nnode" where
  "run_deliver pick k n = snd (the (router_deliver pick (sample_delivery k) n))"

definition run_handle :: "nat nnode \<Rightarrow> nat nnode" where
  "run_handle n = snd (the (router_handle sample_router n))"

definition run_end :: "nat \<Rightarrow> int32 \<Rightarrow> nat nnode \<Rightarrow> nat nnode" where
  "run_end c v n = snd (run_finish c v True n)"

definition sample_node :: "nat nnode" where
  "sample_node = NewNode ''n1'' 3 3"

lemmas sample_defs = sample_node_def sample_delivery_def sample_router_def newRouter_def NewNode_def run_deliver_def run_handle_def
  run_end_def

lemma sample_steps:
  "router_deliver pick (sample_delivery k) n \<noteq> None \<Longrightarrow> node_step sample_router [] (Getting RequestKind pick) n (run_deliver pick k n)"
  "router_handle sample_router n \<noteq> None \<Longrightarrow> node_step sample_router [] Working n (run_handle n)"
  "(c, v) \<in> set (nnRuns n) \<Longrightarrow> node_step sample_router [] Working n (run_end c v n)"
proof -
  show "router_deliver pick (sample_delivery k) n \<noteq> None \<Longrightarrow> node_step sample_router [] (Getting RequestKind pick) n (run_deliver pick k n)"
    by (cases "router_deliver pick (sample_delivery k) n") (auto simp: run_deliver_def intro: node_step.deliver)
  show "router_handle sample_router n \<noteq> None \<Longrightarrow> node_step sample_router [] Working n (run_handle n)"
    by (cases "router_handle sample_router n") (auto simp: run_handle_def intro: node_step.handle)
  show "(c, v) \<in> set (nnRuns n) \<Longrightarrow> node_step sample_router [] Working n (run_end c v n)"
    by (cases "run_finish c v True n") (auto simp: run_end_def intro: node_step.finish)
qed



definition run_spawn :: "string \<Rightarrow> nat nnode \<Rightarrow> nat nnode" where
  "run_spawn aid n = snd (the (sch_spawn ''room'' aid True True [] [] n))"

definition run_bind :: "string \<Rightarrow> nat nnode \<Rightarrow> nat nnode" where
  "run_bind aid n = snd (bindActor 7 ''room'' aid n)"

lemma run_step: "\<lbrakk>node_run r events n m; node_step r events lab m m'\<rbrakk> \<Longrightarrow> node_run r events n m'"
  unfolding node_run_def by (blast intro: rtranclp.rtrancl_into_rtrancl)

lemma run_refl: "node_run r events n n"
  by (simp add: node_run_def)

lemma opt_run: "x \<noteq> None \<Longrightarrow> x = Some (fst (the x), snd (the x))"
  by auto

lemma sample_actor_steps:
  "sch_spawn ''room'' aid True True [] [] n \<noteq> None \<Longrightarrow> node_step r events Working n (run_spawn aid n)"
  "node_step r events Working n (run_bind aid n)"
proof -
  show "sch_spawn ''room'' aid True True [] [] n \<noteq> None \<Longrightarrow> node_step r events Working n (run_spawn aid n)"
    by (cases "sch_spawn ''room'' aid True True [] [] n") (auto simp: run_spawn_def intro: node_step.spawn)
  show "node_step r events Working n (run_bind aid n)"
    by (cases "bindActor 7 ''room'' aid n") (auto simp: run_bind_def intro: node_step.bind)
qed


definition run_event :: "nat nnode" where
  "run_event = (let n = run_spawn ''2'' (run_spawn ''1'' sample_node);
     n = snd (the (trigger_trigger None 1 ''g1'' 5 7 n));
     n = snd (the (trigger_handle [(1, 1)] n));
     n = snd (the (sch_dispatch 0 n));
     n = snd (the (actor_take 0 n))
   in snd (run_finish 0 3 True n))"

text \<open>An event that is dispatched to two actors is given back while it is still in the mailbox of the second: the
  first actor that handles it holds the current version and recycles it.\<close>

theorem event_recycled_in_mailbox:
  "node_run newRouter [(1, 1)] sample_node run_event \<and> 0 \<in> set (nnEvtPool run_event) \<and> 0 \<in> set (acMailbox (the_actor run_event 1))"
proof -
  let ?n1 = "run_spawn ''1'' sample_node"
  let ?n2 = "run_spawn ''2'' ?n1"
  let ?n3 = "snd (the (trigger_trigger None 1 ''g1'' 5 7 ?n2))"
  let ?n4 = "snd (the (trigger_handle [(1, 1)] ?n3))"
  let ?n5 = "snd (the (sch_dispatch 0 ?n4))"
  let ?n6 = "snd (the (actor_take 0 ?n5))"
  have s1: "sch_spawn ''room'' ''1'' True True [] [] sample_node \<noteq> None" by code_simp
  have s2: "sch_spawn ''room'' ''2'' True True [] [] ?n1 \<noteq> None" by code_simp
  have s3: "trigger_trigger None 1 ''g1'' 5 7 ?n2 \<noteq> None" by code_simp
  have s4: "trigger_handle [(1, 1)] ?n3 \<noteq> None" by code_simp
  have s5: "sch_dispatch 0 ?n4 \<noteq> None" "(0, 1) \<in> set (nnRuns ?n4)" by code_simp+
  have s6: "actor_take 0 ?n5 \<noteq> None" "0 < length (nnActors ?n5)" by code_simp+
  have s7: "(0, 3) \<in> set (nnRuns ?n6)" by code_simp
  let ?run = "node_run newRouter [(1, 1)] sample_node"
  have "?run ?n1" by (rule run_step [OF run_refl sample_actor_steps(1) [OF s1]])
  then have "?run ?n2" by (rule run_step [OF _ sample_actor_steps(1) [OF s2]])
  then have "?run ?n3" by (rule run_step [OF _ node_step.trigger [OF opt_run [OF s3]]])
  then have "?run ?n4" by (rule run_step [OF _ node_step.handle_event [OF opt_run [OF s4]]])
  then have "?run ?n5" by (rule run_step [OF _ node_step.pass_on [OF s5(2) opt_run [OF s5(1)]]])
  then have "?run ?n6" by (rule run_step [OF _ node_step.actor_takes [OF s6(2) opt_run [OF s6(1)]]])
  then have "?run (snd (run_finish 0 3 True ?n6))" by (rule run_step [OF _ node_step.finish [OF s7 surjective_pairing]])
  moreover have "0 \<in> set (nnEvtPool run_event)" "0 \<in> set (acMailbox (the_actor run_event 1))" by code_simp+
  ultimately show ?thesis by (simp add: run_event_def Let_def)
qed

text \<open>Versions start again at 1 when an object is reused.  A worker whose handler passed the request on to an
  actor, and that finishes after the request was recycled and taken by another worker, finds its own
  version again: it empties and recycles the request under the other handler.\<close>

definition run_reused :: "nat nnode" where
  "run_reused = (let n = run_handle (run_deliver None 3 (run_spawn ''1'' sample_node));
     n = snd (the (actor_Next 0 0 n));
     n = snd (the (actor_take 0 n));
     n = snd (run_finish 0 2 True n)
   in run_handle (run_deliver (Some 0) 4 n))"

lemma stale_version_recycles:
  "cxData (the_ctx run_reused 0) = Some 4 \<and> nnRuns run_reused = [(0, 1), (0, 1)] \<and>
   cxData (the_ctx (run_end 0 1 run_reused) 0) = None \<and> nnRuns (run_end 0 1 run_reused) = [(0, 1)] \<and>
   nnReqPool (run_end 0 1 run_reused) = [0]"
  by (intro conjI; code_simp)

text \<open>A request answers to where it came from.  Whatever object the pool returns, a request that was
  delivered to the router replies to the gate and connection, the actor or the node of the delivery.\<close>

theorem request_reply_origin:
  assumes "router_deliver pick d n = Some (None, n')" "c = last (nnReqChan n')"
    "\<forall>c \<in> set (nnReqPool n). c < length (nnCtxs n)"
  shows "request_Reply own known m (the_ctx n' c) =
    (if dlGid d \<noteq> [] then CallPush (dlGid d) 1 (dlCid d) m
     else if dlPid d \<noteq> [] then if known (dlPid d) then CallActorDeliver (dlPid d) (dlUid d) m else Nothing
     else if dlNid d \<noteq> [] then if dlNid d = own then Nothing else CallDeliver (dlNid d) (dlUid d) m
     else Refuse ErrIllegalOperation) \<and> cxData (the_ctx n' c) = dlData d"
proof -
  obtain c' x where "nnReqChan n' = nnReqChan n @ [c']" "the_ctx n' c' = fill_request d x"
    by (rule router_deliver_queues [OF assms(1,3)])
  then show ?thesis using assms(2) by (simp add: request_Reply_def fill_request_def)
qed

theorem request_reply_origin_witness:
  "request_Reply ''n1'' (\<lambda>_. False) () (the_ctx (run_deliver None 3 sample_node) 0) = CallPush ''g1'' 1 5 ()"
proof -
  have "map_option fst (router_deliver None (sample_delivery 3) sample_node) = Some None" by code_simp
  then have run: "router_deliver None (sample_delivery 3) sample_node = Some (None, run_deliver None 3 sample_node)"
    by (auto simp: run_deliver_def)
  have "0 = last (nnReqChan (run_deliver None 3 sample_node))" by code_simp
  from request_reply_origin [OF run this, of "''n1''" "\<lambda>_. False" "()"] show ?thesis
    by (simp add: sample_node_def NewNode_def sample_delivery_def)
qed

text \<open>A request that an actor delivers to another actor keeps the gate and the connection of the request that
  used the object before: its reply is pushed to that connection.\<close>

theorem actor_reply_leaks:
  assumes "c \<in> set (nnReqPool n)" "c < length (nnCtxs n)" "cxGid (the_ctx n c) \<noteq> []" "actor_Deliver a (Some c) d n = Some (None, n')"
  shows "request_Reply own known m (the_ctx n' c) = CallPush (cxGid (the_ctx n c)) 1 (cxCid (the_ctx n c)) m \<and> cxUid (the_ctx n' c) = dlUid d"
  using assms
  by (auto simp: actor_Deliver_def pool_get_def pool_of_def set_pool_def Let_def actor_Next_def upd_ctx_def upd_actor_def ctx_incrVersion_def
      ctx_Cancel_def request_Reply_def split: if_splits)

definition run_recycled :: "nat nnode" where
  "run_recycled = run_end 0 1 (run_handle (run_deliver None 3 (run_spawn ''1'' sample_node)))"

theorem actor_reply_leaks_witness:
  "\<exists>n'. actor_Deliver 0 (Some 0) ((sample_delivery 9)\<lparr>dlUid := 8, dlGid := [], dlCid := 0\<rparr>) run_recycled = Some (None, n') \<and>
     request_Reply ''n1'' (\<lambda>_. True) () (the_ctx n' 0) = CallPush ''g1'' 1 5 ()"
proof -
  let ?d = "(sample_delivery 9)\<lparr>dlUid := 8, dlGid := [], dlCid := 0\<rparr>"
  have "map_option fst (actor_Deliver 0 (Some 0) ?d run_recycled) = Some None" by code_simp
  then obtain n' where n': "actor_Deliver 0 (Some 0) ?d run_recycled = Some (None, n')" by fastforce
  have "0 \<in> set (nnReqPool run_recycled)" "0 < length (nnCtxs run_recycled)" "cxGid (the_ctx run_recycled 0) \<noteq> []"
    "cxGid (the_ctx run_recycled 0) = ''g1''" "cxCid (the_ctx run_recycled 0) = 5"
    by code_simp+
  then show ?thesis using actor_reply_leaks [OF _ _ _ n', of "''n1''" "\<lambda>_. True" "()"] n' by auto
qed

text \<open>A user who moved from one actor of a kind to another loses the new binding when the old actor is destroyed,
  because the old actor still remembers the user.\<close>

lemma rebound_user_lost:
  "loadActor 7 ''room'' (run_bind ''2'' (run_bind ''1'' (run_spawn ''2'' (run_spawn ''1'' sample_node)))) = Some 1 \<and>
   loadActor 7 ''room'' (snd (actor_Destroy 0 (run_bind ''2'' (run_bind ''1'' (run_spawn ''2'' (run_spawn ''1'' sample_node)))))) = None"
  by (intro conjI; code_simp)

text \<open>An actor that destroys itself is never counted as done; killing an actor that was spawned before the node
  started makes the counter negative, a panic.\<close>

lemma destroy_keeps_wait:
  "nnWait (snd (actor_Destroy 0 (run_spawn ''1'' (node_Start sample_node)))) = 1"
  by code_simp

lemma early_actor_kill_panics:
  "case sch_kill ''room'' ''1'' (node_Start (run_spawn ''1'' sample_node)) of Panic \<Rightarrow> True | _ \<Rightarrow> False"
  by code_simp

end
