(* ===== verification/NodeLife.thy ===== *)
theory NodeLife
  imports NodeRouter
begin

text \<open>
  \<open>cluster/node/node.go\<close>, \<open>timer.go\<close> and the timers and functions of \<open>proxy.go\<close>: the life cycle of a node, what it
  tells the registry about itself, its hooks, and the work that \<open>Close\<close> waits for.  The registry is an
  argument; the link server and the transport server are their endpoints.  Handlers and functions of the
  user are numbers.
\<close>

section \<open>State\<close>

record node_config =
  ncID :: string
  ncName :: string
  ncWeight :: int
  ncMetadata :: "(string \<times> string) list"
  ncServiceStatus :: string
  ncGameID :: int32
  ncVersion :: string
  ncEndpoint :: string
  ncTransport :: "string option"

record 'r registry_ops =
  rgRegister :: "ServiceInstance \<Rightarrow> 'r \<Rightarrow> goerr option \<times> 'r"
  rgDeregister :: "ServiceInstance \<Rightarrow> 'r \<Rightarrow> goerr option \<times> 'r"
  rgServices :: "string \<Rightarrow> 'r \<Rightarrow> ServiceInstance option list"

datatype hook = HookInit | HookStart | HookClose | HookDestroy

text \<open>A timer of the node: its function, and whether it was made by \<open>AfterInvoke\<close>.\<close>

datatype timer_state = TimerArmed | TimerFired | TimerStopped

record node_timer =
  tmFn :: nat
  tmInvoke :: bool
  tmState :: timer_state

text \<open>\<open>nsRunning\<close> counts the functions that run now and will call \<open>doneWait\<close>.\<close>

record ('d, 'r) node_srv =
  nsNode :: "'d nnode"
  nsFns :: "nat list"
  nsRunning :: nat
  nsTimers :: "node_timer list"
  nsHooks :: "hook \<Rightarrow> nat list"
  nsServices :: "string list"
  nsTransport :: "string option"
  nsInstances :: "ServiceInstance list"
  nsRegistry :: 'r
  nsClosed :: bool

abbreviation (input) fn_cap :: nat where
  "fn_cap \<equiv> 4096"

definition State_String :: "int \<Rightarrow> string" where
  "State_String st = (if st = st_Work then ''work'' else if st = st_Busy then ''busy'' else if st = st_Hang then ''hang'' else ''shut'')"

definition new_node_srv :: "string \<Rightarrow> int \<Rightarrow> int \<Rightarrow> 'r \<Rightarrow> ('d, 'r) node_srv" where
  "new_node_srv nid mailboxTimeout deliverTimeout reg =
     \<lparr>nsNode = NewNode nid mailboxTimeout deliverTimeout, nsFns = [], nsRunning = 0, nsTimers = [], nsHooks = (\<lambda>_. []), nsServices = [],
      nsTransport = None, nsInstances = [], nsRegistry = reg, nsClosed = False\<rparr>"

section \<open>Registration\<close>

text \<open>The goroutines of an errgroup run in the order of the instances; the first error is returned.\<close>

definition each_instance ::
    "(ServiceInstance \<Rightarrow> 'r \<Rightarrow> goerr option \<times> 'r) \<Rightarrow> ServiceInstance list \<Rightarrow> 'r \<Rightarrow> goerr option \<times> 'r" where
  "each_instance f is reg =
     fold (\<lambda>i (err, reg). let (e, reg) = f i reg in (case err of None \<Rightarrow> e | Some _ \<Rightarrow> err, reg)) is (None, reg)"

definition doRegisterServiceInstances :: "'r registry_ops \<Rightarrow> ('d, 'r) node_srv \<Rightarrow> goerr option \<times> ('d, 'r) node_srv" where
  "doRegisterServiceInstances ops s =
     (let (err, reg) = each_instance (rgRegister ops) (nsInstances s) (nsRegistry s) in (err, s\<lparr>nsRegistry := reg\<rparr>))"

definition doRefreshServiceInstances :: "'r registry_ops \<Rightarrow> ('d, 'r) node_srv \<Rightarrow> goerr option \<times> ('d, 'r) node_srv" where
  "doRefreshServiceInstances ops s =
     doRegisterServiceInstances ops
       (s\<lparr>nsInstances := map (\<lambda>i. i\<lparr>siState := State_String (nnState (nsNode s))\<rparr>) (nsInstances s)\<rparr>)"

definition deregisterServiceInstances :: "'r registry_ops \<Rightarrow> ('d, 'r) node_srv \<Rightarrow> ('d, 'r) node_srv" where
  "deregisterServiceInstances ops s =
     s\<lparr>nsRegistry := snd (each_instance (rgDeregister ops) (nsInstances s) (nsRegistry s))\<rparr>"

definition node_instance :: "node_config \<Rightarrow> Router \<Rightarrow> (int \<times> nat) list \<Rightarrow> int \<Rightarrow> ServiceInstance" where
  "node_instance cfg r events st =
     \<lparr>siID = ncID cfg, siName = ''node'', siKind = ''node'', siAlias = ncName cfg, siState = State_String st,
      siEvents = map fst events,
      siRoutes = map (\<lambda>(i, int, stf, auth). \<lparr>rtID = i, rtInternal = int, rtStateful = stf, rtAuthorized = auth\<rparr>) (CollectRoutes r),
      siServices = [], siEndpoint = ncEndpoint cfg, siWeight = ncWeight cfg, siGameID = ncGameID cfg, siVersion = ncVersion cfg,
      siMetadata = mergeServiceMetadata (ncMetadata cfg) (ncServiceStatus cfg)\<rparr>"

definition mesh_instance :: "node_config \<Rightarrow> string list \<Rightarrow> string \<Rightarrow> int \<Rightarrow> ServiceInstance" where
  "mesh_instance cfg services ep st =
     \<lparr>siID = ncID cfg, siName = ''mesh'', siKind = ''mesh'', siAlias = ncName cfg, siState = State_String st, siEvents = [], siRoutes = [],
      siServices = services, siEndpoint = ep, siWeight = ncWeight cfg, siGameID = 0, siVersion = ncVersion cfg,
      siMetadata = mergeServiceMetadata (ncMetadata cfg) (ncServiceStatus cfg)\<rparr>"

text \<open>A registration that fails ends the process: \<open>Err\<close>.\<close>

definition registerServiceInstances ::
    "'r registry_ops \<Rightarrow> node_config \<Rightarrow> Router \<Rightarrow> (int \<times> nat) list \<Rightarrow> ('d, 'r) node_srv \<Rightarrow> ('d, 'r) node_srv go" where
  "registerServiceInstances ops cfg r events s =
     (let st = nnState (nsNode s);
          s = s\<lparr>nsInstances := nsInstances s @ [node_instance cfg r events st]\<rparr>;
          s = (case nsTransport s of
                 None \<Rightarrow> s
               | Some ep \<Rightarrow> s\<lparr>nsInstances := nsInstances s @ [mesh_instance cfg (nsServices s) ep st]\<rparr>)
      in case doRegisterServiceInstances ops s of (None, s) \<Rightarrow> Ok s | (Some e, _) \<Rightarrow> Err e)"

definition srv_setState :: "'r registry_ops \<Rightarrow> int \<Rightarrow> ('d, 'r) node_srv \<Rightarrow> goerr option \<times> ('d, 'r) node_srv" where
  "srv_setState ops st s = doRefreshServiceInstances ops (s\<lparr>nsNode := node_setState st (nsNode s)\<rparr>)"

section \<open>Hooks and services\<close>

definition addHookListener :: "hook \<Rightarrow> nat \<Rightarrow> ('d, 'r) node_srv \<Rightarrow> ('d, 'r) node_srv" where
  "addHookListener h f s =
     (if h = HookDestroy \<or> nnState (nsNode s) = st_Shut
      then s\<lparr>nsHooks := (nsHooks s)(h := nsHooks s h @ [f])\<rparr> else s)"

definition addServiceProvider :: "string \<Rightarrow> ('d, 'r) node_srv \<Rightarrow> ('d, 'r) node_srv" where
  "addServiceProvider name s = (if nnState (nsNode s) = st_Shut then s\<lparr>nsServices := nsServices s @ [name]\<rparr> else s)"

text \<open>\<open>xcall.Call\<close>: a nil function does nothing; a panic is caught, logged with zap's \<open>Panic\<close>, and thereby raised again.\<close>

definition xcall_Call :: "('s \<Rightarrow> 's go) option \<Rightarrow> 's \<Rightarrow> 's go" where
  "xcall_Call fn s = (case fn of None \<Rightarrow> Ok s | Some f \<Rightarrow> (case f s of Panic \<Rightarrow> Panic | res \<Rightarrow> res))"

text \<open>The handlers run in goroutines of their own, here in order, and the caller waits for all.  \<open>body\<close> is what the
  handlers do.\<close>

definition runHookFunc ::
    "(nat \<Rightarrow> ('d, 'r) node_srv \<Rightarrow> ('d, 'r) node_srv go) \<Rightarrow> hook \<Rightarrow> ('d, 'r) node_srv \<Rightarrow> ('d, 'r) node_srv go" where
  "runHookFunc body h s = go_foreach (\<lambda>f. xcall_Call (Some (body f))) (nsHooks s h) s"

definition startTransportServer :: "node_config \<Rightarrow> ('d, 'r) node_srv \<Rightarrow> ('d, 'r) node_srv" where
  "startTransportServer cfg s =
     (case ncTransport cfg of
        None \<Rightarrow> s
      | Some ep \<Rightarrow> if length (nsServices s) = 0 then s else s\<lparr>nsTransport := Some ep\<rparr>)"

section \<open>Life cycle\<close>

text \<open>The checks of \<open>Init\<close>; \<open>present\<close> tells that codec, locator and registry are injected.\<close>

definition Init_ok :: "node_config \<Rightarrow> bool \<Rightarrow> bool" where
  "Init_ok cfg present \<longleftrightarrow> ncID cfg \<noteq> [] \<and> ncName cfg \<noteq> [] \<and> \<not> (ncGameID cfg \<le>s 0) \<and> present"

definition srv_Init ::
    "(nat \<Rightarrow> ('d, 'r) node_srv \<Rightarrow> ('d, 'r) node_srv go) \<Rightarrow> node_config \<Rightarrow> bool \<Rightarrow> ('d, 'r) node_srv \<Rightarrow> ('d, 'r) node_srv go" where
  "srv_Init body cfg present s = (if Init_ok cfg present then runHookFunc body HookInit s else Err ErrInvalidArgument)"

definition srv_Start ::
    "(nat \<Rightarrow> ('d, 'r) node_srv \<Rightarrow> ('d, 'r) node_srv go) \<Rightarrow> 'r registry_ops \<Rightarrow> node_config \<Rightarrow> Router \<Rightarrow> (int \<times> nat) list \<Rightarrow>
     ('d, 'r) node_srv \<Rightarrow> ('d, 'r) node_srv go" where
  "srv_Start body ops cfg r events s =
     (if nnState (nsNode s) \<noteq> st_Shut then Ok s
      else let s = startTransportServer cfg (s\<lparr>nsNode := node_Start (nsNode s)\<rparr>)
           in go_bind (registerServiceInstances ops cfg r events s) (runHookFunc body HookStart))"

text \<open>\<open>Close\<close> up to \<open>wg.Wait()\<close>; an error of the registry is logged.\<close>

definition srv_Close ::
    "(nat \<Rightarrow> ('d, 'r) node_srv \<Rightarrow> ('d, 'r) node_srv go) \<Rightarrow> 'r registry_ops \<Rightarrow> ('d, 'r) node_srv \<Rightarrow> ('d, 'r) node_srv go" where
  "srv_Close body ops s =
     (if nnState (nsNode s) \<noteq> st_Work \<and> nnState (nsNode s) \<noteq> st_Busy then Ok s
      else let s = s\<lparr>nsNode := node_Close (nsNode s)\<rparr>; (_, s) = doRefreshServiceInstances ops s
           in runHookFunc body HookClose s)"

text \<open>Whether \<open>wg.Wait()\<close> returns.\<close>

definition wait_over :: "('d, 'r) node_srv \<Rightarrow> bool" where
  "wait_over s \<longleftrightarrow> nnWait (nsNode s) = 0"

definition srv_Destroy ::
    "(nat \<Rightarrow> ('d, 'r) node_srv \<Rightarrow> ('d, 'r) node_srv go) \<Rightarrow> 'r registry_ops \<Rightarrow> ('d, 'r) node_srv \<Rightarrow> ('d, 'r) node_srv go" where
  "srv_Destroy body ops s =
     (if nnState (nsNode s) \<noteq> st_Hang then Ok s
      else go_map (\<lambda>s. (deregisterServiceInstances ops s)\<lparr>nsClosed := True\<rparr>)
             (runHookFunc body HookDestroy (s\<lparr>nsNode := node_Destroy (nsNode s)\<rparr>)))"

section \<open>Functions and timers\<close>

definition on_node :: "('d nnode \<Rightarrow> 'd nnode) \<Rightarrow> ('d, 'r) node_srv \<Rightarrow> ('d, 'r) node_srv" where
  "on_node f s = s\<lparr>nsNode := f (nsNode s)\<rparr>"

definition srv_doneWait :: "('d, 'r) node_srv \<Rightarrow> ('d, 'r) node_srv go" where
  "srv_doneWait s = go_map (\<lambda>n. s\<lparr>nsNode := n\<rparr>) (doneWait (nsNode s))"

text \<open>Sending a function to \<open>fnChan\<close>: a closed channel panics, a full one waits (\<open>None\<close>).\<close>

definition send_fn :: "nat \<Rightarrow> ('d, 'r) node_srv \<Rightarrow> ('d, 'r) node_srv option go" where
  "send_fn f s =
     (if nsClosed s then Panic
      else if length (nsFns s) < fn_cap then Ok (Some (s\<lparr>nsFns := nsFns s @ [f]\<rparr>)) else Ok None)"

definition proxy_Invoke :: "nat \<Rightarrow> ('d, 'r) node_srv \<Rightarrow> ('d, 'r) node_srv option go" where
  "proxy_Invoke f s = send_fn f (on_node addWait s)"

definition proxy_AfterFunc :: "nat \<Rightarrow> ('d, 'r) node_srv \<Rightarrow> ('d, 'r) node_srv" where
  "proxy_AfterFunc f s = (on_node addWait s)\<lparr>nsTimers := nsTimers s @ [\<lparr>tmFn = f, tmInvoke = False, tmState = TimerArmed\<rparr>]\<rparr>"

definition proxy_AfterInvoke :: "nat \<Rightarrow> ('d, 'r) node_srv \<Rightarrow> ('d, 'r) node_srv" where
  "proxy_AfterInvoke f s = (on_node addWait s)\<lparr>nsTimers := nsTimers s @ [\<lparr>tmFn = f, tmInvoke = True, tmState = TimerArmed\<rparr>]\<rparr>"

text \<open>\<open>time.Timer.Stop\<close> reports whether it kept the timer from firing.\<close>

definition Timer_Stop :: "nat \<Rightarrow> ('d, 'r) node_srv \<Rightarrow> (bool \<times> ('d, 'r) node_srv) go" where
  "Timer_Stop i s =
     (let t = nsTimers s ! i; ok = (tmState t = TimerArmed)
      in if ok then go_map (Pair True) (srv_doneWait (s\<lparr>nsTimers := (nsTimers s)[i := t\<lparr>tmState := TimerStopped\<rparr>]\<rparr>))
         else Ok (False, s))"

text \<open>The timer fires: its callback runs the function, or sends it to \<open>fnChan\<close>.\<close>

definition timer_fires :: "nat \<Rightarrow> ('d, 'r) node_srv \<Rightarrow> ('d, 'r) node_srv option go" where
  "timer_fires i s =
     (let t = nsTimers s ! i; fired = s\<lparr>nsTimers := (nsTimers s)[i := t\<lparr>tmState := TimerFired\<rparr>]\<rparr>
      in if tmState t \<noteq> TimerArmed then Ok None
         else if tmInvoke t then send_fn (tmFn t) fired
         else Ok (Some (fired\<lparr>nsRunning := nsRunning s + 1\<rparr>)))"

text \<open>\<open>dispatchFn\<close> takes a function; a function that was taken, or run by a timer, returns.\<close>

definition dispatchFn :: "('d, 'r) node_srv \<Rightarrow> ('d, 'r) node_srv option" where
  "dispatchFn s = (case nsFns s of [] \<Rightarrow> None | f # fs \<Rightarrow> Some (s\<lparr>nsFns := fs, nsRunning := nsRunning s + 1\<rparr>))"

definition fn_returns :: "('d, 'r) node_srv \<Rightarrow> ('d, 'r) node_srv option go" where
  "fn_returns s = (if nsRunning s = 0 then Ok None else go_map Some (srv_doneWait (s\<lparr>nsRunning := nsRunning s - 1\<rparr>)))"

section \<open>What Close waits for\<close>

datatype life_label = LInvoke nat | LAfterFunc nat | LAfterInvoke nat | LStop nat | LFire nat | LTake | LReturn | LSetState int

text \<open>A step of the node: \<open>Ok None\<close> when it cannot happen now, a panic ends the process.\<close>

fun life_step :: "'r registry_ops \<Rightarrow> life_label \<Rightarrow> ('d, 'r) node_srv \<Rightarrow> ('d, 'r) node_srv option go" where
  "life_step ops (LInvoke f) s = proxy_Invoke f s"
| "life_step ops (LAfterFunc f) s = Ok (Some (proxy_AfterFunc f s))"
| "life_step ops (LAfterInvoke f) s = Ok (Some (proxy_AfterInvoke f s))"
| "life_step ops (LStop i) s = (if i < length (nsTimers s) then go_map (Some \<circ> snd) (Timer_Stop i s) else Ok None)"
| "life_step ops (LFire i) s = (if i < length (nsTimers s) then timer_fires i s else Ok None)"
| "life_step ops LTake s = Ok (dispatchFn s)"
| "life_step ops LReturn s = fn_returns s"
| "life_step ops (LSetState st) s = Ok (Some (snd (srv_setState ops st s)))"

fun life_run :: "'r registry_ops \<Rightarrow> life_label list \<Rightarrow> ('d, 'r) node_srv \<Rightarrow> ('d, 'r) node_srv option go" where
  "life_run ops [] s = Ok (Some s)"
| "life_run ops (lab # labs) s =
     go_bind (life_step ops lab s) (\<lambda>s'. case s' of None \<Rightarrow> Ok None | Some s' \<Rightarrow> life_run ops labs s')"

definition armed_timers :: "node_timer list \<Rightarrow> nat" where
  "armed_timers ts = length (filter (\<lambda>t. tmState t = TimerArmed) ts)"

text \<open>The functions and timers that are not over.\<close>

definition pending_work :: "('d, 'r) node_srv \<Rightarrow> nat" where
  "pending_work s = length (nsFns s) + nsRunning s + armed_timers (nsTimers s)"

lemma armed_update:
  assumes "i < length ts" "tmState (ts ! i) = TimerArmed" "tmState t \<noteq> TimerArmed"
  shows "Suc (armed_timers (ts[i := t])) = armed_timers ts"
  using assms
proof (induction ts arbitrary: i)
  case (Cons x xs)
  then show ?case by (cases i) (auto simp: armed_timers_def)
qed simp

text \<open>The counter counts, and neither the channel is closed nor the node shut.\<close>

definition counted :: "('d, 'r) node_srv \<Rightarrow> bool" where
  "counted s \<longleftrightarrow> nnState (nsNode s) \<noteq> 0 \<and> \<not> nsClosed s \<and> nnWait (nsNode s) = int (pending_work s)"

lemma setState_kept [simp]:
  "nsFns (snd (srv_setState ops st s)) = nsFns s" "nsRunning (snd (srv_setState ops st s)) = nsRunning s"
  "nsTimers (snd (srv_setState ops st s)) = nsTimers s" "nsClosed (snd (srv_setState ops st s)) = nsClosed s"
  "nsNode (snd (srv_setState ops st s)) = node_setState st (nsNode s)"
  by (simp_all add: srv_setState_def doRefreshServiceInstances_def doRegisterServiceInstances_def case_prod_unfold Let_def)

lemma life_step_counted:
  assumes "counted s" "lab \<noteq> LSetState 0"
  shows "\<exists>s'. life_step ops lab s = Ok s' \<and> (case s' of None \<Rightarrow> True | Some s' \<Rightarrow> counted s')"
proof (cases lab)
  case (LStop i)
  show ?thesis
  proof (cases "i < length (nsTimers s) \<and> tmState (nsTimers s ! i) = TimerArmed")
    case True
    from armed_update [of i "nsTimers s" "(nsTimers s ! i)\<lparr>tmState := TimerStopped\<rparr>"] True
    show ?thesis using assms LStop
      by (auto simp: counted_def pending_work_def Timer_Stop_def srv_doneWait_def doneWait_def Let_def)
  qed (use assms LStop in \<open>auto simp: Timer_Stop_def\<close>)
next
  case (LFire i)
  show ?thesis
  proof (cases "i < length (nsTimers s) \<and> tmState (nsTimers s ! i) = TimerArmed")
    case True
    from armed_update [of i "nsTimers s" "(nsTimers s ! i)\<lparr>tmState := TimerFired\<rparr>"] True
    show ?thesis using assms LFire by (auto simp: counted_def pending_work_def timer_fires_def send_fn_def Let_def)
  qed (use assms LFire in \<open>auto simp: timer_fires_def\<close>)
qed (use assms in \<open>auto simp: counted_def pending_work_def armed_timers_def proxy_Invoke_def send_fn_def on_node_def addWait_def
      proxy_AfterFunc_def proxy_AfterInvoke_def dispatchFn_def fn_returns_def srv_doneWait_def doneWait_def node_setState_def
      split: list.splits option.splits\<close>)

lemma life_run_counted:
  assumes "counted s" "LSetState 0 \<notin> set labs"
  shows "\<exists>s'. life_run ops labs s = Ok s' \<and> (case s' of None \<Rightarrow> True | Some s' \<Rightarrow> counted s')"
  using assms
proof (induction labs arbitrary: s)
  case (Cons lab labs)
  then obtain s' where s': "life_step ops lab s = Ok s'" "case s' of None \<Rightarrow> True | Some s' \<Rightarrow> counted s'"
    using life_step_counted [of s lab ops] by auto
  then show ?case using Cons by (cases s') auto
qed simp

section \<open>Draining\<close>

text \<open>What a registry promises: registering an instance replaces the one of the same name and id, and changes no other.\<close>

definition registry_replaces :: "'r registry_ops \<Rightarrow> bool" where
  "registry_replaces ops \<longleftrightarrow> (\<forall>i reg reg' name j. rgRegister ops i reg = (None, reg') \<longrightarrow> Some j \<in> set (rgServices ops name reg') \<longrightarrow>
     (if name = siName i \<and> siID j = siID i then j = i else Some j \<in> set (rgServices ops name reg)))"

lemma each_instance_snoc:
  "each_instance f (is @ [i]) reg = (None, reg') \<longleftrightarrow> (\<exists>reg1. each_instance f is reg = (None, reg1) \<and> f i reg1 = (None, reg'))"
  by (cases "each_instance f is reg") (auto simp: each_instance_def Let_def split: prod.splits option.splits)

lemma registered_found:
  assumes "registry_replaces ops" "each_instance (rgRegister ops) is reg = (None, reg')" "Some j \<in> set (rgServices ops name reg')"
    "i \<in> set is" "siName i = name" "siID i = siID j"
  shows "j \<in> set is"
  using assms(2-)
proof (induction "is" arbitrary: reg' rule: rev_induct)
  case (snoc i' "is")
  then obtain reg1 where r: "each_instance (rgRegister ops) is reg = (None, reg1)" "rgRegister ops i' reg1 = (None, reg')"
    by (auto simp: each_instance_snoc)
  show ?case
  proof (cases "name = siName i' \<and> siID j = siID i'")
    case True
    then show ?thesis using assms(1) r(2) snoc.prems(2) by (auto simp: registry_replaces_def)
  next
    case False
    then have "Some j \<in> set (rgServices ops name reg1)" using assms(1) r(2) snoc.prems(2) unfolding registry_replaces_def by metis
    moreover have "i \<in> set is" using snoc.prems(3-) False by auto
    ultimately show ?thesis using snoc.IH [OF r(1)] snoc.prems(4,5) by simp
  qed
qed simp

lemma hooks_keep:
  assumes "\<And>f s s'. body f s = Ok s' \<Longrightarrow> nsRegistry s' = nsRegistry s" "runHookFunc body h s = Ok s'"
  shows "nsRegistry s' = nsRegistry s"
proof -
  have "nsRegistry s' = nsRegistry s" if "go_foreach (\<lambda>f. xcall_Call (Some (body f))) fs s = Ok s'" for fs
    using that
  proof (induction fs arbitrary: s)
    case (Cons f fs)
    then show ?case using assms(1) [of f s] by (auto simp: xcall_Call_def split: go.splits)
  qed simp
  then show ?thesis using assms(2) by (simp add: runHookFunc_def)
qed

lemma refresh_instances: "\<forall>i \<in> set (nsInstances (snd (doRefreshServiceInstances ops s))). siState i = State_String (nnState (nsNode s))"
  by (auto simp: doRefreshServiceInstances_def doRegisterServiceInstances_def case_prod_unfold Let_def)

section \<open>Properties\<close>

text \<open>\<open>Close\<close> waits for the work of the node.  From a started node with nothing pending, after any sequence of
  calls, timers that fire or are stopped and functions that run, in any order and as long as the state is
  not set to shut, no step panics (the wait group never becomes negative) and the counter is exactly the
  number of functions that are queued or running and of timers that are armed: the wait in \<open>Close\<close> ends when
  these are over, and not before.\<close>

theorem node_wait_counts_work:
  assumes "nnState (nsNode s) \<noteq> st_Shut" "\<not> nsClosed s" "nnWait (nsNode s) = 0" "pending_work s = 0" "LSetState st_Shut \<notin> set labs"
  shows "case life_run ops labs s of
      Ok (Some s') \<Rightarrow> nnWait (nsNode s') = int (pending_work s') \<and> (wait_over s' \<longleftrightarrow> nsFns s' = [] \<and> nsRunning s' = 0 \<and>
        (\<forall>t \<in> set (nsTimers s'). tmState t \<noteq> TimerArmed))
    | Ok None \<Rightarrow> True
    | _ \<Rightarrow> False"
proof -
  have "counted s" using assms by (simp add: counted_def)
  then obtain s' where s': "life_run ops labs s = Ok s'" "case s' of None \<Rightarrow> True | Some s' \<Rightarrow> counted s'"
    using life_run_counted assms(5) by blast
  show ?thesis
  proof (cases s')
    case (Some n)
    then have "nnWait (nsNode n) = int (pending_work n)" using s'(2) by (simp add: counted_def)
    moreover from this have "wait_over n \<longleftrightarrow> pending_work n = 0" by (simp add: wait_over_def)
    ultimately show ?thesis using Some s'(1) by (auto simp: pending_work_def armed_timers_def filter_empty_conv)
  qed (use s' in simp)
qed

definition list_registry :: "ServiceInstance list registry_ops" where
  "list_registry = \<lparr>rgRegister = (\<lambda>i reg. (None, i # filter (\<lambda>j. siName j \<noteq> siName i \<or> siID j \<noteq> siID i) reg)),
     rgDeregister = (\<lambda>i reg. (None, filter (\<lambda>j. siName j \<noteq> siName i \<or> siID j \<noteq> siID i) reg)),
     rgServices = (\<lambda>name reg. map Some (filter (\<lambda>j. siName j = name) reg))\<rparr>"

definition sample_config :: node_config where
  "sample_config = \<lparr>ncID = ''n1'', ncName = ''lobby'', ncWeight = 1, ncMetadata = [], ncServiceStatus = ''normal'', ncGameID = 2,
     ncVersion = ''1.0'', ncEndpoint = ''drpc://h:1'', ncTransport = None\<rparr>"

definition sample_srv :: "(nat, ServiceInstance list) node_srv" where
  "sample_srv = (case srv_Start (\<lambda>_. Ok) list_registry sample_config newRouter [] (new_node_srv ''n1'' 3 3 []) of
     Ok s \<Rightarrow> s | _ \<Rightarrow> new_node_srv ''n1'' 3 3 [])"

theorem node_wait_counts_work_witness:
  "case life_run list_registry [LAfterFunc 1, LInvoke 2, LTake, LFire 0, LReturn] sample_srv of
     Ok (Some s') \<Rightarrow> nnWait (nsNode s') = 1 \<and> pending_work s' = 1 | _ \<Rightarrow> False"
proof -
  have "nnState (nsNode sample_srv) \<noteq> 0" "\<not> nsClosed sample_srv" "nnWait (nsNode sample_srv) = 0" "pending_work sample_srv = 0"
    by code_simp+
  note wait = node_wait_counts_work [OF this, of "[LAfterFunc 1, LInvoke 2, LTake, LFire 0, LReturn]" list_registry]
  have "case life_run list_registry [LAfterFunc 1, LInvoke 2, LTake, LFire 0, LReturn] sample_srv of
     Ok (Some s') \<Rightarrow> pending_work s' = 1 | _ \<Rightarrow> False" by code_simp
  then show ?thesis using wait by (auto split: go.splits option.splits)
qed

text \<open>C16. A closing node gets no new users.  Once a node that works or is busy has closed and its registration with
  the new state was accepted, no dispatcher that is filled from the registry selects it for a user, whatever
  the game, the rollout status, the policy and the random source.\<close>

theorem closing_node_not_selected:
  assumes "registry_replaces ops" "\<And>f s s'. body f s = Ok s' \<Longrightarrow> nsRegistry s' = nsRegistry s"
    and "nnState (nsNode s) = st_Work \<or> nnState (nsNode s) = st_Busy" "i \<in> set (nsInstances s)" "siName i = ''node''"
    and "fst (doRefreshServiceInstances ops (s\<lparr>nsNode := node_Close (nsNode s)\<rparr>)) = None" "srv_Close body ops s = Ok s'"
    and "ReplaceServices parse (rgServices ops ''node'' (nsRegistry s')) d0 = Ok d" "\<And>n. 0 < n \<Longrightarrow> rnd n < n"
  shows "case SelectGameNode rnd g status d of Ok ((grp, nid), d') \<Rightarrow> nid \<noteq> siID i | Err e \<Rightarrow> True | Panic \<Rightarrow> False"
proof -
  let ?s1 = "s\<lparr>nsNode := node_Close (nsNode s)\<rparr>"
  let ?s2 = "snd (doRefreshServiceInstances ops ?s1)"
  have reg: "nsRegistry s' = nsRegistry ?s2" using assms(3,7) hooks_keep [OF assms(2)]
    by (auto simp: srv_Close_def Let_def split: prod.splits)
  have each: "each_instance (rgRegister ops) (nsInstances ?s2) (nsRegistry s) = (None, nsRegistry ?s2)"
    using assms(6) by (simp add: doRefreshServiceInstances_def doRegisterServiceInstances_def case_prod_unfold Let_def prod_eq_iff)
  have hang: "siState k = ''hang''" if "k \<in> set (nsInstances ?s2)" for k
    using refresh_instances [of ops ?s1] that assms(3) by (auto simp: node_Close_def State_String_def)
  have mem: "\<exists>i' \<in> set (nsInstances ?s2). siName i' = ''node'' \<and> siID i' = siID i"
    using assms(4,5) by (force simp: doRefreshServiceInstances_def doRegisterServiceInstances_def case_prod_unfold Let_def)
  have no: False if "Some j \<in> set (rgServices ops ''node'' (nsRegistry s'))" "siID j = siID i" "active (siState j)" for j
  proof -
    have "j \<in> set (nsInstances ?s2)" using registered_found [OF assms(1) each] that(1,2) mem reg by metis
    then show False using hang that(3) by auto
  qed
  show ?thesis using SelectGameNode_spec [OF assms(8,9), of g status] no by (auto split: go.splits)
qed

theorem closing_node_not_selected_witness:
  "\<exists>s' d. srv_Close (\<lambda>_. Ok) list_registry sample_srv = Ok s' \<and>
     ReplaceServices (\<lambda>_. Some \<lparr>uScheme = [], uHost = [], uQuery = []\<rparr>) (rgServices list_registry ''node'' (nsRegistry s')) (NewDispatcher ''rr'') = Ok d \<and>
     (case SelectGameNode (\<lambda>n. 0) 2 ''normal'' d of Ok ((grp, nid), d') \<Rightarrow> nid \<noteq> ''n1'' | Err e \<Rightarrow> True | Panic \<Rightarrow> False)"
proof -
  let ?p = "\<lambda>_. Some \<lparr>uScheme = [], uHost = [], uQuery = []\<rparr>"
  obtain s' where s': "srv_Close (\<lambda>_. Ok) list_registry sample_srv = Ok s'"
  proof (cases "srv_Close (\<lambda>_. Ok) list_registry sample_srv")
    case Panic
    moreover have "case srv_Close (\<lambda>_. Ok) list_registry sample_srv of Ok _ \<Rightarrow> True | _ \<Rightarrow> False" by code_simp
    ultimately show ?thesis by simp
  next
    case (Err e)
    moreover have "case srv_Close (\<lambda>_. Ok) list_registry sample_srv of Ok _ \<Rightarrow> True | _ \<Rightarrow> False" by code_simp
    ultimately show ?thesis by simp
  qed (rule that)
  have "case ReplaceServices ?p (rgServices list_registry ''node'' (nsRegistry (case srv_Close (\<lambda>_. Ok) list_registry sample_srv of Ok s \<Rightarrow> s | _ \<Rightarrow> sample_srv)))
      (NewDispatcher ''rr'') of Ok _ \<Rightarrow> True | _ \<Rightarrow> False" by code_simp
  then obtain d where d: "ReplaceServices ?p (rgServices list_registry ''node'' (nsRegistry s')) (NewDispatcher ''rr'') = Ok d"
    using s' by (auto split: go.splits)
  have laws: "registry_replaces list_registry" by (auto simp: registry_replaces_def list_registry_def)
  have st: "nnState (nsNode sample_srv) = st_Work \<or> nnState (nsNode sample_srv) = st_Busy" by code_simp
  let ?i = "node_instance sample_config newRouter [] 1"
  have i: "?i \<in> set (nsInstances sample_srv)" by code_simp
  have name: "siName ?i = ''node''" "siID ?i = ''n1''" by (simp_all add: node_instance_def sample_config_def)
  have ok: "fst (doRefreshServiceInstances list_registry (sample_srv\<lparr>nsNode := node_Close (nsNode sample_srv)\<rparr>)) = None" by code_simp
  have "case SelectGameNode (\<lambda>n. 0) 2 ''normal'' d of Ok ((grp, nid), d') \<Rightarrow> nid \<noteq> siID ?i | Err e \<Rightarrow> True | Panic \<Rightarrow> False"
    by (rule closing_node_not_selected [OF laws _ st i name(1) ok s' d]) auto
  then show ?thesis using s' d unfolding name(2) by blast
qed

text \<open>A timer that was armed before the node started is not counted, but its end is: it makes the wait group negative.\<close>

lemma early_timer_panics:
  "case srv_Start (\<lambda>_. Ok) list_registry sample_config newRouter [] (proxy_AfterFunc 1 (new_node_srv ''n1'' 3 3 [] :: (nat, _) node_srv)) of
     Ok s \<Rightarrow> (case life_run list_registry [LFire 0, LReturn] s of Panic \<Rightarrow> True | _ \<Rightarrow> False) | _ \<Rightarrow> False"
  by code_simp

end
