(* ===== verification/NodeServer.thy ===== *)
theory NodeServer
  imports GateClient NodeLife
begin

text \<open>
  \<open>internal/transporter/node\<close>: the client and the server of the link to a node, and the builder that keeps one
  client per address.  The server side works on a node (its queues, registry and linker) and on what the
  handshake recorded of the peer; the JSON codec of the metadata is an argument.
\<close>

section \<open>The server\<close>

record ('r, 'w) node_host =
  nhSrv :: "(bytes, 'r) node_srv"
  nhLink :: "'w nlink"

record link_peer =
  lpKind :: int
  lpID :: string

abbreviation (input) kind_Gate :: int where "kind_Gate \<equiv> 1"

abbreviation (input) kind_Node :: int where "kind_Node \<equiv> 2"

text \<open>\<open>hvPick\<close> is the choice of \<open>sync.Pool.Get\<close>.\<close>

record ('d, 'r, 'w) host_env =
  hvOpts :: node_opts
  hvEnv :: "('d, 'w) node_env"
  hvRouter :: Router
  hvRegistry :: "'r registry_ops"
  hvUnmarshal :: "bytes \<Rightarrow> metadata go"
  hvPick :: "bytes nnode \<Rightarrow> nat option"

type_synonym ('r, 'w) served = "link_peer \<times> ('r, 'w) node_host"

text \<open>A handler ends with a return or a response; \<open>None\<close> when a send to a full queue waits.\<close>

type_synonym ('r, 'w) node_handler = "bytes \<Rightarrow> ('r, 'w) served \<Rightarrow> (outcome \<times> ('r, 'w) served) option go"

definition node_request :: "'q go \<Rightarrow> ('q \<Rightarrow> (outcome \<times> 'g) option go) \<Rightarrow> 'g \<Rightarrow> (outcome \<times> 'g) option go" where
  "node_request req f g = (case req of Ok r \<Rightarrow> f r | Err e \<Rightarrow> Ok (Some (Return (Some e), g)) | Panic \<Rightarrow> Panic)"

definition set_node :: "bytes nnode \<Rightarrow> ('r, 'w) node_host \<Rightarrow> ('r, 'w) node_host" where
  "set_node n h = h\<lparr>nhSrv := (nhSrv h)\<lparr>nsNode := n\<rparr>\<rparr>"

definition node_handshake :: "('r, 'w) node_handler" where
  "node_handshake data g =
     node_request (DecodeHandshakeReq data) (\<lambda>(seq, insKind, insID).
       Ok (Some (Send (EncodeHandshakeRes seq (ErrorToCode None)), \<lparr>lpKind = insKind, lpID = insID\<rparr>, snd g))) g"

definition server_trigger :: "('d, 'r, 'w) host_env \<Rightarrow> ('r, 'w) node_handler" where
  "server_trigger env data g =
     node_request (DecodeTriggerReq data) (\<lambda>(seq, event, cid, uid).
       let (peer, h) = g; n = nsNode (nhSrv h)
       in if lpKind peer \<noteq> kind_Gate then Ok (Some (Return (Some ErrIllegalRequest), g))
          else case node_trigger (hvPick env n) (lpID peer) cid uid event n of
                 None \<Rightarrow> Ok None
               | Some (err, n) \<Rightarrow>
                   Ok (Some (if seq = 0 then Return (if err = Some ErrNotFoundSession then None else err)
                             else Send (EncodeTriggerRes seq (ErrorToCode err)), peer, set_node n h))) g"

definition server_deliver :: "('d, 'r, 'w) host_env \<Rightarrow> ('r, 'w) node_handler" where
  "server_deliver env data g =
     node_request (DecodeDeliverReq (hvUnmarshal env) data) (\<lambda>(seq, cid, uid, metadata, message).
       let (peer, h) = g; n = nsNode (nhSrv h);
           gid = (if lpKind peer = kind_Gate then lpID peer else []);
           nid = (if lpKind peer = kind_Node then lpID peer else [])
       in if lpKind peer \<noteq> kind_Gate \<and> lpKind peer \<noteq> kind_Node then Ok (Some (Return (Some ErrIllegalRequest), g))
          else case node_deliver (hvEnv env) (hvOpts env) (hvRouter env) (hvPick env n) gid nid cid uid metadata message n (nhLink h) of
                 (Ok None, l) \<Rightarrow> Ok None
               | (Ok (Some (err, n)), l) \<Rightarrow>
                   Ok (Some (if seq = 0 then Return err else Send (EncodeDeliverRes seq (ErrorToCode err)),
                             peer, (set_node n h)\<lparr>nhLink := l\<rparr>))
               | (Err e, l) \<Rightarrow> Err e
               | (Panic, l) \<Rightarrow> Panic) g"

text \<open>These two answer whatever the sequence number is.\<close>

definition server_getState_node :: "('r, 'w) node_handler" where
  "server_getState_node data g =
     node_request (DecodeGetStateReq data) (\<lambda>seq.
       Ok (Some (Send (EncodeGetStateRes seq (ErrorToCode None) (nnState (nsNode (nhSrv (snd g))))), g))) g"

definition server_setState_node :: "('d, 'r, 'w) host_env \<Rightarrow> ('r, 'w) node_handler" where
  "server_setState_node env data g =
     node_request (DecodeSetStateReq data) (\<lambda>(seq, state).
       let (peer, h) = g; (err, srv) = srv_setState (hvRegistry env) state (nhSrv h)
       in Ok (Some (Send (EncodeSetStateRes seq (ErrorToCode err)), peer, h\<lparr>nhSrv := srv\<rparr>))) g"

definition node_handlers :: "('d, 'r, 'w) host_env \<Rightarrow> (uint8 \<times> ('r, 'w) node_handler) list" where
  "node_handlers env =
     [(route_Handshake, node_handshake), (route_Trigger, server_trigger env), (route_Deliver, server_deliver env),
      (route_GetState, server_getState_node), (route_SetState, server_setState_node env)]"

text \<open>One turn of the read loop: the response, if there is one.\<close>

definition node_serve ::
    "('d, 'r, 'w) host_env \<Rightarrow> (writer list \<Rightarrow> nat option) \<Rightarrow> writer_pool \<Rightarrow> bytes \<Rightarrow> ('r, 'w) served \<Rightarrow> (bytes option \<times> ('r, 'w) served) option go" where
  "node_serve env sel wp stream g =
     go_bind (proto_ReadMessage stream) (\<lambda>((isHeartbeat, routeID, seq, data), rest).
       if isHeartbeat then go_map (\<lambda>hb. Some (Some hb, g)) Heartbeat
       else
         case map_of (node_handlers env) routeID of
           None \<Rightarrow> Ok (Some (None, g))
         | Some handler \<Rightarrow>
             go_bind (handler data g) (\<lambda>res.
               case res of
                 None \<Rightarrow> Ok None
               | Some (Return err, g) \<Rightarrow> Ok (Some (None, g))
               | Some (Send e, g) \<Rightarrow> go_map (\<lambda>bs. Some (Some bs, g)) (encode_wire sel wp e)))"

section \<open>The client\<close>

definition NodeClient_Trigger where
  "NodeClient_Trigger tr event cid uid = client_send tr (EncodeTriggerReq 0 event cid [uid]) [cid] ()"

definition NodeClient_Deliver where
  "NodeClient_Deliver tr marshal cid uid metadata buf = client_send tr (EncodeDeliverReq marshal 0 cid uid metadata buf) [cid] ()"

definition NodeClient_GetState where
  "NodeClient_GetState tr =
     client_call tr (\<lambda>seq. EncodeGetStateReq seq) (\<lambda>data. go_bind (DecodeGetStateRes data) check_code)"

definition NodeClient_SetState where
  "NodeClient_SetState tr state = client_call tr (\<lambda>seq. EncodeSetStateReq seq state) (decode_code DecodeSetStateRes)"

text \<open>\<open>Build\<close>: one client per address; \<open>est\<close> makes a client and establishes its connections.\<close>

definition Builder_Build :: "(string \<Rightarrow> 'c go) \<Rightarrow> string \<Rightarrow> (string \<times> 'c) list \<Rightarrow> 'c go \<times> (string \<times> 'c) list" where
  "Builder_Build est addr clients =
     (case map_of clients addr of
        Some cli \<Rightarrow> (Ok cli, clients)
      | None \<Rightarrow>
          (case est addr of
             Ok cli \<Rightarrow> (Ok cli, AList.update addr cli clients)
           | Err e \<Rightarrow> (Err e, clients)
           | Panic \<Rightarrow> (Panic, clients)))"

text \<open>The builder of the clients of gates (\<open>internal/transporter/gate/builder.go\<close>) has the same code.\<close>

definition GateBuilder_Build :: "(string \<Rightarrow> 'c go) \<Rightarrow> string \<Rightarrow> (string \<times> 'c) list \<Rightarrow> 'c go \<times> (string \<times> 'c) list" where
  "GateBuilder_Build est addr clients = Builder_Build est addr clients"

section \<open>A wire between client and node\<close>

text \<open>A connection that loses nothing, as for the gate; when the node's handler waits or panics the state is left as it is.\<close>

definition node_send ::
    "('d, 'r, 'w) host_env \<Rightarrow> (writer list \<Rightarrow> nat option) \<Rightarrow> writer_pool \<Rightarrow> encoder \<Rightarrow> int64 list \<Rightarrow> ('r, 'w) served \<Rightarrow> goerr option \<times> ('r, 'w) served" where
  "node_send env sel wp e idx g =
     (case encode_wire sel wp e of
        Ok req \<Rightarrow> (None, case node_serve env sel wp req g of Ok (Some (_, g')) \<Rightarrow> g' | _ \<Rightarrow> g)
      | Err e \<Rightarrow> (Some e, g)
      | Panic \<Rightarrow> (None, g))"

definition node_call ::
    "('d, 'r, 'w) host_env \<Rightarrow> (writer list \<Rightarrow> nat option) \<Rightarrow> writer_pool \<Rightarrow> uint64 \<Rightarrow> encoder \<Rightarrow> ('r, 'w) served \<Rightarrow> bytes go \<times> ('r, 'w) served" where
  "node_call env sel wp seq e g =
     (case encode_wire sel wp e of
        Ok req \<Rightarrow>
          (case node_serve env sel wp req g of
             Ok (Some (Some res, g')) \<Rightarrow>
               (case proto_ReadMessage res of
                  Ok ((isHeartbeat, _, resSeq, data), _) \<Rightarrow>
                    (if \<not> isHeartbeat \<and> resSeq = seq then Ok data else Err ContextDeadlineExceeded, g')
                | _ \<Rightarrow> (Err ContextDeadlineExceeded, g'))
           | Ok (Some (None, g')) \<Rightarrow> (Err ContextDeadlineExceeded, g')
           | _ \<Rightarrow> (Err ContextDeadlineExceeded, g))
      | Err e \<Rightarrow> (Err e, g)
      | Panic \<Rightarrow> (Panic, g))"

definition node_wire :: "('d, 'r, 'w) host_env \<Rightarrow> (writer list \<Rightarrow> nat option) \<Rightarrow> writer_pool \<Rightarrow> ('r, 'w) served transport" where
  "node_wire env sel wp = \<lparr>tCall = node_call env sel wp, tSend = node_send env sel wp\<rparr>"

section \<open>Deliveries over the wire\<close>

text \<open>What the codec of the metadata promises: a non-empty text that reads back.\<close>

definition metadata_codec :: "(metadata \<Rightarrow> bytes) \<Rightarrow> (bytes \<Rightarrow> metadata go) \<Rightarrow> metadata \<Rightarrow> bool" where
  "metadata_codec marshal unmarshal md \<longleftrightarrow> md = [] \<or> marshal md \<noteq> [] \<and> unmarshal (marshal md) = Ok md"

lemma deliver_served:
  assumes "writer_pool_ok wp" "mountable_ok m" "metadata_codec marshal (hvUnmarshal env) md"
    "length (deliver_meta marshal md) + length (mount_data m) < 2 ^ 32 - 34"
  shows "\<exists>bs. encode_wire sel wp (EncodeDeliverReq marshal seq cid uid md m) = Ok bs \<and>
    DecodeDeliverReq (hvUnmarshal env) bs = Ok (seq, cid, uid, md, mount_data m) \<and>
    node_serve env sel wp bs g = go_bind (server_deliver env bs g) (\<lambda>res.
      case res of None \<Rightarrow> Ok None | Some (Return err, g) \<Rightarrow> Ok (Some (None, g))
      | Some (Send e, g) \<Rightarrow> go_map (\<lambda>bs. Some (Some bs, g)) (encode_wire sel wp e))"
proof -
  let ?bs = "deliver_frame seq cid uid (deliver_meta marshal md) (mount_data m)"
  have enc: "encode_wire sel wp (EncodeDeliverReq marshal seq cid uid md m) = Ok ?bs"
    by (rule encode_wire_encodes [OF EncodeDeliverReq_encodes [OF assms(2)] assms(1)])
  have "DecodeDeliverReq (hvUnmarshal env) ?bs = Ok (seq, cid, uid, md, mount_data m)"
    by (rule DecodeDeliverReq_frame) (use assms(3,4) in \<open>auto simp: deliver_meta_def metadata_codec_def split: if_splits\<close>)
  moreover have "proto_ReadMessage ?bs = Ok ((False, route_Deliver, seq, ?bs), [])"
    using proto_ReadMessage_frame [of "PutUint64 BigEndian cid @ PutUint64 BigEndian uid @
        PutUint32 BigEndian (of_nat (length (deliver_meta marshal md))) @ deliver_meta marshal md @ mount_data m" route_Deliver seq "[]"] assms(4)
    by (simp add: deliver_frame_def)
  moreover have "map_of (node_handlers env) route_Deliver = Some (server_deliver env)"
    by (simp add: node_handlers_def route_defs route_Trigger_def route_Deliver_def)
  ultimately show ?thesis using enc by (intro exI [of _ ?bs]) (simp add: node_serve_def)
qed

text \<open>What the node does with a packet it accepts: the request ends up last in the queue.\<close>

definition delivered_to ::
    "string \<Rightarrow> string \<Rightarrow> int64 \<Rightarrow> int64 \<Rightarrow> metadata \<Rightarrow> Message \<Rightarrow> bytes delivery" where
  "delivered_to gid nid cid uid md msg = \<lparr>dlGid = gid, dlNid = nid, dlPid = [], dlCid = cid, dlUid = uid, dlSeq = mSeq msg,
     dlGameID = mGameID msg, dlMessageID = mMessageID msg, dlMetadata = md, dlData = Some (mBuffer msg)\<rparr>"

definition accepts :: "Router \<Rightarrow> Message \<Rightarrow> bool" where
  "accepts r msg \<longleftrightarrow> snd (CheckRouteStateful (mMessageID msg) r) \<or> HasMessageDispatcher r \<or> HasDefaultRouteHandler r"

lemma node_deliver_accepts:
  assumes "UnpackMessage (noPacker opts) data = Ok (Some msg, k)" "mGameID msg = noGameID opts" "accepts r msg"
    "check_stateful env opts (fst (CheckRouteStateful (mMessageID msg) r)) uid l = (Ok None, l')"
  shows "node_deliver env opts r pick gid nid cid uid md data n l = (Ok (router_deliver pick (delivered_to gid nid cid uid md msg) n), l')"
  using assms by (auto simp: node_deliver_def accepts_def delivered_to_def split: prod.splits)

lemma packed_unpacks:
  assumes "packet_fits p msg" "PackMessage p msg = Ok data"
  shows "UnpackMessage p data = Ok (Some msg, totalLen msg)"
  using assms UnpackMessage_layout [OF assms(1), of "replicate 4 0"] packet_fits_layout [OF assms(1)] by simp

section \<open>Properties\<close>

text \<open>C1. A delivery from end to end.  A gate (or node) that is known to the server by its handshake delivers a packed
  message of a user to a node: when the packet belongs to the node's game, its route is accepted, the user is bound
  to the node if the route is stateful, and the queue has room, then the call returns no error and exactly one request is
  put at the end of the node's queue; it has the sequence number, ids, user, connection, metadata and body that were
  sent, and its reply goes back to that connection of that gate (or to that node).\<close>

theorem node_delivery_end_to_end:
  assumes "writer_pool_ok wp" "mountable_ok m" "metadata_codec marshal (hvUnmarshal env) md"
    and "length (deliver_meta marshal md) + length (mount_data m) < 2 ^ 32 - 34"
    and "packet_fits (noPacker (hvOpts env)) msg" "PackMessage (noPacker (hvOpts env)) msg = Ok (mount_data m)"
    and "mGameID msg = noGameID (hvOpts env)" "accepts (hvRouter env) msg" "lpKind peer = kind_Gate \<or> lpKind peer = kind_Node" "lpID peer \<noteq> []"
    and "check_stateful (hvEnv env) (hvOpts env) (fst (CheckRouteStateful (mMessageID msg) (hvRouter env))) uid (nhLink h) = (Ok None, l')"
    and "length (nnReqChan (nsNode (nhSrv h))) < req_cap" "\<forall>c \<in> set (nnReqPool (nsNode (nhSrv h))). c < length (nnCtxs (nsNode (nhSrv h)))"
  shows "\<exists>h' c x. NodeClient_Deliver (node_wire env sel wp) marshal cid uid md m sq (peer, h) = (Ok (), sq, peer, h') \<and> nhLink h' = l' \<and>
    nnReqChan (nsNode (nhSrv h')) = nnReqChan (nsNode (nhSrv h)) @ [c] \<and> x = the_ctx (nsNode (nhSrv h')) c \<and>
    (cxSeq x, cxGameID x, cxMessageID x, cxData x) = (mSeq msg, mGameID msg, mMessageID msg, Some (mBuffer msg)) \<and>
    (cxUid x, cxCid x, cxMetadata x) = (uid, cid, md) \<and>
    request_Reply own known a x =
      (if lpKind peer = kind_Gate then CallPush (lpID peer) 1 cid a
       else if lpID peer = own then Nothing else CallDeliver (lpID peer) uid a)"
proof -
  let ?n = "nsNode (nhSrv h)"
  let ?gid = "if lpKind peer = kind_Gate then lpID peer else []" and ?nid = "if lpKind peer = kind_Node then lpID peer else []"
  let ?d = "delivered_to ?gid ?nid cid uid md msg"
  obtain n' where n': "router_deliver (hvPick env ?n) ?d ?n = Some (None, n')" using router_deliver_room [OF assms(12)] by blast
  obtain c x0 where q: "nnReqChan n' = nnReqChan ?n @ [c]" "the_ctx n' c = fill_request ?d x0"
    by (rule router_deliver_queues [OF n' assms(13)])
  obtain bs where bs: "encode_wire sel wp (EncodeDeliverReq marshal 0 cid uid md m) = Ok bs"
      "DecodeDeliverReq (hvUnmarshal env) bs = Ok (0, cid, uid, md, mount_data m)"
      "node_serve env sel wp bs (peer, h) = go_bind (server_deliver env bs (peer, h)) (\<lambda>res.
        case res of None \<Rightarrow> Ok None | Some (Return err, g) \<Rightarrow> Ok (Some (None, g))
        | Some (Send e, g) \<Rightarrow> go_map (\<lambda>bs. Some (Some bs, g)) (encode_wire sel wp e))"
    using deliver_served [OF assms(1-4), of sel 0 cid uid "(peer, h)"] by blast
  have "node_deliver (hvEnv env) (hvOpts env) (hvRouter env) (hvPick env ?n) ?gid ?nid cid uid md (mount_data m) ?n (nhLink h) =
      (Ok (Some (None, n')), l')"
    using node_deliver_accepts [OF packed_unpacks [OF assms(5,6)] assms(7,8,11)] n' by simp
  then have "server_deliver env bs (peer, h) = Ok (Some (Return None, peer, (set_node n' h)\<lparr>nhLink := l'\<rparr>))"
    using assms(9) bs(2) by (auto simp: server_deliver_def node_request_def Let_def)
  then have "NodeClient_Deliver (node_wire env sel wp) marshal cid uid md m sq (peer, h) = (Ok (), sq, peer, (set_node n' h)\<lparr>nhLink := l'\<rparr>)"
    using bs(1,3) by (simp add: NodeClient_Deliver_def client_send_def node_wire_def node_send_def)
  moreover have "request_Reply own known a (the_ctx n' c) =
      (if lpKind peer = kind_Gate then CallPush (lpID peer) 1 cid a else if lpID peer = own then Nothing else CallDeliver (lpID peer) uid a)"
    using assms(9,10) q(2) by (auto simp: request_Reply_def fill_request_def delivered_to_def)
  ultimately show ?thesis using q
    by (intro exI [of _ "(set_node n' h)\<lparr>nhLink := l'\<rparr>"] exI [of _ c] exI [of _ "the_ctx n' c"])
       (simp add: set_node_def fill_request_def delivered_to_def)
qed

definition sample_host_env :: "(unit, ServiceInstance list, nat) host_env" where
  "sample_host_env = \<lparr>hvOpts = \<lparr>noID = ''n1'', noName = ''game'', noGameID = 2, noPacker = \<lparr>byteOrder = LittleEndian, bufferBytes = 65535\<rparr>\<rparr>,
     hvEnv = sample_nenv, hvRouter = newRouter\<lparr>rtDispatcher := Some 1\<rparr>, hvRegistry = list_registry,
     hvUnmarshal = (\<lambda>_. Ok [(''k'', ''v'')]), hvPick = (\<lambda>_. None)\<rparr>"

definition sample_host :: "(ServiceInstance list, nat) node_host" where
  "sample_host = \<lparr>nhSrv = new_node_srv ''n1'' 3 3 [], nhLink = sample_nlink\<rparr>"

definition sample_packet :: Message where
  "sample_packet = \<lparr>mSeq = 1, mGameID = 2, mMessageID = 3, mBuffer = [4, 5]\<rparr>"

theorem node_delivery_end_to_end_witness:
  "\<exists>m h' c. NodeClient_Deliver (node_wire sample_host_env (\<lambda>_. None) (NewWriterPool 32)) (\<lambda>_. [123, 125]) 5 7 [(''k'', ''v'')] m 0
       (\<lparr>lpKind = 1, lpID = ''g1''\<rparr>, sample_host) = (Ok (), 0, \<lparr>lpKind = 1, lpID = ''g1''\<rparr>, h') \<and>
     nnReqChan (nsNode (nhSrv h')) = [c] \<and> cxData (the_ctx (nsNode (nhSrv h')) c) = Some [4, 5]"
proof -
  let ?p = "noPacker (hvOpts sample_host_env)"
  have fits: "packet_fits ?p sample_packet" by (simp add: packet_fits_def totalLen_def sample_packet_def sample_host_env_def)
  define bs where "bs = packet_header (byteOrder ?p) sample_packet @ mBuffer sample_packet @ replicate 4 0"
  let ?m = "MBlock (RawBlock bs)"
  have m: "mount_data ?m = bs" "mountable_ok ?m" by (simp_all add: mount_data_def block_data_def block_ok_def)
  have pack: "PackMessage ?p sample_packet = Ok (mount_data ?m)" using packet_fits_layout [OF fits] by (simp only: m(1)) (simp add: bs_def)
  have len: "length bs = 26" by (simp add: bs_def sample_packet_def)
  have codec: "metadata_codec (\<lambda>_. [123, 125]) (hvUnmarshal sample_host_env) [(''k'', ''v'')]"
    by (simp add: metadata_codec_def sample_host_env_def)
  have route: "accepts (hvRouter sample_host_env) sample_packet"
    by (simp add: accepts_def HasMessageDispatcher_def CheckRouteStateful_def sample_host_env_def newRouter_def)
  have "\<exists>h' c x. NodeClient_Deliver (node_wire sample_host_env (\<lambda>_. None) (NewWriterPool 32)) (\<lambda>_. [123, 125]) 5 7 [(''k'', ''v'')] ?m 0
      (\<lparr>lpKind = 1, lpID = ''g1''\<rparr>, sample_host) = (Ok (), 0, \<lparr>lpKind = 1, lpID = ''g1''\<rparr>, h') \<and> nhLink h' = sample_nlink \<and>
    nnReqChan (nsNode (nhSrv h')) = nnReqChan (nsNode (nhSrv sample_host)) @ [c] \<and> x = the_ctx (nsNode (nhSrv h')) c \<and>
    (cxSeq x, cxGameID x, cxMessageID x, cxData x) =
      (mSeq sample_packet, mGameID sample_packet, mMessageID sample_packet, Some (mBuffer sample_packet)) \<and>
    (cxUid x, cxCid x, cxMetadata x) = (7, 5, [(''k'', ''v'')]) \<and>
    request_Reply ''n1'' (\<lambda>_. False) () x =
      (if lpKind \<lparr>lpKind = 1, lpID = ''g1''\<rparr> = kind_Gate then CallPush (lpID \<lparr>lpKind = 1, lpID = ''g1''\<rparr>) 1 5 ()
       else if lpID \<lparr>lpKind = 1, lpID = ''g1''\<rparr> = ''n1'' then Nothing else CallDeliver (lpID \<lparr>lpKind = 1, lpID = ''g1''\<rparr>) 7 ())"
    by (rule node_delivery_end_to_end [OF NewWriterPool_ok m(2) codec _ fits pack _ route])
       (simp_all add: m(1) len deliver_meta_def CheckRouteStateful_def newRouter_def check_stateful_def sample_host_env_def sample_packet_def sample_host_def
         new_node_srv_def NewNode_def)
  then show ?thesis by (intro exI [of _ ?m]) (auto simp: sample_host_def new_node_srv_def NewNode_def sample_packet_def)
qed

end
