(* ===== verification/VersionRetire.thy ===== *)
theory VersionRetire
  imports Version
begin

text \<open>
  \<open>cluster/versionretire/watcher.go\<close>: an instance watches the versions of its peers and shuts itself down when
  a newer one has been seen for the whole retirement delay.  The registry, the clock and the moment at which
  a due timer runs are the environment; what happens is a sequence of events.
\<close>

section \<open>The watcher\<close>

record retire_options =
  roKind :: string
  roAlias :: string
  roVersion :: string
  roGameID :: int32
  roMatchGameID :: bool
  roRetireDelay :: int
  roTimeout :: int

text \<open>A timer that was started: when it is due, or that its callback has run.\<close>

datatype retire_timer = Armed int | Fired

text \<open>\<open>rwShutdowns\<close> are the times at which \<open>Shutdown\<close> ran; \<open>rwReturned\<close> tells that the goroutine is over.\<close>

record watcher =
  rwNow :: int
  rwTimer :: "retire_timer option"
  rwShutdowns :: "int list"
  rwReturned :: bool

definition peer_versions :: "retire_options \<Rightarrow> ServiceInstance option list \<Rightarrow> string list" where
  "peer_versions opts services =
     concat (map (\<lambda>ins. case ins of
         None \<Rightarrow> []
       | Some i \<Rightarrow>
           if siKind i \<noteq> roKind opts \<or> siAlias i \<noteq> roAlias opts then []
           else if roMatchGameID opts \<and> siGameID i \<noteq> roGameID opts then []
           else [siVersion i]) services)"

definition maxPeerVersion :: "retire_options \<Rightarrow> ServiceInstance option list \<Rightarrow> string" where
  "maxPeerVersion opts services =
     (let versions = peer_versions opts services in if length versions = 0 then roVersion opts else MaxVersion versions)"

definition schedule :: "retire_options \<Rightarrow> watcher \<Rightarrow> watcher" where
  "schedule opts w = (if rwTimer w \<noteq> None then w else w\<lparr>rwTimer := Some (Armed (rwNow w + roRetireDelay opts))\<rparr>)"

text \<open>\<open>timer.Stop\<close> keeps an armed timer from running; a callback that has started is not stopped.\<close>

definition cancelSchedule :: "watcher \<Rightarrow> watcher" where
  "cancelSchedule w = (if rwTimer w = None then w else w\<lparr>rwTimer := None\<rparr>)"

definition retire_check :: "retire_options \<Rightarrow> ServiceInstance option list \<Rightarrow> watcher \<Rightarrow> watcher" where
  "retire_check opts services w =
     (let maxVersion = maxPeerVersion opts services
      in if CompareVersion (roVersion opts) maxVersion \<ge> 0 then cancelSchedule w else schedule opts w)"

text \<open>The callback of the timer.\<close>

definition retire_fire :: "watcher \<Rightarrow> watcher" where
  "retire_fire w =
     (case rwTimer w of
        Some (Armed d) \<Rightarrow> if d \<le> rwNow w then w\<lparr>rwTimer := Some Fired, rwShutdowns := rwNow w # rwShutdowns w\<rparr> else w
      | _ \<Rightarrow> w)"

text \<open>What reaches the watcher: a list of services from the registry (an error of \<open>Next\<close> is no event), time, the
  run time giving a due timer its turn, and the end of the context.\<close>

datatype retire_event = Observe "ServiceInstance option list" | Elapse nat | Fire | CtxDone

fun retire_step :: "retire_options \<Rightarrow> retire_event \<Rightarrow> watcher \<Rightarrow> watcher" where
  "retire_step opts (Observe services) w = (if rwReturned w then w else retire_check opts services w)"
| "retire_step opts (Elapse d) w = w\<lparr>rwNow := rwNow w + int d\<rparr>"
| "retire_step opts Fire w = retire_fire w"
| "retire_step opts CtxDone w = (if rwReturned w then w else (cancelSchedule w)\<lparr>rwReturned := True\<rparr>)"

definition retire_run :: "retire_options \<Rightarrow> retire_event list \<Rightarrow> watcher \<Rightarrow> watcher" where
  "retire_run opts es w = fold (retire_step opts) es w"

definition new_watcher :: "int \<Rightarrow> watcher" where
  "new_watcher now = \<lparr>rwNow = now, rwTimer = None, rwShutdowns = [], rwReturned = False\<rparr>"

text \<open>\<open>Start\<close>: nothing without a registry or a shutdown function; a failed \<open>Watch\<close> ends the process (\<open>Err\<close>);
  the services known at the start are checked when the registry returns them.\<close>

definition retire_Start ::
    "retire_options \<Rightarrow> bool \<Rightarrow> bool \<Rightarrow> int \<Rightarrow> goerr option \<Rightarrow> ServiceInstance option list go \<Rightarrow> (retire_options \<times> watcher) option go" where
  "retire_Start opts hasRegistry hasShutdown now watchErr services =
     (if \<not> hasRegistry \<or> \<not> hasShutdown then Ok None
      else let opts = (if roTimeout opts \<le> 0 then opts\<lparr>roTimeout := 3000000000\<rparr> else opts); w = new_watcher now
           in case watchErr of
                Some e \<Rightarrow> Err e
              | None \<Rightarrow> Ok (Some (opts, case services of Ok ss \<Rightarrow> retire_check opts ss w | _ \<Rightarrow> w)))"

section \<open>What a check finds\<close>

definition newer_peer :: "retire_options \<Rightarrow> ServiceInstance \<Rightarrow> bool" where
  "newer_peer opts i \<longleftrightarrow> siKind i = roKind opts \<and> siAlias i = roAlias opts \<and> (roMatchGameID opts \<longrightarrow> siGameID i = roGameID opts) \<and>
     CompareVersion (roVersion opts) (siVersion i) < 0"

definition outdated :: "retire_options \<Rightarrow> ServiceInstance option list \<Rightarrow> bool" where
  "outdated opts services \<longleftrightarrow> (\<exists>i. Some i \<in> set services \<and> newer_peer opts i)"

lemma MaxVersion_greatest: "vs \<noteq> [] \<Longrightarrow> version.greatest (set vs) (MaxVersion vs)"
  using version.greatest_fold [OF version.greatest_single [of "hd vs"], of "tl vs"] by (cases vs) (simp_all add: MaxVersion_def)

lemma below_MaxVersion:
  assumes "vs \<noteq> []"
  shows "CompareVersion v (MaxVersion vs) < 0 \<longleftrightarrow> (\<exists>x \<in> set vs. CompareVersion v x < 0)"
proof
  assume "CompareVersion v (MaxVersion vs) < 0"
  then show "\<exists>x \<in> set vs. CompareVersion v x < 0"
    using MaxVersion_greatest [OF assms] by (auto simp: version.greatest_def)
next
  assume "\<exists>x \<in> set vs. CompareVersion v x < 0"
  then obtain x where x: "x \<in> set vs" "\<not> 0 \<le> CompareVersion v x" by auto
  have "0 \<le> CompareVersion (MaxVersion vs) x" using MaxVersion_greatest [OF assms] x by (simp add: version.greatest_def)
  then show "CompareVersion v (MaxVersion vs) < 0" using version.trans [of "MaxVersion vs" x v] x by fastforce
qed

lemma peer_versions_outdated: "(\<exists>x \<in> set (peer_versions opts services). CompareVersion (roVersion opts) x < 0) \<longleftrightarrow> outdated opts services"
  by (fastforce simp: peer_versions_def outdated_def newer_peer_def split: option.splits if_splits)

lemma maxPeerVersion_outdated: "CompareVersion (roVersion opts) (maxPeerVersion opts services) < 0 \<longleftrightarrow> outdated opts services"
  using peer_versions_outdated [of opts services] below_MaxVersion [of "peer_versions opts services" "roVersion opts"]
    version.cmp_self [of "roVersion opts"]
  by (cases "peer_versions opts services = []") (auto simp: maxPeerVersion_def Let_def)

lemma retire_check_eq: "retire_check opts services w = (if outdated opts services then schedule opts w else cancelSchedule w)"
  using maxPeerVersion_outdated [of opts services] by (simp add: retire_check_def not_less [symmetric])

section \<open>The delay\<close>

primrec elapsed :: "retire_event list \<Rightarrow> int" where
  "elapsed [] = 0"
| "elapsed (e # es) = (case e of Elapse d \<Rightarrow> int d | _ \<Rightarrow> 0) + elapsed es"

lemma elapsed_append [simp]: "elapsed (es @ es') = elapsed es + elapsed es'"
  by (induction es) simp_all

text \<open>A check that finds a newer peer, followed only by checks that find one too.\<close>

definition streak :: "retire_options \<Rightarrow> retire_event list \<Rightarrow> bool" where
  "streak opts es \<longleftrightarrow> CtxDone \<notin> set es \<and> (\<forall>ss. Observe ss \<in> set es \<longrightarrow> outdated opts ss)"

lemma retire_run_snoc [simp]: "retire_run opts (es @ [e]) w = retire_step opts e (retire_run opts es w)"
  by (simp add: retire_run_def)

lemma retire_run_append: "retire_run opts (es @ es') w = retire_run opts es' (retire_run opts es w)"
  by (simp add: retire_run_def)

lemma retire_now: "rwNow (retire_run opts es w) = rwNow w + elapsed es"
proof (induction es rule: rev_induct)
  case (snoc e es)
  then show ?case
    by (cases e) (auto simp: retire_check_eq schedule_def cancelSchedule_def retire_fire_def split: option.splits retire_timer.splits)
qed (simp add: retire_run_def)

lemma retire_returned: "rwReturned (retire_run opts es w) \<longleftrightarrow> rwReturned w \<or> CtxDone \<in> set es"
proof (induction es rule: rev_induct)
  case (snoc e es)
  then show ?case
    by (cases e) (auto simp: retire_check_eq schedule_def cancelSchedule_def retire_fire_def split: option.splits retire_timer.splits)
qed (simp add: retire_run_def)

lemma returned_idle:
  assumes "rwReturned (retire_run opts es (new_watcher now))"
  shows "rwTimer (retire_run opts es (new_watcher now)) = None"
  using assms
proof (induction es rule: rev_induct)
  case (snoc e es)
  then show ?case
    by (cases e) (auto simp: retire_check_eq schedule_def cancelSchedule_def retire_fire_def split: option.splits retire_timer.splits if_splits)
qed (simp add: retire_run_def new_watcher_def)

text \<open>Where an armed timer comes from.\<close>

lemma armed_origin:
  assumes "rwTimer (retire_run opts es (new_watcher now)) = Some (Armed d)"
  shows "\<exists>es1 ss es2. es = es1 @ Observe ss # es2 \<and> CtxDone \<notin> set es1 \<and> outdated opts ss \<and> streak opts es2 \<and>
    d = now + elapsed es1 + roRetireDelay opts"
  using assms
proof (induction es rule: rev_induct)
  case (snoc e es)
  let ?w = "retire_run opts es (new_watcher now)"
  have ext: ?case if "rwTimer ?w = Some (Armed d)" "streak opts [e]"
  proof -
    from snoc.IH [OF that(1)] obtain es1 ss es2 where
      *: "es = es1 @ Observe ss # es2" "CtxDone \<notin> set es1" "outdated opts ss" "streak opts es2" "d = now + elapsed es1 + roRetireDelay opts"
      by blast
    have "es @ [e] = es1 @ Observe ss # (es2 @ [e])" "streak opts (es2 @ [e])" using * that(2) by (auto simp: streak_def)
    then show ?thesis using * by blast
  qed
  show ?case
  proof (cases e)
    case (Observe ss)
    consider "outdated opts ss" "rwReturned ?w \<or> rwTimer ?w \<noteq> None" | "outdated opts ss" "\<not> rwReturned ?w" "rwTimer ?w = None"
      | "\<not> outdated opts ss" by blast
    then show ?thesis
    proof cases
      case 1
      then show ?thesis using ext Observe snoc.prems by (auto simp: streak_def retire_check_eq schedule_def split: if_splits)
    next
      case 2
      then have "d = now + elapsed es + roRetireDelay opts" "CtxDone \<notin> set es"
        using Observe snoc.prems retire_now [of opts es "new_watcher now"] retire_returned [of opts es "new_watcher now"]
        by (auto simp: retire_check_eq schedule_def new_watcher_def)
      then show ?thesis using Observe 2 by (intro exI [of _ es] exI [of _ ss] exI [of _ "[]"]) (simp add: streak_def)
    next
      case 3
      then have "rwReturned ?w" "rwTimer ?w = Some (Armed d)"
        using Observe snoc.prems by (auto simp: retire_check_eq cancelSchedule_def split: if_splits)
      then show ?thesis using returned_idle [of opts es now] by simp
    qed
  next
    case (Elapse k)
    then show ?thesis using ext snoc.prems by (simp add: streak_def)
  next
    case Fire
    then show ?thesis using ext snoc.prems by (auto simp: streak_def retire_fire_def split: option.splits retire_timer.splits if_splits)
  next
    case CtxDone
    then show ?thesis using snoc.prems returned_idle [of opts es now] by (auto simp: cancelSchedule_def split: if_splits)
  qed
qed (simp add: retire_run_def new_watcher_def)

text \<open>While the streak lasts, the timer stays: armed no later than the delay after the start, or fired.\<close>

lemma streak_keeps_timer:
  assumes "streak opts es" "\<not> rwReturned w" "rwTimer w = Some (Armed d) \<and> d \<le> bound \<or> rwTimer w = Some Fired \<and> rwShutdowns w \<noteq> []"
  shows "(\<exists>d. rwTimer (retire_run opts es w) = Some (Armed d) \<and> d \<le> bound) \<or>
    rwTimer (retire_run opts es w) = Some Fired \<and> rwShutdowns (retire_run opts es w) \<noteq> []"
  using assms(1)
proof (induction es rule: rev_induct)
  case (snoc e es)
  then have "streak opts es" "streak opts [e]" by (auto simp: streak_def)
  then show ?case using snoc.IH retire_returned [of opts es w] assms(2)
    by (cases e) (auto simp: streak_def retire_check_eq schedule_def retire_fire_def split: if_splits)
qed (use assms(3) in \<open>auto simp: retire_run_def\<close>)

lemma fired_shut: "rwTimer (retire_run opts es (new_watcher now)) = Some Fired \<Longrightarrow> rwShutdowns (retire_run opts es (new_watcher now)) \<noteq> []"
proof (induction es rule: rev_induct)
  case (snoc e es)
  then show ?case
    by (cases e) (auto simp: retire_check_eq schedule_def cancelSchedule_def retire_fire_def split: option.splits retire_timer.splits if_splits)
qed (simp add: retire_run_def new_watcher_def)

lemma shutdowns_kept: "rwShutdowns w \<noteq> [] \<Longrightarrow> rwShutdowns (retire_run opts es w) \<noteq> []"
proof (induction es rule: rev_induct)
  case (snoc e es)
  then show ?case
    by (cases e) (auto simp: retire_check_eq schedule_def cancelSchedule_def retire_fire_def split: option.splits retire_timer.splits)
qed (simp add: retire_run_def)

lemma deadline_bound:
  assumes "rwTimer (retire_run opts es (new_watcher now)) = Some (Armed d)"
  shows "d \<le> now + elapsed es + roRetireDelay opts"
proof -
  have "0 \<le> elapsed xs" for xs by (induction xs) (simp_all split: retire_event.splits)
  then show ?thesis using armed_origin [OF assms] by (auto split: retire_event.splits)
qed

lemma observed_newer_armed:
  fixes now :: int
  assumes "CtxDone \<notin> set es" "outdated opts ss"
  defines "w \<equiv> retire_run opts (es @ [Observe ss]) (new_watcher now)"
  shows "\<not> rwReturned w" "(\<exists>d. rwTimer w = Some (Armed d) \<and> d \<le> now + elapsed es + roRetireDelay opts) \<or> rwTimer w = Some Fired \<and> rwShutdowns w \<noteq> []"
proof -
  show "\<not> rwReturned w" using assms(1) unfolding w_def retire_returned by (simp add: new_watcher_def)
  have timer: "\<exists>x. rwTimer w = Some x" using assms(2) retire_returned [of opts es "new_watcher now"] assms(1)
    by (simp add: w_def retire_check_eq schedule_def new_watcher_def)
  then obtain x where x: "rwTimer w = Some x" by blast
  show "(\<exists>d. rwTimer w = Some (Armed d) \<and> d \<le> now + elapsed es + roRetireDelay opts) \<or> rwTimer w = Some Fired \<and> rwShutdowns w \<noteq> []"
  proof (cases x)
    case (Armed d)
    then show ?thesis using x deadline_bound [of opts "es @ [Observe ss]" now d] unfolding w_def by simp
  next
    case Fired
    then show ?thesis using x fired_shut [of opts "es @ [Observe ss]" now] unfolding w_def by simp
  qed
qed

lemma shutdown_origin:
  assumes "rwShutdowns (retire_run opts es (new_watcher now)) \<noteq> []"
  shows "\<exists>es1 ss es2 es3. es = es1 @ Observe ss # es2 @ Fire # es3 \<and> CtxDone \<notin> set es1 \<and> outdated opts ss \<and> streak opts es2 \<and>
    roRetireDelay opts \<le> elapsed es2"
  using assms
proof (induction es rule: rev_induct)
  case (snoc e es)
  let ?w = "retire_run opts es (new_watcher now)"
  show ?case
  proof (cases "rwShutdowns ?w = []")
    case True
    then obtain d where d: "e = Fire" "rwTimer ?w = Some (Armed d)" "d \<le> rwNow ?w" using snoc.prems
      by (cases e) (auto simp: retire_check_eq schedule_def cancelSchedule_def retire_fire_def split: if_splits option.splits retire_timer.splits)
    from armed_origin [OF d(2)] obtain es1 ss es2 where
      *: "es = es1 @ Observe ss # es2" "CtxDone \<notin> set es1" "outdated opts ss" "streak opts es2" "d = now + elapsed es1 + roRetireDelay opts"
      by blast
    moreover have "roRetireDelay opts \<le> elapsed es2" using *(1,5) d(3) retire_now [of opts es "new_watcher now"]
      by (simp add: new_watcher_def)
    ultimately show ?thesis using d(1) by (intro exI [of _ es1] exI [of _ ss] exI [of _ es2] exI [of _ "[]"]) simp
  next
    case False
    from snoc.IH [OF this] show ?thesis by fastforce
  qed
qed (simp add: retire_run_def new_watcher_def)

section \<open>Properties\<close>

text \<open>C18. Retirement.  An instance shuts itself down exactly when, for the whole retirement delay, every look at the
  registry showed a running peer of the same kind, alias and (when it matters) game with a newer version:
  one look with no newer peer in between, or the end of the context, calls the shutdown off, and looks that
  confirm the newer version do not put it off.\<close>

theorem retires_iff_outdated:
  "rwShutdowns (retire_run opts es (new_watcher now)) \<noteq> [] \<longleftrightarrow>
   (\<exists>es1 ss es2 es3. es = es1 @ Observe ss # es2 @ Fire # es3 \<and> CtxDone \<notin> set es1 \<and> CtxDone \<notin> set es2 \<and>
      (\<forall>s. Observe s \<in> set (Observe ss # es2) \<longrightarrow> (\<exists>i. Some i \<in> set s \<and> newer_peer opts i)) \<and> roRetireDelay opts \<le> elapsed es2)"
  (is "?L \<longleftrightarrow> ?R")
proof
  assume ?L
  from shutdown_origin [OF this] obtain es1 ss es2 es3 where
    *: "es = es1 @ Observe ss # es2 @ Fire # es3" "CtxDone \<notin> set es1" "outdated opts ss" "streak opts es2" "roRetireDelay opts \<le> elapsed es2"
    by blast
  then have "CtxDone \<notin> set es2" "\<forall>s. Observe s \<in> set (Observe ss # es2) \<longrightarrow> (\<exists>i. Some i \<in> set s \<and> newer_peer opts i)"
    by (auto simp: streak_def outdated_def)
  then show ?R using * by blast
next
  assume ?R
  then obtain es1 ss es2 es3 where "es = es1 @ Observe ss # es2 @ Fire # es3" "CtxDone \<notin> set es1" "CtxDone \<notin> set es2"
      "\<forall>s. Observe s \<in> set (Observe ss # es2) \<longrightarrow> (\<exists>i. Some i \<in> set s \<and> newer_peer opts i)" "roRetireDelay opts \<le> elapsed es2"
    by blast
  then have es: "es = (es1 @ [Observe ss]) @ es2 @ [Fire] @ es3" "CtxDone \<notin> set es1" "streak opts es2" "outdated opts ss"
      "roRetireDelay opts \<le> elapsed es2"
    by (auto simp: streak_def outdated_def)
  let ?w1 = "retire_run opts (es1 @ [Observe ss]) (new_watcher now)" and ?b = "now + elapsed es1 + roRetireDelay opts"
  let ?w2 = "retire_run opts es2 ?w1"
  have "(\<exists>d. rwTimer ?w2 = Some (Armed d) \<and> d \<le> ?b) \<or> rwTimer ?w2 = Some Fired \<and> rwShutdowns ?w2 \<noteq> []"
    using streak_keeps_timer [OF es(3) observed_newer_armed(1) [OF es(2,4)], of now _ ?b] observed_newer_armed(2) [OF es(2,4), of now] by blast
  moreover have "?b \<le> rwNow ?w2"
    using es(5) retire_now [of opts es2 ?w1] retire_now [of opts "es1 @ [Observe ss]" "new_watcher now"] by (simp add: new_watcher_def)
  ultimately have "rwShutdowns (retire_run opts [Fire] ?w2) \<noteq> []" by (auto simp: retire_run_def retire_fire_def)
  then show ?L unfolding es(1) retire_run_append by (rule shutdowns_kept)
qed

definition sample_options :: retire_options where
  "sample_options = \<lparr>roKind = ''node'', roAlias = ''game'', roVersion = ''1.9'', roGameID = 2, roMatchGameID = True, roRetireDelay = 5, roTimeout = 3\<rparr>"

definition sample_peer :: "string \<Rightarrow> ServiceInstance" where
  "sample_peer v = \<lparr>siID = ''n2'', siName = ''node'', siKind = ''node'', siAlias = ''game'', siState = ''work'', siEvents = [], siRoutes = [],
     siServices = [], siEndpoint = ''grpc://h'', siWeight = 1, siGameID = 2, siVersion = v, siMetadata = []\<rparr>"

theorem retires_iff_outdated_witness:
  "rwShutdowns (retire_run sample_options [Observe [Some (sample_peer ''1.10'')], Elapse 5, Fire] (new_watcher 0)) \<noteq> [] \<and>
   rwShutdowns (retire_run sample_options [Observe [Some (sample_peer ''1.10'')], Elapse 4, Observe [], Elapse 1, Fire] (new_watcher 0)) = []"
proof
  have "newer_peer sample_options (sample_peer ''1.10'')" by code_simp
  then show "rwShutdowns (retire_run sample_options [Observe [Some (sample_peer ''1.10'')], Elapse 5, Fire] (new_watcher 0)) \<noteq> []"
    unfolding retires_iff_outdated
    by (intro exI [of _ "[]"] exI [of _ "[Some (sample_peer ''1.10'')]"] exI [of _ "[Elapse 5]"]) (auto simp: sample_options_def)
qed code_simp

end
