(* ===== verification/LinkServer.thy ===== *)
theory LinkServer
  imports LinkConn "HOL-Library.Multiset" "HOL-Library.Sublist"
begin

text \<open>
  \<open>internal/transporter/internal/server\<close>: the connections a link server accepts.  A connection is shared by the
  goroutines that send on it, its reader, its writer and whoever closes it; each turn of one of them between two
  accesses to shared state is a step.  Buffers are numbers: what counts is who holds one and how often it
  was released.
\<close>

section \<open>A connection\<close>

text \<open>\<open>scInside\<close> are the buffers of the goroutines that are in \<open>Send\<close> and hold the read lock; \<open>scWriting\<close> is the
  buffer the writer is writing; \<open>scDraining\<close> tells that \<open>close\<close> won its exchange and waits for the lock.  \<open>scWire\<close>
  are the buffers that were written completely, \<open>scLog\<close> the buffers in the order in which they entered the queue,
  and \<open>scReleased\<close> the calls of \<open>Release\<close>.\<close>

record sconn =
  scOpen :: bool
  scCancelled :: bool
  scQueue :: "nat list"
  scHearts :: nat
  scLast :: int
  scInside :: "nat list"
  scDraining :: bool
  scWriter :: bool
  scWriting :: "nat option"
  scWire :: "nat list"
  scLog :: "nat list"
  scReleased :: "nat multiset"
  scRecycled :: bool

abbreviation (input) write_cap :: nat where "write_cap \<equiv> 4096"

abbreviation (input) heart_cap :: nat where "heart_cap \<equiv> 16"

abbreviation (input) heartbeat_interval :: int where "heartbeat_interval \<equiv> 10"

definition new_sconn :: "int \<Rightarrow> sconn" where
  "new_sconn now = \<lparr>scOpen = True, scCancelled = False, scQueue = [], scHearts = 0, scLast = now, scInside = [], scDraining = False,
     scWriter = True, scWriting = None, scWire = [], scLog = [], scReleased = {#}, scRecycled = False\<rparr>"

text \<open>\<open>Send\<close> up to the look at the state: a closed connection releases the buffer.\<close>

definition send_enter :: "nat \<Rightarrow> sconn \<Rightarrow> goerr option \<times> sconn" where
  "send_enter b c =
     (if \<not> scOpen c then (Some ErrConnectionClosed, c\<lparr>scReleased := add_mset b (scReleased c)\<rparr>)
      else (None, c\<lparr>scInside := b # scInside c\<rparr>))"

text \<open>How a goroutine inside \<open>Send\<close> leaves it: the queue takes the buffer, the context is done, or the timer of the
  slow path fires; only the last one closes the connection.\<close>

definition send_queued :: "nat \<Rightarrow> sconn \<Rightarrow> sconn option" where
  "send_queued b c =
     (if b \<in> set (scInside c) \<and> length (scQueue c) < write_cap
      then Some (c\<lparr>scInside := remove1 b (scInside c), scQueue := scQueue c @ [b], scLog := scLog c @ [b]\<rparr>) else None)"

definition send_cancelled :: "nat \<Rightarrow> sconn \<Rightarrow> sconn option" where
  "send_cancelled b c =
     (if b \<in> set (scInside c) \<and> scCancelled c
      then Some (c\<lparr>scInside := remove1 b (scInside c), scReleased := add_mset b (scReleased c)\<rparr>) else None)"

text \<open>\<open>close\<close> up to the lock: only the first caller goes on.\<close>

definition close_begin :: "sconn \<Rightarrow> sconn" where
  "close_begin c = (if scOpen c then c\<lparr>scOpen := False, scCancelled := True, scDraining := True\<rparr> else c)"

definition send_timeout :: "nat \<Rightarrow> sconn \<Rightarrow> sconn option" where
  "send_timeout b c =
     (if b \<in> set (scInside c)
      then Some (close_begin (c\<lparr>scInside := remove1 b (scInside c), scReleased := add_mset b (scReleased c)\<rparr>)) else None)"

definition drainWriteChan :: "sconn \<Rightarrow> sconn" where
  "drainWriteChan c = c\<lparr>scQueue := [], scReleased := scReleased c + mset (scQueue c)\<rparr>"

text \<open>The rest of \<open>close\<close>: the lock is free when no goroutine is inside \<open>Send\<close>.\<close>

definition close_drain :: "bool \<Rightarrow> sconn \<Rightarrow> sconn option" where
  "close_drain recycle c =
     (if scDraining c \<and> scInside c = []
      then Some ((drainWriteChan c)\<lparr>scDraining := False, scRecycled := scRecycled c \<or> recycle\<rparr>) else None)"

definition sendHeartbeat :: "sconn \<Rightarrow> goerr option \<times> sconn" where
  "sendHeartbeat c =
     (if \<not> scOpen c then (Some ErrConnectionClosed, c)
      else if scHearts c < heart_cap then (None, c\<lparr>scHearts := scHearts c + 1\<rparr>)
      else (Some ErrConnectionClosed, close_begin c))"

text \<open>A turn of the reader: a read error closes; a frame is noted, and a heartbeat is answered.  Handlers send with
  \<open>Send\<close>.\<close>

definition read_frame_turn :: "int \<Rightarrow> bool \<Rightarrow> sconn \<Rightarrow> sconn" where
  "read_frame_turn now isHeartbeat c =
     (if \<not> scOpen c then c
      else let c = c\<lparr>scLast := now\<rparr> in if isHeartbeat then snd (sendHeartbeat c) else c)"

text \<open>Turns of the writer: a heartbeat, a buffer, the ticker, the end.\<close>

definition write_heart :: "bool \<Rightarrow> sconn \<Rightarrow> sconn option" where
  "write_heart ok c =
     (if scWriter c \<and> scWriting c = None \<and> scHearts c > 0
      then let c = c\<lparr>scHearts := scHearts c - 1\<rparr>
           in Some (if ok then c else drainWriteChan ((close_begin c)\<lparr>scWriter := False\<rparr>))
      else None)"

definition write_take :: "sconn \<Rightarrow> sconn option" where
  "write_take c =
     (if scWriter c \<and> scWriting c = None
      then (case scQueue c of [] \<Rightarrow> None | b # bs \<Rightarrow> Some (c\<lparr>scQueue := bs, scWriting := Some b\<rparr>)) else None)"

text \<open>The buffer is released whether its bytes were written or not; an error ends the writer, whose deferred function
  empties the queue.\<close>

definition write_end :: "bool \<Rightarrow> sconn \<Rightarrow> sconn option" where
  "write_end ok c =
     (case scWriting c of
        None \<Rightarrow> None
      | Some b \<Rightarrow>
          let c = c\<lparr>scWriting := None, scReleased := add_mset b (scReleased c)\<rparr>
          in Some (if ok then c\<lparr>scWire := scWire c @ [b]\<rparr> else drainWriteChan ((close_begin c)\<lparr>scWriter := False\<rparr>)))"

definition write_tick :: "int \<Rightarrow> sconn \<Rightarrow> sconn option" where
  "write_tick now c =
     (if scWriter c \<and> scWriting c = None
      then Some (if scLast c < now - 2 * heartbeat_interval then drainWriteChan ((close_begin c)\<lparr>scWriter := False\<rparr>) else c)
      else None)"

definition write_exit :: "sconn \<Rightarrow> sconn option" where
  "write_exit c =
     (if scWriter c \<and> scWriting c = None \<and> scCancelled c then Some (drainWriteChan (c\<lparr>scWriter := False\<rparr>)) else None)"

section \<open>Steps\<close>

datatype sconn_event =
    Enter nat | Queued nat | Cancelled nat | TimedOut nat | CloseBegin | CloseDrain bool | ReadTurn int bool | WriteHeart bool
  | WriteTake | WriteEnd bool | WriteTick int | WriteExit

fun sconn_step :: "sconn_event \<Rightarrow> sconn \<Rightarrow> sconn option" where
  "sconn_step (Enter b) c = Some (snd (send_enter b c))"
| "sconn_step (Queued b) c = send_queued b c"
| "sconn_step (Cancelled b) c = send_cancelled b c"
| "sconn_step (TimedOut b) c = send_timeout b c"
| "sconn_step CloseBegin c = Some (close_begin c)"
| "sconn_step (CloseDrain recycle) c = close_drain recycle c"
| "sconn_step (ReadTurn now hb) c = Some (read_frame_turn now hb c)"
| "sconn_step (WriteHeart ok) c = write_heart ok c"
| "sconn_step WriteTake c = write_take c"
| "sconn_step (WriteEnd ok) c = write_end ok c"
| "sconn_step (WriteTick now) c = write_tick now c"
| "sconn_step WriteExit c = write_exit c"

fun sconn_run :: "sconn_event list \<Rightarrow> sconn \<Rightarrow> sconn option" where
  "sconn_run [] c = Some c"
| "sconn_run (e # es) c = Option.bind (sconn_step e c) (sconn_run es)"

text \<open>The buffers handed to \<open>Send\<close>.\<close>

definition sent :: "sconn_event list \<Rightarrow> nat multiset" where
  "sent es = mset (concat (map (\<lambda>e. case e of Enter b \<Rightarrow> [b] | _ \<Rightarrow> []) es))"

definition held :: "sconn \<Rightarrow> nat multiset" where
  "held c = mset (scInside c) + mset (scQueue c) + mset (case scWriting c of None \<Rightarrow> [] | Some b \<Rightarrow> [b])"

lemma sent_Cons [simp]: "sent (e # es) = (case e of Enter b \<Rightarrow> {#b#} | _ \<Rightarrow> {#}) + sent es"
  by (cases e) (simp_all add: sent_def)

lemma sent_Nil [simp]: "sent [] = {#}"
  by (simp add: sent_def)

text \<open>Every step keeps account of the buffers.\<close>

lemma step_account:
  assumes "sconn_step e c = Some c'"
  shows "held c' + scReleased c' = held c + scReleased c + (case e of Enter b \<Rightarrow> {#b#} | _ \<Rightarrow> {#})"
  using assms
  by (cases e) (auto simp: held_def send_enter_def send_queued_def send_cancelled_def send_timeout_def close_begin_def close_drain_def
      drainWriteChan_def read_frame_turn_def sendHeartbeat_def write_heart_def write_take_def write_end_def write_tick_def write_exit_def
      Let_def split: if_splits option.splits list.splits)

lemma run_account: "sconn_run es c = Some c' \<Longrightarrow> held c' + scReleased c' = held c + scReleased c + sent es"
proof (induction es arbitrary: c)
  case (Cons e es)
  then obtain c1 where c1: "sconn_step e c = Some c1" "sconn_run es c1 = Some c'" by (auto split: Option.bind_splits)
  show ?case using Cons.IH [OF c1(2)] step_account [OF c1(1)] by (simp add: ac_simps)
qed simp

text \<open>What stays true: a closed connection is cancelled, and once it is drained and left by all senders it is empty.
  Buffers leave the queue in the order in which they came, and only the writer sends them out.\<close>

definition sconn_ok :: "sconn \<Rightarrow> bool" where
  "sconn_ok c \<longleftrightarrow> (scCancelled c \<longleftrightarrow> \<not> scOpen c) \<and> (scDraining c \<longrightarrow> \<not> scOpen c) \<and> (\<not> scWriter c \<longrightarrow> scWriting c = None \<and> \<not> scOpen c) \<and>
     (\<not> scOpen c \<and> \<not> scDraining c \<longrightarrow> scInside c = [] \<and> scQueue c = []) \<and>
     (let out = scWire c @ (case scWriting c of None \<Rightarrow> [] | Some b \<Rightarrow> [b])
      in if scWriter c \<and> (scOpen c \<or> scDraining c) then out @ scQueue c = scLog c else prefix out (scLog c))"

lemmas sconn_step_defs = send_enter_def send_queued_def send_cancelled_def send_timeout_def close_begin_def close_drain_def
  drainWriteChan_def read_frame_turn_def sendHeartbeat_def write_heart_def write_take_def write_end_def write_tick_def write_exit_def

lemma ok_close: "sconn_ok c \<Longrightarrow> sconn_ok (close_begin c)"
  by (auto simp: sconn_ok_def close_begin_def Let_def split: if_splits)

lemma ok_released: "sconn_ok (c\<lparr>scReleased := r\<rparr>) = sconn_ok c" "sconn_ok (c\<lparr>scHearts := n\<rparr>) = sconn_ok c" "sconn_ok (c\<lparr>scLast := t\<rparr>) = sconn_ok c"
  by (simp_all add: sconn_ok_def)

lemma ok_inside: "sconn_ok c \<Longrightarrow> sconn_ok (c\<lparr>scInside := remove1 b (scInside c)\<rparr>)"
  by (auto simp: sconn_ok_def)

lemma ok_out:
  assumes "sconn_ok c"
  shows "prefix (scWire c @ (case scWriting c of None \<Rightarrow> [] | Some b \<Rightarrow> [b])) (scLog c)" "prefix (scWire c) (scLog c)"
proof -
  let ?out = "scWire c @ (case scWriting c of None \<Rightarrow> [] | Some b \<Rightarrow> [b])"
  have "?out @ scQueue c = scLog c \<or> prefix ?out (scLog c)" using assms unfolding sconn_ok_def Let_def by (simp split: if_splits)
  then show "prefix ?out (scLog c)" by (metis prefixI)
  then show "prefix (scWire c) (scLog c)" by (rule append_prefixD)
qed

lemma ok_stop:
  assumes "sconn_ok c" "\<not> scOpen c"
  shows "sconn_ok (drainWriteChan (c\<lparr>scWriter := False, scWriting := None\<rparr>))"
  using assms ok_out(2) [OF assms(1)] by (auto simp: sconn_ok_def drainWriteChan_def Let_def)

lemma close_begin_closed [simp]: "\<not> scOpen (close_begin c)" "scWriting (close_begin c) = scWriting c"
  by (simp_all add: close_begin_def)

lemma ok_stop_idle: "\<lbrakk>sconn_ok c; \<not> scOpen c; scWriting c = None\<rbrakk> \<Longrightarrow> sconn_ok (drainWriteChan (c\<lparr>scWriter := False\<rparr>))"
  using ok_stop [of c] by (cases c) (simp add: drainWriteChan_def)

lemma ok_written: "\<lbrakk>sconn_ok c; scWriting c = Some b\<rbrakk> \<Longrightarrow> sconn_ok (c\<lparr>scWriting := None, scWire := scWire c @ [b]\<rparr>)"
  by (auto simp: sconn_ok_def)

lemma step_ok:
  assumes "sconn_ok c" "sconn_step e c = Some c'"
  shows "sconn_ok c'"
proof (cases e)
  case (Enter b)
  then show ?thesis using assms by (auto simp: send_enter_def sconn_ok_def Let_def split: if_splits)
next
  case (Queued b)
  then show ?thesis using assms by (auto simp: send_queued_def sconn_ok_def Let_def split: if_splits)
next
  case (Cancelled b)
  then have "c' = (c\<lparr>scInside := remove1 b (scInside c)\<rparr>)\<lparr>scReleased := add_mset b (scReleased c)\<rparr>"
    using assms(2) by (simp add: send_cancelled_def split: if_splits)
  then show ?thesis using ok_inside [OF assms(1)] by (simp only: ok_released)
next
  case (TimedOut b)
  then have "c' = close_begin ((c\<lparr>scInside := remove1 b (scInside c)\<rparr>)\<lparr>scReleased := add_mset b (scReleased c)\<rparr>)"
    using assms(2) by (simp add: send_timeout_def split: if_splits)
  then show ?thesis using ok_inside [OF assms(1)] by (simp only: ok_released ok_close)
next
  case CloseBegin
  then show ?thesis using assms ok_close by auto
next
  case (CloseDrain recycle)
  then show ?thesis using assms ok_out(1) [OF assms(1)]
    by (auto simp: close_drain_def drainWriteChan_def sconn_ok_def Let_def split: if_splits)
next
  case (ReadTurn now hb)
  then show ?thesis using assms ok_close [of "c\<lparr>scLast := now\<rparr>"]
    by (auto simp: read_frame_turn_def sendHeartbeat_def ok_released Let_def split: if_splits)
next
  case (WriteHeart ok)
  then show ?thesis using assms ok_close [of "c\<lparr>scHearts := scHearts c - 1\<rparr>"]
    by (auto simp: write_heart_def ok_released Let_def intro!: ok_stop_idle split: if_splits)
next
  case WriteTake
  then show ?thesis using assms by (auto simp: write_take_def sconn_ok_def Let_def split: if_splits list.splits)
next
  case (WriteEnd ok)
  then obtain b where b: "scWriting c = Some b" using assms(2) by (auto simp: write_end_def split: option.splits)
  show ?thesis
  proof (cases ok)
    case True
    then have "c' = (c\<lparr>scWriting := None, scWire := scWire c @ [b]\<rparr>)\<lparr>scReleased := add_mset b (scReleased c)\<rparr>"
      using assms(2) b WriteEnd by (cases c) (auto simp: write_end_def Let_def)
    then show ?thesis using ok_written [OF assms(1) b] by (simp only: ok_released)
  next
    case False
    have "sconn_ok (drainWriteChan ((close_begin c)\<lparr>scWriter := False, scWriting := None\<rparr>))"
      by (rule ok_stop [OF ok_close [OF assms(1)]]) simp
    moreover have "c' = (drainWriteChan ((close_begin c)\<lparr>scWriter := False, scWriting := None\<rparr>))\<lparr>scReleased := scReleased c'\<rparr>"
      using assms(2) b False WriteEnd by (auto simp: write_end_def Let_def drainWriteChan_def close_begin_def)
    ultimately show ?thesis using ok_released(1) by metis
  qed
next
  case (WriteTick now)
  then show ?thesis using assms ok_close [OF assms(1)] by (auto simp: write_tick_def intro!: ok_stop_idle split: if_splits)
next
  case WriteExit
  moreover have "scCancelled c \<longleftrightarrow> \<not> scOpen c" using assms(1) by (simp add: sconn_ok_def)
  ultimately show ?thesis using assms by (auto simp: write_exit_def intro!: ok_stop_idle split: if_splits)
qed

lemma run_ok: "\<lbrakk>sconn_ok c; sconn_run es c = Some c'\<rbrakk> \<Longrightarrow> sconn_ok c'"
  by (induction es arbitrary: c) (auto split: Option.bind_splits dest: step_ok)

lemma new_sconn_ok: "sconn_ok (new_sconn now)"
  by (simp add: sconn_ok_def new_sconn_def)

section \<open>Closing\<close>

text \<open>A closed connection can always be finished: the senders that are inside leave, the writer ends, and the
  queue is emptied.\<close>

lemma leave_all:
  "\<lbrakk>scCancelled c; scInside c = bs\<rbrakk> \<Longrightarrow> \<exists>c'. sconn_run (map Cancelled bs) c = Some c' \<and> scInside c' = [] \<and> scOpen c' = scOpen c \<and>
     scDraining c' = scDraining c \<and> scWriting c' = scWriting c \<and> scQueue c' = scQueue c"
proof (induction bs arbitrary: c)
  case (Cons b bs)
  let ?c = "c\<lparr>scInside := bs, scReleased := add_mset b (scReleased c)\<rparr>"
  have "sconn_step (Cancelled b) c = Some ?c" using Cons.prems by (simp add: send_cancelled_def)
  moreover obtain c' where "sconn_run (map Cancelled bs) ?c = Some c' \<and> scInside c' = [] \<and> scOpen c' = scOpen ?c \<and>
     scDraining c' = scDraining ?c \<and> scWriting c' = scWriting ?c \<and> scQueue c' = scQueue ?c"
    using Cons.IH [of ?c] Cons.prems by auto
  ultimately show ?case by (intro exI [of _ c']) simp
qed simp

lemma sconn_run_append: "sconn_run (es @ es') c = Option.bind (sconn_run es c) (sconn_run es')"
  by (induction es arbitrary: c) (auto split: Option.bind_split)

lemma end_writing:
  assumes "\<not> scOpen c"
  shows "\<exists>es c'. sconn_run es c = Some c' \<and> sent es = {#} \<and> scWriting c' = None \<and> scOpen c' = scOpen c \<and> scDraining c' = scDraining c \<and> scInside c' = scInside c"
proof (cases "scWriting c")
  case None
  then show ?thesis by (intro exI [of _ "[]"] exI [of _ c]) simp
next
  case (Some b)
  then show ?thesis using assms
    by (intro exI [of _ "[WriteEnd False]"]) (simp add: write_end_def close_begin_def drainWriteChan_def)
qed

lemma finish_closing:
  assumes "sconn_ok c" "\<not> scOpen c"
  shows "\<exists>es c'. sconn_run es c = Some c' \<and> sent es = {#} \<and> held c' = {#}"
proof -
  have canc: "scCancelled c" using assms by (simp add: sconn_ok_def)
  obtain c1 where c1: "sconn_run (map Cancelled (scInside c)) c = Some c1" "scInside c1 = []" "scOpen c1 = scOpen c" "scDraining c1 = scDraining c"
    using leave_all [OF canc refl] by blast
  have ok1: "sconn_ok c1" by (rule run_ok [OF assms(1) c1(1)])
  obtain es2 c2 where c2: "sconn_run es2 c1 = Some c2" "sent es2 = {#}" "scWriting c2 = None" "scOpen c2 = scOpen c1" "scInside c2 = scInside c1"
    using end_writing [of c1] assms(2) c1(3) by auto
  have ok2: "sconn_ok c2" by (rule run_ok [OF ok1 c2(1)])
  have none: "sent (map Cancelled bs) = {#}" for bs by (induction bs) simp_all
  have run: "sconn_run (map Cancelled (scInside c) @ es2) c = Some c2" using c1(1) c2(1) by (simp add: sconn_run_append)
  have sent2: "sent (map Cancelled (scInside c) @ es2) = {#}" using none c2(2) by (simp add: sent_def)
  show ?thesis
  proof (cases "scDraining c2")
    case True
    let ?c3 = "(drainWriteChan c2)\<lparr>scDraining := False, scRecycled := scRecycled c2 \<or> True\<rparr>"
    have "sconn_run ((map Cancelled (scInside c) @ es2) @ [CloseDrain True]) c = Some ?c3"
      using run True c1(2) c2(5) by (subst sconn_run_append) (simp add: close_drain_def)
    moreover have "held ?c3 = {#}" using c1(2) c2(3,5) by (simp add: held_def drainWriteChan_def)
    moreover have "sent ((map Cancelled (scInside c) @ es2) @ [CloseDrain True]) = {#}" using sent2 by (simp add: sent_def)
    ultimately show ?thesis by blast
  next
    case False
    then have "scQueue c2 = []" using ok2 assms(2) c1(3) c2(4) by (simp add: sconn_ok_def)
    then have "held c2 = {#}" using c1(2) c2(3,5) by (simp add: held_def)
    then show ?thesis using run sent2 by blast
  qed
qed

section \<open>The server\<close>

text \<open>Connections are numbers; \<open>ssTable\<close> is the table of the server, \<open>ssOpened\<close> the connections that are open,
  \<open>ssClosing\<close> those that \<open>Stop\<close> took out of the table and still has to close.\<close>

record link_server =
  ssClosed :: bool
  ssTable :: "nat list"
  ssOpened :: "nat set"
  ssClosing :: "nat list"

definition allocate :: "nat \<Rightarrow> link_server \<Rightarrow> link_server" where
  "allocate raw s = (if ssClosed s then s else s\<lparr>ssTable := raw # ssTable s, ssOpened := insert raw (ssOpened s)\<rparr>)"

definition recycle :: "nat \<Rightarrow> link_server \<Rightarrow> link_server" where
  "recycle raw s = s\<lparr>ssTable := removeAll raw (ssTable s)\<rparr>"

text \<open>A connection that closes by itself.\<close>

definition conn_close :: "nat \<Rightarrow> link_server \<Rightarrow> link_server" where
  "conn_close raw s = (if raw \<in> ssOpened s then recycle raw (s\<lparr>ssOpened := ssOpened s - {raw}\<rparr>) else s)"

definition Stop_begin :: "link_server \<Rightarrow> link_server" where
  "Stop_begin s = (if ssClosed s then s else s\<lparr>ssClosed := True, ssClosing := ssTable s, ssTable := []\<rparr>)"

definition Stop_close :: "link_server \<Rightarrow> link_server" where
  "Stop_close s = (case ssClosing s of [] \<Rightarrow> s | raw # raws \<Rightarrow> s\<lparr>ssClosing := raws, ssOpened := ssOpened s - {raw}\<rparr>)"

inductive server_step :: "link_server \<Rightarrow> link_server \<Rightarrow> bool" where
  accept: "server_step s (allocate raw s)"
| conn_closes: "server_step s (conn_close raw s)"
| stop_begin: "server_step s (Stop_begin s)"
| stop_close: "server_step s (Stop_close s)"

definition new_link_server :: link_server where
  "new_link_server = \<lparr>ssClosed = False, ssTable = [], ssOpened = {}, ssClosing = []\<rparr>"

text \<open>The pause of the accept loop after a temporary error, in milliseconds.\<close>

definition accept_delay :: "int \<Rightarrow> int" where
  "accept_delay d = (let d = (if d = 0 then 5 else d * 2) in if d > 1000 then 1000 else d)"

lemma server_reach: "server_step\<^sup>*\<^sup>* new_link_server s \<Longrightarrow> ssOpened s \<subseteq> set (ssTable s) \<union> set (ssClosing s) \<and> (ssClosed s \<longrightarrow> ssTable s = []) \<and> (\<not> ssClosed s \<longrightarrow> ssClosing s = [])"
proof (induction rule: rtranclp_induct)
  case (step s s')
  from step(2,3) show ?case
    by cases (auto simp: allocate_def conn_close_def recycle_def Stop_begin_def Stop_close_def split: list.splits)
qed (simp add: new_link_server_def)

lemma accept_delay_bounds: "d = 0 \<or> 5 \<le> d \<Longrightarrow> 5 \<le> accept_delay d \<and> accept_delay d \<le> 1000"
  by (auto simp: accept_delay_def Let_def)

section \<open>Properties\<close>

text \<open>C10. No buffer is lost or released twice.  However the senders, the reader, the writer and the closing of a server
  connection interleave, every buffer handed to \<open>Send\<close> is either held in one place or has been released exactly
  once, and the buffers on the wire are the first ones of the queue in order; and once the connection is closed, the
  goroutines can always finish, after which every buffer handed over has been released exactly once.\<close>

theorem server_conn_buffers:
  assumes "sconn_run es (new_sconn now) = Some c"
  shows "held c + scReleased c = sent es \<and> prefix (scWire c) (scLog c) \<and>
    (\<not> scOpen c \<longrightarrow> (\<exists>es' c'. sconn_run es' c = Some c' \<and> sent es' = {#} \<and> held c' = {#} \<and> scReleased c' = sent es))"
proof -
  have acc: "held c + scReleased c = sent es" using run_account [OF assms] by (simp add: held_def new_sconn_def)
  have ok: "sconn_ok c" by (rule run_ok [OF new_sconn_ok assms])
  have "\<exists>es' c'. sconn_run es' c = Some c' \<and> sent es' = {#} \<and> held c' = {#} \<and> scReleased c' = sent es" if cl: "\<not> scOpen c"
  proof -
    obtain es' c' where "sconn_run es' c = Some c'" "sent es' = {#}" "held c' = {#}" using finish_closing [OF ok cl] by blast
    then show ?thesis using run_account [of es' c c'] acc by auto
  qed
  then show ?thesis using acc ok_out(2) [OF ok] by blast
qed

theorem server_conn_buffers_witness:
  "\<exists>c c' es'. sconn_run [Enter 1, Enter 2, Queued 2, WriteTake, CloseBegin, WriteEnd False, Queued 1] (new_sconn 0) = Some c \<and>
     sconn_run es' c = Some c' \<and> scReleased c' = {#1, 2#}"
proof -
  let ?es = "[Enter 1, Enter 2, Queued 2, WriteTake, CloseBegin, WriteEnd False, Queued 1]"
  obtain c where c: "sconn_run ?es (new_sconn 0) = Some c" "\<not> scOpen c"
    by (simp add: new_sconn_def sconn_step_defs)
  have "sent ?es = {#1, 2#}" by simp
  then show ?thesis using server_conn_buffers [OF c(1)] c by metis
qed

text \<open>Stopping a link server closes its connections.  In every state reached by accepting, closing and stopping, once
  \<open>Stop\<close> has worked off the connections it found, no connection is open, whatever was accepted before or after.\<close>

theorem link_server_stops:
  assumes "server_step\<^sup>*\<^sup>* new_link_server s" "ssClosed s" "ssClosing s = []"
  shows "ssOpened s = {} \<and> ssOpened (allocate raw s) = {}"
  using server_reach [OF assms(1)] assms(2,3) by (auto simp: allocate_def)

theorem link_server_stops_witness:
  "ssOpened (Stop_close (Stop_begin (allocate 3 new_link_server))) = {}"
proof -
  let ?s = "Stop_close (Stop_begin (allocate 3 new_link_server))"
  have "server_step\<^sup>*\<^sup>* new_link_server ?s"
    by (rule rtranclp.rtrancl_into_rtrancl [OF rtranclp.rtrancl_into_rtrancl [OF r_into_rtranclp [of server_step, OF server_step.accept]
          server_step.stop_begin] server_step.stop_close])
  moreover have "ssClosed ?s" "ssClosing ?s = []" by (simp_all add: Stop_close_def Stop_begin_def allocate_def new_link_server_def)
  ultimately show ?thesis using link_server_stops by blast
qed

end
