(* ===== verification/Decimals.thy ===== *)
theory Decimals
  imports Version
begin

text \<open>Decimal numerals, as \<open>fmt.Sprintf("%d")\<close> and \<open>strconv.FormatInt\<close> write them.\<close>

fun fmt_nat :: "nat \<Rightarrow> string" where
  "fmt_nat n = (if n < 10 then [char_of (48 + n)] else fmt_nat (n div 10) @ [char_of (48 + n mod 10)])"

declare fmt_nat.simps [simp del]

text \<open>\<open>%d\<close>.\<close>

definition fmt_int :: "int \<Rightarrow> string" where
  "fmt_int i = (if i < 0 then CHR ''-'' # fmt_nat (nat (- i)) else fmt_nat (nat i))"

lemma digits_value_snoc [simp]: "digits_value (ds @ [d]) = digits_value ds * 10 + (of_char d - 48)"
  by (simp add: digits_value_def)

lemma fmt_nat_value: "digits_value (fmt_nat n) = int n"
proof (induction n rule: fmt_nat.induct)
  case (1 n)
  have d: "(of_char (char_of (48 + k :: nat) :: char) :: int) - 48 = int k" if "k < 10" for k
  proof -
    have "(of_char (char_of (48 + k :: nat) :: char) :: int) = int (of_char (char_of (48 + k :: nat) :: char))" by (rule of_nat_of_char [symmetric])
    then show ?thesis using that by (simp only: of_char_of) simp
  qed
  show ?case
  proof (cases "n < 10")
    case True
    then show ?thesis using d [of n] by (simp add: fmt_nat.simps [of n] digits_value_def)
  next
    case False
    have "digits_value (fmt_nat n) = int (n div 10) * 10 + int (n mod 10)"
      using 1 [OF False] d [of "n mod 10"] False by (simp add: fmt_nat.simps [of n])
    also have "\<dots> = int n" by (metis add.commute mult.commute mod_mult_div_eq of_nat_add of_nat_mult of_nat_numeral)
    finally show ?thesis .
  qed
qed

lemma fmt_nat_digit: "\<exists>d ds. fmt_nat n = d # ds \<and> d \<noteq> CHR ''-''"
proof (induction n rule: fmt_nat.induct)
  case (1 n)
  have "char_of (48 + k :: nat) \<noteq> CHR ''-''" if "k < 10" for k
  proof
    assume "char_of (48 + k :: nat) = CHR ''-''"
    then have "of_char (char_of (48 + k :: nat) :: char) = (of_char (CHR ''-'') :: nat)" by simp
    then show False using that by (simp add: of_char_of)
  qed
  then show ?case using 1 by (cases "n < 10") (auto simp: fmt_nat.simps [of n])
qed

lemma fmt_nat_inj: "fmt_nat m = fmt_nat n \<longleftrightarrow> m = n"
  by (metis fmt_nat_value of_nat_eq_iff)

lemma fmt_int_inj: "fmt_int i = fmt_int j \<longleftrightarrow> i = j"
  using fmt_nat_digit [of "nat i"] fmt_nat_digit [of "nat j"]
  by (auto simp: fmt_int_def fmt_nat_inj split: if_splits)

end
