(* ===== verification/RedisLocator.thy ===== *)
theory RedisLocator
  imports NodeLink Decimals "HOL-Library.List_Lexorder" "HOL-Library.Char_ord"
begin

text \<open>
  \<open>locate/redis\<close>: where users are, kept in redis.  The redis server is an argument: its commands on a store, which the
  Lua scripts of \<open>script.go\<close> use too, and the faults of the connection.  The JSON codec (and \<open>cjson\<close> inside
  redis) is an argument as well.  Calls that \<open>singleflight\<close> merges return what one of them returned.
\<close>

section \<open>Keys\<close>

definition userGateKey :: "string \<Rightarrow> int64 \<Rightarrow> string" where
  "userGateKey prefix uid = prefix @ '':locate:user:'' @ fmt_int (sint uid) @ '':gate''"

definition userNodeKey :: "string \<Rightarrow> int64 \<Rightarrow> string" where
  "userNodeKey prefix uid = prefix @ '':locate:user:'' @ fmt_int (sint uid) @ '':node''"

definition clusterEventKey :: "string \<Rightarrow> string \<Rightarrow> string" where
  "clusterEventKey prefix kind = prefix @ '':locate:cluster:'' @ kind @ '':event''"

section \<open>Redis\<close>

text \<open>\<open>rcFault\<close> is the error of the next command that fails, and whether the server carried it out nevertheless;
  \<open>rcLog\<close> are the messages published so far.\<close>

record 'r redis =
  rcGET :: "string \<Rightarrow> 'r \<Rightarrow> string option"
  rcSET :: "string \<Rightarrow> string \<Rightarrow> 'r \<Rightarrow> 'r"
  rcDEL :: "string \<Rightarrow> 'r \<Rightarrow> 'r"
  rcHGET :: "string \<Rightarrow> string \<Rightarrow> 'r \<Rightarrow> string option"
  rcHGETALL :: "string \<Rightarrow> 'r \<Rightarrow> (string \<times> string) list"
  rcHSET :: "string \<Rightarrow> string \<Rightarrow> string \<Rightarrow> 'r \<Rightarrow> 'r"
  rcHDEL :: "string \<Rightarrow> string \<Rightarrow> 'r \<Rightarrow> 'r"
  rcPUBLISH :: "string \<Rightarrow> string \<Rightarrow> 'r \<Rightarrow> 'r"
  rcLog :: "'r \<Rightarrow> (string \<times> string) list"
  rcFault :: "'r \<Rightarrow> (bool \<times> goerr) option"

text \<open>One request of the client.\<close>

definition redis_do :: "'r redis \<Rightarrow> ('r \<Rightarrow> 'a \<times> 'r) \<Rightarrow> 'r \<Rightarrow> 'a go \<times> 'r" where
  "redis_do rd f r =
     (case rcFault rd r of
        None \<Rightarrow> (let (v, r) = f r in (Ok v, r))
      | Some (applied, e) \<Rightarrow> (Err e, if applied then snd (f r) else r))"

text \<open>\<open>locate.Event\<close>; the types are 1 to 4.\<close>

record locate_evt =
  lvUID :: int64
  lvType :: int
  lvInsID :: string
  lvInsKind :: string
  lvInsName :: string
  lvMetadata :: "(string \<times> string) list"

abbreviation (input) ev_BindGate :: int where "ev_BindGate \<equiv> 1"

abbreviation (input) ev_BindNode :: int where "ev_BindNode \<equiv> 2"

abbreviation (input) ev_UnbindGate :: int where "ev_UnbindGate \<equiv> 3"

abbreviation (input) ev_UnbindNode :: int where "ev_UnbindNode \<equiv> 4"

record 'r locator =
  loErr :: "goerr option"
  loPrefix :: string
  loRedis :: "'r redis"
  loMarshal :: "NodeBinding \<Rightarrow> string go"
  loUnmarshal :: "string \<Rightarrow> NodeBinding go"
  loCjson :: "string \<Rightarrow> string option"
  loMarshalEvent :: "locate_evt \<Rightarrow> string go"
  loUnmarshalEvent :: "string \<Rightarrow> locate_evt go"

section \<open>The scripts\<close>

text \<open>A missing key is \<open>false\<close> in Lua, which differs from every string.\<close>

definition unbindGateScript :: "'r redis \<Rightarrow> string \<Rightarrow> string \<Rightarrow> 'r \<Rightarrow> string list \<times> 'r" where
  "unbindGateScript rd key gid r =
     (case rcGET rd key r of
        None \<Rightarrow> ([''NO''], r)
      | Some val \<Rightarrow> if val = '''' \<or> val \<noteq> gid then ([''NO''], r) else ([''OK''], rcDEL rd key r))"

definition script_nid :: "(string \<Rightarrow> string option) \<Rightarrow> string \<Rightarrow> string" where
  "script_nid cjson val = (if take 1 val = ''{'' then (case cjson val of Some nid \<Rightarrow> nid | None \<Rightarrow> val) else val)"

definition unbindNodeScript :: "'r redis \<Rightarrow> (string \<Rightarrow> string option) \<Rightarrow> string \<Rightarrow> string \<Rightarrow> string \<Rightarrow> 'r \<Rightarrow> string list \<times> 'r" where
  "unbindNodeScript rd cjson key name nid r =
     (case rcHGET rd key name r of
        None \<Rightarrow> ([''NO''], r)
      | Some val \<Rightarrow> if script_nid cjson val \<noteq> nid then ([''NO''], r) else ([''OK''], rcHDEL rd key name r))"

section \<open>The locator\<close>

definition unmarshalNodeBinding :: "'r locator \<Rightarrow> string \<Rightarrow> NodeBinding go" where
  "unmarshalNodeBinding lo data =
     (if data = '''' then Ok \<lparr>nbNID = '''', nbMetadata = []\<rparr>
      else if take 1 data \<noteq> ''{'' then Ok \<lparr>nbNID = data, nbMetadata = []\<rparr>
      else loUnmarshal lo data)"

definition loc_broadcast ::
    "'r locator \<Rightarrow> int \<Rightarrow> int64 \<Rightarrow> string \<Rightarrow> (string \<times> string) list \<Rightarrow> string list \<Rightarrow> 'r \<Rightarrow> goerr option \<times> 'r" where
  "loc_broadcast lo typ uid insID metadata insName r =
     (let kind = (if typ = ev_BindGate \<or> typ = ev_UnbindGate then ''gate''
                  else if typ = ev_BindNode \<or> typ = ev_UnbindNode then ''node'' else '''');
          evt = \<lparr>lvUID = uid, lvType = typ, lvInsID = insID, lvInsKind = kind,
                 lvInsName = (if insName \<noteq> [] then hd insName else ''''), lvMetadata = metadata\<rparr>
      in case loMarshalEvent lo evt of
           Ok msg \<Rightarrow>
             (case redis_do (loRedis lo) (\<lambda>r. ((), rcPUBLISH (loRedis lo) (clusterEventKey (loPrefix lo) kind) msg r)) r of
                (Ok _, r) \<Rightarrow> (None, r) | (Err e, r) \<Rightarrow> (Some e, r) | (Panic, r) \<Rightarrow> (None, r))
         | Err e \<Rightarrow> (Some e, r)
         | Panic \<Rightarrow> (None, r))"

definition loc_LocateGate :: "'r locator \<Rightarrow> int64 \<Rightarrow> 'r \<Rightarrow> string go \<times> 'r" where
  "loc_LocateGate lo uid r =
     (case loErr lo of
        Some e \<Rightarrow> (Err e, r)
      | None \<Rightarrow>
          let (res, r) = redis_do (loRedis lo) (\<lambda>r. (rcGET (loRedis lo) (userGateKey (loPrefix lo) uid) r, r)) r
          in (go_map (\<lambda>v. case v of None \<Rightarrow> '''' | Some gid \<Rightarrow> gid) res, r))"

definition loc_LocateNodeBinding :: "'r locator \<Rightarrow> int64 \<Rightarrow> string \<Rightarrow> 'r \<Rightarrow> NodeBinding go \<times> 'r" where
  "loc_LocateNodeBinding lo uid name r =
     (case loErr lo of
        Some e \<Rightarrow> (Err e, r)
      | None \<Rightarrow>
          let (res, r) = redis_do (loRedis lo) (\<lambda>r. (rcHGET (loRedis lo) (userNodeKey (loPrefix lo) uid) name r, r)) r
          in (go_bind res (\<lambda>v. unmarshalNodeBinding lo (case v of None \<Rightarrow> '''' | Some val \<Rightarrow> val)), r))"

definition loc_LocateNode :: "'r locator \<Rightarrow> int64 \<Rightarrow> string \<Rightarrow> 'r \<Rightarrow> string go \<times> 'r" where
  "loc_LocateNode lo uid name r = (let (res, r) = loc_LocateNodeBinding lo uid name r in (go_map nbNID res, r))"

definition loc_LocateNodes :: "'r locator \<Rightarrow> int64 \<Rightarrow> 'r \<Rightarrow> (string \<times> string) list go \<times> 'r" where
  "loc_LocateNodes lo uid r =
     (case loErr lo of
        Some e \<Rightarrow> (Err e, r)
      | None \<Rightarrow>
          let (res, r) = redis_do (loRedis lo) (\<lambda>r. (rcHGETALL (loRedis lo) (userNodeKey (loPrefix lo) uid) r, r)) r
          in (go_bind res (go_mapM (\<lambda>(name, enc). go_map (\<lambda>b. (name, nbNID b)) (unmarshalNodeBinding lo enc))), r))"

text \<open>An error of the broadcast is logged.\<close>

definition loc_BindGate :: "'r locator \<Rightarrow> int64 \<Rightarrow> string \<Rightarrow> 'r \<Rightarrow> goerr option \<times> 'r" where
  "loc_BindGate lo uid gid r =
     (case loErr lo of
        Some e \<Rightarrow> (Some e, r)
      | None \<Rightarrow>
          (case redis_do (loRedis lo) (\<lambda>r. ((), rcSET (loRedis lo) (userGateKey (loPrefix lo) uid) gid r)) r of
             (Err e, r) \<Rightarrow> (Some e, r)
           | (_, r) \<Rightarrow> (None, snd (loc_broadcast lo ev_BindGate uid gid [] [] r))))"

definition loc_BindNode :: "'r locator \<Rightarrow> int64 \<Rightarrow> string \<Rightarrow> NodeBinding \<Rightarrow> 'r \<Rightarrow> goerr option \<times> 'r" where
  "loc_BindNode lo uid name binding r =
     (case loErr lo of
        Some e \<Rightarrow> (Some e, r)
      | None \<Rightarrow>
          if nbNID binding = '''' then (Some ErrInvalidNID, r)
          else case loMarshal lo binding of
                 Ok enc \<Rightarrow>
                   (case redis_do (loRedis lo) (\<lambda>r. ((), rcHSET (loRedis lo) (userNodeKey (loPrefix lo) uid) name enc r)) r of
                      (Err e, r) \<Rightarrow> (Some e, r)
                    | (_, r) \<Rightarrow> (None, snd (loc_broadcast lo ev_BindNode uid (nbNID binding) (nbMetadata binding) [name] r)))
               | Err e \<Rightarrow> (Some e, r)
               | Panic \<Rightarrow> (None, r))"

definition loc_UnbindGate :: "'r locator \<Rightarrow> int64 \<Rightarrow> string \<Rightarrow> 'r \<Rightarrow> goerr option \<times> 'r" where
  "loc_UnbindGate lo uid gid r =
     (case loErr lo of
        Some e \<Rightarrow> (Some e, r)
      | None \<Rightarrow>
          (case redis_do (loRedis lo) (unbindGateScript (loRedis lo) (userGateKey (loPrefix lo) uid) gid) r of
             (Err e, r) \<Rightarrow> (Some e, r)
           | (Ok rst, r) \<Rightarrow>
               (None, if hd rst = ''OK'' then snd (loc_broadcast lo ev_UnbindGate uid gid [] [] r) else r)
           | (Panic, r) \<Rightarrow> (None, r)))"

definition loc_UnbindNode :: "'r locator \<Rightarrow> int64 \<Rightarrow> string \<Rightarrow> string \<Rightarrow> 'r \<Rightarrow> goerr option \<times> 'r" where
  "loc_UnbindNode lo uid name nid r =
     (case loErr lo of
        Some e \<Rightarrow> (Some e, r)
      | None \<Rightarrow>
          (case redis_do (loRedis lo) (unbindNodeScript (loRedis lo) (loCjson lo) (userNodeKey (loPrefix lo) uid) name nid) r of
             (Err e, r) \<Rightarrow> (Some e, r)
           | (Ok rst, r) \<Rightarrow>
               (None, if hd rst = ''OK'' then snd (loc_broadcast lo ev_UnbindNode uid nid [] [name] r) else r)
           | (Panic, r) \<Rightarrow> (None, r)))"

section \<open>Watchers\<close>

text \<open>What a linker takes from an event; the payload that does not decode is logged and skipped.\<close>

definition gate_event_of :: "locate_evt \<Rightarrow> locate_event" where
  "gate_event_of e =
     (if lvType e = ev_BindGate then GateBound (lvUID e) (lvInsID e)
      else if lvType e = ev_UnbindGate then GateUnbound (lvUID e) (lvInsID e) else OtherEvent)"

definition node_event_of :: "locate_evt \<Rightarrow> node_event" where
  "node_event_of e =
     (if lvType e = ev_BindNode then NodeBound (lvUID e) (lvInsName e) (lvInsID e) (lvMetadata e)
      else if lvType e = ev_UnbindNode then NodeUnbound (lvUID e) (lvInsName e) (lvInsID e) else OtherNodeEvent)"

definition receive_events :: "'r locator \<Rightarrow> string \<Rightarrow> (string \<times> string) list \<Rightarrow> locate_evt list" where
  "receive_events lo kind msgs =
     concat (map (\<lambda>(ch, msg). if ch = clusterEventKey (loPrefix lo) kind
        then (case loUnmarshalEvent lo msg of Ok e \<Rightarrow> [e] | _ \<Rightarrow> []) else []) msgs)"

text \<open>A manager of watchers: each watcher has its state (whether \<open>Next\<close> was called), a channel for 16 lists of events,
  and whether that channel is closed.\<close>

record 'e watch_chan =
  wcActive :: bool
  wcChan :: "'e list list"
  wcClosed :: bool

abbreviation (input) watch_cap :: nat where "watch_cap \<equiv> 16"

text \<open>\<open>notify\<close>: \<open>Ok None\<close> when the send waits.\<close>

definition watch_notify :: "'e list \<Rightarrow> 'e watch_chan \<Rightarrow> 'e watch_chan option go" where
  "watch_notify events w =
     (if \<not> wcActive w then Ok (Some w)
      else if wcClosed w then Panic
      else if length (wcChan w) < watch_cap then Ok (Some (w\<lparr>wcChan := wcChan w @ [events]\<rparr>)) else Ok None)"

definition watch_fork :: "(nat \<times> 'e watch_chan) list \<Rightarrow> nat \<Rightarrow> (nat \<times> 'e watch_chan) list \<times> nat" where
  "watch_fork ws idx = (AList.update (Suc idx) \<lparr>wcActive = False, wcChan = [], wcClosed = False\<rparr> ws, Suc idx)"

text \<open>\<open>Next\<close> with an event at hand.\<close>

definition watch_Next :: "'e watch_chan \<Rightarrow> 'e list option \<times> 'e watch_chan" where
  "watch_Next w =
     (let w = w\<lparr>wcActive := True\<rparr>
      in case wcChan w of [] \<Rightarrow> (None, w) | es # ess \<Rightarrow> (Some es, w\<lparr>wcChan := ess\<rparr>))"

text \<open>The first part of \<open>Stop\<close>, before the manager forgets the watcher.\<close>

definition watch_Stop :: "'e watch_chan \<Rightarrow> 'e watch_chan" where
  "watch_Stop w = w\<lparr>wcClosed := True\<rparr>"

definition watch_recycle :: "nat \<Rightarrow> (nat \<times> 'e watch_chan) list \<Rightarrow> bool \<times> (nat \<times> 'e watch_chan) list" where
  "watch_recycle idx ws = (let ws = AList.delete idx ws in (ws = [], ws))"

text \<open>\<open>broadcast\<close> of a manager, over its watchers in the order of the list; \<open>Ok None\<close> when it waits for a watcher.\<close>

fun watch_broadcast :: "'e list \<Rightarrow> (nat \<times> 'e watch_chan) list \<Rightarrow> (nat \<times> 'e watch_chan) list option go" where
  "watch_broadcast events [] = Ok (Some [])"
| "watch_broadcast events ((i, w) # ws) =
     (case watch_notify events w of
        Ok (Some w') \<Rightarrow> go_map (map_option (Cons (i, w'))) (watch_broadcast events ws)
      | Ok None \<Rightarrow> Ok None
      | Err e \<Rightarrow> Err e
      | Panic \<Rightarrow> Panic)"

text \<open>\<open>Watch\<close>: the managers by their key, each with its last index and its watchers; \<open>subscribe\<close> is the answer of redis.
  It returns the key and the index of the new watcher.\<close>

definition toUniqueKey :: "string list \<Rightarrow> string" where
  "toUniqueKey kinds = concat (case sort kinds of [] \<Rightarrow> [] | k # ks \<Rightarrow> k # map (Cons (CHR ''&'')) ks)"

definition loc_Watch ::
    "'r locator \<Rightarrow> goerr option \<Rightarrow> string list \<Rightarrow> (string \<times> nat \<times> (nat \<times> 'e watch_chan) list) list
     \<Rightarrow> (string \<times> nat) go \<times> (string \<times> nat \<times> (nat \<times> 'e watch_chan) list) list" where
  "loc_Watch lo subscribe kinds ms =
     (case loErr lo of
        Some e \<Rightarrow> (Err e, ms)
      | None \<Rightarrow>
          let key = toUniqueKey kinds;
              forked = (\<lambda>idx ws. let (ws, idx) = watch_fork ws idx in (Ok (key, idx), AList.update key (idx, ws) ms))
          in case map_of ms key of
               Some (idx, ws) \<Rightarrow> forked idx ws
             | None \<Rightarrow> (case subscribe of Some e \<Rightarrow> (Err e, ms) | None \<Rightarrow> forked 0 []))"

text \<open>With room in every channel a broadcast reaches every watcher that has called \<open>Next\<close>.\<close>

lemma broadcast_reaches:
  assumes "\<forall>(i, w) \<in> set ws. \<not> wcClosed w \<and> length (wcChan w) < watch_cap"
  shows "watch_broadcast events ws = Ok (Some (map (\<lambda>(i, w). (i, if wcActive w then w\<lparr>wcChan := wcChan w @ [events]\<rparr> else w)) ws))"
  using assms by (induction events ws rule: watch_broadcast.induct) (auto simp: watch_notify_def)

text \<open>Watchers of the same kinds, in whatever order, share a manager.\<close>

lemma watch_order_irrelevant: "mset kinds = mset kinds' \<Longrightarrow> loc_Watch lo sub kinds ms = loc_Watch lo sub kinds' ms"
proof -
  assume "mset kinds = mset kinds'"
  then have "sort kinds = sort kinds'" by (metis mset_sort properties_for_sort sorted_sort)
  then have "toUniqueKey kinds = toUniqueKey kinds'" by (simp only: toUniqueKey_def)
  then show ?thesis by (simp only: loc_Watch_def)
qed

text \<open>A broadcast that meets a watcher between the two parts of its \<open>Stop\<close> panics.\<close>

lemma stop_races_broadcast: "wcActive w \<Longrightarrow> watch_notify events (watch_Stop w) = Panic"
  by (simp add: watch_notify_def watch_Stop_def)

section \<open>Distinct keys\<close>

lemma key_inj [simp]:
  "userGateKey p uid = userGateKey p uid' \<longleftrightarrow> uid = uid'" "userNodeKey p uid = userNodeKey p uid' \<longleftrightarrow> uid = uid'"
  "userGateKey p uid \<noteq> userNodeKey p uid'" "userNodeKey p uid \<noteq> userGateKey p uid'"
proof -
  have "p @ '':locate:user:'' @ fmt_int (sint uid) @ '':gate'' \<noteq> p @ '':locate:user:'' @ fmt_int (sint uid') @ '':node''" for uid uid' :: int64
    using append_eq_append_conv [of "'':gate''" "'':node''" "p @ '':locate:user:'' @ fmt_int (sint uid)" "p @ '':locate:user:'' @ fmt_int (sint uid')"] by simp
  then show "userGateKey p uid \<noteq> userNodeKey p uid'" "userNodeKey p uid \<noteq> userGateKey p uid'"
    unfolding userGateKey_def userNodeKey_def by metis+
qed (auto simp: userGateKey_def userNodeKey_def fmt_int_inj signed_word_eqI)

lemma channel_inj [simp]: "clusterEventKey p ''gate'' \<noteq> clusterEventKey p ''node''" "clusterEventKey p ''node'' \<noteq> clusterEventKey p ''gate''"
  by (simp_all add: clusterEventKey_def)

section \<open>What redis and the codec promise\<close>

definition redis_laws :: "'r redis \<Rightarrow> bool" where
  "redis_laws rd \<longleftrightarrow>
     (\<forall>k k' v r. rcGET rd k' (rcSET rd k v r) = (if k' = k then Some v else rcGET rd k' r)) \<and>
     (\<forall>k k' f v r. k' \<noteq> k \<longrightarrow> rcHGET rd k' f (rcSET rd k v r) = rcHGET rd k' f r) \<and>
     (\<forall>k k' r. rcGET rd k' (rcDEL rd k r) = (if k' = k then None else rcGET rd k' r)) \<and>
     (\<forall>k k' f r. k' \<noteq> k \<longrightarrow> rcHGET rd k' f (rcDEL rd k r) = rcHGET rd k' f r) \<and>
     (\<forall>k k' f f' v r. rcHGET rd k' f' (rcHSET rd k f v r) = (if k' = k \<and> f' = f then Some v else rcHGET rd k' f' r)) \<and>
     (\<forall>k k' f v r. k' \<noteq> k \<longrightarrow> rcGET rd k' (rcHSET rd k f v r) = rcGET rd k' r) \<and>
     (\<forall>k k' f f' r. rcHGET rd k' f' (rcHDEL rd k f r) = (if k' = k \<and> f' = f then None else rcHGET rd k' f' r)) \<and>
     (\<forall>k k' f r. k' \<noteq> k \<longrightarrow> rcGET rd k' (rcHDEL rd k f r) = rcGET rd k' r) \<and>
     (\<forall>k r. distinct (map fst (rcHGETALL rd k r)) \<and> map_of (rcHGETALL rd k r) = (\<lambda>f. rcHGET rd k f r)) \<and>
     (\<forall>k f c m r. rcGET rd k (rcPUBLISH rd c m r) = rcGET rd k r \<and> rcHGET rd k f (rcPUBLISH rd c m r) = rcHGET rd k f r) \<and>
     (\<forall>c m r. rcLog rd (rcPUBLISH rd c m r) = rcLog rd r @ [(c, m)]) \<and>
     (\<forall>k f v r. rcLog rd (rcSET rd k v r) = rcLog rd r \<and> rcLog rd (rcDEL rd k r) = rcLog rd r \<and>
        rcLog rd (rcHSET rd k f v r) = rcLog rd r \<and> rcLog rd (rcHDEL rd k f r) = rcLog rd r)"

text \<open>Values that JSON keeps: ASCII strings (other bytes may be replaced) and a metadata map without repeated keys.\<close>

definition plain :: "string \<Rightarrow> bool" where
  "plain s \<longleftrightarrow> list_all (\<lambda>c. of_char c < (128 :: nat)) s"

definition plain_map :: "(string \<times> string) list \<Rightarrow> bool" where
  "plain_map md \<longleftrightarrow> distinct (map fst md) \<and> list_all (\<lambda>(k, v). plain k \<and> plain v) md"

definition plain_binding :: "NodeBinding \<Rightarrow> bool" where
  "plain_binding b \<longleftrightarrow> plain (nbNID b) \<and> plain_map (nbMetadata b)"

definition plain_evt :: "locate_evt \<Rightarrow> bool" where
  "plain_evt e \<longleftrightarrow> plain (lvInsID e) \<and> plain (lvInsKind e) \<and> plain (lvInsName e) \<and> plain_map (lvMetadata e)"

definition locator_laws :: "'r locator \<Rightarrow> bool" where
  "locator_laws lo \<longleftrightarrow> redis_laws (loRedis lo) \<and> loErr lo = None \<and> (\<forall>r. rcFault (loRedis lo) r = None) \<and>
     (\<forall>b. plain_binding b \<longrightarrow> (\<exists>s. loMarshal lo b = Ok s \<and> take 1 s = ''{'' \<and> loUnmarshal lo s = Ok b \<and> loCjson lo s = Some (nbNID b))) \<and>
     (\<forall>e. plain_evt e \<longrightarrow> (\<exists>s. loMarshalEvent lo e = Ok s \<and> loUnmarshalEvent lo s = Ok e))"

section \<open>The abstract locator\<close>

definition at_gate :: "'r locator \<Rightarrow> 'r \<Rightarrow> int64 \<Rightarrow> string" where
  "at_gate lo r uid = (case rcGET (loRedis lo) (userGateKey (loPrefix lo) uid) r of None \<Rightarrow> '''' | Some gid \<Rightarrow> gid)"

definition at_node :: "'r locator \<Rightarrow> 'r \<Rightarrow> int64 \<Rightarrow> string \<Rightarrow> NodeBinding option" where
  "at_node lo r uid name = Option.bind (rcHGET (loRedis lo) (userNodeKey (loPrefix lo) uid) name r)
     (\<lambda>v. case unmarshalNodeBinding lo v of Ok b \<Rightarrow> Some b | _ \<Rightarrow> None)"

text \<open>The stored bindings can be read, and the script reads the same node.\<close>

definition stored_ok :: "'r locator \<Rightarrow> 'r \<Rightarrow> bool" where
  "stored_ok lo r \<longleftrightarrow> (\<forall>uid name v. rcHGET (loRedis lo) (userNodeKey (loPrefix lo) uid) name r = Some v \<longrightarrow>
     (\<exists>b. unmarshalNodeBinding lo v = Ok b \<and> script_nid (loCjson lo) v = nbNID b))"

datatype loc_op = OBindGate int64 string | OUnbindGate int64 string | OBindNode int64 string NodeBinding | OUnbindNode int64 string string

fun op_plain :: "loc_op \<Rightarrow> bool" where
  "op_plain (OBindGate uid gid) = plain gid"
| "op_plain (OUnbindGate uid gid) = plain gid"
| "op_plain (OBindNode uid name b) = (plain name \<and> plain_binding b)"
| "op_plain (OUnbindNode uid name nid) = (plain name \<and> plain nid)"

fun loc_exec :: "'r locator \<Rightarrow> loc_op \<Rightarrow> 'r \<Rightarrow> goerr option \<times> 'r" where
  "loc_exec lo (OBindGate uid gid) r = loc_BindGate lo uid gid r"
| "loc_exec lo (OUnbindGate uid gid) r = loc_UnbindGate lo uid gid r"
| "loc_exec lo (OBindNode uid name b) r = loc_BindNode lo uid name b r"
| "loc_exec lo (OUnbindNode uid name nid) r = loc_UnbindNode lo uid name nid r"

type_synonym loc_maps = "(int64 \<Rightarrow> string) \<times> (int64 \<Rightarrow> string \<Rightarrow> NodeBinding option)"

fun loc_spec :: "loc_op \<Rightarrow> loc_maps \<Rightarrow> loc_maps" where
  "loc_spec (OBindGate uid gid) (G, N) = (G(uid := gid), N)"
| "loc_spec (OUnbindGate uid gid) (G, N) = (if gid \<noteq> '''' \<and> G uid = gid then G(uid := '''') else G, N)"
| "loc_spec (OBindNode uid name b) (G, N) = (G, if nbNID b = '''' then N else N(uid := (N uid)(name := Some b)))"
| "loc_spec (OUnbindNode uid name nid) (G, N) =
     (G, case N uid name of Some b \<Rightarrow> if nbNID b = nid then N(uid := (N uid)(name := None)) else N | None \<Rightarrow> N)"

definition loc_abs :: "'r locator \<Rightarrow> 'r \<Rightarrow> loc_maps" where
  "loc_abs lo r = (at_gate lo r, at_node lo r)"

definition loc_evt :: "int64 \<Rightarrow> int \<Rightarrow> string \<Rightarrow> string \<Rightarrow> string \<Rightarrow> (string \<times> string) list \<Rightarrow> locate_evt" where
  "loc_evt uid typ insID kind name md =
     \<lparr>lvUID = uid, lvType = typ, lvInsID = insID, lvInsKind = kind, lvInsName = name, lvMetadata = md\<rparr>"

text \<open>The events of an operation.\<close>

fun op_events :: "loc_op \<Rightarrow> loc_maps \<Rightarrow> locate_evt list" where
  "op_events (OBindGate uid gid) (G, N) = [loc_evt uid ev_BindGate gid ''gate'' '''' []]"
| "op_events (OUnbindGate uid gid) (G, N) = (if gid \<noteq> '''' \<and> G uid = gid then [loc_evt uid ev_UnbindGate gid ''gate'' '''' []] else [])"
| "op_events (OBindNode uid name b) (G, N) =
     (if nbNID b = '''' then [] else [loc_evt uid ev_BindNode (nbNID b) ''node'' name (nbMetadata b)])"
| "op_events (OUnbindNode uid name nid) (G, N) =
     (case N uid name of Some b \<Rightarrow> if nbNID b = nid then [loc_evt uid ev_UnbindNode nid ''node'' name []] else [] | None \<Rightarrow> [])"

section \<open>Refinement\<close>

lemma redis_facts:
  assumes "locator_laws lo"
  shows "rcGET (loRedis lo) k' (rcSET (loRedis lo) k v r) = (if k' = k then Some v else rcGET (loRedis lo) k' r)"
    "k' \<noteq> k \<Longrightarrow> rcHGET (loRedis lo) k' f (rcSET (loRedis lo) k v r) = rcHGET (loRedis lo) k' f r"
    "rcGET (loRedis lo) k' (rcDEL (loRedis lo) k r) = (if k' = k then None else rcGET (loRedis lo) k' r)"
    "k' \<noteq> k \<Longrightarrow> rcHGET (loRedis lo) k' f (rcDEL (loRedis lo) k r) = rcHGET (loRedis lo) k' f r"
    "rcHGET (loRedis lo) k' f' (rcHSET (loRedis lo) k f v r) = (if k' = k \<and> f' = f then Some v else rcHGET (loRedis lo) k' f' r)"
    "k' \<noteq> k \<Longrightarrow> rcGET (loRedis lo) k' (rcHSET (loRedis lo) k f v r) = rcGET (loRedis lo) k' r"
    "rcHGET (loRedis lo) k' f' (rcHDEL (loRedis lo) k f r) = (if k' = k \<and> f' = f then None else rcHGET (loRedis lo) k' f' r)"
    "k' \<noteq> k \<Longrightarrow> rcGET (loRedis lo) k' (rcHDEL (loRedis lo) k f r) = rcGET (loRedis lo) k' r"
    "rcGET (loRedis lo) k (rcPUBLISH (loRedis lo) c m r) = rcGET (loRedis lo) k r"
    "rcHGET (loRedis lo) k f (rcPUBLISH (loRedis lo) c m r) = rcHGET (loRedis lo) k f r"
    "rcLog (loRedis lo) (rcPUBLISH (loRedis lo) c m r) = rcLog (loRedis lo) r @ [(c, m)]"
    "rcLog (loRedis lo) (rcSET (loRedis lo) k v r) = rcLog (loRedis lo) r"
    "rcLog (loRedis lo) (rcDEL (loRedis lo) k r) = rcLog (loRedis lo) r"
    "rcLog (loRedis lo) (rcHSET (loRedis lo) k f v r) = rcLog (loRedis lo) r"
    "rcLog (loRedis lo) (rcHDEL (loRedis lo) k f r) = rcLog (loRedis lo) r"
    "distinct (map fst (rcHGETALL (loRedis lo) k r))" "map_of (rcHGETALL (loRedis lo) k r) = (\<lambda>f. rcHGET (loRedis lo) k f r)"
    "loErr lo = None" "redis_do (loRedis lo) g r = (Ok (fst (g r)), snd (g r))"
  using assms by (simp_all add: locator_laws_def redis_laws_def redis_do_def case_prod_unfold Let_def)

lemma publish_keeps:
  assumes "locator_laws lo"
  shows "loc_abs lo (rcPUBLISH (loRedis lo) c m r) = loc_abs lo r" "stored_ok lo (rcPUBLISH (loRedis lo) c m r) = stored_ok lo r"
  by (simp_all add: loc_abs_def at_gate_def [abs_def] at_node_def [abs_def] stored_ok_def redis_facts [OF assms])

text \<open>One published event.\<close>

definition published :: "'r locator \<Rightarrow> locate_evt list \<Rightarrow> 'r \<Rightarrow> 'r \<Rightarrow> bool" where
  "published lo es r r' \<longleftrightarrow> (\<exists>msgs. rcLog (loRedis lo) r' = rcLog (loRedis lo) r @ msgs \<and>
     (\<forall>kind \<in> {''gate'', ''node''}. receive_events lo kind msgs = filter (\<lambda>e. lvInsKind e = kind) es))"

lemma plain_consts [simp]: "plain []" "plain ''gate''" "plain ''node''" "plain_map []"
  by (simp_all add: plain_def plain_map_def)

lemma evt_plain:
  assumes "plain insID" "plain_map md" "list_all plain names"
  shows "plain_evt (loc_evt uid typ insID (if B then ''gate'' else ''node'') (if names \<noteq> [] then hd names else []) md)"
  using assms by (cases names) (simp_all add: plain_evt_def loc_evt_def)

lemma broadcast_step:
  fixes uid insID md names r
  assumes "locator_laws lo" "typ \<in> {1, 2, 3, 4}" "plain insID" "plain_map md" "list_all plain names"
  defines "kind \<equiv> (if typ = ev_BindGate \<or> typ = ev_UnbindGate then ''gate'' else ''node'')"
  defines "r' \<equiv> snd (loc_broadcast lo typ uid insID md names r)"
  shows "loc_abs lo r' = loc_abs lo r" "stored_ok lo r' = stored_ok lo r"
    "published lo [loc_evt uid typ insID kind (if names \<noteq> [] then hd names else []) md] r r'"
proof -
  let ?e = "loc_evt uid typ insID kind (if names \<noteq> [] then hd names else []) md"
  obtain msg where msg: "loMarshalEvent lo ?e = Ok msg" "loUnmarshalEvent lo msg = Ok ?e"
    using assms(1) evt_plain [OF assms(3-5)] unfolding locator_laws_def kind_def by blast
  have r': "r' = rcPUBLISH (loRedis lo) (clusterEventKey (loPrefix lo) kind) msg r"
    using msg(1) assms(2) unfolding r'_def loc_broadcast_def Let_def loc_evt_def kind_def
    by (auto simp: redis_facts [OF assms(1)])
  show "loc_abs lo r' = loc_abs lo r" "stored_ok lo r' = stored_ok lo r"
    using publish_keeps [OF assms(1)] unfolding r' by simp_all
  show "published lo [?e] r r'"
    using msg(2) unfolding published_def r' by (auto simp: redis_facts [OF assms(1)] receive_events_def kind_def loc_evt_def)
qed

lemma event_types: "(1 :: int) \<in> {1, 2, 3, 4}" "(2 :: int) \<in> {1, 2, 3, 4}" "(3 :: int) \<in> {1, 2, 3, 4}" "(4 :: int) \<in> {1, 2, 3, 4}"
  by simp_all

lemma published_refl: "published lo [] r r"
  unfolding published_def by (rule exI [of _ "[]"]) (simp add: receive_events_def)

lemma published_from: "published lo es r r' \<Longrightarrow> rcLog (loRedis lo) r0 = rcLog (loRedis lo) r \<Longrightarrow> published lo es r0 r'"
  by (simp add: published_def)

lemma published_trans:
  assumes "published lo es r r1" "published lo es' r1 r2"
  shows "published lo (es @ es') r r2"
proof -
  obtain m1 m2 where m: "rcLog (loRedis lo) r1 = rcLog (loRedis lo) r @ m1" "rcLog (loRedis lo) r2 = rcLog (loRedis lo) r1 @ m2"
      "\<forall>kind \<in> {''gate'', ''node''}. receive_events lo kind m1 = filter (\<lambda>e. lvInsKind e = kind) es"
      "\<forall>kind \<in> {''gate'', ''node''}. receive_events lo kind m2 = filter (\<lambda>e. lvInsKind e = kind) es'"
    using assms unfolding published_def by blast
  have "receive_events lo kind (m1 @ m2) = receive_events lo kind m1 @ receive_events lo kind m2" for kind
    by (simp add: receive_events_def)
  then show ?thesis using m unfolding published_def by (intro exI [of _ "m1 @ m2"]) simp
qed

lemma exec_gate_bind:
  fixes uid gid
  assumes "locator_laws lo" "stored_ok lo r" "op_plain (OBindGate uid gid)"
  defines "r' \<equiv> snd (loc_BindGate lo uid gid r)"
  shows "loc_abs lo r' = loc_spec (OBindGate uid gid) (loc_abs lo r) \<and> stored_ok lo r' \<and>
    published lo (op_events (OBindGate uid gid) (loc_abs lo r)) r r'"
proof -
  note f = redis_facts [OF assms(1)]
  let ?r = "rcSET (loRedis lo) (userGateKey (loPrefix lo) uid) gid r"
  have r': "r' = snd (loc_broadcast lo ev_BindGate uid gid [] [] ?r)" by (simp add: r'_def loc_BindGate_def f)
  have pl: "plain (gid)" "plain_map ([])" "list_all plain []" using assms(3) by (simp_all add: plain_binding_def)
  note b = broadcast_step [OF assms(1) event_types(1) pl, of uid ?r, folded r']
  have "at_gate lo ?r = (at_gate lo r)(uid := gid)" by (auto simp: at_gate_def f fun_eq_iff)
  moreover have "at_node lo ?r = at_node lo r" by (auto simp: at_node_def f fun_eq_iff)
  moreover have "stored_ok lo ?r" using assms(2) by (auto simp: stored_ok_def f)
  moreover have "published lo [loc_evt uid ev_BindGate gid ''gate'' [] []] r r'" using b(3) by - (rule published_from [of lo _ ?r], simp_all add: f)
  ultimately show ?thesis using b by (simp add: loc_abs_def)
qed

lemma exec_gate_unbind:
  fixes uid gid
  assumes "locator_laws lo" "stored_ok lo r" "op_plain (OUnbindGate uid gid)"
  defines "r' \<equiv> snd (loc_UnbindGate lo uid gid r)"
  shows "loc_abs lo r' = loc_spec (OUnbindGate uid gid) (loc_abs lo r) \<and> stored_ok lo r' \<and>
    published lo (op_events (OUnbindGate uid gid) (loc_abs lo r)) r r'"
proof (cases "gid \<noteq> [] \<and> at_gate lo r uid = gid")
  case True
  note f = redis_facts [OF assms(1)]
  let ?r = "rcDEL (loRedis lo) (userGateKey (loPrefix lo) uid) r"
  have "rcGET (loRedis lo) (userGateKey (loPrefix lo) uid) r = Some gid" using True by (auto simp: at_gate_def split: option.splits)
  then have r': "r' = snd (loc_broadcast lo ev_UnbindGate uid gid [] [] ?r)"
    using True by (simp add: r'_def loc_UnbindGate_def f unbindGateScript_def)
  have pl: "plain (gid)" "plain_map ([])" "list_all plain []" using assms(3) by (simp_all add: plain_binding_def)
  note b = broadcast_step [OF assms(1) event_types(3) pl, of uid ?r, folded r']
  have "at_gate lo ?r = (at_gate lo r)(uid := [])" by (auto simp: at_gate_def f fun_eq_iff)
  moreover have "at_node lo ?r = at_node lo r" by (auto simp: at_node_def f fun_eq_iff)
  moreover have "stored_ok lo ?r" using assms(2) by (auto simp: stored_ok_def f)
  moreover have "published lo [loc_evt uid ev_UnbindGate gid ''gate'' [] []] r r'" using b(3) by - (rule published_from [of lo _ ?r], simp_all add: f)
  ultimately show ?thesis using b True by (simp add: loc_abs_def)
next
  case False
  then have "r' = r" by (auto simp: r'_def loc_UnbindGate_def redis_facts [OF assms(1)] unbindGateScript_def at_gate_def split: option.splits)
  then show ?thesis using assms(2) False published_refl by (auto simp: loc_abs_def)
qed

lemma marshalled:
  assumes "locator_laws lo" "plain_binding b"
  obtains s where "loMarshal lo b = Ok s" "unmarshalNodeBinding lo s = Ok b" "script_nid (loCjson lo) s = nbNID b"
proof -
  obtain s where "loMarshal lo b = Ok s" "take 1 s = ''{''" "loUnmarshal lo s = Ok b" "loCjson lo s = Some (nbNID b)"
    using assms unfolding locator_laws_def by blast
  then show ?thesis by (intro that [of s]) (auto simp: unmarshalNodeBinding_def script_nid_def)
qed

lemma exec_node_bind:
  fixes uid name b
  assumes "locator_laws lo" "stored_ok lo r" "op_plain (OBindNode uid name b)"
  defines "r' \<equiv> snd (loc_BindNode lo uid name b r)"
  shows "loc_abs lo r' = loc_spec (OBindNode uid name b) (loc_abs lo r) \<and> stored_ok lo r' \<and>
    published lo (op_events (OBindNode uid name b) (loc_abs lo r)) r r'"
proof (cases "nbNID b = []")
  case True
  then have "r' = r" by (simp add: r'_def loc_BindNode_def redis_facts [OF assms(1)])
  then show ?thesis using assms(2) True published_refl by (auto simp: loc_abs_def)
next
  case False
  note f = redis_facts [OF assms(1)]
  obtain s where s: "loMarshal lo b = Ok s" "unmarshalNodeBinding lo s = Ok b" "script_nid (loCjson lo) s = nbNID b"
    using assms(3) by (auto intro: marshalled [OF assms(1)])
  let ?r = "rcHSET (loRedis lo) (userNodeKey (loPrefix lo) uid) name s r"
  have r': "r' = snd (loc_broadcast lo ev_BindNode uid (nbNID b) (nbMetadata b) [name] ?r)"
    using False s(1) by (simp add: r'_def loc_BindNode_def f)
  have pl: "plain (nbNID b)" "plain_map (nbMetadata b)" "list_all plain [name]" using assms(3) by (simp_all add: plain_binding_def)
  note bc = broadcast_step [OF assms(1) event_types(2) pl, of uid ?r, folded r']
  have "at_gate lo ?r = at_gate lo r" by (auto simp: at_gate_def f fun_eq_iff)
  moreover have "at_node lo ?r = (at_node lo r)(uid := (at_node lo r uid)(name := Some b))"
    using s(2) by (auto simp: at_node_def f fun_eq_iff)
  moreover have "stored_ok lo ?r" using assms(2) s(2,3) by (auto simp: stored_ok_def f)
  moreover have "published lo [loc_evt uid ev_BindNode (nbNID b) ''node'' name (nbMetadata b)] r r'"
    using bc(3) by - (rule published_from [of lo _ ?r], simp_all add: f)
  ultimately show ?thesis using bc False by (simp add: loc_abs_def)
qed

lemma exec_node_unbind:
  fixes uid name nid
  assumes "locator_laws lo" "stored_ok lo r" "op_plain (OUnbindNode uid name nid)"
  defines "r' \<equiv> snd (loc_UnbindNode lo uid name nid r)"
  shows "loc_abs lo r' = loc_spec (OUnbindNode uid name nid) (loc_abs lo r) \<and> stored_ok lo r' \<and>
    published lo (op_events (OUnbindNode uid name nid) (loc_abs lo r)) r r'"
proof (cases "rcHGET (loRedis lo) (userNodeKey (loPrefix lo) uid) name r")
  case None
  then have "r' = r" "at_node lo r uid name = None" by (simp_all add: r'_def loc_UnbindNode_def redis_facts [OF assms(1)] unbindNodeScript_def at_node_def)
  then show ?thesis using assms(2) published_refl by (simp add: loc_abs_def)
next
  case (Some v)
  note f = redis_facts [OF assms(1)]
  obtain b where b: "unmarshalNodeBinding lo v = Ok b" "script_nid (loCjson lo) v = nbNID b"
    using assms(2) Some unfolding stored_ok_def by blast
  have at: "at_node lo r uid name = Some b" using Some b(1) by (simp add: at_node_def)
  show ?thesis
  proof (cases "nbNID b = nid")
    case False
    then have "r' = r" using Some b(2) by (simp add: r'_def loc_UnbindNode_def f unbindNodeScript_def)
    then show ?thesis using assms(2) at False published_refl by (simp add: loc_abs_def)
  next
    case True
    let ?r = "rcHDEL (loRedis lo) (userNodeKey (loPrefix lo) uid) name r"
    have r': "r' = snd (loc_broadcast lo ev_UnbindNode uid nid [] [name] ?r)"
      using True Some b(2) by (simp add: r'_def loc_UnbindNode_def f unbindNodeScript_def)
    have pl: "plain (nid)" "plain_map ([])" "list_all plain [name]" using assms(3) by (simp_all add: plain_binding_def)
  note bc = broadcast_step [OF assms(1) event_types(4) pl, of uid ?r, folded r']
    have "at_gate lo ?r = at_gate lo r" by (auto simp: at_gate_def f fun_eq_iff)
    moreover have "at_node lo ?r = (at_node lo r)(uid := (at_node lo r uid)(name := None))" by (auto simp: at_node_def f fun_eq_iff)
    moreover have "stored_ok lo ?r" using assms(2) by (auto simp: stored_ok_def f)
    moreover have "published lo [loc_evt uid ev_UnbindNode nid ''node'' name []] r r'"
      using bc(3) by - (rule published_from [of lo _ ?r], simp_all add: f)
    ultimately show ?thesis using bc at True by (simp add: loc_abs_def)
  qed
qed

lemma exec_step:
  assumes "locator_laws lo" "stored_ok lo r" "op_plain op"
  shows "loc_abs lo (snd (loc_exec lo op r)) = loc_spec op (loc_abs lo r) \<and> stored_ok lo (snd (loc_exec lo op r)) \<and>
    published lo (op_events op (loc_abs lo r)) r (snd (loc_exec lo op r))"
  using assms(3) exec_gate_bind [OF assms(1,2)] exec_gate_unbind [OF assms(1,2)] exec_node_bind [OF assms(1,2)]
    exec_node_unbind [OF assms(1,2)]
  by (cases op) (simp_all del: op_plain.simps)

definition loc_run :: "'r locator \<Rightarrow> loc_op list \<Rightarrow> 'r \<Rightarrow> 'r" where
  "loc_run lo ops r = fold (\<lambda>op r. snd (loc_exec lo op r)) ops r"

lemma run_abs:
  assumes "locator_laws lo" "stored_ok lo r" "list_all op_plain ops"
  shows "loc_abs lo (loc_run lo ops r) = fold loc_spec ops (loc_abs lo r) \<and> stored_ok lo (loc_run lo ops r)"
  using assms(2,3)
proof (induction ops arbitrary: r)
  case (Cons op ops)
  then show ?case using exec_step [OF assms(1), of r op] by (simp add: loc_run_def)
qed (simp add: loc_run_def)

section \<open>The caches of the linkers\<close>

definition gate_cache_ok :: "'w glink \<Rightarrow> loc_maps \<Rightarrow> bool" where
  "gate_cache_ok l m \<longleftrightarrow> (\<forall>uid gid. glSources l uid = Some gid \<longrightarrow> fst m uid = gid)"

definition node_cache_ok :: "'w nlink \<Rightarrow> loc_maps \<Rightarrow> bool" where
  "node_cache_ok l m \<longleftrightarrow> sources_ok (nlSources l) \<and> (\<forall>uid name b. doLoadSource uid name l = Some b \<longrightarrow> snd m uid name = Some b)"

definition kind_events :: "string \<Rightarrow> locate_evt list \<Rightarrow> locate_evt list" where
  "kind_events kind es = filter (\<lambda>e. lvInsKind e = kind) es"

lemma gate_cache_step:
  assumes "gate_cache_ok l m"
  shows "gate_cache_ok (gl_WatchUserLocate (map gate_event_of (kind_events ''gate'' (op_events op m))) l) (loc_spec op m)"
  using assms
  by (cases m; cases op) (auto simp: gate_cache_ok_def gl_WatchUserLocate_def kind_events_def loc_evt_def gate_event_of_def split: option.splits)

lemma load_call_handlers [simp]: "nlSources (call_handlers env w d l) = nlSources l"
  by (simp add: call_handlers_def Let_def)

lemma sources_after_store:
  "nlSources (doStoreSource env uid name b l) = fst (store_source (neInsID env) uid name b (nlSources l))"
  "nlSources (doDeleteSource env uid name nid l) = fst (delete_source (neInsID env) uid name nid (nlSources l))"
  by (simp_all add: doStoreSource_def doDeleteSource_def case_prod_unfold Let_def)

lemma load_store:
  "doLoadSource uid' name' (doStoreSource env uid name b l) = (if uid' = uid \<and> name' = name then Some b else doLoadSource uid' name' l)"
proof (cases "map_of (nlSources l) uid")
  case None
  then show ?thesis by (simp add: doLoadSource_def sources_after_store store_source_def AList.update_conv')
next
  case (Some sources)
  have "fst (store_source (neInsID env) uid name b (nlSources l)) = AList.update uid (AList.update name b sources) (nlSources l)"
    using Some by (simp add: store_source_def Let_def split: option.splits)
  then show ?thesis using Some by (simp add: doLoadSource_def sources_after_store AList.update_conv')
qed

lemma load_delete:
  assumes "sources_ok (nlSources l)"
  shows "doLoadSource uid' name' (doDeleteSource env uid name nid l) =
    (if uid' = uid \<and> name' = name \<and> map_option nbNID (doLoadSource uid name l) = Some nid then None else doLoadSource uid' name' l)"
proof (cases "map_option nbNID (doLoadSource uid name l) = Some nid")
  case False
  then have "fst (delete_source (neInsID env) uid name nid (nlSources l)) = nlSources l"
    by (auto simp: delete_source_def doLoadSource_def split: option.splits)
  then have "doLoadSource uid' name' (doDeleteSource env uid name nid l) = doLoadSource uid' name' l"
    by (simp add: doLoadSource_def sources_after_store)
  then show ?thesis using False by auto
next
  case True
  then obtain sources b where s: "map_of (nlSources l) uid = Some sources" "map_of sources name = Some b" "nbNID b = nid"
    by (auto simp: doLoadSource_def split: Option.bind_splits)
  have single: "sources = [(name, b)]" if "length sources = 1"
    using that s(2) by (cases sources) (auto split: if_splits)
  have "fst (delete_source (neInsID env) uid name nid (nlSources l)) =
      (if length sources = 1 then AList.delete uid (nlSources l) else AList.update uid (AList.delete name sources) (nlSources l))"
    using s by (simp add: delete_source_def)
  then show ?thesis
    using s True single by (auto simp: doLoadSource_def sources_after_store AList.update_conv' AList.delete_conv' split: Option.bind_splits if_splits)
qed

lemma cached_sources_ok:
  "node_cache_ok l m \<Longrightarrow> sources_ok (nlSources (doStoreSource env uid name b l))"
  "node_cache_ok l m \<Longrightarrow> sources_ok (nlSources (doDeleteSource env uid name nid l))"
  by (simp_all add: node_cache_ok_def sources_after_store store_source_ok delete_source_ok)

lemma node_cache_step:
  assumes "node_cache_ok l m"
  shows "node_cache_ok (nl_WatchUserLocate env (map node_event_of (kind_events ''node'' (op_events op m))) l) (loc_spec op m)"
proof (cases m)
  case (Pair G N)
  have ok: "sources_ok (nlSources l)" and sub: "\<And>uid name b. doLoadSource uid name l = Some b \<Longrightarrow> N uid name = Some b"
    using assms Pair by (auto simp: node_cache_ok_def)
  note evs = nl_WatchUserLocate_def kind_events_def loc_evt_def node_event_of_def
  show ?thesis
  proof (cases op)
    case (OBindNode uid name b)
    then show ?thesis using Pair sub cached_sources_ok(1) [OF assms] ok by (auto simp: evs node_cache_ok_def load_store)
  next
    case (OUnbindNode uid name nid)
    let ?l = "doDeleteSource env uid name nid l"
    have "snd (loc_spec op m) u n = Some b" if "doLoadSource u n ?l = Some b" for u n b
    proof -
      have "doLoadSource u n l = Some b" "\<not> (u = uid \<and> n = name \<and> nbNID b = nid)"
        using that by (auto simp: load_delete [OF ok] split: if_splits)
      then show ?thesis using sub [of u n b] Pair OUnbindNode by (auto split: option.splits)
    qed
    moreover have "snd (loc_spec op m) u n = Some b" if "kind_events ''node'' (op_events op m) = []" "doLoadSource u n l = Some b" for u n b
      using that sub [of u n b] Pair OUnbindNode by (auto simp: kind_events_def loc_evt_def split: option.splits if_splits)
    moreover have "nl_WatchUserLocate env (map node_event_of (kind_events ''node'' (op_events op m))) l =
        (if kind_events ''node'' (op_events op m) = [] then l else ?l)"
      using Pair OUnbindNode by (simp add: evs split: option.splits)
    ultimately show ?thesis using ok by (simp add: node_cache_ok_def cached_sources_ok(2) [OF assms])
  qed (use assms Pair in \<open>auto simp: evs node_cache_ok_def\<close>)
qed


section \<open>Reading\<close>

lemma read_gate: "locator_laws lo \<Longrightarrow> loc_LocateGate lo uid r = (Ok (fst (loc_abs lo r) uid), r)"
  by (simp add: loc_LocateGate_def redis_facts loc_abs_def at_gate_def split: option.splits)

definition no_binding :: NodeBinding where
  "no_binding = \<lparr>nbNID = '''', nbMetadata = []\<rparr>"

lemma read_binding:
  assumes "locator_laws lo" "stored_ok lo r"
  shows "loc_LocateNodeBinding lo uid name r = (Ok (case snd (loc_abs lo r) uid name of None \<Rightarrow> no_binding | Some b \<Rightarrow> b), r)"
proof (cases "rcHGET (loRedis lo) (userNodeKey (loPrefix lo) uid) name r")
  case None
  then show ?thesis
    by (simp add: loc_LocateNodeBinding_def redis_facts [OF assms(1)] loc_abs_def at_node_def unmarshalNodeBinding_def no_binding_def)
next
  case (Some v)
  then obtain b where "unmarshalNodeBinding lo v = Ok b" using assms(2) unfolding stored_ok_def by blast
  then show ?thesis using Some by (simp add: loc_LocateNodeBinding_def redis_facts [OF assms(1)] loc_abs_def at_node_def)
qed

lemma mapM_keys:
  assumes "\<And>k v. (k, v) \<in> set xs \<Longrightarrow> \<exists>b. f v = Ok b"
  shows "\<exists>ys. go_mapM (\<lambda>(k, v). go_map (\<lambda>b. (k, g b)) (f v)) xs = Ok ys \<and>
    map_of ys = (\<lambda>k. Option.bind (map_of xs k) (\<lambda>v. case f v of Ok b \<Rightarrow> Some (g b) | _ \<Rightarrow> None))"
  using assms
proof (induction xs)
  case (Cons x xs)
  obtain k v where x: "x = (k, v)" by (cases x)
  obtain b where b: "f v = Ok b" using Cons.prems [of k v] x by auto
  obtain ys where "go_mapM (\<lambda>(k, v). go_map (\<lambda>b. (k, g b)) (f v)) xs = Ok ys"
      "map_of ys = (\<lambda>k. Option.bind (map_of xs k) (\<lambda>v. case f v of Ok b \<Rightarrow> Some (g b) | _ \<Rightarrow> None))"
    using Cons.IH Cons.prems by auto
  then show ?case using x b by (auto simp: fun_eq_iff)
qed simp

lemma read_nodes:
  assumes "locator_laws lo" "stored_ok lo r"
  shows "\<exists>ns. loc_LocateNodes lo uid r = (Ok ns, r) \<and> map_of ns = (\<lambda>name. map_option nbNID (snd (loc_abs lo r) uid name))"
proof -
  let ?all = "rcHGETALL (loRedis lo) (userNodeKey (loPrefix lo) uid) r"
  note f = redis_facts [OF assms(1)]
  have "rcHGET (loRedis lo) (userNodeKey (loPrefix lo) uid) k r = Some v" if "(k, v) \<in> set ?all" for k v
    using map_of_is_SomeI [OF f(16) that] by (simp add: f)
  then have "\<And>k v. (k, v) \<in> set ?all \<Longrightarrow> \<exists>b. unmarshalNodeBinding lo v = Ok b"
    using assms(2) unfolding stored_ok_def by blast
  then obtain ys where ys: "go_mapM (\<lambda>(k, v). go_map (\<lambda>b. (k, nbNID b)) (unmarshalNodeBinding lo v)) ?all = Ok ys"
      "map_of ys = (\<lambda>k. Option.bind (map_of ?all k) (\<lambda>v. case unmarshalNodeBinding lo v of Ok b \<Rightarrow> Some (nbNID b) | _ \<Rightarrow> None))"
    using mapM_keys [of ?all "unmarshalNodeBinding lo" nbNID] by blast
  have "map_of ys = (\<lambda>name. map_option nbNID (at_node lo r uid name))"
    unfolding ys(2) by (rule ext) (simp add: at_node_def f split: Option.bind_splits go.splits)
  then show ?thesis using ys(1) by (simp add: loc_LocateNodes_def f loc_abs_def)
qed

text \<open>C6.  The redis locator implements a pair of maps: after any sequence of binds and unbinds, from any store whose bindings can be
  read, \<open>LocateGate\<close>, \<open>LocateNodeBinding\<close>, \<open>LocateNode\<close> and \<open>LocateNodes\<close> return what the same
  sequence leaves in the maps, where an unbind takes effect only when it names the instance the user is bound to.\<close>

theorem locator_refines:
  assumes "locator_laws lo" "stored_ok lo r" "list_all op_plain ops"
  defines "r' \<equiv> loc_run lo ops r"
  defines "G \<equiv> fst (fold loc_spec ops (loc_abs lo r))"
  defines "N \<equiv> snd (fold loc_spec ops (loc_abs lo r))"
  shows "stored_ok lo r' \<and> loc_LocateGate lo uid r' = (Ok (G uid), r')
    \<and> loc_LocateNodeBinding lo uid name r' = (Ok (case N uid name of None \<Rightarrow> no_binding | Some b \<Rightarrow> b), r')
    \<and> loc_LocateNode lo uid name r' = (Ok (case N uid name of None \<Rightarrow> '''' | Some b \<Rightarrow> nbNID b), r')
    \<and> (\<exists>ns. loc_LocateNodes lo uid r' = (Ok ns, r') \<and> map_of ns = (\<lambda>name. map_option nbNID (N uid name)))"
proof -
  have run: "fold loc_spec ops (loc_abs lo r) = loc_abs lo r'" and ok: "stored_ok lo r'"
    using run_abs [OF assms(1-3)] by (simp_all add: r'_def)
  have "loc_LocateNode lo uid name r' = (Ok (case N uid name of None \<Rightarrow> '''' | Some b \<Rightarrow> nbNID b), r')"
    by (simp add: loc_LocateNode_def read_binding [OF assms(1) ok] N_def run no_binding_def split: option.splits)
  then show ?thesis
    using ok read_gate [OF assms(1)] read_binding [OF assms(1) ok] read_nodes [OF assms(1) ok] by (simp add: G_def N_def run)
qed

section \<open>Published events and caches\<close>

fun run_events :: "loc_op list \<Rightarrow> loc_maps \<Rightarrow> locate_evt list" where
  "run_events [] m = []"
| "run_events (op # ops) m = op_events op m @ run_events ops (loc_spec op m)"

lemma run_published:
  assumes "locator_laws lo" "stored_ok lo r" "list_all op_plain ops"
  shows "published lo (run_events ops (loc_abs lo r)) r (loc_run lo ops r)"
  using assms(2,3)
proof (induction ops arbitrary: r)
  case Nil
  then show ?case by (simp add: loc_run_def published_refl)
next
  case (Cons op ops)
  let ?r = "snd (loc_exec lo op r)"
  have s: "loc_abs lo ?r = loc_spec op (loc_abs lo r)" "stored_ok lo ?r" "published lo (op_events op (loc_abs lo r)) r ?r"
    using exec_step [OF assms(1) Cons.prems(1), of op] Cons.prems(2) by simp_all
  have "published lo (run_events ops (loc_abs lo ?r)) ?r (loc_run lo ops ?r)" using Cons.IH [OF s(2)] Cons.prems(2) by simp
  from published_trans [OF s(3) this] show ?case by (simp add: s(1) loc_run_def)
qed

lemma gate_cache_run:
  "gate_cache_ok l m \<Longrightarrow>
    gate_cache_ok (gl_WatchUserLocate (map gate_event_of (kind_events ''gate'' (run_events ops m))) l) (fold loc_spec ops m)"
proof (induction ops arbitrary: l m)
  case (Cons op ops)
  from Cons.IH [OF gate_cache_step [OF Cons.prems, of op]] show ?case by (simp add: gl_WatchUserLocate_def kind_events_def)
qed (simp add: gl_WatchUserLocate_def kind_events_def)

lemma node_cache_run:
  "node_cache_ok l m \<Longrightarrow>
    node_cache_ok (nl_WatchUserLocate env (map node_event_of (kind_events ''node'' (run_events ops m))) l) (fold loc_spec ops m)"
proof (induction ops arbitrary: l m)
  case (Cons op ops)
  from Cons.IH [OF node_cache_step [OF Cons.prems, of env op]] show ?case by (simp add: nl_WatchUserLocate_def kind_events_def)
qed (simp add: nl_WatchUserLocate_def kind_events_def)

text \<open>C2.  The caches of the linkers follow the locator: a gate linker and a node linker whose caches agree with the store, and that
  then process what the locator published for their kind during a sequence of binds and unbinds, hold no location that
  the locator would not return.\<close>

theorem locator_cache_coherent:
  fixes env :: "('d, 'w) node_env"
  assumes "locator_laws lo" "stored_ok lo r" "list_all op_plain ops"
    "gate_cache_ok gl (loc_abs lo r)" "node_cache_ok nl (loc_abs lo r)"
  defines "r' \<equiv> loc_run lo ops r"
  defines "msgs \<equiv> drop (length (rcLog (loRedis lo) r)) (rcLog (loRedis lo) r')"
  defines "gl' \<equiv> gl_WatchUserLocate (map gate_event_of (receive_events lo ''gate'' msgs)) gl"
  defines "nl' \<equiv> nl_WatchUserLocate env (map node_event_of (receive_events lo ''node'' msgs)) nl"
  shows "(glSources gl' uid = Some gid \<longrightarrow> loc_LocateGate lo uid r' = (Ok gid, r')) \<and>
    (doLoadSource uid name nl' = Some b \<longrightarrow> loc_LocateNodeBinding lo uid name r' = (Ok b, r'))"
proof -
  let ?es = "run_events ops (loc_abs lo r)"
  have run: "loc_abs lo r' = fold loc_spec ops (loc_abs lo r)" and ok: "stored_ok lo r'"
    using run_abs [OF assms(1-3)] by (simp_all add: r'_def)
  obtain ms where "rcLog (loRedis lo) r' = rcLog (loRedis lo) r @ ms"
      "\<forall>kind \<in> {''gate'', ''node''}. receive_events lo kind ms = filter (\<lambda>e. lvInsKind e = kind) ?es"
    using run_published [OF assms(1-3)] unfolding published_def r'_def by blast
  then have ev: "receive_events lo ''gate'' msgs = kind_events ''gate'' ?es" "receive_events lo ''node'' msgs = kind_events ''node'' ?es"
    by (simp_all add: msgs_def kind_events_def)
  have "gate_cache_ok gl' (loc_abs lo r')" "node_cache_ok nl' (loc_abs lo r')"
    unfolding gl'_def nl'_def ev run using gate_cache_run [OF assms(4)] node_cache_run [OF assms(5)] by simp_all
  then show ?thesis
    by (auto simp: gate_cache_ok_def node_cache_ok_def read_gate [OF assms(1)] read_binding [OF assms(1) ok])
qed


section \<open>A store and a codec\<close>

text \<open>For the witnesses: a redis made of maps, and an encoding where a byte is announced by \<open>1\<close> and a string ends with \<open>0\<close>.\<close>

fun enc_strings :: "string list \<Rightarrow> string" where
  "enc_strings [] = ''''"
| "enc_strings (s # ss) = concat (map (\<lambda>c. [CHR ''1'', c]) s) @ CHR ''0'' # enc_strings ss"

fun dec_strings :: "string \<Rightarrow> string list" where
  "dec_strings (CHR ''1'' # c # r) = (case dec_strings r of s # ss \<Rightarrow> (c # s) # ss | [] \<Rightarrow> [[c]])"
| "dec_strings (_ # r) = '''' # dec_strings r"
| "dec_strings [] = []"

lemma dec_enc [simp]: "dec_strings (enc_strings ss) = ss"
proof -
  have "dec_strings (concat (map (\<lambda>c. [CHR ''1'', c]) s) @ CHR ''0'' # r) = s # dec_strings r" for s r
    by (induction s) simp_all
  then show ?thesis by (induction ss) simp_all
qed

declare enc_strings.simps [simp del] dec_strings.simps [simp del]

fun flat_map :: "(string \<times> string) list \<Rightarrow> string list" where
  "flat_map [] = []"
| "flat_map ((k, v) # md) = k # v # flat_map md"

fun pair_up :: "string list \<Rightarrow> (string \<times> string) list" where
  "pair_up (k # v # r) = (k, v) # pair_up r"
| "pair_up _ = []"

lemma pair_up_flat [simp]: "pair_up (flat_map md) = md"
  by (induction md rule: flat_map.induct) simp_all

definition text_int :: "int \<Rightarrow> string list" where
  "text_int i = [if i < 0 then ''-'' else '''', fmt_nat (nat \<bar>i\<bar>)]"

definition int_text :: "string \<Rightarrow> string \<Rightarrow> int" where
  "int_text s ds = (if s = ''-'' then - digits_value ds else digits_value ds)"

definition enc_evt :: "locate_evt \<Rightarrow> string" where
  "enc_evt e = enc_strings (text_int (sint (lvUID e)) @ text_int (lvType e) @ [lvInsID e, lvInsKind e, lvInsName e] @ flat_map (lvMetadata e))"

fun evt_of_strings :: "string list \<Rightarrow> locate_evt go" where
  "evt_of_strings (s1 # d1 # s2 # d2 # insID # kind # name # md) =
     Ok (loc_evt (word_of_int (int_text s1 d1)) (int_text s2 d2) insID kind name (pair_up md))"
| "evt_of_strings _ = Err ErrInvalidMessage"

type_synonym map_store = "(string \<Rightarrow> string option) \<times> (string \<Rightarrow> (string \<times> string) list) \<times> (string \<times> string) list"

definition map_redis :: "map_store redis" where
  "map_redis = \<lparr>rcGET = (\<lambda>k (S, H, L). S k), rcSET = (\<lambda>k v (S, H, L). (S(k \<mapsto> v), H, L)),
     rcDEL = (\<lambda>k (S, H, L). (S(k := None), H(k := []), L)), rcHGET = (\<lambda>k f (S, H, L). map_of (H k) f),
     rcHGETALL = (\<lambda>k (S, H, L). AList.clearjunk (H k)), rcHSET = (\<lambda>k f v (S, H, L). (S, H(k := AList.update f v (H k)), L)),
     rcHDEL = (\<lambda>k f (S, H, L). (S, H(k := AList.delete f (H k)), L)), rcPUBLISH = (\<lambda>c m (S, H, L). (S, H, L @ [(c, m)])),
     rcLog = (\<lambda>(S, H, L). L), rcFault = (\<lambda>_. None)\<rparr>"

definition map_locator :: "map_store locator" where
  "map_locator = \<lparr>loErr = None, loPrefix = ''xbase'', loRedis = map_redis,
     loMarshal = (\<lambda>b. Ok (CHR ''{'' # enc_strings (nbNID b # flat_map (nbMetadata b)))),
     loUnmarshal = (\<lambda>s. case dec_strings (tl s) of nid # md \<Rightarrow> Ok \<lparr>nbNID = nid, nbMetadata = pair_up md\<rparr> | [] \<Rightarrow> Err ErrInvalidMessage),
     loCjson = (\<lambda>s. case dec_strings (tl s) of nid # _ \<Rightarrow> Some nid | [] \<Rightarrow> None),
     loMarshalEvent = (\<lambda>e. Ok (enc_evt e)), loUnmarshalEvent = (\<lambda>s. evt_of_strings (dec_strings s))\<rparr>"

definition empty_store :: map_store where
  "empty_store = (Map.empty, \<lambda>_. [], [])"

lemma map_redis_laws: "redis_laws map_redis"
  unfolding redis_laws_def
  by (simp add: map_redis_def AList.update_conv' AList.delete_conv' AList.map_of_clearjunk AList.distinct_clearjunk fun_eq_iff)

lemma map_locator_laws: "locator_laws map_locator"
proof -
  have i: "int_text (if j < 0 then ''-'' else '''') (fmt_nat (nat \<bar>j\<bar>)) = j" for j by (simp add: int_text_def fmt_nat_value)
  have "evt_of_strings (dec_strings (enc_evt e)) = Ok e" for e
    using i [of "sint (lvUID e)"] i [of "lvType e"] by (simp add: enc_evt_def text_int_def loc_evt_def)
  then show ?thesis using map_redis_laws unfolding locator_laws_def by (simp add: map_locator_def map_redis_def)
qed

lemma empty_store_ok: "stored_ok map_locator empty_store" "rcLog (loRedis map_locator) empty_store = []"
  by (simp_all add: stored_ok_def empty_store_def map_locator_def map_redis_def)

lemma empty_store_abs: "loc_abs map_locator empty_store = (\<lambda>_. '''', \<lambda>_ _. None)"
  by (simp add: loc_abs_def at_gate_def [abs_def] at_node_def [abs_def] map_locator_def map_redis_def empty_store_def)

definition sample_ops :: "loc_op list" where
  "sample_ops = [OBindGate 7 ''g1'', OBindNode 7 ''room'' \<lparr>nbNID = ''n1'', nbMetadata = [(''zone'', ''3'')]\<rparr>, OUnbindGate 7 ''g2'',
     OBindNode 8 ''room'' \<lparr>nbNID = ''n2'', nbMetadata = []\<rparr>, OUnbindNode 8 ''room'' ''n2'', OBindGate 9 ''g2'', OUnbindGate 9 ''g2'']"

lemma sample_plain: "list_all op_plain sample_ops"
  by (simp add: sample_ops_def plain_def plain_binding_def plain_map_def)

theorem locator_refines_witness:
  "loc_LocateGate map_locator 7 (loc_run map_locator sample_ops empty_store) = (Ok ''g1'', loc_run map_locator sample_ops empty_store)
   \<and> loc_LocateNode map_locator 7 ''room'' (loc_run map_locator sample_ops empty_store) = (Ok ''n1'', loc_run map_locator sample_ops empty_store)"
  using locator_refines [OF map_locator_laws empty_store_ok(1) sample_plain, of 7 "''room''"]
  by (simp add: sample_ops_def empty_store_abs)


text \<open>New linkers that watch those operations.\<close>

abbreviation (input) sample_store :: map_store where
  "sample_store \<equiv> loc_run map_locator sample_ops empty_store"

abbreviation (input) sample_msgs :: "(string \<times> string) list" where
  "sample_msgs \<equiv> drop (length (rcLog (loRedis map_locator) empty_store)) (rcLog (loRedis map_locator) sample_store)"

lemma new_caches_ok:
  "gate_cache_ok (NewGateLinker ''rr'' ()) (loc_abs map_locator empty_store)"
  "node_cache_ok (NewNodeLinker ''rr'' (0 :: nat)) (loc_abs map_locator empty_store)"
  by (simp_all add: gate_cache_ok_def node_cache_ok_def NewGateLinker_def NewNodeLinker_def sources_ok_def doLoadSource_def)

lemma sample_caches:
  "glSources (gl_WatchUserLocate (map gate_event_of (receive_events map_locator ''gate'' sample_msgs)) (NewGateLinker ''rr'' ())) 7 = Some ''g1''"
  "doLoadSource 7 ''room'' (nl_WatchUserLocate sample_nenv (map node_event_of (receive_events map_locator ''node'' sample_msgs))
     (NewNodeLinker ''rr'' 0)) = Some \<lparr>nbNID = ''n1'', nbMetadata = [(''zone'', ''3'')]\<rparr>"
  by code_simp+

theorem locator_cache_coherent_witness:
  "loc_LocateGate map_locator 7 sample_store = (Ok ''g1'', sample_store) \<and>
   loc_LocateNodeBinding map_locator 7 ''room'' sample_store = (Ok \<lparr>nbNID = ''n1'', nbMetadata = [(''zone'', ''3'')]\<rparr>, sample_store)"
  using locator_cache_coherent [OF map_locator_laws empty_store_ok(1) sample_plain new_caches_ok, where env = sample_nenv
      and uid = 7 and gid = "''g1''" and name = "''room''" and b = "\<lparr>nbNID = ''n1'', nbMetadata = [(''zone'', ''3'')]\<rparr>"]
    sample_caches by blast

end
