(* ===== verification/RedisLock.thy ===== *)
theory RedisLock
  imports Prelude
begin

text \<open>
  \<open>lock/redis\<close>: a lock in redis with a lifetime that its holder renews.  The redis server is an argument: its commands
  on a store, and the passing of time, in milliseconds.
\<close>

section \<open>Redis\<close>

record 'r lock_redis =
  lrGET :: "string \<Rightarrow> 'r \<Rightarrow> string option"
  lrTTL :: "string \<Rightarrow> 'r \<Rightarrow> int"
  lrSETNX :: "string \<Rightarrow> string \<Rightarrow> int \<Rightarrow> 'r \<Rightarrow> bool \<times> 'r"
  lrDEL :: "string \<Rightarrow> 'r \<Rightarrow> 'r"
  lrPEXPIRE :: "string \<Rightarrow> int \<Rightarrow> 'r \<Rightarrow> 'r"
  lrTick :: "int \<Rightarrow> 'r \<Rightarrow> 'r"

section \<open>The scripts\<close>

text \<open>\<open>GET\<close> of a missing key is \<open>false\<close> in Lua: it is neither the empty string nor the version.\<close>

definition releaseScript :: "'r lock_redis \<Rightarrow> string \<Rightarrow> string \<Rightarrow> 'r \<Rightarrow> string list \<times> 'r" where
  "releaseScript rd key version r =
     (let val = lrGET rd key r
      in if val = Some '''' then ([''OK''], r) else if val \<noteq> Some version then ([''NO''], r) else ([''OK''], lrDEL rd key r))"

definition renewalScript :: "'r lock_redis \<Rightarrow> string \<Rightarrow> string \<Rightarrow> int \<Rightarrow> 'r \<Rightarrow> string list \<times> 'r" where
  "renewalScript rd key version ms r =
     (let val = lrGET rd key r
      in if val = Some '''' then ([''NO''], r) else if val \<noteq> Some version then ([''NO''], r) else ([''OK''], lrPEXPIRE rd key ms r))"

section \<open>The maker\<close>

record 'r maker =
  mkErr :: "goerr option"
  mkPrefix :: string
  mkExpiration :: int
  mkMaxRetries :: nat
  mkRedis :: "'r lock_redis"

definition make_key :: "'r maker \<Rightarrow> string \<Rightarrow> string" where
  "make_key mk name = (if mkPrefix mk = '''' then name else mkPrefix mk @ '':'' @ name)"

text \<open>One attempt of \<open>acquire\<close>, and its loop over the answers of the attempts; \<open>None\<close> when it is still trying.\<close>

definition acquire_once :: "'r maker \<Rightarrow> string \<Rightarrow> string \<Rightarrow> 'r \<Rightarrow> bool \<times> 'r" where
  "acquire_once mk key version r = lrSETNX (mkRedis mk) key version (mkExpiration mk) r"

fun acquire_loop :: "nat \<Rightarrow> nat \<Rightarrow> bool go list \<Rightarrow> goerr option go option" where
  "acquire_loop acquireMaxRetries retries [] = None"
| "acquire_loop acquireMaxRetries retries (ans # anss) =
     (case ans of
        Err e \<Rightarrow> Some (Ok (Some e))
      | Panic \<Rightarrow> Some Panic
      | Ok True \<Rightarrow> Some (Ok None)
      | Ok False \<Rightarrow>
          if acquireMaxRetries > 0
          then if retries > acquireMaxRetries then Some (Ok (Some ErrDeadlineExceeded))
               else acquire_loop acquireMaxRetries (retries + 1) anss
          else acquire_loop acquireMaxRetries retries anss)"

definition maker_acquire :: "'r maker \<Rightarrow> bool go list \<Rightarrow> goerr option go option" where
  "maker_acquire mk anss = (case mkErr mk of Some e \<Rightarrow> Some (Ok (Some e)) | None \<Rightarrow> acquire_loop (mkMaxRetries mk) 0 anss)"

definition tryAcquire :: "'r maker \<Rightarrow> string \<Rightarrow> string \<Rightarrow> int option \<Rightarrow> 'r \<Rightarrow> goerr option \<times> 'r" where
  "tryAcquire mk key version expiration r =
     (case mkErr mk of
        Some e \<Rightarrow> (Some e, r)
      | None \<Rightarrow>
          let (ok, r) = lrSETNX (mkRedis mk) key version (case expiration of Some x \<Rightarrow> x | None \<Rightarrow> mkExpiration mk) r
          in (if ok then None else Some ErrIllegalOperation, r))"

definition maker_release :: "'r maker \<Rightarrow> string \<Rightarrow> string \<Rightarrow> 'r \<Rightarrow> goerr option \<times> 'r" where
  "maker_release mk key version r =
     (case mkErr mk of
        Some e \<Rightarrow> (Some e, r)
      | None \<Rightarrow> let (rst, r) = releaseScript (mkRedis mk) key version r in (if hd rst \<noteq> ''OK'' then Some ErrIllegalOperation else None, r))"

definition maker_renewal :: "'r maker \<Rightarrow> string \<Rightarrow> string \<Rightarrow> 'r \<Rightarrow> goerr option \<times> 'r" where
  "maker_renewal mk key version r =
     (case mkErr mk of
        Some e \<Rightarrow> (Some e, r)
      | None \<Rightarrow> let (rst, r) = renewalScript (mkRedis mk) key version (mkExpiration mk) r
                in (if hd rst \<noteq> ''OK'' then Some ErrIllegalOperation else None, r))"

section \<open>Lockers\<close>

text \<open>\<open>lkTimer\<close>: the timer of the renewal is armed; \<open>lkRenewing\<close>: the renewal was granted and the timer is not armed again
  yet.  \<open>lkHeld\<close> (the lock was granted and not released), \<open>lkAge\<close> (the time since it was granted or renewed last) and
  \<open>lkLife\<close> (the lifetime asked for then) are for the statements only.\<close>

record locker =
  lkVersion :: string
  lkTimer :: bool
  lkRenewing :: bool
  lkHeld :: bool
  lkAge :: int
  lkLife :: int

definition new_locker :: "string \<Rightarrow> locker" where
  "new_locker version = \<lparr>lkVersion = version, lkTimer = False, lkRenewing = False, lkHeld = False, lkAge = 0, lkLife = 0\<rparr>"

definition granted :: "int \<Rightarrow> locker \<Rightarrow> locker" where
  "granted life l = l\<lparr>lkHeld := True, lkAge := 0, lkLife := life\<rparr>"

text \<open>The lockers of one key and the store.\<close>

type_synonym 'r lock_state = "'r \<times> locker list"

definition locker_Acquire :: "'r maker \<Rightarrow> string \<Rightarrow> nat \<Rightarrow> 'r lock_state \<Rightarrow> bool \<times> 'r lock_state" where
  "locker_Acquire mk key i s =
     (if mkErr mk \<noteq> None then (False, s)
      else let (ok, r) = acquire_once mk key (lkVersion (snd s ! i)) (fst s)
      in if ok then (True, r, (snd s)[i := (granted (mkExpiration mk) (snd s ! i))\<lparr>lkTimer := True\<rparr>]) else (False, r, snd s))"

definition locker_TryAcquire :: "'r maker \<Rightarrow> string \<Rightarrow> int option \<Rightarrow> nat \<Rightarrow> 'r lock_state \<Rightarrow> goerr option \<times> 'r lock_state" where
  "locker_TryAcquire mk key expiration i s =
     (let (err, r) = tryAcquire mk key (lkVersion (snd s ! i)) expiration (fst s)
      in (err, r, if err = None
                  then (snd s)[i := granted (case expiration of Some x \<Rightarrow> x | None \<Rightarrow> mkExpiration mk) (snd s ! i)] else snd s))"

definition locker_Release :: "'r maker \<Rightarrow> string \<Rightarrow> nat \<Rightarrow> 'r lock_state \<Rightarrow> goerr option \<times> 'r lock_state" where
  "locker_Release mk key i s =
     (let l = (snd s ! i)\<lparr>lkTimer := False\<rparr>;
          (err, r) = maker_release mk key (lkVersion l) (fst s)
      in (err, r, (snd s)[i := (if err = None then l\<lparr>lkHeld := False\<rparr> else l)]))"

text \<open>\<open>renewal\<close>: when the timer fires, and the arming of the next timer.\<close>

definition renewal_fires :: "'r maker \<Rightarrow> string \<Rightarrow> nat \<Rightarrow> 'r lock_state \<Rightarrow> 'r lock_state option" where
  "renewal_fires mk key i s =
     (if \<not> lkTimer (snd s ! i) then None
      else let l = (snd s ! i)\<lparr>lkTimer := False\<rparr>;
               (err, r) = maker_renewal mk key (lkVersion l) (fst s)
           in Some (r, (snd s)[i := (if err = None then l\<lparr>lkRenewing := True, lkAge := 0, lkLife := mkExpiration mk\<rparr> else l)]))"

definition renewal_arms :: "nat \<Rightarrow> 'r lock_state \<Rightarrow> 'r lock_state option" where
  "renewal_arms i s =
     (if lkRenewing (snd s ! i) then Some (fst s, (snd s)[i := (snd s ! i)\<lparr>lkRenewing := False, lkTimer := True\<rparr>]) else None)"

definition time_passes :: "'r maker \<Rightarrow> int \<Rightarrow> 'r lock_state \<Rightarrow> 'r lock_state" where
  "time_passes mk d s = (lrTick (mkRedis mk) d (fst s), map (\<lambda>l. l\<lparr>lkAge := lkAge l + d\<rparr>) (snd s))"

text \<open>The steps.  Time passes only as far as no lock that is held outlives the lifetime it was granted: renewals, and
  releases of a lock taken with \<open>TryAcquire\<close>, come in time.\<close>

inductive lock_step :: "'r maker \<Rightarrow> string \<Rightarrow> 'r lock_state \<Rightarrow> 'r lock_state \<Rightarrow> bool" for mk key where
  acquire: "i < length (snd s) \<Longrightarrow> lock_step mk key s (snd (locker_Acquire mk key i s))"
| try_acquire: "\<lbrakk>i < length (snd s); \<forall>x. expiration = Some x \<longrightarrow> 0 < x\<rbrakk> \<Longrightarrow> lock_step mk key s (snd (locker_TryAcquire mk key expiration i s))"
| release: "i < length (snd s) \<Longrightarrow> lock_step mk key s (snd (locker_Release mk key i s))"
| fires: "\<lbrakk>i < length (snd s); renewal_fires mk key i s = Some s'\<rbrakk> \<Longrightarrow> lock_step mk key s s'"
| arms: "\<lbrakk>i < length (snd s); renewal_arms i s = Some s'\<rbrakk> \<Longrightarrow> lock_step mk key s s'"
| tick: "\<lbrakk>0 \<le> d; \<forall>l \<in> set (snd s). lkHeld l \<longrightarrow> lkAge l + d < lkLife l\<rbrakk> \<Longrightarrow> lock_step mk key s (time_passes mk d s)"

section \<open>What redis promises\<close>

definition lock_redis_laws :: "'r lock_redis \<Rightarrow> bool" where
  "lock_redis_laws rd \<longleftrightarrow>
     (\<forall>k v ttl r. 0 < ttl \<longrightarrow>
        (if lrGET rd k r = None
         then fst (lrSETNX rd k v ttl r) \<and> lrGET rd k (snd (lrSETNX rd k v ttl r)) = Some v \<and> lrTTL rd k (snd (lrSETNX rd k v ttl r)) = ttl
         else lrSETNX rd k v ttl r = (False, r))) \<and>
     (\<forall>k r. lrGET rd k (lrDEL rd k r) = None) \<and>
     (\<forall>k ttl r. 0 < ttl \<longrightarrow> lrGET rd k (lrPEXPIRE rd k ttl r) = lrGET rd k r \<and> (lrGET rd k r \<noteq> None \<longrightarrow> lrTTL rd k (lrPEXPIRE rd k ttl r) = ttl)) \<and>
     (\<forall>k d r. 0 \<le> d \<longrightarrow> lrGET rd k (lrTick rd d r) = (if lrTTL rd k r \<le> d then None else lrGET rd k r) \<and>
        (d < lrTTL rd k r \<longrightarrow> lrTTL rd k (lrTick rd d r) = lrTTL rd k r - d))"

definition maker_laws :: "'r maker \<Rightarrow> bool" where
  "maker_laws mk \<longleftrightarrow> lock_redis_laws (mkRedis mk) \<and> 0 < mkExpiration mk"


section \<open>Mutual exclusion\<close>

text \<open>The lock is held by the locker whose version the store has, and lives as long as granted.\<close>

definition lock_inv :: "'r maker \<Rightarrow> string \<Rightarrow> 'r lock_state \<Rightarrow> bool" where
  "lock_inv mk key s \<longleftrightarrow> distinct (map lkVersion (snd s)) \<and>
     (\<forall>l \<in> set (snd s). lkVersion l \<noteq> '''' \<and> (lkHeld l \<longleftrightarrow> lrGET (mkRedis mk) key (fst s) = Some (lkVersion l)) \<and>
        (lkHeld l \<longrightarrow> lkAge l < lkLife l \<and> lrTTL (mkRedis mk) key (fst s) = lkLife l - lkAge l))"

lemma setnx_cases:
  assumes "maker_laws mk" "0 < ttl"
  obtains "lrGET (mkRedis mk) k r = None" "fst (lrSETNX (mkRedis mk) k v ttl r)" "lrGET (mkRedis mk) k (snd (lrSETNX (mkRedis mk) k v ttl r)) = Some v"
      "lrTTL (mkRedis mk) k (snd (lrSETNX (mkRedis mk) k v ttl r)) = ttl"
    | v' where "lrGET (mkRedis mk) k r = Some v'" "lrSETNX (mkRedis mk) k v ttl r = (False, r)"
  using assms unfolding maker_laws_def lock_redis_laws_def by (cases "lrGET (mkRedis mk) k r") auto

text \<open>Lockers other than the one that acts keep their version.\<close>

lemma inv_change:
  assumes "lock_inv mk key (r, ls)" "i < length ls" "lkVersion l = lkVersion (ls ! i)"
    "lkHeld l \<longleftrightarrow> lrGET (mkRedis mk) key r' = Some (lkVersion l)"
    "lkHeld l \<longrightarrow> lkAge l < lkLife l \<and> lrTTL (mkRedis mk) key r' = lkLife l - lkAge l"
    "\<And>j. \<lbrakk>j < length ls; j \<noteq> i; lkHeld (ls ! j)\<rbrakk> \<Longrightarrow> r' = r"
    "\<And>j. \<lbrakk>j < length ls; j \<noteq> i; lrGET (mkRedis mk) key r' = Some (lkVersion (ls ! j))\<rbrakk> \<Longrightarrow> r' = r"
  shows "lock_inv mk key (r', ls[i := l])"
proof -
  have vs: "map lkVersion (ls[i := l]) = map lkVersion ls" using assms(2,3) by (simp add: map_update list_update_same_conv)
  have old: "lkVersion (ls ! j) \<noteq> '''' \<and> (lkHeld (ls ! j) \<longleftrightarrow> lrGET (mkRedis mk) key r = Some (lkVersion (ls ! j))) \<and>
      (lkHeld (ls ! j) \<longrightarrow> lkAge (ls ! j) < lkLife (ls ! j) \<and> lrTTL (mkRedis mk) key r = lkLife (ls ! j) - lkAge (ls ! j))" if "j < length ls" for j
    using assms(1) nth_mem [OF that] unfolding lock_inv_def by simp
  have "lkVersion x \<noteq> '''' \<and> (lkHeld x \<longleftrightarrow> lrGET (mkRedis mk) key r' = Some (lkVersion x)) \<and>
      (lkHeld x \<longrightarrow> lkAge x < lkLife x \<and> lrTTL (mkRedis mk) key r' = lkLife x - lkAge x)" if "x \<in> set (ls[i := l])" for x
  proof -
    obtain j where j: "j < length ls" "x = ls[i := l] ! j" using \<open>x \<in> set (ls[i := l])\<close> by (metis in_set_conv_nth length_list_update)
    show ?thesis
    proof (cases "j = i")
      case True
      then show ?thesis using j assms(2-5) old [OF assms(2)] by simp
    next
      case False
      have "lkHeld (ls ! j) \<longleftrightarrow> lrGET (mkRedis mk) key r' = Some (lkVersion (ls ! j))"
        using old [OF j(1)] assms(6,7) [OF j(1) False] by metis
      then show ?thesis using j False old [OF j(1)] assms(6) [OF j(1) False] by auto
    qed
  qed
  then show ?thesis using assms(1) vs unfolding lock_inv_def by simp
qed

lemma inv_at: "\<lbrakk>lock_inv mk key s; i < length (snd s)\<rbrakk> \<Longrightarrow> lkVersion (snd s ! i) \<noteq> '''' \<and>
    (lkHeld (snd s ! i) \<longleftrightarrow> lrGET (mkRedis mk) key (fst s) = Some (lkVersion (snd s ! i)))"
  unfolding lock_inv_def by simp

lemma inv_unique:
  assumes "lock_inv mk key s" "i < length (snd s)" "j < length (snd s)" "lrGET (mkRedis mk) key (fst s) = Some (lkVersion (snd s ! i))" "lkHeld (snd s ! j)"
  shows "i = j"
proof -
  have "lkVersion (snd s ! i) = lkVersion (snd s ! j)" using inv_at [OF assms(1,3)] assms(4,5) by simp
  moreover have "distinct (map lkVersion (snd s))" using assms(1) by (simp add: lock_inv_def)
  ultimately show ?thesis using assms(2,3) by (metis length_map nth_eq_iff_index_eq nth_map)
qed

lemma granted_inv:
  assumes "maker_laws mk" "lock_inv mk key s" "i < length (snd s)" "0 < life" "fst (lrSETNX (mkRedis mk) key (lkVersion (snd s ! i)) life (fst s))"
    "l = granted life (snd s ! i)\<lparr>lkTimer := t\<rparr>"
  shows "lock_inv mk key (snd (lrSETNX (mkRedis mk) key (lkVersion (snd s ! i)) life (fst s)), (snd s)[i := l])"
proof -
  have none: "lrGET (mkRedis mk) key (fst s) = None" and got: "lrGET (mkRedis mk) key (snd (lrSETNX (mkRedis mk) key (lkVersion (snd s ! i)) life (fst s))) = Some (lkVersion (snd s ! i))"
    "lrTTL (mkRedis mk) key (snd (lrSETNX (mkRedis mk) key (lkVersion (snd s ! i)) life (fst s))) = life"
    using setnx_cases [OF assms(1,4), of key "fst s" "lkVersion (snd s ! i)"] assms(5) by (metis fst_conv)+
  have d: "distinct (map lkVersion (snd s))" using assms(2) by (simp add: lock_inv_def)
  show ?thesis
  proof (rule inv_change [where r = "fst s"])
    fix j
    assume j: "j < length (snd s)" "j \<noteq> i"
    show "lkHeld (snd s ! j) \<Longrightarrow> snd (lrSETNX (mkRedis mk) key (lkVersion (snd s ! i)) life (fst s)) = fst s"
      using inv_at [OF assms(2) j(1)] none by simp
    assume "lrGET (mkRedis mk) key (snd (lrSETNX (mkRedis mk) key (lkVersion (snd s ! i)) life (fst s))) = Some (lkVersion (snd s ! j))"
    then have "lkVersion (snd s ! i) = lkVersion (snd s ! j)" using got(1) by simp
    then show "snd (lrSETNX (mkRedis mk) key (lkVersion (snd s ! i)) life (fst s)) = fst s"
      using d j assms(3) by (metis length_map nth_eq_iff_index_eq nth_map)
  qed (use assms got in \<open>simp_all add: granted_def\<close>)
qed


lemma refused:
  assumes "maker_laws mk" "0 < ttl" "\<not> fst (lrSETNX (mkRedis mk) k v ttl r)"
  shows "snd (lrSETNX (mkRedis mk) k v ttl r) = r"
  using setnx_cases [OF assms(1,2), of k r v] assms(3) by (metis snd_conv)

lemma acquire_inv:
  assumes "maker_laws mk" "lock_inv mk key s" "i < length (snd s)"
  shows "lock_inv mk key (snd (locker_Acquire mk key i s))"
proof -
  have pos: "0 < mkExpiration mk" using assms(1) by (simp add: maker_laws_def)
  show ?thesis
    using granted_inv [OF assms pos] refused [OF assms(1) pos] assms(2)
    by (auto simp: locker_Acquire_def acquire_once_def case_prod_unfold Let_def)
qed

lemma try_acquire_inv:
  assumes "maker_laws mk" "lock_inv mk key s" "i < length (snd s)" "\<forall>x. expiration = Some x \<longrightarrow> 0 < x"
  shows "lock_inv mk key (snd (locker_TryAcquire mk key expiration i s))"
proof -
  let ?life = "case expiration of Some x \<Rightarrow> x | None \<Rightarrow> mkExpiration mk"
  have same: "granted x l\<lparr>lkTimer := lkTimer l\<rparr> = granted x l" for x l by (cases l) (simp add: granted_def)
  have pos: "0 < ?life" using assms(1,4) by (auto simp: maker_laws_def split: option.splits)
  show ?thesis
    using granted_inv [OF assms(1-3) pos, of _ "lkTimer (snd s ! i)"] refused [OF assms(1) pos] assms(2)
    by (cases "mkErr mk") (auto simp: locker_TryAcquire_def tryAcquire_def same case_prod_unfold Let_def)
qed

lemma release_inv:
  assumes "maker_laws mk" "lock_inv mk key s" "i < length (snd s)"
  shows "lock_inv mk key (snd (locker_Release mk key i s))"
proof -
  let ?v = "lkVersion (snd s ! i)" and ?l = "(snd s ! i)\<lparr>lkTimer := False\<rparr>"
  have v: "?v \<noteq> ''''" "lkHeld (snd s ! i) \<longleftrightarrow> lrGET (mkRedis mk) key (fst s) = Some ?v" using inv_at [OF assms(2,3)] by simp_all
  have life: "lkHeld (snd s ! i) \<longrightarrow> lkAge (snd s ! i) < lkLife (snd s ! i) \<and> lrTTL (mkRedis mk) key (fst s) = lkLife (snd s ! i) - lkAge (snd s ! i)"
    using assms(2,3) by (simp add: lock_inv_def)
  have keep: "lock_inv mk key (fst s, (snd s)[i := ?l])"
    by (rule inv_change [where r = "fst s"]) (use assms(2,3) v life in simp_all)
  show ?thesis
  proof (cases "mkErr mk = None \<and> lrGET (mkRedis mk) key (fst s) = Some ?v")
    case True
    have del: "lrGET (mkRedis mk) key (lrDEL (mkRedis mk) key (fst s)) = None" using assms(1) by (simp add: maker_laws_def lock_redis_laws_def)
    have "lock_inv mk key (lrDEL (mkRedis mk) key (fst s), (snd s)[i := ?l\<lparr>lkHeld := False\<rparr>])"
    proof (rule inv_change [where r = "fst s"])
      fix j
      assume "j < length (snd s)" "j \<noteq> i" "lkHeld (snd s ! j)"
      then show "lrDEL (mkRedis mk) key (fst s) = fst s" using inv_unique [OF assms(2,3)] True by blast
    qed (use assms(2,3) del in simp_all)
    then show ?thesis using True v(1) by (simp add: locker_Release_def maker_release_def releaseScript_def Let_def)
  next
    case False
    have same: "(snd s ! i)\<lparr>lkTimer := False, lkHeld := False\<rparr> = ?l" if "\<not> lkHeld (snd s ! i)" using that by (cases "snd s ! i") simp
    show ?thesis using keep v False
      by (cases "mkErr mk") (auto simp: locker_Release_def maker_release_def releaseScript_def Let_def same)
  qed
qed


lemma fires_inv:
  assumes "maker_laws mk" "lock_inv mk key s" "i < length (snd s)" "renewal_fires mk key i s = Some s'"
  shows "lock_inv mk key s'"
proof -
  let ?v = "lkVersion (snd s ! i)" and ?l = "(snd s ! i)\<lparr>lkTimer := False\<rparr>"
  let ?r = "lrPEXPIRE (mkRedis mk) key (mkExpiration mk) (fst s)"
  have pos: "0 < mkExpiration mk" using assms(1) by (simp add: maker_laws_def)
  have v: "?v \<noteq> ''''" "lkHeld (snd s ! i) \<longleftrightarrow> lrGET (mkRedis mk) key (fst s) = Some ?v" using inv_at [OF assms(2,3)] by simp_all
  have life: "lkHeld (snd s ! i) \<longrightarrow> lkAge (snd s ! i) < lkLife (snd s ! i) \<and> lrTTL (mkRedis mk) key (fst s) = lkLife (snd s ! i) - lkAge (snd s ! i)"
    using assms(2,3) by (simp add: lock_inv_def)
  have ex: "lrGET (mkRedis mk) key ?r = lrGET (mkRedis mk) key (fst s)" "lrGET (mkRedis mk) key (fst s) \<noteq> None \<longrightarrow> lrTTL (mkRedis mk) key ?r = mkExpiration mk"
    using assms(1) pos by (simp_all add: maker_laws_def lock_redis_laws_def)
  have keep: "lock_inv mk key (fst s, (snd s)[i := ?l])"
    by (rule inv_change [where r = "fst s"]) (use assms(2,3) v life in simp_all)
  show ?thesis
  proof (cases "mkErr mk = None \<and> lrGET (mkRedis mk) key (fst s) = Some ?v")
    case True
    have one: "j = i" if "j < length (snd s)" "lrGET (mkRedis mk) key (fst s) = Some (lkVersion (snd s ! j))" for j
      using inv_unique [OF assms(2) that(1) assms(3)] that(2) v(2) True by blast
    have "lock_inv mk key (?r, (snd s)[i := ?l\<lparr>lkRenewing := True, lkAge := 0, lkLife := mkExpiration mk\<rparr>])"
    proof (rule inv_change [where r = "fst s"])
      fix j
      assume j: "j < length (snd s)" "j \<noteq> i"
      show "lkHeld (snd s ! j) \<Longrightarrow> ?r = fst s" using one [OF j(1)] inv_at [OF assms(2) j(1)] j(2) by simp
      show "lrGET (mkRedis mk) key ?r = Some (lkVersion (snd s ! j)) \<Longrightarrow> ?r = fst s" using one [OF j(1)] j(2) ex(1) by simp
    qed (use assms(2,3) v ex pos True in simp_all)
    then show ?thesis using True v(1) assms(4) by (simp add: renewal_fires_def maker_renewal_def renewalScript_def Let_def split: if_splits)
  next
    case False
    then show ?thesis using keep v assms(4)
      by (cases "mkErr mk") (auto simp: renewal_fires_def maker_renewal_def renewalScript_def Let_def split: if_splits)
  qed
qed

lemma arms_inv:
  assumes "lock_inv mk key s" "i < length (snd s)" "renewal_arms i s = Some s'"
  shows "lock_inv mk key s'"
proof -
  have "s' = (fst s, (snd s)[i := (snd s ! i)\<lparr>lkRenewing := False, lkTimer := True\<rparr>])"
    using assms(3) by (simp add: renewal_arms_def split: if_splits)
  moreover have "lock_inv mk key (fst s, (snd s)[i := (snd s ! i)\<lparr>lkRenewing := False, lkTimer := True\<rparr>])"
    by (rule inv_change [where r = "fst s"]) (use assms(1,2) in \<open>simp_all add: lock_inv_def\<close>)
  ultimately show ?thesis by simp
qed

lemma tick_inv:
  assumes "maker_laws mk" "lock_inv mk key s" "0 \<le> d" "\<forall>l \<in> set (snd s). lkHeld l \<longrightarrow> lkAge l + d < lkLife l"
  shows "lock_inv mk key (time_passes mk d s)"
proof -
  have t: "lrGET (mkRedis mk) key (lrTick (mkRedis mk) d (fst s)) = (if lrTTL (mkRedis mk) key (fst s) \<le> d then None else lrGET (mkRedis mk) key (fst s))"
    "d < lrTTL (mkRedis mk) key (fst s) \<longrightarrow> lrTTL (mkRedis mk) key (lrTick (mkRedis mk) d (fst s)) = lrTTL (mkRedis mk) key (fst s) - d"
    using assms(1,3) by (simp_all add: maker_laws_def lock_redis_laws_def)
  have "d < lrTTL (mkRedis mk) key (fst s)" if "l \<in> set (snd s)" "lkHeld l" for l
    using assms(2,4) that unfolding lock_inv_def by fastforce
  then show ?thesis using assms(2,4) t unfolding lock_inv_def time_passes_def by (auto simp: comp_def)
qed

lemma lock_reach:
  assumes "(lock_step mk key)\<^sup>*\<^sup>* s0 s" "maker_laws mk" "lock_inv mk key s0"
  shows "lock_inv mk key s"
  using assms(1)
proof (induction rule: rtranclp_induct)
  case (step s s')
  from step(2,3) show ?case
    by cases (auto intro: acquire_inv [OF assms(2)] try_acquire_inv [OF assms(2)] release_inv [OF assms(2)] fires_inv [OF assms(2)] arms_inv tick_inv [OF assms(2)])
qed (rule assms(3))

text \<open>C7. The redis lock excludes.  Lockers of one key, with different versions, take, renew and release it in any interleaving, the
  renewal that is under way during a release included; as long as no grant outlives its lifetime, at most one of them
  holds the lock, the store names it, and every attempt of every locker fails while it does.\<close>

theorem redis_lock_excludes:
  assumes "(lock_step mk key)\<^sup>*\<^sup>* (r0, map new_locker versions) s" "maker_laws mk" "mkErr mk = None"
    "lrGET (mkRedis mk) key r0 = None" "distinct versions" "'''' \<notin> set versions"
    "i < length (snd s)" "lkHeld (snd s ! i)" "j < length (snd s)"
  shows "(lkHeld (snd s ! j) \<longrightarrow> j = i) \<and> lrGET (mkRedis mk) key (fst s) = Some (lkVersion (snd s ! i))
    \<and> locker_Acquire mk key j s = (False, s) \<and> fst (locker_TryAcquire mk key None j s) = Some ErrIllegalOperation"
proof -
  have "lock_inv mk key (r0, map new_locker versions)"
    using assms(4-6) by (auto simp: lock_inv_def new_locker_def comp_def)
  then have inv: "lock_inv mk key s" by (rule lock_reach [OF assms(1,2)])
  have get: "lrGET (mkRedis mk) key (fst s) = Some (lkVersion (snd s ! i))" using inv_at [OF inv assms(7)] assms(8) by simp
  have "lrSETNX (mkRedis mk) key v (mkExpiration mk) (fst s) = (False, fst s)" for v
    using assms(2) get by (simp add: maker_laws_def lock_redis_laws_def)
  then show ?thesis using get inv_unique [OF inv assms(7,9) get] assms(3)
    by (auto simp: locker_Acquire_def acquire_once_def locker_TryAcquire_def tryAcquire_def)
qed


section \<open>Giving up\<close>

lemma loop_fails: "retries \<le> n + 1 \<Longrightarrow> 0 < n \<Longrightarrow> acquire_loop n retries (replicate k (Ok False)) =
    (if k + retries < n + 2 then None else Some (Ok (Some ErrDeadlineExceeded)))"
proof (induction k arbitrary: retries)
  case (Suc k)
  then show ?case by (cases "retries > n") auto
qed simp

lemma loop_returns: "\<lbrakk>0 < n; n + 2 \<le> length anss + retries; retries \<le> n + 1\<rbrakk> \<Longrightarrow> acquire_loop n retries anss \<noteq> None"
proof (induction anss arbitrary: retries)
  case (Cons ans anss)
  show ?case
  proof (cases "ans = Ok False")
    case True
    then show ?thesis using Cons.IH [of "Suc retries"] Cons.prems by auto
  qed (auto split: go.splits bool.splits)
qed simp

text \<open>Acquiring with a retry limit ends: whatever redis answers, it returns after at most two attempts more than the limit, and when
  every attempt is refused it gives up after exactly that many.\<close>

theorem acquire_gives_up:
  assumes "mkErr mk = None" "0 < mkMaxRetries mk"
  shows "(mkMaxRetries mk + 2 \<le> length anss \<longrightarrow> maker_acquire mk anss \<noteq> None)
    \<and> maker_acquire mk (replicate k (Ok False)) = (if k < mkMaxRetries mk + 2 then None else Some (Ok (Some ErrDeadlineExceeded)))"
  using assms loop_fails [of 0 "mkMaxRetries mk" k] loop_returns [of "mkMaxRetries mk" anss 0] by (simp add: maker_acquire_def)

section \<open>A store\<close>

type_synonym lock_store = "string \<Rightarrow> (string \<times> int) option"

definition live_entry :: "(string \<times> int) option \<Rightarrow> (string \<times> int) option" where
  "live_entry e = (case e of Some (v, ttl) \<Rightarrow> if ttl \<le> 0 then None else Some (v, ttl) | None \<Rightarrow> None)"

definition map_lock_redis :: "lock_store lock_redis" where
  "map_lock_redis = \<lparr>lrGET = (\<lambda>k r. map_option fst (live_entry (r k))), lrTTL = (\<lambda>k r. case live_entry (r k) of Some (v, ttl) \<Rightarrow> ttl | None \<Rightarrow> 0),
     lrSETNX = (\<lambda>k v ttl r. if live_entry (r k) = None then (True, r(k \<mapsto> (v, ttl))) else (False, r)), lrDEL = (\<lambda>k r. r(k := None)),
     lrPEXPIRE = (\<lambda>k ttl r. r(k := map_option (\<lambda>(v, _). (v, ttl)) (live_entry (r k)))),
     lrTick = (\<lambda>d r k. map_option (\<lambda>(v, ttl). (v, ttl - d)) (live_entry (r k)))\<rparr>"

definition sample_maker :: "lock_store maker" where
  "sample_maker = \<lparr>mkErr = None, mkPrefix = ''xbase:lock'', mkExpiration = 3000, mkMaxRetries = 3, mkRedis = map_lock_redis\<rparr>"

lemma map_lock_redis_laws: "lock_redis_laws map_lock_redis"
  unfolding lock_redis_laws_def
  by (intro conjI allI) (auto simp: map_lock_redis_def live_entry_def split: option.splits if_splits)

lemma sample_maker_laws: "maker_laws sample_maker"
  by (simp add: maker_laws_def sample_maker_def map_lock_redis_laws)

theorem redis_lock_excludes_witness:
  "\<exists>s. lkHeld (snd s ! 0) \<and> locker_Acquire sample_maker ''room'' 1 s = (False, s)"
proof -
  let ?s0 = "(Map.empty, map new_locker [''a'', ''b''])" and ?k = "''room''"
  let ?s1 = "snd (locker_Acquire sample_maker ?k 0 ?s0)"
  let ?s2 = "time_passes sample_maker 1500 ?s1"
  have l: "length (snd ?s1) = 2" by (simp add: locker_Acquire_def Let_def case_prod_unfold)
  have "lock_step sample_maker ?k ?s0 ?s1" by (rule lock_step.acquire) simp
  moreover have "lock_step sample_maker ?k ?s1 ?s2"
    by (rule lock_step.tick) (simp_all add: locker_Acquire_def acquire_once_def sample_maker_def map_lock_redis_def live_entry_def granted_def new_locker_def)
  ultimately have r: "(lock_step sample_maker ?k)\<^sup>*\<^sup>* ?s0 ?s2" by (meson r_into_rtranclp rtranclp.rtrancl_into_rtrancl)
  have h: "length (snd ?s2) = 2" "lkHeld (snd ?s2 ! 0)"
    by (simp_all add: time_passes_def locker_Acquire_def acquire_once_def sample_maker_def map_lock_redis_def live_entry_def granted_def new_locker_def)
  have e: "mkErr sample_maker = None" "lrGET (mkRedis sample_maker) ?k Map.empty = None"
    by (simp_all add: sample_maker_def map_lock_redis_def live_entry_def)
  have b: "distinct [''a'', ''b'']" "[] \<notin> set [''a'', ''b'']" "0 < length (snd ?s2)" "1 < length (snd ?s2)" using h(1) by simp_all
  have "locker_Acquire sample_maker ?k 1 ?s2 = (False, ?s2)"
    using redis_lock_excludes [OF r sample_maker_laws e b(1-3) h(2) b(4)] by blast
  then show ?thesis using h by blast
qed

theorem acquire_gives_up_witness: "maker_acquire sample_maker (replicate 5 (Ok False)) = Some (Ok (Some ErrDeadlineExceeded))"
  using acquire_gives_up [of sample_maker "[]" 5] by (simp add: sample_maker_def)

end
