(* ===== verification/NetConn.thy ===== *)
theory NetConn
  imports LinkConn "HOL-Library.Sublist"
begin

text \<open>
  \<open>network/tcp/server_conn.go\<close>: the connection of a client, as interleaved steps of the goroutines that work on it:
  senders, callers of \<open>Close\<close>, the reader, the loop that calls the handler, the writer and the authorization timer.
  A step is what a goroutine does between two points at which others can interfere.
\<close>

section \<open>The connection\<close>

datatype ConnState = NetOpened | NetHanged | NetClosed

datatype chWrite = closeSig | dataPacket bytes

datatype reader_pc = RIdle | RHave bytes | REnd

datatype writer_pc = WIdle | WBusy bytes | WEnd

text \<open>\<open>tcDone\<close>, \<open>tcClose\<close> and \<open>tcRecvClosed\<close> tell that the channel is closed; \<open>tcClosing\<close> that a goroutine has won the
  exchange to the closed state and is about to run \<open>doClose\<close>.  \<open>tcSenders\<close> are the messages of goroutines that wait
  in \<open>enqueueWrite\<close>, \<open>tcPuts\<close> the places in the log of those that have put theirs and not returned yet,
  \<open>tcSig\<close> the one that closes and has to send the signal, \<open>tcGracers\<close> the number of those that wait for
  \<open>done\<close>.  The rest is history: \<open>tcLog\<close> is what entered the write queue, \<open>tcAcked\<close> the places of the messages whose
  sender was told that all is well, \<open>tcWire\<close> what was written, \<open>tcFrames\<close> and \<open>tcHandled\<close> the frames put into and
  handled from the receive queue, \<open>tcFlushed\<close> that the writer met the signal.\<close>

record tconn =
  tcID :: int64
  tcUID :: int64
  tcState :: ConnState
  tcConn :: bool
  tcGen :: nat
  tcRecvQ :: "bytes list"
  tcRecvClosed :: bool
  tcWriteQ :: "chWrite list"
  tcDone :: bool
  tcClose :: bool
  tcOnce :: bool
  tcClosing :: bool
  tcTimer :: bool
  tcSenders :: "bytes list"
  tcPuts :: "nat list"
  tcSig :: bool
  tcGracers :: nat
  tcReader :: reader_pc
  tcLoop :: bool
  tcWriter :: writer_pc
  tcLog :: "chWrite list"
  tcAcked :: "nat list"
  tcWire :: "bytes list"
  tcFrames :: "bytes list"
  tcHandled :: "bytes list"
  tcFlushed :: bool
  tcDisconnects :: nat
  tcPanic :: bool

abbreviation (input) recv_queue_size :: nat where "recv_queue_size \<equiv> 1024"

abbreviation (input) write_queue_size :: nat where "write_queue_size \<equiv> 4096"

section \<open>Authorization\<close>

text \<open>\<open>auth\<close>: the server has an authorization timeout.\<close>

definition checkAuthorize :: "bool \<Rightarrow> tconn \<Rightarrow> tconn" where
  "checkAuthorize auth c = (if auth then c\<lparr>tcTimer := True\<rparr> else c)"

definition uncheckAuthorize :: "bool \<Rightarrow> tconn \<Rightarrow> tconn" where
  "uncheckAuthorize auth c = (if auth then c\<lparr>tcTimer := False\<rparr> else c)"

definition tc_Bind :: "bool \<Rightarrow> int64 \<Rightarrow> tconn \<Rightarrow> tconn" where
  "tc_Bind auth uid c = uncheckAuthorize auth (c\<lparr>tcUID := uid\<rparr>)"

definition tc_Unbind :: "bool \<Rightarrow> tconn \<Rightarrow> tconn" where
  "tc_Unbind auth c = checkAuthorize auth (c\<lparr>tcUID := 0\<rparr>)"

text \<open>\<open>init\<close> on an object of the pool; the handlers run as other goroutines of the server.\<close>

definition tc_init :: "bool \<Rightarrow> int64 \<Rightarrow> nat \<Rightarrow> tconn" where
  "tc_init auth cid gen = checkAuthorize auth
     \<lparr>tcID = cid, tcUID = 0, tcState = NetOpened, tcConn = True, tcGen = Suc gen, tcRecvQ = [], tcRecvClosed = False, tcWriteQ = [],
      tcDone = False, tcClose = False, tcOnce = False, tcClosing = False, tcTimer = False, tcSenders = [], tcPuts = [], tcSig = False,
      tcGracers = 0, tcReader = RIdle, tcLoop = True, tcWriter = WIdle, tcLog = [], tcAcked = [], tcWire = [], tcFrames = [],
      tcHandled = [], tcFlushed = False, tcDisconnects = 0, tcPanic = False\<rparr>"

section \<open>Closing\<close>

definition tc_checkState :: "tconn \<Rightarrow> goerr option" where
  "tc_checkState c =
     (case tcState c of NetHanged \<Rightarrow> Some ErrConnectionHanged | NetClosed \<Rightarrow> Some ErrConnectionClosed | NetOpened \<Rightarrow> None)"

text \<open>\<open>forceClose\<close>: the exchange; the winner goes on with \<open>doClose\<close>.\<close>

definition forceClose :: "bool \<Rightarrow> tconn \<Rightarrow> goerr option \<times> tconn" where
  "forceClose auth c =
     (if tcState c = NetClosed then (Some ErrConnectionClosed, c)
      else (None, uncheckAuthorize auth (c\<lparr>tcState := NetClosed, tcClosing := True\<rparr>)))"

definition forceCloseIfCurrent :: "bool \<Rightarrow> nat \<Rightarrow> tconn \<Rightarrow> goerr option \<times> tconn" where
  "forceCloseIfCurrent auth gen c = (if tcGen c \<noteq> gen then (None, c) else forceClose auth c)"

definition notifyDone :: "tconn \<Rightarrow> tconn" where
  "notifyDone c = c\<lparr>tcDone := True\<rparr>"

definition tc_doClose :: "bool \<Rightarrow> tconn \<Rightarrow> tconn option" where
  "tc_doClose auth c =
     (if \<not> tcClosing c then None
      else let c = c\<lparr>tcClosing := False\<rparr>
           in if tcOnce c then Some c
              else Some ((notifyDone ((uncheckAuthorize auth (c\<lparr>tcOnce := True\<rparr>))\<lparr>tcClose := True\<rparr>))
                     \<lparr>tcRecvClosed := True, tcConn := False, tcDisconnects := tcDisconnects c + 1\<rparr>))"

text \<open>\<open>graceClose\<close>: the first caller hangs the connection and sends the signal, others wait with it for \<open>done\<close>.\<close>

definition graceClose :: "bool \<Rightarrow> tconn \<Rightarrow> tconn" where
  "graceClose auth c =
     (case tcState c of
        NetOpened \<Rightarrow> uncheckAuthorize auth (c\<lparr>tcState := NetHanged, tcSig := True\<rparr>)
      | NetHanged \<Rightarrow> c\<lparr>tcGracers := tcGracers c + 1\<rparr>
      | NetClosed \<Rightarrow> c)"

definition finishGraceClose :: "tconn \<Rightarrow> goerr option \<times> tconn" where
  "finishGraceClose c =
     (case tcState c of
        NetHanged \<Rightarrow> (None, c\<lparr>tcState := NetClosed, tcClosing := True\<rparr>)
      | NetClosed \<Rightarrow> (None, c)
      | NetOpened \<Rightarrow> (Some ErrConnectionNotHanged, c))"

definition grace_noconn :: "tconn \<Rightarrow> tconn option" where
  "grace_noconn c = (if tcSig c \<and> \<not> tcConn c then Some (snd (finishGraceClose (c\<lparr>tcSig := False\<rparr>))) else None)"

definition grace_sig :: "tconn \<Rightarrow> tconn option" where
  "grace_sig c =
     (if tcSig c \<and> length (tcWriteQ c) < write_queue_size
      then Some (c\<lparr>tcSig := False, tcGracers := tcGracers c + 1, tcWriteQ := tcWriteQ c @ [closeSig], tcLog := tcLog c @ [closeSig]\<rparr>)
      else None)"

definition grace_closed :: "tconn \<Rightarrow> tconn option" where
  "grace_closed c = (if tcSig c \<and> tcClose c then Some (c\<lparr>tcSig := False\<rparr>) else None)"

definition grace_done :: "tconn \<Rightarrow> tconn option" where
  "grace_done c =
     (if tcGracers c > 0 \<and> tcDone c then Some (snd (finishGraceClose (c\<lparr>tcGracers := tcGracers c - 1\<rparr>))) else None)"

definition tc_Close :: "bool \<Rightarrow> bool \<Rightarrow> tconn \<Rightarrow> tconn" where
  "tc_Close auth force c = (if force then snd (forceClose auth c) else graceClose auth c)"

text \<open>The timer: it keeps a bound user.\<close>

definition timer_expires :: "bool \<Rightarrow> nat \<Rightarrow> tconn \<Rightarrow> tconn" where
  "timer_expires auth gen c =
     (if tcGen c \<noteq> gen \<or> tcUID c \<noteq> 0 then c else snd (forceCloseIfCurrent auth gen c))"

section \<open>Sending\<close>

text \<open>\<open>enqueueWrite\<close> up to the queue: \<open>Some\<close> is what it returns, \<open>None\<close> that it waits for the queue.\<close>

definition enqueueWrite :: "bytes \<Rightarrow> tconn \<Rightarrow> goerr option option \<times> tconn" where
  "enqueueWrite msg c =
     (if length msg = 0 then (Some None, c)
      else if tcState c \<noteq> NetOpened then (Some (tc_checkState c), c)
      else if \<not> tcConn c then (Some (Some ErrConnectionClosed), c)
      else (None, c\<lparr>tcSenders := msg # tcSenders c\<rparr>))"

definition enqueue_put :: "bytes \<Rightarrow> tconn \<Rightarrow> tconn option" where
  "enqueue_put msg c =
     (if msg \<in> set (tcSenders c) \<and> length (tcWriteQ c) < write_queue_size
      then Some (c\<lparr>tcSenders := remove1 msg (tcSenders c), tcWriteQ := tcWriteQ c @ [dataPacket msg],
        tcPuts := length (tcLog c) # tcPuts c, tcLog := tcLog c @ [dataPacket msg]\<rparr>) else None)"

text \<open>The sender looks at the state again before it returns.\<close>

definition enqueue_return :: "nat \<Rightarrow> tconn \<Rightarrow> (goerr option \<times> tconn) option" where
  "enqueue_return p c =
     (if p \<in> set (tcPuts c)
      then let c = c\<lparr>tcPuts := remove1 p (tcPuts c)\<rparr>
           in Some (if tcState c \<noteq> NetOpened then (tc_checkState c, c) else (None, c\<lparr>tcAcked := p # tcAcked c\<rparr>)) else None)"

definition enqueue_closed :: "bytes \<Rightarrow> tconn \<Rightarrow> tconn option" where
  "enqueue_closed msg c =
     (if msg \<in> set (tcSenders c) \<and> tcClose c then Some (c\<lparr>tcSenders := remove1 msg (tcSenders c)\<rparr>) else None)"

definition enqueue_timeout :: "bool \<Rightarrow> bytes \<Rightarrow> tconn \<Rightarrow> tconn option" where
  "enqueue_timeout auth msg c =
     (if msg \<in> set (tcSenders c) then Some (snd (forceClose auth (c\<lparr>tcSenders := remove1 msg (tcSenders c)\<rparr>))) else None)"

section \<open>The goroutines of the connection\<close>

text \<open>\<open>read\<close>: a frame or an error of the socket; then the receive queue, which panics when it has been closed since
  the look at the state.\<close>

definition tc_read :: "bool \<Rightarrow> bytes go \<Rightarrow> tconn \<Rightarrow> tconn option" where
  "tc_read auth res c =
     (if tcReader c \<noteq> RIdle then None
      else case res of
        Ok data \<Rightarrow>
          Some (case tcState c of
                  NetHanged \<Rightarrow> c
                | NetClosed \<Rightarrow> c\<lparr>tcReader := REnd\<rparr>
                | NetOpened \<Rightarrow> if length data = 0 then c else c\<lparr>tcReader := RHave data\<rparr>)
      | _ \<Rightarrow> Some ((snd (forceCloseIfCurrent auth (tcGen c) c))\<lparr>tcReader := REnd\<rparr>))"

definition TryEnqueueRecv :: "bytes \<Rightarrow> tconn \<Rightarrow> bool go \<times> tconn" where
  "TryEnqueueRecv data c =
     (if tcRecvClosed c then (Panic, c)
      else if length (tcRecvQ c) < recv_queue_size then (Ok True, c\<lparr>tcRecvQ := tcRecvQ c @ [data], tcFrames := tcFrames c @ [data]\<rparr>)
      else (Ok False, c))"

definition read_put :: "bool \<Rightarrow> tconn \<Rightarrow> tconn option" where
  "read_put auth c =
     (case tcReader c of
        RHave data \<Rightarrow>
          Some (case TryEnqueueRecv data c of
                  (Ok True, c) \<Rightarrow> c\<lparr>tcReader := RIdle\<rparr>
                | (Ok False, c) \<Rightarrow> (snd (forceCloseIfCurrent auth (tcGen c) c))\<lparr>tcReader := REnd\<rparr>
                | (_, c) \<Rightarrow> c\<lparr>tcReader := REnd, tcPanic := True\<rparr>)
      | _ \<Rightarrow> None)"

definition read_exit :: "tconn \<Rightarrow> tconn option" where
  "read_exit c = (if tcReader c = RIdle \<and> tcClose c then Some (c\<lparr>tcReader := REnd\<rparr>) else None)"

definition receiveLoop :: "tconn \<Rightarrow> tconn option" where
  "receiveLoop c =
     (if \<not> tcLoop c then None
      else case tcRecvQ c of
        [] \<Rightarrow> if tcRecvClosed c then Some (c\<lparr>tcLoop := False\<rparr>) else None
      | data # q \<Rightarrow>
          let c = c\<lparr>tcRecvQ := q\<rparr>
          in Some (if tcState c \<noteq> NetOpened then c\<lparr>tcLoop := False\<rparr> else c\<lparr>tcHandled := tcHandled c @ [data]\<rparr>))"

definition tc_write :: "bool \<Rightarrow> tconn \<Rightarrow> tconn option" where
  "tc_write auth c =
     (if tcWriter c \<noteq> WIdle then None
      else case tcWriteQ c of
        [] \<Rightarrow> None
      | closeSig # q \<Rightarrow> Some ((notifyDone (c\<lparr>tcWriteQ := q\<rparr>))\<lparr>tcWriter := WEnd, tcFlushed := True\<rparr>)
      | dataPacket msg # q \<Rightarrow>
          let c = c\<lparr>tcWriteQ := q\<rparr>
          in Some (if tcState c = NetClosed then c\<lparr>tcWriter := WEnd\<rparr>
                   else if \<not> tcConn c then (snd (forceCloseIfCurrent auth (tcGen c) c))\<lparr>tcWriter := WEnd\<rparr>
                   else c\<lparr>tcWriter := WBusy msg\<rparr>))"

definition write_done :: "bool \<Rightarrow> bool \<Rightarrow> tconn \<Rightarrow> tconn option" where
  "write_done auth ok c =
     (case tcWriter c of
        WBusy msg \<Rightarrow>
          Some (if ok then c\<lparr>tcWriter := WIdle, tcWire := tcWire c @ [msg]\<rparr>
                else (snd (forceCloseIfCurrent auth (tcGen c) c))\<lparr>tcWriter := WEnd\<rparr>)
      | _ \<Rightarrow> None)"

definition write_leave :: "tconn \<Rightarrow> tconn option" where
  "write_leave c = (if tcWriter c = WIdle \<and> tcClose c then Some (c\<lparr>tcWriter := WEnd\<rparr>) else None)"

text \<open>\<open>writeFull\<close>.\<close>

function writeFull :: "'w io_writer \<Rightarrow> bytes \<Rightarrow> 'w \<Rightarrow> goerr option go \<times> 'w" where
  "writeFull wr data st =
     (if length data > 0
      then case wr data st of
             (n, err, st) \<Rightarrow>
               if err \<noteq> None then (Ok err, st)
               else if n \<le> 0 then (Ok (Some IoErrShortWrite), st)
               else if n > length data then (Panic, st)
               else writeFull wr (drop n data) st
      else (Ok None, st))"
  by auto
termination by (relation "measure (\<lambda>(wr, data, st). length data)") auto

declare writeFull.simps [simp del]

section \<open>Runs\<close>

datatype tc_event =
    EBind int64 | EUnbind | ESend bytes | EPut bytes | EReturn nat | ESendClosed bytes | ESendTimeout bytes
  | EClose bool | EDoClose | ENoConn | ESig | ESigClosed | EGraceDone | ETimer
  | ERead "bytes go" | EReadPut | EReadExit | ELoop | EWrite | EWritten bool | EWriteExit

fun tc_step :: "bool \<Rightarrow> tc_event \<Rightarrow> tconn \<Rightarrow> tconn option" where
  "tc_step auth (EBind uid) c = Some (tc_Bind auth uid c)"
| "tc_step auth EUnbind c = Some (tc_Unbind auth c)"
| "tc_step auth (ESend msg) c = Some (snd (enqueueWrite msg c))"
| "tc_step auth (EPut msg) c = enqueue_put msg c"
| "tc_step auth (EReturn p) c = map_option snd (enqueue_return p c)"
| "tc_step auth (ESendClosed msg) c = enqueue_closed msg c"
| "tc_step auth (ESendTimeout msg) c = enqueue_timeout auth msg c"
| "tc_step auth (EClose force) c = Some (tc_Close auth force c)"
| "tc_step auth EDoClose c = tc_doClose auth c"
| "tc_step auth ENoConn c = grace_noconn c"
| "tc_step auth ESig c = grace_sig c"
| "tc_step auth ESigClosed c = grace_closed c"
| "tc_step auth EGraceDone c = grace_done c"
| "tc_step auth ETimer c = (if tcTimer c then Some (timer_expires auth (tcGen c) (c\<lparr>tcTimer := False\<rparr>)) else None)"
| "tc_step auth (ERead res) c = tc_read auth res c"
| "tc_step auth EReadPut c = read_put auth c"
| "tc_step auth EReadExit c = read_exit c"
| "tc_step auth ELoop c = receiveLoop c"
| "tc_step auth EWrite c = tc_write auth c"
| "tc_step auth (EWritten ok) c = write_done auth ok c"
| "tc_step auth EWriteExit c = write_leave c"

fun tc_run :: "bool \<Rightarrow> tc_event list \<Rightarrow> tconn \<Rightarrow> tconn option" where
  "tc_run auth [] c = Some c"
| "tc_run auth (e # es) c = Option.bind (tc_step auth e c) (tc_run auth es)"

lemmas tc_step_defs = tc_Bind_def tc_Unbind_def checkAuthorize_def uncheckAuthorize_def enqueueWrite_def enqueue_put_def enqueue_return_def
  enqueue_closed_def enqueue_timeout_def tc_Close_def forceClose_def graceClose_def tc_doClose_def notifyDone_def grace_noconn_def grace_sig_def
  grace_closed_def grace_done_def finishGraceClose_def timer_expires_def forceCloseIfCurrent_def tc_read_def TryEnqueueRecv_def read_put_def
  read_exit_def receiveLoop_def tc_write_def write_done_def write_leave_def


lemma writeFull_writeAll: "writeFull wr data st = writeAll wr data st"
proof (induction wr data st rule: writeFull.induct)
  case (1 wr data st)
  show ?case
  proof (cases "wr data st")
    case (fields n err st')
    then show ?thesis using 1 by (cases "length data > 0") (auto simp: writeFull.simps [of wr data] writeAll.simps [of wr data] writeFull.simps [of wr "[]"] writeAll.simps [of wr "[]"])
  qed
qed

section \<open>Invariants\<close>

text \<open>What is written comes first in the log, then what the writer holds, then the queue; a writer that met the signal
  has written all before it.\<close>

definition write_inv :: "tconn \<Rightarrow> bool" where
  "write_inv c \<longleftrightarrow>
     (case tcWriter c of
        WIdle \<Rightarrow> tcLog c = map dataPacket (tcWire c) @ tcWriteQ c
      | WBusy msg \<Rightarrow> tcLog c = map dataPacket (tcWire c) @ dataPacket msg # tcWriteQ c
      | WEnd \<Rightarrow> prefix (map dataPacket (tcWire c)) (tcLog c)) \<and>
     (tcFlushed c \<longrightarrow> tcWriter c = WEnd \<and> (\<exists>q. tcLog c = map dataPacket (tcWire c) @ closeSig # q))"

text \<open>A message whose sender was told that all is well stands before every signal.\<close>

definition ack_inv :: "tconn \<Rightarrow> bool" where
  "ack_inv c \<longleftrightarrow> (closeSig \<in> set (tcLog c) \<or> tcSig c \<longrightarrow> tcState c \<noteq> NetOpened) \<and> (\<forall>p \<in> set (tcPuts c). p < length (tcLog c)) \<and>
     (\<forall>p \<in> set (tcAcked c). p < length (tcLog c) \<and> closeSig \<notin> set (take (Suc p) (tcLog c)))"

definition recv_inv :: "tconn \<Rightarrow> bool" where
  "recv_inv c \<longleftrightarrow> prefix (tcHandled c) (tcFrames c) \<and> (tcLoop c \<longrightarrow> tcFrames c = tcHandled c @ tcRecvQ c)"

text \<open>The connection is closed when \<open>doClose\<close> has run or is about to run, once.\<close>

definition close_inv :: "tconn \<Rightarrow> bool" where
  "close_inv c \<longleftrightarrow> (tcState c = NetClosed \<longleftrightarrow> tcClosing c \<or> tcOnce c) \<and> \<not> (tcClosing c \<and> tcOnce c) \<and>
     (tcClose c \<longleftrightarrow> tcOnce c) \<and> (tcRecvClosed c \<longleftrightarrow> tcOnce c) \<and> (tcConn c \<longleftrightarrow> \<not> tcOnce c) \<and> (tcOnce c \<longrightarrow> tcDone c) \<and>
     (tcDone c \<longrightarrow> tcOnce c \<or> tcFlushed c) \<and> tcDisconnects c = of_bool (tcOnce c)"

text \<open>Most steps leave the writer, its queue and the log alone.\<close>

definition same_write :: "tconn \<Rightarrow> tconn \<Rightarrow> bool" where
  "same_write c c' \<longleftrightarrow> tcWriter c' = tcWriter c \<and> tcLog c' = tcLog c \<and> tcWire c' = tcWire c \<and> tcWriteQ c' = tcWriteQ c \<and> tcFlushed c' = tcFlushed c"

fun write_event :: "tc_event \<Rightarrow> bool" where
  "write_event (EPut _) = True"
| "write_event ESig = True"
| "write_event EWrite = True"
| "write_event (EWritten _) = True"
| "write_event EWriteExit = True"
| "write_event _ = False"

lemma same_write_inv: "same_write c c' \<Longrightarrow> write_inv c \<Longrightarrow> write_inv c'"
  by (auto simp: same_write_def write_inv_def split: writer_pc.splits)

lemma same_write_step:
  assumes "tc_step auth e c = Some c'" "\<not> write_event e"
  shows "same_write c c'"
  using assms
  by (cases e) (auto simp: tc_step_defs same_write_def Let_def split: if_splits list.splits ConnState.splits reader_pc.splits go.splits)

lemma force_fields [simp]:
  "tcWriter (snd (forceCloseIfCurrent auth g c)) = tcWriter c" "tcLog (snd (forceCloseIfCurrent auth g c)) = tcLog c"
  "tcWire (snd (forceCloseIfCurrent auth g c)) = tcWire c" "tcWriteQ (snd (forceCloseIfCurrent auth g c)) = tcWriteQ c"
  "tcFlushed (snd (forceCloseIfCurrent auth g c)) = tcFlushed c"
  by (simp_all add: forceCloseIfCurrent_def forceClose_def uncheckAuthorize_def)

lemma step_write_inv:
  assumes "write_inv c" "tc_step auth e c = Some c'"
  shows "write_inv c'"
proof (cases "write_event e")
  case False
  then show ?thesis using same_write_inv [OF same_write_step [OF assms(2)] assms(1)] by simp
next
  case True
  then show ?thesis
  proof (cases e)
    case EWrite
    then show ?thesis using assms
      by (auto simp: tc_write_def notifyDone_def write_inv_def Let_def split: if_splits list.splits chWrite.splits)
  next
    case (EWritten ok)
    then show ?thesis using assms by (auto simp: write_done_def write_inv_def split: if_splits writer_pc.splits)
  qed (use assms in \<open>auto simp: enqueue_put_def grace_sig_def write_leave_def write_inv_def split: if_splits writer_pc.splits\<close>)
qed

lemma step_recv_inv:
  assumes "recv_inv c" "tc_step auth e c = Some c'"
  shows "recv_inv c'"
  using assms
  by (cases e) (auto simp: tc_step_defs recv_inv_def Let_def split: if_splits writer_pc.splits list.splits chWrite.splits
      ConnState.splits reader_pc.splits go.splits bool.splits)


text \<open>The state never goes back to open.\<close>

lemma step_opened: "\<lbrakk>tc_step auth e c = Some c'; tcState c' = NetOpened\<rbrakk> \<Longrightarrow> tcState c = NetOpened"
  by (cases e) (auto simp: tc_step_defs Let_def split: if_splits list.splits ConnState.splits reader_pc.splits writer_pc.splits chWrite.splits go.splits)

definition same_acks :: "tconn \<Rightarrow> tconn \<Rightarrow> bool" where
  "same_acks c c' \<longleftrightarrow> tcLog c' = tcLog c \<and> tcPuts c' = tcPuts c \<and> tcAcked c' = tcAcked c \<and> (tcSig c' \<longrightarrow> tcSig c \<or> tcState c' \<noteq> NetOpened)"

fun ack_event :: "tc_event \<Rightarrow> bool" where
  "ack_event (EPut _) = True"
| "ack_event (EReturn _) = True"
| "ack_event ESig = True"
| "ack_event _ = False"

lemma same_acks_step:
  assumes "tc_step auth e c = Some c'" "\<not> ack_event e"
  shows "same_acks c c'"
  using assms
  by (cases e) (auto simp: tc_step_defs same_acks_def Let_def split: if_splits list.splits ConnState.splits reader_pc.splits
      writer_pc.splits chWrite.splits go.splits)

lemma ack_grow:
  "\<forall>p \<in> A. p < length L \<and> closeSig \<notin> set (take (Suc p) L) \<Longrightarrow> \<forall>p \<in> A. p < length (L @ [x]) \<and> closeSig \<notin> set (take (Suc p) (L @ [x]))"
  by (auto simp: Suc_leI less_SucI dest!: bspec)

lemma step_ack_inv:
  assumes "ack_inv c" "tc_step auth e c = Some c'"
  shows "ack_inv c'"
proof (cases "ack_event e")
  case False
  have "closeSig \<in> set (tcLog c) \<or> tcSig c \<Longrightarrow> tcState c' \<noteq> NetOpened"
    using assms step_opened [OF assms(2)] by (auto simp: ack_inv_def)
  then show ?thesis using same_acks_step [OF assms(2) False] assms(1) by (auto simp: same_acks_def ack_inv_def)
next
  case True
  then show ?thesis
  proof (cases e)
    case (EReturn p)
    then show ?thesis using assms
      by (auto simp: enqueue_return_def ack_inv_def Let_def split: if_splits dest: in_set_takeD notin_set_remove1)
  next
    case (EPut msg)
    then have "ack_inv (c\<lparr>tcPuts := length (tcLog c) # tcPuts c, tcLog := tcLog c @ [dataPacket msg]\<rparr>)"
      using assms(1) ack_grow [of "set (tcAcked c)" "tcLog c"] by (auto simp: ack_inv_def less_SucI)
    then show ?thesis using assms(2) EPut by (auto simp: enqueue_put_def ack_inv_def split: if_splits)
  next
    case ESig
    then show ?thesis using assms ack_grow [of "set (tcAcked c)" "tcLog c" closeSig]
      by (auto simp: grace_sig_def ack_inv_def less_SucI split: if_splits)
  qed simp_all
qed

text \<open>Closing happens once.\<close>

lemma close_inv_frame:
  "close_inv (c\<lparr>tcUID := u\<rparr>) = close_inv c" "close_inv (c\<lparr>tcTimer := b\<rparr>) = close_inv c" "close_inv (c\<lparr>tcSenders := ss\<rparr>) = close_inv c"
  "close_inv (c\<lparr>tcPuts := ps\<rparr>) = close_inv c" "close_inv (c\<lparr>tcSig := b\<rparr>) = close_inv c" "close_inv (c\<lparr>tcGracers := n\<rparr>) = close_inv c"
  "close_inv (c\<lparr>tcReader := r\<rparr>) = close_inv c" "close_inv (c\<lparr>tcLoop := b\<rparr>) = close_inv c" "close_inv (c\<lparr>tcWriter := w\<rparr>) = close_inv c"
  "close_inv (c\<lparr>tcLog := l\<rparr>) = close_inv c" "close_inv (c\<lparr>tcAcked := ps\<rparr>) = close_inv c" "close_inv (c\<lparr>tcWire := bs\<rparr>) = close_inv c"
  "close_inv (c\<lparr>tcFrames := bs\<rparr>) = close_inv c" "close_inv (c\<lparr>tcHandled := bs\<rparr>) = close_inv c" "close_inv (c\<lparr>tcPanic := b\<rparr>) = close_inv c"
  "close_inv (c\<lparr>tcRecvQ := bs\<rparr>) = close_inv c" "close_inv (c\<lparr>tcWriteQ := q\<rparr>) = close_inv c"
  by (simp_all add: close_inv_def)

lemma close_inv_ops:
  assumes "close_inv c"
  shows "close_inv (snd (forceClose auth c))" "close_inv (snd (forceCloseIfCurrent auth gen c))" "close_inv (graceClose auth c)"
    "close_inv (snd (finishGraceClose c))" "close_inv (uncheckAuthorize auth c)" "close_inv (checkAuthorize auth c)"
    "close_inv ((notifyDone c)\<lparr>tcFlushed := True\<rparr>)" "close_inv (timer_expires auth gen c)" "tc_doClose auth c = Some c' \<Longrightarrow> close_inv c'"
  using assms
  by (auto simp: forceClose_def forceCloseIfCurrent_def graceClose_def finishGraceClose_def uncheckAuthorize_def checkAuthorize_def notifyDone_def
      timer_expires_def tc_doClose_def close_inv_def Let_def split: if_splits ConnState.splits)

lemma step_close_inv:
  assumes "close_inv c" "tc_step auth e c = Some c'"
  shows "close_inv c'"
proof -
  note frames = close_inv_frame close_inv_ops
  have put: "close_inv (snd (TryEnqueueRecv data c))" for data using assms(1) by (simp add: TryEnqueueRecv_def frames)
  have wr: "(notifyDone (c\<lparr>tcWriteQ := q\<rparr>))\<lparr>tcWriter := WEnd, tcFlushed := True\<rparr> = ((notifyDone (c\<lparr>tcWriteQ := q\<rparr>))\<lparr>tcFlushed := True\<rparr>)\<lparr>tcWriter := WEnd\<rparr>" for q
    by simp
  show ?thesis
  proof (cases e)
    case EReadPut
    then obtain data where data: "tcReader c = RHave data" using assms(2) by (auto simp: read_put_def split: reader_pc.splits)
    then show ?thesis using assms EReadPut put [of data]
      by (auto simp: read_put_def frames split: prod.splits go.splits bool.splits)
  next
    case EWrite
    then show ?thesis using assms
      by (auto simp: tc_write_def wr frames Let_def split: if_splits list.splits chWrite.splits)
  qed (use assms in \<open>auto simp: tc_Bind_def tc_Unbind_def enqueueWrite_def enqueue_put_def enqueue_return_def enqueue_closed_def enqueue_timeout_def
      tc_Close_def grace_noconn_def grace_sig_def grace_closed_def grace_done_def tc_read_def read_exit_def receiveLoop_def write_done_def
      write_leave_def frames Let_def split: if_splits list.splits ConnState.splits writer_pc.splits go.splits\<close>)
qed

lemma init_inv: "write_inv (tc_init auth cid g)" "ack_inv (tc_init auth cid g)" "recv_inv (tc_init auth cid g)" "close_inv (tc_init auth cid g)"
  by (simp_all add: tc_init_def checkAuthorize_def write_inv_def ack_inv_def recv_inv_def close_inv_def)

lemma run_inv:
  assumes "tc_run auth es c = Some c'" "write_inv c" "ack_inv c" "recv_inv c" "close_inv c"
  shows "write_inv c' \<and> ack_inv c' \<and> recv_inv c' \<and> close_inv c'"
  using assms
proof (induction es arbitrary: c)
  case (Cons e es)
  then obtain c1 where "tc_step auth e c = Some c1" "tc_run auth es c1 = Some c'" by (auto split: Option.bind_splits)
  then show ?case using Cons step_write_inv step_ack_inv step_recv_inv step_close_inv by metis
qed simp

lemmas init_run_inv = run_inv [OF _ init_inv]

section \<open>Properties\<close>

lemma wire_prefix: "write_inv c \<Longrightarrow> prefix (map dataPacket (tcWire c)) (tcLog c)"
  by (auto simp: write_inv_def split: writer_pc.splits)

lemma flushed_acked:
  assumes "write_inv c" "ack_inv c" "tcFlushed c" "p \<in> set (tcAcked c)"
  shows "p < length (tcWire c) \<and> tcLog c ! p = dataPacket (tcWire c ! p)"
proof -
  obtain q where q: "tcLog c = map dataPacket (tcWire c) @ closeSig # q" using assms(1,3) by (auto simp: write_inv_def)
  have "closeSig \<notin> set (take (Suc p) (tcLog c))" using assms(2,4) by (auto simp: ack_inv_def)
  then have "p < length (tcWire c)" unfolding q by (rule contrapos_np) (simp add: take_Cons')
  then show ?thesis using q by (simp add: nth_append)
qed

text \<open>C3. A graceful close flushes.  In every interleaving, what is written to a client is a prefix of what entered the queue, and
  the frames handed to the handler are a prefix of those read; and when the writer has reached the signal of a graceful
  close, every message for which \<open>Send\<close> or \<open>Push\<close> had reported success has been written, in order.\<close>

theorem tcp_graceful_close_flushes:
  assumes "tc_run auth es (tc_init auth cid g) = Some c"
  shows "prefix (map dataPacket (tcWire c)) (tcLog c) \<and> prefix (tcHandled c) (tcFrames c) \<and>
    (tcFlushed c \<longrightarrow> (\<forall>p \<in> set (tcAcked c). p < length (tcWire c) \<and> tcLog c ! p = dataPacket (tcWire c ! p)))"
proof -
  have inv: "write_inv c" "ack_inv c" "recv_inv c" using init_run_inv [OF assms] by simp_all
  then show ?thesis using wire_prefix [OF inv(1)] flushed_acked [OF inv(1,2)] by (auto simp: recv_inv_def)
qed


section \<open>Finishing\<close>

definition tc_reach :: "bool \<Rightarrow> tconn \<Rightarrow> tconn \<Rightarrow> bool" where
  "tc_reach auth c c' \<longleftrightarrow> (\<exists>es. tc_run auth es c = Some c')"

lemma tc_run_append: "tc_run auth (es @ es') c = Option.bind (tc_run auth es c) (tc_run auth es')"
  by (induction es arbitrary: c) (auto split: Option.bind_split)

lemma tc_reach_refl: "tc_reach auth c c"
  unfolding tc_reach_def by (rule exI [of _ "[]"]) simp

lemma tc_reach_same: "c' = c \<Longrightarrow> tc_reach auth c c'"
  by (simp add: tc_reach_refl)

lemma tc_reach_step: "\<lbrakk>tc_step auth e c = Some c1; tc_reach auth c1 c2\<rbrakk> \<Longrightarrow> tc_reach auth c c2"
  unfolding tc_reach_def by (metis bind.bind_lunit tc_run.simps(2))

lemma tc_reach_trans: "\<lbrakk>tc_reach auth c c1; tc_reach auth c1 c2\<rbrakk> \<Longrightarrow> tc_reach auth c c2"
  unfolding tc_reach_def by (metis bind.bind_lunit tc_run_append)

text \<open>After \<open>doClose\<close> every goroutine can leave.\<close>

definition shut :: "tconn \<Rightarrow> bool" where
  "shut c \<longleftrightarrow> tcState c = NetClosed \<and> tcClose c \<and> tcDone c \<and> tcRecvClosed c"

lemma senders_leave: "shut c \<Longrightarrow> tc_reach auth c (c\<lparr>tcSenders := []\<rparr>)"
proof (induction "tcSenders c" arbitrary: c)
  case (Cons m ms)
  let ?c = "c\<lparr>tcSenders := ms\<rparr>"
  have "tc_step auth (ESendClosed m) c = Some ?c" using Cons(3) by (simp add: enqueue_closed_def shut_def flip: Cons(2))
  from tc_reach_step [OF this Cons(1) [of ?c]] show ?case using Cons(3) by (simp add: shut_def)
qed (simp add: tc_reach_same)

lemma puts_return: "shut c \<Longrightarrow> tc_reach auth c (c\<lparr>tcPuts := []\<rparr>)"
proof (induction "tcPuts c" arbitrary: c)
  case (Cons p ps)
  let ?c = "c\<lparr>tcPuts := ps\<rparr>"
  have "tc_step auth (EReturn p) c = Some ?c" using Cons(3) by (simp add: enqueue_return_def shut_def Let_def flip: Cons(2))
  from tc_reach_step [OF this Cons(1) [of ?c]] show ?case using Cons(3) by (simp add: shut_def)
qed (simp add: tc_reach_same)

lemma gracers_leave: "shut c \<Longrightarrow> tc_reach auth c (c\<lparr>tcGracers := 0\<rparr>)"
proof (induction "tcGracers c" arbitrary: c)
  case (Suc n)
  let ?c = "c\<lparr>tcGracers := n\<rparr>"
  have "tc_step auth EGraceDone c = Some ?c" using Suc(3) by (simp add: grace_done_def finishGraceClose_def shut_def flip: Suc(2))
  from tc_reach_step [OF this Suc(1) [of ?c]] show ?case using Suc(3) by (simp add: shut_def)
qed (simp add: tc_reach_same)

lemma sig_leaves: "shut c \<Longrightarrow> tc_reach auth c (c\<lparr>tcSig := False\<rparr>)"
proof (cases "tcSig c")
  case True
  moreover assume "shut c"
  ultimately have "tc_step auth ESigClosed c = Some (c\<lparr>tcSig := False\<rparr>)" by (simp add: grace_closed_def shut_def)
  then show ?thesis by (rule tc_reach_step) (rule tc_reach_refl)
qed (simp add: tc_reach_same)

lemma reader_leaves: "\<lbrakk>shut c; \<forall>d. tcReader c \<noteq> RHave d\<rbrakk> \<Longrightarrow> tc_reach auth c (c\<lparr>tcReader := REnd\<rparr>)"
proof (cases "tcReader c")
  case RIdle
  moreover assume "shut c"
  ultimately have "tc_step auth EReadExit c = Some (c\<lparr>tcReader := REnd\<rparr>)" by (simp add: read_exit_def shut_def)
  then show ?thesis by (rule tc_reach_step) (rule tc_reach_refl)
qed (simp_all add: tc_reach_same)

lemma writer_leaves: "shut c \<Longrightarrow> tc_reach auth c (c\<lparr>tcWriter := WEnd\<rparr>)"
proof (cases "tcWriter c")
  case (WBusy m)
  moreover assume "shut c"
  ultimately have "tc_step auth (EWritten False) c = Some (c\<lparr>tcWriter := WEnd\<rparr>)"
    by (simp add: write_done_def forceCloseIfCurrent_def forceClose_def shut_def)
  then show ?thesis by (rule tc_reach_step) (rule tc_reach_refl)
next
  case WIdle
  moreover assume "shut c"
  ultimately have "tc_step auth EWriteExit c = Some (c\<lparr>tcWriter := WEnd\<rparr>)" by (simp add: write_leave_def shut_def)
  then show ?thesis by (rule tc_reach_step) (rule tc_reach_refl)
qed (simp add: tc_reach_same)

lemma loop_leaves: "shut c \<Longrightarrow> \<exists>q. tc_reach auth c (c\<lparr>tcLoop := False, tcRecvQ := q\<rparr>)"
proof (cases "tcLoop c")
  case False
  then show ?thesis by (intro exI [of _ "tcRecvQ c"]) (simp add: tc_reach_same)
next
  case True
  moreover assume "shut c"
  ultimately have "tc_step auth ELoop c = Some (c\<lparr>tcLoop := False, tcRecvQ := tl (tcRecvQ c)\<rparr>)"
    by (cases c) (auto simp: receiveLoop_def shut_def Let_def split: list.splits)
  then show ?thesis by (blast intro: tc_reach_step tc_reach_refl)
qed


definition ended :: "tconn \<Rightarrow> bool" where
  "ended c \<longleftrightarrow> tcSenders c = [] \<and> tcPuts c = [] \<and> \<not> tcSig c \<and> tcGracers c = 0 \<and> tcReader c = REnd \<and> \<not> tcLoop c \<and> tcWriter c = WEnd"

lemma shut_ends:
  assumes "shut c" "\<forall>d. tcReader c \<noteq> RHave d"
  shows "\<exists>c'. tc_reach auth c c' \<and> ended c' \<and> tcDisconnects c' = tcDisconnects c \<and> tcPanic c' = tcPanic c"
proof -
  let ?c1 = "c\<lparr>tcSenders := [], tcPuts := []\<rparr>"
  let ?c2 = "?c1\<lparr>tcGracers := 0, tcSig := False\<rparr>"
  let ?c3 = "?c2\<lparr>tcReader := REnd, tcWriter := WEnd\<rparr>"
  have r1: "tc_reach auth c ?c1" using tc_reach_trans [OF senders_leave [OF assms(1)] puts_return] assms(1) by (simp add: shut_def)
  have r2: "tc_reach auth ?c1 ?c2"
    using tc_reach_trans [OF gracers_leave [of ?c1] sig_leaves] assms(1) by (simp add: shut_def)
  have "tc_reach auth ?c2 ?c3"
    using tc_reach_trans [OF reader_leaves [of ?c2] writer_leaves] assms by (simp add: shut_def)
  then have "tc_reach auth c ?c3" by (rule tc_reach_trans [OF tc_reach_trans [OF r1 r2]])
  moreover obtain q where "tc_reach auth ?c3 (?c3\<lparr>tcLoop := False, tcRecvQ := q\<rparr>)" using loop_leaves [of ?c3 auth] assms(1) by (auto simp: shut_def)
  ultimately have "tc_reach auth c (?c3\<lparr>tcLoop := False, tcRecvQ := q\<rparr>)" by (rule tc_reach_trans)
  then show ?thesis by (intro exI [of _ "?c3\<lparr>tcLoop := False, tcRecvQ := q\<rparr>"]) (simp add: ended_def)
qed

text \<open>Before \<open>doClose\<close> has run, the reader can still put its frame.\<close>

lemma reader_settles:
  assumes "close_inv c" "tcState c = NetClosed" "\<not> tcOnce c"
  shows "\<exists>c'. tc_reach auth c c' \<and> close_inv c' \<and> tcState c' = NetClosed \<and> \<not> tcOnce c' \<and> (\<forall>d. tcReader c' \<noteq> RHave d) \<and> tcPanic c' = tcPanic c"
proof (cases "tcReader c")
  case (RHave d)
  have open': "\<not> tcRecvClosed c" using assms by (simp add: close_inv_def)
  obtain c' where c': "tc_step auth EReadPut c = Some c'" using RHave by (simp add: read_put_def)
  have "tcState c' = NetClosed \<and> \<not> tcOnce c' \<and> (\<forall>d. tcReader c' \<noteq> RHave d) \<and> tcPanic c' = tcPanic c"
    using c' RHave open' assms(2,3) by (auto simp: read_put_def TryEnqueueRecv_def forceCloseIfCurrent_def forceClose_def split: if_splits)
  then show ?thesis using step_close_inv [OF assms(1) c'] tc_reach_step [OF c' tc_reach_refl] by blast
qed (use assms tc_reach_refl in fastforce)+

lemma doClose_shuts:
  assumes "close_inv c" "tcState c = NetClosed" "\<not> tcOnce c"
  shows "\<exists>c'. tc_step auth EDoClose c = Some c' \<and> shut c' \<and> tcReader c' = tcReader c \<and> tcDisconnects c' = 1 \<and> tcPanic c' = tcPanic c"
  using assms by (auto simp: tc_doClose_def close_inv_def shut_def notifyDone_def uncheckAuthorize_def Let_def)

text \<open>C36. A closed connection comes to rest.  Once a connection is closed, by whichever goroutine, its senders, closers, reader, loop and
  writer can all finish, and the disconnect handler has been called exactly once, unless \<open>doClose\<close> closed the receive
  queue between the reader's look at the state and its send.\<close>

theorem tcp_close_completes:
  assumes "tc_run auth es (tc_init auth cid g) = Some c" "tcState c = NetClosed" "tcOnce c \<longrightarrow> (\<forall>d. tcReader c \<noteq> RHave d)"
  shows "\<exists>es' c'. tc_run auth es' c = Some c' \<and> ended c' \<and> tcDisconnects c' = 1 \<and> tcPanic c' = tcPanic c"
proof (cases "tcOnce c")
  case True
  have inv: "close_inv c" using init_run_inv [OF assms(1)] by simp
  then have "shut c" "tcDisconnects c = 1" using True assms(2) by (simp_all add: shut_def close_inv_def)
  then show ?thesis using shut_ends [of c auth] True assms(3) by (auto simp: tc_reach_def)
next
  case False
  have inv: "close_inv c" using init_run_inv [OF assms(1)] by simp
  obtain c1 where c1: "tc_reach auth c c1" "close_inv c1" "tcState c1 = NetClosed" "\<not> tcOnce c1" "\<forall>d. tcReader c1 \<noteq> RHave d" "tcPanic c1 = tcPanic c"
    using reader_settles [OF inv assms(2) False] by blast
  obtain c2 where c2: "tc_step auth EDoClose c1 = Some c2" "shut c2" "tcReader c2 = tcReader c1" "tcDisconnects c2 = 1" "tcPanic c2 = tcPanic c1"
    using doClose_shuts [OF c1(2-4)] by blast
  obtain c3 where c3: "tc_reach auth c2 c3" "ended c3" "tcDisconnects c3 = 1" "tcPanic c3 = tcPanic c2"
    using shut_ends [OF c2(2), of auth] c1(5) c2(3,4) by auto
  have "tc_reach auth c c3" by (rule tc_reach_trans [OF c1(1) tc_reach_step [OF c2(1) c3(1)]])
  then show ?thesis using c3 c2(5) c1(6) unfolding tc_reach_def by metis
qed


text \<open>A user who pushes a message and closes: the message is on the wire.\<close>

definition flush_events :: "tc_event list" where
  "flush_events = [ESend [1, 2], EPut [1, 2], EReturn 0, ERead (Ok [9]), EReadPut, EClose False, ELoop, ESig, EWrite, EWritten True, EWrite]"

theorem tcp_graceful_close_flushes_witness:
  "\<exists>c. tc_run True flush_events (tc_init True 5 0) = Some c \<and> tcFlushed c \<and> tcAcked c = [0] \<and> tcLog c ! 0 = dataPacket (tcWire c ! 0)"
proof -
  obtain c where c: "tc_run True flush_events (tc_init True 5 0) = Some c" "tcFlushed c" "tcAcked c = [0]"
    by (simp add: flush_events_def tc_init_def tc_step_defs Let_def)
  then show ?thesis using tcp_graceful_close_flushes [OF c(1)] by auto
qed

theorem tcp_close_completes_witness:
  "\<exists>c es' c'. tc_run True (flush_events @ [EGraceDone]) (tc_init True 5 0) = Some c \<and> tc_run True es' c = Some c' \<and> ended c' \<and> tcDisconnects c' = 1"
proof -
  obtain c where c: "tc_run True (flush_events @ [EGraceDone]) (tc_init True 5 0) = Some c" "tcState c = NetClosed" "\<not> tcOnce c"
    by (simp add: flush_events_def tc_init_def tc_step_defs Let_def)
  then show ?thesis using tcp_close_completes [OF c(1,2)] by auto
qed

text \<open>A close can crash the server: when another goroutine closes the connection after the reader has looked at the state and
  before it sends, the send goes to a closed channel and panics.\<close>

theorem tcp_close_panics_reader:
  "\<exists>c. tc_run auth [ERead (Ok [7]), EClose True, EDoClose, EReadPut] (tc_init auth cid g) = Some c \<and> tcPanic c"
  by (simp add: tc_init_def tc_step_defs Let_def)

section \<open>Reused objects\<close>

text \<open>\<open>forceCloseIfCurrent\<close> in its three atomic parts: the look at the generation, the exchange, and the second look.  A
  connection that is closed, recycled and initialized again between the first two is marked closed and never closed:
  its socket, its goroutines and its place in the table stay, and a later \<open>Close\<close> does nothing.\<close>

definition close_exchange :: "bool \<Rightarrow> tconn \<Rightarrow> tconn" where
  "close_exchange auth c = uncheckAuthorize auth (c\<lparr>tcState := NetClosed\<rparr>)"

definition doCloseIfCurrent :: "bool \<Rightarrow> nat \<Rightarrow> tconn \<Rightarrow> tconn" where
  "doCloseIfCurrent auth gen c = (if tcGen c \<noteq> gen then c else the (tc_doClose auth (c\<lparr>tcClosing := True\<rparr>)))"

lemma forceCloseIfCurrent_parts:
  assumes "close_inv c" "tcState c \<noteq> NetClosed"
  shows "tc_doClose auth (snd (forceCloseIfCurrent auth (tcGen c) c)) = Some (doCloseIfCurrent auth (tcGen c) (close_exchange auth c))"
  using assms
  by (auto simp: forceCloseIfCurrent_def forceClose_def doCloseIfCurrent_def close_exchange_def tc_doClose_def uncheckAuthorize_def Let_def)

lemma stale_close_leaves_zombie:
  assumes "c = tc_init auth cid gen"
  defines "z \<equiv> doCloseIfCurrent auth gen (close_exchange auth c)"
  shows "tcState z = NetClosed \<and> tcConn z \<and> \<not> tcClose z \<and> tcDisconnects z = 0 \<and> tc_Close auth force z = z \<and> \<not> tcTimer z"
  using assms(1) by (cases auth) (auto simp: z_def doCloseIfCurrent_def close_exchange_def tc_init_def uncheckAuthorize_def checkAuthorize_def
      tc_Close_def forceClose_def graceClose_def)

end
