(* ===== verification/NetMgr.thy ===== *)
theory NetMgr
  imports Prelude "HOL-Library.AList"
begin

text \<open>
  \<open>network/tcp/server_conn_mgr.go\<close> and the accept loop of \<open>network/tcp/server.go\<close>: the objects of the connections come
  from a pool, and a table of a hundred partitions leads from a socket to its object.  Sockets are the numbers of their
  pointers, objects are numbers too; of a connection only its number, its socket and whether it is open matter here.
\<close>

section \<open>The manager\<close>

record mconn =
  mcID :: nat
  mcRaw :: nat
  mcOpen :: bool

text \<open>\<open>cmStoring\<close>: the socket and the object between \<open>init\<close> and \<open>store\<close>; there is one accept loop.\<close>

record cmgr =
  cmMax :: int
  cmID :: nat
  cmTotal :: int
  cmParts :: "(nat \<times> nat) list list"
  cmPool :: "nat list"
  cmObjs :: "nat \<Rightarrow> mconn"
  cmFresh :: nat
  cmStoring :: "(nat \<times> nat) option"

abbreviation (input) partitions :: nat where "partitions \<equiv> 100"

definition newServerConnMgr :: "int \<Rightarrow> cmgr" where
  "newServerConnMgr maxConnNum = \<lparr>cmMax = maxConnNum, cmID = 0, cmTotal = 0, cmParts = replicate partitions [], cmPool = [],
     cmObjs = (\<lambda>_. \<lparr>mcID = 0, mcRaw = 0, mcOpen = False\<rparr>), cmFresh = 0, cmStoring = None\<rparr>"

definition part_store :: "nat \<Rightarrow> nat \<Rightarrow> (nat \<times> nat) list \<Rightarrow> (nat \<times> nat) list" where
  "part_store raw conn p = AList.update raw conn p"

definition part_delete :: "nat \<Rightarrow> (nat \<times> nat) list \<Rightarrow> nat option \<times> (nat \<times> nat) list" where
  "part_delete raw p = (case map_of p raw of None \<Rightarrow> (None, p) | Some conn \<Rightarrow> (Some conn, AList.delete raw p))"

definition cm_index :: "nat \<Rightarrow> cmgr \<Rightarrow> nat" where
  "cm_index raw m = raw mod length (cmParts m)"

definition cm_allocate :: "nat \<Rightarrow> cmgr \<Rightarrow> goerr option \<times> cmgr" where
  "cm_allocate raw m =
     (if cmTotal m \<ge> cmMax m then (Some ErrTooManyConnection, m)
      else let cid = cmID m + 1;
               (conn, m) = (case cmPool m of c # p \<Rightarrow> (c, m\<lparr>cmPool := p\<rparr>) | [] \<Rightarrow> (cmFresh m, m\<lparr>cmFresh := cmFresh m + 1\<rparr>))
           in (None, m\<lparr>cmID := cid, cmObjs := (cmObjs m)(conn := \<lparr>mcID = cid, mcRaw = raw, mcOpen = True\<rparr>), cmStoring := Some (raw, conn)\<rparr>))"

definition cm_store :: "cmgr \<Rightarrow> cmgr" where
  "cm_store m =
     (case cmStoring m of
        None \<Rightarrow> m
      | Some (raw, conn) \<Rightarrow>
          m\<lparr>cmStoring := None, cmParts := (cmParts m)[cm_index raw m := part_store raw conn (cmParts m ! cm_index raw m)],
            cmTotal := cmTotal m + 1\<rparr>)"

definition cm_recycle :: "nat \<Rightarrow> cmgr \<Rightarrow> cmgr" where
  "cm_recycle raw m =
     (case part_delete raw (cmParts m ! cm_index raw m) of
        (Some conn, p) \<Rightarrow> m\<lparr>cmParts := (cmParts m)[cm_index raw m := p], cmPool := conn # cmPool m, cmTotal := cmTotal m - 1\<rparr>
      | (None, _) \<Rightarrow> m)"

text \<open>\<open>doClose\<close> of a connection, which runs once.\<close>

definition cm_doClose :: "nat \<Rightarrow> cmgr \<Rightarrow> cmgr" where
  "cm_doClose conn m =
     (let o' = cmObjs m conn
      in if mcOpen o' then cm_recycle (mcRaw o') (m\<lparr>cmObjs := (cmObjs m)(conn := o'\<lparr>mcOpen := False\<rparr>)\<rparr>) else m)"

text \<open>\<open>close\<close>: every partition closes the connections it finds.\<close>

definition part_close :: "(nat \<times> nat) list \<Rightarrow> cmgr \<Rightarrow> cmgr" where
  "part_close p m = fold (\<lambda>(raw, conn). cm_doClose conn) p m"

definition cm_close :: "cmgr \<Rightarrow> cmgr" where
  "cm_close m = fold part_close (cmParts m) m"

text \<open>One turn of the accept loop; the second component tells that the socket was closed.\<close>

definition serve_accept :: "nat \<Rightarrow> cmgr \<Rightarrow> bool \<times> cmgr" where
  "serve_accept raw m = (case cm_allocate raw m of (Some _, m) \<Rightarrow> (True, m) | (None, m) \<Rightarrow> (False, cm_store m))"

section \<open>The table as a map\<close>

definition cm_table :: "cmgr \<Rightarrow> nat \<Rightarrow> nat option" where
  "cm_table m raw = map_of (cmParts m ! cm_index raw m) raw"

lemma index_bound: "length (cmParts m) = partitions \<Longrightarrow> cm_index raw m < partitions"
  by (simp add: cm_index_def)

lemma table_update:
  assumes "length (cmParts m) = partitions" "map_of p = (map_of (cmParts m ! cm_index raw m))(raw := v)"
  shows "cm_table (m\<lparr>cmParts := (cmParts m)[cm_index raw m := p]\<rparr>) = (cm_table m)(raw := v)"
proof
  fix r
  show "cm_table (m\<lparr>cmParts := (cmParts m)[cm_index raw m := p]\<rparr>) r = ((cm_table m)(raw := v)) r"
    using assms by (cases "r mod partitions = raw mod partitions") (auto simp: cm_table_def cm_index_def)
qed

lemma table_fields:
  "cm_table (m\<lparr>cmTotal := t\<rparr>) = cm_table m" "cm_table (m\<lparr>cmPool := p\<rparr>) = cm_table m" "cm_table (m\<lparr>cmStoring := s\<rparr>) = cm_table m"
  "cm_table (m\<lparr>cmObjs := os\<rparr>) = cm_table m" "cm_table (m\<lparr>cmID := i\<rparr>) = cm_table m" "cm_table (m\<lparr>cmFresh := f\<rparr>) = cm_table m"
  by (simp_all add: cm_table_def [abs_def] cm_index_def)

lemma table_store:
  assumes "length (cmParts m) = partitions" "cmStoring m = Some (raw, conn)"
  shows "cm_table (cm_store m) = (cm_table m)(raw \<mapsto> conn)"
proof -
  have "cm_store m = ((m\<lparr>cmParts := (cmParts m)[cm_index raw m := part_store raw conn (cmParts m ! cm_index raw m)]\<rparr>)\<lparr>cmStoring := None\<rparr>)
      \<lparr>cmTotal := cmTotal m + 1\<rparr>"
    using assms(2) by (simp add: cm_store_def)
  then show ?thesis using table_update [OF assms(1)] by (simp add: table_fields part_store_def AList.update_conv')
qed

lemma recycle_cases:
  assumes "length (cmParts m) = partitions"
  shows "cm_table (cm_recycle raw m) = (cm_table m)(raw := None)"
    "cm_recycle raw m = (case cm_table m raw of None \<Rightarrow> m
       | Some conn \<Rightarrow> m\<lparr>cmParts := cmParts (cm_recycle raw m), cmPool := conn # cmPool m, cmTotal := cmTotal m - 1\<rparr>)"
    "length (cmParts (cm_recycle raw m)) = partitions"
proof -
  let ?p = "AList.delete raw (cmParts m ! cm_index raw m)"
  show eq: "cm_recycle raw m = (case cm_table m raw of None \<Rightarrow> m
       | Some conn \<Rightarrow> m\<lparr>cmParts := cmParts (cm_recycle raw m), cmPool := conn # cmPool m, cmTotal := cmTotal m - 1\<rparr>)"
    by (auto simp: cm_recycle_def part_delete_def cm_table_def split: option.splits)
  show "length (cmParts (cm_recycle raw m)) = partitions"
    using assms by (auto simp: cm_recycle_def part_delete_def split: option.splits)
  show "cm_table (cm_recycle raw m) = (cm_table m)(raw := None)"
  proof (cases "cm_table m raw")
    case None
    then show ?thesis using eq by (auto simp: fun_eq_iff)
  next
    case (Some conn)
    then have "cm_recycle raw m = ((m\<lparr>cmParts := (cmParts m)[cm_index raw m := ?p]\<rparr>)\<lparr>cmPool := conn # cmPool m\<rparr>)\<lparr>cmTotal := cmTotal m - 1\<rparr>"
      by (simp add: cm_recycle_def part_delete_def cm_table_def)
    then show ?thesis using table_update [OF assms, of ?p raw None] by (simp add: table_fields AList.delete_conv')
  qed
qed


section \<open>Counting connections\<close>

text \<open>The steps: a new socket, whose pointer is not that of a live connection, is accepted; the accept loop stores it; a
  stored connection closes.\<close>

inductive cm_step :: "cmgr \<Rightarrow> cmgr \<Rightarrow> bool" where
  accept: "\<lbrakk>cmStoring m = None; cm_table m raw = None\<rbrakk> \<Longrightarrow> cm_step m (snd (cm_allocate raw m))"
| stored: "cm_step m (cm_store m)"
| closes: "cmStoring m \<noteq> Some (mcRaw (cmObjs m conn), conn) \<Longrightarrow> conn < cmFresh m \<Longrightarrow> cm_step m (cm_doClose conn m)"

definition cm_live :: "cmgr \<Rightarrow> bool" where
  "cm_live m \<longleftrightarrow>
     (\<forall>raw conn. cm_table m raw = Some conn \<or> cmStoring m = Some (raw, conn) \<longrightarrow>
        conn < cmFresh m \<and> mcOpen (cmObjs m conn) \<and> mcRaw (cmObjs m conn) = raw) \<and>
     (\<forall>conn < cmFresh m. mcOpen (cmObjs m conn) \<longrightarrow>
        cm_table m (mcRaw (cmObjs m conn)) = Some conn \<or> cmStoring m = Some (mcRaw (cmObjs m conn), conn)) \<and>
     (\<forall>raw conn. cmStoring m = Some (raw, conn) \<longrightarrow> cm_table m raw = None)"

definition cm_pool_ok :: "cmgr \<Rightarrow> bool" where
  "cm_pool_ok m \<longleftrightarrow> distinct (cmPool m) \<and> (\<forall>conn \<in> set (cmPool m). conn < cmFresh m \<and> \<not> mcOpen (cmObjs m conn))"

definition cm_count_ok :: "cmgr \<Rightarrow> bool" where
  "cm_count_ok m \<longleftrightarrow> length (cmParts m) = partitions \<and> finite (dom (cm_table m)) \<and> cmTotal m = int (card (dom (cm_table m))) \<and>
     cmTotal m \<le> cmMax m \<and> (cmStoring m \<noteq> None \<longrightarrow> cmTotal m < cmMax m)"

definition cm_inv :: "cmgr \<Rightarrow> bool" where
  "cm_inv m \<longleftrightarrow> cm_live m \<and> cm_pool_ok m \<and> cm_count_ok m"

lemma allocate_result:
  assumes "cm_inv m" "cmTotal m < cmMax m"
  obtains conn m1 where "snd (cm_allocate raw m) = m1\<lparr>cmID := cmID m + 1, cmObjs := (cmObjs m)(conn := \<lparr>mcID = cmID m + 1, mcRaw = raw, mcOpen = True\<rparr>),
      cmStoring := Some (raw, conn)\<rparr>" "m1 = m\<lparr>cmPool := cmPool m1, cmFresh := cmFresh m1\<rparr>" "conn < cmFresh m1" "conn \<notin> set (cmPool m1)"
    "cmFresh m \<le> cmFresh m1" "conn < cmFresh m \<longrightarrow> \<not> mcOpen (cmObjs m conn)" "set (cmPool m1) \<subseteq> set (cmPool m)" "distinct (cmPool m1)"
    "\<forall>o'. o' < cmFresh m1 \<longrightarrow> o' < cmFresh m \<or> o' = conn"
proof (cases "cmPool m")
  case Nil
  then show ?thesis using assms
    by (intro that [of "cmFresh m" "m\<lparr>cmFresh := cmFresh m + 1\<rparr>"]) (auto simp: cm_allocate_def Let_def cm_inv_def cm_pool_ok_def)
next
  case (Cons c p)
  then show ?thesis using assms
    by (intro that [of c "m\<lparr>cmPool := p\<rparr>"]) (auto simp: cm_allocate_def Let_def cm_inv_def cm_pool_ok_def)
qed

lemma cm_liveD:
  assumes "cm_inv m"
  shows "\<forall>r c. cm_table m r = Some c \<or> cmStoring m = Some (r, c) \<longrightarrow> c < cmFresh m \<and> mcOpen (cmObjs m c) \<and> mcRaw (cmObjs m c) = r"
    "\<forall>c < cmFresh m. mcOpen (cmObjs m c) \<longrightarrow> cm_table m (mcRaw (cmObjs m c)) = Some c \<or> cmStoring m = Some (mcRaw (cmObjs m c), c)"
  using assms unfolding cm_inv_def cm_live_def by blast+

lemma accept_inv:
  assumes "cm_inv m" "cmStoring m = None" "cm_table m raw = None"
  shows "cm_inv (snd (cm_allocate raw m))"
proof (cases "cmTotal m \<ge> cmMax m")
  case True
  then show ?thesis using assms(1) by (simp add: cm_allocate_def)
next
  case False
  then have lt: "cmTotal m < cmMax m" by simp
  let ?m = "snd (cm_allocate raw m)"
  obtain conn m1 where r: "?m = m1\<lparr>cmID := cmID m + 1, cmObjs := (cmObjs m)(conn := \<lparr>mcID = cmID m + 1, mcRaw = raw, mcOpen = True\<rparr>),
      cmStoring := Some (raw, conn)\<rparr>" "m1 = m\<lparr>cmPool := cmPool m1, cmFresh := cmFresh m1\<rparr>" "conn < cmFresh m1" "conn \<notin> set (cmPool m1)"
    "cmFresh m \<le> cmFresh m1" "conn < cmFresh m \<longrightarrow> \<not> mcOpen (cmObjs m conn)" "set (cmPool m1) \<subseteq> set (cmPool m)" "distinct (cmPool m1)"
    "\<forall>o'. o' < cmFresh m1 \<longrightarrow> o' < cmFresh m \<or> o' = conn"
    by (rule allocate_result [OF assms(1) lt, of raw]) blast
  have f: "cm_table ?m = cm_table m" "cmParts ?m = cmParts m" "cmTotal ?m = cmTotal m" "cmMax ?m = cmMax m"
    "cmStoring ?m = Some (raw, conn)" "cmFresh ?m = cmFresh m1" "cmPool ?m = cmPool m1"
    "cmObjs ?m = (cmObjs m)(conn := \<lparr>mcID = cmID m + 1, mcRaw = raw, mcOpen = True\<rparr>)"
    unfolding r(1) by (subst r(2), simp add: table_fields)+
  have "cm_live ?m"
    unfolding cm_live_def f
  proof (intro conjI allI impI)
    fix r c
    assume h: "cm_table m r = Some c \<or> Some (raw, conn) = Some (r, c)"
    have "cm_table m r = Some c \<Longrightarrow> c < cmFresh m \<and> mcOpen (cmObjs m c) \<and> mcRaw (cmObjs m c) = r" using cm_liveD(1) [OF assms(1)] by blast
    then show "c < cmFresh m1" "mcOpen (((cmObjs m)(conn := \<lparr>mcID = cmID m + 1, mcRaw = raw, mcOpen = True\<rparr>)) c)"
      "mcRaw (((cmObjs m)(conn := \<lparr>mcID = cmID m + 1, mcRaw = raw, mcOpen = True\<rparr>)) c) = r"
      using h r(3,5,6) by auto
  next
    fix c
    let ?o = "((cmObjs m)(conn := \<lparr>mcID = cmID m + 1, mcRaw = raw, mcOpen = True\<rparr>)) c"
    assume "c < cmFresh m1" "mcOpen ?o"
    then show "cm_table m (mcRaw ?o) = Some c \<or> Some (raw, conn) = Some (mcRaw ?o, c)"
      using cm_liveD(2) [OF assms(1)] assms(2) r(9) by (cases "c = conn") auto
  qed (use assms(3) in auto)
  moreover have "cm_pool_ok ?m" using assms(1) r(4,5,7,8) unfolding cm_inv_def cm_pool_ok_def f by (auto simp: subset_iff intro: less_le_trans)
  moreover have "cm_count_ok ?m" using assms(1) lt unfolding cm_inv_def cm_count_ok_def f by simp
  ultimately show ?thesis by (simp add: cm_inv_def)
qed

lemma store_inv:
  assumes "cm_inv m"
  shows "cm_inv (cm_store m)"
proof (cases "cmStoring m")
  case None
  then show ?thesis using assms by (simp add: cm_store_def)
next
  case (Some s)
  obtain raw conn where s: "cmStoring m = Some (raw, conn)" using Some by (cases s) auto
  have len: "length (cmParts m) = partitions" and new: "cm_table m raw = None"
    using assms s by (auto simp: cm_inv_def cm_count_ok_def cm_live_def)
  have f: "cm_table (cm_store m) = (cm_table m)(raw \<mapsto> conn)" "cmObjs (cm_store m) = cmObjs m" "cmFresh (cm_store m) = cmFresh m"
    "cmPool (cm_store m) = cmPool m" "cmTotal (cm_store m) = cmTotal m + 1" "cmMax (cm_store m) = cmMax m" "cmStoring (cm_store m) = None"
    "length (cmParts (cm_store m)) = partitions"
    using table_store [OF len s] len by (simp_all add: cm_store_def s)
  note live = cm_liveD [OF assms]
  have "raw \<notin> dom (cm_table m)" using new by auto
  then have "cm_count_ok (cm_store m)" using assms s unfolding cm_inv_def cm_count_ok_def f by simp
  moreover have "cm_live (cm_store m)"
    unfolding cm_live_def f
  proof (intro conjI allI impI)
    fix r c
    assume "((cm_table m)(raw \<mapsto> conn)) r = Some c \<or> None = Some (r, c)"
    then have "cm_table m r = Some c \<or> cmStoring m = Some (r, c)" using s by (auto split: if_splits)
    then show "c < cmFresh m" "mcOpen (cmObjs m c)" "mcRaw (cmObjs m c) = r" using live(1) by blast+
  next
    fix c
    assume "c < cmFresh m" "mcOpen (cmObjs m c)"
    then have "cm_table m (mcRaw (cmObjs m c)) = Some c \<or> cmStoring m = Some (mcRaw (cmObjs m c), c)" using live(2) by blast
    then show "((cm_table m)(raw \<mapsto> conn)) (mcRaw (cmObjs m c)) = Some c \<or> None = Some (mcRaw (cmObjs m c), c)" using new s by auto
  qed simp
  moreover have "cm_pool_ok (cm_store m)" using assms unfolding cm_inv_def cm_pool_ok_def f by simp
  ultimately show ?thesis by (simp add: cm_inv_def)
qed


lemma doClose_inv:
  assumes "cm_inv m" "cmStoring m \<noteq> Some (mcRaw (cmObjs m conn), conn)" "conn < cmFresh m"
  shows "cm_inv (cm_doClose conn m)"
proof (cases "mcOpen (cmObjs m conn)")
  case False
  then show ?thesis using assms(1) by (simp add: cm_doClose_def)
next
  case True
  let ?raw = "mcRaw (cmObjs m conn)"
  let ?m = "m\<lparr>cmObjs := (cmObjs m)(conn := (cmObjs m conn)\<lparr>mcOpen := False\<rparr>)\<rparr>"
  have tab: "cm_table m ?raw = Some conn" using cm_liveD(2) [OF assms(1)] assms(2,3) True by blast
  have len: "length (cmParts ?m) = partitions" using assms(1) by (simp add: cm_inv_def cm_count_ok_def)
  let ?r = "cm_recycle ?raw ?m"
  have eq: "cm_doClose conn m = ?r" using True by (simp add: cm_doClose_def Let_def)
  have tab': "cm_table ?m ?raw = Some conn" using tab by (simp add: table_fields)
  have f: "cm_table ?r = (cm_table m)(?raw := None)" "length (cmParts ?r) = partitions" "cmPool ?r = conn # cmPool m" "cmTotal ?r = cmTotal m - 1"
    "cmFresh ?r = cmFresh m" "cmStoring ?r = cmStoring m" "cmMax ?r = cmMax m" "cmObjs ?r = cmObjs ?m"
    using recycle_cases(1,3) [OF len] by (simp_all add: table_fields) (subst recycle_cases(2) [OF len], simp add: tab')+
  note live = cm_liveD [OF assms(1)]
  have "?raw \<in> dom (cm_table m)" using tab by auto
  then have "card (dom (cm_table m)) = Suc (card (dom (cm_table m) - {?raw}))"
    using assms(1) by (intro card.remove) (simp_all add: cm_inv_def cm_count_ok_def)
  then have "cm_count_ok ?r" using assms(1) unfolding cm_inv_def cm_count_ok_def f by simp
  moreover have "cm_pool_ok ?r" using assms True unfolding cm_inv_def cm_pool_ok_def f by auto
  moreover have "cm_live ?r"
    unfolding cm_live_def f
  proof (intro conjI allI impI)
    fix r c
    assume h: "((cm_table m)(?raw := None)) r = Some c \<or> cmStoring m = Some (r, c)"
    then have "cm_table m r = Some c \<or> cmStoring m = Some (r, c)" by (auto split: if_splits)
    then have old: "c < cmFresh m" "mcOpen (cmObjs m c)" "mcRaw (cmObjs m c) = r" using live(1) by blast+
    moreover have "c \<noteq> conn" using h old(3) assms(2) by (auto split: if_splits)
    ultimately show "c < cmFresh m" "mcOpen (cmObjs ?m c)" "mcRaw (cmObjs ?m c) = r" by simp_all
  next
    fix c
    assume h: "c < cmFresh m" "mcOpen (cmObjs ?m c)"
    then have ne: "c \<noteq> conn" "mcOpen (cmObjs m c)" by (auto split: if_splits)
    then have "cm_table m (mcRaw (cmObjs m c)) = Some c \<or> cmStoring m = Some (mcRaw (cmObjs m c), c)" using live(2) h(1) by blast
    then show "((cm_table m)(?raw := None)) (mcRaw (cmObjs ?m c)) = Some c \<or> cmStoring m = Some (mcRaw (cmObjs ?m c), c)"
      using ne(1) tab by auto
  next
    fix r c
    assume "cmStoring m = Some (r, c)"
    then show "((cm_table m)(?raw := None)) r = None" using assms(1) by (auto simp: cm_inv_def cm_live_def)
  qed
  ultimately show ?thesis by (simp add: eq cm_inv_def)
qed

lemma cm_reach:
  assumes "cm_step\<^sup>*\<^sup>* (newServerConnMgr n) m" "0 \<le> n"
  shows "cm_inv m"
  using assms(1)
proof (induction rule: rtranclp_induct)
  case base
  have "cm_table (newServerConnMgr n) = Map.empty" by (auto simp: cm_table_def newServerConnMgr_def cm_index_def)
  then show ?case using assms(2) by (simp add: cm_inv_def cm_live_def cm_pool_ok_def cm_count_ok_def) (simp add: newServerConnMgr_def)
next
  case (step m m')
  from step(2,3) show ?case by cases (auto intro: accept_inv store_inv doClose_inv)
qed

text \<open>C11. The connection manager counts right.  As long as a connection is not closed before it is stored, the table leads from
  the sockets to exactly the open connections, the counter is their number and never exceeds the limit, and an object
  in the pool is closed, in no table, and there once.\<close>

theorem tcp_manager_counts:
  assumes "cm_step\<^sup>*\<^sup>* (newServerConnMgr n) m" "0 \<le> n" "cmStoring m = None"
  shows "(\<forall>raw conn. cm_table m raw = Some conn \<longleftrightarrow> conn < cmFresh m \<and> mcOpen (cmObjs m conn) \<and> mcRaw (cmObjs m conn) = raw)
    \<and> cmTotal m = int (card (dom (cm_table m))) \<and> cmTotal m \<le> cmMax m
    \<and> distinct (cmPool m) \<and> (\<forall>conn \<in> set (cmPool m). conn \<notin> ran (cm_table m) \<and> \<not> mcOpen (cmObjs m conn))"
proof -
  have inv: "cm_inv m" by (rule cm_reach [OF assms(1,2)])
  note live = cm_liveD [OF inv]
  have "\<forall>raw conn. cm_table m raw = Some conn \<longleftrightarrow> conn < cmFresh m \<and> mcOpen (cmObjs m conn) \<and> mcRaw (cmObjs m conn) = raw"
    using live assms(3) by auto
  moreover have "\<forall>conn \<in> set (cmPool m). conn \<notin> ran (cm_table m) \<and> \<not> mcOpen (cmObjs m conn)"
    using inv live(1) by (auto simp: cm_inv_def cm_pool_ok_def ran_def)
  ultimately show ?thesis using inv by (simp add: cm_inv_def cm_pool_ok_def cm_count_ok_def)
qed


definition sample_mgr :: cmgr where
  "sample_mgr = cm_store (snd (cm_allocate 7 (cm_doClose 0 (cm_store (snd (cm_allocate 107 (newServerConnMgr 2)))))))"

theorem tcp_manager_counts_witness:
  "cmTotal sample_mgr = 1 \<and> cm_table sample_mgr 7 = Some 0 \<and> int (card (dom (cm_table sample_mgr))) = 1"
proof -
  let ?n = "newServerConnMgr 2" and ?a = "snd (cm_allocate 107 (newServerConnMgr 2))"
  have a: "cm_step\<^sup>*\<^sup>* ?n ?a" by (rule r_into_rtranclp, rule cm_step.accept) code_simp+
  have b: "cm_step ?a (cm_store ?a)" by (rule cm_step.stored)
  have c: "cm_step (cm_store ?a) (cm_doClose 0 (cm_store ?a))" by (rule cm_step.closes) code_simp+
  have d: "cm_step (cm_doClose 0 (cm_store ?a)) (snd (cm_allocate 7 (cm_doClose 0 (cm_store ?a))))" by (rule cm_step.accept) code_simp+
  have "cm_step\<^sup>*\<^sup>* ?n sample_mgr"
    unfolding sample_mgr_def using a b c d cm_step.stored by (meson rtranclp.rtrancl_into_rtrancl)
  moreover have "cmStoring sample_mgr = None" "cmTotal sample_mgr = 1" "cm_table sample_mgr 7 = Some 0" by code_simp+
  ultimately show ?thesis using tcp_manager_counts [of 2 sample_mgr] by simp
qed

section \<open>Stopping\<close>

lemma doClose_objs: "mcOpen (cmObjs (cm_doClose conn m) c) \<longleftrightarrow> mcOpen (cmObjs m c) \<and> c \<noteq> conn"
  by (auto simp: cm_doClose_def cm_recycle_def Let_def split: prod.splits option.splits)

lemma doClose_frame: "cmFresh (cm_doClose conn m) = cmFresh m" "cmStoring (cm_doClose conn m) = cmStoring m"
  by (auto simp: cm_doClose_def cm_recycle_def Let_def split: prod.splits option.splits)

lemma close_list:
  assumes "cm_inv m" "cmStoring m = None" "\<forall>conn \<in> set cs. conn < cmFresh m"
  shows "cm_inv (fold cm_doClose cs m) \<and> cmStoring (fold cm_doClose cs m) = None \<and> cmFresh (fold cm_doClose cs m) = cmFresh m \<and>
    (\<forall>c. mcOpen (cmObjs (fold cm_doClose cs m) c) \<longleftrightarrow> mcOpen (cmObjs m c) \<and> c \<notin> set cs)"
  using assms
proof (induction cs arbitrary: m)
  case (Cons c cs)
  then show ?case using doClose_inv [of m c] by (auto simp: doClose_frame doClose_objs)
qed simp

lemma part_close_list: "part_close p m = fold cm_doClose (map snd p) m"
  by (simp add: part_close_def fold_map case_prod_unfold comp_def)

lemma cm_close_list: "cm_close m = fold cm_doClose (concat (map (map snd) (cmParts m))) m"
proof -
  have "fold part_close ps m = fold cm_doClose (concat (map (map snd) ps)) m" for ps
    by (induction ps arbitrary: m) (simp_all add: part_close_list)
  then show ?thesis by (simp add: cm_close_def)
qed

text \<open>The partitions hold nothing but what the table shows.\<close>

definition parts_ok :: "cmgr \<Rightarrow> bool" where
  "parts_ok m \<longleftrightarrow> length (cmParts m) = partitions \<and>
     (\<forall>i < partitions. distinct (map fst (cmParts m ! i)) \<and> (\<forall>(raw, conn) \<in> set (cmParts m ! i). raw mod partitions = i))"

lemma parts_table: "\<lbrakk>parts_ok m; i < partitions; (raw, conn) \<in> set (cmParts m ! i)\<rbrakk> \<Longrightarrow> cm_table m raw = Some conn"
  by (auto simp: parts_ok_def cm_table_def cm_index_def)

lemma parts_update:
  assumes "parts_ok m" "distinct (map fst p)" "\<forall>(r, c) \<in> set p. r mod partitions = raw mod partitions" "cmParts m' = (cmParts m)[cm_index raw m := p]"
  shows "parts_ok m'"
  using assms by (auto simp: parts_ok_def cm_index_def nth_list_update)

lemma set_update: "set (AList.update k v al) \<subseteq> insert (k, v) (set al)"
  by (induction al) auto

lemma step_parts:
  assumes "parts_ok m" "cm_step m m'"
  shows "parts_ok m'"
proof -
  have sub: "distinct (map fst (cmParts m ! cm_index raw m))" "\<forall>(r, c) \<in> set (cmParts m ! cm_index raw m). r mod partitions = raw mod partitions" for raw
    using assms(1) by (simp_all add: parts_ok_def cm_index_def)
  have rec: "parts_ok (cm_recycle raw m1)" if "cmParts m1 = cmParts m" for raw m1
  proof -
    have ix: "cm_index raw m1 = cm_index raw m" using that by (simp add: cm_index_def)
    have "parts_ok m1" using assms(1) that by (simp add: parts_ok_def)
    moreover have "set (AList.delete raw (cmParts m ! cm_index raw m)) \<subseteq> set (cmParts m ! cm_index raw m)" by (auto simp: AList.delete_eq)
    then have "parts_ok (m1\<lparr>cmParts := (cmParts m1)[cm_index raw m1 := AList.delete raw (cmParts m1 ! cm_index raw m1)]\<rparr>)"
      using sub [of raw] that by - (rule parts_update [OF assms(1), of _ raw], auto simp: ix AList.distinct_delete)
    ultimately show ?thesis
      by (auto simp: cm_recycle_def part_delete_def parts_ok_def split: option.splits)
  qed
  from assms(2) show ?thesis
  proof cases
    case (accept raw)
    then show ?thesis using assms(1) by (auto simp: cm_allocate_def parts_ok_def Let_def split: list.splits)
  next
    case stored
    show ?thesis
    proof (cases "cmStoring m")
      case (Some s)
      obtain raw conn where s: "cmStoring m = Some (raw, conn)" using Some by (cases s) auto
      show ?thesis unfolding stored
      proof (rule parts_update [OF assms(1)])
        show "cmParts (cm_store m) = (cmParts m)[cm_index raw m := part_store raw conn (cmParts m ! cm_index raw m)]" by (simp add: cm_store_def s)
        show "distinct (map fst (part_store raw conn (cmParts m ! cm_index raw m)))" using sub(1) by (simp add: part_store_def AList.distinct_update)
        show "\<forall>(r, c) \<in> set (part_store raw conn (cmParts m ! cm_index raw m)). r mod partitions = raw mod partitions"
          using sub(2) [of raw] set_update [of raw conn "cmParts m ! cm_index raw m"] by (auto simp: part_store_def)
      qed
    qed (use stored assms(1) in \<open>simp add: cm_store_def\<close>)
  next
    case (closes conn)
    then show ?thesis using assms(1) rec by (auto simp: cm_doClose_def Let_def)
  qed
qed


lemma reach_parts: "cm_step\<^sup>*\<^sup>* (newServerConnMgr n) m \<Longrightarrow> parts_ok m"
proof (induction rule: rtranclp_induct)
  case base
  then show ?case by (simp add: parts_ok_def newServerConnMgr_def)
qed (rule step_parts)

text \<open>Stopping the server closes every connection: after \<open>close\<close> of the manager no connection is open, the table is empty and the
  counter is zero.\<close>

theorem tcp_manager_close:
  assumes "cm_step\<^sup>*\<^sup>* (newServerConnMgr n) m" "0 \<le> n" "cmStoring m = None"
  shows "(\<forall>conn < cmFresh m. \<not> mcOpen (cmObjs (cm_close m) conn)) \<and> cm_table (cm_close m) = Map.empty \<and> cmTotal (cm_close m) = 0"
proof -
  let ?cs = "concat (map (map snd) (cmParts m))"
  have inv: "cm_inv m" by (rule cm_reach [OF assms(1,2)])
  have ok: "parts_ok m" by (rule reach_parts [OF assms(1)])
  have mem: "conn \<in> set ?cs \<longleftrightarrow> (\<exists>raw. cm_table m raw = Some conn)" for conn
  proof
    assume "conn \<in> set ?cs"
    then obtain p raw where "p \<in> set (cmParts m)" and pr: "(raw, conn) \<in> set p" by auto
    then obtain i where "i < partitions" "p = cmParts m ! i" using ok by (metis in_set_conv_nth parts_ok_def)
    then have "i < partitions" "(raw, conn) \<in> set (cmParts m ! i)" using pr by simp_all
    then show "\<exists>raw. cm_table m raw = Some conn" using parts_table [OF ok] by blast
  next
    assume "\<exists>raw. cm_table m raw = Some conn"
    then obtain raw where "(raw, conn) \<in> set (cmParts m ! cm_index raw m)" by (auto simp: cm_table_def dest: map_of_SomeD)
    moreover have "cmParts m ! cm_index raw m \<in> set (cmParts m)" using ok by (simp add: parts_ok_def cm_index_def)
    ultimately show "conn \<in> set ?cs" by force
  qed
  note live = cm_liveD [OF inv]
  have "\<forall>conn \<in> set ?cs. conn < cmFresh m" using mem live(1) by blast
  from close_list [OF inv assms(3) this]
  have c: "cm_inv (cm_close m)" "cmStoring (cm_close m) = None" "cmFresh (cm_close m) = cmFresh m"
    "\<And>conn. mcOpen (cmObjs (cm_close m) conn) \<longleftrightarrow> mcOpen (cmObjs m conn) \<and> conn \<notin> set ?cs"
    by (simp_all add: cm_close_list)
  have none: "\<not> mcOpen (cmObjs (cm_close m) conn)" if "conn < cmFresh m" for conn
    using c(4) mem live(2) that assms(3) by auto
  have tab: "cm_table (cm_close m) = Map.empty"
  proof
    fix raw
    show "cm_table (cm_close m) raw = None"
    proof (cases "cm_table (cm_close m) raw")
      case (Some conn)
      then have "conn < cmFresh m" "mcOpen (cmObjs (cm_close m) conn)" using cm_liveD(1) [OF c(1)] c(3) by (auto 4 3)
      then show ?thesis using none by blast
    qed
  qed
  then have "cmTotal (cm_close m) = 0" using c(1) by (simp add: cm_inv_def cm_count_ok_def)
  then show ?thesis using none tab by blast
qed

theorem tcp_manager_close_witness: "cmTotal (cm_close (cm_store (snd (cm_allocate 107 (newServerConnMgr 2))))) = 0"
proof -
  let ?n = "newServerConnMgr 2" and ?a = "snd (cm_allocate 107 (newServerConnMgr 2))"
  have "cm_step ?n ?a" by (rule cm_step.accept) code_simp+
  then have "cm_step\<^sup>*\<^sup>* ?n (cm_store ?a)" using cm_step.stored by (meson r_into_rtranclp rtranclp.rtrancl_into_rtrancl)
  moreover have "cmStoring (cm_store ?a) = None" by code_simp
  ultimately show ?thesis using tcp_manager_close [of 2 "cm_store ?a"] by simp
qed

section \<open>Closed before it is stored\<close>

text \<open>A connection whose reader fails between \<open>init\<close> and \<open>store\<close>.\<close>

definition early_close :: "nat \<Rightarrow> cmgr \<Rightarrow> cmgr" where
  "early_close raw m = (let m = snd (cm_allocate raw m) in cm_store (case cmStoring m of Some (_, conn) \<Rightarrow> cm_doClose conn m | None \<Rightarrow> m))"

definition dead_mgr :: "nat \<Rightarrow> nat \<Rightarrow> cmgr \<Rightarrow> bool" where
  "dead_mgr n k m \<longleftrightarrow> cmMax m = int n \<and> cmTotal m = int k \<and> length (cmParts m) = partitions \<and> cmPool m = [] \<and> cmStoring m = None \<and>
     (\<forall>conn. \<not> mcOpen (cmObjs m conn)) \<and> (\<forall>raw \<ge> k. cm_table m raw = None)"

lemma early_close_leaks:
  assumes "dead_mgr n k m" "k < n"
  shows "dead_mgr n (Suc k) (early_close k m)"
proof -
  let ?a = "m\<lparr>cmFresh := cmFresh m + 1, cmID := cmID m + 1, cmObjs := (cmObjs m)(cmFresh m := \<lparr>mcID = cmID m + 1, mcRaw = k, mcOpen = True\<rparr>),
     cmStoring := Some (k, cmFresh m)\<rparr>"
  let ?b = "?a\<lparr>cmObjs := (cmObjs m)(cmFresh m := \<lparr>mcID = cmID m + 1, mcRaw = k, mcOpen = False\<rparr>)\<rparr>"
  have a: "snd (cm_allocate k m) = ?a" using assms by (simp add: cm_allocate_def dead_mgr_def Let_def)
  have tab: "cm_table ?b = cm_table m" by (simp add: table_fields)
  have len: "length (cmParts ?b) = partitions" "cmStoring ?b = Some (k, cmFresh m)" using assms(1) by (simp_all add: dead_mgr_def)
  have "cm_doClose (cmFresh m) ?a = cm_recycle k ?b" by (simp add: cm_doClose_def Let_def)
  also have "\<dots> = ?b" using assms(1) tab by (subst recycle_cases(2) [OF len(1)]) (simp add: dead_mgr_def)
  finally have eq: "early_close k m = cm_store ?b" by (simp add: early_close_def a Let_def)
  have "cm_table (cm_store ?b) = (cm_table m)(k \<mapsto> cmFresh m)" using table_store [OF len] tab by simp
  then show ?thesis using assms(1) unfolding eq dead_mgr_def by (auto simp: cm_store_def)
qed

text \<open>Connections that die early are counted for ever.  A connection that closes between \<open>init\<close> and \<open>store\<close> is not found by
  \<open>recycle\<close> and is stored and counted afterwards; after as many of them as the limit allows, the server refuses every new
  connection although none is open.\<close>

theorem early_close_exhausts:
  "\<exists>m. m = fold early_close [0..<n] (newServerConnMgr (int n)) \<and> (\<forall>conn. \<not> mcOpen (cmObjs m conn)) \<and>
     (\<forall>raw. fst (cm_allocate raw m) = Some ErrTooManyConnection)"
proof -
  have "k \<le> n \<Longrightarrow> dead_mgr n k (fold early_close [0..<k] (newServerConnMgr (int n)))" for k
  proof (induction k)
    case 0
    show ?case by (simp add: dead_mgr_def cm_table_def cm_index_def) (simp add: newServerConnMgr_def)
  next
    case (Suc k)
    then show ?case using early_close_leaks [of n k] by simp
  qed
  from this [of n] show ?thesis by (auto simp: dead_mgr_def cm_allocate_def)
qed

end
