(* ===== verification/GameClient.thy ===== *)
theory GameClient
  imports GateLink NodeLife
begin

text \<open>
  \<open>cluster/client\<close>: the client component.  Its connections are numbers of the network layer; handlers are numbers too,
  and what they are called with is recorded.  \<open>panics\<close> tells which calls of handlers panic.  Codec and encryptor are
  arguments.
\<close>

section \<open>The client\<close>

datatype client_call = RouteCall nat nat Message | EventCall int nat nat | HookCall hook nat

record client =
  clState :: int
  clRoutes :: "(int32 \<times> nat list) list"
  clEvents :: "(int \<times> nat list) list"
  clHooks :: "hook \<Rightarrow> nat list"
  clDefault :: "nat option"
  clConns :: "nat list"
  clAttrs :: "nat \<Rightarrow> (string \<times> string) list"
  clCalls :: "client_call list"

definition cl_NewClient :: client where
  "cl_NewClient = \<lparr>clState = st_Shut, clRoutes = [], clEvents = [], clHooks = (\<lambda>_. []), clDefault = None, clConns = [], clAttrs = (\<lambda>_. []), clCalls = []\<rparr>"

definition handlers_of :: "('k \<times> nat list) list \<Rightarrow> 'k \<Rightarrow> nat list" where
  "handlers_of m k = (case map_of m k of Some hs \<Rightarrow> hs | None \<Rightarrow> [])"

definition cl_addRouteHandler :: "int32 \<Rightarrow> nat \<Rightarrow> client \<Rightarrow> client" where
  "cl_addRouteHandler messageID h c =
     (if clState c = st_Shut then c\<lparr>clRoutes := AList.update messageID (handlers_of (clRoutes c) messageID @ [h]) (clRoutes c)\<rparr> else c)"

definition cl_setDefaultRouteHandler :: "nat \<Rightarrow> client \<Rightarrow> client" where
  "cl_setDefaultRouteHandler h c = (if clState c = st_Shut then c\<lparr>clDefault := Some h\<rparr> else c)"

definition cl_addEventListener :: "int \<Rightarrow> nat \<Rightarrow> client \<Rightarrow> client" where
  "cl_addEventListener e h c =
     (if clState c = st_Shut then c\<lparr>clEvents := AList.update e (handlers_of (clEvents c) e @ [h]) (clEvents c)\<rparr> else c)"

definition cl_addHookListener :: "hook \<Rightarrow> nat \<Rightarrow> client \<Rightarrow> client" where
  "cl_addHookListener k h c =
     (if k = HookDestroy \<or> clState c = st_Shut then c\<lparr>clHooks := (clHooks c)(k := clHooks c k @ [h])\<rparr> else c)"

text \<open>A call of a handler.\<close>

definition cl_call :: "(client_call \<Rightarrow> bool) \<Rightarrow> client_call \<Rightarrow> client \<Rightarrow> client go" where
  "cl_call panics k c = (if panics k then Panic else Ok (c\<lparr>clCalls := clCalls c @ [k]\<rparr>))"

definition cl_runHookFunc :: "(client_call \<Rightarrow> bool) \<Rightarrow> hook \<Rightarrow> client \<Rightarrow> client go" where
  "cl_runHookFunc panics k c = go_foreach (\<lambda>h. xcall_Call (Some (cl_call panics (HookCall k h)))) (clHooks c k) c"

text \<open>\<open>Init\<close> ends the process (an error here) when the network client or the codec is missing.\<close>

definition cl_Init :: "(client_call \<Rightarrow> bool) \<Rightarrow> bool \<Rightarrow> bool \<Rightarrow> client \<Rightarrow> client go" where
  "cl_Init panics has_client has_codec c =
     (if \<not> has_client \<or> \<not> has_codec then Err ErrInvalidArgument else cl_runHookFunc panics HookInit c)"

definition cl_Start :: "(client_call \<Rightarrow> bool) \<Rightarrow> client \<Rightarrow> client go" where
  "cl_Start panics c = cl_runHookFunc panics HookStart (c\<lparr>clState := st_Work\<rparr>)"

definition cl_Destroy :: "(client_call \<Rightarrow> bool) \<Rightarrow> client \<Rightarrow> client go" where
  "cl_Destroy panics c = cl_runHookFunc panics HookDestroy (c\<lparr>clState := st_Shut\<rparr>)"

abbreviation (input) Evt_Connect :: int where "Evt_Connect \<equiv> 1"

abbreviation (input) Evt_Disconnect :: int where "Evt_Disconnect \<equiv> 3"

definition cl_handleDisconnect :: "(client_call \<Rightarrow> bool) \<Rightarrow> nat \<Rightarrow> client \<Rightarrow> client go" where
  "cl_handleDisconnect panics conn c =
     (if conn \<notin> set (clConns c) then Ok c
      else go_foreach (\<lambda>h. xcall_Call (Some (cl_call panics (EventCall Evt_Disconnect h conn))))
             (handlers_of (clEvents c) Evt_Disconnect) (c\<lparr>clConns := removeAll conn (clConns c)\<rparr>))"

text \<open>\<open>handleReceive\<close>: a packet that is not complete gives no message and no error, and the access to it panics.\<close>

definition cl_handleReceive :: "packer_options \<Rightarrow> (client_call \<Rightarrow> bool) \<Rightarrow> nat \<Rightarrow> bytes \<Rightarrow> client \<Rightarrow> client go" where
  "cl_handleReceive p panics conn data c =
     (if conn \<notin> set (clConns c) then Ok c
      else case UnpackMessage p data of
             Err e \<Rightarrow> Ok c
           | Panic \<Rightarrow> Panic
           | Ok (None, _) \<Rightarrow> Panic
           | Ok (Some message, _) \<Rightarrow>
               (case map_of (clRoutes c) (mMessageID message) of
                  Some hs \<Rightarrow> go_foreach (\<lambda>h. xcall_Call (Some (cl_call panics (RouteCall h conn message)))) hs c
                | None \<Rightarrow>
                    (case clDefault c of
                       Some h \<Rightarrow> cl_call panics (RouteCall h conn message) c
                     | None \<Rightarrow> Ok c)))"

text \<open>\<open>dial\<close>, with the answer of the network client: what happens before the connection is stored, and the rest.\<close>

definition cl_dial_begin :: "nat go \<Rightarrow> (string \<times> string) list \<Rightarrow> client \<Rightarrow> nat go \<times> client" where
  "cl_dial_begin res attrs c =
     (if clState c = st_Shut then (Err ErrClientShut, c)
      else case res of
             Ok conn \<Rightarrow> (Ok conn, c\<lparr>clAttrs := (clAttrs c)(conn := fold (\<lambda>(k, v). AList.update k v) attrs (clAttrs c conn))\<rparr>)
           | _ \<Rightarrow> (res, c))"

definition cl_dial_store :: "(client_call \<Rightarrow> bool) \<Rightarrow> nat \<Rightarrow> client \<Rightarrow> client go" where
  "cl_dial_store panics conn c =
     go_foreach (\<lambda>h. xcall_Call (Some (cl_call panics (EventCall Evt_Connect h conn)))) (handlers_of (clEvents c) Evt_Connect)
       (c\<lparr>clConns := List.insert conn (clConns c)\<rparr>)"

section \<open>Messages\<close>

record 'd client_codec =
  cdMarshal :: "'d \<Rightarrow> bytes go"
  cdUnmarshal :: "bytes \<Rightarrow> 'd go"
  cdEncrypt :: "(bytes \<Rightarrow> bytes go) option"
  cdDecrypt :: "(bytes \<Rightarrow> bytes go) option"
  cdPacker :: packer_options

definition conn_Push :: "'d client_codec \<Rightarrow> 'd link_message \<Rightarrow> bytes go" where
  "conn_Push cd m =
     go_bind (case lmData m of
                NoData \<Rightarrow> Ok []
              | RawData v \<Rightarrow> (case cdEncrypt cd of Some enc \<Rightarrow> enc v | None \<Rightarrow> Ok v)
              | ValueData d \<Rightarrow> go_bind (cdMarshal cd d) (\<lambda>b. case cdEncrypt cd of Some enc \<Rightarrow> enc b | None \<Rightarrow> Ok b))
       (\<lambda>buf. PackMessage (cdPacker cd) \<lparr>mSeq = lmSeq m, mGameID = lmGameID m, mMessageID = lmMessageID m, mBuffer = buf\<rparr>)"

definition context_Parse :: "'d client_codec \<Rightarrow> Message \<Rightarrow> 'd go" where
  "context_Parse cd message =
     go_bind (case cdDecrypt cd of Some dec \<Rightarrow> dec (mBuffer message) | None \<Rightarrow> Ok (mBuffer message)) (cdUnmarshal cd)"

section \<open>Dispatch\<close>

lemma xcall_Some: "xcall_Call (Some f) s = f s"
  by (simp add: xcall_Call_def split: go.splits)

lemma calls_foreach:
  assumes "\<And>h. h \<in> set hs \<Longrightarrow> \<not> panics (k h)"
  shows "go_foreach (\<lambda>h. xcall_Call (Some (cl_call panics (k h)))) hs c = Ok (c\<lparr>clCalls := clCalls c @ map k hs\<rparr>)"
  using assms by (induction hs arbitrary: c) (simp_all add: xcall_Some cl_call_def)

text \<open>The calls a message leads to.\<close>

definition message_calls :: "client \<Rightarrow> nat \<Rightarrow> Message \<Rightarrow> client_call list" where
  "message_calls c conn m =
     (case map_of (clRoutes c) (mMessageID m) of
        Some hs \<Rightarrow> map (\<lambda>h. RouteCall h conn m) hs
      | None \<Rightarrow> (case clDefault c of Some h \<Rightarrow> [RouteCall h conn m] | None \<Rightarrow> []))"

lemma receive_message:
  assumes "UnpackMessage p data = Ok (Some m, n)" "conn \<in> set (clConns c)" "\<And>h. \<not> panics (RouteCall h conn m)"
  shows "cl_handleReceive p panics conn data c = Ok (c\<lparr>clCalls := clCalls c @ message_calls c conn m\<rparr>)"
  using assms by (simp add: cl_handleReceive_def message_calls_def calls_foreach cl_call_def split: option.splits)

text \<open>The gate's codec and the client's belong together.\<close>

definition codec_laws :: "('d, 'w) link_env \<Rightarrow> 'd client_codec \<Rightarrow> bool" where
  "codec_laws env cd \<longleftrightarrow> lePacker env = cdPacker cd \<and>
     (\<forall>d b. leMarshal env d = Ok b \<longrightarrow> cdUnmarshal cd b = Ok d) \<and>
     (case (leEncrypt env, cdDecrypt cd) of
        (Some enc, Some dec) \<Rightarrow> \<forall>b e. enc b = Ok e \<longrightarrow> dec e = Ok b
      | (None, None) \<Rightarrow> True
      | _ \<Rightarrow> False)"

lemma packed_value:
  assumes "codec_laws env cd" "gl_PackBuffer env (ValueData d) True = Ok buf"
  shows "context_Parse cd (m\<lparr>mBuffer := buf\<rparr>) = Ok d"
  using assms by (auto simp: codec_laws_def gl_PackBuffer_def context_Parse_def go_bind_eq_Ok split: option.splits)


text \<open>C9. A pushed message reaches the client's handlers.  A message that the gate packs and encrypts is read off the client's
  connection as one frame, is handed to exactly the handlers registered for its number in the order of their
  registration (else to the default handler), each once, and parses to the value that was pushed.\<close>

theorem pushed_message_handled:
  assumes "codec_laws env cd" "lmData m = ValueData d" "gl_PackMessage env m True = Ok nb"
    "\<And>buf. gl_PackBuffer env (lmData m) True = Ok buf \<Longrightarrow>
       packet_fits (lePacker env) \<lparr>mSeq = lmSeq m, mGameID = lmGameID m, mMessageID = lmMessageID m, mBuffer = buf\<rparr>"
    "conn \<in> set (clConns c)" "\<And>k. \<not> panics k"
  shows "\<exists>fr msg. nb = NewNocopyBuffer [MBlock (RawBlock fr)] \<and> ReadMessage (cdPacker cd) (fr @ rest) = Ok (fr, rest)
    \<and> cl_handleReceive (cdPacker cd) panics conn fr c = Ok (c\<lparr>clCalls := clCalls c @ message_calls c conn msg\<rparr>)
    \<and> mSeq msg = lmSeq m \<and> mGameID msg = lmGameID m \<and> mMessageID msg = lmMessageID m \<and> context_Parse cd msg = Ok d"
proof -
  obtain buf where buf: "gl_PackBuffer env (lmData m) True = Ok buf" using assms(3) by (auto simp: gl_PackMessage_def go_bind_eq_Ok)
  let ?msg = "\<lparr>mSeq = lmSeq m, mGameID = lmGameID m, mMessageID = lmMessageID m, mBuffer = buf\<rparr>"
  have pk: "cdPacker cd = lePacker env" using assms(1) by (simp add: codec_laws_def)
  obtain fr where fr: "PackMessage (lePacker env) ?msg = Ok fr" "nb = NewNocopyBuffer [MBlock (RawBlock fr)]"
    using assms(3) buf by (auto simp: gl_PackMessage_def go_bind_eq_Ok)
  have fits: "packet_fits (lePacker env) ?msg" by (rule assms(4) [OF buf])
  have rd: "ReadMessage (lePacker env) (fr @ rest) = Ok (fr, rest)" "UnpackMessage (lePacker env) fr = Ok (Some ?msg, 20 + length buf)"
    using ReadMessage_packet [OF fits, of rest] UnpackMessage_layout [OF fits, of "replicate 4 0"] packet_fits_layout [OF fits] packet_bytes_fits [OF fits] fr(1)
    by (auto simp: totalLen_def)
  have "context_Parse cd ?msg = Ok d" using packed_value [OF assms(1), of d buf ?msg] buf assms(2) by simp
  then show ?thesis using fr(2) rd receive_message [OF rd(2) assms(5)] assms(6) by (intro exI [of _ fr] exI [of _ ?msg]) (simp add: pk)
qed

text \<open>A connection that the network layer closes before it is stored stays stored, and its end is never reported.\<close>

lemma disconnect_before_store:
  assumes "conn \<notin> set (clConns c)" "\<And>k. \<not> panics k" "cl_handleDisconnect panics conn c = Ok c1"
  shows "\<exists>c2. cl_dial_store panics conn c1 = Ok c2 \<and> conn \<in> set (clConns c2) \<and> (\<forall>h. EventCall Evt_Disconnect h conn \<in> set (clCalls c2) \<longrightarrow>
     EventCall Evt_Disconnect h conn \<in> set (clCalls c))"
  using assms by (auto simp: cl_handleDisconnect_def cl_dial_store_def calls_foreach)

text \<open>Handlers are called in the order in which they were added, and a working client takes no more.\<close>

lemma route_added:
  "clState c = st_Shut \<Longrightarrow> mMessageID m = mid \<Longrightarrow>
    message_calls (cl_addRouteHandler mid h c) conn m = map (\<lambda>h. RouteCall h conn m) (handlers_of (clRoutes c) mid @ [h])"
  "clState c \<noteq> st_Shut \<Longrightarrow> cl_addRouteHandler mid h c = c"
  by (simp_all add: message_calls_def cl_addRouteHandler_def AList.update_conv')


text \<open>One byte is a value; encryption reverses.\<close>

definition byte_env :: "(byte, unit) link_env" where
  "byte_env = undefined\<lparr>leMarshal := (\<lambda>d. Ok [d, 0]), leEncrypt := Some (\<lambda>b. Ok (rev b)), lePacker := \<lparr>byteOrder = BigEndian, bufferBytes = 100\<rparr>\<rparr>"

definition byte_codec :: "byte client_codec" where
  "byte_codec = \<lparr>cdMarshal = (\<lambda>d. Ok [d, 0]), cdUnmarshal = (\<lambda>b. case b of d # _ \<Rightarrow> Ok d | [] \<Rightarrow> Err ErrInvalidMessage),
     cdEncrypt = Some (\<lambda>b. Ok (rev b)), cdDecrypt = Some (\<lambda>b. Ok (rev b)), cdPacker = \<lparr>byteOrder = BigEndian, bufferBytes = 100\<rparr>\<rparr>"

definition ready_client :: client where
  "ready_client = (cl_addRouteHandler 3 8 (cl_addRouteHandler 3 5 cl_NewClient))\<lparr>clState := st_Work, clConns := [2]\<rparr>"

theorem pushed_message_handled_witness:
  "\<exists>fr msg. gl_PackMessage byte_env \<lparr>lmSeq = 1, lmGameID = 2, lmMessageID = 3, lmData = ValueData 42\<rparr> True = Ok (NewNocopyBuffer [MBlock (RawBlock fr)]) \<and>
     cl_handleReceive (cdPacker byte_codec) (\<lambda>_. False) 2 fr ready_client = Ok (ready_client\<lparr>clCalls := [RouteCall 5 2 msg, RouteCall 8 2 msg]\<rparr>) \<and>
     context_Parse byte_codec msg = Ok 42"
proof -
  let ?m = "\<lparr>lmSeq = 1, lmGameID = 2, lmMessageID = 3, lmData = ValueData 42\<rparr> :: byte link_message"
  let ?msg = "\<lparr>mSeq = 1, mGameID = 2, mMessageID = 3, mBuffer = [0, 42]\<rparr>"
  have buf: "gl_PackBuffer byte_env (lmData ?m) True = Ok [0, 42]" by (simp add: gl_PackBuffer_def byte_env_def)
  have fits: "packet_fits (lePacker byte_env) ?msg" by (simp add: packet_fits_def totalLen_def byte_env_def)
  obtain fr where fr: "PackMessage (lePacker byte_env) ?msg = Ok fr" using packet_bytes_fits [OF fits] packet_fits_layout [OF fits] by auto
  have pack: "gl_PackMessage byte_env ?m True = Ok (NewNocopyBuffer [MBlock (RawBlock fr)])" using buf fr by (simp add: gl_PackMessage_def)
  have laws: "codec_laws byte_env byte_codec" by (simp add: codec_laws_def byte_env_def byte_codec_def)
  have fits': "packet_fits (lePacker byte_env) \<lparr>mSeq = lmSeq ?m, mGameID = lmGameID ?m, mMessageID = lmMessageID ?m, mBuffer = b\<rparr>"
    if "gl_PackBuffer byte_env (lmData ?m) True = Ok b" for b
    using that buf fits by simp
  have c: "2 \<in> set (clConns ready_client)" by (simp add: ready_client_def)
  obtain fr' msg where r: "NewNocopyBuffer [MBlock (RawBlock fr)] = NewNocopyBuffer [MBlock (RawBlock fr')]"
      "cl_handleReceive (cdPacker byte_codec) (\<lambda>_. False) 2 fr' ready_client = Ok (ready_client\<lparr>clCalls := clCalls ready_client @ message_calls ready_client 2 msg\<rparr>)"
      "mMessageID msg = 3" "context_Parse byte_codec msg = Ok 42"
    using pushed_message_handled [OF laws _ pack fits' c, of 42 "\<lambda>_. False" "[]"] by auto
  have "clCalls ready_client @ message_calls ready_client 2 msg = [RouteCall 5 2 msg, RouteCall 8 2 msg]"
    using r(3) by (simp add: ready_client_def message_calls_def cl_addRouteHandler_def cl_NewClient_def handlers_of_def)
  then show ?thesis using pack r by metis
qed

end
