(* ===== verification/GatePolicy.thy ===== *)
theory GatePolicy
  imports NodeLink Decimals
begin

text \<open>
  Which users a gate sends to gray and test nodes: the policy in \<open>cluster/gate/options.go\<close>, its updates in
  \<open>cluster/gate/policy.go\<close>, and the events of \<open>component/eventbus/gate.go\<close> that carry them.  The checkers an
  application may set are arguments.
\<close>

unbundle bit_operations_syntax

section \<open>Policies\<close>

record ServiceStatusPolicy =
  spGrayWhitelist :: "int64 list"
  spGrayTrafficPercent :: int
  spGrayTrafficSalt :: string
  spTestWhitelist :: "int64 list"

record ServiceStatusPolicyEvent =
  peGateIDs :: "string list"
  peGateNames :: "string list"
  pePolicy :: ServiceStatusPolicy

text \<open>The sets of users are lists without repetition; their order means nothing.\<close>

record gate_policy =
  gpGrayWhitelist :: "int64 list"
  gpGrayChecker :: "(int64 \<Rightarrow> bool) option"
  gpGrayTrafficPct :: int
  gpGrayTrafficSalt :: string
  gpTestWhitelist :: "int64 list"
  gpTestChecker :: "(int64 \<Rightarrow> bool) option"

record serviceStatusDecision =
  sdTargetStatus :: string
  sdReason :: string
  sdGrayWhitelistHit :: bool
  sdTestWhitelistHit :: bool
  sdGrayTrafficHit :: bool
  sdGrayTrafficBucket :: int

definition normalizeTrafficPercent :: "int \<Rightarrow> int" where
  "normalizeTrafficPercent percent = (if percent < 0 then 0 else if percent > 100 then 100 else percent)"

text \<open>\<open>fnv.New32a\<close> of the standard library.\<close>

definition fnv32a :: "string \<Rightarrow> 32 word" where
  "fnv32a data = fold (\<lambda>c h. (h XOR of_nat (of_char c)) * 16777619) data 2166136261"

definition trafficBucket :: "int64 \<Rightarrow> string \<Rightarrow> int" where
  "trafficBucket uid salt = uint (fnv32a (salt @ '':'' @ fmt_int (sint uid)) mod 100)"

definition positive_uid :: "int64 \<Rightarrow> bool" where
  "positive_uid uid \<longleftrightarrow> 0 < sint uid"

definition sliceToSet :: "int64 list \<Rightarrow> int64 list" where
  "sliceToSet uids = remdups (filter positive_uid uids)"

definition WithGrayWhitelist :: "int64 list \<Rightarrow> gate_policy \<Rightarrow> gate_policy" where
  "WithGrayWhitelist uids o' = o'\<lparr>gpGrayWhitelist := fold List.insert (filter positive_uid uids) (gpGrayWhitelist o')\<rparr>"

definition WithGrayUserChecker :: "(int64 \<Rightarrow> bool) option \<Rightarrow> gate_policy \<Rightarrow> gate_policy" where
  "WithGrayUserChecker checker o' = o'\<lparr>gpGrayChecker := checker\<rparr>"

definition WithGrayTrafficPercent :: "int \<Rightarrow> gate_policy \<Rightarrow> gate_policy" where
  "WithGrayTrafficPercent percent o' = o'\<lparr>gpGrayTrafficPct := normalizeTrafficPercent percent\<rparr>"

definition WithGrayTrafficSalt :: "string \<Rightarrow> gate_policy \<Rightarrow> gate_policy" where
  "WithGrayTrafficSalt salt o' = o'\<lparr>gpGrayTrafficSalt := salt\<rparr>"

definition WithTestWhitelist :: "int64 list \<Rightarrow> gate_policy \<Rightarrow> gate_policy" where
  "WithTestWhitelist uids o' = o'\<lparr>gpTestWhitelist := fold List.insert (filter positive_uid uids) (gpTestWhitelist o')\<rparr>"

definition WithTestUserChecker :: "(int64 \<Rightarrow> bool) option \<Rightarrow> gate_policy \<Rightarrow> gate_policy" where
  "WithTestUserChecker checker o' = o'\<lparr>gpTestChecker := checker\<rparr>"

section \<open>The decision\<close>

definition checked :: "(int64 \<Rightarrow> bool) option \<Rightarrow> int64 \<Rightarrow> bool" where
  "checked checker uid = (case checker of None \<Rightarrow> False | Some f \<Rightarrow> f uid)"

definition resolveServiceStatusDecision :: "gate_policy \<Rightarrow> int64 \<Rightarrow> serviceStatusDecision" where
  "resolveServiceStatusDecision o' uid =
     (let decision = \<lparr>sdTargetStatus = ServiceStatusNormal, sdReason = ''normal_default'', sdGrayWhitelistHit = False,
            sdTestWhitelistHit = False, sdGrayTrafficHit = False, sdGrayTrafficBucket = 0\<rparr>
      in if \<not> positive_uid uid then decision\<lparr>sdReason := ''invalid_uid''\<rparr>
         else if checked (gpTestChecker o') uid then decision\<lparr>sdTargetStatus := ServiceStatusTest, sdReason := ''test_checker''\<rparr>
         else if uid \<in> set (gpTestWhitelist o')
              then decision\<lparr>sdTargetStatus := ServiceStatusTest, sdReason := ''test_whitelist'', sdTestWhitelistHit := True\<rparr>
         else if checked (gpGrayChecker o') uid then decision\<lparr>sdTargetStatus := ServiceStatusGray, sdReason := ''gray_checker''\<rparr>
         else if uid \<in> set (gpGrayWhitelist o')
              then decision\<lparr>sdTargetStatus := ServiceStatusGray, sdReason := ''gray_whitelist'', sdGrayWhitelistHit := True\<rparr>
         else if gpGrayTrafficPct o' > 0
              then let bucket = trafficBucket uid (gpGrayTrafficSalt o'); decision = decision\<lparr>sdGrayTrafficBucket := bucket\<rparr>
                   in if bucket < gpGrayTrafficPct o'
                      then decision\<lparr>sdTargetStatus := ServiceStatusGray, sdReason := ''gray_percent'', sdGrayTrafficHit := True\<rparr>
                      else decision
         else decision)"

definition gate_resolveServiceStatus :: "gate_policy \<Rightarrow> int64 \<Rightarrow> string" where
  "gate_resolveServiceStatus o' uid = sdTargetStatus (resolveServiceStatusDecision o' uid)"

section \<open>Updates\<close>

definition serviceStatusPolicy :: "gate_policy \<Rightarrow> ServiceStatusPolicy" where
  "serviceStatusPolicy o' = \<lparr>spGrayWhitelist = gpGrayWhitelist o', spGrayTrafficPercent = gpGrayTrafficPct o',
     spGrayTrafficSalt = gpGrayTrafficSalt o', spTestWhitelist = gpTestWhitelist o'\<rparr>"

definition updateServiceStatusPolicy :: "ServiceStatusPolicy \<Rightarrow> bool \<Rightarrow> gate_policy \<Rightarrow> ServiceStatusPolicy \<times> gate_policy" where
  "updateServiceStatusPolicy policy isMatchGate o' =
     (let o' = o'\<lparr>gpGrayWhitelist := sliceToSet (spGrayWhitelist policy), gpGrayTrafficPct := normalizeTrafficPercent (spGrayTrafficPercent policy)\<rparr>;
          o' = (if isMatchGate
                then o'\<lparr>gpGrayTrafficSalt := spGrayTrafficSalt policy, gpTestWhitelist := sliceToSet (spTestWhitelist policy)\<rparr> else o')
      in (serviceStatusPolicy o', o'))"

definition MatchGate :: "string \<Rightarrow> string \<Rightarrow> ServiceStatusPolicyEvent \<Rightarrow> bool" where
  "MatchGate gid name e =
     (if peGateIDs e = [] \<and> peGateNames e = [] then True else gid \<in> set (peGateIDs e) \<or> name \<in> set (peGateNames e))"

text \<open>The handler that \<open>subscribeServiceStatusPolicy\<close> sets.\<close>

definition policy_event :: "string \<Rightarrow> string \<Rightarrow> ServiceStatusPolicyEvent option \<Rightarrow> gate_policy \<Rightarrow> gate_policy" where
  "policy_event gid name payload o' =
     (case payload of None \<Rightarrow> o' | Some e \<Rightarrow> snd (updateServiceStatusPolicy (pePolicy e) (MatchGate gid name e) o'))"

section \<open>Who is what\<close>

definition test_user :: "gate_policy \<Rightarrow> int64 \<Rightarrow> bool" where
  "test_user o' uid \<longleftrightarrow> positive_uid uid \<and> (checked (gpTestChecker o') uid \<or> uid \<in> set (gpTestWhitelist o'))"

definition gray_user :: "gate_policy \<Rightarrow> int64 \<Rightarrow> bool" where
  "gray_user o' uid \<longleftrightarrow> positive_uid uid \<and> \<not> test_user o' uid \<and>
     (checked (gpGrayChecker o') uid \<or> uid \<in> set (gpGrayWhitelist o') \<or> trafficBucket uid (gpGrayTrafficSalt o') < gpGrayTrafficPct o')"

lemma bucket_bounds: "0 \<le> trafficBucket uid salt" "trafficBucket uid salt < 100"
  by (simp_all add: trafficBucket_def uint_mod)

lemma resolve_status:
  "gate_resolveServiceStatus o' uid =
     (if test_user o' uid then ServiceStatusTest else if gray_user o' uid then ServiceStatusGray else ServiceStatusNormal)"
  using bucket_bounds(1) [of uid "gpGrayTrafficSalt o'"]
  by (simp add: gate_resolveServiceStatus_def resolveServiceStatusDecision_def test_user_def gray_user_def Let_def)

text \<open>The gray rollout is steady.  A user's bucket is between 0 and 99 and depends on the user and the salt alone; so raising
  the percentage never takes a user out of the gray group, at 0 the percentage admits nobody, and at 100 it admits every
  user who is not a test user, whatever percentage was asked for.\<close>

theorem gray_rollout_steady:
  assumes "positive_uid uid" "p \<le> q"
  shows "(gate_resolveServiceStatus (WithGrayTrafficPercent p o') uid = ServiceStatusGray \<longrightarrow>
      gate_resolveServiceStatus (WithGrayTrafficPercent q o') uid = ServiceStatusGray)
    \<and> (p \<le> 0 \<longrightarrow> \<not> sdGrayTrafficHit (resolveServiceStatusDecision (WithGrayTrafficPercent p o') uid))
    \<and> (100 \<le> q \<longrightarrow> gate_resolveServiceStatus (WithGrayTrafficPercent q o') uid \<noteq> ServiceStatusNormal)"
proof -
  have le: "normalizeTrafficPercent p \<le> normalizeTrafficPercent q" using assms(2) by (simp add: normalizeTrafficPercent_def)
  have test: "test_user (WithGrayTrafficPercent r o') uid = test_user o' uid" for r by (simp add: test_user_def WithGrayTrafficPercent_def)
  have "gray_user (WithGrayTrafficPercent p o') uid \<Longrightarrow> gray_user (WithGrayTrafficPercent q o') uid"
    using le unfolding gray_user_def test by (auto simp: WithGrayTrafficPercent_def)
  moreover have "100 \<le> q \<Longrightarrow> \<not> test_user o' uid \<Longrightarrow> gray_user (WithGrayTrafficPercent q o') uid"
    using assms(1) bucket_bounds(2) [of uid "gpGrayTrafficSalt o'"] unfolding gray_user_def test
    by (simp add: WithGrayTrafficPercent_def normalizeTrafficPercent_def)
  moreover have "p \<le> 0 \<Longrightarrow> \<not> sdGrayTrafficHit (resolveServiceStatusDecision (WithGrayTrafficPercent p o') uid)"
    by (simp add: resolveServiceStatusDecision_def WithGrayTrafficPercent_def normalizeTrafficPercent_def Let_def)
  ultimately show ?thesis by (auto simp: resolve_status test split: if_splits)
qed

definition plain_policy :: gate_policy where
  "plain_policy = \<lparr>gpGrayWhitelist = [], gpGrayChecker = None, gpGrayTrafficPct = 0, gpGrayTrafficSalt = ''s'', gpTestWhitelist = [7], gpTestChecker = None\<rparr>"

theorem gray_rollout_steady_witness:
  "gate_resolveServiceStatus (WithGrayTrafficPercent 120 plain_policy) 12 \<noteq> ServiceStatusNormal \<and>
   \<not> sdGrayTrafficHit (resolveServiceStatusDecision (WithGrayTrafficPercent 0 plain_policy) 12)"
  using gray_rollout_steady [of 12 0 120 plain_policy] by (simp add: positive_uid_def)

text \<open>C17. The rollout isolates.  When a gate picks a node for a user by its policy, a user who is neither a test nor a gray user is
  sent to a node with the normal status only, and nobody but a test user is sent to a test node.\<close>

theorem rollout_isolates:
  assumes "ReplaceServices parse services d0 = Ok d" "\<And>n. 0 < n \<Longrightarrow> neRand env n < n"
    "neResolve env = Some (gate_resolveServiceStatus o')"
    "SelectGameNode (neRand env) g (resolveServiceStatus env uid) d = Ok ((grp, nid), d')"
  shows "\<exists>i. Some i \<in> set services \<and> siID i = nid \<and> siGameID i = g \<and> active (siState i) \<and>
    (ServiceStatusOf (Some i) = ServiceStatusTest \<longrightarrow> test_user o' uid) \<and>
    (ServiceStatusOf (Some i) = ServiceStatusGray \<longrightarrow> test_user o' uid \<or> gray_user o' uid)"
proof -
  let ?s = "resolveServiceStatus env uid"
  have s: "?s = gate_resolveServiceStatus o' uid" using assms(3) by (simp add: resolveServiceStatus_def)
  obtain i where i: "Some i \<in> set services" "siID i = nid" "siGameID i = g" "active (siState i)"
      "ServiceStatusOf (Some i) \<in> set (PreferredServiceStatuses ?s)"
    using SelectGameNode_spec [OF assms(1,2), of g ?s] assms(4) by auto
  have "set (PreferredServiceStatuses ?s) =
      (if test_user o' uid then {ServiceStatusTest, ServiceStatusGray, ServiceStatusNormal}
       else if gray_user o' uid then {ServiceStatusGray, ServiceStatusNormal} else {ServiceStatusNormal})"
    unfolding s resolve_status by (simp add: PreferredServiceStatuses_def ParseServiceStatus_def)
  with i(5) have "ServiceStatusOf (Some i) = ServiceStatusTest \<longrightarrow> test_user o' uid"
    "ServiceStatusOf (Some i) = ServiceStatusGray \<longrightarrow> test_user o' uid \<or> gray_user o' uid"
    by (simp_all split: if_split_asm) (elim disjE, simp_all)
  then show ?thesis using i(1-4) by blast
qed

lemma sample_normal: "resolveServiceStatus (sample_nenv\<lparr>neResolve := Some (gate_resolveServiceStatus plain_policy)\<rparr>) 12 = ''normal''"
proof -
  have "\<not> test_user plain_policy 12" by (simp add: test_user_def plain_policy_def checked_def)
  moreover have "\<not> gray_user plain_policy 12"
    using bucket_bounds(1) [of 12 "''s''"] by (simp add: gray_user_def plain_policy_def checked_def)
  ultimately show ?thesis by (simp add: resolveServiceStatus_def resolve_status)
qed

theorem rollout_isolates_witness:
  "\<exists>d grp d' i. SelectGameNode (\<lambda>n. 0) 1 ''normal'' d = Ok ((grp, ''n1''), d') \<and> Some i \<in> set [Some sample_service] \<and> siID i = ''n1'' \<and>
     (ServiceStatusOf (Some i) = ServiceStatusGray \<longrightarrow> test_user plain_policy 12 \<or> gray_user plain_policy 12)"
proof -
  let ?p = "\<lambda>_. Some \<lparr>uScheme = [], uHost = [], uQuery = []\<rparr>" and ?env = "sample_nenv\<lparr>neResolve := Some (gate_resolveServiceStatus plain_policy)\<rparr>"
  obtain d where d: "ReplaceServices ?p [Some sample_service] (NewDispatcher ''rr'') = Ok d"
    by (simp add: ReplaceServices_def replace_step_def ParseEndpoint_def Let_def)
  have "balanced [Some sample_service] sample_service" by code_simp
  then have el: "eligible ?p [Some sample_service] 1 ''normal'' ''work'' sample_service"
    by (simp add: eligible_def ParseEndpoint_def sample_service_def ServiceStatusOf_def ParseServiceStatus_def)
  have pref: "PreferredServiceStatuses ''normal'' = [''normal'']" by code_simp
  have id: "siID sample_service = ''n1''" by (simp add: sample_service_def)
  obtain grp d' where sel: "SelectGameNode (\<lambda>n. 0) 1 ''normal'' d = Ok ((grp, ''n1''), d')"
    using SelectGameNode_spec [OF d, of "\<lambda>n. 0" 1 "''normal''", unfolded pref] el id
    by (cases "SelectGameNode (\<lambda>n. 0) 1 ''normal'' d") force+
  have rand: "neRand ?env = (\<lambda>n. 0)" by (simp add: sample_nenv_def)
  have "\<exists>i. Some i \<in> set [Some sample_service] \<and> siID i = ''n1'' \<and> siGameID i = 1 \<and> active (siState i) \<and>
      (ServiceStatusOf (Some i) = ServiceStatusTest \<longrightarrow> test_user plain_policy 12) \<and>
      (ServiceStatusOf (Some i) = ServiceStatusGray \<longrightarrow> test_user plain_policy 12 \<or> gray_user plain_policy 12)"
    by (rule rollout_isolates [OF d, where env = ?env]) (simp_all add: rand sample_normal sel)
  with sel show ?thesis by blast
qed

text \<open>An event for other gates changes the gray list and the percentage of every gate that receives it.\<close>

lemma policy_hits_other_gates:
  "\<not> MatchGate gid name e \<Longrightarrow> gpGrayTrafficPct (policy_event gid name (Some e) o') = normalizeTrafficPercent (spGrayTrafficPercent (pePolicy e))
    \<and> gpGrayWhitelist (policy_event gid name (Some e) o') = sliceToSet (spGrayWhitelist (pePolicy e))"
  by (simp add: policy_event_def updateServiceStatusPolicy_def Let_def)

text \<open>A matching event sets what the policy then reports.\<close>

lemma policy_event_read_back:
  "MatchGate gid name e \<Longrightarrow> serviceStatusPolicy (policy_event gid name (Some e) o') =
     \<lparr>spGrayWhitelist = sliceToSet (spGrayWhitelist (pePolicy e)), spGrayTrafficPercent = normalizeTrafficPercent (spGrayTrafficPercent (pePolicy e)),
      spGrayTrafficSalt = spGrayTrafficSalt (pePolicy e), spTestWhitelist = sliceToSet (spTestWhitelist (pePolicy e))\<rparr>"
  by (simp add: policy_event_def updateServiceStatusPolicy_def serviceStatusPolicy_def Let_def)

end
