(* ===== verification/GateInbound.thy ===== *)
theory GateInbound
  imports GateClient NodeLife "HOL-Library.Multiset"
begin

text \<open>
  The way of a client's message through a gate, and the life of the gate: the receive queue and its workers in
  \<open>cluster/gate/gate.go\<close>, the delivery of \<open>cluster/gate/proxy.go\<close> and \<open>deliver.go\<close>, and starting, closing and
  destroying.  The application's dispatcher of gate messages, the registry and the two servers are arguments; what the
  gate does for a session is in \<open>Gate\<close>, what the linker to the nodes does is in \<open>NodeLink\<close>.
\<close>

section \<open>State\<close>

abbreviation (input) GateGameID :: int32 where "GateGameID \<equiv> 0"

record inboundMessage =
  imConn :: nat
  imData :: bytes

text \<open>A worker waits for a message, has one, has read whose it is, or has returned.\<close>

datatype worker = Waiting | Received inboundMessage | Attributed int64 int64 inboundMessage | Returned

text \<open>What became of a message.\<close>

datatype fate = Malformed goerr | HalfPacket | NoDispatcher | Dispatched Message | Unbound | ToNode int64 int64 "goerr option"

record ('l, 'd, 'w, 'r) gate_deps =
  gdGate :: "'l gate_env"
  gdNode :: "('d, 'w) node_env"
  gdPacker :: packer_options
  gdDispatcher :: "(nat \<Rightarrow> Message \<Rightarrow> 'l gate \<Rightarrow> 'l gate go) option"
  gdQueue :: nat
  gdWorkers :: nat
  gdRegistry :: "'r registry_ops"
  gdName :: string
  gdEndpoint :: string
  gdVersion :: string
  gdMetadata :: "(string \<times> string) list"
  gdServerStart :: "goerr option"

text \<open>\<open>ghAccepted\<close> lists the messages the queue took and \<open>ghHandled\<close> those the workers are done with, each in the order of
  events; the program has no such lists.  \<open>ghServer\<close> and \<open>ghLinker\<close> tell whether the servers run.\<close>

record ('l, 'w, 'r) gate_host =
  ghGate :: "'l gate"
  ghLink :: "'w nlink"
  ghInbound :: "inboundMessage list"
  ghInboundClosed :: bool
  ghWorkers :: "worker list"
  ghCancelled :: bool
  ghServer :: bool
  ghLinker :: bool
  ghInstance :: "ServiceInstance option"
  ghRegistry :: 'r
  ghAccepted :: "inboundMessage list"
  ghHandled :: "(inboundMessage \<times> fate) list"

definition NewGate :: "'l \<Rightarrow> 'w nlink \<Rightarrow> 'r \<Rightarrow> ('l, 'w, 'r) gate_host" where
  "NewGate loc link reg =
     \<lparr>ghGate = \<lparr>gSession = NewSession [], gLocator = loc, gState = word_of_int st_Shut, gClosed = [], gEvents = [], gWg = 0\<rparr>,
      ghLink = link, ghInbound = [], ghInboundClosed = False, ghWorkers = [], ghCancelled = False, ghServer = False, ghLinker = False,
      ghInstance = None, ghRegistry = reg, ghAccepted = [], ghHandled = []\<rparr>"

section \<open>Delivery\<close>

text \<open>\<open>xcall.Call\<close> around the dispatcher raises a panic again (\<open>xcall_Call\<close>).\<close>

definition dispatchGateMessage ::
    "('l, 'd, 'w, 'r) gate_deps \<Rightarrow> nat \<Rightarrow> Message \<Rightarrow> ('l, 'w, 'r) gate_host \<Rightarrow> (fate \<times> ('l, 'w, 'r) gate_host) go" where
  "dispatchGateMessage env c message h =
     (case gdDispatcher env of
        None \<Rightarrow> Ok (NoDispatcher, h)
      | Some dispatcher \<Rightarrow>
          go_map (\<lambda>g. (Dispatched message, h\<lparr>ghGate := g\<rparr>)) (xcall_Call (Some (dispatcher c message)) (ghGate h)))"

definition proxy_deliver ::
    "('l, 'd, 'w, 'r) gate_deps \<Rightarrow> nat \<Rightarrow> int64 \<Rightarrow> int64 \<Rightarrow> bytes \<Rightarrow> ('l, 'w, 'r) gate_host \<Rightarrow> (fate \<times> ('l, 'w, 'r) gate_host) go" where
  "proxy_deliver env c cid uid data h =
     (case UnpackMessage (gdPacker env) data of
        Err e \<Rightarrow> Ok (Malformed e, h)
      | Panic \<Rightarrow> Panic
      | Ok (None, _) \<Rightarrow> Ok (HalfPacket, h)
      | Ok (Some message, _) \<Rightarrow>
          if mGameID message = GateGameID then dispatchGateMessage env c message h
          else if uid = 0 then Ok (Unbound, h)
          else let (res, l) = Deliver (gdNode env) \<lparr>daNID = '''', daCID = cid, daUID = uid, daMetadata = [],
                                  daGameID = mGameID message, daBuffer = DeliverBytes data\<rparr> (ghLink h)
               in go_map (\<lambda>err. (ToNode cid uid err, h\<lparr>ghLink := l\<rparr>)) res)"

text \<open>\<open>Gate.Deliver\<close>; the receiver and the message of a nil pointer are \<open>None\<close>.\<close>

definition gate_Deliver ::
    "('l, 'd, 'w, 'r) gate_deps \<Rightarrow> int64 \<Rightarrow> int64 \<Rightarrow> 'd link_message option \<Rightarrow> ('l, 'w, 'r) gate_host option \<Rightarrow>
     goerr option go \<times> ('l, 'w, 'r) gate_host option" where
  "gate_Deliver env cid uid message g =
     (case (g, message) of
        (Some h, Some m) \<Rightarrow>
          if uid \<le>s 0 \<or> lmGameID m \<le>s GateGameID \<or> lmMessageID m \<le>s 0 then (Ok (Some ErrInvalidArgument), g)
          else let (res, l) = Deliver (gdNode env) \<lparr>daNID = '''', daCID = cid, daUID = uid, daMetadata = [],
                                  daGameID = lmGameID m, daBuffer = DeliverMessage m\<rparr> (ghLink h)
               in (res, Some (h\<lparr>ghLink := l\<rparr>))
      | _ \<Rightarrow> (Ok (Some ErrInvalidArgument), g))"

section \<open>The receive queue\<close>

text \<open>A send on a closed channel panics.  The connection of a message that finds no room is closed.\<close>

definition handleReceive ::
    "('l, 'd, 'w, 'r) gate_deps \<Rightarrow> nat \<Rightarrow> bytes \<Rightarrow> ('l, 'w, 'r) gate_host \<Rightarrow> ('l, 'w, 'r) gate_host go" where
  "handleReceive env c data h =
     (let msg = \<lparr>imConn = c, imData = data\<rparr>
      in if ghInboundClosed h then Panic
         else if length (ghInbound h) < gdQueue env then Ok (h\<lparr>ghInbound := ghInbound h @ [msg], ghAccepted := ghAccepted h @ [msg]\<rparr>)
         else Ok (h\<lparr>ghGate := (ghGate h)\<lparr>gClosed := c # gClosed (ghGate h)\<rparr>\<rparr>))"

definition startReceiveWorkers :: "('l, 'd, 'w, 'r) gate_deps \<Rightarrow> ('l, 'w, 'r) gate_host \<Rightarrow> ('l, 'w, 'r) gate_host" where
  "startReceiveWorkers env h = h\<lparr>ghWorkers := ghWorkers h @ replicate (gdWorkers env) Waiting\<rparr>"

text \<open>The worker's loop in three steps: receive a message, read the identity of its connection, deliver.  \<open>worker_return\<close> is
  each of its two ways out: the context is done, or the channel is closed and empty.\<close>

definition worker_receive :: "nat \<Rightarrow> ('l, 'w, 'r) gate_host \<Rightarrow> ('l, 'w, 'r) gate_host" where
  "worker_receive w h =
     (if w < length (ghWorkers h) \<and> ghWorkers h ! w = Waiting
      then case ghInbound h of
             [] \<Rightarrow> h
           | msg # q \<Rightarrow> h\<lparr>ghInbound := q, ghWorkers := (ghWorkers h)[w := Received msg]\<rparr>
      else h)"

definition worker_attribute :: "nat \<Rightarrow> ('l, 'w, 'r) gate_host \<Rightarrow> ('l, 'w, 'r) gate_host" where
  "worker_attribute w h =
     (if w < length (ghWorkers h)
      then case ghWorkers h ! w of
             Received msg \<Rightarrow>
               let cid = conn_ID (gSession (ghGate h)) (imConn msg); uid = conn_UID (gSession (ghGate h)) (imConn msg)
               in h\<lparr>ghWorkers := (ghWorkers h)[w := Attributed cid uid msg]\<rparr>
           | _ \<Rightarrow> h
      else h)"

definition worker_deliver ::
    "('l, 'd, 'w, 'r) gate_deps \<Rightarrow> nat \<Rightarrow> ('l, 'w, 'r) gate_host \<Rightarrow> ('l, 'w, 'r) gate_host go" where
  "worker_deliver env w h =
     (if w < length (ghWorkers h)
      then case ghWorkers h ! w of
             Attributed cid uid msg \<Rightarrow>
               go_map (\<lambda>(f, h). h\<lparr>ghWorkers := (ghWorkers h)[w := Waiting], ghHandled := ghHandled h @ [(msg, f)]\<rparr>)
                 (proxy_deliver env (imConn msg) cid uid (imData msg) h)
           | _ \<Rightarrow> Ok h
      else Ok h)"

definition worker_return :: "nat \<Rightarrow> ('l, 'w, 'r) gate_host \<Rightarrow> ('l, 'w, 'r) gate_host" where
  "worker_return w h =
     (if w < length (ghWorkers h) \<and> ghWorkers h ! w = Waiting \<and> (ghCancelled h \<or> ghInboundClosed h \<and> ghInbound h = [])
      then h\<lparr>ghWorkers := (ghWorkers h)[w := Returned]\<rparr> else h)"

text \<open>\<open>stopReceiveWorkers\<close> closes the channel and waits until every worker has returned.\<close>

definition close_inbound :: "('l, 'w, 'r) gate_host \<Rightarrow> ('l, 'w, 'r) gate_host" where
  "close_inbound h = h\<lparr>ghInboundClosed := True\<rparr>"

definition workers_done :: "('l, 'w, 'r) gate_host \<Rightarrow> bool" where
  "workers_done h \<longleftrightarrow> list_all (\<lambda>w. w = Returned) (ghWorkers h)"

section \<open>Life cycle\<close>

definition gate_Init_ok :: "('l, 'd, 'w, 'r) gate_deps \<Rightarrow> bool \<Rightarrow> bool \<Rightarrow> bool \<Rightarrow> bool" where
  "gate_Init_ok env server locator registry \<longleftrightarrow> geID (gdGate env) \<noteq> [] \<and> server \<and> locator \<and> registry"

definition gate_instance :: "('l, 'd, 'w, 'r) gate_deps \<Rightarrow> int32 \<Rightarrow> ServiceInstance" where
  "gate_instance env st =
     \<lparr>siID = geID (gdGate env), siName = ''gate'', siKind = ''gate'', siAlias = gdName env, siState = State_String (sint st),
      siEvents = [], siRoutes = [], siServices = [], siEndpoint = gdEndpoint env, siWeight = 0, siGameID = 0,
      siVersion = gdVersion env, siMetadata = gdMetadata env\<rparr>"

text \<open>A registration that fails ends the process: \<open>Err\<close>.\<close>

definition registerServiceInstance ::
    "('l, 'd, 'w, 'r) gate_deps \<Rightarrow> ('l, 'w, 'r) gate_host \<Rightarrow> ('l, 'w, 'r) gate_host go" where
  "registerServiceInstance env h =
     (let i = gate_instance env (gState (ghGate h)); h = h\<lparr>ghInstance := Some i\<rparr>; (err, reg) = rgRegister (gdRegistry env) i (ghRegistry h)
      in case err of None \<Rightarrow> Ok (h\<lparr>ghRegistry := reg\<rparr>) | Some e \<Rightarrow> Err e)"

definition refreshServiceInstance ::
    "('l, 'd, 'w, 'r) gate_deps \<Rightarrow> ('l, 'w, 'r) gate_host \<Rightarrow> ('l, 'w, 'r) gate_host go" where
  "refreshServiceInstance env h =
     (case ghInstance h of
        None \<Rightarrow> Ok h
      | Some i \<Rightarrow>
          let i = i\<lparr>siState := State_String (sint (gState (ghGate h)))\<rparr>; h = h\<lparr>ghInstance := Some i\<rparr>;
              (err, reg) = rgRegister (gdRegistry env) i (ghRegistry h)
          in case err of None \<Rightarrow> Ok (h\<lparr>ghRegistry := reg\<rparr>) | Some e \<Rightarrow> Err e)"

text \<open>\<open>Deregister\<close> is given the instance pointer, nil when the gate never registered; its error is logged.\<close>

definition deregisterServiceInstance ::
    "('l, 'd, 'w, 'r) gate_deps \<Rightarrow> ('l, 'w, 'r) gate_host \<Rightarrow> ('l, 'w, 'r) gate_host" where
  "deregisterServiceInstance env h =
     (case ghInstance h of None \<Rightarrow> h | Some i \<Rightarrow> h\<lparr>ghRegistry := snd (rgDeregister (gdRegistry env) i (ghRegistry h))\<rparr>)"

definition startNetworkServer :: "('l, 'd, 'w, 'r) gate_deps \<Rightarrow> ('l, 'w, 'r) gate_host \<Rightarrow> ('l, 'w, 'r) gate_host go" where
  "startNetworkServer env h = (case gdServerStart env of None \<Rightarrow> Ok (h\<lparr>ghServer := True\<rparr>) | Some e \<Rightarrow> Err e)"

definition stopNetworkServer :: "('l, 'w, 'r) gate_host \<Rightarrow> ('l, 'w, 'r) gate_host" where
  "stopNetworkServer h = h\<lparr>ghServer := False\<rparr>"

definition stopLinkerServer :: "('l, 'w, 'r) gate_host \<Rightarrow> ('l, 'w, 'r) gate_host" where
  "stopLinkerServer h = h\<lparr>ghLinker := False\<rparr>"

definition set_gate_state :: "int \<Rightarrow> ('l, 'w, 'r) gate_host \<Rightarrow> ('l, 'w, 'r) gate_host" where
  "set_gate_state st h = h\<lparr>ghGate := (ghGate h)\<lparr>gState := word_of_int st\<rparr>\<rparr>"

abbreviation gate_state :: "('l, 'w, 'r) gate_host \<Rightarrow> int" where
  "gate_state h \<equiv> sint (gState (ghGate h))"

definition gate_Start :: "('l, 'd, 'w, 'r) gate_deps \<Rightarrow> ('l, 'w, 'r) gate_host \<Rightarrow> ('l, 'w, 'r) gate_host go" where
  "gate_Start env h =
     (if gate_state h \<noteq> st_Shut then Ok h
      else go_seq
        [\<lambda>h. Ok (startReceiveWorkers env h), startNetworkServer env, \<lambda>h. Ok (h\<lparr>ghLinker := True\<rparr>), registerServiceInstance env]
        (set_gate_state st_Work h))"

text \<open>\<open>Close\<close> up to its wait for the connections, which \<open>close_returns\<close> ends.\<close>

definition gate_Close :: "('l, 'd, 'w, 'r) gate_deps \<Rightarrow> ('l, 'w, 'r) gate_host \<Rightarrow> ('l, 'w, 'r) gate_host go" where
  "gate_Close env h =
     (if gate_state h \<noteq> st_Work \<and> gate_state h \<noteq> st_Busy then Ok h
      else go_seq [refreshServiceInstance env, \<lambda>h. Ok (stopNetworkServer h), \<lambda>h. Ok (stopLinkerServer h)] (set_gate_state st_Hang h))"

definition close_returns :: "('l, 'w, 'r) gate_host \<Rightarrow> bool" where
  "close_returns h \<longleftrightarrow> gWg (ghGate h) = 0"

text \<open>\<open>Destroy\<close> up to its wait for the workers, and after it.\<close>

definition destroy_begin :: "('l, 'd, 'w, 'r) gate_deps \<Rightarrow> ('l, 'w, 'r) gate_host \<Rightarrow> ('l, 'w, 'r) gate_host option" where
  "destroy_begin env h =
     (if gate_state h \<noteq> st_Hang then None
      else Some (close_inbound (stopNetworkServer (deregisterServiceInstance env (set_gate_state st_Shut h)))))"

definition destroy_end :: "('l, 'w, 'r) gate_host \<Rightarrow> ('l, 'w, 'r) gate_host option" where
  "destroy_end h = (if workers_done h then Some ((stopLinkerServer h)\<lparr>ghCancelled := True\<rparr>) else None)"

section \<open>Runs\<close>

text \<open>The server's connection manager hands an object of its pool, or a new one, to a new client (\<open>serverConn.init\<close> sets
  the identity and calls \<open>handleConnect\<close>); an object is in the pool when the session no longer has it.\<close>

definition accept_conn ::
    "('l, 'd, 'w, 'r) gate_deps \<Rightarrow> nat \<Rightarrow> int64 \<Rightarrow> ('l, 'w, 'r) gate_host \<Rightarrow> ('l, 'w, 'r) gate_host" where
  "accept_conn env c cid h =
     (let s = gSession (ghGate h); fresh = \<lparr>cnID = cid, cnUID = 0, cnAttrs = []\<rparr>
      in if c \<in> snd ` set (sConns s) \<or> length (sHeap s) < c then h
         else let heap = (if c = length (sHeap s) then sHeap s @ [fresh] else (sHeap s)[c := fresh]);
                  g = (ghGate h)\<lparr>gSession := s\<lparr>sHeap := heap\<rparr>\<rparr>
              in h\<lparr>ghGate := handleConnect (gdGate env) c g\<rparr>)"

text \<open>What can happen at a gate.  An action that is not possible changes nothing.\<close>

datatype gate_act =
    Accept nat int64 | Leave nat | Login int64 int64 | Arrive nat bytes
  | WReceive nat | WAttribute nat | WDeliver nat | WReturn nat | CloseInbound | Cancel

fun gate_do :: "('l, 'd, 'w, 'r) gate_deps \<Rightarrow> gate_act \<Rightarrow> ('l, 'w, 'r) gate_host \<Rightarrow> ('l, 'w, 'r) gate_host go" where
  "gate_do env (Accept c cid) h = Ok (accept_conn env c cid h)"
| "gate_do env (Leave c) h = Ok (h\<lparr>ghGate := handleDisconnect (gdGate env) c (ghGate h)\<rparr>)"
| "gate_do env (Login cid uid) h = Ok (h\<lparr>ghGate := snd (provider_Bind (gdGate env) cid uid (ghGate h))\<rparr>)"
| "gate_do env (Arrive c data) h = handleReceive env c data h"
| "gate_do env (WReceive w) h = Ok (worker_receive w h)"
| "gate_do env (WAttribute w) h = Ok (worker_attribute w h)"
| "gate_do env (WDeliver w) h = worker_deliver env w h"
| "gate_do env (WReturn w) h = Ok (worker_return w h)"
| "gate_do env CloseInbound h = Ok (close_inbound h)"
| "gate_do env Cancel h = Ok (h\<lparr>ghCancelled := True\<rparr>)"

definition gate_run :: "('l, 'd, 'w, 'r) gate_deps \<Rightarrow> gate_act list \<Rightarrow> ('l, 'w, 'r) gate_host \<Rightarrow> ('l, 'w, 'r) gate_host go" where
  "gate_run env acts h = go_foreach (gate_do env) acts h"

section \<open>No message is lost\<close>

primrec held :: "worker \<Rightarrow> inboundMessage list" where
  "held Waiting = []"
| "held (Received msg) = [msg]"
| "held (Attributed cid uid msg) = [msg]"
| "held Returned = []"

abbreviation being_handled :: "('l, 'w, 'r) gate_host \<Rightarrow> inboundMessage list" where
  "being_handled h \<equiv> concat (map held (ghWorkers h))"

definition inbound_inv :: "nat \<Rightarrow> ('l, 'w, 'r) gate_host \<Rightarrow> bool" where
  "inbound_inv cap h \<longleftrightarrow>
     mset (ghAccepted h) = mset (map fst (ghHandled h)) + mset (being_handled h) + mset (ghInbound h) \<and>
     length (ghInbound h) \<le> cap \<and>
     (Returned \<in> set (ghWorkers h) \<longrightarrow> ghCancelled h \<or> ghInboundClosed h \<and> ghInbound h = []) \<and>
     (length (ghWorkers h) = 1 \<longrightarrow> ghAccepted h = map fst (ghHandled h) @ being_handled h @ ghInbound h)"

lemma mset_held_update:
  "w < length ws \<Longrightarrow> mset (concat (map held (ws[w := x]))) + mset (held (ws ! w)) = mset (concat (map held ws)) + mset (held x)"
proof (induction ws arbitrary: w)
  case (Cons a ws)
  then show ?case by (cases w) (auto simp: ac_simps)
qed simp

lemma held_update:
  assumes "w < length ws"
  shows "held (ws ! w) = [] \<Longrightarrow> mset (concat (map held (ws[w := x]))) = mset (concat (map held ws)) + mset (held x)"
    and "held (ws ! w) = [msg] \<Longrightarrow> held x = [msg] \<Longrightarrow> mset (concat (map held (ws[w := x]))) = mset (concat (map held ws))"
    and "held (ws ! w) = [msg] \<Longrightarrow> held x = [] \<Longrightarrow> mset (concat (map held ws)) = add_mset msg (mset (concat (map held (ws[w := x]))))"
  using mset_held_update [OF assms, of x] by simp_all

lemma single_worker: "length ws = 1 \<Longrightarrow> w < length ws \<Longrightarrow> w = 0 \<and> ws = [ws ! w]"
  by (cases ws) auto

lemma proxy_deliver_keeps:
  assumes "proxy_deliver env c cid uid data h = Ok (f, h')"
  shows "ghInbound h' = ghInbound h" "ghInboundClosed h' = ghInboundClosed h" "ghWorkers h' = ghWorkers h" "ghCancelled h' = ghCancelled h"
    "ghAccepted h' = ghAccepted h" "ghHandled h' = ghHandled h" "ghServer h' = ghServer h" "ghRegistry h' = ghRegistry h"
  using assms by (auto simp: proxy_deliver_def dispatchGateMessage_def Let_def go_map_eq_Ok split: go.splits option.splits prod.splits if_splits)

lemma inv_frame:
  assumes "inbound_inv cap h" "ghInbound h' = ghInbound h" "ghWorkers h' = ghWorkers h" "ghAccepted h' = ghAccepted h"
    "ghHandled h' = ghHandled h" "ghInboundClosed h \<longrightarrow> ghInboundClosed h'" "ghCancelled h \<longrightarrow> ghCancelled h'"
  shows "inbound_inv cap h'"
  using assms by (auto simp: inbound_inv_def)

lemma handleReceive_inv:
  assumes "inbound_inv (gdQueue env) h" "handleReceive env c data h = Ok h'"
  shows "inbound_inv (gdQueue env) h'"
  using assms by (auto simp: handleReceive_def inbound_inv_def Let_def split: if_splits)

lemma worker_receive_inv:
  assumes "inbound_inv cap h"
  shows "inbound_inv cap (worker_receive w h)"
proof (cases "w < length (ghWorkers h) \<and> ghWorkers h ! w = Waiting \<and> ghInbound h \<noteq> []")
  case True
  then obtain msg q where q: "ghInbound h = msg # q" by (cases "ghInbound h") auto
  have u: "mset (concat (map held ((ghWorkers h)[w := Received msg]))) = mset (being_handled h) + {#msg#}"
    using True held_update(1) [of w "ghWorkers h" "Received msg"] by simp
  have one: "being_handled h = [] \<and> concat (map held ((ghWorkers h)[w := Received msg])) = [msg]" if "length (ghWorkers h) = 1"
    using single_worker [OF that] True by (metis append_Nil2 concat.simps held.simps(1,2) list.simps(8,9) list_update_code(2))
  have "Returned \<in> set ((ghWorkers h)[w := Received msg]) \<Longrightarrow> Returned \<in> set (ghWorkers h)"
    using set_update_subset_insert [of "ghWorkers h" w "Received msg"] by auto
  then show ?thesis using assms True q u one by (auto simp: worker_receive_def inbound_inv_def)
next
  case False
  then have "worker_receive w h = h" by (auto simp: worker_receive_def split: list.split)
  then show ?thesis using assms by simp
qed

lemma worker_attribute_inv:
  assumes "inbound_inv cap h"
  shows "inbound_inv cap (worker_attribute w h)"
proof (cases "\<exists>msg. w < length (ghWorkers h) \<and> ghWorkers h ! w = Received msg")
  case True
  then obtain msg where w: "w < length (ghWorkers h)" "ghWorkers h ! w = Received msg" by blast
  define x where "x = Attributed (conn_ID (gSession (ghGate h)) (imConn msg)) (conn_UID (gSession (ghGate h)) (imConn msg)) msg"
  have eq: "worker_attribute w h = h\<lparr>ghWorkers := (ghWorkers h)[w := x]\<rparr>" using w by (simp add: worker_attribute_def x_def Let_def)
  have u: "mset (concat (map held ((ghWorkers h)[w := x]))) = mset (being_handled h)"
    using w held_update(2) [of w "ghWorkers h" msg x] by (simp add: x_def)
  have one: "concat (map held ((ghWorkers h)[w := x])) = being_handled h"
    using w by (intro arg_cong [where f = concat]) (simp add: map_update x_def list_update_same_conv)
  have "Returned \<in> set ((ghWorkers h)[w := x]) \<Longrightarrow> Returned \<in> set (ghWorkers h)"
    using set_update_subset_insert [of "ghWorkers h" w x] by (auto simp: x_def)
  then show ?thesis using assms one unfolding eq by (auto simp: inbound_inv_def)
next
  case False
  then have "worker_attribute w h = h" by (auto simp: worker_attribute_def split: worker.split)
  then show ?thesis using assms by simp
qed

lemma worker_deliver_inv:
  assumes "inbound_inv cap h" "worker_deliver env w h = Ok h'"
  shows "inbound_inv cap h'"
proof (cases "\<exists>cid uid msg. w < length (ghWorkers h) \<and> ghWorkers h ! w = Attributed cid uid msg")
  case True
  then obtain cid uid msg where w: "w < length (ghWorkers h)" "ghWorkers h ! w = Attributed cid uid msg" by blast
  then obtain f h1 where d: "proxy_deliver env (imConn msg) cid uid (imData msg) h = Ok (f, h1)"
      and h': "h' = h1\<lparr>ghWorkers := (ghWorkers h1)[w := Waiting], ghHandled := ghHandled h1 @ [(msg, f)]\<rparr>"
    using assms(2) by (auto simp: worker_deliver_def go_map_eq_Ok)
  have u: "mset (being_handled h) = add_mset msg (mset (concat (map held ((ghWorkers h)[w := Waiting]))))"
    using w held_update(3) [of w "ghWorkers h" msg Waiting] by simp
  have one: "being_handled h = [msg] \<and> concat (map held ((ghWorkers h)[w := Waiting])) = []" if "length (ghWorkers h) = 1"
    using single_worker [OF that] w by (metis append_Nil2 concat.simps held.simps(1,3) list.simps(8,9) list_update_code(2))
  have "Returned \<in> set ((ghWorkers h)[w := Waiting]) \<Longrightarrow> Returned \<in> set (ghWorkers h)"
    using set_update_subset_insert [of "ghWorkers h" w Waiting] by auto
  then show ?thesis using assms(1) u one unfolding h' by (auto simp: inbound_inv_def proxy_deliver_keeps [OF d])
next
  case False
  then have "h' = h" using assms(2) by (auto simp: worker_deliver_def split: worker.splits if_splits)
  then show ?thesis using assms by simp
qed

lemma worker_return_inv:
  assumes "inbound_inv cap h"
  shows "inbound_inv cap (worker_return w h)"
proof (cases "w < length (ghWorkers h) \<and> ghWorkers h ! w = Waiting \<and> (ghCancelled h \<or> ghInboundClosed h \<and> ghInbound h = [])")
  case True
  have one: "map held ((ghWorkers h)[w := Returned]) = map held (ghWorkers h)"
    using True by (simp add: map_update list_update_same_conv)
  have "worker_return w h = h\<lparr>ghWorkers := (ghWorkers h)[w := Returned]\<rparr>" using True by (simp add: worker_return_def)
  then show ?thesis using assms True one by (simp add: inbound_inv_def)
qed (use assms in \<open>auto simp: worker_return_def\<close>)

lemma gate_do_inv:
  assumes "inbound_inv (gdQueue env) h" "gate_do env a h = Ok h'"
  shows "inbound_inv (gdQueue env) h'"
proof (cases a)
  case (Accept c cid)
  then show ?thesis using assms by (auto simp: accept_conn_def Let_def intro: inv_frame [OF assms(1)])
next
  case (WDeliver w)
  then show ?thesis using assms worker_deliver_inv by simp
qed (use assms in \<open>auto intro: inv_frame [OF assms(1)] handleReceive_inv worker_receive_inv worker_attribute_inv worker_return_inv simp: close_inbound_def\<close>)

lemma gate_run_inv:
  "inbound_inv (gdQueue env) h \<Longrightarrow> gate_run env acts h = Ok h' \<Longrightarrow> inbound_inv (gdQueue env) h'"
  unfolding gate_run_def by (rule go_foreach_invariant [where I = "inbound_inv (gdQueue env)"], rule gate_do_inv)

lemma gate_do_workers: "gate_do env a h = Ok h' \<Longrightarrow> length (ghWorkers h') = length (ghWorkers h)"
  by (cases a) (auto simp: accept_conn_def Let_def handleReceive_def worker_receive_def worker_attribute_def worker_deliver_def worker_return_def
    close_inbound_def go_map_eq_Ok proxy_deliver_keeps split: if_splits list.splits worker.splits)

lemma gate_run_workers: "gate_run env acts h = Ok h' \<Longrightarrow> length (ghWorkers h') = length (ghWorkers h)"
  unfolding gate_run_def
  by (rule go_foreach_invariant [where I = "\<lambda>h'. length (ghWorkers h') = length (ghWorkers h)"]) (auto dest: gate_do_workers)

text \<open>C15. No message is lost, and one worker keeps the order.  From a gate with an empty queue that has just started its workers,
  whatever clients, workers and logins do and in whatever order: every message the queue took is waiting, with a worker, or
  handled, exactly once; the queue never exceeds its bound; when \<open>stopReceiveWorkers\<close> has seen all workers return while
  the context was not cancelled, every message taken has been handled; and with one worker the messages are handled
  in the order in which they arrived.\<close>

theorem gate_inbound_conserved:
  assumes "ghWorkers h0 = []" "ghInbound h0 = []" "ghAccepted h0 = []" "ghHandled h0 = []" "0 < gdWorkers env"
    and "gate_run env acts (startReceiveWorkers env h0) = Ok h"
  shows "mset (ghAccepted h) = mset (map fst (ghHandled h)) + mset (being_handled h) + mset (ghInbound h)
    \<and> length (ghInbound h) \<le> gdQueue env
    \<and> (workers_done h \<and> \<not> ghCancelled h \<longrightarrow> mset (ghAccepted h) = mset (map fst (ghHandled h)))
    \<and> (gdWorkers env = 1 \<longrightarrow> ghAccepted h = map fst (ghHandled h) @ being_handled h @ ghInbound h)"
proof -
  have "concat (map held (replicate n Waiting)) = []" for n by (induction n) auto
  then have "inbound_inv (gdQueue env) (startReceiveWorkers env h0)" using assms(1-4) by (simp add: inbound_inv_def startReceiveWorkers_def)
  then have inv: "inbound_inv (gdQueue env) h" by (rule gate_run_inv [OF _ assms(6)])
  have len: "length (ghWorkers h) = gdWorkers env"
    using gate_run_workers [OF assms(6)] assms(1) by (simp add: startReceiveWorkers_def)
  have "mset (ghAccepted h) = mset (map fst (ghHandled h))" if "workers_done h" "\<not> ghCancelled h"
  proof -
    have ret: "\<forall>w \<in> set (ghWorkers h). w = Returned" using that(1) by (simp add: workers_done_def list_all_iff)
    moreover have "ghWorkers h \<noteq> []" using len assms(5) by auto
    ultimately have "Returned \<in> set (ghWorkers h)" by (cases "ghWorkers h") auto
    then have "ghInbound h = []" using inv that(2) by (simp add: inbound_inv_def)
    moreover have "being_handled h = []" using ret by (auto simp: concat_eq_Nil_conv)
    ultimately show ?thesis using inv by (simp add: inbound_inv_def)
  qed
  then show ?thesis using inv len by (simp add: inbound_inv_def)
qed

text \<open>A gate that passes messages of game 3 on to a node.\<close>

definition sample_deps :: "nat \<Rightarrow> ((int64 \<times> string) list, unit, nat, ServiceInstance list) gate_deps" where
  "sample_deps n = \<lparr>gdGate = demo_env, gdNode = sample_nenv, gdPacker = defaultOptions ''big'' 4096, gdDispatcher = None, gdQueue = 2,
     gdWorkers = n, gdRegistry = list_registry, gdName = ''gate'', gdEndpoint = ''drpc://h:2'', gdVersion = ''1'', gdMetadata = [],
     gdServerStart = None\<rparr>"

definition sample_gate :: "((int64 \<times> string) list, nat, ServiceInstance list) gate_host" where
  "sample_gate = NewGate [] sample_nlink []"

definition sample_data :: "byte \<Rightarrow> bytes" where
  "sample_data seq = [0, 0, 0, 20, 0, 0, 0, 0, 0, 0, 0, 3, 0, 0, 0, 1, 0, 0, 0, seq]"

definition drain_acts :: "gate_act list" where
  "drain_acts = [Accept 0 1, Login 1 7, Arrive 0 (sample_data 1), Arrive 0 (sample_data 2), WReceive 0, WAttribute 0, WDeliver 0, CloseInbound,
     WReceive 0, WAttribute 0, WDeliver 0, WReturn 0]"

lemma drain_runs:
  "case gate_run (sample_deps 1) drain_acts (startReceiveWorkers (sample_deps 1) sample_gate) of
     Ok h \<Rightarrow> workers_done h \<and> \<not> ghCancelled h \<and> ghAccepted h = [\<lparr>imConn = 0, imData = sample_data 1\<rparr>, \<lparr>imConn = 0, imData = sample_data 2\<rparr>] \<and>
       map snd (ghHandled h) = [ToNode 1 7 None, ToNode 1 7 None] \<and> being_handled h = [] \<and> ghInbound h = []
   | _ \<Rightarrow> False"
  by code_simp

theorem gate_inbound_conserved_witness:
  "case gate_run (sample_deps 1) drain_acts (startReceiveWorkers (sample_deps 1) sample_gate) of
     Ok h \<Rightarrow> mset (map fst (ghHandled h)) = {#\<lparr>imConn = 0, imData = sample_data 1\<rparr>, \<lparr>imConn = 0, imData = sample_data 2\<rparr>#} \<and>
       map fst (ghHandled h) = [\<lparr>imConn = 0, imData = sample_data 1\<rparr>, \<lparr>imConn = 0, imData = sample_data 2\<rparr>]
   | _ \<Rightarrow> False"
proof -
  obtain h where h: "gate_run (sample_deps 1) drain_acts (startReceiveWorkers (sample_deps 1) sample_gate) = Ok h"
      "workers_done h" "\<not> ghCancelled h" "being_handled h = []" "ghInbound h = []"
      "ghAccepted h = [\<lparr>imConn = 0, imData = sample_data 1\<rparr>, \<lparr>imConn = 0, imData = sample_data 2\<rparr>]"
    using drain_runs by (auto split: go.splits)
  have "ghWorkers sample_gate = []" "ghInbound sample_gate = []" "ghAccepted sample_gate = []" "ghHandled sample_gate = []"
    "0 < gdWorkers (sample_deps 1)" "gdWorkers (sample_deps 1) = 1"
    by (simp_all add: sample_gate_def NewGate_def sample_deps_def)
  then show ?thesis using gate_inbound_conserved [OF _ _ _ _ _ h(1)] h by simp
qed

section \<open>Who reaches a node\<close>

text \<open>The fate of a message says what it was and who sent it.\<close>

definition fate_ok :: "packer_options \<Rightarrow> inboundMessage \<Rightarrow> fate \<Rightarrow> bool" where
  "fate_ok p msg f =
     (case f of
        ToNode cid uid err \<Rightarrow> uid \<noteq> 0 \<and> (case UnpackMessage p (imData msg) of Ok (Some m, _) \<Rightarrow> mGameID m \<noteq> GateGameID | _ \<Rightarrow> False)
      | Dispatched m \<Rightarrow> mGameID m = GateGameID \<and> (case UnpackMessage p (imData msg) of Ok (Some m', _) \<Rightarrow> m' = m | _ \<Rightarrow> False)
      | _ \<Rightarrow> True)"

primrec to_node :: "fate \<Rightarrow> bool" where
  "to_node (Malformed e) = False" | "to_node HalfPacket = False" | "to_node NoDispatcher = False" | "to_node (Dispatched m) = False"
| "to_node Unbound = False" | "to_node (ToNode cid uid err) = True"

lemma proxy_deliver_fate:
  assumes "proxy_deliver env c cid uid (imData msg) h = Ok (f, h')"
  shows "fate_ok (gdPacker env) msg f" "\<not> to_node f \<Longrightarrow> ghLink h' = ghLink h"
  using assms
  by (auto simp: proxy_deliver_def dispatchGateMessage_def fate_ok_def Let_def go_map_eq_Ok split: go.splits option.splits prod.splits if_splits)

definition guarded :: "packer_options \<Rightarrow> 'w nlink \<Rightarrow> ('l, 'w, 'r) gate_host \<Rightarrow> bool" where
  "guarded p l h \<longleftrightarrow> (\<forall>(msg, f) \<in> set (ghHandled h). fate_ok p msg f) \<and>
     ((\<forall>(msg, f) \<in> set (ghHandled h). \<not> to_node f) \<longrightarrow> ghLink h = l)"

lemma gate_do_guarded:
  assumes "guarded (gdPacker env) l h" "gate_do env a h = Ok h'"
  shows "guarded (gdPacker env) l h'"
proof (cases "\<exists>w cid uid msg. a = WDeliver w \<and> w < length (ghWorkers h) \<and> ghWorkers h ! w = Attributed cid uid msg")
  case True
  then obtain w cid uid msg f h1 where d: "proxy_deliver env (imConn msg) cid uid (imData msg) h = Ok (f, h1)"
      and h': "ghHandled h' = ghHandled h1 @ [(msg, f)]" "ghLink h' = ghLink h1"
    using assms(2) by (auto simp: worker_deliver_def go_map_eq_Ok)
  then show ?thesis using assms(1) proxy_deliver_fate [OF d] proxy_deliver_keeps(6) [OF d] by (auto simp: guarded_def)
next
  case False
  then have "ghHandled h' = ghHandled h \<and> ghLink h' = ghLink h" using assms(2)
    by (cases a) (auto simp: accept_conn_def Let_def handleReceive_def worker_receive_def worker_attribute_def worker_deliver_def
      worker_return_def close_inbound_def split: if_splits list.splits worker.splits)
  then show ?thesis using assms(1) by (simp add: guarded_def)
qed

lemma gate_run_guarded:
  "guarded (gdPacker env) l h \<Longrightarrow> gate_run env acts h = Ok h' \<Longrightarrow> guarded (gdPacker env) l h'"
  unfolding gate_run_def by (rule go_foreach_invariant [where I = "guarded (gdPacker env) l"], rule gate_do_guarded)



section \<open>What goes wrong\<close>


text \<open>With two workers, two messages of one client can reach the node in the wrong order.\<close>

lemma workers_reorder:
  "case gate_run (sample_deps 2)
       [Accept 0 1, Login 1 7, Arrive 0 (sample_data 1), Arrive 0 (sample_data 2), WReceive 0, WReceive 1, WAttribute 0, WAttribute 1,
        WDeliver 1, WDeliver 0] (startReceiveWorkers (sample_deps 2) sample_gate) of
     Ok h \<Rightarrow> map (imData \<circ> fst) (ghHandled h) = [sample_data 2, sample_data 1]
   | _ \<Rightarrow> False"
  by code_simp

text \<open>A gate whose state another member of the cluster set to \<open>hang\<close> does nothing on \<open>Close\<close>.\<close>

lemma close_after_SetState:
  "gate_Close env (h\<lparr>ghGate := provider_SetState st_Hang (ghGate h)\<rparr>) = Ok (h\<lparr>ghGate := provider_SetState st_Hang (ghGate h)\<rparr>)"
  by (simp add: gate_Close_def provider_SetState_def)

text \<open>A destroyed gate can be started again, but the first message that arrives then panics.\<close>

lemma restarted_gate_panics:
  assumes "destroy_begin env h = Some h1" "ghInboundClosed h2 = ghInboundClosed h1" "gate_Start env h2 = Ok h3"
  shows "handleReceive env c data h3 = Panic"
proof -
  have "ghInboundClosed h3" using assms
    by (auto simp: destroy_begin_def close_inbound_def gate_Start_def startReceiveWorkers_def startNetworkServer_def set_gate_state_def
      registerServiceInstance_def Let_def split: if_splits option.splits prod.splits)
  then show ?thesis by (simp add: handleReceive_def Let_def)
qed

section \<open>Closing\<close>

lemma gate_Close_registers:
  assumes "gate_state h = st_Work \<or> gate_state h = st_Busy" "ghInstance h = Some i" "gate_Close env h = Ok h'"
  shows "rgRegister (gdRegistry env) (i\<lparr>siState := ''hang''\<rparr>) (ghRegistry h) = (None, ghRegistry h')"
    "\<not> ghServer h'" "\<not> ghLinker h'" "gate_state h' = st_Hang"
  using assms
  by (auto simp: gate_Close_def refreshServiceInstance_def stopNetworkServer_def stopLinkerServer_def set_gate_state_def
    State_String_def Let_def split: if_splits option.splits prod.splits)

lemma gate_Deliver_checks:
  assumes "gate_Deliver env cid uid message (Some h) = (res, Some h')" "res \<noteq> Ok (Some ErrInvalidArgument)"
  shows "0 <s uid" "\<exists>m. message = Some m \<and> 0 <s lmGameID m \<and> 0 <s lmMessageID m"
  using assms by (auto simp: gate_Deliver_def Let_def word_sless_alt word_sle_eq split: option.splits prod.splits if_splits)

end
