(* ===== verification/RouteWatcher.thy ===== *)
theory RouteWatcher
  imports Version "HOL-Library.AList"
begin

text \<open>
  \<open>cluster/gate/route_watcher.go\<close>: which routes of which game need a logged-in user, collected from the node
  instances of the registry.  The watcher's loop is a sequence of replacements.
\<close>

record routePolicy =
  rpAuthorized :: bool
  rpStateful :: bool

type_synonym route_table = "(int32 \<times> (int32 \<times> routePolicy) list) list"

text \<open>A missing key of a Go map reads as the zero value.\<close>

definition read_policy :: "int32 \<Rightarrow> (int32 \<times> routePolicy) list \<Rightarrow> routePolicy" where
  "read_policy i routes = (case map_of routes i of Some p \<Rightarrow> p | None \<Rightarrow> \<lparr>rpAuthorized = False, rpStateful = False\<rparr>)"

definition add_route :: "service_route \<Rightarrow> (int32 \<times> routePolicy) list \<Rightarrow> (int32 \<times> routePolicy) list" where
  "add_route route gameRoutes =
     (let cur = read_policy (rtID route) gameRoutes
      in AList.update (rtID route)
           \<lparr>rpAuthorized = rpAuthorized cur \<or> rtAuthorized route, rpStateful = rpStateful cur \<or> rtStateful route\<rparr> gameRoutes)"

definition add_instance :: "ServiceInstance option \<Rightarrow> route_table \<Rightarrow> route_table" where
  "add_instance ins routes =
     (case ins of
        None \<Rightarrow> routes
      | Some i \<Rightarrow>
          if siKind i \<noteq> ''node'' then routes
          else let gameRoutes = (case map_of routes (siGameID i) of Some rs \<Rightarrow> rs | None \<Rightarrow> [])
               in AList.update (siGameID i) (fold add_route (siRoutes i) gameRoutes) routes)"

definition routes_replace :: "ServiceInstance option list \<Rightarrow> route_table" where
  "routes_replace instances = fold add_instance instances []"

definition requiresAuth :: "int32 \<Rightarrow> int32 \<Rightarrow> route_table \<Rightarrow> bool" where
  "requiresAuth gameID messageID routes =
     (case map_of routes gameID of None \<Rightarrow> False | Some gameRoutes \<Rightarrow> rpAuthorized (read_policy messageID gameRoutes))"

text \<open>The watcher reads the services once, when that works, and then takes every list that \<open>Next\<close> returns without an error.\<close>

definition routes_watch :: "ServiceInstance option list option \<Rightarrow> ServiceInstance option list option list \<Rightarrow> route_table" where
  "routes_watch services updates =
     fold (\<lambda>u routes. case u of None \<Rightarrow> routes | Some instances \<Rightarrow> routes_replace instances) (services # updates) []"

lemma read_add_route:
  "rpAuthorized (read_policy m (add_route r rs)) \<longleftrightarrow> rpAuthorized (read_policy m rs) \<or> rtID r = m \<and> rtAuthorized r"
  by (simp add: add_route_def read_policy_def update_conv Let_def)

lemma read_add_routes:
  "rpAuthorized (read_policy m (fold add_route rs gr)) \<longleftrightarrow> rpAuthorized (read_policy m gr) \<or> (\<exists>r \<in> set rs. rtID r = m \<and> rtAuthorized r)"
  by (induction rs arbitrary: gr) (auto simp: read_add_route)

lemma requiresAuth_add:
  "requiresAuth g m (add_instance ins routes) \<longleftrightarrow> requiresAuth g m routes \<or>
     (\<exists>i. ins = Some i \<and> siKind i = ''node'' \<and> siGameID i = g \<and> (\<exists>r \<in> set (siRoutes i). rtID r = m \<and> rtAuthorized r))"
proof -
  have "\<not> rpAuthorized (read_policy m [])" by (simp add: read_policy_def)
  then show ?thesis
    by (auto simp: requiresAuth_def add_instance_def update_conv read_add_routes Let_def split: option.split)
qed

lemma requiresAuth_fold:
  "requiresAuth g m (fold add_instance instances routes) \<longleftrightarrow> requiresAuth g m routes \<or>
     (\<exists>i. Some i \<in> set instances \<and> siKind i = ''node'' \<and> siGameID i = g \<and> (\<exists>r \<in> set (siRoutes i). rtID r = m \<and> rtAuthorized r))"
  by (induction instances arbitrary: routes) (auto simp: requiresAuth_add)

text \<open>A route needs a login exactly when the newest list of instances has a node of the game that declares it so; several nodes
  of a game add up, and the stricter declaration wins.\<close>

theorem requiresAuth_declared:
  "requiresAuth g m (routes_watch services (updates @ Some instances # replicate n None)) \<longleftrightarrow>
     (\<exists>i. Some i \<in> set instances \<and> siKind i = ''node'' \<and> siGameID i = g \<and> (\<exists>r \<in> set (siRoutes i). rtID r = m \<and> rtAuthorized r))"
proof -
  have "((\<lambda>routes :: route_table. routes) ^^ n) routes = routes" for routes by (induction n) auto
  then have "routes_watch services (updates @ Some instances # replicate n None) = routes_replace instances"
    by (simp add: routes_watch_def)
  then show ?thesis by (simp add: routes_replace_def requiresAuth_fold) (simp add: requiresAuth_def)
qed

end
