(* ===== verification/Chains.thy ===== *)
theory Chains
  imports NodeLife
begin

text \<open>
  \<open>core/chains/chain.go\<close>: the chain of deferred calls of a request or an event, a doubly linked list of nodes on a heap.
  A function that is called may itself change the chain; firing is therefore a loop that need not end.  The refinement
  shows that the pointers implement a list.
\<close>

section \<open>The chain\<close>

record 'f chain_node =
  chPrev :: "nat option"
  chNext :: "nat option"
  chFn :: "'f option"

record 'f chain =
  chHeap :: "'f chain_node list"
  chHead :: "nat option"
  chTail :: "nat option"

definition NewChain :: "'f chain" where
  "NewChain = \<lparr>chHeap = [], chHead = None, chTail = None\<rparr>"

definition AddToHead :: "'f option \<Rightarrow> 'f chain \<Rightarrow> 'f chain" where
  "AddToHead fn c =
     (let n = length (chHeap c)
      in case chHead c of
           None \<Rightarrow> c\<lparr>chHeap := chHeap c @ [\<lparr>chPrev = None, chNext = None, chFn = fn\<rparr>], chHead := Some n, chTail := Some n\<rparr>
         | Some h \<Rightarrow>
             let heap = chHeap c @ [\<lparr>chPrev = None, chNext = Some h, chFn = fn\<rparr>]
             in c\<lparr>chHeap := heap[h := (heap ! h)\<lparr>chPrev := Some n\<rparr>], chHead := Some n\<rparr>)"

definition AddToTail :: "'f option \<Rightarrow> 'f chain \<Rightarrow> 'f chain" where
  "AddToTail fn c =
     (let n = length (chHeap c)
      in case chTail c of
           None \<Rightarrow> c\<lparr>chHeap := chHeap c @ [\<lparr>chPrev = None, chNext = None, chFn = fn\<rparr>], chHead := Some n, chTail := Some n\<rparr>
         | Some t \<Rightarrow>
             let heap = chHeap c @ [\<lparr>chPrev = Some t, chNext = None, chFn = fn\<rparr>]
             in c\<lparr>chHeap := heap[t := (heap ! t)\<lparr>chNext := Some n\<rparr>], chTail := Some n\<rparr>)"

definition chain_Cancel :: "'f chain \<Rightarrow> 'f chain" where
  "chain_Cancel c = c\<lparr>chHead := None, chTail := None\<rparr>"

text \<open>The node is cleared after its function ran, and the neighbour is read in between.\<close>

abbreviation cleared :: "'f chain_node" where
  "cleared \<equiv> \<lparr>chPrev = None, chNext = None, chFn = None\<rparr>"

partial_function (option) fire_from_head ::
    "('f \<Rightarrow> 'f chain \<times> 's \<Rightarrow> ('f chain \<times> 's) go) \<Rightarrow> nat option \<Rightarrow> 'f chain \<times> 's \<Rightarrow> ('f chain \<times> 's) go option" where
  [code]: "fire_from_head call head cs =
     (case head of
        None \<Rightarrow> Some (Ok (chain_Cancel (fst cs), snd cs))
      | Some n \<Rightarrow>
          (case xcall_Call (map_option call (chFn (chHeap (fst cs) ! n))) cs of
             Ok (c, s) \<Rightarrow> fire_from_head call (chNext (chHeap c ! n)) (c\<lparr>chHeap := (chHeap c)[n := cleared]\<rparr>, s)
           | Err e \<Rightarrow> Some (Err e)
           | Panic \<Rightarrow> Some Panic))"

definition FireHead :: "('f \<Rightarrow> 'f chain \<times> 's \<Rightarrow> ('f chain \<times> 's) go) \<Rightarrow> 'f chain \<times> 's \<Rightarrow> ('f chain \<times> 's) go option" where
  "FireHead call cs = fire_from_head call (chHead (fst cs)) cs"

partial_function (option) fire_from_tail ::
    "('f \<Rightarrow> 'f chain \<times> 's \<Rightarrow> ('f chain \<times> 's) go) \<Rightarrow> nat option \<Rightarrow> 'f chain \<times> 's \<Rightarrow> ('f chain \<times> 's) go option" where
  [code]: "fire_from_tail call tail cs =
     (case tail of
        None \<Rightarrow> Some (Ok (chain_Cancel (fst cs), snd cs))
      | Some n \<Rightarrow>
          (case xcall_Call (map_option call (chFn (chHeap (fst cs) ! n))) cs of
             Ok (c, s) \<Rightarrow> fire_from_tail call (chPrev (chHeap c ! n)) (c\<lparr>chHeap := (chHeap c)[n := cleared]\<rparr>, s)
           | Err e \<Rightarrow> Some (Err e)
           | Panic \<Rightarrow> Some Panic))"

definition FireTail :: "('f \<Rightarrow> 'f chain \<times> 's \<Rightarrow> ('f chain \<times> 's) go) \<Rightarrow> 'f chain \<times> 's \<Rightarrow> ('f chain \<times> 's) go option" where
  "FireTail call cs = fire_from_tail call (chTail (fst cs)) cs"

section \<open>The list behind the pointers\<close>

abbreviation first_of :: "nat list \<Rightarrow> nat option" where "first_of ns \<equiv> case ns of [] \<Rightarrow> None | n # _ \<Rightarrow> Some n"
abbreviation last_of :: "nat option \<Rightarrow> nat list \<Rightarrow> nat option" where "last_of p ns \<equiv> if ns = [] then p else Some (last ns)"

fun linked :: "'f chain_node list \<Rightarrow> nat option \<Rightarrow> nat list \<Rightarrow> 'f option list \<Rightarrow> nat option \<Rightarrow> bool" where
  "linked h p [] [] q = True"
| "linked h p (n # ns) (x # xs) q \<longleftrightarrow>
     n < length h \<and> h ! n = \<lparr>chPrev = p, chNext = (case ns of [] \<Rightarrow> q | m # _ \<Rightarrow> Some m), chFn = x\<rparr> \<and> linked h (Some n) ns xs q"
| "linked h p ns xs q = False"

definition chain_list :: "'f chain \<Rightarrow> 'f option list \<Rightarrow> bool" where
  "chain_list c xs \<longleftrightarrow> (\<exists>ns. distinct ns \<and> linked (chHeap c) None ns xs None \<and> chHead c = first_of ns \<and> chTail c = last_of None ns)"

lemma linked_bound: "linked h p ns xs q \<Longrightarrow> set ns \<subseteq> {..<length h}"
  by (induction h p ns xs q rule: linked.induct) auto

lemma linked_length: "linked h p ns xs q \<Longrightarrow> length ns = length xs"
  by (induction h p ns xs q rule: linked.induct) auto

lemma linked_heap_append: "linked h p ns xs q \<Longrightarrow> linked (h @ h') p ns xs q"
  by (induction h p ns xs q rule: linked.induct) (auto simp: nth_append)

lemma linked_frame: "n \<notin> set ns \<Longrightarrow> linked (h[n := v]) p ns xs q = linked h p ns xs q"
  by (induction h p ns xs q rule: linked.induct) auto

lemma linked_append:
  "length ns = length xs \<Longrightarrow>
   linked h p (ns @ ms) (xs @ ys) q \<longleftrightarrow> linked h p ns xs (case ms of [] \<Rightarrow> q | m # _ \<Rightarrow> Some m) \<and> linked h (last_of p ns) ms ys q"
proof (induction ns xs arbitrary: p rule: list_induct2)
  case (Cons n ns x xs)
  then show ?case by (cases ns) auto
qed simp

lemma linked_set_prev:
  "linked h p (n # ns) xs q \<Longrightarrow> distinct (n # ns) \<Longrightarrow> linked (h[n := (h ! n)\<lparr>chPrev := p'\<rparr>]) p' (n # ns) xs q"
  by (cases xs) (auto simp: linked_frame)

lemma linked_set_next:
  assumes "linked h p (ns @ [n]) xs q" "distinct (ns @ [n])"
  shows "linked (h[n := (h ! n)\<lparr>chNext := q'\<rparr>]) p (ns @ [n]) xs q'"
proof -
  obtain xs' x where xs: "xs = xs' @ [x]" "length ns = length xs'"
    using linked_length [OF assms(1)] by (cases xs rule: rev_cases) auto
  have "n < length h" using linked_bound [OF assms(1)] by auto
  then show ?thesis using assms linked_append [OF xs(2)] xs by (auto simp: linked_frame)
qed

section \<open>Refinement\<close>

lemma AddToHead_list:
  assumes "chain_list c xs"
  shows "chain_list (AddToHead fn c) (fn # xs)"
proof -
  obtain ns where ns: "distinct ns" "linked (chHeap c) None ns xs None" "chHead c = first_of ns" "chTail c = last_of None ns"
    using assms by (auto simp: chain_list_def)
  let ?n = "length (chHeap c)"
  have fresh: "?n \<notin> set ns" using linked_bound [OF ns(2)] by auto
  show ?thesis
  proof (cases ns)
    case Nil
    then show ?thesis using ns linked_length [OF ns(2)]
      by (auto simp: chain_list_def AddToHead_def Let_def intro!: exI [of _ "[?n]"])
  next
    case (Cons h ms)
    let ?heap = "chHeap c @ [\<lparr>chPrev = None, chNext = Some h, chFn = fn\<rparr>]"
    have "linked (?heap[h := (?heap ! h)\<lparr>chPrev := Some ?n\<rparr>]) (Some ?n) ns xs None"
      using linked_set_prev [of ?heap None h ms xs None "Some ?n"] linked_heap_append [OF ns(2)] ns(1) Cons by simp
    moreover have "h \<noteq> ?n" using fresh Cons by auto
    ultimately have "linked (chHeap (AddToHead fn c)) None (?n # ns) (fn # xs) None"
      using ns(3) Cons by (simp add: AddToHead_def Let_def nth_append)
    then show ?thesis using ns fresh Cons unfolding chain_list_def
      by (intro exI [of _ "?n # ns"]) (simp add: AddToHead_def Let_def)
  qed
qed

lemma AddToTail_list:
  assumes "chain_list c xs"
  shows "chain_list (AddToTail fn c) (xs @ [fn])"
proof -
  obtain ns where ns: "distinct ns" "linked (chHeap c) None ns xs None" "chHead c = first_of ns" "chTail c = last_of None ns"
    using assms by (auto simp: chain_list_def)
  let ?n = "length (chHeap c)"
  have fresh: "?n \<notin> set ns" using linked_bound [OF ns(2)] by auto
  show ?thesis
  proof (cases ns rule: rev_cases)
    case Nil
    then show ?thesis using ns linked_length [OF ns(2)]
      by (auto simp: chain_list_def AddToTail_def Let_def intro!: exI [of _ "[?n]"])
  next
    case (snoc ms t)
    let ?heap = "chHeap c @ [\<lparr>chPrev = Some t, chNext = None, chFn = fn\<rparr>]"
    let ?heap' = "?heap[t := (?heap ! t)\<lparr>chNext := Some ?n\<rparr>]"
    have "linked ?heap' None ns xs (Some ?n)"
      using linked_set_next [of ?heap None ms t xs None "Some ?n"] linked_heap_append [OF ns(2)] ns(1) snoc by simp
    moreover have "t \<noteq> ?n" using fresh snoc by auto
    then have "linked ?heap' (Some t) [?n] [fn] None" by (simp add: nth_append)
    ultimately have "linked ?heap' None (ns @ [?n]) (xs @ [fn]) None"
      using linked_append [OF linked_length [OF ns(2)]] snoc by simp
    moreover have "chHeap (AddToTail fn c) = ?heap'" using ns(4) snoc by (simp add: AddToTail_def Let_def)
    moreover have "chHead (AddToTail fn c) = first_of (ns @ [?n])" "chTail (AddToTail fn c) = Some ?n"
      using ns snoc by (cases ms; simp add: AddToTail_def Let_def)+
    ultimately show ?thesis using ns(1) fresh unfolding chain_list_def by (intro exI [of _ "ns @ [?n]"]) simp
  qed
qed

lemma Cancel_list: "chain_list (chain_Cancel c) []"
  by (auto simp: chain_list_def chain_Cancel_def intro: exI [of _ "[]"])

text \<open>Firing a chain whose functions leave the chain alone.\<close>

definition run_all :: "('f \<Rightarrow> 's \<Rightarrow> 's go) \<Rightarrow> 'f option list \<Rightarrow> 's \<Rightarrow> 's go" where
  "run_all run fs s = go_foreach (\<lambda>fn. xcall_Call (map_option run fn)) fs s"

definition on_state :: "('f \<Rightarrow> 's \<Rightarrow> 's go) \<Rightarrow> 'f \<Rightarrow> 'f chain \<times> 's \<Rightarrow> ('f chain \<times> 's) go" where
  "on_state run f cs = go_map (\<lambda>s. (fst cs, s)) (run f (snd cs))"

lemma xcall_on_state:
  "xcall_Call (map_option (on_state run) fn) (c, s) = go_map (\<lambda>s. (c, s)) (xcall_Call (map_option run fn) s)"
  by (cases fn; cases "run (the fn) s") (auto simp: xcall_Call_def on_state_def)

lemma fire_head_linked:
  assumes "linked (chHeap c) p ns xs None" "distinct ns"
  shows "\<exists>heap. fire_from_head (on_state run) (first_of ns) (c, s) = Some (go_map (\<lambda>s. (chain_Cancel (c\<lparr>chHeap := heap\<rparr>), s)) (run_all run xs s))"
  using assms
proof (induction xs arbitrary: c p ns s)
  case Nil
  then show ?case using linked_length [OF Nil(1)] by (auto simp: fire_from_head.simps run_all_def intro: exI [of _ "chHeap c"])
next
  case (Cons x xs)
  then obtain n ms where ns: "ns = n # ms" by (cases ns) auto
  let ?c = "c\<lparr>chHeap := (chHeap c)[n := cleared]\<rparr>"
  have node: "chHeap c ! n = \<lparr>chPrev = p, chNext = first_of ms, chFn = x\<rparr>" "linked (chHeap ?c) (Some n) ms xs None"
    using Cons.prems ns by (auto simp: linked_frame)
  show ?case
  proof (cases "xcall_Call (map_option run x) s")
    case (Ok s')
    with Cons.IH [OF node(2), of s'] Cons.prems(2) ns show ?thesis
      by (subst fire_from_head.simps) (auto simp: node(1) xcall_on_state run_all_def)
  qed (use ns in \<open>subst fire_from_head.simps, auto simp: node(1) xcall_on_state run_all_def\<close>)+
qed

lemma fire_tail_linked:
  assumes "linked (chHeap c) None ns xs q" "distinct ns"
  shows "\<exists>heap. fire_from_tail (on_state run) (last_of None ns) (c, s) =
    Some (go_map (\<lambda>s. (chain_Cancel (c\<lparr>chHeap := heap\<rparr>), s)) (run_all run (rev xs) s))"
  using assms
proof (induction xs arbitrary: c q ns s rule: rev_induct)
  case Nil
  then show ?case using linked_length [OF Nil(1)] by (auto simp: fire_from_tail.simps run_all_def intro: exI [of _ "chHeap c"])
next
  case (snoc x xs)
  then obtain ms n where ns: "ns = ms @ [n]" using linked_length [OF snoc.prems(1)] by (cases ns rule: rev_cases) auto
  let ?c = "c\<lparr>chHeap := (chHeap c)[n := cleared]\<rparr>"
  have len: "length ms = length xs" using linked_length [OF snoc.prems(1)] ns by simp
  have node: "chHeap c ! n = \<lparr>chPrev = last_of None ms, chNext = q, chFn = x\<rparr>" "linked (chHeap ?c) None ms xs (Some n)"
    using snoc.prems linked_append [OF len] ns by (auto simp: linked_frame)
  show ?case
  proof (cases "xcall_Call (map_option run x) s")
    case (Ok s')
    with snoc.IH [OF node(2), of s'] snoc.prems(2) ns show ?thesis
      by (subst fire_from_tail.simps) (auto simp: node(1) xcall_on_state run_all_def)
  qed (use ns in \<open>subst fire_from_tail.simps, auto simp: node(1) xcall_on_state run_all_def\<close>)+
qed

lemma fire_list:
  assumes "chain_list c xs"
  shows "\<exists>c'. FireHead (on_state run) (c, s) = Some (go_map (\<lambda>s. (c', s)) (run_all run xs s)) \<and> chain_list c' []"
    "\<exists>c'. FireTail (on_state run) (c, s) = Some (go_map (\<lambda>s. (c', s)) (run_all run (rev xs) s)) \<and> chain_list c' []"
proof -
  obtain ns where ns: "distinct ns" "linked (chHeap c) None ns xs None" "chHead c = first_of ns" "chTail c = last_of None ns"
    using assms by (auto simp: chain_list_def)
  from fire_head_linked [OF ns(2,1), of run s] fire_tail_linked [OF ns(2,1), of run s] Cancel_list
  show "\<exists>c'. FireHead (on_state run) (c, s) = Some (go_map (\<lambda>s. (c', s)) (run_all run xs s)) \<and> chain_list c' []"
    "\<exists>c'. FireTail (on_state run) (c, s) = Some (go_map (\<lambda>s. (c', s)) (run_all run (rev xs) s)) \<and> chain_list c' []"
    unfolding FireHead_def FireTail_def fst_conv ns(3,4) by blast+
qed

text \<open>C37. The chain is a list.  Its pointers always represent the list of the functions added at its ends, and firing from the head
  (the tail) calls them in that order (the reverse), each once, until one panics, terminates, and leaves an empty chain,
  whenever the functions do not touch the chain.\<close>

theorem chain_refines_list:
  assumes "chain_list c xs"
  shows "chain_list (AddToHead fn c) (fn # xs) \<and> chain_list (AddToTail fn c) (xs @ [fn]) \<and> chain_list (chain_Cancel c) []
    \<and> (\<exists>c'. FireHead (on_state run) (c, s) = Some (go_map (\<lambda>s. (c', s)) (run_all run xs s)) \<and> chain_list c' [])
    \<and> (\<exists>c'. FireTail (on_state run) (c, s) = Some (go_map (\<lambda>s. (c', s)) (run_all run (rev xs) s)) \<and> chain_list c' [])"
  by (intro conjI AddToHead_list AddToTail_list Cancel_list fire_list assms)

definition sample_chain :: "nat chain" where
  "sample_chain = AddToTail (Some 3) (AddToHead (Some 1) (AddToHead (Some 2) NewChain))"

theorem chain_refines_list_witness:
  "chain_list sample_chain [Some 1, Some 2, Some 3] \<and>
   (\<exists>c'. FireHead (on_state (\<lambda>f s. Ok (s @ [f]))) (sample_chain, []) = Some (Ok (c', [1, 2, 3])) \<and> chain_list c' [])"
proof -
  have "chain_list (NewChain :: nat chain) []" by (auto simp: chain_list_def NewChain_def intro: exI [of _ "[]"])
  then have l: "chain_list sample_chain [Some 1, Some 2, Some 3]"
    using AddToTail_list [OF AddToHead_list [OF AddToHead_list]] by (fastforce simp: sample_chain_def)
  from chain_refines_list [OF this, of None "\<lambda>f s. Ok (s @ [f])" "[]"] l show ?thesis
    by (simp add: run_all_def xcall_Call_def)
qed

text \<open>So the chains of \<open>NodeActor\<close>, which are lists, are what the pointers implement.\<close>

lemma chain_implements_context_chain:
  assumes "chain_list c (map Some ch)"
  shows "chain_list (AddToHead (Some f) c) (map Some (chain_AddToHead f ch))" "chain_list (AddToTail (Some f) c) (map Some (chain_AddToTail f ch))"
    "\<exists>c'. FireHead (on_state (\<lambda>f s. Ok (s @ [f]))) (c, []) = Some (Ok (c', fst (chain_FireHead ch))) \<and> chain_list c' (map Some (snd (chain_FireHead ch)))"
    "\<exists>c'. FireTail (on_state (\<lambda>f s. Ok (s @ [f]))) (c, []) = Some (Ok (c', fst (chain_FireTail ch))) \<and> chain_list c' (map Some (snd (chain_FireTail ch)))"
proof -
  have run: "run_all (\<lambda>f s. Ok (s @ [f])) (map Some fs) s = Ok (s @ fs)" for fs s :: "nat list"
    by (induction fs arbitrary: s) (simp_all add: run_all_def xcall_Call_def)
  show "chain_list (AddToHead (Some f) c) (map Some (chain_AddToHead f ch))" "chain_list (AddToTail (Some f) c) (map Some (chain_AddToTail f ch))"
    using AddToHead_list [OF assms] AddToTail_list [OF assms] by (simp_all add: chain_AddToHead_def chain_AddToTail_def)
  show "\<exists>c'. FireHead (on_state (\<lambda>f s. Ok (s @ [f]))) (c, []) = Some (Ok (c', fst (chain_FireHead ch))) \<and> chain_list c' (map Some (snd (chain_FireHead ch)))"
    "\<exists>c'. FireTail (on_state (\<lambda>f s. Ok (s @ [f]))) (c, []) = Some (Ok (c', fst (chain_FireTail ch))) \<and> chain_list c' (map Some (snd (chain_FireTail ch)))"
    using fire_list [OF assms, of "\<lambda>f s. Ok (s @ [f])" "[]"] by (simp_all add: run chain_FireHead_def chain_FireTail_def rev_map)
qed

text \<open>\<open>Defer\<close> is documented to act like Go's \<open>defer\<close>.  But a function that defers another while the chain is fired puts it before
  the node that runs, where the loop never comes, and the end of firing drops it.\<close>

lemma nested_defer_lost:
  "case FireHead (\<lambda>f (c, s). Ok (if f = 1 then AddToHead (Some 9) c else c, s @ [f])) (sample_chain, []) of
     Some (Ok (c, s)) \<Rightarrow> s = [1, 2, 3] \<and> chHead c = None
   | _ \<Rightarrow> False"
  by (simp add: FireHead_def sample_chain_def AddToHead_def AddToTail_def NewChain_def fire_from_head.simps xcall_Call_def chain_Cancel_def Let_def)

end
