(* ===== verification/Mesh.thy ===== *)
theory Mesh
  imports NodeLife
begin

text \<open>
  \<open>cluster/mesh/mesh.go\<close>: the life cycle of a microservice server.  The registry and the hook handlers are arguments; the
  transport server is its endpoint and whether it runs, and the versions watcher and the linkers behind the proxy are other
  components.
\<close>

section \<open>State\<close>

record mesh_config =
  mcID :: string
  mcName :: string
  mcVersion :: string
  mcMetadata :: "(string \<times> string) list"
  mcEndpoint :: string
  mcTransportOk :: "goerr option"

record serviceEntity =
  seName :: string
  seDesc :: nat
  seProvider :: nat

record 'r mesh =
  msState :: int
  msServices :: "serviceEntity list"
  msHooks :: "hook \<Rightarrow> nat list"
  msTransport :: bool
  msInstance :: "ServiceInstance option"
  msRegistry :: 'r
  msCancelled :: bool

definition NewMesh :: "'r \<Rightarrow> 'r mesh" where
  "NewMesh reg = \<lparr>msState = st_Shut, msServices = [], msHooks = (\<lambda>_. []), msTransport = False, msInstance = None, msRegistry = reg, msCancelled = False\<rparr>"

section \<open>Operations\<close>

definition mesh_runHookFunc :: "(nat \<Rightarrow> 'r mesh \<Rightarrow> 'r mesh go) \<Rightarrow> hook \<Rightarrow> 'r mesh \<Rightarrow> 'r mesh go" where
  "mesh_runHookFunc body h m = go_foreach (\<lambda>f. xcall_Call (Some (body f))) (msHooks m h) m"

definition mesh_addHookListener :: "hook \<Rightarrow> nat \<Rightarrow> 'r mesh \<Rightarrow> 'r mesh" where
  "mesh_addHookListener h f m =
     (if h = HookDestroy \<or> msState m = st_Shut then m\<lparr>msHooks := (msHooks m)(h := msHooks m h @ [f])\<rparr> else m)"

definition mesh_addServiceProvider :: "string \<Rightarrow> nat \<Rightarrow> nat \<Rightarrow> 'r mesh \<Rightarrow> 'r mesh" where
  "mesh_addServiceProvider name desc provider m =
     (if msState m = st_Shut then m\<lparr>msServices := msServices m @ [\<lparr>seName = name, seDesc = desc, seProvider = provider\<rparr>]\<rparr> else m)"

text \<open>What ends the process is \<open>Err\<close>: a transport server that cannot be set up, a registration that fails.\<close>

definition mesh_startTransport :: "mesh_config \<Rightarrow> 'r mesh \<Rightarrow> 'r mesh go" where
  "mesh_startTransport cfg m = (case mcTransportOk cfg of None \<Rightarrow> Ok (m\<lparr>msTransport := True\<rparr>) | Some e \<Rightarrow> Err e)"

definition mesh_stopTransport :: "'r mesh \<Rightarrow> 'r mesh" where
  "mesh_stopTransport m = m\<lparr>msTransport := False\<rparr>"

definition mesh_service_instance :: "mesh_config \<Rightarrow> 'r mesh \<Rightarrow> ServiceInstance" where
  "mesh_service_instance cfg m =
     \<lparr>siID = mcID cfg, siName = ''mesh'', siKind = ''mesh'', siAlias = mcName cfg, siState = State_String (msState m), siEvents = [],
      siRoutes = [], siServices = map seName (msServices m), siEndpoint = mcEndpoint cfg, siWeight = 0, siGameID = 0,
      siVersion = mcVersion cfg, siMetadata = mcMetadata cfg\<rparr>"

definition mesh_store :: "'r registry_ops \<Rightarrow> ServiceInstance \<Rightarrow> 'r mesh \<Rightarrow> 'r mesh go" where
  "mesh_store ops i m =
     (let m = m\<lparr>msInstance := Some i\<rparr>; (err, reg) = rgRegister ops i (msRegistry m)
      in case err of None \<Rightarrow> Ok (m\<lparr>msRegistry := reg\<rparr>) | Some e \<Rightarrow> Err e)"

definition mesh_register :: "'r registry_ops \<Rightarrow> mesh_config \<Rightarrow> 'r mesh \<Rightarrow> 'r mesh go" where
  "mesh_register ops cfg m = mesh_store ops (mesh_service_instance cfg m) m"

definition mesh_refresh :: "'r registry_ops \<Rightarrow> 'r mesh \<Rightarrow> 'r mesh go" where
  "mesh_refresh ops m =
     (case msInstance m of None \<Rightarrow> Ok m | Some i \<Rightarrow> mesh_store ops (i\<lparr>siState := State_String (msState m)\<rparr>) m)"

definition mesh_deregister :: "'r registry_ops \<Rightarrow> 'r mesh \<Rightarrow> 'r mesh" where
  "mesh_deregister ops m = (case msInstance m of None \<Rightarrow> m | Some i \<Rightarrow> m\<lparr>msRegistry := snd (rgDeregister ops i (msRegistry m))\<rparr>)"

definition mesh_Init :: "(nat \<Rightarrow> 'r mesh \<Rightarrow> 'r mesh go) \<Rightarrow> bool \<Rightarrow> 'r mesh \<Rightarrow> 'r mesh go" where
  "mesh_Init body present m = (if present then mesh_runHookFunc body HookInit m else Err ErrInvalidArgument)"

text \<open>\<open>Start\<close> sets the state before it looks at the old one.\<close>

definition mesh_Start :: "(nat \<Rightarrow> 'r mesh \<Rightarrow> 'r mesh go) \<Rightarrow> 'r registry_ops \<Rightarrow> mesh_config \<Rightarrow> 'r mesh \<Rightarrow> 'r mesh go" where
  "mesh_Start body ops cfg m =
     (let old = msState m; m = m\<lparr>msState := st_Work\<rparr>
      in if old \<noteq> st_Shut then Ok m
         else go_seq [mesh_startTransport cfg, mesh_register ops cfg, mesh_runHookFunc body HookStart] m)"

definition mesh_Close :: "(nat \<Rightarrow> 'r mesh \<Rightarrow> 'r mesh go) \<Rightarrow> 'r registry_ops \<Rightarrow> 'r mesh \<Rightarrow> 'r mesh go" where
  "mesh_Close body ops m =
     (if msState m \<noteq> st_Work \<and> msState m \<noteq> st_Busy then Ok m
      else go_seq [mesh_refresh ops, mesh_runHookFunc body HookClose, \<lambda>m. Ok (mesh_stopTransport m)] (m\<lparr>msState := st_Hang\<rparr>))"

definition mesh_Destroy :: "(nat \<Rightarrow> 'r mesh \<Rightarrow> 'r mesh go) \<Rightarrow> 'r registry_ops \<Rightarrow> 'r mesh \<Rightarrow> 'r mesh go" where
  "mesh_Destroy body ops m =
     (let old = msState m; m = m\<lparr>msState := st_Shut\<rparr>
      in if old = st_Shut then Ok m
         else go_map (\<lambda>m. (mesh_stopTransport (mesh_deregister ops m))\<lparr>msCancelled := True\<rparr>) (mesh_runHookFunc body HookDestroy m))"

section \<open>What the registry shows\<close>

text \<open>What a registry promises besides \<open>registry_replaces\<close>: an instance that was registered is listed until it is removed.\<close>

definition registry_lists :: "'r registry_ops \<Rightarrow> bool" where
  "registry_lists ops \<longleftrightarrow> registry_replaces ops \<and>
     (\<forall>i reg reg'. rgRegister ops i reg = (None, reg') \<longrightarrow> Some i \<in> set (rgServices ops (siName i) reg')) \<and>
     (\<forall>i reg reg' j. rgDeregister ops i reg = (None, reg') \<longrightarrow> Some j \<in> set (rgServices ops (siName i) reg') \<longrightarrow> siID j \<noteq> siID i)"

definition shown :: "'r registry_ops \<Rightarrow> mesh_config \<Rightarrow> 'r mesh \<Rightarrow> ServiceInstance set" where
  "shown ops cfg m = {j. Some j \<in> set (rgServices ops ''mesh'' (msRegistry m)) \<and> siID j = mcID cfg}"

definition quiet :: "(nat \<Rightarrow> 'r mesh \<Rightarrow> 'r mesh go) \<Rightarrow> bool" where
  "quiet body \<longleftrightarrow> (\<forall>f m m'. body f m = Ok m' \<longrightarrow> m' = m)"

lemma quiet_hooks:
  assumes "quiet body" "mesh_runHookFunc body h m = Ok m'"
  shows "m' = m"
  using assms(2) unfolding mesh_runHookFunc_def
proof (rule go_foreach_invariant [where I = "\<lambda>x. x = m", rotated 2])
  show "m'' = m" if "k = m" "xcall_Call (Some (body f)) k = Ok m''" for f k m''
    using that assms(1) by (auto simp: xcall_Call_def quiet_def split: go.splits)
qed simp

lemma mesh_store_shown:
  assumes "registry_lists ops" "mesh_store ops i m = Ok m'" "siName i = ''mesh''" "siID i = mcID cfg"
  shows "shown ops cfg m' = {i}" "msInstance m' = Some i" "msState m' = msState m" "msTransport m' = msTransport m" "msHooks m' = msHooks m"
proof -
  obtain reg where reg: "rgRegister ops i (msRegistry m) = (None, reg)" "m' = m\<lparr>msInstance := Some i, msRegistry := reg\<rparr>"
    using assms(2) by (auto simp: mesh_store_def Let_def split: prod.splits option.splits)
  have rr: "registry_replaces ops" using assms(1) by (simp add: registry_lists_def)
  have "Some i \<in> set (rgServices ops ''mesh'' reg)" using assms(1,3) reg(1) unfolding registry_lists_def by metis
  moreover have "j = i" if "Some j \<in> set (rgServices ops ''mesh'' reg)" "siID j = siID i" for j
    using rr [unfolded registry_replaces_def, rule_format, OF reg(1) that(1)] that(2) assms(3) by simp
  moreover have "shown ops cfg m' = {j. Some j \<in> set (rgServices ops ''mesh'' reg) \<and> siID j = siID i}"
    using reg(2) assms(4) by (simp add: shown_def)
  ultimately show "shown ops cfg m' = {i}" by blast
qed (use assms(2) in \<open>auto simp: mesh_store_def Let_def split: prod.splits option.splits\<close>)

text \<open>A mesh server shows itself.  When hooks leave the server alone and the registry does what it promises: after a start
  the registry lists exactly one instance of the server, working and with the services added before; after the following close
  exactly that one with state hang, and the transport server is stopped; and after the destruction none, if the registry did
  not refuse.\<close>

theorem mesh_shows_itself:
  assumes "registry_lists ops" "quiet body" "msState m0 = st_Shut"
    and "mesh_Start body ops cfg m0 = Ok m1" "mesh_Close body ops m1 = Ok m2" "mesh_Destroy body ops m2 = Ok m3"
    and "\<And>i reg. fst (rgDeregister ops i reg) = None"
  shows "(\<exists>i. shown ops cfg m1 = {i} \<and> siState i = ''work'' \<and> siServices i = map seName (msServices m0) \<and> shown ops cfg m2 = {i\<lparr>siState := ''hang''\<rparr>}) \<and>
    \<not> msTransport m2 \<and> shown ops cfg m3 = {} \<and> msState m3 = st_Shut"
proof -
  obtain t where t: "mesh_startTransport cfg (m0\<lparr>msState := st_Work\<rparr>) = Ok t"
      and t': "go_seq [mesh_register ops cfg, mesh_runHookFunc body HookStart] t = Ok m1"
    using assms(3,4) by (auto simp: mesh_Start_def Let_def go_bind_eq_Ok)
  have tm: "t = m0\<lparr>msState := st_Work, msTransport := True\<rparr>" using t by (auto simp: mesh_startTransport_def split: option.splits)
  obtain r where r: "mesh_register ops cfg t = Ok r" "mesh_runHookFunc body HookStart r = Ok m1" using t' by (auto simp: go_bind_eq_Ok)
  define i where "i = mesh_service_instance cfg t"
  have i: "siName i = ''mesh''" "siID i = mcID cfg" "siState i = ''work''" "siServices i = map seName (msServices m0)"
    by (simp_all add: i_def mesh_service_instance_def tm State_String_def)
  have m1: "shown ops cfg m1 = {i}" "msInstance m1 = Some i" "msState m1 = st_Work"
    using mesh_store_shown [OF assms(1) _ i(1,2), of t r] r quiet_hooks [OF assms(2) r(2)]
    by (simp_all add: mesh_register_def i_def tm)
  obtain u where u: "mesh_store ops (i\<lparr>siState := ''hang''\<rparr>) (m1\<lparr>msState := st_Hang\<rparr>) = Ok u" "m2 = mesh_stopTransport u"
    using assms(5) m1
    by (auto simp: mesh_Close_def mesh_refresh_def go_bind_eq_Ok State_String_def dest!: quiet_hooks [OF assms(2)])
  have m2: "shown ops cfg m2 = {i\<lparr>siState := ''hang''\<rparr>}" "msInstance m2 = Some (i\<lparr>siState := ''hang''\<rparr>)" "msState m2 = st_Hang" "\<not> msTransport m2"
    using mesh_store_shown [OF assms(1) u(1), of cfg] i u(2) by (simp_all add: mesh_stopTransport_def shown_def)
  obtain reg where reg: "rgDeregister ops (i\<lparr>siState := ''hang''\<rparr>) (msRegistry m2) = (None, reg)" using assms(7) by (metis prod.collapse)
  have "m3 = (mesh_stopTransport (mesh_deregister ops (m2\<lparr>msState := st_Shut\<rparr>)))\<lparr>msCancelled := True\<rparr>"
    using assms(6) m2(3) by (auto simp: mesh_Destroy_def Let_def go_map_eq_Ok dest!: quiet_hooks [OF assms(2)])
  then have "msRegistry m3 = reg" "msState m3 = st_Shut"
    using m2(2) reg by (simp_all add: mesh_stopTransport_def mesh_deregister_def)
  moreover have "shown ops cfg m3 = {}"
    using assms(1) reg i(1,2) \<open>msRegistry m3 = reg\<close> unfolding registry_lists_def shown_def by fastforce
  ultimately show ?thesis using m1(1) m2 i(3,4) by blast
qed

text \<open>A closed server that is started again is marked as working, but neither its transport server nor its registration follow.\<close>

lemma start_after_close:
  "msState m = st_Hang \<Longrightarrow> mesh_Start body ops cfg m = Ok (m\<lparr>msState := st_Work\<rparr>)"
  by (simp add: mesh_Start_def)

definition sample_mesh_config :: mesh_config where
  "sample_mesh_config = \<lparr>mcID = ''m1'', mcName = ''mail'', mcVersion = ''1'', mcMetadata = [], mcEndpoint = ''grpc://h:3'', mcTransportOk = None\<rparr>"

definition sample_mesh :: "ServiceInstance list mesh" where
  "sample_mesh = mesh_addServiceProvider ''mail'' 1 2 (NewMesh [])"

definition mesh_after :: "nat \<Rightarrow> ServiceInstance list mesh" where
  "mesh_after n = (case go_seq (take n [mesh_Start (\<lambda>_. Ok) list_registry sample_mesh_config, mesh_Close (\<lambda>_. Ok) list_registry,
     mesh_Destroy (\<lambda>_. Ok) list_registry]) sample_mesh of Ok m \<Rightarrow> m | _ \<Rightarrow> sample_mesh)"

lemmas mesh_eval = mesh_after_def sample_mesh_def mesh_addServiceProvider_def NewMesh_def mesh_Start_def mesh_Close_def mesh_Destroy_def
  mesh_startTransport_def mesh_register_def mesh_refresh_def mesh_store_def mesh_runHookFunc_def mesh_stopTransport_def list_registry_def sample_mesh_config_def Let_def

theorem mesh_shows_itself_witness:
  "(\<exists>i. shown list_registry sample_mesh_config (mesh_after 1) = {i} \<and> siState i = ''work'' \<and> siServices i = [''mail'']) \<and>
   shown list_registry sample_mesh_config (mesh_after 3) = {}"
proof -
  have laws: "registry_lists list_registry" by (auto simp: registry_lists_def registry_replaces_def list_registry_def)
  have q: "quiet (\<lambda>_. Ok)" by (simp add: quiet_def)
  have st: "msState sample_mesh = st_Shut" and run: "mesh_Start (\<lambda>_. Ok) list_registry sample_mesh_config sample_mesh = Ok (mesh_after 1)"
    "mesh_Close (\<lambda>_. Ok) list_registry (mesh_after 1) = Ok (mesh_after 2)" "mesh_Destroy (\<lambda>_. Ok) list_registry (mesh_after 2) = Ok (mesh_after 3)"
    by (simp_all add: mesh_eval numeral_2_eq_2 numeral_3_eq_3)
  have "fst (rgDeregister list_registry i reg) = None" for i reg by (simp add: list_registry_def)
  from mesh_shows_itself [OF laws q st run this]
  have "\<exists>i. shown list_registry sample_mesh_config (mesh_after 1) = {i} \<and> siState i = ''work'' \<and> siServices i = map seName (msServices sample_mesh)"
    "shown list_registry sample_mesh_config (mesh_after 3) = {}" by blast+
  moreover have "map seName (msServices sample_mesh) = [''mail'']" by (simp add: sample_mesh_def mesh_addServiceProvider_def NewMesh_def)
  ultimately show ?thesis by simp
qed

end
