(* ===== verification/EventBus.thy ===== *)
theory EventBus
  imports Prelude "HOL-Library.AList" "HOL-Library.Multiset"
begin

text \<open>
  \<open>eventbus/process\<close>: the event bus inside a process.  A handler is a closure: the code it runs, which is all that
  \<open>reflect.Value.Pointer\<close> tells of it, and what it captured.  A published event is handed to every handler in a task of its
  own, so what a publication does is a multiset of calls.
\<close>

section \<open>The bus\<close>

record handler_fn =
  hfCode :: nat
  hfCaptured :: nat

record bus_event =
  beTopic :: string
  bePayload :: nat

type_synonym consumer = "(nat \<times> handler_fn list) list"

definition addHandler :: "handler_fn \<Rightarrow> consumer \<Rightarrow> nat \<times> consumer" where
  "addHandler handler c =
     (let pointer = hfCode handler; c = (if map_of c pointer = None then AList.update pointer [] c else c);
          hs = the (map_of c pointer) @ [handler]
      in (length hs, AList.update pointer hs c))"

definition delHandler :: "handler_fn \<Rightarrow> consumer \<Rightarrow> nat \<times> consumer" where
  "delHandler handler c = (let c = AList.delete (hfCode handler) c in (length c, c))"

definition dispatch_event :: "bus_event \<Rightarrow> consumer \<Rightarrow> (handler_fn \<times> bus_event) list" where
  "dispatch_event e c = concat (map (\<lambda>(pointer, handlers). map (\<lambda>h. (h, e)) handlers) c)"

type_synonym bus = "(string \<times> consumer) list"

definition NewEventbus :: bus where
  "NewEventbus = []"

definition bus_Publish :: "string \<Rightarrow> nat \<Rightarrow> bus \<Rightarrow> (handler_fn \<times> bus_event) list" where
  "bus_Publish topic payload eb =
     (case map_of eb topic of None \<Rightarrow> [] | Some c \<Rightarrow> dispatch_event \<lparr>beTopic = topic, bePayload = payload\<rparr> c)"

definition bus_Subscribe :: "string \<Rightarrow> handler_fn \<Rightarrow> bus \<Rightarrow> bus" where
  "bus_Subscribe topic handler eb =
     (let c = (case map_of eb topic of Some c \<Rightarrow> c | None \<Rightarrow> []) in AList.update topic (snd (addHandler handler c)) eb)"

definition bus_Unsubscribe :: "string \<Rightarrow> handler_fn \<Rightarrow> bus \<Rightarrow> bus" where
  "bus_Unsubscribe topic handler eb =
     (case map_of eb topic of
        None \<Rightarrow> eb
      | Some c \<Rightarrow>
          let (n, c) = delHandler handler c in if n \<noteq> 0 then AList.update topic c eb else AList.delete topic eb)"

section \<open>Subscriptions\<close>

text \<open>Who is subscribed to a topic, and the bus as a table of subscriptions.\<close>

definition subscribed :: "string \<Rightarrow> bus \<Rightarrow> handler_fn multiset" where
  "subscribed topic eb = (case map_of eb topic of None \<Rightarrow> {#} | Some c \<Rightarrow> mset (concat (map snd c)))"

definition consumer_ok :: "consumer \<Rightarrow> bool" where
  "consumer_ok c \<longleftrightarrow> distinct (map fst c) \<and> (\<forall>x \<in> set c. \<forall>h \<in> set (snd x). hfCode h = fst x)"

definition bus_ok :: "bus \<Rightarrow> bool" where
  "bus_ok eb \<longleftrightarrow> distinct (map fst eb) \<and> (\<forall>x \<in> set eb. consumer_ok (snd x))"

lemma update_elems: "set (AList.update k v xs) \<subseteq> insert (k, v) (set xs)"
  by (induction xs) auto

lemma delete_elems: "set (AList.delete k xs) \<subseteq> set xs"
  by (auto simp: AList.delete_eq)

lemma mset_update_key:
  "distinct (map fst c) \<Longrightarrow> mset (concat (map snd (AList.update p hs c))) + (case map_of c p of None \<Rightarrow> {#} | Some old \<Rightarrow> mset old) =
     mset (concat (map snd c)) + mset hs"
proof (induction c)
  case (Cons a c)
  then show ?case by (cases a) (auto split: option.splits dest: map_of_SomeD simp: ac_simps image_iff)
qed simp

lemma addHandler_mset:
  assumes "consumer_ok c"
  shows "mset (concat (map snd (snd (addHandler h c)))) = add_mset h (mset (concat (map snd c)))" "consumer_ok (snd (addHandler h c))"
proof -
  define hs where "hs = (case map_of c (hfCode h) of None \<Rightarrow> [] | Some hs \<Rightarrow> hs)"
  have eq: "snd (addHandler h c) = AList.update (hfCode h) (hs @ [h]) c"
    by (cases "map_of c (hfCode h)") (auto simp: addHandler_def hs_def Let_def update_conv)
  show "mset (concat (map snd (snd (addHandler h c)))) = add_mset h (mset (concat (map snd c)))"
    unfolding eq using mset_update_key [of c "hfCode h" "hs @ [h]"] assms
    by (cases "map_of c (hfCode h)") (simp_all add: consumer_ok_def hs_def)
  have "\<forall>x \<in> set hs. hfCode x = hfCode h" using assms by (auto simp: hs_def consumer_ok_def split: option.splits dest!: map_of_SomeD)
  then show "consumer_ok (snd (addHandler h c))" unfolding eq using assms update_elems [of "hfCode h" "hs @ [h]" c]
    by (fastforce simp: consumer_ok_def distinct_update)
qed

lemma delHandler_mset:
  "consumer_ok c \<Longrightarrow> mset (concat (map snd (snd (delHandler h c)))) = filter_mset (\<lambda>x. hfCode x \<noteq> hfCode h) (mset (concat (map snd c)))"
proof (induction c)
  case (Cons a c)
  obtain p hs where a: "a = (p, hs)" by (cases a)
  have "filter_mset (\<lambda>x. hfCode x \<noteq> hfCode h) (mset hs) = (if p = hfCode h then {#} else mset hs)"
    using Cons.prems a by (auto simp: consumer_ok_def simp flip: mset_filter)
  then show ?case using Cons a by (auto simp: delHandler_def consumer_ok_def Let_def)
qed (simp add: delHandler_def)

lemma delHandler_ok: "consumer_ok c \<Longrightarrow> consumer_ok (snd (delHandler h c))"
  using delete_elems [of "hfCode h" c] by (auto simp: consumer_ok_def delHandler_def Let_def distinct_delete)

lemma delHandler_empty: "0 < fst (delHandler h c) \<longleftrightarrow> snd (delHandler h c) \<noteq> []"
  by (simp add: delHandler_def Let_def)

lemma bus_consumer: "bus_ok eb \<Longrightarrow> map_of eb topic = Some c \<Longrightarrow> consumer_ok c"
  by (auto simp: bus_ok_def dest!: map_of_SomeD)

lemma bus_ok_update: "bus_ok eb \<Longrightarrow> consumer_ok c \<Longrightarrow> bus_ok (AList.update topic c eb)"
  using update_elems [of topic c eb] by (fastforce simp: bus_ok_def distinct_update)

lemma bus_ok_delete: "bus_ok eb \<Longrightarrow> bus_ok (AList.delete topic eb)"
  using delete_elems [of topic eb] by (auto simp: bus_ok_def distinct_delete)

lemma Publish_calls: "mset (bus_Publish topic payload eb) = image_mset (\<lambda>h. (h, \<lparr>beTopic = topic, bePayload = payload\<rparr>)) (subscribed topic eb)"
proof -
  have "mset (dispatch_event e c) = image_mset (\<lambda>h. (h, e)) (mset (concat (map snd c)))" for e c
    by (induction c) (auto simp: dispatch_event_def)
  then show ?thesis by (simp add: bus_Publish_def subscribed_def split: option.split)
qed

lemma Subscribe_adds:
  assumes "bus_ok eb"
  shows "bus_ok (bus_Subscribe topic h eb)"
    "subscribed t (bus_Subscribe topic h eb) = (if t = topic then add_mset h (subscribed t eb) else subscribed t eb)"
proof -
  define c where "c = (case map_of eb topic of Some c \<Rightarrow> c | None \<Rightarrow> [])"
  have c: "consumer_ok c" 
  proof (cases "map_of eb topic")
    case (Some c')
    then show ?thesis using bus_consumer [OF assms Some] by (simp add: c_def)
  qed (simp add: c_def consumer_ok_def)
  have eq: "bus_Subscribe topic h eb = AList.update topic (snd (addHandler h c)) eb" by (simp add: bus_Subscribe_def c_def)
  show "bus_ok (bus_Subscribe topic h eb)" unfolding eq by (intro bus_ok_update assms addHandler_mset(2) c)
  show "subscribed t (bus_Subscribe topic h eb) = (if t = topic then add_mset h (subscribed t eb) else subscribed t eb)"
    unfolding eq using addHandler_mset(1) [OF c, of h] by (simp add: subscribed_def update_conv c_def split: option.split)
qed

lemma Unsubscribe_removes:
  assumes "bus_ok eb"
  shows "bus_ok (bus_Unsubscribe topic h eb)"
    "subscribed t (bus_Unsubscribe topic h eb) =
       (if t = topic then filter_mset (\<lambda>x. hfCode x \<noteq> hfCode h) (subscribed t eb) else subscribed t eb)"
proof -
  have "bus_ok (bus_Unsubscribe topic h eb) \<and> subscribed t (bus_Unsubscribe topic h eb) =
       (if t = topic then filter_mset (\<lambda>x. hfCode x \<noteq> hfCode h) (subscribed t eb) else subscribed t eb)"
  proof (cases "map_of eb topic")
    case (Some c)
    have c: "consumer_ok c" by (rule bus_consumer [OF assms Some])
    have eq: "bus_Unsubscribe topic h eb =
        (if snd (delHandler h c) = [] then AList.delete topic eb else AList.update topic (snd (delHandler h c)) eb)"
      using Some delHandler_empty [of h c] by (simp add: bus_Unsubscribe_def case_prod_unfold Let_def)
    show ?thesis unfolding eq
      using Some delHandler_mset [OF c, of h, symmetric] bus_ok_update [OF assms delHandler_ok [OF c]] bus_ok_delete [OF assms]
      by (cases "snd (delHandler h c) = []") (simp_all add: subscribed_def update_conv delete_conv del: filter_mset_eq_mempty_iff)
  qed (auto simp: bus_Unsubscribe_def subscribed_def assms)
  then show "bus_ok (bus_Unsubscribe topic h eb)" "subscribed t (bus_Unsubscribe topic h eb) =
       (if t = topic then filter_mset (\<lambda>x. hfCode x \<noteq> hfCode h) (subscribed t eb) else subscribed t eb)" by auto
qed

text \<open>C38. The event bus keeps its subscriptions.  On every bus made by subscribing and unsubscribing, a publication calls each
  handler once for each of its subscriptions to the topic and nobody else; a subscription adds one; and an unsubscription removes
  the subscriptions of the handler, but also those of every other closure with the same code.\<close>

theorem event_bus_refines:
  assumes "bus_ok eb"
  shows "mset (bus_Publish topic payload eb) = image_mset (\<lambda>h. (h, \<lparr>beTopic = topic, bePayload = payload\<rparr>)) (subscribed topic eb)
    \<and> bus_ok (bus_Subscribe topic h eb) \<and> bus_ok (bus_Unsubscribe topic h eb)
    \<and> subscribed t (bus_Subscribe topic h eb) = (if t = topic then add_mset h (subscribed t eb) else subscribed t eb)
    \<and> subscribed t (bus_Unsubscribe topic h eb) =
        (if t = topic then filter_mset (\<lambda>x. hfCode x \<noteq> hfCode h) (subscribed t eb) else subscribed t eb)"
  by (intro conjI Publish_calls Subscribe_adds Unsubscribe_removes assms)

lemma NewEventbus_ok: "bus_ok NewEventbus" "subscribed t NewEventbus = {#}"
  by (simp_all add: NewEventbus_def bus_ok_def subscribed_def)

text \<open>Two closures of one function literal: unsubscribing the first silences the second.\<close>

theorem event_bus_refines_witness:
  "subscribed ''t'' (bus_Subscribe ''t'' \<lparr>hfCode = 1, hfCaptured = 8\<rparr> (bus_Subscribe ''t'' \<lparr>hfCode = 1, hfCaptured = 7\<rparr> NewEventbus)) =
     {#\<lparr>hfCode = 1, hfCaptured = 8\<rparr>, \<lparr>hfCode = 1, hfCaptured = 7\<rparr>#} \<and>
   subscribed ''t'' (bus_Unsubscribe ''t'' \<lparr>hfCode = 1, hfCaptured = 7\<rparr>
     (bus_Subscribe ''t'' \<lparr>hfCode = 1, hfCaptured = 8\<rparr> (bus_Subscribe ''t'' \<lparr>hfCode = 1, hfCaptured = 7\<rparr> NewEventbus))) = {#}"
proof -
  let ?h = "\<lparr>hfCode = 1, hfCaptured = 7\<rparr>" and ?h' = "\<lparr>hfCode = 1, hfCaptured = 8\<rparr>"
  let ?b1 = "bus_Subscribe ''t'' ?h NewEventbus"
  have b1: "bus_ok ?b1" "subscribed ''t'' ?b1 = {#?h#}" using event_bus_refines [OF NewEventbus_ok(1)] NewEventbus_ok(2) by simp_all
  have b2: "bus_ok (bus_Subscribe ''t'' ?h' ?b1)" "subscribed ''t'' (bus_Subscribe ''t'' ?h' ?b1) = {#?h', ?h#}"
    using event_bus_refines [OF b1(1)] b1(2) by simp_all
  have "subscribed ''t'' (bus_Unsubscribe ''t'' ?h (bus_Subscribe ''t'' ?h' ?b1)) = {#}"
    using event_bus_refines [OF b2(1)] b2(2) by simp
  with b2(2) show ?thesis by simp
qed

end
