(* ===== verification/MemcacheLock.thy ===== *)
theory MemcacheLock
  imports Prelude
begin

text \<open>
  \<open>lock/memcache\<close>: the lock on a memcached server.  Releasing and renewing are two commands, a read and a compare-and-swap,
  between which other lockers may act.  The server is an argument: its commands on a store, the passing of time, and,
  for the statements, the numbers it has given to stored values.  Durations are milliseconds, as the options have them.
\<close>

section \<open>The server\<close>

datatype mc_error = NotStored | CacheMiss | CASConflict | OtherFailure nat

record 'm memcached =
  mcAdd :: "string \<Rightarrow> string \<Rightarrow> int32 \<Rightarrow> 'm \<Rightarrow> mc_error option \<times> 'm"
  mcGet :: "string \<Rightarrow> 'm \<Rightarrow> mc_error + string \<times> nat"
  mcCompareAndSwap :: "string \<Rightarrow> string \<Rightarrow> nat \<Rightarrow> int32 \<Rightarrow> 'm \<Rightarrow> mc_error option \<times> 'm"
  mcTick :: "int \<Rightarrow> 'm \<Rightarrow> 'm"
  mcUsed :: "'m \<Rightarrow> nat set"

text \<open>What memcached documents: a value that is stored gets a number that was never used; \<open>add\<close> stores exactly when there is no
  live value, and \<open>cas\<close> exactly when the live value has the number given; a command that fails changes nothing, keys do not
  interfere, and time only removes values.\<close>

definition memcached_laws :: "'m memcached \<Rightarrow> bool" where
  "memcached_laws mc \<longleftrightarrow>
     (\<forall>k v x m m'. mcAdd mc k v x m = (None, m') \<longrightarrow> (\<exists>e. mcGet mc k m = Inl e) \<and> mcUsed mc m \<subseteq> mcUsed mc m' \<and>
        (\<forall>w c. mcGet mc k m' = Inr (w, c) \<longrightarrow> w = v \<and> c \<notin> mcUsed mc m)) \<and>
     (\<forall>k v x m m' e. mcAdd mc k v x m = (Some e, m') \<longrightarrow> m' = m) \<and>
     (\<forall>k v c x m m'. mcCompareAndSwap mc k v c x m = (None, m') \<longrightarrow> (\<exists>w. mcGet mc k m = Inr (w, c)) \<and> mcUsed mc m \<subseteq> mcUsed mc m' \<and>
        (\<forall>w c'. mcGet mc k m' = Inr (w, c') \<longrightarrow> w = v \<and> c' \<notin> mcUsed mc m)) \<and>
     (\<forall>k v c x m m' e. mcCompareAndSwap mc k v c x m = (Some e, m') \<longrightarrow> m' = m) \<and>
     (\<forall>k m v c. mcGet mc k m = Inr (v, c) \<longrightarrow> c \<in> mcUsed mc m) \<and>
     (\<forall>k d m. mcUsed mc (mcTick mc d m) = mcUsed mc m \<and>
        (mcGet mc k (mcTick mc d m) = mcGet mc k m \<or> mcGet mc k (mcTick mc d m) = Inl CacheMiss))"

section \<open>The maker\<close>

datatype lock_error = IllegalOperation | DeadlineExceeded | FromClient mc_error

record 'm mc_maker =
  mmPrefix :: string
  mmExpiration :: int
  mmMaxRetries :: nat
  mmClient :: "'m memcached"

definition mc_make_key :: "'m mc_maker \<Rightarrow> string \<Rightarrow> string" where
  "mc_make_key mk name = (if mmPrefix mk = '''' then name else mmPrefix mk @ '':'' @ name)"

text \<open>\<open>int32(d.Seconds())\<close> cuts off the fraction; 0 means to memcached that the value never expires.\<close>

definition seconds32 :: "int \<Rightarrow> int32" where
  "seconds32 d = word_of_int (d div 1000)"

text \<open>One attempt of \<open>acquire\<close>, and its loop over the answers of the attempts; \<open>None\<close> when it is still trying.\<close>

definition mc_acquire_once :: "'m mc_maker \<Rightarrow> string \<Rightarrow> string \<Rightarrow> 'm \<Rightarrow> mc_error option \<times> 'm" where
  "mc_acquire_once mk key version m = mcAdd (mmClient mk) key version (seconds32 (mmExpiration mk)) m"

fun mc_acquire_loop :: "nat \<Rightarrow> nat \<Rightarrow> mc_error option list \<Rightarrow> lock_error option option" where
  "mc_acquire_loop acquireMaxRetries retries [] = None"
| "mc_acquire_loop acquireMaxRetries retries (ans # anss) =
     (case ans of
        None \<Rightarrow> Some None
      | Some e \<Rightarrow>
          if e \<noteq> NotStored then Some (Some (FromClient e))
          else if acquireMaxRetries > 0
          then if retries > acquireMaxRetries then Some (Some DeadlineExceeded)
               else mc_acquire_loop acquireMaxRetries (retries + 1) anss
          else mc_acquire_loop acquireMaxRetries retries anss)"

definition illegal :: "mc_error option \<Rightarrow> lock_error option" where
  "illegal err = (case err of None \<Rightarrow> None | Some NotStored \<Rightarrow> Some IllegalOperation | Some e \<Rightarrow> Some (FromClient e))"

definition mc_tryAcquire :: "'m mc_maker \<Rightarrow> string \<Rightarrow> string \<Rightarrow> int option \<Rightarrow> 'm \<Rightarrow> lock_error option \<times> 'm" where
  "mc_tryAcquire mk key version expiration m =
     (let x = (case expiration of Some d \<Rightarrow> if d > 0 then seconds32 d else seconds32 (mmExpiration mk) | None \<Rightarrow> seconds32 (mmExpiration mk));
          (err, m) = mcAdd (mmClient mk) key version x m
      in (illegal err, m))"

text \<open>\<open>swap\<close>: the read, and what follows it.\<close>

definition swap_get :: "'m mc_maker \<Rightarrow> string \<Rightarrow> string \<Rightarrow> 'm \<Rightarrow> lock_error + nat" where
  "swap_get mk key version m =
     (case mcGet (mmClient mk) key m of
        Inl CacheMiss \<Rightarrow> Inl IllegalOperation
      | Inl e \<Rightarrow> Inl (FromClient e)
      | Inr (val, c) \<Rightarrow> if val \<noteq> version then Inl IllegalOperation else Inr c)"

definition swap_cas :: "'m mc_maker \<Rightarrow> string \<Rightarrow> string \<Rightarrow> nat \<Rightarrow> int32 \<Rightarrow> 'm \<Rightarrow> lock_error option \<times> 'm" where
  "swap_cas mk key version c expiration m =
     (let (err, m) = mcCompareAndSwap (mmClient mk) key version c expiration m in (illegal err, m))"

text \<open>The expiration a release and a renewal ask for: \<open>past\<close> is the Unix time of a year ago.\<close>

definition release_expiration :: "int \<Rightarrow> int32" where
  "release_expiration past = word_of_int past"

definition renewal_expiration :: "'m mc_maker \<Rightarrow> int32" where
  "renewal_expiration mk = seconds32 (mmExpiration mk)"

section \<open>Lockers\<close>

text \<open>\<open>mlSwaps\<close> are the swaps of a locker between their two commands, at most one release and several renewals, each with the number
  it read and the expiration it will ask for.\<close>

record mc_locker =
  mlVersion :: string
  mlTimer :: bool
  mlSwaps :: "(nat \<times> int32 \<times> bool) list"

type_synonym 'm mc_state = "'m \<times> mc_locker list"

datatype mc_act =
    TryLock nat "int option" | Lock nat | ReleaseGet nat int | RenewGet nat | SwapCas nat nat | Elapse int

definition mc_Acquire :: "'m mc_maker \<Rightarrow> string \<Rightarrow> nat \<Rightarrow> 'm mc_state \<Rightarrow> 'm mc_state" where
  "mc_Acquire mk key i s =
     (let (err, m) = mc_acquire_once mk key (mlVersion (snd s ! i)) (fst s)
      in (m, if err = None then (snd s)[i := (snd s ! i)\<lparr>mlTimer := True\<rparr>] else snd s))"

definition mc_swap_begin :: "'m mc_maker \<Rightarrow> string \<Rightarrow> nat \<Rightarrow> int32 \<Rightarrow> bool \<Rightarrow> 'm mc_state \<Rightarrow> 'm mc_state" where
  "mc_swap_begin mk key i expiration renew s =
     (let l = (snd s ! i)\<lparr>mlTimer := False\<rparr>
      in case swap_get mk key (mlVersion l) (fst s) of
           Inl e \<Rightarrow> (fst s, (snd s)[i := l])
         | Inr c \<Rightarrow> (fst s, (snd s)[i := l\<lparr>mlSwaps := mlSwaps l @ [(c, expiration, renew)]\<rparr>]))"

text \<open>The second command; a renewal that succeeded arms the timer again.\<close>

definition mc_swap_end :: "'m mc_maker \<Rightarrow> string \<Rightarrow> nat \<Rightarrow> nat \<Rightarrow> 'm mc_state \<Rightarrow> 'm mc_state" where
  "mc_swap_end mk key i j s =
     (let l = snd s ! i
      in if j < length (mlSwaps l)
         then let (c, expiration, renew) = mlSwaps l ! j; (err, m) = swap_cas mk key (mlVersion l) c expiration (fst s);
                  l = l\<lparr>mlSwaps := take j (mlSwaps l) @ drop (Suc j) (mlSwaps l)\<rparr>
              in (m, (snd s)[i := (if renew \<and> err = None then l\<lparr>mlTimer := True\<rparr> else l)])
         else s)"

fun mc_do :: "'m mc_maker \<Rightarrow> string \<Rightarrow> mc_act \<Rightarrow> 'm mc_state \<Rightarrow> 'm mc_state" where
  "mc_do mk key (TryLock i x) s = (if i < length (snd s) then (snd (mc_tryAcquire mk key (mlVersion (snd s ! i)) x (fst s)), snd s) else s)"
| "mc_do mk key (Lock i) s = (if i < length (snd s) then mc_Acquire mk key i s else s)"
| "mc_do mk key (ReleaseGet i past) s = (if i < length (snd s) then mc_swap_begin mk key i (release_expiration past) False s else s)"
| "mc_do mk key (RenewGet i) s =
     (if i < length (snd s) \<and> mlTimer (snd s ! i) then mc_swap_begin mk key i (renewal_expiration mk) True s else s)"
| "mc_do mk key (SwapCas i j) s = (if i < length (snd s) then mc_swap_end mk key i j s else s)"
| "mc_do mk key (Elapse d) s = (mcTick (mmClient mk) d (fst s), snd s)"

definition new_lockers :: "string list \<Rightarrow> mc_locker list" where
  "new_lockers versions = map (\<lambda>v. \<lparr>mlVersion = v, mlTimer = False, mlSwaps = []\<rparr>) versions"

definition mc_run :: "'m mc_maker \<Rightarrow> string \<Rightarrow> mc_act list \<Rightarrow> 'm mc_state \<Rightarrow> 'm mc_state" where
  "mc_run mk key acts s = fold (mc_do mk key) acts s"

section \<open>A lock is its owner's\<close>

text \<open>A number that a locker has read can only be the number of its own value.\<close>

definition swaps_own :: "'m mc_maker \<Rightarrow> string \<Rightarrow> 'm mc_state \<Rightarrow> bool" where
  "swaps_own mk key s \<longleftrightarrow> (\<forall>l \<in> set (snd s). \<forall>x \<in> set (mlSwaps l).
     fst x \<in> mcUsed (mmClient mk) (fst s) \<and> (\<forall>v. mcGet (mmClient mk) key (fst s) = Inr (v, fst x) \<longrightarrow> v = mlVersion l))"

definition owner :: "'m mc_maker \<Rightarrow> string \<Rightarrow> 'm \<Rightarrow> string option" where
  "owner mk key m = (case mcGet (mmClient mk) key m of Inr (v, c) \<Rightarrow> Some v | Inl e \<Rightarrow> None)"

definition evolves :: "'m memcached \<Rightarrow> string \<Rightarrow> 'm \<Rightarrow> 'm \<Rightarrow> bool" where
  "evolves mc key m m' \<longleftrightarrow> mcUsed mc m \<subseteq> mcUsed mc m' \<and> (\<forall>v c. mcGet mc key m' = Inr (v, c) \<longrightarrow> mcGet mc key m = Inr (v, c) \<or> c \<notin> mcUsed mc m)"

lemma evolves_refl: "evolves mc key m m"
  by (simp add: evolves_def)

lemma laws_add [rule_format]:
  assumes "memcached_laws mc"
  shows "\<forall>k v x m m'. mcAdd mc k v x m = (None, m') \<longrightarrow> (\<exists>e. mcGet mc k m = Inl e) \<and> mcUsed mc m \<subseteq> mcUsed mc m' \<and>
      (\<forall>w c. mcGet mc k m' = Inr (w, c) \<longrightarrow> w = v \<and> c \<notin> mcUsed mc m)"
  using assms unfolding memcached_laws_def by (elim conjE)

lemma laws_cas [rule_format]:
  assumes "memcached_laws mc"
  shows "\<forall>k v c x m m'. mcCompareAndSwap mc k v c x m = (None, m') \<longrightarrow> (\<exists>w. mcGet mc k m = Inr (w, c)) \<and> mcUsed mc m \<subseteq> mcUsed mc m' \<and>
      (\<forall>w c'. mcGet mc k m' = Inr (w, c') \<longrightarrow> w = v \<and> c' \<notin> mcUsed mc m)"
  using assms unfolding memcached_laws_def by (elim conjE)

lemma laws_add_failed [rule_format]:
  assumes "memcached_laws mc"
  shows "\<forall>k v x m m' e. mcAdd mc k v x m = (Some e, m') \<longrightarrow> m' = m"
  using assms unfolding memcached_laws_def by (elim conjE)

lemma laws_cas_failed [rule_format]:
  assumes "memcached_laws mc"
  shows "\<forall>k v c x m m' e. mcCompareAndSwap mc k v c x m = (Some e, m') \<longrightarrow> m' = m"
  using assms unfolding memcached_laws_def by (elim conjE)

lemma laws_get [rule_format]:
  assumes "memcached_laws mc"
  shows "\<forall>k m v c. mcGet mc k m = Inr (v, c) \<longrightarrow> c \<in> mcUsed mc m"
  using assms unfolding memcached_laws_def by (elim conjE)

lemma laws_tick [rule_format]:
  assumes "memcached_laws mc"
  shows "\<forall>k d m. mcUsed mc (mcTick mc d m) = mcUsed mc m \<and> (mcGet mc k (mcTick mc d m) = mcGet mc k m \<or> mcGet mc k (mcTick mc d m) = Inl CacheMiss)"
  using assms unfolding memcached_laws_def by (elim conjE)

lemma add_evolves:
  assumes "memcached_laws mc" "mcAdd mc key v x m = (err, m')"
  shows "evolves mc key m m'"
  using assms(2) laws_add [OF assms(1), of key v x m m'] laws_add_failed [OF assms(1), of key v x m _ m']
  by (cases err) (auto simp: evolves_def)

lemma cas_evolves:
  assumes "memcached_laws mc" "mcCompareAndSwap mc key v c x m = (err, m')"
  shows "evolves mc key m m'"
  using assms(2) laws_cas [OF assms(1), of key v c x m m'] laws_cas_failed [OF assms(1), of key v c x m _ m']
  by (cases err) (auto simp: evolves_def)

lemma tick_evolves: "memcached_laws mc \<Longrightarrow> evolves mc key m (mcTick mc d m)"
  using laws_tick [where mc = mc and k = key and d = d and m = m] by (auto simp: evolves_def)

lemma swaps_own_evolves:
  assumes "swaps_own mk key (m, ls)" "evolves (mmClient mk) key m m'"
    and "\<And>l'. l' \<in> set ls' \<Longrightarrow> \<exists>l \<in> set ls. mlVersion l' = mlVersion l \<and> set (mlSwaps l') \<subseteq> set (mlSwaps l)"
  shows "swaps_own mk key (m', ls')"
  using assms by (fastforce simp: swaps_own_def evolves_def)

lemma locker_update:
  assumes "i < length ls" "mlVersion l = mlVersion (ls ! i)" "set (mlSwaps l) \<subseteq> set (mlSwaps (ls ! i))" "l' \<in> set (ls[i := l])"
  shows "\<exists>k \<in> set ls. mlVersion l' = mlVersion k \<and> set (mlSwaps l') \<subseteq> set (mlSwaps k)"
  using assms set_update_subset_insert [of ls i l] nth_mem [OF assms(1)] by blast

lemma swap_begin_own:
  assumes "memcached_laws (mmClient mk)" "swaps_own mk key s" "i < length (snd s)"
  shows "swaps_own mk key (mc_swap_begin mk key i x renew s)"
proof (cases "swap_get mk key (mlVersion (snd s ! i)) (fst s)")
  case (Inl e)
  then have eq: "mc_swap_begin mk key i x renew s = (fst s, (snd s)[i := (snd s ! i)\<lparr>mlTimer := False\<rparr>])"
    by (simp add: mc_swap_begin_def Let_def)
  show ?thesis unfolding eq
    by (rule swaps_own_evolves [of _ _ "fst s" "snd s", OF _ evolves_refl locker_update [OF assms(3)]]) (use assms(2) in simp_all)
next
  case (Inr c)
  then have get: "mcGet (mmClient mk) key (fst s) = Inr (mlVersion (snd s ! i), c)"
    by (auto simp: swap_get_def split: sum.splits mc_error.splits if_splits)
  have used: "c \<in> mcUsed (mmClient mk) (fst s)" by (rule laws_get [OF assms(1) get])
  have eq: "mc_swap_begin mk key i x renew s =
      (fst s, (snd s)[i := (snd s ! i)\<lparr>mlTimer := False, mlSwaps := mlSwaps (snd s ! i) @ [(c, x, renew)]\<rparr>])"
    using Inr by (simp add: mc_swap_begin_def Let_def)
  show ?thesis unfolding eq swaps_own_def
    using assms(2) set_update_subset_insert [of "snd s" i] nth_mem [OF assms(3)] get used by (fastforce simp: swaps_own_def)
qed

lemma swap_end_store:
  assumes "memcached_laws (mmClient mk)"
  shows "evolves (mmClient mk) key (fst s) (fst (mc_swap_end mk key i j s))"
  using cas_evolves [OF assms]
  by (auto simp: mc_swap_end_def swap_cas_def Let_def evolves_refl split: prod.splits)

lemma swap_end_own:
  assumes "memcached_laws (mmClient mk)" "swaps_own mk key s" "i < length (snd s)"
  shows "swaps_own mk key (mc_swap_end mk key i j s)"
proof (cases "j < length (mlSwaps (snd s ! i))")
  case True
  have sub: "set (take j xs @ drop (Suc j) xs) \<subseteq> set xs" for xs :: "(nat \<times> int32 \<times> bool) list"
    using set_take_subset set_drop_subset by fastforce
  let ?swaps = "take j (mlSwaps (snd s ! i)) @ drop (Suc j) (mlSwaps (snd s ! i))"
  obtain c x renew err m where e: "mlSwaps (snd s ! i) ! j = (c, x, renew)" "swap_cas mk key (mlVersion (snd s ! i)) c x (fst s) = (err, m)"
    by (metis surj_pair)
  define l where "l = (if renew \<and> err = None then (snd s ! i)\<lparr>mlSwaps := ?swaps, mlTimer := True\<rparr> else (snd s ! i)\<lparr>mlSwaps := ?swaps\<rparr>)"
  have eq: "snd (mc_swap_end mk key i j s) = (snd s)[i := l]" using True e by (simp add: mc_swap_end_def Let_def l_def)
  have "mlVersion l = mlVersion (snd s ! i)" "set (mlSwaps l) \<subseteq> set (mlSwaps (snd s ! i))"
    using sub [of "mlSwaps (snd s ! i)"] by (simp_all add: l_def)
  then have "\<exists>k \<in> set (snd s). mlVersion l' = mlVersion k \<and> set (mlSwaps l') \<subseteq> set (mlSwaps k)"
    if "l' \<in> set (snd (mc_swap_end mk key i j s))" for l'
    using locker_update [OF assms(3) _ _ that [unfolded eq]] by blast
  then show ?thesis
    using swaps_own_evolves [OF _ swap_end_store [OF assms(1), of key s i j], where ls = "snd s"] assms(2) by (metis prod.collapse)
qed (use assms(2) in \<open>simp add: mc_swap_end_def Let_def\<close>)

lemma mc_do_own:
  assumes "memcached_laws (mmClient mk)" "swaps_own mk key s"
  shows "swaps_own mk key (mc_do mk key a s)"
proof -
  have same: "\<exists>k \<in> set (snd s). mlVersion l = mlVersion k \<and> set (mlSwaps l) \<subseteq> set (mlSwaps k)" if "l \<in> set (snd s)" for l using that by blast
  have own: "swaps_own mk key (fst s, snd s)" using assms(2) by simp
  show ?thesis
  proof (cases a)
    case (TryLock i x)
    then show ?thesis using swaps_own_evolves [OF own add_evolves [OF assms(1)] same] assms(2)
      by (auto simp: mc_tryAcquire_def Let_def split: prod.splits)
  next
    case (Lock i)
    obtain err m where add: "mcAdd (mmClient mk) key (mlVersion (snd s ! i)) (seconds32 (mmExpiration mk)) (fst s) = (err, m)" by fastforce
    then show ?thesis using Lock assms(2) swaps_own_evolves [OF own add_evolves [OF assms(1) add]] same
      locker_update [of i "snd s" "(snd s ! i)\<lparr>mlTimer := True\<rparr>"]
      by (auto simp: mc_Acquire_def mc_acquire_once_def Let_def)
  next
    case (Elapse d)
    then show ?thesis using swaps_own_evolves [OF own tick_evolves [OF assms(1)] same] by simp
  qed (simp_all add: swap_begin_own [OF assms] swap_end_own [OF assms] assms(2))
qed

lemma mc_run_own:
  assumes "memcached_laws (mmClient mk)"
  shows "swaps_own mk key s \<Longrightarrow> swaps_own mk key (mc_run mk key acts s)"
  unfolding mc_run_def by (induction acts arbitrary: s) (simp_all add: mc_do_own [OF assms])

lemma mc_do_versions: "map mlVersion (snd (mc_do mk key a s)) = map mlVersion (snd s)"
proof -
  have upd: "mlVersion l = mlVersion (ls ! i) \<Longrightarrow> map mlVersion (ls[i := l]) = map mlVersion ls" for l ls i
    by (cases "i < length ls") (auto simp: map_update list_update_same_conv list_update_beyond)
  show ?thesis
    by (cases a) (auto simp: mc_Acquire_def mc_swap_begin_def mc_swap_end_def Let_def upd split: prod.splits sum.splits)
qed

lemma mc_run_versions: "map mlVersion (snd (mc_run mk key acts s)) = map mlVersion (snd s)"
  unfolding mc_run_def by (induction acts arbitrary: s) (simp_all add: mc_do_versions)

text \<open>C8. A lock is its owner's.  In every interleaving of lockers that acquire, release and renew a key, with the two commands of a
  release or a renewal apart by any number of others, the value in the store stops being a locker's version only
  by time, or by the second command of a release or renewal of a locker with that version; in particular nobody releases or
  renews a lock that has passed to another since it was read.\<close>

theorem memcache_lock_owned:
  assumes "memcached_laws (mmClient mk)"
    and "s = mc_run mk key acts (m0, new_lockers versions)"
    and "owner mk key (fst s) = Some v" "owner mk key (fst (mc_do mk key a s)) \<noteq> Some v"
  shows "owner mk key (fst (mc_do mk key a s)) = None \<and>
    ((\<exists>d. a = Elapse d) \<or> (\<exists>i j. a = SwapCas i j \<and> i < length versions \<and> versions ! i = v))"
proof -
  have "swaps_own mk key (m0, new_lockers versions)" by (auto simp: swaps_own_def new_lockers_def)
  then have own: "swaps_own mk key s" using mc_run_own [OF assms(1)] assms(2) by simp
  have "map mlVersion (snd s) = versions" using mc_run_versions [of mk key acts "(m0, new_lockers versions)"] assms(2)
    by (simp add: new_lockers_def comp_def)
  then have vers: "length (snd s) = length versions" "i < length versions \<Longrightarrow> mlVersion (snd s ! i) = versions ! i" for i by auto
  obtain c where get: "mcGet (mmClient mk) key (fst s) = Inr (v, c)" using assms(3) by (auto simp: owner_def split: sum.splits)
  have no_add: "m' = fst s" if "mcAdd (mmClient mk) key w x (fst s) = (err, m')" for w x err m'
    using that laws_add [OF assms(1), of key w x "fst s" m'] laws_add_failed [OF assms(1), of key w x "fst s" _ m'] get by (cases err) auto
  show ?thesis
  proof (cases a)
    case (TryLock i x)
    then have "fst (mc_do mk key a s) = fst s" using no_add by (auto simp: mc_tryAcquire_def Let_def split: prod.splits)
    then show ?thesis using assms(3,4) by simp
  next
    case (Lock i)
    then have "fst (mc_do mk key a s) = fst s" using no_add by (auto simp: mc_Acquire_def mc_acquire_once_def Let_def split: prod.splits)
    then show ?thesis using assms(3,4) by simp
  next
    case (SwapCas i j)
    have i: "i < length (snd s)" "j < length (mlSwaps (snd s ! i))"
      using SwapCas assms(3,4) by (auto simp: mc_swap_end_def Let_def split: if_splits)
    obtain c' x renew where x: "mlSwaps (snd s ! i) ! j = (c', x, renew)" by (metis surj_pair)
    obtain err m where cas: "mcCompareAndSwap (mmClient mk) key (mlVersion (snd s ! i)) c' x (fst s) = (err, m)" by fastforce
    have fst: "fst (mc_do mk key a s) = m" using SwapCas i x cas by (simp add: mc_swap_end_def swap_cas_def Let_def)
    have err: "err = None" using laws_cas_failed [OF assms(1), of key "mlVersion (snd s ! i)" c' x "fst s" _ m] cas fst assms(3,4) by (cases err) auto
    note stored = laws_cas [OF assms(1) cas [unfolded err]]
    have "c' = c" using stored get by simp
    moreover have "(c', x, renew) \<in> set (mlSwaps (snd s ! i))" using i(2) x by (metis nth_mem)
    ultimately have "v = mlVersion (snd s ! i)" using own i(1) get by (fastforce simp: swaps_own_def)
    moreover have "owner mk key m = None \<or> owner mk key m = Some (mlVersion (snd s ! i))"
      using stored by (auto simp: owner_def split: sum.split)
    ultimately show ?thesis using SwapCas i(1) vers fst assms(4) by auto
  next
    case (Elapse d)
    then have "owner mk key (fst (mc_do mk key a s)) = None"
      using laws_tick [OF assms(1), where k = key and d = d and m = "fst s"] assms(3,4) by (auto simp: owner_def)
    then show ?thesis using Elapse by simp
  qed (use assms(3,4) in \<open>auto simp: mc_swap_begin_def Let_def split: if_splits sum.splits\<close>)
qed

text \<open>A server for the witness: one value per key with its number and its remaining seconds, 0 for ever.\<close>

record mc_store =
  mtItems :: "string \<Rightarrow> (string \<times> nat \<times> int) option"
  mtNext :: nat

definition mt_put :: "string \<Rightarrow> string \<Rightarrow> int32 \<Rightarrow> mc_store \<Rightarrow> mc_store" where
  "mt_put k v x m =
     m\<lparr>mtItems := (mtItems m)(k := if sint x > 2592000 then None else Some (v, mtNext m, sint x)), mtNext := Suc (mtNext m)\<rparr>"

definition mt_age :: "int \<Rightarrow> (string \<times> nat \<times> int) option \<Rightarrow> (string \<times> nat \<times> int) option" where
  "mt_age d item = (case item of None \<Rightarrow> None | Some (v, c, t) \<Rightarrow> if t = 0 then item else if d < t then Some (v, c, t - d) else None)"

definition simple_memcached :: "mc_store memcached" where
  "simple_memcached = \<lparr>
     mcAdd = (\<lambda>k v x m. case mtItems m k of Some _ \<Rightarrow> (Some NotStored, m) | None \<Rightarrow> (None, mt_put k v x m)),
     mcGet = (\<lambda>k m. case mtItems m k of None \<Rightarrow> Inl CacheMiss
       | Some (v, c, _) \<Rightarrow> if c < mtNext m then Inr (v, c) else Inl CacheMiss),
     mcCompareAndSwap = (\<lambda>k v c x m. case mtItems m k of None \<Rightarrow> (Some NotStored, m)
       | Some (_, c', _) \<Rightarrow> if c' = c \<and> c < mtNext m then (None, mt_put k v x m) else (Some CASConflict, m)),
     mcTick = (\<lambda>d m. m\<lparr>mtItems := mt_age d \<circ> mtItems m\<rparr>),
     mcUsed = (\<lambda>m. {..<mtNext m})\<rparr>"

lemma simple_memcached_laws: "memcached_laws simple_memcached"
  unfolding memcached_laws_def simple_memcached_def memcached.simps
  by (intro conjI allI impI; (simp add: mt_put_def mt_age_def split: option.splits if_splits prod.splits; auto)?)

text \<open>Locker 0 reads to renew; its lock expires and locker 1 takes it; the swap of locker 0 then fails, and only the
  release of locker 1 ends the lock.\<close>

definition sample_mc_maker :: "mc_store mc_maker" where
  "sample_mc_maker = \<lparr>mmPrefix = [], mmExpiration = 3000, mmMaxRetries = 0, mmClient = simple_memcached\<rparr>"

definition sample_mc_acts :: "mc_act list" where
  "sample_mc_acts = [Lock 0, RenewGet 0, Elapse 3, Lock 1, SwapCas 0 0, ReleaseGet 1 1700000000]"

theorem memcache_lock_owned_witness:
  "let s = mc_run sample_mc_maker ''k'' sample_mc_acts (\<lparr>mtItems = \<lambda>_. None, mtNext = 0\<rparr>, new_lockers [''a'', ''b''])
   in owner sample_mc_maker ''k'' (fst s) = Some ''b'' \<and> owner sample_mc_maker ''k'' (fst (mc_do sample_mc_maker ''k'' (SwapCas 1 0) s)) = None"
proof -
  let ?s = "mc_run sample_mc_maker ''k'' sample_mc_acts (\<lparr>mtItems = \<lambda>_. None, mtNext = 0\<rparr>, new_lockers [''a'', ''b''])"
  have laws: "memcached_laws (mmClient sample_mc_maker)" by (simp add: sample_mc_maker_def simple_memcached_laws)
  have own: "owner sample_mc_maker ''k'' (fst ?s) = Some ''b''" by code_simp
  have ne: "owner sample_mc_maker ''k'' (fst (mc_do sample_mc_maker ''k'' (SwapCas 1 0) ?s)) \<noteq> Some ''b''" by code_simp
  have "owner sample_mc_maker ''k'' (fst (mc_do sample_mc_maker ''k'' (SwapCas 1 0) ?s)) = None"
    by (rule memcache_lock_owned [OF laws refl own ne, THEN conjunct1])
  with own show ?thesis unfolding Let_def by (rule conjI)
qed

text \<open>A lifetime below a second is sent as 0, which memcached takes for ever: the lock of a locker that dies is never freed.\<close>

lemma short_lock_never_expires: "0 \<le> d \<Longrightarrow> d < 1000 \<Longrightarrow> seconds32 d = 0"
  by (simp add: seconds32_def)

text \<open>Acquiring gives up: with a limit, after two attempts more than the limit.\<close>

lemma mc_acquire_gives_up:
  assumes "0 < n" "r \<le> Suc n" "n + 2 - r \<le> length anss"
  shows "mc_acquire_loop n r anss \<noteq> None"
  using assms
proof (induction n r anss rule: mc_acquire_loop.induct)
  case (2 n r ans anss)
  then show ?case by (cases "r > n") (auto split: option.splits)
qed simp

end
