(* ===== verification/ClientConn.thy ===== *)
theory ClientConn
  imports NetConn
begin

text \<open>
  \<open>network/tcp/client_conn.go\<close>: the connection of the client side.  It is the server's connection without authorization,
  pooling, a receive queue and send timeouts: the reader calls the handler itself.  The steps of its goroutines are simulated
  by steps of a server's connection, which carries over what \<open>NetConn\<close> shows of writing and closing.
\<close>

section \<open>The connection\<close>

text \<open>The fields are those of \<open>NetConn\<close>; \<open>ccFrames\<close> are the frames that were read while the connection was open.\<close>

record cconn =
  ccID :: int64
  ccUID :: int64
  ccState :: ConnState
  ccConn :: bool
  ccWriteQ :: "chWrite list"
  ccDone :: bool
  ccClose :: bool
  ccOnce :: bool
  ccClosing :: bool
  ccSenders :: "bytes list"
  ccPuts :: "nat list"
  ccSig :: bool
  ccGracers :: nat
  ccReader :: reader_pc
  ccWriter :: writer_pc
  ccLog :: "chWrite list"
  ccAcked :: "nat list"
  ccWire :: "bytes list"
  ccFrames :: "bytes list"
  ccHandled :: "bytes list"
  ccFlushed :: bool
  ccDisconnects :: nat

definition newClientConn :: "int64 \<Rightarrow> cconn" where
  "newClientConn cid = \<lparr>ccID = cid, ccUID = 0, ccState = NetOpened, ccConn = True, ccWriteQ = [], ccDone = False, ccClose = False,
     ccOnce = False, ccClosing = False, ccSenders = [], ccPuts = [], ccSig = False, ccGracers = 0, ccReader = RIdle, ccWriter = WIdle,
     ccLog = [], ccAcked = [], ccWire = [], ccFrames = [], ccHandled = [], ccFlushed = False, ccDisconnects = 0\<rparr>"

definition cc_Bind :: "int64 \<Rightarrow> cconn \<Rightarrow> cconn" where
  "cc_Bind uid c = c\<lparr>ccUID := uid\<rparr>"

definition cc_Unbind :: "cconn \<Rightarrow> cconn" where
  "cc_Unbind c = c\<lparr>ccUID := 0\<rparr>"

definition cc_checkState :: "cconn \<Rightarrow> goerr option" where
  "cc_checkState c =
     (case ccState c of NetHanged \<Rightarrow> Some ErrConnectionHanged | NetClosed \<Rightarrow> Some ErrConnectionClosed | NetOpened \<Rightarrow> None)"

section \<open>Closing\<close>

definition cc_forceClose :: "cconn \<Rightarrow> goerr option \<times> cconn" where
  "cc_forceClose c =
     (if ccState c = NetClosed then (Some ErrConnectionClosed, c) else (None, c\<lparr>ccState := NetClosed, ccClosing := True\<rparr>))"

definition cc_notifyDone :: "cconn \<Rightarrow> cconn" where
  "cc_notifyDone c = c\<lparr>ccDone := True\<rparr>"

definition cc_doClose :: "cconn \<Rightarrow> cconn option" where
  "cc_doClose c =
     (if \<not> ccClosing c then None
      else let c = c\<lparr>ccClosing := False\<rparr>
           in if ccOnce c then Some c
              else Some ((cc_notifyDone (c\<lparr>ccOnce := True, ccClose := True\<rparr>))\<lparr>ccConn := False, ccDisconnects := ccDisconnects c + 1\<rparr>))"

definition cc_graceClose :: "cconn \<Rightarrow> cconn" where
  "cc_graceClose c =
     (case ccState c of
        NetOpened \<Rightarrow> c\<lparr>ccState := NetHanged, ccSig := True\<rparr>
      | NetHanged \<Rightarrow> c\<lparr>ccGracers := ccGracers c + 1\<rparr>
      | NetClosed \<Rightarrow> c)"

definition cc_finishGraceClose :: "cconn \<Rightarrow> goerr option \<times> cconn" where
  "cc_finishGraceClose c =
     (case ccState c of
        NetHanged \<Rightarrow> (None, c\<lparr>ccState := NetClosed, ccClosing := True\<rparr>)
      | NetClosed \<Rightarrow> (None, c)
      | NetOpened \<Rightarrow> (Some ErrConnectionNotHanged, c))"

definition cc_grace_noconn :: "cconn \<Rightarrow> cconn option" where
  "cc_grace_noconn c = (if ccSig c \<and> \<not> ccConn c then Some (snd (cc_finishGraceClose (c\<lparr>ccSig := False\<rparr>))) else None)"

definition cc_grace_sig :: "cconn \<Rightarrow> cconn option" where
  "cc_grace_sig c =
     (if ccSig c \<and> length (ccWriteQ c) < write_queue_size
      then Some (c\<lparr>ccSig := False, ccGracers := ccGracers c + 1, ccWriteQ := ccWriteQ c @ [closeSig], ccLog := ccLog c @ [closeSig]\<rparr>)
      else None)"

definition cc_grace_closed :: "cconn \<Rightarrow> cconn option" where
  "cc_grace_closed c = (if ccSig c \<and> ccClose c then Some (c\<lparr>ccSig := False\<rparr>) else None)"

definition cc_grace_done :: "cconn \<Rightarrow> cconn option" where
  "cc_grace_done c =
     (if ccGracers c > 0 \<and> ccDone c then Some (snd (cc_finishGraceClose (c\<lparr>ccGracers := ccGracers c - 1\<rparr>))) else None)"

definition cc_Close :: "bool \<Rightarrow> cconn \<Rightarrow> cconn" where
  "cc_Close force c = (if force then snd (cc_forceClose c) else cc_graceClose c)"

section \<open>Sending\<close>

definition cc_enqueueWrite :: "bytes \<Rightarrow> cconn \<Rightarrow> goerr option option \<times> cconn" where
  "cc_enqueueWrite msg c =
     (if length msg = 0 then (Some None, c)
      else if ccState c \<noteq> NetOpened then (Some (cc_checkState c), c)
      else if \<not> ccConn c then (Some (Some ErrConnectionClosed), c)
      else (None, c\<lparr>ccSenders := msg # ccSenders c\<rparr>))"

definition cc_enqueue_put :: "bytes \<Rightarrow> cconn \<Rightarrow> cconn option" where
  "cc_enqueue_put msg c =
     (if msg \<in> set (ccSenders c) \<and> length (ccWriteQ c) < write_queue_size
      then Some (c\<lparr>ccSenders := remove1 msg (ccSenders c), ccWriteQ := ccWriteQ c @ [dataPacket msg],
        ccPuts := length (ccLog c) # ccPuts c, ccLog := ccLog c @ [dataPacket msg]\<rparr>) else None)"

definition cc_enqueue_return :: "nat \<Rightarrow> cconn \<Rightarrow> (goerr option \<times> cconn) option" where
  "cc_enqueue_return p c =
     (if p \<in> set (ccPuts c)
      then let c = c\<lparr>ccPuts := remove1 p (ccPuts c)\<rparr>
           in Some (if ccState c \<noteq> NetOpened then (cc_checkState c, c) else (None, c\<lparr>ccAcked := p # ccAcked c\<rparr>)) else None)"

definition cc_enqueue_closed :: "bytes \<Rightarrow> cconn \<Rightarrow> cconn option" where
  "cc_enqueue_closed msg c =
     (if msg \<in> set (ccSenders c) \<and> ccClose c then Some (c\<lparr>ccSenders := remove1 msg (ccSenders c)\<rparr>) else None)"

section \<open>The goroutines of the connection\<close>

definition cc_read :: "bytes go \<Rightarrow> cconn \<Rightarrow> cconn option" where
  "cc_read res c =
     (if ccReader c \<noteq> RIdle then None
      else case res of
        Ok data \<Rightarrow>
          Some (case ccState c of
                  NetHanged \<Rightarrow> c
                | NetClosed \<Rightarrow> c\<lparr>ccReader := REnd\<rparr>
                | NetOpened \<Rightarrow> if length data = 0 then c else c\<lparr>ccReader := RHave data, ccFrames := ccFrames c @ [data]\<rparr>)
      | _ \<Rightarrow> Some ((snd (cc_forceClose c))\<lparr>ccReader := REnd\<rparr>))"

text \<open>The receive handler runs on the reader's goroutine.\<close>

definition cc_handle :: "cconn \<Rightarrow> cconn option" where
  "cc_handle c =
     (case ccReader c of RHave data \<Rightarrow> Some (c\<lparr>ccReader := RIdle, ccHandled := ccHandled c @ [data]\<rparr>) | _ \<Rightarrow> None)"

definition cc_read_exit :: "cconn \<Rightarrow> cconn option" where
  "cc_read_exit c = (if ccReader c = RIdle \<and> ccClose c then Some (c\<lparr>ccReader := REnd\<rparr>) else None)"

definition cc_write :: "cconn \<Rightarrow> cconn option" where
  "cc_write c =
     (if ccWriter c \<noteq> WIdle then None
      else case ccWriteQ c of
        [] \<Rightarrow> None
      | closeSig # q \<Rightarrow> Some ((cc_notifyDone (c\<lparr>ccWriteQ := q\<rparr>))\<lparr>ccWriter := WEnd, ccFlushed := True\<rparr>)
      | dataPacket msg # q \<Rightarrow>
          let c = c\<lparr>ccWriteQ := q\<rparr>
          in Some (if ccState c = NetClosed then c\<lparr>ccWriter := WEnd\<rparr>
                   else if \<not> ccConn c then (snd (cc_forceClose c))\<lparr>ccWriter := WEnd\<rparr>
                   else c\<lparr>ccWriter := WBusy msg\<rparr>))"

definition cc_write_done :: "bool \<Rightarrow> cconn \<Rightarrow> cconn option" where
  "cc_write_done ok c =
     (case ccWriter c of
        WBusy msg \<Rightarrow>
          Some (if ok then c\<lparr>ccWriter := WIdle, ccWire := ccWire c @ [msg]\<rparr> else (snd (cc_forceClose c))\<lparr>ccWriter := WEnd\<rparr>)
      | _ \<Rightarrow> None)"

definition cc_write_leave :: "cconn \<Rightarrow> cconn option" where
  "cc_write_leave c = (if ccWriter c = WIdle \<and> ccClose c then Some (c\<lparr>ccWriter := WEnd\<rparr>) else None)"

section \<open>Runs\<close>

datatype cc_event =
    CBind int64 | CUnbind | CSend bytes | CPut bytes | CReturn nat | CSendClosed bytes
  | CClose bool | CDoClose | CNoConn | CSig | CSigClosed | CGraceDone
  | CRead "bytes go" | CHandle | CReadExit | CWrite | CWritten bool | CWriteExit

fun cc_step :: "cc_event \<Rightarrow> cconn \<Rightarrow> cconn option" where
  "cc_step (CBind uid) c = Some (cc_Bind uid c)"
| "cc_step CUnbind c = Some (cc_Unbind c)"
| "cc_step (CSend msg) c = Some (snd (cc_enqueueWrite msg c))"
| "cc_step (CPut msg) c = cc_enqueue_put msg c"
| "cc_step (CReturn p) c = map_option snd (cc_enqueue_return p c)"
| "cc_step (CSendClosed msg) c = cc_enqueue_closed msg c"
| "cc_step (CClose force) c = Some (cc_Close force c)"
| "cc_step CDoClose c = cc_doClose c"
| "cc_step CNoConn c = cc_grace_noconn c"
| "cc_step CSig c = cc_grace_sig c"
| "cc_step CSigClosed c = cc_grace_closed c"
| "cc_step CGraceDone c = cc_grace_done c"
| "cc_step (CRead res) c = cc_read res c"
| "cc_step CHandle c = cc_handle c"
| "cc_step CReadExit c = cc_read_exit c"
| "cc_step CWrite c = cc_write c"
| "cc_step (CWritten ok) c = cc_write_done ok c"
| "cc_step CWriteExit c = cc_write_leave c"

fun cc_run :: "cc_event list \<Rightarrow> cconn \<Rightarrow> cconn option" where
  "cc_run [] c = Some c"
| "cc_run (e # es) c = Option.bind (cc_step e c) (cc_run es)"

section \<open>Simulation by a server's connection\<close>

definition as_server :: "cconn \<Rightarrow> tconn" where
  "as_server c =
     \<lparr>tcID = ccID c, tcUID = ccUID c, tcState = ccState c, tcConn = ccConn c, tcGen = 1, tcRecvQ = [], tcRecvClosed = ccClose c,
      tcWriteQ = ccWriteQ c, tcDone = ccDone c, tcClose = ccClose c, tcOnce = ccOnce c, tcClosing = ccClosing c, tcTimer = False,
      tcSenders = ccSenders c, tcPuts = ccPuts c, tcSig = ccSig c, tcGracers = ccGracers c,
      tcReader = (if ccReader c = REnd then REnd else RIdle), tcLoop = True, tcWriter = ccWriter c, tcLog = ccLog c, tcAcked = ccAcked c,
      tcWire = ccWire c, tcFrames = [], tcHandled = [], tcFlushed = ccFlushed c, tcDisconnects = ccDisconnects c, tcPanic = False\<rparr>"

text \<open>What the server's connection does meanwhile: a frame that is handled is nothing to it.\<close>

fun server_events :: "cc_event \<Rightarrow> cconn \<Rightarrow> tc_event list" where
  "server_events (CBind uid) c = [EBind uid]"
| "server_events CUnbind c = [EUnbind]"
| "server_events (CSend msg) c = [ESend msg]"
| "server_events (CPut msg) c = [EPut msg]"
| "server_events (CReturn p) c = [EReturn p]"
| "server_events (CSendClosed msg) c = [ESendClosed msg]"
| "server_events (CClose force) c = [EClose force]"
| "server_events CDoClose c = [EDoClose]"
| "server_events CNoConn c = [ENoConn]"
| "server_events CSig c = [ESig]"
| "server_events CSigClosed c = [ESigClosed]"
| "server_events CGraceDone c = [EGraceDone]"
| "server_events (CRead res) c = (case res of Ok data \<Rightarrow> if ccState c = NetClosed then [ERead res] else [] | _ \<Rightarrow> [ERead res])"
| "server_events CHandle c = []"
| "server_events CReadExit c = [EReadExit]"
| "server_events CWrite c = [EWrite]"
| "server_events (CWritten ok) c = [EWritten ok]"
| "server_events CWriteExit c = [EWriteExit]"

lemmas cc_step_defs = cc_Bind_def cc_Unbind_def cc_enqueueWrite_def cc_enqueue_put_def cc_enqueue_return_def cc_enqueue_closed_def
  cc_Close_def cc_forceClose_def cc_graceClose_def cc_doClose_def cc_notifyDone_def cc_grace_noconn_def cc_grace_sig_def cc_grace_closed_def
  cc_grace_done_def cc_finishGraceClose_def cc_read_def cc_handle_def cc_read_exit_def cc_write_def cc_write_done_def cc_write_leave_def

text \<open>The operations correspond one by one.\<close>

named_theorems as_server_eqs

lemma as_server_fields [simp]:
  "tcState (as_server c) = ccState c" "tcConn (as_server c) = ccConn c" "tcWriteQ (as_server c) = ccWriteQ c" "tcDone (as_server c) = ccDone c"
  "tcClose (as_server c) = ccClose c" "tcOnce (as_server c) = ccOnce c" "tcClosing (as_server c) = ccClosing c" "tcSenders (as_server c) = ccSenders c"
  "tcPuts (as_server c) = ccPuts c" "tcSig (as_server c) = ccSig c" "tcGracers (as_server c) = ccGracers c" "tcWriter (as_server c) = ccWriter c"
  "tcLog (as_server c) = ccLog c" "tcAcked (as_server c) = ccAcked c" "tcWire (as_server c) = ccWire c" "tcFlushed (as_server c) = ccFlushed c"
  "tcDisconnects (as_server c) = ccDisconnects c" "tcGen (as_server c) = 1" "tcTimer (as_server c) = False"
  "tcReader (as_server c) = (if ccReader c = REnd then REnd else RIdle)"
  by (simp_all add: as_server_def)

lemma as_server_bind [as_server_eqs]:
  "tc_Bind False uid (as_server c) = as_server (cc_Bind uid c)" "tc_Unbind False (as_server c) = as_server (cc_Unbind c)"
  by (simp_all add: tc_Bind_def tc_Unbind_def uncheckAuthorize_def checkAuthorize_def cc_Bind_def cc_Unbind_def as_server_def)

lemma as_server_force [as_server_eqs]:
  "snd (forceClose False (as_server c)) = as_server (snd (cc_forceClose c))"
  "snd (forceCloseIfCurrent False (Suc 0) (as_server c)) = as_server (snd (cc_forceClose c))"
  by (simp_all add: forceCloseIfCurrent_def forceClose_def cc_forceClose_def uncheckAuthorize_def as_server_def)

lemma as_server_grace [as_server_eqs]: "graceClose False (as_server c) = as_server (cc_graceClose c)"
  by (cases "ccState c") (simp_all add: graceClose_def cc_graceClose_def uncheckAuthorize_def as_server_def)

lemma as_server_finish [as_server_eqs]: "snd (finishGraceClose (as_server c)) = as_server (snd (cc_finishGraceClose c))"
  by (cases "ccState c") (simp_all add: finishGraceClose_def cc_finishGraceClose_def as_server_def)

lemma as_server_doClose [as_server_eqs]: "tc_doClose False (as_server c) = map_option as_server (cc_doClose c)"
  by (simp add: tc_doClose_def cc_doClose_def uncheckAuthorize_def notifyDone_def cc_notifyDone_def as_server_def Let_def)

lemma as_server_updates:
  "(as_server c)\<lparr>tcSig := b\<rparr> = as_server (c\<lparr>ccSig := b\<rparr>)" "(as_server c)\<lparr>tcGracers := n\<rparr> = as_server (c\<lparr>ccGracers := n\<rparr>)"
  "(as_server c)\<lparr>tcWriteQ := q\<rparr> = as_server (c\<lparr>ccWriteQ := q\<rparr>)" "(as_server c)\<lparr>tcWriter := w\<rparr> = as_server (c\<lparr>ccWriter := w\<rparr>)"
  "(as_server c)\<lparr>tcReader := REnd\<rparr> = as_server (c\<lparr>ccReader := REnd\<rparr>)" "(as_server c)\<lparr>tcSenders := ms\<rparr> = as_server (c\<lparr>ccSenders := ms\<rparr>)"
  by (simp_all add: as_server_def)

lemma as_server_closers [as_server_eqs]:
  "grace_noconn (as_server c) = map_option as_server (cc_grace_noconn c)" "grace_sig (as_server c) = map_option as_server (cc_grace_sig c)"
  "grace_closed (as_server c) = map_option as_server (cc_grace_closed c)" "grace_done (as_server c) = map_option as_server (cc_grace_done c)"
  by (simp_all add: grace_noconn_def cc_grace_noconn_def grace_sig_def cc_grace_sig_def grace_closed_def cc_grace_closed_def grace_done_def
    cc_grace_done_def as_server_updates as_server_finish) (simp add: as_server_def)

lemma as_server_senders [as_server_eqs]:
  "snd (enqueueWrite msg (as_server c)) = as_server (snd (cc_enqueueWrite msg c))"
  "enqueue_put msg (as_server c) = map_option as_server (cc_enqueue_put msg c)"
  "map_option snd (enqueue_return p (as_server c)) = map_option as_server (map_option snd (cc_enqueue_return p c))"
  "enqueue_closed msg (as_server c) = map_option as_server (cc_enqueue_closed msg c)"
  by (simp_all add: enqueueWrite_def cc_enqueueWrite_def enqueue_put_def cc_enqueue_put_def enqueue_return_def cc_enqueue_return_def
    enqueue_closed_def cc_enqueue_closed_def as_server_def Let_def)

lemma as_server_write [as_server_eqs]:
  "tc_write False (as_server c) = map_option as_server (cc_write c)"
  "write_done False ok (as_server c) = map_option as_server (cc_write_done ok c)"
  "write_leave (as_server c) = map_option as_server (cc_write_leave c)"
proof -
  show "tc_write False (as_server c) = map_option as_server (cc_write c)"
    by (auto simp: tc_write_def cc_write_def Let_def as_server_updates as_server_force split: list.split chWrite.split)
      (simp add: notifyDone_def cc_notifyDone_def as_server_def)
  show "write_done False ok (as_server c) = map_option as_server (cc_write_done ok c)"
    by (auto simp: write_done_def cc_write_done_def as_server_updates as_server_force split: writer_pc.split) (simp add: as_server_def)
  show "write_leave (as_server c) = map_option as_server (cc_write_leave c)"
    by (simp add: write_leave_def cc_write_leave_def as_server_updates)
qed

lemma as_server_read:
  assumes "cc_read res c = Some c'"
  shows "tc_run False (server_events (CRead res) c) (as_server c) = Some (as_server c')"
proof (cases res)
  case (Ok data)
  then show ?thesis using assms
    by (cases "ccState c") (auto simp: cc_read_def tc_read_def as_server_updates as_server_def split: if_splits)
qed (use assms in \<open>auto simp: cc_read_def tc_read_def as_server_updates as_server_force split: if_splits\<close>)

lemma cc_step_simulated:
  assumes "cc_step e c = Some c'"
  shows "tc_run False (server_events e c) (as_server c) = Some (as_server c')"
proof (cases e)
  case (CRead res)
  then show ?thesis using as_server_read assms by simp
next
  case CHandle
  then show ?thesis using assms by (auto simp: cc_handle_def as_server_def split: reader_pc.splits)
next
  case CReadExit
  then show ?thesis using assms by (auto simp: cc_read_exit_def read_exit_def as_server_updates split: if_splits)
qed (use assms in \<open>auto simp: as_server_eqs tc_Close_def cc_Close_def\<close>)

lemma cc_run_simulated:
  "cc_run es c = Some c' \<Longrightarrow> \<exists>es'. tc_run False es' (as_server c) = Some (as_server c')"
proof (induction es arbitrary: c)
  case Nil
  then show ?case by (auto intro: exI [of _ "[]"])
next
  case (Cons e es)
  then obtain c1 where c1: "cc_step e c = Some c1" "cc_run es c1 = Some c'" by (auto simp: bind_eq_Some_conv)
  obtain es' where "tc_run False es' (as_server c1) = Some (as_server c')" using Cons.IH [OF c1(2)] by blast
  then show ?case using cc_step_simulated [OF c1(1)] by (intro exI [of _ "server_events e c @ es'"]) (simp add: tc_run_append)
qed

lemma as_server_new: "as_server (newClientConn cid) = tc_init False cid 0"
  by (simp add: as_server_def newClientConn_def tc_init_def checkAuthorize_def)

section \<open>Properties\<close>

definition read_ok :: "cconn \<Rightarrow> bool" where
  "read_ok c \<longleftrightarrow> ccFrames c = ccHandled c @ (case ccReader c of RHave data \<Rightarrow> [data] | _ \<Rightarrow> [])"

lemma cc_step_read_ok: "read_ok c \<Longrightarrow> cc_step e c = Some c' \<Longrightarrow> read_ok c'"
proof (cases e)
  case (CRead res)
  then show "read_ok c \<Longrightarrow> cc_step e c = Some c' \<Longrightarrow> read_ok c'"
    by (auto simp: read_ok_def cc_read_def cc_forceClose_def split: if_splits go.splits ConnState.splits)
next
  case CWrite
  then show "read_ok c \<Longrightarrow> cc_step e c = Some c' \<Longrightarrow> read_ok c'"
    by (auto simp: read_ok_def cc_write_def cc_forceClose_def cc_notifyDone_def Let_def split: if_splits list.splits chWrite.splits)
next
  case (CWritten ok)
  then show "read_ok c \<Longrightarrow> cc_step e c = Some c' \<Longrightarrow> read_ok c'"
    by (auto simp: read_ok_def cc_write_done_def cc_forceClose_def split: if_splits writer_pc.splits)
next
  case (CClose force)
  then show "read_ok c \<Longrightarrow> cc_step e c = Some c' \<Longrightarrow> read_ok c'"
    by (auto simp: read_ok_def cc_Close_def cc_forceClose_def cc_graceClose_def split: if_splits ConnState.splits)
next
  case CNoConn
  then show "read_ok c \<Longrightarrow> cc_step e c = Some c' \<Longrightarrow> read_ok c'"
    by (auto simp: read_ok_def cc_grace_noconn_def cc_finishGraceClose_def split: if_splits ConnState.splits)
next
  case CGraceDone
  then show "read_ok c \<Longrightarrow> cc_step e c = Some c' \<Longrightarrow> read_ok c'"
    by (auto simp: read_ok_def cc_grace_done_def cc_finishGraceClose_def split: if_splits ConnState.splits)
qed (auto simp: read_ok_def cc_Bind_def cc_Unbind_def cc_enqueueWrite_def cc_enqueue_put_def cc_enqueue_return_def cc_enqueue_closed_def
  cc_doClose_def cc_notifyDone_def cc_grace_sig_def cc_grace_closed_def cc_handle_def cc_read_exit_def cc_write_leave_def Let_def
  split: if_splits reader_pc.splits)

lemma cc_run_read_ok: "read_ok c \<Longrightarrow> cc_run es c = Some c' \<Longrightarrow> read_ok c'"
  by (induction es arbitrary: c) (auto simp: bind_eq_Some_conv dest: cc_step_read_ok)

text \<open>C39. A client's connection is a server's connection that never panics.  Every run of it is, but for the frames, a run of a
  server's connection without authorization, so what is on the wire is the beginning of what was accepted, and after a graceful close
  all of it that was acknowledged; the frames read are handled in order and none is lost; and the disconnect handler is called when
  the connection has closed, once.\<close>

theorem client_conn_refines:
  assumes "cc_run es (newClientConn cid) = Some c"
  shows "(\<exists>es'. tc_run False es' (tc_init False cid 0) = Some (as_server c))
    \<and> prefix (map dataPacket (ccWire c)) (ccLog c)
    \<and> (ccFlushed c \<longrightarrow> (\<forall>p \<in> set (ccAcked c). p < length (ccWire c) \<and> ccLog c ! p = dataPacket (ccWire c ! p)))
    \<and> prefix (ccHandled c) (ccFrames c) \<and> length (ccFrames c) \<le> Suc (length (ccHandled c))
    \<and> ccDisconnects c = of_bool (ccOnce c) \<and> (ccOnce c \<longrightarrow> ccState c = NetClosed)"
proof -
  obtain es' where run: "tc_run False es' (tc_init False cid 0) = Some (as_server c)"
    using cc_run_simulated [OF assms] as_server_new by metis
  have inv: "write_inv (as_server c)" "ack_inv (as_server c)" "close_inv (as_server c)" using init_run_inv [OF run] by simp_all
  have "read_ok (newClientConn cid)" by (simp add: read_ok_def newClientConn_def)
  then have "read_ok c" using cc_run_read_ok assms by blast
  then have "prefix (ccHandled c) (ccFrames c)" "length (ccFrames c) \<le> Suc (length (ccHandled c))"
    by (auto simp: read_ok_def split: reader_pc.splits)
  then show ?thesis using run wire_prefix [OF inv(1)] flushed_acked [OF inv(1,2)] inv(3) by (auto simp: close_inv_def)
qed

theorem client_conn_refines_witness:
  "\<exists>c. cc_run [CSend [1], CPut [1], CReturn 0, CRead (Ok [7]), CClose False, CSig, CHandle, CWrite, CWritten True, CWrite, CGraceDone, CDoClose]
      (newClientConn 5) = Some c \<and> ccFlushed c \<and> (\<forall>p \<in> set (ccAcked c). p < length (ccWire c)) \<and> ccHandled c = [[7]] \<and> ccDisconnects c = 1"
proof -
  let ?es = "[CSend [1], CPut [1], CReturn 0, CRead (Ok [7]), CClose False, CSig, CHandle, CWrite, CWritten True, CWrite, CGraceDone, CDoClose]"
  obtain c where c: "cc_run ?es (newClientConn 5) = Some c" "ccFlushed c" "ccHandled c = [[7]]" "ccOnce c"
    by (simp add: newClientConn_def cc_step_defs)
  then show ?thesis using client_conn_refines [OF c(1)] by auto
qed

end
